(* ===== verification/Prelude.thy ===== *)
theory Prelude
  imports Main "HOL-Library.Word" "HOL-Library.Multiset" "HOL-Library.Monad_Syntax"
begin

text \<open>
  Shared vocabulary of the development: the fixed-width integer types of the C code, the
  status codes of \<^verbatim>\<open>lib/include/chiaki/common.h\<close>, checked accesses to byte buffers, and the
  lemma collections the component theories use.

  Conventions.  A C integer of width w is a \<open>w word\<close>; a buffer is a list of bytes; a buffer
  access goes through \<open>rd8\<close>, \<open>wr8\<close>, \<open>rd_slice\<close> and \<open>wr_slice\<close>, which return \<open>None\<close> when the
  access would leave the buffer.  The option type around a result therefore stands for
  "undefined behaviour or a failed assertion", and the C status codes are a sum type inside it.
\<close>

unbundle bit_operations_syntax

subsection \<open>Integer types and buffers\<close>

type_synonym u8 = "8 word"
type_synonym u16 = "16 word"
type_synonym u32 = "32 word"
type_synonym u64 = "64 word"
type_synonym i32 = "32 word"
type_synonym i64 = "64 word"
type_synonym bytes = "u8 list"

subsection \<open>Status codes\<close>

datatype chiaki_error =
    CHIAKI_ERR_SUCCESS
  | CHIAKI_ERR_UNKNOWN
  | CHIAKI_ERR_PARSE_ADDR
  | CHIAKI_ERR_THREAD
  | CHIAKI_ERR_MEMORY
  | CHIAKI_ERR_OVERFLOW
  | CHIAKI_ERR_NETWORK
  | CHIAKI_ERR_CONNECTION_REFUSED
  | CHIAKI_ERR_HOST_DOWN
  | CHIAKI_ERR_HOST_UNREACH
  | CHIAKI_ERR_DISCONNECTED
  | CHIAKI_ERR_INVALID_DATA
  | CHIAKI_ERR_BUF_TOO_SMALL
  | CHIAKI_ERR_MUTEX_LOCKED
  | CHIAKI_ERR_CANCELED
  | CHIAKI_ERR_TIMEOUT
  | CHIAKI_ERR_INVALID_RESPONSE
  | CHIAKI_ERR_INVALID_MAC
  | CHIAKI_ERR_UNINITIALIZED
  | CHIAKI_ERR_FEC_FAILED
  | CHIAKI_ERR_VERSION_MISMATCH
  | CHIAKI_ERR_HTTP_NONOK

subsection \<open>Lemma collections\<close>

named_theorems buf_simps \<open>checked buffer accesses as conditionals\<close>
named_theorems word_norm \<open>word arithmetic read as natural-number arithmetic\<close>

subsection \<open>Checked buffer accesses\<close>

definition rd8 :: "'a list \<Rightarrow> nat \<Rightarrow> 'a option" where
  "rd8 buf i = (if i < length buf then Some (buf ! i) else None)"

definition wr8 :: "'a list \<Rightarrow> nat \<Rightarrow> 'a \<Rightarrow> 'a list option" where
  "wr8 buf i v = (if i < length buf then Some (buf[i := v]) else None)"

definition rd_slice :: "'a list \<Rightarrow> nat \<Rightarrow> nat \<Rightarrow> 'a list option" where
  "rd_slice buf i n = (if i + n \<le> length buf then Some (take n (drop i buf)) else None)"

definition wr_slice :: "'a list \<Rightarrow> nat \<Rightarrow> 'a list \<Rightarrow> 'a list option" where
  "wr_slice buf i xs =
     (if i + length xs \<le> length buf
      then Some (take i buf @ xs @ drop (i + length xs) buf) else None)"

lemma rd8_Some_iff [buf_simps]: "rd8 buf i = Some v \<longleftrightarrow> i < length buf \<and> v = buf ! i"
  by (auto simp: rd8_def)

lemma rd8_None_iff [buf_simps]: "rd8 buf i = None \<longleftrightarrow> length buf \<le> i"
  by (auto simp: rd8_def)

lemma rd8_in [simp]: "i < length buf \<Longrightarrow> rd8 buf i = Some (buf ! i)"
  by (simp add: rd8_def)

lemma wr8_in [simp]: "i < length buf \<Longrightarrow> wr8 buf i v = Some (buf[i := v])"
  by (simp add: wr8_def)

lemma wr8_length: "wr8 buf i v = Some buf' \<Longrightarrow> length buf' = length buf"
  by (auto simp: wr8_def split: if_splits)

lemma rd_slice_in [simp]: "i + n \<le> length buf \<Longrightarrow> rd_slice buf i n = Some (take n (drop i buf))"
  by (simp add: rd_slice_def)

lemma rd_slice_length: "rd_slice buf i n = Some xs \<Longrightarrow> length xs = n"
  by (auto simp: rd_slice_def split: if_splits)

lemma wr_slice_in [simp]:
  "i + length xs \<le> length buf \<Longrightarrow>
     wr_slice buf i xs = Some (take i buf @ xs @ drop (i + length xs) buf)"
  by (simp add: wr_slice_def)

lemma wr_slice_length: "wr_slice buf i xs = Some buf' \<Longrightarrow> length buf' = length buf"
  by (auto simp: wr_slice_def split: if_splits)

lemma rd_slice_wr_slice:
  "wr_slice buf i xs = Some buf' \<Longrightarrow> rd_slice buf' i (length xs) = Some xs"
  by (auto simp: wr_slice_def rd_slice_def split: if_splits)

subsection \<open>Big-endian integers\<close>

definition be16 :: "u16 \<Rightarrow> bytes" where
  "be16 w = [ucast (drop_bit 8 w), ucast w]"

definition be32 :: "u32 \<Rightarrow> bytes" where
  "be32 w = [ucast (drop_bit 24 w), ucast (drop_bit 16 w), ucast (drop_bit 8 w), ucast w]"

definition of_be16 :: "u8 \<Rightarrow> u8 \<Rightarrow> u16" where
  "of_be16 a b = push_bit 8 (ucast a) OR ucast b"

definition of_be32 :: "u8 \<Rightarrow> u8 \<Rightarrow> u8 \<Rightarrow> u8 \<Rightarrow> u32" where
  "of_be32 a b c d =
     push_bit 24 (ucast a) OR push_bit 16 (ucast b) OR push_bit 8 (ucast c) OR ucast d"

definition rd16be :: "bytes \<Rightarrow> nat \<Rightarrow> u16 option" where
  "rd16be buf i = do { a \<leftarrow> rd8 buf i; b \<leftarrow> rd8 buf (i + 1); Some (of_be16 a b) }"

definition rd32be :: "bytes \<Rightarrow> nat \<Rightarrow> u32 option" where
  "rd32be buf i = do { a \<leftarrow> rd8 buf i; b \<leftarrow> rd8 buf (i + 1);
                       c \<leftarrow> rd8 buf (i + 2); d \<leftarrow> rd8 buf (i + 3); Some (of_be32 a b c d) }"

lemma length_be16 [simp]: "length (be16 w) = 2"
  by (simp add: be16_def)

lemma length_be32 [simp]: "length (be32 w) = 4"
  by (simp add: be32_def)

lemma of_be16_be16 [simp]: "of_be16 (ucast (drop_bit 8 w)) (ucast w) = (w :: u16)"
  by (rule bit_word_eqI) (auto simp: of_be16_def bit_simps)

lemma of_be32_be32 [simp]:
  "of_be32 (ucast (drop_bit 24 w)) (ucast (drop_bit 16 w)) (ucast (drop_bit 8 w)) (ucast w)
     = (w :: u32)" (is "?l = w")
proof (rule bit_word_eqI)
  fix n
  show "bit ?l n = bit w n" if "n < LENGTH(32)"
    using that
    by (cases "n < 8"; cases "n < 16"; cases "n < 24") (auto simp: of_be32_def bit_simps)
qed

lemma rd16be_in [simp]:
  "i + 2 \<le> length buf \<Longrightarrow> rd16be buf i = Some (of_be16 (buf ! i) (buf ! (i + 1)))"
  by (simp add: rd16be_def)

lemma rd32be_in [simp]:
  "i + 4 \<le> length buf \<Longrightarrow>
     rd32be buf i = Some (of_be32 (buf ! i) (buf ! (i + 1)) (buf ! (i + 2)) (buf ! (i + 3)))"
  by (simp add: rd32be_def)

text \<open>Reading a field back from where it was laid down.\<close>

lemma rd8_at: "length xs = n \<Longrightarrow> rd8 (xs @ v # ys) n = Some v"
  by (auto simp: rd8_def)

lemma rd16be_at: "length xs = n \<Longrightarrow> rd16be (xs @ be16 w @ ys) n = Some w"
  by (auto simp: be16_def nth_append)

lemma rd32be_at: "length xs = n \<Longrightarrow> rd32be (xs @ be32 w @ ys) n = Some w"
  by (auto simp: be32_def nth_append)

lemma drop_at: "length xs = n \<Longrightarrow> drop n (xs @ ys) = ys"
  by simp

subsection \<open>Low-order masks\<close>

lemma unat_ucast_up [word_norm]:
  fixes w :: "'a::len word"
  assumes "LENGTH('a) \<le> LENGTH('b)"
  shows "unat (ucast w :: 'b::len word) = unat w"
proof -
  have "unat w < 2 ^ LENGTH('b)"
    using unsigned_less [of w, where 'a = nat] power_increasing [OF assms, of "2 :: nat"]
    by linarith
  then show ?thesis by (simp add: unsigned_ucast_eq take_bit_nat_eq_self)
qed

lemma unat_less_iff_uint: "unat w < n \<longleftrightarrow> uint w < int n"
  by (simp only: uint_nat of_nat_less_iff)

lemma unat64_less: "unat (w :: u64) < 2 ^ 64"
  using unsigned_less [of w, where 'a = nat] by simp

lemma unat_max_minus: "unat (- 1 - k :: u64) = 2 ^ 64 - 1 - unat k"
proof -
  have m: "(- 1 :: u64) = 0xffffffffffffffff" by simp
  have "unat k \<le> 0xffffffffffffffff" using unat64_less [of k] by simp
  then show ?thesis unfolding m by (simp add: unat_sub_if')
qed

lemma unat_inj: "unat (a :: 'a::len word) = unat b \<Longrightarrow> a = b"
  by (simp add: word_unat_eq_iff)

lemma unat_two_power: "k < LENGTH('a) \<Longrightarrow> unat (2 ^ k :: 'a::len word) = 2 ^ k"
  using unat_of_nat [of "2 ^ k", where 'a = 'a] by simp

lemma unat_and_mask_mod:
  fixes w :: "'a::len word"
  shows "k < LENGTH('a) \<Longrightarrow> unat (w AND (2 ^ k - 1)) = unat w mod 2 ^ k"
  by (simp add: mask_eq_exp_minus_1 [symmetric] take_bit_eq_mask [symmetric]
      take_bit_eq_mod unat_mod_distrib unat_two_power)

lemma sint_small:
  fixes w :: "'a::len word"
  assumes "unat w < 2 ^ (LENGTH('a) - 1)"
  shows "sint w = int (unat w)"
proof -
  let ?m = "LENGTH('a) - Suc 0"
  have u: "uint w < 2 ^ ?m"
    using assms unfolding unat_less_iff_uint of_nat_power of_nat_numeral One_nat_def .
  have "- (2 ^ ?m) \<le> uint w"
    using uint_ge_0 [of w] by (meson neg_le_0_iff_le order_trans zero_le_numeral zero_le_power)
  then have "signed_take_bit ?m (uint w) = uint w"
    using u by (rule signed_take_bit_int_eq_self)
  then show ?thesis by (simp add: sint_uint)
qed

lemma scast_small:
  fixes w :: "'a::len word"
  assumes "unat w < 2 ^ (LENGTH('a) - 1)"
  shows "(scast w :: 'b::len word) = ucast w"
  unfolding scast_eq sint_small [OF assms] of_nat_unat by (rule ucast_eq [symmetric])

lemma ucast_down_add:
  fixes x y :: "'a::len word"
  assumes "LENGTH('b) \<le> LENGTH('a)"
  shows "(ucast (x + y) :: 'b::len word) = ucast x + ucast y"
proof (rule word_unat_eq_iff [THEN iffD2])
  have "(2 :: nat) ^ LENGTH('b) dvd 2 ^ LENGTH('a)" using assms by (rule le_imp_power_dvd)
  then show "unat (ucast (x + y) :: 'b word) = unat (ucast x + ucast y :: 'b word)"
    by (simp add: unsigned_ucast_eq take_bit_eq_mod unat_word_ariths mod_mod_cancel mod_simps)
qed

subsection \<open>Computations that may fail with a status code\<close>

text \<open>\<open>None\<close> is undefined behaviour, \<open>Some (Inl e)\<close> a return with the error \<open>e\<close>, and
  \<open>Some (Inr x)\<close> the value \<open>x\<close>.\<close>

type_synonym 'a result = "(chiaki_error + 'a) option"

abbreviation ret_ok :: "'a \<Rightarrow> 'a result" where
  "ret_ok x \<equiv> Some (Inr x)"

abbreviation ret_err :: "chiaki_error \<Rightarrow> 'a result" where
  "ret_err e \<equiv> Some (Inl e)"

definition checked :: "'a option \<Rightarrow> 'a result" where
  "checked m = map_option Inr m"

definition and_then :: "'a result \<Rightarrow> ('a \<Rightarrow> 'b result) \<Rightarrow> 'b result" where
  "and_then m f = (case m of None \<Rightarrow> None | Some (Inl e) \<Rightarrow> Some (Inl e) | Some (Inr x) \<Rightarrow> f x)"

lemma and_then_simps [simp]:
  "and_then None f = None" "and_then (ret_err e) f = ret_err e" "and_then (ret_ok x) f = f x"
  by (simp_all add: and_then_def)

lemma checked_simps [simp]: "checked None = None" "checked (Some x) = ret_ok x"
  by (simp_all add: checked_def)

lemma and_then_cong [fundef_cong]:
  "m = m' \<Longrightarrow> (\<And>x. m' = ret_ok x \<Longrightarrow> f x = f' x) \<Longrightarrow> and_then m f = and_then m' f'"
  by (auto simp: and_then_def split: option.splits sum.splits)

lemma and_then_assoc: "and_then (and_then m f) g = and_then m (\<lambda>x. and_then (f x) g)"
  by (auto simp: and_then_def split: option.splits sum.splits)

lemma and_then_ok_iff [buf_simps]:
  "and_then m f = ret_ok y \<longleftrightarrow> (\<exists>x. m = ret_ok x \<and> f x = ret_ok y)"
  by (auto simp: and_then_def split: option.splits sum.splits)

lemma and_then_None_iff [buf_simps]:
  "and_then m f = None \<longleftrightarrow> m = None \<or> (\<exists>x. m = ret_ok x \<and> f x = None)"
  by (auto simp: and_then_def split: option.splits sum.splits)

lemma checked_ok_iff [buf_simps]: "checked m = ret_ok x \<longleftrightarrow> m = Some x"
  by (simp add: checked_def)

lemma checked_None_iff [buf_simps]: "checked m = None \<longleftrightarrow> m = None"
  by (simp add: checked_def)

end
