(* ===== verification/SeqNum.thy ===== *)
theory SeqNum
  imports Prelude
begin

text \<open>
  Serial-number comparison (\<^verbatim>\<open>lib/include/chiaki/seqnum.h\<close>, after RFC 1982).  The header
  instantiates one macro at 16 and at 32 bits; here it is one polymorphic pair of functions, the
  bits being the length of the word type.  The C code computes the difference in a wider signed
  type (int32 and int64), in which it cannot overflow: it is an integer here.

  The locale \<open>serial_space\<close> is the interface through which the reorder queue sees sequence
  numbers: the three function pointers of \<^verbatim>\<open>ChiakiReorderQueue\<close> and their arithmetic meaning.
\<close>

subsection \<open>The comparison macro\<close>

definition chiaki_seq_num_lt :: "'a::len word \<Rightarrow> 'a word \<Rightarrow> bool" where
  "chiaki_seq_num_lt a b =
     (if a = b then False
      else let d = uint b - uint a in
        (a < b \<and> d < 2 ^ (LENGTH('a) - 1)) \<or> (a > b \<and> - d > 2 ^ (LENGTH('a) - 1)))"

definition chiaki_seq_num_gt :: "'a::len word \<Rightarrow> 'a word \<Rightarrow> bool" where
  "chiaki_seq_num_gt a b =
     (if a = b then False
      else let d = uint b - uint a in
        (a < b \<and> d > 2 ^ (LENGTH('a) - 1)) \<or> (a > b \<and> - d < 2 ^ (LENGTH('a) - 1)))"

lemma uint_diff_wrap:
  fixes a b :: "'a::len word"
  shows "uint (b - a) = (if uint a \<le> uint b then uint b - uint a
                         else uint b - uint a + 2 ^ LENGTH('a))"
  by (rule uint_sub_if')

lemma half_lt_full: "(2 :: int) ^ LENGTH('a::len) = 2 * 2 ^ (LENGTH('a) - 1)"
  by (cases "LENGTH('a)") (use len_gt_0 [where 'a = 'a] in auto)

text \<open>Both comparisons are statements about the forward distance modulo the space.\<close>

lemma seq_num_lt_iff_uint:
  fixes a b :: "'a::len word"
  shows "chiaki_seq_num_lt a b \<longleftrightarrow> a \<noteq> b \<and> uint (b - a) < 2 ^ (LENGTH('a) - 1)"
  using uint_lt2p [of a] uint_lt2p [of b] uint_ge_0 [of a] uint_ge_0 [of b]
  by (auto simp: chiaki_seq_num_lt_def Let_def uint_diff_wrap half_lt_full word_less_def
      word_uint_eq_iff)

lemma seq_num_gt_iff_lt: "chiaki_seq_num_gt a b \<longleftrightarrow> chiaki_seq_num_lt b a"
  by (auto simp: chiaki_seq_num_gt_def chiaki_seq_num_lt_def Let_def)

lemma seq_num_lt_iff:
  fixes a b :: "'a::len word"
  shows "chiaki_seq_num_lt a b \<longleftrightarrow> 0 < unat (b - a) \<and> unat (b - a) < 2 ^ (LENGTH('a) - 1)"
proof -
  have "int (unat (b - a)) < 2 ^ (LENGTH('a) - 1) \<longleftrightarrow> unat (b - a) < 2 ^ (LENGTH('a) - 1)"
    by (metis of_nat_less_iff of_nat_numeral of_nat_power)
  then show ?thesis
    by (auto simp: seq_num_lt_iff_uint unat_gt_0 simp flip: uint_nat)
qed

lemma seq_num_lt_irrefl [simp]: "\<not> chiaki_seq_num_lt a a"
  by (simp add: chiaki_seq_num_lt_def)

lemma seq_num_gt_irrefl [simp]: "\<not> chiaki_seq_num_gt a a"
  by (simp add: chiaki_seq_num_gt_def)

lemma wrapped_diff_swap:
  fixes x y m :: nat
  shows "x < m \<Longrightarrow> y < m \<Longrightarrow> x \<noteq> y \<Longrightarrow>
     (if y \<le> x then x - y else x + m - y) = m - (if x \<le> y then y - x else y + m - x)"
  by auto

lemma unat_minus_swap:
  fixes a b :: "'a::len word"
  shows "a \<noteq> b \<Longrightarrow> unat (a - b) = 2 ^ LENGTH('a) - unat (b - a)"
  unfolding unat_sub_if' word_unat_eq_iff
  by (rule wrapped_diff_swap [OF unsigned_less unsigned_less])

lemma half_nat: "(2 :: nat) ^ LENGTH('a::len) = 2 * 2 ^ (LENGTH('a) - 1)"
  by (cases "LENGTH('a)") (use len_gt_0 [where 'a = 'a] in auto)

lemma seq_num_lt_asym:
  fixes a b :: "'a::len word"
  assumes "chiaki_seq_num_lt a b"
  shows "\<not> chiaki_seq_num_lt b a"
proof -
  have ne: "a \<noteq> b" using assms by auto
  have "unat (b - a) < 2 ^ (LENGTH('a) - 1)" using assms by (simp add: seq_num_lt_iff)
  then have "\<not> unat (a - b) < 2 ^ (LENGTH('a) - 1)"
    unfolding unat_minus_swap [OF ne] half_nat by linarith
  then show ?thesis by (simp add: seq_num_lt_iff)
qed

text \<open>Two distinct numbers are incomparable exactly at half the space.\<close>

lemma seq_num_incomparable_iff:
  fixes a b :: "'a::len word"
  assumes "a \<noteq> b"
  shows "\<not> chiaki_seq_num_lt a b \<and> \<not> chiaki_seq_num_lt b a
     \<longleftrightarrow> unat (b - a) = 2 ^ (LENGTH('a) - 1)"
proof -
  have "0 < unat (b - a)" "0 < unat (a - b)"
    using assms by (auto simp: unat_gt_0)
  then show ?thesis
    using unat_minus_swap [OF assms] half_nat [where 'a = 'a]
      unsigned_less [of "b - a", where 'a = nat]
    by (auto simp: seq_num_lt_iff)
qed

lemma seq_num_lt_add:
  fixes a :: "'a::len word"
  shows "0 < k \<Longrightarrow> k < 2 ^ (LENGTH('a) - 1) \<Longrightarrow> chiaki_seq_num_lt a (a + of_nat k)"
proof -
  assume k: "0 < k" "k < 2 ^ (LENGTH('a) - 1)"
  then have "k < 2 ^ LENGTH('a)"
    by (meson diff_le_self less_le_trans one_le_numeral power_increasing)
  with k show ?thesis
    by (simp add: seq_num_lt_iff unat_of_nat)
qed

subsection \<open>The comparison is RFC 1982 serial-number order\<close>

text \<open>The comparison functions implement serial-number arithmetic: \<open>a\<close> precedes \<open>b\<close> exactly
  when the forward distance from \<open>a\<close> to \<open>b\<close> is positive and less than half the number space,
  \<open>gt\<close> is the converse of \<open>lt\<close>, and two numbers are related neither way only when they are
  equal or exactly half the space apart.\<close>

theorem seq_num_rfc1982:
  fixes a b :: "'a::len word"
  shows "(chiaki_seq_num_lt a b \<longleftrightarrow> unat (b - a) \<in> {1 ..< 2 ^ (LENGTH('a) - 1)})
       \<and> (chiaki_seq_num_gt a b \<longleftrightarrow> chiaki_seq_num_lt b a)
       \<and> ((\<not> chiaki_seq_num_lt a b \<and> \<not> chiaki_seq_num_gt a b)
            = (a = b \<or> unat (b - a) = 2 ^ (LENGTH('a) - 1)))"
proof (cases "a = b")
  case True
  then show ?thesis by simp
next
  case False
  then show ?thesis
    using seq_num_incomparable_iff [of a b]
    by (auto simp: seq_num_gt_iff_lt) (auto simp: seq_num_lt_iff)
qed

subsection \<open>The interface of the reorder queue\<close>

text \<open>
  Forward distance modulo \<open>m\<close>, on integers first.
\<close>

definition mdist :: "nat \<Rightarrow> int \<Rightarrow> int \<Rightarrow> nat" where
  "mdist m a b = nat ((b - a) mod int m)"

lemma int_mdist: "0 < m \<Longrightarrow> int (mdist m a b) = (b - a) mod int m"
  by (simp add: mdist_def)

lemma mdist_less: "0 < m \<Longrightarrow> mdist m a b < m"
  by (simp add: mdist_def nat_less_iff)

lemma mdist_self [simp]: "mdist m a a = 0"
  by (simp add: mdist_def)

lemma mod_dist:
  fixes m :: int
  shows "(b - (a + k) mod m) mod m = ((b - a) mod m - k) mod m"
  by (simp only: mod_diff_right_eq mod_diff_left_eq diff_diff_eq)

lemma mdist_step:
  "0 < m \<Longrightarrow> int (mdist m ((a + int k) mod int m) b) = (int (mdist m a b) - int k) mod int m"
  by (simp add: int_mdist mod_dist)

lemma mdist_from:
  assumes "0 < m" "k \<le> mdist m a b"
  shows "mdist m ((a + int k) mod int m) b = mdist m a b - k"
proof -
  have "(int (mdist m a b) - int k) mod int m = int (mdist m a b) - int k"
    using assms mdist_less [of m a b] by (intro mod_pos_pos_trivial) linarith+
  then show ?thesis using mdist_step [OF assms(1), of a k b] assms(2) by linarith
qed

lemma mdist_to:
  assumes "0 < m" "mdist m a b < k" "k \<le> m"
  shows "mdist m ((a + int k) mod int m) b = m - (k - mdist m a b)"
proof -
  have "(int (mdist m a b) - int k + int m) mod int m = int (mdist m a b) - int k + int m"
    using assms by (intro mod_pos_pos_trivial) linarith+
  then show ?thesis using mdist_step [OF assms(1), of a k b] assms by simp
qed

lemma mdist_swap:
  assumes "0 < m" "0 < mdist m a b"
  shows "mdist m b a = m - mdist m a b"
proof -
  have "int (mdist m b a) = (- int (mdist m a b) + int m) mod int m"
    using assms by (simp add: int_mdist mod_minus_eq)
  also have "\<dots> = - int (mdist m a b) + int m"
    using assms mdist_less [of m a b] by (intro mod_pos_pos_trivial) linarith+
  finally show ?thesis using mdist_less [of m a b] assms by linarith
qed

lemma mdist_fwd:
  assumes "k < m"
  shows "mdist m a ((a + int k) mod int m) = k"
proof -
  have "int (mdist m a ((a + int k) mod int m)) = (a + int k - a) mod int m"
    using assms by (simp add: int_mdist mod_diff_left_eq)
  then show ?thesis using assms by simp
qed

text \<open>
  The number of sequence numbers, and the distance between two 64-bit carriers.
\<close>

definition space :: "nat \<Rightarrow> nat" where
  "space bits = 2 ^ bits"

definition sdist :: "nat \<Rightarrow> u64 \<Rightarrow> u64 \<Rightarrow> nat" where
  "sdist bits a b = mdist (space bits) (uint a) (uint b)"

lemma space_pos [simp]: "0 < space bits"
  by (simp add: space_def)

locale serial_space =
  fixes bits :: nat
    and gt lt :: "u64 \<Rightarrow> u64 \<Rightarrow> bool"
    and add :: "u64 \<Rightarrow> u64 \<Rightarrow> u64"
  assumes bits_pos: "2 \<le> bits" and bits_le: "bits \<le> 32"
    and lt_iff: "lt a b \<longleftrightarrow> 0 < sdist bits a b \<and> sdist bits a b < space (bits - 1)"
    and gt_iff: "gt a b \<longleftrightarrow> lt b a"
    and uint_add: "uint (add a b) = (uint a + uint b) mod int (space bits)"
begin

lemma half: "space bits = 2 * space (bits - 1)"
  using bits_pos by (cases bits) (auto simp: space_def)

lemma full_le: "space bits \<le> 4294967296"
  using power_increasing [OF bits_le, of "2 :: nat"] by (simp add: space_def)

lemma sdist_less: "sdist bits a b < space bits"
  by (simp add: sdist_def mdist_less)

lemma sdist_self [simp]: "sdist bits a a = 0"
  by (simp add: sdist_def)

lemma uint_of_nat_small: "k \<le> space bits \<Longrightarrow> uint (of_nat k :: u64) = int k"
  using full_le by (simp add: unsigned_of_nat take_bit_nat_eq_self_iff take_bit_int_eq_self)

lemma uint_small: "unat a < space bits \<Longrightarrow> uint a mod int (space bits) = uint a" for a :: u64
  by (intro mod_pos_pos_trivial) (simp_all add: unat_less_iff_uint)

lemma uint_add_of_nat:
  "k \<le> space bits \<Longrightarrow> uint (add a (of_nat k)) = (uint a + int k) mod int (space bits)"
  by (simp add: uint_add uint_of_nat_small)

lemma add_sdist: "unat b < space bits \<Longrightarrow> add a (of_nat (sdist bits a b)) = b"
  using sdist_less [of a b] uint_add_of_nat [of "sdist bits a b" a]
  by (simp add: word_uint_eq_iff sdist_def int_mdist mod_add_right_eq uint_small)

lemma sdist_add: "k < space bits \<Longrightarrow> sdist bits a (add a (of_nat k)) = k"
  by (simp add: sdist_def uint_add_of_nat mdist_fwd)

lemma add_add:
  "j + k \<le> space bits \<Longrightarrow> add (add a (of_nat j)) (of_nat k) = add a (of_nat (j + k))"
  using uint_add_of_nat [of j a] uint_add_of_nat [of k "add a (of_nat j)"]
    uint_add_of_nat [of "j + k" a]
  by (intro word_uint_eq_iff [THEN iffD2]) (simp add: mod_add_left_eq add.assoc)

lemma add_0: "unat a < space bits \<Longrightarrow> add a 0 = a"
  by (simp add: word_uint_eq_iff uint_add uint_small)

lemma unat_add_less: "unat (add a b) < space bits"
proof -
  have "uint (add a b) < int (space bits)" by (simp add: uint_add)
  then show ?thesis by (simp only: unat_less_iff_uint)
qed

lemma sdist_from_add:
  "k \<le> sdist bits a b \<Longrightarrow> sdist bits (add a (of_nat k)) b = sdist bits a b - k"
  using sdist_less [of a b] uint_add_of_nat [of k a] by (simp add: sdist_def mdist_from)

lemma sdist_to_add:
  "sdist bits a b < k \<Longrightarrow> k \<le> space bits \<Longrightarrow>
     sdist bits (add a (of_nat k)) b = space bits - (k - sdist bits a b)"
  using uint_add_of_nat [of k a] by (simp add: sdist_def mdist_to)

lemma sdist_swap: "0 < sdist bits a b \<Longrightarrow> sdist bits b a = space bits - sdist bits a b"
  unfolding sdist_def by (rule mdist_swap) simp

lemma sdist_0_iff:
  "unat a < space bits \<Longrightarrow> unat b < space bits \<Longrightarrow> sdist bits a b = 0 \<longleftrightarrow> a = b"
  using add_sdist [of b a] add_0 [of a] by auto

end

text \<open>Reading the distance at the width of the numbers.\<close>

lemma sdist_ucast:
  fixes a b :: u64
  assumes "bits = LENGTH('a::len)" "LENGTH('a) \<le> 64"
  shows "sdist bits a b = unat ((ucast b :: 'a word) - ucast a)"
proof -
  have "uint ((ucast b :: 'a word) - ucast a) = (uint b - uint a) mod 2 ^ LENGTH('a)"
    by (simp add: uint_word_ariths unsigned_ucast_eq take_bit_eq_mod mod_diff_eq)
  then show ?thesis
    using assms by (simp add: sdist_def mdist_def space_def unat_eq_nat_uint)
qed

end
