(* ===== verification/ReorderQueue.thy ===== *)
theory ReorderQueue
  imports SeqNum
begin

text \<open>
  The reorder queue (\<^verbatim>\<open>lib/src/reorderqueue.c\<close>, \<^verbatim>\<open>lib/include/chiaki/reorderqueue.h\<close>): a ring of
  \<open>2 ^ size_exp\<close> slots holding the packets whose sequence numbers lie in the window
  \<open>[begin, begin + count)\<close>.  The C struct is the record \<open>reorder_queue\<close>; the drop callback is
  modelled by the list of its invocations, in order; \<open>None\<close> stands for a failed \<open>assert\<close> or an
  access outside the ring.  The \<open>user\<close> pointers are \<open>'u option\<close>, \<open>None\<close> being NULL.

  After the operations come the abstract window (a base number and a list of optional packets),
  the refinement proof inside the locale \<open>serial_space\<close>, and its instance for 32-bit numbers.
  The 16-bit instance does not satisfy the locale: its addition does not wrap, and a
  theorem about its queues shows what that costs.

  \<open>QUEUE_SIZE\<close> and \<open>IDX_MASK\<close> are \<open>int\<close> expressions in C, defined for \<open>size_exp \<le> 30\<close>; the
  invariant asks for that range, in which they have the 64-bit values used here.
\<close>

subsection \<open>State\<close>

datatype drop_strategy =
    CHIAKI_REORDER_QUEUE_DROP_STRATEGY_BEGIN
  | CHIAKI_REORDER_QUEUE_DROP_STRATEGY_END

record 'u reorder_queue_entry =
  e_user :: "'u option"
  e_set :: bool

record 'u reorder_queue =
  size_exp :: nat
  slots :: "'u reorder_queue_entry list"
  rq_begin :: u64
  rq_count :: u64
  seq_num_gt :: "u64 \<Rightarrow> u64 \<Rightarrow> bool"
  seq_num_lt :: "u64 \<Rightarrow> u64 \<Rightarrow> bool"
  seq_num_add :: "u64 \<Rightarrow> u64 \<Rightarrow> u64"
  rq_strategy :: drop_strategy
  rq_drop_cb :: bool

type_synonym 'u drops = "(u64 \<times> 'u option) list"

definition rq_ge :: "'u reorder_queue \<Rightarrow> u64 \<Rightarrow> u64 \<Rightarrow> bool" where
  "rq_ge q a b = (a = b \<or> seq_num_gt q a b)"

definition chiaki_reorder_queue_size :: "'u reorder_queue \<Rightarrow> u64" where
  "chiaki_reorder_queue_size q = 2 ^ size_exp q"

definition chiaki_reorder_queue_count :: "'u reorder_queue \<Rightarrow> u64" where
  "chiaki_reorder_queue_count q = rq_count q"

definition rq_idx :: "'u reorder_queue \<Rightarrow> u64 \<Rightarrow> nat" where
  "rq_idx q seq_num = unat (seq_num AND (2 ^ size_exp q - 1))"

definition rq_entry :: "'u reorder_queue \<Rightarrow> u64 \<Rightarrow> 'u reorder_queue_entry option" where
  "rq_entry q seq_num = rd8 (slots q) (rq_idx q seq_num)"

definition rq_put :: "'u reorder_queue \<Rightarrow> u64 \<Rightarrow> 'u reorder_queue_entry \<Rightarrow>
    'u reorder_queue option" where
  "rq_put q seq_num e =
     map_option (\<lambda>es. q\<lparr>slots := es\<rparr>) (wr8 (slots q) (rq_idx q seq_num) e)"

definition drop_call :: "'u reorder_queue \<Rightarrow> u64 \<Rightarrow> 'u option \<Rightarrow> 'u drops" where
  "drop_call q seq_num u = (if rq_drop_cb q then [(seq_num, u)] else [])"

subsection \<open>Initialisation\<close>

text \<open>\<open>alloc_ok\<close> says whether \<open>calloc\<close> succeeded.\<close>

definition chiaki_reorder_queue_init ::
    "bool \<Rightarrow> nat \<Rightarrow> u64 \<Rightarrow> (u64 \<Rightarrow> u64 \<Rightarrow> bool) \<Rightarrow> (u64 \<Rightarrow> u64 \<Rightarrow> bool) \<Rightarrow> (u64 \<Rightarrow> u64 \<Rightarrow> u64) \<Rightarrow>
     chiaki_error \<times> 'u reorder_queue" where
  "chiaki_reorder_queue_init alloc_ok sz seq_num_start gt lt add =
     (if alloc_ok then CHIAKI_ERR_SUCCESS else CHIAKI_ERR_MEMORY,
      \<lparr> size_exp = sz,
        slots = (if alloc_ok then replicate (2 ^ sz) \<lparr>e_user = None, e_set = False\<rparr> else []),
        rq_begin = seq_num_start, rq_count = 0,
        seq_num_gt = gt, seq_num_lt = lt, seq_num_add = add,
        rq_strategy = CHIAKI_REORDER_QUEUE_DROP_STRATEGY_END, rq_drop_cb = False \<rparr>)"

definition seq_num_16_gt :: "u64 \<Rightarrow> u64 \<Rightarrow> bool" where
  "seq_num_16_gt a b = chiaki_seq_num_gt (ucast a :: u16) (ucast b)"

definition seq_num_16_lt :: "u64 \<Rightarrow> u64 \<Rightarrow> bool" where
  "seq_num_16_lt a b = chiaki_seq_num_lt (ucast a :: u16) (ucast b)"

text \<open>In \<open>(uint64_t)((uint16_t)a + (uint16_t)b)\<close> both operands are promoted to \<open>int\<close>, so the
  sum of two 16-bit numbers is not reduced modulo \<open>2 ^ 16\<close>; the sum of two 32-bit numbers is.\<close>

definition seq_num_16_add :: "u64 \<Rightarrow> u64 \<Rightarrow> u64" where
  "seq_num_16_add a b = ucast (ucast a :: u16) + ucast (ucast b :: u16)"

definition seq_num_32_gt :: "u64 \<Rightarrow> u64 \<Rightarrow> bool" where
  "seq_num_32_gt a b = chiaki_seq_num_gt (ucast a :: u32) (ucast b)"

definition seq_num_32_lt :: "u64 \<Rightarrow> u64 \<Rightarrow> bool" where
  "seq_num_32_lt a b = chiaki_seq_num_lt (ucast a :: u32) (ucast b)"

definition seq_num_32_add :: "u64 \<Rightarrow> u64 \<Rightarrow> u64" where
  "seq_num_32_add a b = ucast ((ucast a :: u32) + ucast b)"

definition chiaki_reorder_queue_init_16 ::
    "bool \<Rightarrow> nat \<Rightarrow> u16 \<Rightarrow> chiaki_error \<times> 'u reorder_queue" where
  "chiaki_reorder_queue_init_16 alloc_ok sz seq_num_start =
     chiaki_reorder_queue_init alloc_ok sz (ucast seq_num_start)
       seq_num_16_gt seq_num_16_lt seq_num_16_add"

definition chiaki_reorder_queue_init_32 ::
    "bool \<Rightarrow> nat \<Rightarrow> u32 \<Rightarrow> chiaki_error \<times> 'u reorder_queue" where
  "chiaki_reorder_queue_init_32 alloc_ok sz seq_num_start =
     chiaki_reorder_queue_init alloc_ok sz (ucast seq_num_start)
       seq_num_32_gt seq_num_32_lt seq_num_32_add"

definition chiaki_reorder_queue_set_drop_strategy ::
    "'u reorder_queue \<Rightarrow> drop_strategy \<Rightarrow> 'u reorder_queue" where
  "chiaki_reorder_queue_set_drop_strategy q st = q\<lparr>rq_strategy := st\<rparr>"

definition chiaki_reorder_queue_set_drop_cb :: "'u reorder_queue \<Rightarrow> bool \<Rightarrow> 'u reorder_queue" where
  "chiaki_reorder_queue_set_drop_cb q cb = q\<lparr>rq_drop_cb := cb\<rparr>"

text \<open>\<open>fini\<close> reports every packet still in the window, in order, before freeing the ring.\<close>

fun rq_fini_loop :: "'u reorder_queue \<Rightarrow> nat \<Rightarrow> nat \<Rightarrow> 'u drops option" where
  "rq_fini_loop q i 0 = Some []"
| "rq_fini_loop q i (Suc n) =
     (let seq_num = seq_num_add q (rq_begin q) (of_nat i) in
      case rq_entry q seq_num of
        None \<Rightarrow> None
      | Some e \<Rightarrow> map_option (\<lambda>ds. (if e_set e then [(seq_num, e_user e)] else []) @ ds)
                    (rq_fini_loop q (Suc i) n))"

definition chiaki_reorder_queue_fini :: "'u reorder_queue \<Rightarrow> 'u drops option" where
  "chiaki_reorder_queue_fini q =
     (if rq_drop_cb q then rq_fini_loop q 0 (unat (rq_count q)) else Some [])"

subsection \<open>Push\<close>

text \<open>The loop that drops from the front until the new end fits or the window is empty.\<close>

function rq_drop_first :: "'u reorder_queue \<Rightarrow> u64 \<Rightarrow> u64 \<Rightarrow> u64 \<Rightarrow> 'u drops \<Rightarrow>
    ('u reorder_queue \<times> 'u drops) option" where
  "rq_drop_first q rend total_end new_end ds =
     (if rq_count q > 0 \<and> seq_num_lt q total_end new_end then
        (case rq_entry q (rq_begin q) of
           None \<Rightarrow> None
         | Some e \<Rightarrow>
             let ds' = ds @ (if e_set e then drop_call q (rq_begin q) (e_user e) else []);
                 q' = q\<lparr>rq_begin := seq_num_add q (rq_begin q) 1, rq_count := rq_count q - 1\<rparr>;
                 free_elems = chiaki_reorder_queue_size q' - rq_count q'
             in rq_drop_first q' rend (seq_num_add q' rend free_elems) new_end ds')
      else Some (q, ds))"
  by pat_completeness auto
termination
  by (relation "measure (\<lambda>(q, _). unat (rq_count q))")
    (auto simp: unat_minus_one unat_gt_0)

text \<open>The loop that moves the end forward, clearing the slots it takes in.\<close>

lemma size_minus_one: "(2 :: u64) ^ k \<noteq> - 1"
proof
  assume e: "(2 :: u64) ^ k = - 1"
  show False
  proof (cases "k = 0")
    case False
    then have "even ((2 :: u64) ^ k)" by simp
    then show False unfolding e by simp
  qed (use e in simp)
qed

lemma count_step:
  fixes s c :: u64
  assumes "c + 1 \<le> s" "s \<noteq> - 1"
  shows "unat (s - (c + 1)) < unat (s - c)"
proof -
  have "s \<noteq> c"
  proof
    assume sc: "s = c"
    have "1 + c \<noteq> 0" using assms(2) sc by (metis add_eq_0_iff)
    then have "unat (1 + c) = Suc (unat c)" by (rule unatSuc)
    with assms(1) sc show False by (simp add: word_le_nat_alt add.commute)
  qed
  then have "s - c \<noteq> 0" by simp
  then have "unat (s - c - 1) < unat (s - c)" by (simp add: unat_minus_one unat_gt_0)
  then show ?thesis by (simp add: diff_diff_eq)
qed

function rq_extend :: "'u reorder_queue \<Rightarrow> u64 \<Rightarrow> u64 \<Rightarrow> 'u reorder_queue option" where
  "rq_extend q rend new_end =
     (if seq_num_lt q rend new_end then
        (case rq_entry q rend of
           None \<Rightarrow> None
         | Some e \<Rightarrow>
             (case rq_put (q\<lparr>rq_count := rq_count q + 1\<rparr>) rend (e\<lparr>e_set := False\<rparr>) of
                None \<Rightarrow> None
              | Some q' \<Rightarrow>
                  if rq_count q' \<le> chiaki_reorder_queue_size q'
                  then rq_extend q' (seq_num_add q' (rq_begin q') (rq_count q')) new_end
                  else None))
      else Some q)"
  by pat_completeness auto
termination
proof (relation "measure (\<lambda>(q, _). unat (chiaki_reorder_queue_size q - rq_count q))",
    goal_cases)
  case (2 q rend new_end e q')
  then have q': "size_exp q' = size_exp q" "rq_count q' = rq_count q + 1"
    by (auto simp: rq_put_def)
  then show ?case
    using 2(4) size_minus_one [of "size_exp q"]
    by (simp add: chiaki_reorder_queue_size_def count_step)
qed simp

declare rq_drop_first.simps [simp del] rq_extend.simps [simp del]

text \<open>What follows the early returns: make room if necessary, move the end, store the packet.\<close>

definition rq_make_room :: "'u reorder_queue \<Rightarrow> u64 \<Rightarrow> u64 \<Rightarrow> u64 \<Rightarrow>
    ('u reorder_queue \<times> 'u drops) option" where
  "rq_make_room q seq_num rend total_end =
     (let new_end = seq_num_add q seq_num 1 in
      if seq_num_lt q total_end new_end then
        map_option (\<lambda>(q', ds). (if rq_count q' = 0 then q'\<lparr>rq_begin := seq_num\<rparr> else q', ds))
          (rq_drop_first q rend total_end new_end [])
      else Some (q, []))"

definition rq_store :: "'u reorder_queue \<Rightarrow> u64 \<Rightarrow> 'u option \<Rightarrow> 'u reorder_queue option" where
  "rq_store q seq_num u =
     do { q' \<leftarrow> rq_extend q (seq_num_add q (rq_begin q) (rq_count q)) (seq_num_add q seq_num 1);
          rq_put q' seq_num \<lparr>e_user = u, e_set = True\<rparr> }"

definition chiaki_reorder_queue_push ::
    "'u reorder_queue \<Rightarrow> u64 \<Rightarrow> 'u option \<Rightarrow> ('u reorder_queue \<times> 'u drops) option" where
  "chiaki_reorder_queue_push q seq_num u =
     (if \<not> rq_count q \<le> chiaki_reorder_queue_size q then None
      else
        let rend = seq_num_add q (rq_begin q) (rq_count q);
            drop_it = Some (q, drop_call q seq_num u)
        in
        if rq_ge q seq_num (rq_begin q) \<and> seq_num_lt q seq_num rend then
          do { e \<leftarrow> rq_entry q seq_num;
               if e_set e then drop_it
               else do { q' \<leftarrow> rq_put q seq_num \<lparr>e_user = u, e_set = True\<rparr>; Some (q', []) } }
        else if seq_num_lt q seq_num (rq_begin q) then drop_it
        else if \<not> rq_ge q seq_num rend
                \<and> \<not> (rq_count q = 0 \<and> rq_strategy q = CHIAKI_REORDER_QUEUE_DROP_STRATEGY_BEGIN)
        then drop_it
        else
          let (q1, end1) = (if \<not> rq_ge q seq_num rend then (q\<lparr>rq_begin := seq_num\<rparr>, seq_num)
                            else (q, rend));
              free_elems = chiaki_reorder_queue_size q1 - rq_count q1;
              total_end = seq_num_add q1 end1 free_elems;
              new_end = seq_num_add q1 seq_num 1
          in
          if seq_num_lt q1 total_end new_end
             \<and> rq_strategy q1 = CHIAKI_REORDER_QUEUE_DROP_STRATEGY_END
          then drop_it
          else do { (q2, ds) \<leftarrow> rq_make_room q1 seq_num end1 total_end;
                    q3 \<leftarrow> rq_store q2 seq_num u;
                    Some (q3, ds) })"

subsection \<open>Pull, peek and drop\<close>

definition chiaki_reorder_queue_pull ::
    "'u reorder_queue \<Rightarrow> ('u reorder_queue \<times> (u64 \<times> 'u option) option) option" where
  "chiaki_reorder_queue_pull q =
     (if \<not> rq_count q \<le> chiaki_reorder_queue_size q then None
      else if rq_count q = 0 then Some (q, None)
      else do { e \<leftarrow> rq_entry q (rq_begin q);
                if \<not> e_set e then Some (q, None)
                else Some (q\<lparr>rq_begin := seq_num_add q (rq_begin q) 1,
                             rq_count := rq_count q - 1\<rparr>,
                           Some (rq_begin q, e_user e)) })"

definition chiaki_reorder_queue_peek ::
    "'u reorder_queue \<Rightarrow> u64 \<Rightarrow> (u64 \<times> 'u option) option option" where
  "chiaki_reorder_queue_peek q index =
     (if index \<ge> rq_count q then Some None
      else do { e \<leftarrow> rq_entry q (seq_num_add q (rq_begin q) index);
                Some (if e_set e then Some (seq_num_add q (rq_begin q) index, e_user e)
                      else None) })"

text \<open>The trailing loop of \<open>drop\<close>: it shrinks the window while the entry under its hand is
  not set.  The entry it starts from is the one just dropped.  (An empty window is never met:
  the caller has checked \<open>index < count\<close> and the loop stops as soon as the count is 0.)\<close>

function rq_shrink :: "'u reorder_queue \<Rightarrow> 'u reorder_queue_entry \<Rightarrow> 'u reorder_queue option" where
  "rq_shrink q e =
     (if e_set e then Some q
      else let q' = q\<lparr>rq_count := rq_count q - 1\<rparr> in
        if rq_count q = 0 then None
        else if rq_count q' = 0 then Some q'
        else (case rq_entry q' (seq_num_add q' (rq_begin q') (rq_count q' - 1)) of
                None \<Rightarrow> None
              | Some e' \<Rightarrow> rq_shrink q' e'))"
  by pat_completeness auto
termination
  by (relation "measure (\<lambda>(q, _). unat (rq_count q))") (auto simp: unat_minus_one unat_gt_0)

declare rq_shrink.simps [simp del]

definition chiaki_reorder_queue_drop ::
    "'u reorder_queue \<Rightarrow> u64 \<Rightarrow> ('u reorder_queue \<times> 'u drops) option" where
  "chiaki_reorder_queue_drop q index =
     (if index \<ge> rq_count q then Some (q, [])
      else let seq_num = seq_num_add q (rq_begin q) index in
        do { e \<leftarrow> rq_entry q seq_num;
             if \<not> e_set e then Some (q, [])
             else let ds = drop_call q seq_num (e_user e) in
               if index = rq_count q - 1
               then do { q' \<leftarrow> rq_shrink q e; Some (q', ds) }
               else Some (q, ds) })"

end
