(* ===== verification/ReorderQueueSpec.thy ===== *)
theory ReorderQueueSpec
  imports ReorderQueue
begin

text \<open>
  The abstract reorder queue and the refinement.  A \<open>window\<close> is a base sequence number and the
  list of the packets received for the numbers from the base on, \<open>None\<close> marking a gap.  The
  operations of the ring commute with the window operations \<open>win_push\<close> and \<open>win_pull\<close>, never
  fail an assertion and never leave the ring, for every \<open>serial_space\<close>.
\<close>

subsection \<open>Windows\<close>

type_synonym 'u window = "u64 \<times> 'u option option list"

definition win_add :: "nat \<Rightarrow> u64 \<Rightarrow> nat \<Rightarrow> u64" where
  "win_add bits b i = of_nat ((unat b + i) mod space bits)"

fun win_occupied :: "nat \<Rightarrow> u64 \<Rightarrow> nat \<Rightarrow> 'u option option list \<Rightarrow> 'u drops" where
  "win_occupied bits b i [] = []"
| "win_occupied bits b i (x # xs) =
     (case x of None \<Rightarrow> [] | Some u \<Rightarrow> [(win_add bits b i, u)]) @ win_occupied bits b (Suc i) xs"

definition win_push :: "nat \<Rightarrow> nat \<Rightarrow> drop_strategy \<Rightarrow> 'u window \<Rightarrow> u64 \<Rightarrow> 'u option \<Rightarrow>
    'u window \<times> 'u drops" where
  "win_push bits cap st w s u =
     (let b = fst w; xs = snd w; d = sdist bits b s; h = space (bits - 1) in
      if d < length xs then
        (if xs ! d = None then ((b, xs[d := Some u]), []) else (w, [(s, u)]))
      else if h < d then (w, [(s, u)])
      else if d = h \<and> xs = [] then
        (if st = CHIAKI_REORDER_QUEUE_DROP_STRATEGY_BEGIN then ((s, [Some u]), [])
         else (w, [(s, u)]))
      else if d < cap then ((b, xs @ replicate (d - length xs) None @ [Some u]), [])
      else if st = CHIAKI_REORDER_QUEUE_DROP_STRATEGY_END then (w, [(s, u)])
      else let j = min (length xs) (Suc d - cap) in
        (if j = length xs then (s, [Some u])
         else (win_add bits b j, drop j xs @ replicate (d - length xs) None @ [Some u]),
         win_occupied bits b 0 (take j xs)))"

fun win_pull :: "nat \<Rightarrow> 'u window \<Rightarrow> 'u window \<times> (u64 \<times> 'u option) option" where
  "win_pull bits (b, Some u # xs) = ((win_add bits b 1, xs), Some (b, u))"
| "win_pull bits (b, xs) = ((b, xs), None)"

subsection \<open>The window of a queue\<close>

definition rq_cell :: "'u reorder_queue_entry \<Rightarrow> 'u option option" where
  "rq_cell e = (if e_set e then Some (e_user e) else None)"

definition rq_pos :: "'u reorder_queue \<Rightarrow> nat \<Rightarrow> nat" where
  "rq_pos q i = (unat (rq_begin q) + i) mod 2 ^ size_exp q"

definition rq_window :: "'u reorder_queue \<Rightarrow> 'u window" where
  "rq_window q =
     (rq_begin q, map (\<lambda>i. rq_cell (slots q ! rq_pos q i)) [0 ..< unat (rq_count q)])"

definition rq_inv :: "nat \<Rightarrow> 'u reorder_queue \<Rightarrow> bool" where
  "rq_inv bits q \<longleftrightarrow> 1 \<le> size_exp q \<and> size_exp q \<le> 30 \<and> size_exp q + 2 \<le> bits
     \<and> length (slots q) = 2 ^ size_exp q
     \<and> unat (rq_count q) \<le> 2 ^ size_exp q
     \<and> unat (rq_begin q) < space bits"

definition rq_uses :: "(u64 \<Rightarrow> u64 \<Rightarrow> bool) \<Rightarrow> (u64 \<Rightarrow> u64 \<Rightarrow> bool) \<Rightarrow> (u64 \<Rightarrow> u64 \<Rightarrow> u64) \<Rightarrow>
    'u reorder_queue \<Rightarrow> bool" where
  "rq_uses gt lt add q \<longleftrightarrow> seq_num_gt q = gt \<and> seq_num_lt q = lt \<and> seq_num_add q = add"

text \<open>The fields no operation of the running queue writes.\<close>

definition rq_same_config :: "'u reorder_queue \<Rightarrow> 'u reorder_queue \<Rightarrow> bool" where
  "rq_same_config q q' \<longleftrightarrow> size_exp q' = size_exp q \<and> seq_num_gt q' = seq_num_gt q
     \<and> seq_num_lt q' = seq_num_lt q \<and> seq_num_add q' = seq_num_add q
     \<and> rq_strategy q' = rq_strategy q \<and> rq_drop_cb q' = rq_drop_cb q"

lemma rq_same_config_refl [simp]: "rq_same_config q q"
  by (simp add: rq_same_config_def)

lemma rq_same_config_trans [trans]:
  "rq_same_config q q' \<Longrightarrow> rq_same_config q' q'' \<Longrightarrow> rq_same_config q q''"
  by (simp add: rq_same_config_def)

lemma rq_uses_same_config:
  "rq_uses gt lt add q \<Longrightarrow> rq_same_config q q' \<Longrightarrow> rq_uses gt lt add q'"
  by (simp add: rq_uses_def rq_same_config_def)

lemma length_window [simp]: "length (snd (rq_window q)) = unat (rq_count q)"
  by (simp add: rq_window_def)

lemma fst_window [simp]: "fst (rq_window q) = rq_begin q"
  by (simp add: rq_window_def)

lemma nth_window:
  "i < unat (rq_count q) \<Longrightarrow> snd (rq_window q) ! i = rq_cell (slots q ! rq_pos q i)"
  by (simp add: rq_window_def)

lemma rq_pos_less [simp]: "rq_pos q i < 2 ^ size_exp q"
  by (simp add: rq_pos_def)

lemma mod_add_inj:
  fixes i j n b :: nat
  assumes "i < n" "j < n"
  shows "(b + i) mod n = (b + j) mod n \<longleftrightarrow> i = j"
proof
  assume "(b + i) mod n = (b + j) mod n"
  then obtain q1 q2 where "i + n * q1 = j + n * q2" by (auto simp: nat_mod_eq_iff)
  then have "(i + n * q1) mod n = (j + n * q2) mod n" by simp
  with assms show "i = j" by simp
qed simp

lemma rq_pos_inj:
  "i < 2 ^ size_exp q \<Longrightarrow> j < 2 ^ size_exp q \<Longrightarrow> rq_pos q i = rq_pos q j \<longleftrightarrow> i = j"
  by (simp add: rq_pos_def mod_add_inj)

lemma win_occupied_append:
  "win_occupied bits b i (xs @ ys)
     = win_occupied bits b i xs @ win_occupied bits b (i + length xs) ys"
  by (induction xs arbitrary: i) simp_all

lemma unat_size: "rq_inv bits q \<Longrightarrow> unat (chiaki_reorder_queue_size q) = 2 ^ size_exp q"
  by (simp add: rq_inv_def chiaki_reorder_queue_size_def unat_two_power)

lemma count_le_size:
  "rq_inv bits q \<Longrightarrow> rq_count q \<le> chiaki_reorder_queue_size q"
  by (simp add: word_le_nat_alt unat_size) (simp add: rq_inv_def)

lemma rq_idx_mod: "rq_inv bits q \<Longrightarrow> rq_idx q s = unat s mod 2 ^ size_exp q"
  by (simp add: rq_inv_def rq_idx_def unat_and_mask_mod)

lemma replicate_update_last: "(replicate (Suc n) x)[n := y] = replicate n x @ [y]"
  by (induction n) simp_all

subsection \<open>Refinement over a serial-number space\<close>

context serial_space
begin

lemma size_half:
  "rq_inv bits q \<Longrightarrow> 2 * 2 ^ size_exp q \<le> space (bits - 1)"
  using power_increasing [of "Suc (size_exp q)" "bits - 1" "2 :: nat"]
  by (auto simp: rq_inv_def space_def)

lemma size_ge_2: "rq_inv bits q \<Longrightarrow> 2 \<le> (2 :: nat) ^ size_exp q"
  using power_increasing [of 1 "size_exp q" "2 :: nat"] by (simp add: rq_inv_def)

lemma unat_add_mod: "k \<le> space bits \<Longrightarrow> unat (add a (of_nat k)) = (unat a + k) mod space bits"
proof -
  assume "k \<le> space bits"
  then have "int (unat (add a (of_nat k))) = int ((unat a + k) mod space bits)"
    by (simp add: uint_add_of_nat zmod_int)
  then show ?thesis by (simp only: of_nat_eq_iff)
qed

lemma win_add_eq: "k \<le> space bits \<Longrightarrow> win_add bits a k = add a (of_nat k)"
  by (metis win_add_def unat_add_mod of_nat_unat ucast_id)

lemma space_mod: "rq_inv bits q \<Longrightarrow> x mod space bits mod 2 ^ size_exp q = x mod 2 ^ size_exp q"
  by (simp add: rq_inv_def space_def mod_mod_cancel le_imp_power_dvd)

lemma idx_add:
  "rq_inv bits q \<Longrightarrow> k \<le> space bits \<Longrightarrow> rq_idx q (add (rq_begin q) (of_nat k)) = rq_pos q k"
  by (simp add: rq_idx_mod unat_add_mod space_mod rq_pos_def)

lemma idx_dist:
  "rq_inv bits q \<Longrightarrow> unat s < space bits \<Longrightarrow>
     rq_idx q s = rq_pos q (sdist bits (rq_begin q) s)"
  using idx_add [of q "sdist bits (rq_begin q) s"] sdist_less [of "rq_begin q" s]
    add_sdist [of s "rq_begin q"] by simp

lemma entry_dist:
  "rq_inv bits q \<Longrightarrow> unat s < space bits \<Longrightarrow>
     rq_entry q s = Some (slots q ! rq_pos q (sdist bits (rq_begin q) s))"
  using rq_pos_less [of q "sdist bits (rq_begin q) s"]
  by (simp add: rq_entry_def idx_dist) (simp add: rq_inv_def)

lemma put_dist:
  assumes "rq_inv bits q" "unat s < space bits"
  shows "rq_put q s e
    = Some (q\<lparr>slots := (slots q)[rq_pos q (sdist bits (rq_begin q) s) := e]\<rparr>)"
  using assms rq_pos_less [of q "sdist bits (rq_begin q) s"]
  by (simp add: rq_put_def idx_dist) (simp add: rq_inv_def)

text \<open>The comparisons the operations make, read on distances.\<close>

lemma lt_begin_iff:
  "unat b < space bits \<Longrightarrow> lt s b \<longleftrightarrow> space (bits - 1) < sdist bits b s"
proof -
  have "sdist bits b s < space bits" by (rule sdist_less)
  moreover have "sdist bits s b = space bits - sdist bits b s" if "0 < sdist bits b s"
    using that by (rule sdist_swap)
  moreover have "sdist bits s b = 0" if "sdist bits b s = 0"
    using that sdist_swap [of s b] sdist_less [of s b] by force
  ultimately show ?thesis
    unfolding lt_iff using half by (cases "sdist bits b s = 0") auto
qed

lemma lt_end_iff:
  assumes "c \<le> space (bits - 1)" "sdist bits b s \<le> space (bits - 1)"
  shows "lt s (add b (of_nat c)) \<longleftrightarrow> sdist bits b s < c \<and> c < sdist bits b s + space (bits - 1)"
proof -
  let ?d = "sdist bits b s"
  have c: "c \<le> space bits" using assms half by simp
  show ?thesis
  proof (cases "?d < c")
    case True
    have "sdist bits (add b (of_nat c)) s = space bits - (c - ?d)"
      using True c by (rule sdist_to_add)
    moreover have "0 < space bits - (c - ?d)" using True assms half by simp
    ultimately have "sdist bits s (add b (of_nat c)) = c - ?d"
      using sdist_swap [of "add b (of_nat c)" s] True c by simp
    then show ?thesis using True by (auto simp: lt_iff)
  next
    case False
    then have e: "sdist bits (add b (of_nat c)) s = ?d - c" by (intro sdist_from_add) simp
    show ?thesis
    proof (cases "?d = c")
      case True
      then have "sdist bits s (add b (of_nat c)) = 0"
        using e sdist_swap [of s "add b (of_nat c)"] sdist_less [of s "add b (of_nat c)"] by force
      with True show ?thesis by (simp add: lt_iff)
    next
      case neq: False
      then have "sdist bits s (add b (of_nat c)) = space bits - (?d - c)"
        using e False sdist_swap [of "add b (of_nat c)" s] by simp
      then show ?thesis using False assms half by (auto simp: lt_iff)
    qed
  qed
qed

lemma lt_ends_iff:
  assumes "c \<le> space (bits - 1)" "d < space bits"
  shows "lt (add b (of_nat c)) (add b (of_nat d)) \<longleftrightarrow> c < d \<and> d < c + space (bits - 1)"
proof (cases "c \<le> d")
  case True
  have "sdist bits (add b (of_nat c)) (add b (of_nat d)) = d - c"
    using True assms(2) sdist_from_add [of c b "add b (of_nat d)"] by (simp add: sdist_add)
  then show ?thesis using True by (auto simp: lt_iff)
next
  case False
  then have "sdist bits (add b (of_nat c)) (add b (of_nat d)) = space bits - (c - d)"
    using assms half sdist_to_add [of b "add b (of_nat d)" c] by (simp add: sdist_add)
  then show ?thesis using False assms half by (auto simp: lt_iff)
qed

text \<open>The successor of a number is the end of the window that stops at it.\<close>

lemma add_one:
  assumes "unat s < space bits"
  shows "add s 1 = add b (of_nat (Suc (sdist bits b s)))"
proof -
  have "add s (of_nat 1) = add (add b (of_nat (sdist bits b s))) (of_nat 1)"
    using assms by (simp add: add_sdist)
  also have "\<dots> = add b (of_nat (sdist bits b s + 1))"
    using sdist_less [of b s] by (intro add_add) simp
  finally show ?thesis by simp
qed

text \<open>Writing the slot of a number inside the window.\<close>

lemma window_put:
  assumes q: "rq_inv bits q" and s: "unat s < space bits"
    and d: "sdist bits (rq_begin q) s < unat (rq_count q)"
  shows "\<exists>q'. rq_put q s e = Some q' \<and> rq_inv bits q' \<and> rq_same_config q q'
     \<and> rq_begin q' = rq_begin q \<and> rq_count q' = rq_count q
     \<and> snd (rq_window q')
         = (snd (rq_window q))[sdist bits (rq_begin q) s := rq_cell e]"
proof -
  let ?d = "sdist bits (rq_begin q) s"
  let ?q = "q\<lparr>slots := (slots q)[rq_pos q ?d := e]\<rparr>"
  have sz: "unat (rq_count q) \<le> 2 ^ size_exp q" "length (slots q) = 2 ^ size_exp q"
    using q by (auto simp: rq_inv_def)
  have pos: "rq_pos ?q i = rq_pos q i" for i by (simp add: rq_pos_def)
  have "snd (rq_window ?q) = (snd (rq_window q))[?d := rq_cell e]"
  proof (rule nth_equalityI)
    fix i assume "i < length (snd (rq_window ?q))"
    then have i: "i < unat (rq_count q)" by simp
    then show "snd (rq_window ?q) ! i = (snd (rq_window q))[?d := rq_cell e] ! i"
      using d sz rq_pos_inj [of i q ?d] rq_pos_less [of q ?d]
      by (auto simp: nth_window pos nth_list_update)
  qed simp
  moreover have "rq_inv bits ?q" using q by (simp add: rq_inv_def)
  ultimately show ?thesis using put_dist [OF q s, of e] by (auto simp: rq_same_config_def)
qed

text \<open>Shifting the base of a window by one.\<close>

lemma win_add_shift: "win_add bits (add b 1) i = win_add bits b (Suc i)"
proof -
  have "unat (add b 1) = (unat b + 1) mod space bits"
    using unat_add_mod [of 1 b] full_le by (simp add: Suc_leI)
  then show ?thesis by (simp add: win_add_def mod_add_left_eq)
qed

lemma win_occupied_shift: "win_occupied bits (add b 1) i xs = win_occupied bits b (Suc i) xs"
  by (induction xs arbitrary: i) (auto simp: win_add_shift split: option.splits)

lemma pos_shift:
  assumes "rq_inv bits q"
  shows "rq_pos (q\<lparr>rq_begin := add (rq_begin q) 1, rq_count := c\<rparr>) i = rq_pos q (Suc i)"
proof -
  have "unat (add (rq_begin q) 1) = (unat (rq_begin q) + 1) mod space bits"
    using unat_add_mod [of 1 "rq_begin q"] by (simp add: Suc_leI)
  moreover have "((unat (rq_begin q) + 1) mod space bits + i) mod 2 ^ size_exp q
      = (unat (rq_begin q) + 1 + i) mod 2 ^ size_exp q"
    using space_mod [OF assms] by (metis mod_add_left_eq)
  ultimately show ?thesis by (simp add: rq_pos_def)
qed

lemma window_advance:
  assumes q: "rq_inv bits q" and c: "rq_count q \<noteq> 0"
  defines "q' \<equiv> q\<lparr>rq_begin := add (rq_begin q) 1, rq_count := rq_count q - 1\<rparr>"
  shows "rq_inv bits q'" "rq_same_config q q'" "unat (rq_count q') = unat (rq_count q) - 1"
    "snd (rq_window q') = tl (snd (rq_window q))"
proof -
  have c': "unat (rq_count q - 1) = unat (rq_count q) - 1" using c by (simp add: unat_minus_one)
  then show "unat (rq_count q') = unat (rq_count q) - 1" by (simp add: q'_def)
  show "rq_inv bits q'" using q c' unat_add_less by (auto simp: rq_inv_def q'_def)
  show "rq_same_config q q'" by (simp add: rq_same_config_def q'_def)
  show "snd (rq_window q') = tl (snd (rq_window q))"
  proof (rule nth_equalityI)
    fix i assume "i < length (snd (rq_window q'))"
    then have i: "i < unat (rq_count q) - 1" using c' by (simp add: q'_def)
    then show "snd (rq_window q') ! i = tl (snd (rq_window q)) ! i"
      using c' pos_shift [OF q] by (simp add: nth_window nth_tl q'_def)
  qed (simp add: q'_def c')
qed

lemma extend_refines:
  assumes "rq_inv bits q" "rq_uses gt lt add q"
    and "d < 2 ^ size_exp q" "unat (rq_count q) \<le> Suc d"
  shows "\<exists>q'. rq_extend q (add (rq_begin q) (rq_count q)) (add (rq_begin q) (of_nat (Suc d)))
           = Some q' \<and> rq_inv bits q' \<and> rq_same_config q q' \<and> rq_begin q' = rq_begin q
     \<and> unat (rq_count q') = Suc d
     \<and> snd (rq_window q') = snd (rq_window q) @ replicate (Suc d - unat (rq_count q)) None"
  using assms
proof (induction "Suc d - unat (rq_count q)" arbitrary: q)
  case 0
  have h: "2 * 2 ^ size_exp q \<le> space (bits - 1)" by (rule size_half [OF "0.prems"(1)])
  have c: "unat (rq_count q) = Suc d" using 0 by simp
  then have "rq_count q = of_nat (Suc d)" by (metis of_nat_unat ucast_id)
  then have "\<not> lt (add (rq_begin q) (rq_count q)) (add (rq_begin q) (of_nat (Suc d)))"
    using lt_iff by simp
  then show ?case
    using "0.prems" c by (intro exI [of _ q]) (simp add: rq_extend.simps rq_uses_def)
next
  case (Suc n)
  let ?c = "unat (rq_count q)" and ?b = "rq_begin q"
  have h: "2 * 2 ^ size_exp q \<le> space (bits - 1)" by (rule size_half [OF Suc.prems(1)])
  have sz: "length (slots q) = 2 ^ size_exp q" "size_exp q \<le> 30"
    using Suc.prems by (auto simp: rq_inv_def)
  have c: "?c < Suc d" using Suc.hyps(2) by simp
  have cw: "rq_count q = of_nat ?c" by simp
  have lt: "lt (add ?b (of_nat ?c)) (add ?b (of_nat (Suc d)))"
    using c Suc.prems h half by (intro lt_ends_iff [THEN iffD2]) auto
  have idx: "rq_idx q (add ?b (of_nat ?c)) = rq_pos q ?c"
    using c Suc.prems h half by (intro idx_add) auto
  let ?e = "(slots q ! rq_pos q ?c)\<lparr>e_set := False\<rparr>"
  let ?q = "q\<lparr>rq_count := rq_count q + 1, slots := (slots q)[rq_pos q ?c := ?e]\<rparr>"
  have p30: "(2 :: nat) ^ size_exp q \<le> 2 ^ 30" using sz by (intro power_increasing) auto
  have c1: "unat (rq_count q + 1) = Suc ?c"
    using c Suc.prems(3) p30 by (simp add: unat_plus_if' del: unat_1)
  have cw1: "rq_count q + 1 = of_nat (Suc ?c)" by (simp add: c1)
  have inv: "rq_inv bits ?q" using Suc.prems c c1 by (auto simp: rq_inv_def)
  have pos: "rq_pos ?q i = rq_pos q i" for i by (simp add: rq_pos_def)
  have win: "snd (rq_window ?q) = snd (rq_window q) @ [None]"
  proof (rule nth_equalityI)
    fix i assume "i < length (snd (rq_window ?q))"
    then have i: "i < Suc ?c" by (simp add: c1)
    then show "snd (rq_window ?q) ! i = (snd (rq_window q) @ [None]) ! i"
      using c Suc.prems(3) sz rq_pos_inj [of i q ?c] rq_pos_less [of q ?c] c1
      by (auto simp: nth_window pos nth_list_update nth_append rq_cell_def less_Suc_eq)
  qed (simp add: c1)
  have "\<exists>q'. rq_extend ?q (add (rq_begin ?q) (rq_count ?q)) (add (rq_begin ?q) (of_nat (Suc d)))
           = Some q' \<and> rq_inv bits q' \<and> rq_same_config ?q q' \<and> rq_begin q' = rq_begin ?q
     \<and> unat (rq_count q') = Suc d
     \<and> snd (rq_window q') = snd (rq_window ?q) @ replicate (Suc d - unat (rq_count ?q)) None"
    using Suc.hyps(2) Suc.prems c1 inv by (intro Suc.hyps(1)) (auto simp: rq_uses_def)
  then obtain q' where q': "rq_extend ?q (add ?b (rq_count q + 1)) (add ?b (of_nat (Suc d))) = Some q'"
    "rq_inv bits q'" "rq_same_config ?q q'" "rq_begin q' = ?b" "unat (rq_count q') = Suc d"
    "snd (rq_window q') = snd (rq_window ?q) @ replicate (d - ?c) None"
    using c1 by auto
  have "chiaki_reorder_queue_size ?q = chiaki_reorder_queue_size q"
    by (simp add: chiaki_reorder_queue_size_def)
  then have le: "rq_count q + 1 \<le> chiaki_reorder_queue_size q"
    using count_le_size [OF inv] by simp
  have e1: "rq_extend q (add ?b (rq_count q)) (add ?b (of_nat (Suc d))) = Some q'"
    using q'(1) lt idx sz le rq_pos_less [of q ?c] Suc.prems(2)
    by (subst rq_extend.simps)
      (simp add: rq_uses_def rq_entry_def rq_put_def rq_idx_def chiaki_reorder_queue_size_def
        del: of_nat_Suc)
  have "snd (rq_window q') = snd (rq_window q) @ replicate (Suc d - ?c) None"
    unfolding q'(6) win using c by (simp add: Suc_diff_le)
  moreover have "rq_same_config q q'" using q'(3) by (simp add: rq_same_config_def)
  ultimately show ?case using e1 q'(2,4,5) by blast
qed

lemma drop_first_refines:
  assumes "rq_inv bits q" "rq_uses gt lt add q" "unat s < space bits"
    and "sdist bits (rq_begin q) s \<le> space (bits - 1)"
    and "unat (rq_count q) \<le> sdist bits (rq_begin q) s"
  defines "j \<equiv> min (unat (rq_count q)) (Suc (sdist bits (rq_begin q) s) - 2 ^ size_exp q)"
  shows "\<exists>q'. rq_drop_first q (add (rq_begin q) (rq_count q))
            (add (rq_begin q) (of_nat (2 ^ size_exp q))) (add s 1) ds
           = Some (q', ds @ (if rq_drop_cb q
                             then win_occupied bits (rq_begin q) 0 (take j (snd (rq_window q)))
                             else []))
     \<and> rq_inv bits q' \<and> rq_same_config q q' \<and> rq_begin q' = win_add bits (rq_begin q) j
     \<and> unat (rq_count q') = unat (rq_count q) - j
     \<and> snd (rq_window q') = drop j (snd (rq_window q))"
  using assms(1-5) unfolding j_def
proof (induction "unat (rq_count q)" arbitrary: q ds)
  case 0
  then have "rq_count q = 0" by (simp add: unat_eq_0)
  moreover have "win_add bits (rq_begin q) 0 = rq_begin q"
    using "0.prems"(1) win_add_eq [of 0 "rq_begin q"] add_0 by (simp add: rq_inv_def)
  ultimately show ?case
    using "0.prems" "0.hyps" by (intro exI [of _ q]) (simp add: rq_drop_first.simps)
next
  case (Suc n)
  let ?b = "rq_begin q" and ?d = "sdist bits (rq_begin q) s" and ?cap = "2 ^ size_exp q :: nat"
  let ?w = "snd (rq_window q)"
  have h: "2 * ?cap \<le> space (bits - 1)" "2 \<le> ?cap"
    using size_half size_ge_2 Suc.prems(1) by auto
  have c: "rq_count q \<noteq> 0" "unat (rq_count q) = Suc n" using Suc.hyps(2) by auto
  have n: "Suc n \<le> ?cap" using Suc.prems(1) c by (simp add: rq_inv_def)
  have lt: "lt (add ?b (of_nat ?cap)) (add s 1) \<longleftrightarrow> ?cap \<le> ?d"
    unfolding add_one [OF Suc.prems(3), of ?b]
    using h half Suc.prems(4) by (subst lt_ends_iff) auto
  have w0: "?w \<noteq> []" using c by (metis length_0_conv length_window nat.distinct(1))
  show ?case
  proof (cases "?cap \<le> ?d")
    case False
    moreover have "win_add bits ?b 0 = ?b"
      using Suc.prems(1) win_add_eq [of 0 ?b] add_0 by (simp add: rq_inv_def)
    ultimately show ?thesis
      using Suc.prems lt by (intro exI [of _ q]) (simp add: rq_drop_first.simps rq_uses_def)
  next
    case True
    let ?q = "q\<lparr>rq_begin := add ?b 1, rq_count := rq_count q - 1\<rparr>"
    note adv = window_advance [OF Suc.prems(1) c(1)]
    have cn: "unat (rq_count ?q) = n" using adv(3) c by simp
    have cq: "rq_count ?q = of_nat n" using cn by (metis of_nat_unat ucast_id)
    have d': "sdist bits (add ?b 1) s = ?d - 1"
      using True h sdist_from_add [of 1 ?b s] by simp
    let ?e = "slots q ! rq_pos q 0"
    have entry: "rq_entry q ?b = Some ?e"
      using entry_dist [OF Suc.prems(1), of ?b] Suc.prems(1) by (simp add: rq_inv_def)
    have w1: "?w ! 0 = rq_cell ?e" using c by (simp add: nth_window)
    let ?ds = "ds @ (if e_set ?e then drop_call q ?b (e_user ?e) else [])"
    have ends: "add ?b (rq_count q) = add (add ?b 1) (of_nat n)"
    proof -
      have "rq_count q = of_nat (1 + n)" by (metis c(2) of_nat_unat ucast_id plus_1_eq_Suc)
      moreover have "1 + n \<le> space bits" using n h half by linarith
      ultimately show ?thesis using add_add [of 1 n ?b] by simp
    qed
    have tot: "add (add ?b (rq_count q)) (chiaki_reorder_queue_size ?q - rq_count ?q)
        = add (add ?b 1) (of_nat ?cap)"
    proof -
      have "chiaki_reorder_queue_size ?q - rq_count ?q = of_nat (?cap - n)"
        using n cq by (simp add: chiaki_reorder_queue_size_def of_nat_diff)
      then show ?thesis
        unfolding ends using n h half add_add [of n "?cap - n" "add ?b 1"] by simp
    qed
    let ?j = "min n (Suc (?d - 1) - ?cap)"
    have "\<exists>q'. rq_drop_first ?q (add (rq_begin ?q) (rq_count ?q))
            (add (rq_begin ?q) (of_nat (2 ^ size_exp ?q))) (add s 1) ?ds
           = Some (q', ?ds @ (if rq_drop_cb ?q
                then win_occupied bits (rq_begin ?q) 0
                  (take (min (unat (rq_count ?q)) (Suc (sdist bits (rq_begin ?q) s)
                     - 2 ^ size_exp ?q)) (snd (rq_window ?q))) else []))
     \<and> rq_inv bits q' \<and> rq_same_config ?q q'
     \<and> rq_begin q' = win_add bits (rq_begin ?q) (min (unat (rq_count ?q))
          (Suc (sdist bits (rq_begin ?q) s) - 2 ^ size_exp ?q))
     \<and> unat (rq_count q') = unat (rq_count ?q) - min (unat (rq_count ?q))
          (Suc (sdist bits (rq_begin ?q) s) - 2 ^ size_exp ?q)
     \<and> snd (rq_window q') = drop (min (unat (rq_count ?q))
          (Suc (sdist bits (rq_begin ?q) s) - 2 ^ size_exp ?q)) (snd (rq_window ?q))"
      using Suc.prems cn adv(1) d' c n by (intro Suc.hyps(1)) (auto simp: rq_uses_def)
    then obtain q' where q': "rq_drop_first ?q (add (add ?b 1) (of_nat n))
            (add (add ?b 1) (of_nat ?cap)) (add s 1) ?ds
           = Some (q', ?ds @ (if rq_drop_cb q
                then win_occupied bits (add ?b 1) 0 (take ?j (tl ?w)) else []))"
      "rq_inv bits q'" "rq_same_config ?q q'" "rq_begin q' = win_add bits (add ?b 1) ?j"
      "unat (rq_count q') = n - ?j" "snd (rq_window q') = drop ?j (tl ?w)"
      using cn cq d' adv(4) by auto
    have j: "min (unat (rq_count q)) (Suc ?d - ?cap) = Suc ?j"
      using c True h by auto
    have occ: "win_occupied bits ?b 0 (take (Suc ?j) ?w)
        = (case rq_cell ?e of None \<Rightarrow> [] | Some u \<Rightarrow> [(?b, u)])
          @ win_occupied bits (add ?b 1) 0 (take ?j (tl ?w))"
    proof -
      have "?w = rq_cell ?e # tl ?w" using w0 w1 by (metis hd_Cons_tl hd_conv_nth)
      moreover have "win_add bits ?b 0 = ?b"
        using Suc.prems(1) win_add_eq [of 0 ?b] add_0 by (simp add: rq_inv_def)
      ultimately show ?thesis by (metis One_nat_def take_Suc_Cons win_occupied.simps(2)
          win_occupied_shift)
    qed
    have e1: "rq_drop_first q (add ?b (rq_count q)) (add ?b (of_nat ?cap)) (add s 1) ds
        = rq_drop_first ?q (add (add ?b 1) (of_nat n)) (add (add ?b 1) (of_nat ?cap)) (add s 1) ?ds"
      using entry lt True c Suc.prems(2) tot
      by (subst rq_drop_first.simps) (simp add: rq_uses_def word_neq_0_conv Let_def ends)
    have "rq_same_config q q'" using q'(3) by (simp add: rq_same_config_def)
    moreover have "drop (Suc ?j) ?w = drop ?j (tl ?w)" by (simp add: drop_Suc)
    ultimately show ?thesis
      unfolding j e1 q'(1) occ using q'(2,4,5,6) c
      by (auto simp: win_add_shift drop_call_def rq_cell_def split: if_splits)
  qed
qed

lemma store_refines:
  assumes q: "rq_inv bits q" "rq_uses gt lt add q" and s: "unat s < space bits"
    and d: "sdist bits (rq_begin q) s < 2 ^ size_exp q"
    and c: "unat (rq_count q) \<le> sdist bits (rq_begin q) s"
  shows "\<exists>q'. rq_store q s u = Some q' \<and> rq_inv bits q' \<and> rq_same_config q q'
     \<and> rq_window q' = (rq_begin q, snd (rq_window q)
          @ replicate (sdist bits (rq_begin q) s - unat (rq_count q)) None @ [Some u])"
proof -
  let ?d = "sdist bits (rq_begin q) s" and ?w = "snd (rq_window q)"
  obtain q1 where q1: "rq_extend q (add (rq_begin q) (rq_count q)) (add s 1) = Some q1"
    "rq_inv bits q1" "rq_same_config q q1" "rq_begin q1 = rq_begin q" "unat (rq_count q1) = Suc ?d"
    "snd (rq_window q1) = ?w @ replicate (Suc ?d - unat (rq_count q)) None"
    using extend_refines [OF q d] c unfolding add_one [OF s, of "rq_begin q"] by auto
  let ?e = "\<lparr>e_user = u, e_set = True\<rparr>"
  obtain q2 where q2: "rq_put q1 s ?e = Some q2" "rq_inv bits q2" "rq_same_config q1 q2"
    "rq_begin q2 = rq_begin q1" "snd (rq_window q2) = (snd (rq_window q1))[?d := rq_cell ?e]"
    using window_put [OF q1(2) s, of ?e] q1(4,5) by auto
  have "snd (rq_window q2) = ?w @ replicate (?d - unat (rq_count q)) None @ [Some u]"
    using c unfolding q2(5) q1(6)
    by (simp add: rq_cell_def list_update_append Suc_diff_le replicate_update_last
        del: replicate_Suc)
  then have "rq_window q2
      = (rq_begin q, ?w @ replicate (?d - unat (rq_count q)) None @ [Some u])"
    using fst_window [of q2] q2(4) q1(4) by (metis prod.collapse)
  moreover have "rq_store q s u = Some q2"
    using q(2) q1(1) q2(1) by (simp add: rq_store_def rq_uses_def)
  ultimately show ?thesis using q2(2) rq_same_config_trans [OF q1(3) q2(3)] by blast
qed

lemma ge_begin_iff:
  assumes "unat b < space bits" "unat s < space bits" "rq_uses gt lt add q"
  shows "rq_ge q s b \<longleftrightarrow> sdist bits b s < space (bits - 1)"
  using assms sdist_0_iff [of b s]
  by (auto simp: rq_ge_def rq_uses_def gt_iff lt_iff space_def)

lemma ge_end_iff:
  assumes "unat b < space bits" "unat s < space bits" "rq_uses gt lt add q"
    and "c \<le> sdist bits b s"
  shows "rq_ge q s (add b (of_nat c)) \<longleftrightarrow> sdist bits b s < c + space (bits - 1)"
  using ge_begin_iff [of "add b (of_nat c)" s q] assms unat_add_less
    sdist_from_add [of c b s] by auto

text \<open>The push of a packet inside the window.\<close>

lemma push_inside:
  assumes q: "rq_inv bits q" "rq_uses gt lt add q" and s: "unat s < space bits"
    and d: "sdist bits (rq_begin q) s < unat (rq_count q)"
  shows "\<exists>q'. chiaki_reorder_queue_push q s u = Some (q',
           if rq_drop_cb q
           then snd (win_push bits (2 ^ size_exp q) (rq_strategy q) (rq_window q) s u) else [])
     \<and> rq_inv bits q' \<and> rq_same_config q q'
     \<and> rq_window q' = fst (win_push bits (2 ^ size_exp q) (rq_strategy q) (rq_window q) s u)"
proof -
  let ?d = "sdist bits (rq_begin q) s" and ?w = "snd (rq_window q)"
  have h: "2 * 2 ^ size_exp q \<le> space (bits - 1)" "unat (rq_count q) \<le> 2 ^ size_exp q"
    "unat (rq_begin q) < space bits"
    using size_half q(1) by (auto simp: rq_inv_def)
  have c: "rq_count q = of_nat (unat (rq_count q))" by simp
  have lt: "lt s (add (rq_begin q) (rq_count q))"
    by (subst c, subst lt_end_iff) (use d h in auto)
  have ge: "rq_ge q s (rq_begin q)" using ge_begin_iff [OF h(3) s q(2)] d h by linarith
  let ?e = "slots q ! rq_pos q ?d"
  have wd: "?w ! ?d = rq_cell ?e" using d by (simp add: nth_window)
  have push: "chiaki_reorder_queue_push q s u
      = (if e_set ?e then Some (q, drop_call q s u)
         else do { q' \<leftarrow> rq_put q s \<lparr>e_user = u, e_set = True\<rparr>; Some (q', []) })"
    using lt ge q count_le_size [OF q(1)] entry_dist [OF q(1) s]
    by (simp add: chiaki_reorder_queue_push_def rq_uses_def Let_def)
  show ?thesis
  proof (cases "e_set ?e")
    case True
    then show ?thesis
      using push d wd q
      by (intro exI [of _ q]) (simp add: win_push_def Let_def rq_cell_def drop_call_def)
  next
    case False
    obtain q2 where q2: "rq_put q s \<lparr>e_user = u, e_set = True\<rparr> = Some q2" "rq_inv bits q2"
      "rq_same_config q q2" "rq_begin q2 = rq_begin q" "snd (rq_window q2) = ?w[?d := Some u]"
      using window_put [OF q(1) s d, of "\<lparr>e_user = u, e_set = True\<rparr>"]
      by (auto simp: rq_cell_def)
    have "rq_window q2 = (rq_begin q, ?w[?d := Some u])"
      using fst_window [of q2] q2(4,5) by (metis prod.collapse)
    then show ?thesis
      using push False d wd q2 by (simp add: win_push_def Let_def rq_cell_def)
  qed
qed

text \<open>Making room for a packet beyond the window and storing it.\<close>

lemma total_lt_iff:
  assumes "rq_inv bits q" "unat s < space bits"
    and "sdist bits (rq_begin q) s \<le> space (bits - 1)"
  shows "lt (add (rq_begin q) (of_nat (2 ^ size_exp q))) (add s 1)
     \<longleftrightarrow> 2 ^ size_exp q \<le> sdist bits (rq_begin q) s"
  unfolding add_one [OF assms(2), of "rq_begin q"]
  using size_half [OF assms(1)] size_ge_2 [OF assms(1)] half assms(3)
  by (subst lt_ends_iff) auto

lemma total_end_eq:
  assumes "rq_inv bits q"
  shows "add (add (rq_begin q) (rq_count q)) (chiaki_reorder_queue_size q - rq_count q)
     = add (rq_begin q) (of_nat (2 ^ size_exp q))"
proof -
  have c: "unat (rq_count q) \<le> 2 ^ size_exp q" using assms by (simp add: rq_inv_def)
  have "chiaki_reorder_queue_size q - rq_count q = of_nat (2 ^ size_exp q - unat (rq_count q))"
    using c by (simp add: chiaki_reorder_queue_size_def of_nat_diff)
  then show ?thesis
    using add_add [of "unat (rq_count q)" "2 ^ size_exp q - unat (rq_count q)" "rq_begin q"]
      size_half [OF assms] half c by simp
qed

lemma push_beyond:
  assumes q: "rq_inv bits q" "rq_uses gt lt add q" and s: "unat s < space bits"
    and d: "unat (rq_count q) \<le> sdist bits (rq_begin q) s"
      "2 ^ size_exp q \<le> sdist bits (rq_begin q) s"
      "sdist bits (rq_begin q) s \<le> space (bits - 1)"
  defines "j \<equiv> min (unat (rq_count q)) (Suc (sdist bits (rq_begin q) s) - 2 ^ size_exp q)"
  shows "\<exists>q2 q3. rq_make_room q s (add (rq_begin q) (rq_count q))
           (add (rq_begin q) (of_nat (2 ^ size_exp q)))
           = Some (q2, if rq_drop_cb q
               then win_occupied bits (rq_begin q) 0 (take j (snd (rq_window q))) else [])
     \<and> rq_store q2 s u = Some q3 \<and> rq_inv bits q3 \<and> rq_same_config q q3
     \<and> rq_window q3 = (if j = unat (rq_count q) then (s, [Some u])
         else (win_add bits (rq_begin q) j, drop j (snd (rq_window q))
           @ replicate (sdist bits (rq_begin q) s - unat (rq_count q)) None @ [Some u]))"
proof -
  let ?d = "sdist bits (rq_begin q) s" and ?w = "snd (rq_window q)" and ?c = "unat (rq_count q)"
  have h: "2 * 2 ^ size_exp q \<le> space (bits - 1)" "2 \<le> (2 :: nat) ^ size_exp q"
    using size_half size_ge_2 q(1) by auto
  obtain q1 where q1: "rq_drop_first q (add (rq_begin q) (rq_count q))
       (add (rq_begin q) (of_nat (2 ^ size_exp q))) (add s 1) []
       = Some (q1, if rq_drop_cb q then win_occupied bits (rq_begin q) 0 (take j ?w) else [])"
    "rq_inv bits q1" "rq_same_config q q1" "rq_begin q1 = win_add bits (rq_begin q) j"
    "unat (rq_count q1) = ?c - j" "snd (rq_window q1) = drop j ?w"
    using drop_first_refines [OF q s d(3,1), of "[]"] unfolding j_def by auto
  define qr where "qr = (if rq_count q1 = 0 then q1\<lparr>rq_begin := s\<rparr> else q1)"
  have room: "rq_make_room q s (add (rq_begin q) (rq_count q))
       (add (rq_begin q) (of_nat (2 ^ size_exp q)))
       = Some (qr, if rq_drop_cb q then win_occupied bits (rq_begin q) 0 (take j ?w) else [])"
    using q1(1) total_lt_iff [OF q(1) s d(3)] d(2) q(2)
    by (simp add: rq_make_room_def rq_uses_def Let_def qr_def)
  have inv: "rq_inv bits qr" using q1(2) s by (simp add: rq_inv_def qr_def)
  have same: "rq_same_config q qr" using q1(3) by (simp add: rq_same_config_def qr_def)
  have sz: "size_exp qr = size_exp q" using same by (simp add: rq_same_config_def)
  have zero: "rq_count q1 = 0 \<longleftrightarrow> j = ?c" using q1(5) j_def by (auto simp: unat_eq_0)
  have dist: "sdist bits (rq_begin qr) s = (if j = ?c then 0 else 2 ^ size_exp q - 1)"
  proof (cases "j = ?c")
    case False
    then have j: "j = Suc ?d - 2 ^ size_exp q" unfolding j_def by auto
    moreover have "rq_begin qr = add (rq_begin q) (of_nat j)"
      using False zero q1(4) win_add_eq [of j "rq_begin q"] sdist_less [of "rq_begin q" s] j h
      by (simp add: qr_def)
    moreover have "j \<le> ?d" using j h by simp
    ultimately have "sdist bits (rq_begin qr) s = ?d - j" by (simp only: sdist_from_add)
    then show ?thesis using False j d(2) by simp
  qed (use zero in \<open>simp add: qr_def\<close>)
  have cnt0: "unat (rq_count qr) = ?c - j" "snd (rq_window qr) = drop j ?w"
    using q1(5,6) zero by (auto simp: qr_def rq_window_def)
  have beg: "rq_begin qr = (if j = ?c then s else win_add bits (rq_begin q) j)"
    using zero q1(4) by (simp add: qr_def)
  have cnt: "unat (rq_count qr) \<le> sdist bits (rq_begin qr) s"
    using dist cnt0 d(1) h(2) unfolding j_def by auto
  obtain q3 where q3: "rq_store qr s u = Some q3" "rq_inv bits q3" "rq_same_config qr q3"
    "rq_window q3 = (rq_begin qr, snd (rq_window qr)
       @ replicate (sdist bits (rq_begin qr) s - unat (rq_count qr)) None @ [Some u])"
    using store_refines [OF inv rq_uses_same_config [OF q(2) same] s _ cnt, of u] dist sz
      diff_less [of 1 "2 ^ size_exp q"] by (auto split: if_splits)
  have "rq_window q3 = (if j = ?c then (s, [Some u])
      else (win_add bits (rq_begin q) j, drop j ?w @ replicate (?d - ?c) None @ [Some u]))"
  proof (cases "j = ?c")
    case True
    then show ?thesis using q3(4) cnt0 dist beg by simp
  next
    case False
    then have "2 ^ size_exp q - 1 - (?c - j) = ?d - ?c" using d unfolding j_def by auto
    then show ?thesis using False q3(4) dist cnt0 beg by simp
  qed
  then show ?thesis
    using room q3(1,2) rq_same_config_trans [OF same q3(3)] by blast
qed

theorem push_refines:
  assumes q: "rq_inv bits q" "rq_uses gt lt add q" and s: "unat s < space bits"
  shows "\<exists>q'. chiaki_reorder_queue_push q s u = Some (q',
           if rq_drop_cb q
           then snd (win_push bits (2 ^ size_exp q) (rq_strategy q) (rq_window q) s u) else [])
     \<and> rq_inv bits q' \<and> rq_same_config q q'
     \<and> rq_window q' = fst (win_push bits (2 ^ size_exp q) (rq_strategy q) (rq_window q) s u)"
proof (cases "sdist bits (rq_begin q) s < unat (rq_count q)")
  case True
  then show ?thesis by (rule push_inside [OF q s])
next
  case False
  let ?d = "sdist bits (rq_begin q) s" and ?c = "unat (rq_count q)" and ?b = "rq_begin q"
  let ?h = "space (bits - 1)" and ?w = "snd (rq_window q)"
  let ?fin = "seq_num_add q ?b (rq_count q)"
  have b: "unat ?b < space bits" using q(1) by (simp add: rq_inv_def)
  have h: "2 * 2 ^ size_exp q \<le> ?h" "?c \<le> 2 ^ size_exp q"
    using size_half q(1) by (auto simp: rq_inv_def)
  have ops: "seq_num_gt q = gt" "seq_num_lt q = lt" "seq_num_add q = add"
    using q(2) by (auto simp: rq_uses_def)
  have cw: "rq_count q = of_nat ?c" by simp
  have win: "rq_window q = (?b, ?w)" by (metis fst_window prod.collapse)
  have len: "length ?w = ?c" by simp
  have outside: "\<not> (rq_ge q s ?b \<and> lt s ?fin)"
  proof
    assume a: "rq_ge q s ?b \<and> lt s ?fin"
    then have "?d \<le> ?h" using ge_begin_iff [OF b s q(2)] by simp
    then show False
      using a False h ops lt_end_iff [of ?c ?b s] cw by (metis le_trans mult_2 trans_le_add1)
  qed
  show ?thesis
  proof (cases "?h < ?d")
    case True
    then have "chiaki_reorder_queue_push q s u = Some (q, drop_call q s u)"
      using outside lt_begin_iff [OF b, of s] count_le_size [OF q(1)] ops
      by (auto simp: chiaki_reorder_queue_push_def Let_def)
    then show ?thesis
      using True False q by (intro exI [of _ q]) (simp add: win_push_def Let_def drop_call_def)
  next
    case le: False
    then have nlt: "\<not> lt s ?b" using lt_begin_iff [OF b] by simp
    have ge_end: "rq_ge q s ?fin \<longleftrightarrow> \<not> (?d = ?h \<and> ?c = 0)"
      unfolding ops using ge_end_iff [OF b s q(2), of ?c] False le h by auto
    show ?thesis
    proof (cases "?d = ?h \<and> ?c = 0")
      case True
      then have c0: "rq_count q = 0" "?w = []" by (auto simp: unat_eq_0 rq_window_def)
      show ?thesis
      proof (cases "rq_strategy q")
        case CHIAKI_REORDER_QUEUE_DROP_STRATEGY_END
        then have "chiaki_reorder_queue_push q s u = Some (q, drop_call q s u)"
          using outside nlt ge_end True count_le_size [OF q(1)] ops
          by (auto simp: chiaki_reorder_queue_push_def Let_def)
        then show ?thesis
          using CHIAKI_REORDER_QUEUE_DROP_STRATEGY_END True c0 q
          by (intro exI [of _ q]) (simp add: win_push_def Let_def drop_call_def)
      next
        case CHIAKI_REORDER_QUEUE_DROP_STRATEGY_BEGIN
        let ?q = "q\<lparr>rq_begin := s\<rparr>"
        have q': "rq_inv bits ?q" "rq_uses gt lt add ?q" "snd (rq_window ?q) = []"
          using q s c0 by (auto simp: rq_inv_def rq_uses_def rq_window_def)
        have nt: "\<not> lt (add s (chiaki_reorder_queue_size ?q)) (add s 1)"
          using total_lt_iff [OF q'(1) s] by (simp add: chiaki_reorder_queue_size_def)
        obtain q3 where q3: "rq_store ?q s u = Some q3" "rq_inv bits q3" "rq_same_config ?q q3"
          "rq_window q3 = (s, [Some u])"
          using store_refines [OF q'(1,2) s, of u] c0 q'(3) by auto
        have "chiaki_reorder_queue_push q s u = Some (q3, [])"
          using outside nlt ge_end True c0 count_le_size [OF q(1)] ops nt q3(1)
            CHIAKI_REORDER_QUEUE_DROP_STRATEGY_BEGIN
          by (auto simp: chiaki_reorder_queue_push_def Let_def rq_make_room_def)
        then show ?thesis
          using CHIAKI_REORDER_QUEUE_DROP_STRATEGY_BEGIN True c0 q3
          by (simp add: win_push_def Let_def rq_same_config_def)
      qed
    next
      case ne: False
      let ?tot = "add ?b (of_nat (2 ^ size_exp q))"
      have push: "chiaki_reorder_queue_push q s u
          = (if lt ?tot (add s 1) \<and> rq_strategy q = CHIAKI_REORDER_QUEUE_DROP_STRATEGY_END
             then Some (q, drop_call q s u)
             else do { (q2, ds) \<leftarrow> rq_make_room q s (add ?b (rq_count q)) ?tot;
                       q3 \<leftarrow> rq_store q2 s u; Some (q3, ds) })"
        using outside nlt ge_end ne count_le_size [OF q(1)] ops total_end_eq [OF q(1)]
        by (auto simp: chiaki_reorder_queue_push_def Let_def)
      note tl = total_lt_iff [OF q(1) s, unfolded not_less [symmetric], OF le]
      have w0: "?w = [] \<longleftrightarrow> ?c = 0" using len by (metis length_0_conv)
      show ?thesis
      proof (cases "2 ^ size_exp q \<le> ?d")
        case False
        then have room: "rq_make_room q s (add ?b (rq_count q)) ?tot = Some (q, [])"
          using tl ops by (simp add: rq_make_room_def Let_def)
        obtain q3 where q3: "rq_store q s u = Some q3" "rq_inv bits q3" "rq_same_config q q3"
          "rq_window q3 = (?b, ?w @ replicate (?d - ?c) None @ [Some u])"
          using store_refines [OF q s, of u] False \<open>\<not> ?d < ?c\<close> by auto
        then show ?thesis
          using push room tl False le ne w0 \<open>\<not> ?d < ?c\<close> by (auto simp: win_push_def Let_def)
      next
        case far: True
        show ?thesis
        proof (cases "rq_strategy q")
          case CHIAKI_REORDER_QUEUE_DROP_STRATEGY_END
          then have "chiaki_reorder_queue_push q s u = Some (q, drop_call q s u)"
            using push tl far by simp
          then show ?thesis
            using CHIAKI_REORDER_QUEUE_DROP_STRATEGY_END far le ne w0 \<open>\<not> ?d < ?c\<close> q
            by (intro exI [of _ q]) (auto simp: win_push_def Let_def drop_call_def)
        next
          case CHIAKI_REORDER_QUEUE_DROP_STRATEGY_BEGIN
          then show ?thesis
            using push push_beyond [OF q s _ far, of u] far le ne w0 \<open>\<not> ?d < ?c\<close>
            by (auto simp: win_push_def Let_def min_def)
        qed
      qed
    qed
  qed
qed

theorem pull_refines:
  assumes q: "rq_inv bits q" "rq_uses gt lt add q"
  shows "\<exists>q'. chiaki_reorder_queue_pull q = Some (q', snd (win_pull bits (rq_window q)))
     \<and> rq_inv bits q' \<and> rq_same_config q q' \<and> rq_window q' = fst (win_pull bits (rq_window q))"
proof (cases "rq_count q = 0")
  case True
  then have "rq_window q = (rq_begin q, [])" by (simp add: rq_window_def)
  then show ?thesis
    using True q by (intro exI [of _ q]) (simp add: chiaki_reorder_queue_pull_def)
next
  case False
  let ?w = "snd (rq_window q)" and ?e = "slots q ! rq_pos q 0"
  have c: "0 < unat (rq_count q)" using False by (simp add: unat_gt_0)
  have b: "unat (rq_begin q) < space bits" using q(1) by (simp add: rq_inv_def)
  have e: "rq_entry q (rq_begin q) = Some ?e" using entry_dist [OF q(1) b] by simp
  have "?w ! 0 = rq_cell ?e" using c by (simp add: nth_window)
  then obtain xs where w: "rq_window q = (rq_begin q, rq_cell ?e # xs)" and xs: "xs = tl ?w"
    using c by (metis fst_window hd_Cons_tl hd_conv_nth length_0_conv length_window
        less_numeral_extra(3) prod.collapse)
  note adv = window_advance [OF q(1) False]
  let ?q = "q\<lparr>rq_begin := add (rq_begin q) 1, rq_count := rq_count q - 1\<rparr>"
  have wa: "win_add bits (rq_begin q) 1 = add (rq_begin q) 1"
    using win_add_eq [of 1 "rq_begin q"] by (simp add: Suc_leI)
  have w': "rq_window ?q = (add (rq_begin q) 1, tl ?w)"
    using adv(4) fst_window [of ?q] by (metis prod.collapse reorder_queue.select_convs(3)
        reorder_queue.simps(12) reorder_queue.surjective reorder_queue.update_convs(3,4))
  show ?thesis
    using False e count_le_size [OF q(1)] q w adv(1,2) wa w' [folded xs]
    by (auto simp: chiaki_reorder_queue_pull_def rq_uses_def rq_cell_def)
qed

end

end
