(* ===== verification/ReorderQueueRun.thy ===== *)
theory ReorderQueueRun
  imports ReorderQueueSpec
begin

text \<open>
  The reorder queue with 32-bit sequence numbers as its clients use it: the interpretation of
  \<open>serial_space\<close> on the functions \<open>chiaki_reorder_queue_init_32\<close> installs, whole runs of pushes
  and pulls, conservation of packets and in-order delivery.  The 16-bit functions do not
  satisfy the interface, and \<open>drop\<close> does not remove the packet it reports: the theorems at the
  end say what follows.
\<close>

subsection \<open>The 32-bit instance\<close>

interpretation seq32: serial_space 32 seq_num_32_gt seq_num_32_lt seq_num_32_add
proof unfold_locales
  fix a b :: u64
  have d: "sdist 32 a b = unat ((ucast b :: u32) - ucast a)"
    by (rule sdist_ucast) simp_all
  show "seq_num_32_lt a b \<longleftrightarrow> 0 < sdist 32 a b \<and> sdist 32 a b < space (32 - 1)"
    unfolding d seq_num_32_lt_def seq_num_lt_iff by (simp add: space_def)
  show "seq_num_32_gt a b \<longleftrightarrow> seq_num_32_lt b a"
    by (simp add: seq_num_32_gt_def seq_num_32_lt_def seq_num_gt_iff_lt)
  show "uint (seq_num_32_add a b) = (uint a + uint b) mod int (space 32)"
    by (simp add: seq_num_32_add_def space_def unsigned_ucast_eq uint_word_ariths
        take_bit_eq_mod mod_add_eq)
qed simp_all

definition rq32 :: "'u reorder_queue \<Rightarrow> bool" where
  "rq32 q \<longleftrightarrow> rq_inv 32 q \<and> rq_uses seq_num_32_gt seq_num_32_lt seq_num_32_add q"

lemma rq32_same: "rq32 q \<Longrightarrow> rq_same_config q q' \<Longrightarrow> rq_inv 32 q' \<Longrightarrow> rq32 q'"
  by (auto simp: rq32_def intro: rq_uses_same_config)

lemma rq32_init:
  assumes "1 \<le> sz" "sz \<le> 30" "chiaki_reorder_queue_init_32 True sz start = (e, q)"
  shows "e = CHIAKI_ERR_SUCCESS" "rq32 q" "rq_window q = (ucast start, [])"
    "rq_strategy q = CHIAKI_REORDER_QUEUE_DROP_STRATEGY_END"
proof -
  have "unat (ucast start :: u64) < space 32"
    using unsigned_less [of start, where 'a = nat] by (simp add: space_def unat_ucast_up)
  then show "e = CHIAKI_ERR_SUCCESS" "rq32 q" "rq_window q = (ucast start, [])"
    "rq_strategy q = CHIAKI_REORDER_QUEUE_DROP_STRATEGY_END"
    using assms
    by (auto simp: chiaki_reorder_queue_init_32_def chiaki_reorder_queue_init_def rq32_def
        rq_inv_def rq_uses_def rq_window_def)
qed

lemma rq32_push_ok:
  assumes "rq32 q" "unat s < 2 ^ 32"
  shows "\<exists>q'. chiaki_reorder_queue_push q s u = Some (q',
           if rq_drop_cb q
           then snd (win_push 32 (2 ^ size_exp q) (rq_strategy q) (rq_window q) s u) else [])
     \<and> rq32 q' \<and> rq_same_config q q'
     \<and> rq_window q' = fst (win_push 32 (2 ^ size_exp q) (rq_strategy q) (rq_window q) s u)"
  using assms seq32.push_refines [of q s u] rq32_same unfolding rq32_def space_def by blast

lemma rq32_pull_ok:
  assumes "rq32 q"
  shows "\<exists>q'. chiaki_reorder_queue_pull q = Some (q', snd (win_pull 32 (rq_window q)))
     \<and> rq32 q' \<and> rq_same_config q q' \<and> rq_window q' = fst (win_pull 32 (rq_window q))"
  using assms seq32.pull_refines [of q] rq32_same unfolding rq32_def by blast

text \<open>C3.  Pushing a packet into a 32-bit reorder queue refines the abstract window: no assertion
  fails and no slot outside the ring is touched, the invariant and the configuration are kept,
  the new window is the one \<open>win_push\<close> gives (store in the gap, extend the window, drop the
  packet, or move the window and drop from its front, according to distance and strategy), and
  the drop callback is called with exactly the packets \<open>win_push\<close> discards, in order.\<close>

theorem rq32_push_refines:
  assumes "rq32 q" "unat s < 2 ^ 32"
  shows "\<exists>q'. chiaki_reorder_queue_push q s u = Some (q',
           if rq_drop_cb q
           then snd (win_push 32 (2 ^ size_exp q) (rq_strategy q) (rq_window q) s u) else [])
     \<and> rq32 q' \<and> rq_same_config q q'
     \<and> rq_window q' = fst (win_push 32 (2 ^ size_exp q) (rq_strategy q) (rq_window q) s u)"
  using assms by (rule rq32_push_ok)

text \<open>Pulling from a 32-bit reorder queue refines the abstract window: the packet at the
  base of the window is delivered with its sequence number and the base moves by one; when the
  window is empty or starts with a gap nothing is delivered and nothing changes.\<close>

theorem rq32_pull_refines:
  assumes "rq32 q"
  shows "\<exists>q'. chiaki_reorder_queue_pull q = Some (q', snd (win_pull 32 (rq_window q)))
     \<and> rq32 q' \<and> rq_same_config q q' \<and> rq_window q' = fst (win_pull 32 (rq_window q))"
  using assms by (rule rq32_pull_ok)

subsection \<open>Runs\<close>

datatype 'u rq_op = RqPush u64 "'u option" | RqPull

text \<open>A run collects what is delivered by pulls and what is reported by the drop callback.\<close>

fun rq_run :: "'u reorder_queue \<Rightarrow> 'u rq_op list \<Rightarrow>
    ('u reorder_queue \<times> (u64 \<times> 'u option) list \<times> 'u drops) option" where
  "rq_run q [] = Some (q, [], [])"
| "rq_run q (RqPush s u # ops) =
     do { (q1, ds) \<leftarrow> chiaki_reorder_queue_push q s u;
          (q2, del, ds2) \<leftarrow> rq_run q1 ops;
          Some (q2, del, ds @ ds2) }"
| "rq_run q (RqPull # ops) =
     do { (q1, r) \<leftarrow> chiaki_reorder_queue_pull q;
          (q2, del, ds2) \<leftarrow> rq_run q1 ops;
          Some (q2, (case r of None \<Rightarrow> [] | Some x \<Rightarrow> [x]) @ del, ds2) }"

fun rq_pushed :: "'u rq_op list \<Rightarrow> (u64 \<times> 'u option) list" where
  "rq_pushed [] = []"
| "rq_pushed (RqPush s u # ops) = (s, u) # rq_pushed ops"
| "rq_pushed (RqPull # ops) = rq_pushed ops"

fun win_run :: "nat \<Rightarrow> nat \<Rightarrow> drop_strategy \<Rightarrow> 'u window \<Rightarrow> 'u rq_op list \<Rightarrow>
    'u window \<times> (u64 \<times> 'u option) list \<times> 'u drops" where
  "win_run bits cap st w [] = (w, [], [])"
| "win_run bits cap st w (RqPush s u # ops) =
     (let (w1, ds) = win_push bits cap st w s u; (w2, del, ds2) = win_run bits cap st w1 ops
      in (w2, del, ds @ ds2))"
| "win_run bits cap st w (RqPull # ops) =
     (let (w1, r) = win_pull bits w; (w2, del, ds2) = win_run bits cap st w1 ops
      in (w2, (case r of None \<Rightarrow> [] | Some x \<Rightarrow> [x]) @ del, ds2))"

definition ops_ok :: "nat \<Rightarrow> 'u rq_op list \<Rightarrow> bool" where
  "ops_ok bits ops \<longleftrightarrow> (\<forall>(s, u) \<in> set (rq_pushed ops). unat s < space bits)"

lemma rq32_run_refines:
  assumes "rq32 q" "ops_ok 32 ops"
  shows "\<exists>q'. rq_run q ops = Some (q', fst (snd (win_run 32 (2 ^ size_exp q) (rq_strategy q)
              (rq_window q) ops)),
           if rq_drop_cb q then snd (snd (win_run 32 (2 ^ size_exp q) (rq_strategy q)
              (rq_window q) ops)) else [])
     \<and> rq32 q' \<and> rq_same_config q q'
     \<and> rq_window q' = fst (win_run 32 (2 ^ size_exp q) (rq_strategy q) (rq_window q) ops)"
  using assms
proof (induction ops arbitrary: q)
  case Nil
  then show ?case by simp
next
  case (Cons op ops)
  have ops: "ops_ok 32 ops" using Cons.prems(2) by (cases op) (auto simp: ops_ok_def)
  show ?case
  proof (cases op)
    case (RqPush s u)
    then have "unat s < 2 ^ 32" using Cons.prems(2) by (simp add: ops_ok_def space_def)
    then obtain q1 where q1: "chiaki_reorder_queue_push q s u = Some (q1,
           if rq_drop_cb q
           then snd (win_push 32 (2 ^ size_exp q) (rq_strategy q) (rq_window q) s u) else [])"
      "rq32 q1" "rq_same_config q q1"
      "rq_window q1 = fst (win_push 32 (2 ^ size_exp q) (rq_strategy q) (rq_window q) s u)"
      using seq32.push_refines [of q s u] rq32_same Cons.prems(1)
      unfolding rq32_def space_def by blast
    have cfg: "size_exp q1 = size_exp q" "rq_strategy q1 = rq_strategy q"
      "rq_drop_cb q1 = rq_drop_cb q" using q1(3) by (auto simp: rq_same_config_def)
    show ?thesis
      using Cons.IH [OF q1(2) ops] rq_same_config_trans [OF q1(3)]
      unfolding RqPush cfg q1(4)
      by (auto simp: q1(1) case_prod_beta Let_def)
  next
    case RqPull
    obtain q1 where q1: "chiaki_reorder_queue_pull q = Some (q1, snd (win_pull 32 (rq_window q)))"
      "rq32 q1" "rq_same_config q q1" "rq_window q1 = fst (win_pull 32 (rq_window q))"
      using seq32.pull_refines [of q] rq32_same Cons.prems(1) unfolding rq32_def by blast
    have cfg: "size_exp q1 = size_exp q" "rq_strategy q1 = rq_strategy q"
      "rq_drop_cb q1 = rq_drop_cb q" using q1(3) by (auto simp: rq_same_config_def)
    show ?thesis
      using Cons.IH [OF q1(2) ops] rq_same_config_trans [OF q1(3)]
      unfolding RqPull cfg q1(4)
      by (auto simp: q1(1) case_prod_beta Let_def)
  qed
qed

subsection \<open>Conservation of packets\<close>

lemma win_occupied_replicate: "win_occupied bits b i (replicate n None) = []"
  by (induction n arbitrary: i) simp_all

lemma win_occupied_set:
  "d < length xs \<Longrightarrow> xs ! d = None \<Longrightarrow>
     mset (win_occupied bits b i (xs[d := Some u]))
       = add_mset (win_add bits b (i + d), u) (mset (win_occupied bits b i xs))"
proof (induction xs arbitrary: i d)
  case (Cons x xs)
  then show ?case by (cases d) auto
qed simp

lemma win_occupied_take_drop:
  "mset (win_occupied bits b i xs)
     = mset (win_occupied bits b i (take j xs)) + mset (win_occupied bits b (i + j) (drop j xs))"
  if "j \<le> length xs"
  using that win_occupied_append [of bits b i "take j xs" "drop j xs"] by simp

lemma win_add_add: "win_add bits (win_add bits b j) i = win_add bits b (j + i)"
  if "bits \<le> 32"
proof -
  have "(unat b + j) mod space bits < 18446744073709551616"
  proof -
    have "(unat b + j) mod space bits < space bits" by simp
    also have "space bits \<le> 4294967296"
      using power_increasing [OF that, of "2 :: nat"] by (simp add: space_def)
    finally show ?thesis by simp
  qed
  then have "unat (win_add bits b j) = (unat b + j) mod space bits"
    by (simp add: win_add_def unat_of_nat)
  then show ?thesis by (simp add: win_add_def mod_add_left_eq add.assoc)
qed

lemma win_occupied_base: "bits \<le> 32 \<Longrightarrow>
    win_occupied bits (win_add bits b j) i xs = win_occupied bits b (j + i) xs"
  by (induction xs arbitrary: i) (simp_all add: win_add_add split: option.splits)

context serial_space
begin

lemma win_add_dist: "unat s < space bits \<Longrightarrow> win_add bits b (sdist bits b s) = s"
  using win_add_eq [of "sdist bits b s" b] sdist_less [of b s] by (simp add: add_sdist)

lemma win_add_0: "unat b < space bits \<Longrightarrow> win_add bits b 0 = b"
  using win_add_dist [of b b] by simp

lemma win_push_conserves:
  fixes w :: "'u window"
  assumes "unat s < space bits"
  shows "add_mset (s, u) (mset (win_occupied bits (fst w) 0 (snd w)))
     = mset (win_occupied bits (fst (fst (win_push bits cap st w s u))) 0
               (snd (fst (win_push bits cap st w s u))))
       + mset (snd (win_push bits cap st w s u))"
proof -
  obtain b xs where w: "w = (b, xs)" by force
  let ?d = "sdist bits b s"
  have s: "win_add bits b ?d = s" "win_add bits s 0 = s"
    using win_add_dist [OF assms] win_add_dist [OF assms, of s] by simp_all
  have app: "win_occupied bits b k (drop k xs @ replicate (?d - length xs) None @ [Some u])
      = win_occupied bits b k (drop k xs) @ [(s, u)]" if "k \<le> length xs" "length xs \<le> ?d" for k
    using that s by (simp add: win_occupied_append win_occupied_replicate)
  have base: "win_occupied bits (win_add bits b k) 0 ys = win_occupied bits b k ys"
    for k and ys :: "'u option option list"
    using win_occupied_base [OF bits_le, of b k 0 ys] by simp
  show ?thesis
  proof (cases "?d < length xs")
    case True
    then show ?thesis
      using win_occupied_set [of ?d xs bits b 0 u] s by (simp add: win_push_def w Let_def)
  next
    case False
    define j where "j = min (length xs) (Suc ?d - cap)"
    have j: "j \<le> length xs" by (simp add: j_def)
    have split: "mset (win_occupied bits b 0 xs) = mset (win_occupied bits b 0 (take j xs))
        + mset (win_occupied bits b j (drop j xs))"
      using win_occupied_take_drop [OF j, of bits b 0] by simp
    have push: "win_push bits cap st w s u =
       (if space (bits - 1) < ?d then (w, [(s, u)])
        else if ?d = space (bits - 1) \<and> xs = [] then
          (if st = CHIAKI_REORDER_QUEUE_DROP_STRATEGY_BEGIN then ((s, [Some u]), [])
           else (w, [(s, u)]))
        else if ?d < cap then ((b, xs @ replicate (?d - length xs) None @ [Some u]), [])
        else if st = CHIAKI_REORDER_QUEUE_DROP_STRATEGY_END then (w, [(s, u)])
        else (if j = length xs then (s, [Some u])
              else (win_add bits b j, drop j xs @ replicate (?d - length xs) None @ [Some u]),
              win_occupied bits b 0 (take j xs)))"
      using False by (simp only: win_push_def Let_def w fst_conv snd_conv if_False j_def)
    show ?thesis
      unfolding push
      using False app [of 0] app [OF j] base [of j] split s w by (simp add: not_less)
  qed
qed

lemma win_pull_conserves:
  assumes "unat (fst w) < space bits"
  shows "mset (win_occupied bits (fst w) 0 (snd w))
     = mset (win_occupied bits (fst (fst (win_pull bits w))) 0 (snd (fst (win_pull bits w))))
       + mset (case snd (win_pull bits w) of None \<Rightarrow> [] | Some x \<Rightarrow> [x])"
proof (cases "(bits, w)" rule: win_pull.cases)
  case (1 bits' b u xs)
  have "win_occupied bits (win_add bits b 1) 0 xs = win_occupied bits b 1 xs"
    using win_occupied_base [OF bits_le, of b 1 0 xs] by simp
  moreover have "win_add bits b 0 = b" using 1 assms win_add_0 by simp
  ultimately show ?thesis using 1 by simp
qed auto

end

lemma win_add_less: "unat (win_add bits b j) < space bits"
proof -
  have "unat (win_add bits b j) \<le> (unat b + j) mod space bits"
    by (simp only: win_add_def unat_of_nat mod_less_eq_dividend)
  also have "\<dots> < space bits" by simp
  finally show ?thesis .
qed

lemma win_push_base:
  "unat s < space bits \<Longrightarrow> unat (fst w) < space bits \<Longrightarrow>
     unat (fst (fst (win_push bits cap st w s u))) < space bits"
  by (simp add: win_push_def Let_def win_add_less)

lemma win_pull_base:
  "unat (fst w) < space bits \<Longrightarrow> unat (fst (fst (win_pull bits w))) < space bits"
  by (cases "(bits, w)" rule: win_pull.cases) (auto simp: win_add_less)

lemma mset_step:
  "B + P = R \<Longrightarrow> add_mset x A = B + D \<Longrightarrow> A + add_mset x P = R + D"
proof -
  assume a: "B + P = R" "add_mset x A = B + D"
  have "A + add_mset x P = add_mset x A + P" by simp
  also have "\<dots> = R + D" using a by (simp add: add_ac)
  finally show ?thesis .
qed

lemma win_run_conserves:
  assumes "ops_ok 32 ops" "unat (fst w) < space 32"
  shows "mset (win_occupied 32 (fst w) 0 (snd w)) + mset (rq_pushed ops)
     = mset (win_occupied 32 (fst (fst (win_run 32 cap st w ops))) 0
               (snd (fst (win_run 32 cap st w ops))))
       + mset (fst (snd (win_run 32 cap st w ops))) + mset (snd (snd (win_run 32 cap st w ops)))"
  using assms
proof (induction ops arbitrary: w)
  case Nil
  then show ?case by simp
next
  case (Cons op ops)
  have ops: "ops_ok 32 ops" using Cons.prems(1) by (cases op) (auto simp: ops_ok_def)
  show ?case
  proof (cases op)
    case (RqPush s u)
    then have s: "unat s < space 32" using Cons.prems(1) by (simp add: ops_ok_def)
    let ?w = "fst (win_push 32 cap st w s u)"
    have "unat (fst ?w) < space 32" using s Cons.prems(2) by (intro win_push_base) auto
    then show ?thesis
      using mset_step [OF Cons.IH [OF ops, of ?w] seq32.win_push_conserves [OF s, of u w cap st]]
        RqPush
      by (simp add: case_prod_beta Let_def add_ac)
  next
    case RqPull
    let ?w = "fst (win_pull 32 w)"
    have "unat (fst ?w) < space 32" using Cons.prems(2) by (rule win_pull_base)
    then show ?thesis
      using Cons.IH [OF ops, of ?w] seq32.win_pull_conserves [OF Cons.prems(2)] RqPull
      by (simp add: case_prod_beta Let_def)
  qed
qed

text \<open>C1.  No packet is lost, duplicated or invented by a 32-bit reorder queue with a drop
  callback: over any run of pushes and pulls from a fresh queue, under either drop strategy, the
  packets pushed are, as a multiset, the packets delivered plus the packets reported to the drop
  callback plus the packets still waiting in the window; and the run never fails.\<close>

theorem rq32_run_conserves:
  assumes "1 \<le> sz" "sz \<le> 30" "\<forall>(s, u) \<in> set (rq_pushed ops). unat s < 2 ^ 32"
    and "chiaki_reorder_queue_init_32 True sz start = (e, q0)"
    and "q = chiaki_reorder_queue_set_drop_strategy (chiaki_reorder_queue_set_drop_cb q0 True) st"
  shows "\<exists>q' delivered dropped. rq_run q ops = Some (q', delivered, dropped)
     \<and> mset (rq_pushed ops) = mset delivered + mset dropped
         + mset (win_occupied 32 (fst (rq_window q')) 0 (snd (rq_window q')))"
proof -
  note i = rq32_init [OF assms(1,2,4)]
  have w: "rq_window q = (ucast start, [])" "rq_drop_cb q" "rq32 q"
    using i(2,3) assms(5)
    by (auto simp: chiaki_reorder_queue_set_drop_strategy_def rq_uses_def rq_pos_def rq_cell_def
        chiaki_reorder_queue_set_drop_cb_def rq_window_def rq32_def rq_inv_def)
  have ok: "ops_ok 32 ops" using assms(3) by (simp add: ops_ok_def space_def)
  have "unat (fst (rq_window q)) < space 32" using w(3) by (simp add: rq32_def rq_inv_def)
  note cons = win_run_conserves [OF ok this, of "2 ^ size_exp q" "rq_strategy q"]
  obtain q' where "rq_run q ops
      = Some (q', snd (win_run 32 (2 ^ size_exp q) (rq_strategy q) (rq_window q) ops))"
    "rq_window q' = fst (win_run 32 (2 ^ size_exp q) (rq_strategy q) (rq_window q) ops)"
    using rq32_run_refines [OF w(3) ok] w(2) by auto
  then show ?thesis
    using cons w(1) by (intro exI [of _ q'] exI conjI) (auto simp: add_ac)
qed

subsection \<open>In-order delivery\<close>

lemma win_push_end_base:
  "fst (fst (win_push bits cap CHIAKI_REORDER_QUEUE_DROP_STRATEGY_END w s u)) = fst w"
  by (simp add: win_push_def Let_def)

lemma win_run_in_order:
  assumes "bits \<le> 32" "unat (fst w) < space bits" "ops_ok bits ops"
  shows "map fst (fst (snd (win_run bits cap CHIAKI_REORDER_QUEUE_DROP_STRATEGY_END w ops)))
     = map (win_add bits (fst w))
         [0 ..< length (fst (snd (win_run bits cap CHIAKI_REORDER_QUEUE_DROP_STRATEGY_END w ops)))]"
  using assms(2,3)
proof (induction ops arbitrary: w)
  case (Cons op ops)
  have ops: "ops_ok bits ops" using Cons.prems(2) by (cases op) (auto simp: ops_ok_def)
  show ?case
  proof (cases op)
    case (RqPush s u)
    let ?w = "fst (win_push bits cap CHIAKI_REORDER_QUEUE_DROP_STRATEGY_END w s u)"
    have "fst ?w = fst w" by (rule win_push_end_base)
    then show ?thesis
      using Cons.IH [OF _ ops, of ?w] Cons.prems RqPush by (simp add: case_prod_beta Let_def)
  next
    case RqPull
    let ?w = "fst (win_pull bits w)"
    let ?del = "fst (snd (win_run bits cap CHIAKI_REORDER_QUEUE_DROP_STRATEGY_END ?w ops))"
    have IH: "map fst ?del = map (win_add bits (fst ?w)) [0 ..< length ?del]"
      using Cons.prems(1) by (intro Cons.IH ops win_pull_base)
    show ?thesis
    proof (cases "(bits, w)" rule: win_pull.cases)
      case (1 bits' b u xs)
      have "win_add bits b 0 = b"
        using Cons.prems(1) 1 by (simp add: win_add_def)
      moreover have "map (win_add bits (win_add bits b 1)) [0 ..< n]
          = map (win_add bits b) [1 ..< Suc n]" for n
        using win_add_add [OF assms(1), of b 1] by (intro nth_equalityI) (auto simp: nth_upt simp del: upt_Suc)
      ultimately show ?thesis
        using IH 1 RqPull upt_conv_Cons [of 0 "Suc (length ?del)"]
        by (simp add: case_prod_beta Let_def del: upt_Suc)
    qed (use IH RqPull in \<open>auto simp: case_prod_beta Let_def\<close>)
  qed
qed simp

text \<open>C2.  With the strategy a queue starts with (drop the newest), a 32-bit reorder queue delivers
  in order, without gaps and without repetition: over any run of pushes and pulls, the i-th packet
  delivered carries the start number plus i, modulo \<open>2 ^ 32\<close>, so the order survives the wrap of
  the sequence numbers.\<close>

theorem rq32_delivers_in_order:
  assumes "1 \<le> sz" "sz \<le> 30" "\<forall>(s, u) \<in> set (rq_pushed ops). unat s < 2 ^ 32"
    and "chiaki_reorder_queue_init_32 True sz start = (e, q)"
  shows "\<exists>q' delivered dropped. rq_run q ops = Some (q', delivered, dropped)
     \<and> map fst delivered = map (\<lambda>i. of_nat ((unat start + i) mod 2 ^ 32)) [0 ..< length delivered]"
proof -
  note i = rq32_init [OF assms(1,2,4)]
  have ok: "ops_ok 32 ops" using assms(3) by (simp add: ops_ok_def space_def)
  have b: "unat (fst (rq_window q)) < space 32" using i(2) by (simp add: rq32_def rq_inv_def)
  have "win_add 32 (ucast start) = (\<lambda>i. of_nat ((unat start + i) mod 2 ^ 32))"
    by (rule ext) (simp add: win_add_def space_def unat_ucast_up)
  then show ?thesis
    using rq32_run_refines [OF i(2) ok] win_run_in_order [OF _ b ok, of "2 ^ size_exp q"]
    by (auto simp: i(3,4))
qed

subsection \<open>Peek and drop\<close>

lemma rq32_entry_at:
  assumes "rq32 q"
  shows "i < rq_count q \<Longrightarrow> \<exists>e. rq_entry q (seq_num_add q (rq_begin q) i) = Some e
     \<and> snd (rq_window q) ! unat i = rq_cell e
     \<and> seq_num_add q (rq_begin q) i = win_add 32 (rq_begin q) (unat i)"
proof -
  assume "i < rq_count q"
  then have i: "unat i < unat (rq_count q)" by (simp add: word_less_nat_alt)
  have q: "rq_inv 32 q" and add: "seq_num_add q = seq_num_32_add"
    using assms by (auto simp: rq32_def rq_uses_def)
  have sp: "unat i \<le> space 32"
    using i q seq32.size_half [OF q] seq32.half by (simp add: rq_inv_def)
  have "rq_entry q (seq_num_32_add (rq_begin q) i) = Some (slots q ! rq_pos q (unat i))"
    using seq32.idx_add [OF q sp] rq_pos_less [of q "unat i"] q
    by (simp add: rq_entry_def rq_inv_def)
  then show ?thesis using add i seq32.win_add_eq [OF sp, of "rq_begin q"] by (simp add: nth_window)
qed

text \<open>\<open>peek\<close> reads the abstract window without changing it: an index below the count shows the
  packet waiting there, with its sequence number, and nothing when the slot is a gap; any other
  index shows nothing.  It never reads outside the ring.\<close>

theorem rq32_peek_window:
  assumes "rq32 q"
  shows "chiaki_reorder_queue_peek q i = Some (if i < rq_count q
           then map_option (\<lambda>u. (win_add 32 (rq_begin q) (unat i), u))
                  (snd (rq_window q) ! unat i)
           else None)"
  using rq32_entry_at [OF assms, of i]
  by (cases "i < rq_count q")
    (auto simp: chiaki_reorder_queue_peek_def rq_cell_def not_le [symmetric])

text \<open>What \<open>drop\<close> does, on every branch: it reports the packet at the index to the drop
  callback, if there is one, but leaves the queue exactly as it was.  The slot stays marked as
  set (so the loop meant to shrink the window never runs) and the reported packet is still
  delivered by a later pull.\<close>

theorem rq32_drop_keeps_packet:
  assumes "rq32 q"
  shows "chiaki_reorder_queue_drop q i = Some (q, if i < rq_count q
           then (case snd (rq_window q) ! unat i of
                   None \<Rightarrow> []
                 | Some u \<Rightarrow> drop_call q (win_add 32 (rq_begin q) (unat i)) u)
           else [])"
  using rq32_entry_at [OF assms, of i]
  by (cases "i < rq_count q")
    (auto simp: chiaki_reorder_queue_drop_def rq_cell_def not_le [symmetric] rq_shrink.simps Let_def)

subsection \<open>The 16-bit functions at the wrap\<close>

definition rq16 :: "'u reorder_queue \<Rightarrow> bool" where
  "rq16 q \<longleftrightarrow> rq_inv 17 q \<and> size_exp q \<le> 14
     \<and> rq_uses seq_num_16_gt seq_num_16_lt seq_num_16_add q"

lemma ucast_of_nat_16: "uint (ucast (of_nat a :: u64) :: u16) = int (a mod 65536)"
  by (simp add: unsigned_ucast_eq take_bit_eq_mod zmod_int uint_word_of_int_eq
      unsigned_of_nat mod_mod_cancel)

lemma seq_num_16_lt_small:
  "a < 32768 \<Longrightarrow> b < 32768 \<Longrightarrow> seq_num_16_lt (of_nat a) (of_nat b) \<longleftrightarrow> a < b"
  by (auto simp: seq_num_16_lt_def chiaki_seq_num_lt_def Let_def word_uint_eq_iff word_less_def
      ucast_of_nat_16)

lemma seq_num_16_gt_small:
  "a < 32768 \<Longrightarrow> b < 32768 \<Longrightarrow> seq_num_16_gt (of_nat a) (of_nat b) \<longleftrightarrow> b < a"
  using seq_num_16_lt_small [of b a]
  by (simp add: seq_num_16_gt_def seq_num_16_lt_def seq_num_gt_iff_lt)

text \<open>65536 counts as 0 in comparisons and additions, but it is not equal to 0.\<close>

lemma seq_num_16_wrapped:
  "seq_num_16_lt a 65536 = seq_num_16_lt a 0" "seq_num_16_gt a 65536 = seq_num_16_gt a 0"
  "seq_num_16_add 65536 a = seq_num_16_add 0 a"
proof -
  have "(ucast (65536 :: u64) :: u16) = ucast (0 :: u64)" by simp
  then show "seq_num_16_lt a 65536 = seq_num_16_lt a 0" "seq_num_16_gt a 65536 = seq_num_16_gt a 0"
    "seq_num_16_add 65536 a = seq_num_16_add 0 a"
    by (simp_all only: seq_num_16_lt_def seq_num_16_gt_def seq_num_16_add_def)
qed

lemma seq_num_16_add_small:
  "a + b < 65536 \<Longrightarrow> seq_num_16_add (of_nat a) (of_nat b) = of_nat (a + b)"
  by (simp add: seq_num_16_add_def word_uint_eq_iff uint_word_ariths unsigned_ucast_eq
      take_bit_eq_mod unsigned_of_nat zmod_int mod_mod_cancel)

lemma rq16_facts:
  assumes q: "rq16 q" and n: "n < 65536"
  shows "rq_entry q (of_nat n) = rd8 (slots q) (n mod 2 ^ size_exp q)"
    "rq_put q (of_nat n) e = Some (q\<lparr>slots := (slots q)[n mod 2 ^ size_exp q := e]\<rparr>)"
    "rq_entry q 65536 = rq_entry q 0"
    "chiaki_reorder_queue_size q = of_nat (2 ^ size_exp q)" "2 ^ size_exp q \<le> (16384 :: nat)"
    "length (slots q) = 2 ^ size_exp q"
proof -
  have sz: "size_exp q \<le> 14" "length (slots q) = 2 ^ size_exp q"
    using assms by (auto simp: rq16_def rq_inv_def)
  have i: "rq_idx q s = unat s mod 2 ^ size_exp q" for s
    using assms rq_idx_mod [of 17 q s] by (simp add: rq16_def)
  have "(2 :: nat) ^ size_exp q dvd 2 ^ 16" using sz(1) by (intro le_imp_power_dvd) simp
  then have "(65536 :: nat) mod 2 ^ size_exp q = 0" by simp
  then show "rq_entry q 65536 = rq_entry q 0" by (simp add: rq_entry_def i)
  show "rq_entry q (of_nat n) = rd8 (slots q) (n mod 2 ^ size_exp q)"
    "rq_put q (of_nat n) e = Some (q\<lparr>slots := (slots q)[n mod 2 ^ size_exp q := e]\<rparr>)"
    using n sz(2) by (simp_all add: rq_entry_def rq_put_def i unat_of_nat)
  show "chiaki_reorder_queue_size q = of_nat (2 ^ size_exp q)"
    by (simp add: chiaki_reorder_queue_size_def)
  show "2 ^ size_exp q \<le> (16384 :: nat)"
    using power_increasing [of "size_exp q" 14 "2 :: nat"] sz(1) by simp
  show "length (slots q) = 2 ^ size_exp q" by (rule sz(2))
qed

lemma rq16_extend:
  assumes "rq16 q" "rq_begin q = 65536" "rq_count q = of_nat j" "j \<le> m" "m \<le> 2 ^ size_exp q"
  shows "\<exists>q'. rq_extend q (of_nat j) (of_nat m) = Some q' \<and> rq16 q' \<and> rq_same_config q q'
     \<and> rq_begin q' = 65536 \<and> rq_count q' = of_nat m
     \<and> (0 < m \<longrightarrow> e_set (slots q' ! 0) = (0 < j \<and> e_set (slots q ! 0)))"
  using assms
proof (induction "m - j" arbitrary: q j)
  case 0
  note f = rq16_facts [OF 0(2), of 0, simplified]
  have "rq_extend q (of_nat j) (of_nat m) = Some q"
    using 0 f(5) seq_num_16_lt_small [of j m]
    by (subst rq_extend.simps) (simp add: rq16_def rq_uses_def)
  then show ?case using 0 by auto
next
  case (Suc x)
  note f = rq16_facts [OF Suc(3)]
  have jm: "j < m" "m \<le> 16384" using Suc(2,7) f(5) [of 0, simplified] by simp_all
  define e where "e = (slots q ! j)\<lparr>e_set := False\<rparr>"
  define q1 where "q1 = q\<lparr>rq_count := of_nat (Suc j), slots := (slots q)[j := e]\<rparr>"
  have jl: "j < 2 ^ size_exp q" using jm(1) Suc.prems(5) by linarith
  have q1: "rq16 q1" "rq_same_config q q1" "rq_begin q1 = 65536" "rq_count q1 = of_nat (Suc j)"
    using Suc.prems jl jm
    by (auto simp: q1_def rq16_def rq_inv_def rq_uses_def rq_same_config_def unat_of_nat
        simp del: of_nat_Suc)
  have "rq_extend q (of_nat j) (of_nat m) = rq_extend q1 (of_nat (Suc j)) (of_nat m)"
  proof -
    have "rq16 (q\<lparr>rq_count := of_nat (Suc j)\<rparr>)"
      using Suc.prems jl jm
      by (auto simp: rq16_def rq_inv_def rq_uses_def unat_of_nat simp del: of_nat_Suc)
    note g = rq16_facts [OF this, of j]
    have "seq_num_lt q (of_nat j) (of_nat m)" "seq_num_add q1 = seq_num_16_add"
      using Suc.prems(1) jm seq_num_16_lt_small [of j m] q1(2)
      by (simp_all add: rq16_def rq_uses_def rq_same_config_def)
    moreover have "rq_put (q\<lparr>rq_count := rq_count q + 1\<rparr>) (of_nat j) e = Some q1"
      using g(2) [of e] jm jl Suc.prems(3) by (simp add: q1_def add.commute)
    moreover have "rq_entry q (of_nat j) = Some (slots q ! j)"
      using f(1) [of j] f(6) [of 0, simplified] jm jl by simp
    moreover have "rq_count q1 \<le> chiaki_reorder_queue_size q1"
      using count_le_size [of 17 q1] q1(1) by (simp add: rq16_def)
    moreover have "seq_num_16_add 65536 (of_nat (Suc j)) = of_nat (Suc j)"
      using seq_num_16_add_small [of 0 "Suc j"] jm seq_num_16_wrapped(3) by simp
    ultimately show ?thesis
      using q1(3,4) by (subst rq_extend.simps) (simp add: e_def del: of_nat_Suc)
  qed
  moreover have "x = m - Suc j" "Suc j \<le> m" "m \<le> 2 ^ size_exp q1"
    using Suc.hyps(2) jm Suc.prems(5) q1(2) by (auto simp: rq_same_config_def)
  then obtain q' where q': "rq_extend q1 (of_nat (Suc j)) (of_nat m) = Some q'" "rq16 q'"
      "rq_same_config q1 q'" "rq_begin q' = 65536" "rq_count q' = of_nat m"
      "0 < m \<longrightarrow> e_set (slots q' ! 0) = e_set (slots q1 ! 0)"
    using Suc.hyps(1) [of "Suc j" q1] q1 by auto
  moreover have "e_set (slots q1 ! 0) = (0 < j \<and> e_set (slots q ! 0))"
    using jl f(6) [of 0, simplified] by (cases j) (auto simp: q1_def e_def)
  ultimately show ?case using q1(2) rq_same_config_trans by fastforce
qed

lemma rq16_push_first_wrapped:
  assumes "rq16 q" "rq_begin q = 65536" "rq_count q = 0" "0 < k" "k < 2 ^ size_exp q"
  shows "\<exists>q'. chiaki_reorder_queue_push q (of_nat k) u = Some (q', []) \<and> rq16 q'
     \<and> rq_same_config q q' \<and> rq_begin q' = 65536 \<and> rq_count q' = of_nat (Suc k)
     \<and> \<not> e_set (slots q' ! 0)"
proof -
  note f = rq16_facts [OF assms(1)]
  have k: "k < 16384" using assms(5) f(5) [of 0, simplified] by linarith
  have fn: "seq_num_lt q = seq_num_16_lt" "seq_num_gt q = seq_num_16_gt" "seq_num_add q = seq_num_16_add"
    using assms(1) by (simp_all add: rq16_def rq_uses_def)
  have z: "seq_num_16_add 0 0 = 0" using seq_num_16_add_small [of 0 0] by simp
  have sz: "chiaki_reorder_queue_size q = of_nat (2 ^ size_exp q)" "2 ^ size_exp q \<le> (16384 :: nat)"
    using f(4,5) [of 0, simplified] by simp_all
  have lt: "seq_num_16_lt (of_nat k) 0 = False" "seq_num_16_gt (of_nat k) 0"
    "seq_num_16_lt (of_nat (2 ^ size_exp q)) (of_nat (Suc k)) = False"
    using seq_num_16_lt_small [of k 0] seq_num_16_gt_small [of k 0] k assms(4,5) sz(2)
      seq_num_16_lt_small [of "2 ^ size_exp q" "Suc k"] by (simp_all del: of_nat_Suc of_nat_power)
  have add: "seq_num_16_add 0 (of_nat (2 ^ size_exp q)) = of_nat (2 ^ size_exp q)"
    "seq_num_16_add (of_nat k) 1 = of_nat (Suc k)"
    using seq_num_16_add_small [of 0 "2 ^ size_exp q"] seq_num_16_add_small [of k 1] sz(2) k
    by (simp_all add: add.commute)
  obtain q' where q': "rq_extend q 0 (of_nat (Suc k)) = Some q'" "rq16 q'" "rq_same_config q q'"
      "rq_begin q' = 65536" "rq_count q' = of_nat (Suc k)" "\<not> e_set (slots q' ! 0)"
    using rq16_extend [OF assms(1,2), of 0 "Suc k"] assms(3,5) by auto
  have kq: "k < 2 ^ size_exp q'" using q'(3) assms(5) by (simp add: rq_same_config_def)
  have "rq_store q (of_nat k) u = Some (q'\<lparr>slots := (slots q')[k := \<lparr>e_user = u, e_set = True\<rparr>]\<rparr>)"
    using rq16_facts(2) [OF q'(2), of k] q'(1) k kq
    by (simp add: rq_store_def fn add z seq_num_16_wrapped assms(2,3) del: of_nat_Suc)
  then have "chiaki_reorder_queue_push q (of_nat k) u
    = Some (q'\<lparr>slots := (slots q')[k := \<lparr>e_user = u, e_set = True\<rparr>]\<rparr>, [])"
    using lt add sz
    by (simp add: chiaki_reorder_queue_push_def Let_def rq_ge_def fn assms(2,3) z seq_num_16_wrapped
        rq_make_room_def del: of_nat_Suc of_nat_power)
  then show ?thesis
    using q' assms(4) by (auto simp: rq16_def rq_inv_def rq_uses_def rq_same_config_def)
qed

lemma rq16_zero_dropped:
  assumes "rq16 q" "rq_begin q = 65536" "rq_count q = of_nat (Suc k)" "k < 2 ^ size_exp q"
  shows "chiaki_reorder_queue_push q 0 u = Some (q, drop_call q 0 u)"
proof -
  have k: "k < 16384" using assms(4) rq16_facts(5) [OF assms(1), of 0, simplified] by linarith
  have fn: "seq_num_lt q = seq_num_16_lt" "seq_num_gt q = seq_num_16_gt" "seq_num_add q = seq_num_16_add"
    using assms(1) by (simp_all add: rq16_def rq_uses_def)
  have e: "seq_num_16_add 0 (of_nat (Suc k)) = of_nat (Suc k)"
    using seq_num_16_add_small [of 0 "Suc k"] k by simp
  have c: "(of_nat (Suc k) :: u64) \<noteq> 0" using k by (simp add: word_unat_eq_iff unat_of_nat del: of_nat_Suc)
  have "\<not> seq_num_16_gt 0 0" "\<not> seq_num_16_lt 0 0" "\<not> seq_num_16_gt 0 (of_nat (Suc k))"
    using seq_num_16_lt_small [of 0 0] seq_num_16_gt_small [of 0 0] seq_num_16_gt_small [of 0 "Suc k"] k
    by (simp_all del: of_nat_Suc)
  then show ?thesis
    using c count_le_size [of 17 q] assms(1)
    by (auto simp: chiaki_reorder_queue_push_def Let_def rq_ge_def fn assms(2,3) e rq16_def
        seq_num_16_wrapped simp del: of_nat_Suc)
qed

text \<open>The last number before the wrap goes through as it should.\<close>

lemma rq16_last_delivered:
  assumes "rq16 q" "rq_begin q = 65535" "rq_count q = 0"
  shows "\<exists>q1 q2. chiaki_reorder_queue_push q 65535 a = Some (q1, [])
     \<and> chiaki_reorder_queue_pull q1 = Some (q2, Some (65535, a))
     \<and> rq16 q2 \<and> rq_same_config q q2 \<and> rq_begin q2 = 65536 \<and> rq_count q2 = 0"
proof -
  let ?i = "(65535 :: nat) mod 2 ^ size_exp q" and ?e = "\<lparr>e_user = a, e_set = True\<rparr>"
  note f = rq16_facts [OF assms(1)]
  have fn: "seq_num_lt q = seq_num_16_lt" "seq_num_gt q = seq_num_16_gt" "seq_num_add q = seq_num_16_add"
    using assms(1) by (simp_all add: rq16_def rq_uses_def)
  have sz: "chiaki_reorder_queue_size q = of_nat (2 ^ size_exp q)" "2 ^ size_exp q \<le> (16384 :: nat)"
    "length (slots q) = 2 ^ size_exp q" "?i < 2 ^ size_exp q"
    using f(4,5,6) [of 0, simplified] by simp_all
  have add: "seq_num_16_add 65535 0 = 65535" "seq_num_16_add 65535 1 = 65536"
    by (simp_all add: seq_num_16_add_def)
  have lt: "\<not> seq_num_16_lt 65535 65535" "seq_num_16_lt 65535 65536" "\<not> seq_num_16_lt 65536 65536"
    by code_simp+
  have total: "\<not> seq_num_16_lt (seq_num_16_add 65535 (of_nat (2 ^ size_exp q))) 65536"
  proof -
    define n where "n = (2 :: nat) ^ size_exp q"
    have "0 < n" by (simp add: n_def)
    then obtain m where m: "n = Suc m" using gr0_implies_Suc by blast
    have "uint (ucast (seq_num_16_add 65535 (of_nat n)) :: u16) = (65535 + int n) mod 65536"
      using sz(2) by (simp add: n_def [symmetric] seq_num_16_add_def unsigned_ucast_eq take_bit_eq_mod uint_word_ariths
          unsigned_of_nat zmod_int mod_mod_cancel)
    also have "\<dots> = int m" using sz(2) m by (simp add: n_def [symmetric])
    finally have "\<not> seq_num_16_lt (seq_num_16_add 65535 (of_nat n)) 65536"
      using sz(2) m by (auto simp: n_def [symmetric] seq_num_16_lt_def chiaki_seq_num_lt_def Let_def word_uint_eq_iff word_less_def
          simp del: of_nat_Suc)
    then show ?thesis by (simp add: n_def)
  qed
  define q0 where "q0 = q\<lparr>rq_count := 1, slots := (slots q)[?i := (slots q ! ?i)\<lparr>e_set := False\<rparr>]\<rparr>"
  define q1 where "q1 = q\<lparr>rq_count := 1, slots := (slots q)[?i := ?e]\<rparr>"
  have inv: "rq16 q0" "rq16 q1" "rq16 (q\<lparr>rq_count := 1\<rparr>)"
    using assms(1) by (simp_all add: q0_def q1_def rq16_def rq_inv_def rq_uses_def)
  have one: "(1 :: u64) \<le> chiaki_reorder_queue_size q0"
    using count_le_size [of 17 q0] inv(1) by (simp add: rq16_def q0_def)
  have "rq_extend q0 65536 65536 = Some q0"
    using lt fn by (subst rq_extend.simps) (simp add: q0_def)
  then have "rq_extend q 65535 65536 = Some q0"
    using lt add fn one f(1) [of 65535] rq16_facts(2) [OF inv(3), of 65535] sz assms(2,3)
    by (subst rq_extend.simps) (simp add: q0_def)
  then have "rq_store q 65535 a = Some q1"
    using rq16_facts(2) [OF inv(1), of 65535] add assms(2,3)
    by (simp add: rq_store_def fn q0_def q1_def)
  then have "chiaki_reorder_queue_push q 65535 a = Some (q1, [])"
    using lt add sz(1) total assms(2,3)
    by (simp add: chiaki_reorder_queue_push_def Let_def rq_ge_def fn rq_make_room_def del: of_nat_power)
  moreover have "chiaki_reorder_queue_pull q1
    = Some (q1\<lparr>rq_begin := 65536, rq_count := 0\<rparr>, Some (65535, a))"
    using rq16_facts(1) [OF inv(2), of 65535] sz add assms(2) count_le_size [of 17 q1] inv(2)
    by (simp add: chiaki_reorder_queue_pull_def rq16_def q1_def fn)
  ultimately show ?thesis
    using assms(1) by (intro exI [of _ q1] exI [of _ "q1\<lparr>rq_begin := 65536, rq_count := 0\<rparr>"] conjI)
      (auto simp: q1_def rq16_def rq_inv_def rq_uses_def rq_same_config_def space_def)
qed

text \<open>C4.  The 16-bit reorder queue loses a packet when the sequence numbers wrap.  Its addition is
  not reduced modulo \<open>2 ^ 16\<close>, so after delivering number 65535 the base is 65536.  For every empty
  16-bit queue with base 65535 (of up to \<open>2 ^ 14\<close> slots, whatever its strategy and what its ring
  holds), all packets and every \<open>k\<close> above 0 and below the number of slots: 65535 is delivered; when
  packet \<open>k\<close> then arrives before packet 0, packet 0, the one the queue is waiting for, is neither
  equal to nor greater than the base, it is dropped (reported if there is a drop callback), and nothing can be pulled.\<close>

theorem rq16_wrap_loses_packet:
  assumes "rq16 q" "rq_begin q = 65535" "rq_count q = 0" "0 < k" "k < 2 ^ size_exp q"
  shows "\<exists>q'. rq_run q [RqPush 65535 a, RqPull, RqPush (of_nat k) c, RqPush 0 b, RqPull]
    = Some (q', [(65535, a)], if rq_drop_cb q then [(0, b)] else [])"
proof -
  obtain q1 q2 where p1: "chiaki_reorder_queue_push q 65535 a = Some (q1, [])"
      "chiaki_reorder_queue_pull q1 = Some (q2, Some (65535, a))"
    and q2: "rq16 q2" "rq_same_config q q2" "rq_begin q2 = 65536" "rq_count q2 = 0"
    using rq16_last_delivered [OF assms(1-3), of a] by blast
  have k2: "k < 2 ^ size_exp q2" using q2(2) assms(5) by (simp add: rq_same_config_def)
  obtain q3 where p3: "chiaki_reorder_queue_push q2 (of_nat k) c = Some (q3, [])"
    and q3: "rq16 q3" "rq_same_config q2 q3" "rq_begin q3 = 65536" "rq_count q3 = of_nat (Suc k)"
      "\<not> e_set (slots q3 ! 0)"
    using rq16_push_first_wrapped [OF q2(1,3,4) assms(4) k2] by blast
  have k3: "k < 2 ^ size_exp q3" using q3(2) k2 by (simp add: rq_same_config_def)
  have "chiaki_reorder_queue_pull q3 = Some (q3, None)"
    using rq16_facts(1,3,6) [OF q3(1), of 0, simplified] q3 count_le_size [of 17 q3]
    by (simp add: chiaki_reorder_queue_pull_def rq16_def del: of_nat_Suc)
  then show ?thesis
    using p1 p3 rq16_zero_dropped [OF q3(1,3,4) k3] q2(2) q3(2)
    by (simp add: drop_call_def rq_same_config_def)
qed

subsection \<open>Witnesses\<close>

theorem rq16_wrap_loses_packet_witness:
  "\<exists>q'. rq_run (chiaki_reorder_queue_set_drop_cb (snd (chiaki_reorder_queue_init_16 True 2 65535)) True)
      [RqPush 65535 (Some 10), RqPull, RqPush 1 (Some 12), RqPush 0 (Some (11 :: nat)), RqPull]
    = Some (q', [(65535, Some 10)], [(0, Some 11)])"
  using rq16_wrap_loses_packet [of "chiaki_reorder_queue_set_drop_cb
      (snd (chiaki_reorder_queue_init_16 True 2 65535)) True" 1 "Some 10" "Some 12" "Some 11"]
  by (simp add: rq16_def rq_inv_def rq_uses_def space_def chiaki_reorder_queue_set_drop_cb_def
      chiaki_reorder_queue_init_16_def chiaki_reorder_queue_init_def)

definition rq_example :: "nat reorder_queue" where
  "rq_example = snd (chiaki_reorder_queue_init_32 True 2 4294967295)"

lemma rq_example_ok: "rq32 rq_example" "rq_window rq_example = (4294967295, [])"
  "rq_drop_cb rq_example = False" "size_exp rq_example = 2" "rq_count rq_example = 0"
  using rq32_init [of 2 4294967295 "fst (chiaki_reorder_queue_init_32 True 2 4294967295)"
      rq_example]
  by (simp_all add: rq_example_def chiaki_reorder_queue_init_32_def chiaki_reorder_queue_init_def)

theorem rq32_push_refines_witness:
  "rq32 rq_example \<and> unat (0 :: u64) < 2 ^ 32
   \<and> (\<exists>q'. chiaki_reorder_queue_push rq_example 0 (Some 7) = Some (q', [])
        \<and> rq_window q' = (4294967295, [None, Some (Some 7)]))"
  using rq32_push_refines [OF rq_example_ok(1), of 0 "Some 7"]
  by (auto simp: rq_example_ok win_push_def Let_def sdist_def mdist_def space_def)

theorem rq32_pull_refines_witness:
  "rq32 rq_example
   \<and> (\<exists>q'. chiaki_reorder_queue_pull rq_example = Some (q', None)
        \<and> rq_window q' = (4294967295, []))"
  using rq32_pull_refines [OF rq_example_ok(1)] by (auto simp: rq_example_ok)

theorem rq32_run_conserves_witness:
  "\<exists>q' delivered dropped.
     rq_run (chiaki_reorder_queue_set_drop_strategy
        (chiaki_reorder_queue_set_drop_cb rq_example True)
        CHIAKI_REORDER_QUEUE_DROP_STRATEGY_BEGIN) [RqPush 0 (Some 7), RqPush 0 (Some 8), RqPull]
       = Some (q', delivered, dropped)
     \<and> mset [(0, Some 7), (0, Some 8)] = mset delivered + mset dropped
         + mset (win_occupied 32 (fst (rq_window q')) 0 (snd (rq_window q')))"
  using rq32_run_conserves [of 2 "[RqPush 0 (Some 7), RqPush 0 (Some 8), RqPull]" 4294967295
      CHIAKI_ERR_SUCCESS rq_example _ CHIAKI_REORDER_QUEUE_DROP_STRATEGY_BEGIN]
  by (simp add: rq_example_def chiaki_reorder_queue_init_32_def chiaki_reorder_queue_init_def)

theorem rq32_delivers_in_order_witness:
  "\<exists>q' delivered dropped.
     rq_run rq_example [RqPush 0 (Some 7), RqPush 4294967295 (Some 8), RqPull, RqPull]
       = Some (q', delivered, dropped)
     \<and> map fst delivered
         = map (\<lambda>i. of_nat ((4294967295 + i) mod 2 ^ 32)) [0 ..< length delivered]"
  using rq32_delivers_in_order [of 2
      "[RqPush 0 (Some 7), RqPush 4294967295 (Some 8), RqPull, RqPull]" 4294967295
      CHIAKI_ERR_SUCCESS rq_example]
  by (simp add: rq_example_def chiaki_reorder_queue_init_32_def chiaki_reorder_queue_init_def)

theorem rq32_peek_window_witness:
  "rq32 rq_example \<and> chiaki_reorder_queue_peek rq_example 0 = Some None"
  using rq32_peek_window [OF rq_example_ok(1), of 0] rq_example_ok by simp

theorem rq32_drop_keeps_packet_witness:
  "rq32 rq_example \<and> chiaki_reorder_queue_drop rq_example 0 = Some (rq_example, [])"
  using rq32_drop_keeps_packet [OF rq_example_ok(1), of 0] rq_example_ok by simp

end
