(* ===== verification/SendBuffer.thy ===== *)
theory SendBuffer
  imports SeqNum
begin

text \<open>
  The retransmission buffers: \<^verbatim>\<open>lib/src/takionsendbuffer.c\<close> (32-bit sequence numbers) and
  \<^verbatim>\<open>lib/src/remote/rudpsendbuffer.c\<close> (16-bit), which are the same code at two widths.  The
  operations are polymorphic in the width; the C names are their instances.

  The packet array keeps its allocated length, \<open>packets_count\<close> is the number of slots in use,
  and indices are natural numbers, which is exact because they stay below the array length.  The
  marker \<open>SIZE_MAX\<close> of \<open>shift_start\<close> is \<open>None\<close>.  \<open>memmove\<close> outside the array, or a write past
  the caller's array of acknowledged numbers, is \<open>None\<close> (undefined behaviour).  The result of
  \<open>chiaki_mutex_lock\<close> is the argument \<open>lk\<close>, the clock an argument \<open>now\<close>.
\<close>

subsection \<open>State\<close>

record 's send_packet =
  sp_seq_num :: 's
  sp_tries :: u64
  sp_last_send_ms :: u64
  sp_buf :: bytes

record 's send_buffer =
  sb_packets :: "'s send_packet list"
  sb_count :: nat
  sb_should_stop :: bool
  sb_attached :: bool

definition RESEND_TRIES_MAX :: u64 where
  "RESEND_TRIES_MAX = 25"

definition RESEND_ACKED_SIZE :: nat where
  "RESEND_ACKED_SIZE = 16"

definition TAKION_DATA_RESEND_TIMEOUT_MS :: u64 where
  "TAKION_DATA_RESEND_TIMEOUT_MS = 200"

definition RUDP_DATA_RESEND_TIMEOUT_MS :: u64 where
  "RUDP_DATA_RESEND_TIMEOUT_MS = 400"

text \<open>\<open>calloc\<close> zeroes the array; the outcomes of the allocation, of the mutex, of the condition
  variable and of the thread creation are arguments.\<close>

definition send_buffer_init ::
    "bool \<Rightarrow> chiaki_error \<Rightarrow> chiaki_error \<Rightarrow> chiaki_error \<Rightarrow> bool \<Rightarrow> nat \<Rightarrow>
     chiaki_error + ('n::len) word send_buffer" where
  "send_buffer_init alloc_ok mutex cond thread attached sz =
     (if \<not> alloc_ok then Inl CHIAKI_ERR_MEMORY
      else if mutex \<noteq> CHIAKI_ERR_SUCCESS then Inl mutex
      else if cond \<noteq> CHIAKI_ERR_SUCCESS then Inl cond
      else if thread \<noteq> CHIAKI_ERR_SUCCESS then Inl thread
      else Inr \<lparr> sb_packets = replicate sz
                   \<lparr>sp_seq_num = 0, sp_tries = 0, sp_last_send_ms = 0, sp_buf = []\<rparr>,
                 sb_count = 0, sb_should_stop = False, sb_attached = attached \<rparr>)"

subsection \<open>Push\<close>

record 's push_result =
  pr_err :: chiaki_error
  pr_buffer :: "'s send_buffer"
  pr_freed :: bool
  pr_signalled :: bool

fun find_seq :: "('n::len) word send_packet list \<Rightarrow> 'n word \<Rightarrow> nat \<Rightarrow> bool option" where
  "find_seq ps s 0 = Some False"
| "find_seq [] s (Suc n) = None"
| "find_seq (p # ps) s (Suc n) = (if sp_seq_num p = s then Some True else find_seq ps s n)"

definition send_buffer_push ::
    "chiaki_error \<Rightarrow> u64 \<Rightarrow> ('n::len) word send_buffer \<Rightarrow> 'n word \<Rightarrow> bytes \<Rightarrow> 'n word push_result option" where
  "send_buffer_push lk now sb s b =
     (if lk \<noteq> CHIAKI_ERR_SUCCESS
      then Some \<lparr>pr_err = lk, pr_buffer = sb, pr_freed = False, pr_signalled = False\<rparr>
      else if length (sb_packets sb) \<le> sb_count sb
      then Some \<lparr>pr_err = CHIAKI_ERR_OVERFLOW, pr_buffer = sb, pr_freed = True,
                 pr_signalled = False\<rparr>
      else do {
        dup \<leftarrow> find_seq (sb_packets sb) s (sb_count sb);
        if dup
        then Some \<lparr>pr_err = CHIAKI_ERR_INVALID_DATA, pr_buffer = sb, pr_freed = True,
                   pr_signalled = False\<rparr>
        else do {
          ps \<leftarrow> wr8 (sb_packets sb) (sb_count sb)
                 \<lparr>sp_seq_num = s, sp_tries = 0, sp_last_send_ms = now, sp_buf = b\<rparr>;
          Some \<lparr>pr_err = CHIAKI_ERR_SUCCESS,
                pr_buffer = sb\<lparr>sb_packets := ps, sb_count := sb_count sb + 1\<rparr>,
                pr_freed = False, pr_signalled = (sb_count sb + 1 = 1)\<rparr> } })"

subsection \<open>Acknowledge: the in-place compaction\<close>

definition memmove_packets :: "'p list \<Rightarrow> nat \<Rightarrow> nat \<Rightarrow> nat \<Rightarrow> 'p list option" where
  "memmove_packets ps dst src n = do { xs \<leftarrow> rd_slice ps src n; wr_slice ps dst xs }"

record 'p ack_state =
  as_packets :: "'p list"
  as_shift :: nat
  as_shift_start :: "nat option"
  as_acked :: "'p list"

text \<open>One acknowledged packet: remember it (its number is reported, its buffer freed), and extend
  the current gap or close it by moving the kept packets between the two gaps.\<close>

definition ack_one :: "nat option \<Rightarrow> nat \<Rightarrow> 'p \<Rightarrow> 'p ack_state \<Rightarrow> 'p ack_state option" where
  "ack_one cap i p st =
     (if (case cap of None \<Rightarrow> False | Some c \<Rightarrow> c \<le> length (as_acked st)) then None
      else let st = st\<lparr>as_acked := as_acked st @ [p]\<rparr> in
        case as_shift_start st of
          None \<Rightarrow> Some (st\<lparr>as_shift_start := Some i, as_shift := 1\<rparr>)
        | Some ss \<Rightarrow>
            if ss + as_shift st = i then Some (st\<lparr>as_shift := as_shift st + 1\<rparr>)
            else do {
              ps \<leftarrow> memmove_packets (as_packets st) ss (ss + as_shift st)
                      (i - (ss + as_shift st));
              Some (st\<lparr>as_packets := ps, as_shift_start := Some (i - as_shift st),
                       as_shift := as_shift st + 1\<rparr>) })"

text \<open>The loop over the slots in use: \<open>n\<close> slots remain from index \<open>i\<close>.\<close>

fun ack_loop :: "('p \<Rightarrow> bool) \<Rightarrow> nat option \<Rightarrow> nat \<Rightarrow> nat \<Rightarrow> 'p ack_state \<Rightarrow>
    'p ack_state option" where
  "ack_loop acked cap i 0 st = Some st"
| "ack_loop acked cap i (Suc n) st =
     do { p \<leftarrow> rd8 (as_packets st) i;
          st' \<leftarrow> (if acked p then ack_one cap i p st else Some st);
          ack_loop acked cap (Suc i) n st' }"

definition ack_compact :: "('p \<Rightarrow> bool) \<Rightarrow> nat option \<Rightarrow> 'p list \<Rightarrow> nat \<Rightarrow>
    ('p list \<times> nat \<times> 'p list) option" where
  "ack_compact acked cap ps cnt =
     do { st \<leftarrow> ack_loop acked cap 0 cnt
              \<lparr>as_packets = ps, as_shift = 0, as_shift_start = None, as_acked = []\<rparr>;
          (case as_shift_start st of
             None \<Rightarrow> Some (as_packets st, cnt, as_acked st)
           | Some ss \<Rightarrow> do {
               ps' \<leftarrow> (if ss + as_shift st < cnt
                       then memmove_packets (as_packets st) ss (ss + as_shift st)
                              (cnt - (ss + as_shift st))
                       else Some (as_packets st));
               Some (ps', cnt - as_shift st, as_acked st) }) }"

definition seq_acked :: "('n::len) word \<Rightarrow> 'n word send_packet \<Rightarrow> bool" where
  "seq_acked s p = (sp_seq_num p = s \<or> chiaki_seq_num_lt (sp_seq_num p) s)"

record 's ack_result =
  ar_err :: chiaki_error
  ar_buffer :: "'s send_buffer"
  ar_acked :: "'s list"
  ar_freed :: "bytes list"

text \<open>\<open>cap\<close> is the size of the caller's array of acknowledged numbers, \<open>None\<close> when it passes
  none (then nothing is reported).\<close>

definition send_buffer_ack ::
    "chiaki_error \<Rightarrow> nat option \<Rightarrow> ('n::len) word send_buffer \<Rightarrow> 'n word \<Rightarrow> 'n word ack_result option" where
  "send_buffer_ack lk cap sb s =
     (if lk \<noteq> CHIAKI_ERR_SUCCESS
      then Some \<lparr>ar_err = lk, ar_buffer = sb, ar_acked = [], ar_freed = []\<rparr>
      else do {
        (ps, c, acked) \<leftarrow> ack_compact (seq_acked s) cap (sb_packets sb) (sb_count sb);
        Some \<lparr>ar_err = CHIAKI_ERR_SUCCESS,
              ar_buffer = sb\<lparr>sb_packets := ps, sb_count := c\<rparr>,
              ar_acked = (if cap = None then [] else map sp_seq_num acked),
              ar_freed = map sp_buf acked\<rparr> })"

subsection \<open>Resend, the thread, teardown\<close>

text \<open>The loop releases the lock around the acknowledgement of a packet it gives up on; the model is
  the pass in which no other thread runs in that window.  The next index after giving up at \<open>i\<close> is
  \<open>i\<close> (or 1 when \<open>i\<close> is 0) because the loop header increments.  \<open>ok_buf\<close> says which buffers the
  send path may read (the RUDP variant inspects bytes 6 and 7 for its log line).  The result holds
  the buffers handed to the socket and the buffers freed.  Whether the pass ends is part of the
  model: a pass that does not end is \<open>None\<close>.\<close>

partial_function (option) send_buffer_resend_loop ::
    "u64 \<Rightarrow> (bytes \<Rightarrow> bool) \<Rightarrow> u64 \<Rightarrow> nat \<Rightarrow> ('n::len) word send_buffer \<Rightarrow> bytes list \<Rightarrow> bytes list \<Rightarrow>
     ('n word send_buffer \<times> bytes list \<times> bytes list) option" where
  "send_buffer_resend_loop timeout ok_buf now i sb sent freed =
     (if i < sb_count sb then do {
        p \<leftarrow> rd8 (sb_packets sb) i;
        (if timeout < now - sp_last_send_ms p
         then if RESEND_TRIES_MAX \<le> sp_tries p
           then do {
             r \<leftarrow> send_buffer_ack CHIAKI_ERR_SUCCESS (Some RESEND_ACKED_SIZE) sb (sp_seq_num p);
             send_buffer_resend_loop timeout ok_buf now ((if 0 < i then i - 1 else i) + 1)
               (ar_buffer r) sent (freed @ ar_freed r) }
           else if ok_buf (sp_buf p)
             then do {
               ps \<leftarrow> wr8 (sb_packets sb) i
                 (p\<lparr>sp_last_send_ms := now, sp_tries := sp_tries p + 1\<rparr>);
               send_buffer_resend_loop timeout ok_buf now (i + 1) (sb\<lparr>sb_packets := ps\<rparr>)
                 (sent @ [sp_buf p]) freed }
             else None
         else send_buffer_resend_loop timeout ok_buf now (i + 1) sb sent freed) }
      else Some (sb, sent, freed))"

definition send_buffer_resend ::
    "u64 \<Rightarrow> (bytes \<Rightarrow> bool) \<Rightarrow> u64 \<Rightarrow> ('n::len) word send_buffer \<Rightarrow>
     ('n word send_buffer \<times> bytes list \<times> bytes list) option" where
  "send_buffer_resend timeout ok_buf now sb =
     (if \<not> sb_attached sb then Some (sb, [], [])
      else send_buffer_resend_loop timeout ok_buf now 0 sb [] [])"

datatype sb_wait = Timed_Wait u64 | Untimed_Wait

definition sb_check_pred_packets :: "('s, 'z) send_buffer_scheme \<Rightarrow> bool" where
  "sb_check_pred_packets sb = sb_should_stop sb"

definition sb_check_pred_no_packets :: "('s, 'z) send_buffer_scheme \<Rightarrow> bool" where
  "sb_check_pred_no_packets sb = (sb_should_stop sb \<or> sb_count sb \<noteq> 0)"

text \<open>One round of the thread: how it waits, and what it does with the outcome \<open>err\<close> of the wait
  (the buffer is the one it finds when the wait returns).  The flag says whether it goes on.\<close>

definition sb_thread_wait :: "u64 \<Rightarrow> ('s, 'z) send_buffer_scheme \<Rightarrow> sb_wait" where
  "sb_thread_wait timeout sb =
     (if sb_count sb \<noteq> 0 then Timed_Wait (timeout div 2) else Untimed_Wait)"

definition sb_thread_step ::
    "u64 \<Rightarrow> (bytes \<Rightarrow> bool) \<Rightarrow> chiaki_error \<Rightarrow> u64 \<Rightarrow> ('n::len) word send_buffer \<Rightarrow>
     (bool \<times> 'n word send_buffer \<times> bytes list \<times> bytes list) option" where
  "sb_thread_step timeout ok_buf err now sb =
     (if err \<noteq> CHIAKI_ERR_SUCCESS \<and> err \<noteq> CHIAKI_ERR_TIMEOUT then Some (False, sb, [], [])
      else if sb_should_stop sb then Some (False, sb, [], [])
      else do { r \<leftarrow> send_buffer_resend timeout ok_buf now sb; Some (True, r) })"

definition send_buffer_fini :: "('s, 'z) send_buffer_scheme \<Rightarrow> bytes list option" where
  "send_buffer_fini sb =
     (if sb_count sb \<le> length (sb_packets sb)
      then Some (map sp_buf (take (sb_count sb) (sb_packets sb))) else None)"

subsection \<open>The two instances\<close>

definition chiaki_takion_send_buffer_init ::
    "bool \<Rightarrow> chiaki_error \<Rightarrow> chiaki_error \<Rightarrow> chiaki_error \<Rightarrow> bool \<Rightarrow> nat \<Rightarrow>
     chiaki_error + u32 send_buffer" where
  "chiaki_takion_send_buffer_init = send_buffer_init"

definition chiaki_takion_send_buffer_push ::
    "chiaki_error \<Rightarrow> u64 \<Rightarrow> u32 send_buffer \<Rightarrow> u32 \<Rightarrow> bytes \<Rightarrow> u32 push_result option" where
  "chiaki_takion_send_buffer_push = send_buffer_push"

definition chiaki_takion_send_buffer_ack ::
    "chiaki_error \<Rightarrow> nat option \<Rightarrow> u32 send_buffer \<Rightarrow> u32 \<Rightarrow> u32 ack_result option" where
  "chiaki_takion_send_buffer_ack = send_buffer_ack"

definition takion_send_buffer_resend ::
    "u64 \<Rightarrow> u32 send_buffer \<Rightarrow> (u32 send_buffer \<times> bytes list \<times> bytes list) option" where
  "takion_send_buffer_resend = send_buffer_resend TAKION_DATA_RESEND_TIMEOUT_MS (\<lambda>_. True)"

text \<open>The RUDP buffer makes its mutex before it allocates.\<close>

definition chiaki_rudp_send_buffer_init ::
    "bool \<Rightarrow> chiaki_error \<Rightarrow> chiaki_error \<Rightarrow> chiaki_error \<Rightarrow> bool \<Rightarrow> nat \<Rightarrow>
     chiaki_error + u16 send_buffer" where
  "chiaki_rudp_send_buffer_init alloc_ok mutex cond thread attached sz =
     (if mutex \<noteq> CHIAKI_ERR_SUCCESS then Inl mutex
      else if \<not> alloc_ok then Inl CHIAKI_ERR_MEMORY
      else if cond \<noteq> CHIAKI_ERR_SUCCESS then Inl cond
      else if thread \<noteq> CHIAKI_ERR_SUCCESS then Inl thread
      else Inr \<lparr> sb_packets = replicate sz
                   \<lparr>sp_seq_num = 0, sp_tries = 0, sp_last_send_ms = 0, sp_buf = []\<rparr>,
                 sb_count = 0, sb_should_stop = False, sb_attached = attached \<rparr>)"

definition chiaki_rudp_send_buffer_push ::
    "chiaki_error \<Rightarrow> u64 \<Rightarrow> u16 send_buffer \<Rightarrow> u16 \<Rightarrow> bytes \<Rightarrow> u16 push_result option" where
  "chiaki_rudp_send_buffer_push = send_buffer_push"

definition chiaki_rudp_send_buffer_ack ::
    "chiaki_error \<Rightarrow> nat option \<Rightarrow> u16 send_buffer \<Rightarrow> u16 \<Rightarrow> u16 ack_result option" where
  "chiaki_rudp_send_buffer_ack = send_buffer_ack"

definition rudp_send_buffer_resend ::
    "u64 \<Rightarrow> u16 send_buffer \<Rightarrow> (u16 send_buffer \<times> bytes list \<times> bytes list) option" where
  "rudp_send_buffer_resend =
     send_buffer_resend RUDP_DATA_RESEND_TIMEOUT_MS (\<lambda>b. 8 \<le> length b)"

definition takion_send_buffer_thread_func ::
    "chiaki_error \<Rightarrow> u64 \<Rightarrow> u32 send_buffer \<Rightarrow>
     (bool \<times> u32 send_buffer \<times> bytes list \<times> bytes list) option" where
  "takion_send_buffer_thread_func = sb_thread_step TAKION_DATA_RESEND_TIMEOUT_MS (\<lambda>_. True)"

definition rudp_send_buffer_thread_func ::
    "chiaki_error \<Rightarrow> u64 \<Rightarrow> u16 send_buffer \<Rightarrow>
     (bool \<times> u16 send_buffer \<times> bytes list \<times> bytes list) option" where
  "rudp_send_buffer_thread_func = sb_thread_step RUDP_DATA_RESEND_TIMEOUT_MS (\<lambda>b. 8 \<le> length b)"

definition chiaki_takion_send_buffer_fini :: "u32 send_buffer \<Rightarrow> bytes list option" where
  "chiaki_takion_send_buffer_fini = send_buffer_fini"

definition chiaki_rudp_send_buffer_fini :: "u16 send_buffer \<Rightarrow> bytes list option" where
  "chiaki_rudp_send_buffer_fini = send_buffer_fini"

subsection \<open>The compaction is a filter\<close>

text \<open>Loop invariant: before index \<open>i\<close>, the kept packets not yet moved are a segment of the array
  behind the gap; what lies at or after \<open>i\<close> is untouched.\<close>

definition ack_loop_inv :: "('p \<Rightarrow> bool) \<Rightarrow> 'p list \<Rightarrow> nat \<Rightarrow> 'p ack_state \<Rightarrow> bool" where
  "ack_loop_inv acked ps i st \<longleftrightarrow>
     length (as_packets st) = length ps
     \<and> drop i (as_packets st) = drop i ps
     \<and> as_acked st = filter acked (take i ps)
     \<and> (case as_shift_start st of
          None \<Rightarrow> as_shift st = 0 \<and> as_packets st = ps \<and> filter acked (take i ps) = []
        | Some ss \<Rightarrow> as_shift st = length (filter acked (take i ps)) \<and> 0 < as_shift st
            \<and> ss + as_shift st \<le> i
            \<and> take ss (as_packets st) @ take (i - (ss + as_shift st))
                 (drop (ss + as_shift st) (as_packets st))
              = filter (\<lambda>p. \<not> acked p) (take i ps))"

lemma memmove_in:
  assumes "src + n \<le> length ps" "dst \<le> src"
  shows "memmove_packets ps dst src n
    = Some (take dst ps @ take n (drop src ps) @ drop (dst + n) ps)"
proof -
  have "length (take n (drop src ps)) = n" using assms(1) by simp
  then show ?thesis using assms by (simp add: memmove_packets_def wr_slice_def)
qed

lemma ack_one_inv:
  assumes inv: "ack_loop_inv acked ps i st" and i: "i < length ps" and p: "p = ps ! i" "acked p"
    and cap: "\<And>c. cap = Some c \<Longrightarrow> length (filter acked (take (Suc i) ps)) \<le> c"
  shows "\<exists>st'. ack_one cap i p st = Some st' \<and> ack_loop_inv acked ps (Suc i) st'"
proof -
  have tk: "take (Suc i) ps = take i ps @ [p]" using i p by (simp add: take_Suc_conv_app_nth)
  have len: "length (as_packets st) = length ps" and dr: "drop i (as_packets st) = drop i ps"
    and ak: "as_acked st = filter acked (take i ps)"
    using inv by (auto simp: ack_loop_inv_def)
  have drS: "drop (Suc i) (as_packets st) = drop (Suc i) ps"
    using dr by (metis drop_Suc drop_tl)
  have cap_ok: "\<not> (case cap of None \<Rightarrow> False | Some c \<Rightarrow> c \<le> length (as_acked st))"
    using cap tk p(2) ak by (auto split: option.splits)
  show ?thesis
  proof (cases "as_shift_start st")
    case None
    then have "filter acked (take i ps) = []" "as_packets st = ps" "as_shift st = 0"
      using inv by (auto simp: ack_loop_inv_def)
    moreover from this have "filter (\<lambda>p. \<not> acked p) (take i ps) = take i ps"
      by (simp add: filter_empty_conv)
    ultimately show ?thesis
      using None cap_ok tk p(2) ak by (auto simp: ack_one_def Let_def ack_loop_inv_def)
  next
    case (Some ss)
    let ?k = "as_shift st"
    have k: "?k = length (filter acked (take i ps))" "0 < ?k" "ss + ?k \<le> i"
      "take ss (as_packets st) @ take (i - (ss + ?k)) (drop (ss + ?k) (as_packets st))
        = filter (\<lambda>p. \<not> acked p) (take i ps)"
      using inv Some by (auto simp: ack_loop_inv_def)
    show ?thesis
    proof (cases "ss + ?k = i")
      case True
      then show ?thesis
        using Some cap_ok tk p(2) ak k len drS
        by (auto simp: ack_one_def Let_def ack_loop_inv_def)
    next
      case False
      let ?n = "i - (ss + ?k)"
      let ?ps = "take ss (as_packets st) @ take ?n (drop (ss + ?k) (as_packets st))
        @ drop (ss + ?n) (as_packets st)"
      have mm: "memmove_packets (as_packets st) ss (ss + ?k) ?n = Some ?ps"
        using i len k by (intro memmove_in) auto
      have ssn: "ss + ?n = i - ?k" using k by simp
      have l1: "length (take ss (as_packets st) @ take ?n (drop (ss + ?k) (as_packets st))) = i - ?k"
        using i len k(2,3) by simp
      have "take (i - ?k) ?ps = filter (\<lambda>p. \<not> acked p) (take i ps)"
        using l1 k(4) by (metis append.assoc append_eq_conv_conj)
      moreover have "drop (Suc i) ?ps = drop (Suc i) ps"
        using i len k drS l1 by (simp add: ssn)
      ultimately show ?thesis
        using Some cap_ok tk p(2) ak k len mm False i
        by (auto simp: ack_one_def Let_def ack_loop_inv_def ssn)
    qed
  qed
qed

lemma ack_skip_inv:
  assumes inv: "ack_loop_inv acked ps i st" and i: "i < length ps" and p: "\<not> acked (ps ! i)"
  shows "ack_loop_inv acked ps (Suc i) st"
proof -
  have tk: "take (Suc i) ps = take i ps @ [ps ! i]" using i by (simp add: take_Suc_conv_app_nth)
  have len: "length (as_packets st) = length ps" and dr: "drop i (as_packets st) = drop i ps"
    using inv by (auto simp: ack_loop_inv_def)
  have drS: "drop (Suc i) (as_packets st) = drop (Suc i) ps"
    using dr by (metis drop_Suc drop_tl)
  have nth: "as_packets st ! i = ps ! i" using dr i len by (metis hd_drop_conv_nth)
  show ?thesis
  proof (cases "as_shift_start st")
    case None
    then show ?thesis using inv p tk drS by (auto simp: ack_loop_inv_def)
  next
    case (Some ss)
    let ?k = "as_shift st"
    have le: "ss + ?k \<le> i" using inv Some by (simp add: ack_loop_inv_def)
    then have "take (Suc i - (ss + ?k)) (drop (ss + ?k) (as_packets st))
        = take (i - (ss + ?k)) (drop (ss + ?k) (as_packets st)) @ [ps ! i]"
      using i len nth by (simp add: Suc_diff_le take_Suc_conv_app_nth)
    then show ?thesis
      using inv p tk drS Some le by (auto simp: ack_loop_inv_def)
  qed
qed

lemma ack_loop_ok:
  assumes "ack_loop_inv acked ps i st" "i + n \<le> length ps"
    and "\<And>c. cap = Some c \<Longrightarrow> length (filter acked (take (i + n) ps)) \<le> c"
  shows "\<exists>st'. ack_loop acked cap i n st = Some st' \<and> ack_loop_inv acked ps (i + n) st'"
  using assms
proof (induction n arbitrary: i st)
  case 0
  then show ?case by simp
next
  case (Suc n)
  have i: "i < length ps" using Suc.prems(2) by simp
  have st: "length (as_packets st) = length ps" "as_packets st ! i = ps ! i"
    using Suc.prems(1) i by (auto simp: ack_loop_inv_def) (metis hd_drop_conv_nth)
  have c: "length (filter acked (take (Suc i) ps)) \<le> c" if "cap = Some c" for c
  proof -
    have "take (Suc i) ps = take (Suc i) (take (i + Suc n) ps)" by (simp add: min_def)
    then have "length (filter acked (take (Suc i) ps)) \<le> length (filter acked (take (i + Suc n) ps))"
      by (metis append_take_drop_id filter_append le_add1 length_append)
    then show ?thesis using Suc.prems(3) [OF that] by simp
  qed
  have "\<exists>st'. (if acked (ps ! i) then ack_one cap i (ps ! i) st else Some st) = Some st'
      \<and> ack_loop_inv acked ps (Suc i) st'"
    using ack_one_inv [OF Suc.prems(1) i refl _ c] ack_skip_inv [OF Suc.prems(1) i] by auto
  then obtain st' where "(if acked (ps ! i) then ack_one cap i (ps ! i) st else Some st) = Some st'"
    "ack_loop_inv acked ps (Suc i) st'" by blast
  then show ?case
    using Suc.IH [of "Suc i" st'] Suc.prems(2,3) st i by simp
qed

lemma ack_compact_filter:
  assumes "cnt \<le> length ps"
    and "\<And>c. cap = Some c \<Longrightarrow> length (filter acked (take cnt ps)) \<le> c"
  shows "\<exists>ps'. ack_compact acked cap ps cnt
      = Some (ps', length (filter (\<lambda>p. \<not> acked p) (take cnt ps)), filter acked (take cnt ps))
    \<and> length ps' = length ps
    \<and> take (length (filter (\<lambda>p. \<not> acked p) (take cnt ps))) ps'
        = filter (\<lambda>p. \<not> acked p) (take cnt ps)"
proof -
  let ?st = "\<lparr>as_packets = ps, as_shift = 0, as_shift_start = None, as_acked = []\<rparr>"
  let ?keep = "filter (\<lambda>p. \<not> acked p) (take cnt ps)"
  have "ack_loop_inv acked ps 0 ?st" by (simp add: ack_loop_inv_def)
  then obtain st where st: "ack_loop acked cap 0 cnt ?st = Some st"
    "ack_loop_inv acked ps cnt st"
    using ack_loop_ok [of acked ps 0 ?st cnt cap] assms by auto
  have sum: "length (filter acked (take cnt ps)) + length ?keep = cnt"
    using sum_length_filter_compl [of acked "take cnt ps"] assms(1) by simp
  show ?thesis
  proof (cases "as_shift_start st")
    case None
    then have f: "filter acked (take cnt ps) = []" "as_packets st = ps" "as_acked st = []"
      using st(2) by (auto simp: ack_loop_inv_def)
    then have "?keep = take cnt ps" by (simp add: filter_empty_conv)
    then show ?thesis using None st f assms(1) by (simp add: ack_compact_def)
  next
    case (Some ss)
    let ?k = "as_shift st"
    have k: "?k = length (filter acked (take cnt ps))" "ss + ?k \<le> cnt"
      "take ss (as_packets st) @ take (cnt - (ss + ?k)) (drop (ss + ?k) (as_packets st)) = ?keep"
      "length (as_packets st) = length ps" "as_acked st = filter acked (take cnt ps)"
      using st(2) Some by (auto simp: ack_loop_inv_def)
    have c: "cnt - ?k = length ?keep" using sum k(1) by simp
    show ?thesis
    proof (cases "ss + ?k < cnt")
      case False
      then have "take ss (as_packets st) = ?keep" "cnt - ?k = ss" using k by auto
      then show ?thesis using Some st(1) False k c by (auto simp: ack_compact_def)
    next
      case True
      let ?n = "cnt - (ss + ?k)"
      have mm: "memmove_packets (as_packets st) ss (ss + ?k) ?n
          = Some (?keep @ drop (ss + ?n) (as_packets st))"
        using memmove_in [of "ss + ?k" ?n "as_packets st" ss] k assms(1) by simp
      have "length (?keep @ drop (ss + ?n) (as_packets st)) = length ps"
        using c k assms(1) by simp
      then show ?thesis using Some st(1) True k c mm by (auto simp: ack_compact_def)
    qed
  qed
qed

subsection \<open>Contents and invariant\<close>

definition sb_live :: "('s, 'z) send_buffer_scheme \<Rightarrow> 's send_packet list" where
  "sb_live sb = take (sb_count sb) (sb_packets sb)"

definition sb_ok :: "('s, 'z) send_buffer_scheme \<Rightarrow> bool" where
  "sb_ok sb \<longleftrightarrow>
     sb_count sb \<le> length (sb_packets sb) \<and> length (sb_packets sb) \<le> RESEND_ACKED_SIZE
     \<and> distinct (map sp_seq_num (sb_live sb))
     \<and> (\<forall>p \<in> set (sb_live sb). sp_tries p \<le> RESEND_TRIES_MAX)"

lemma length_sb_live: "sb_count sb \<le> length (sb_packets sb) \<Longrightarrow> length (sb_live sb) = sb_count sb"
  by (simp add: sb_live_def)

lemma find_seq_live:
  "n \<le> length ps \<Longrightarrow> find_seq ps s n = Some (s \<in> sp_seq_num ` set (take n ps))"
  by (induction ps s n rule: find_seq.induct) auto

lemma send_buffer_push_live:
  assumes "sb_count sb \<le> length (sb_packets sb)"
  shows "send_buffer_push CHIAKI_ERR_SUCCESS now sb s b =
    Some (if sb_count sb = length (sb_packets sb)
          then \<lparr>pr_err = CHIAKI_ERR_OVERFLOW, pr_buffer = sb, pr_freed = True,
                pr_signalled = False\<rparr>
          else if s \<in> sp_seq_num ` set (sb_live sb)
          then \<lparr>pr_err = CHIAKI_ERR_INVALID_DATA, pr_buffer = sb, pr_freed = True,
                pr_signalled = False\<rparr>
          else \<lparr>pr_err = CHIAKI_ERR_SUCCESS,
                pr_buffer = sb\<lparr>sb_packets := (sb_packets sb)[sb_count sb :=
                    \<lparr>sp_seq_num = s, sp_tries = 0, sp_last_send_ms = now, sp_buf = b\<rparr>],
                  sb_count := sb_count sb + 1\<rparr>,
                pr_freed = False, pr_signalled = (sb_count sb = 0)\<rparr>)"
  using assms by (auto simp: send_buffer_push_def find_seq_live sb_live_def)

lemma sb_live_append:
  assumes "sb_count sb < length (sb_packets sb)"
  shows "sb_live (sb\<lparr>sb_packets := (sb_packets sb)[sb_count sb := p], sb_count := sb_count sb + 1\<rparr>)
    = sb_live sb @ [p]"
  using assms by (simp add: sb_live_def take_Suc_conv_app_nth)

lemma send_buffer_ack_live:
  assumes "sb_count sb \<le> length (sb_packets sb)"
    and "\<And>c. cap = Some c \<Longrightarrow> length (filter (seq_acked s) (sb_live sb)) \<le> c"
  shows "\<exists>sb'. send_buffer_ack CHIAKI_ERR_SUCCESS cap sb s
      = Some \<lparr>ar_err = CHIAKI_ERR_SUCCESS, ar_buffer = sb',
              ar_acked = (if cap = None then [] else map sp_seq_num (filter (seq_acked s) (sb_live sb))),
              ar_freed = map sp_buf (filter (seq_acked s) (sb_live sb))\<rparr>
    \<and> sb_live sb' = filter (\<lambda>p. \<not> seq_acked s p) (sb_live sb)
    \<and> sb_count sb' = length (sb_live sb')
    \<and> length (sb_packets sb') = length (sb_packets sb)
    \<and> sb_should_stop sb' = sb_should_stop sb \<and> sb_attached sb' = sb_attached sb"
proof -
  obtain ps' where "ack_compact (seq_acked s) cap (sb_packets sb) (sb_count sb)
      = Some (ps', length (filter (\<lambda>p. \<not> seq_acked s p) (sb_live sb)),
              filter (seq_acked s) (sb_live sb))"
    "length ps' = length (sb_packets sb)"
    "take (length (filter (\<lambda>p. \<not> seq_acked s p) (sb_live sb))) ps'
      = filter (\<lambda>p. \<not> seq_acked s p) (sb_live sb)"
    using ack_compact_filter [of "sb_count sb" "sb_packets sb" cap "seq_acked s"] assms
    by (auto simp: sb_live_def)
  moreover have "length (filter (\<lambda>p. \<not> seq_acked s p) (sb_live sb)) \<le> length (sb_packets sb)"
    using assms(1) by (metis length_filter_le length_sb_live le_trans)
  ultimately show ?thesis
    by (auto simp: send_buffer_ack_def sb_live_def min.absorb2)
qed

lemma sb_ok_filter_live:
  assumes "sb_ok sb" "sb_live sb' = filter P (sb_live sb)" "sb_count sb' = length (sb_live sb')"
    "length (sb_packets sb') = length (sb_packets sb)"
  shows "sb_ok sb'"
proof -
  have "length (sb_live sb') \<le> length (sb_packets sb')"
    using assms(2,4) by (simp add: sb_live_def) (metis le_trans length_filter_le length_take min.cobounded1)
  then show ?thesis using assms by (auto simp: sb_ok_def distinct_map_filter)
qed

lemma sb_ok_ack:
  assumes "sb_ok sb" "\<And>c. cap = Some c \<Longrightarrow> RESEND_ACKED_SIZE \<le> c"
  obtains sb' where
    "send_buffer_ack CHIAKI_ERR_SUCCESS cap sb s
      = Some \<lparr>ar_err = CHIAKI_ERR_SUCCESS, ar_buffer = sb',
              ar_acked = (if cap = None then [] else map sp_seq_num (filter (seq_acked s) (sb_live sb))),
              ar_freed = map sp_buf (filter (seq_acked s) (sb_live sb))\<rparr>"
    "sb_live sb' = filter (\<lambda>p. \<not> seq_acked s p) (sb_live sb)" "sb_ok sb'"
    "sb_count sb' = length (sb_live sb')" "length (sb_packets sb') = length (sb_packets sb)"
proof -
  have c: "sb_count sb \<le> length (sb_packets sb)" "length (sb_packets sb) \<le> RESEND_ACKED_SIZE"
    using assms(1) by (auto simp: sb_ok_def)
  have "length (filter (seq_acked s) (sb_live sb)) \<le> RESEND_ACKED_SIZE"
    using c by (metis length_filter_le length_sb_live le_trans)
  then have "\<And>c. cap = Some c \<Longrightarrow> length (filter (seq_acked s) (sb_live sb)) \<le> c"
    using assms(2) le_trans by blast
  from send_buffer_ack_live [OF c(1) this] show ?thesis
    using that sb_ok_filter_live [OF assms(1)] by metis
qed

subsection \<open>The resend pass\<close>

definition sb_bufs :: "('s, 'z) send_buffer_scheme \<Rightarrow> bytes list" where
  "sb_bufs sb = map sp_buf (sb_live sb)"

definition sp_due :: "u64 \<Rightarrow> u64 \<Rightarrow> 's send_packet \<Rightarrow> bool" where
  "sp_due timeout now p = (timeout < now - sp_last_send_ms p)"

definition sp_touch :: "u64 \<Rightarrow> 's send_packet \<Rightarrow> 's send_packet" where
  "sp_touch now p = p\<lparr>sp_last_send_ms := now, sp_tries := sp_tries p + 1\<rparr>"

lemma sp_touch_simps [simp]:
  "sp_seq_num (sp_touch now p) = sp_seq_num p" "sp_buf (sp_touch now p) = sp_buf p"
  "sp_tries (sp_touch now p) = sp_tries p + 1"
  by (simp_all add: sp_touch_def)

lemma tries_succ: "\<not> RESEND_TRIES_MAX \<le> t \<Longrightarrow> t + 1 \<le> RESEND_TRIES_MAX"
  by (simp add: not_le inc_le)

lemma sb_live_update:
  "sb_live (sb\<lparr>sb_packets := (sb_packets sb)[i := p]\<rparr>) = (sb_live sb)[i := p]"
  by (simp add: sb_live_def take_update_swap)

lemma sb_bufs_update:
  assumes "i < sb_count sb" "sb_count sb \<le> length (sb_packets sb)" "sp_buf p = sp_buf (sb_packets sb ! i)"
  shows "sb_bufs (sb\<lparr>sb_packets := (sb_packets sb)[i := p]\<rparr>) = sb_bufs sb"
proof -
  have "sp_buf p = map sp_buf (sb_live sb) ! i" using assms by (simp add: sb_live_def)
  then show ?thesis by (simp add: sb_bufs_def sb_live_update map_update)
qed

lemma sb_ok_touch:
  assumes "sb_ok sb" "i < sb_count sb" "\<not> RESEND_TRIES_MAX \<le> sp_tries (sb_packets sb ! i)"
  shows "sb_ok (sb\<lparr>sb_packets := (sb_packets sb)[i := sp_touch now (sb_packets sb ! i)]\<rparr>)"
proof -
  have "sp_seq_num (sb_packets sb ! i) = map sp_seq_num (sb_live sb) ! i"
    using assms(1,2) by (simp add: sb_live_def sb_ok_def)
  then have "(map sp_seq_num (sb_live sb))[i := sp_seq_num (sb_packets sb ! i)]
      = map sp_seq_num (sb_live sb)" by simp
  moreover have "\<forall>q \<in> set ((sb_live sb)[i := sp_touch now (sb_packets sb ! i)]).
      sp_tries q \<le> RESEND_TRIES_MAX"
    using assms tries_succ set_update_subset_insert [of "sb_live sb" i]
    by (fastforce simp: sb_ok_def)
  ultimately show ?thesis
    using assms(1) by (simp add: sb_ok_def sb_live_update map_update)
qed

lemma mset_filter_bufs:
  "mset (map f (filter P xs)) + mset (map f (filter (\<lambda>x. \<not> P x) xs)) = mset (map f xs)"
  by (induction xs) auto

lemma resend_loop_ok:
  assumes "sb_ok sb" "\<forall>b \<in> set (sb_bufs sb). ok_buf b"
  shows "\<exists>sb' sent' freed'.
      send_buffer_resend_loop timeout ok_buf now i sb sent freed = Some (sb', sent', freed')
      \<and> sb_ok sb' \<and> length (sb_packets sb') = length (sb_packets sb)
      \<and> mset (sb_bufs sb') + mset freed' = mset (sb_bufs sb) + mset freed
      \<and> set sent' \<subseteq> set sent \<union> set (sb_bufs sb)"
  using assms
proof (induction "sb_count sb - i" arbitrary: sb i sent freed rule: less_induct)
  case less
  let ?loop = "send_buffer_resend_loop timeout ok_buf now"
  show ?case
  proof (cases "i < sb_count sb")
    case False
    then show ?thesis using less.prems by (subst send_buffer_resend_loop.simps) simp
  next
    case i: True
    let ?p = "sb_packets sb ! i"
    have c: "sb_count sb \<le> length (sb_packets sb)" using less.prems(1) by (simp add: sb_ok_def)
    have p: "rd8 (sb_packets sb) i = Some ?p" "?p \<in> set (sb_live sb)"
      using i c by (auto simp: sb_live_def in_set_conv_nth intro!: exI [of _ i])
    consider (skip) "\<not> timeout < now - sp_last_send_ms ?p"
      | (give_up) "timeout < now - sp_last_send_ms ?p" "RESEND_TRIES_MAX \<le> sp_tries ?p"
      | (send) "timeout < now - sp_last_send_ms ?p" "\<not> RESEND_TRIES_MAX \<le> sp_tries ?p"
      by blast
    then show ?thesis
    proof cases
      case skip
      have "?loop i sb sent freed = ?loop (i + 1) sb sent freed"
        using skip i p(1) by (subst send_buffer_resend_loop.simps) simp
      then show ?thesis using less.hyps [of sb "i + 1"] less.prems i by simp
    next
      case send
      let ?sb = "sb\<lparr>sb_packets := (sb_packets sb)[i := sp_touch now ?p]\<rparr>"
      have b: "sb_bufs ?sb = sb_bufs sb" using i c by (intro sb_bufs_update) auto
      have "ok_buf (sp_buf ?p)" using less.prems(2) p(2) by (auto simp: sb_bufs_def)
      then have eq: "?loop i sb sent freed = ?loop (i + 1) ?sb (sent @ [sp_buf ?p]) freed"
        using send i c p(1) by (subst send_buffer_resend_loop.simps) (simp add: sp_touch_def)
      have m: "sb_count ?sb - (i + 1) < sb_count sb - i" using i by simp
      have bk: "\<forall>b \<in> set (sb_bufs ?sb). ok_buf b" using less.prems(2) b by simp
      have ok: "sb_ok ?sb" by (rule sb_ok_touch [OF less.prems(1) i send(2)])
      have "sp_buf ?p \<in> set (sb_bufs sb)" using p(2) by (auto simp: sb_bufs_def)
      then show ?thesis
        using less.hyps [OF m ok bk, of "sent @ [sp_buf ?p]" freed] unfolding eq b by auto
    next
      case give_up
      obtain sb' where sb': "send_buffer_ack CHIAKI_ERR_SUCCESS (Some RESEND_ACKED_SIZE) sb (sp_seq_num ?p)
          = Some \<lparr>ar_err = CHIAKI_ERR_SUCCESS, ar_buffer = sb',
              ar_acked = (if Some RESEND_ACKED_SIZE = None then []
                else map sp_seq_num (filter (seq_acked (sp_seq_num ?p)) (sb_live sb))),
              ar_freed = map sp_buf (filter (seq_acked (sp_seq_num ?p)) (sb_live sb))\<rparr>"
        "sb_live sb' = filter (\<lambda>q. \<not> seq_acked (sp_seq_num ?p) q) (sb_live sb)" "sb_ok sb'"
        "sb_count sb' = length (sb_live sb')" "length (sb_packets sb') = length (sb_packets sb)"
        using sb_ok_ack [OF less.prems(1), of "Some RESEND_ACKED_SIZE" "sp_seq_num ?p"] by auto
      let ?f = "map sp_buf (filter (seq_acked (sp_seq_num ?p)) (sb_live sb))"
      have "sb_count sb' < sb_count sb"
        using p(2) sb'(2,4) length_sb_live [OF c] length_filter_less [of ?p "sb_live sb"]
        by (fastforce simp: seq_acked_def)
      then have m: "sb_count sb' - ((if 0 < i then i - 1 else i) + 1) < sb_count sb - i"
        using i by auto
      have eq: "?loop i sb sent freed
          = ?loop ((if 0 < i then i - 1 else i) + 1) sb' sent (freed @ ?f)"
        using give_up i p(1) sb'(1) by (subst send_buffer_resend_loop.simps) simp
      have ms: "mset (sb_bufs sb') + mset ?f = mset (sb_bufs sb)"
        using mset_filter_bufs [of sp_buf "seq_acked (sp_seq_num ?p)" "sb_live sb"] sb'(2)
        by (simp add: sb_bufs_def add.commute)
      have sub: "set (sb_bufs sb') \<subseteq> set (sb_bufs sb)" using sb'(2) by (auto simp: sb_bufs_def)
      then have bk: "\<forall>b \<in> set (sb_bufs sb'). ok_buf b" using less.prems(2) by blast
      obtain sb2 sent' freed' where r: "?loop ((if 0 < i then i - 1 else i) + 1) sb' sent (freed @ ?f)
          = Some (sb2, sent', freed')" "sb_ok sb2" "length (sb_packets sb2) = length (sb_packets sb')"
        "mset (sb_bufs sb2) + mset freed' = mset (sb_bufs sb') + mset (freed @ ?f)"
        "set sent' \<subseteq> set sent \<union> set (sb_bufs sb')"
        using less.hyps [OF m sb'(3) bk, of sent "freed @ ?f"] by blast
      have "mset (sb_bufs sb2) + mset freed' = mset (sb_bufs sb) + mset freed"
        using r(4) ms [symmetric] by (simp only: mset_append ac_simps)
      moreover have "set sent' \<subseteq> set sent \<union> set (sb_bufs sb)" using r(5) sub by blast
      moreover have "length (sb_packets sb2) = length (sb_packets sb)" using r(3) sb'(5) by simp
      ultimately show ?thesis using r(1,2) unfolding eq by blast
    qed
  qed
qed

lemma resend_ok:
  assumes "sb_ok sb" "\<forall>b \<in> set (sb_bufs sb). ok_buf b"
  shows "\<exists>sb' sent freed. send_buffer_resend timeout ok_buf now sb = Some (sb', sent, freed)
      \<and> sb_ok sb' \<and> length (sb_packets sb') = length (sb_packets sb)
      \<and> mset (sb_bufs sb') + mset freed = mset (sb_bufs sb) \<and> set sent \<subseteq> set (sb_bufs sb)"
  using resend_loop_ok [OF assms, of timeout now 0 "[]" "[]"] assms(1)
  by (auto simp: send_buffer_resend_def)

text \<open>When no due packet has used up its tries, a pass sends exactly the due packets, in order,
  and marks them.\<close>

lemma resend_loop_exact:
  assumes "sb_count sb \<le> length (sb_packets sb)"
    and "\<And>p. p \<in> set (drop i (sb_live sb)) \<Longrightarrow> sp_due timeout now p
           \<Longrightarrow> sp_tries p < RESEND_TRIES_MAX \<and> ok_buf (sp_buf p)"
    and "i \<le> sb_count sb"
  shows "\<exists>sb'. send_buffer_resend_loop timeout ok_buf now i sb sent freed
      = Some (sb', sent @ map sp_buf (filter (sp_due timeout now) (drop i (sb_live sb))), freed)
    \<and> sb_live sb' = take i (sb_live sb)
        @ map (\<lambda>p. if sp_due timeout now p then sp_touch now p else p) (drop i (sb_live sb))"
  using assms
proof (induction "sb_count sb - i" arbitrary: sb i sent)
  case 0
  then have "i = sb_count sb" "length (sb_live sb) = sb_count sb"
    by (auto simp: length_sb_live)
  then show ?case by (subst send_buffer_resend_loop.simps) simp
next
  case (Suc m)
  let ?loop = "send_buffer_resend_loop timeout ok_buf now"
  let ?p = "sb_packets sb ! i"
  have i: "i < sb_count sb" and c: "sb_count sb \<le> length (sb_packets sb)" using Suc by auto
  have l: "length (sb_live sb) = sb_count sb" using c by (rule length_sb_live)
  have nth: "sb_live sb ! i = ?p" using i by (simp add: sb_live_def)
  have dr: "drop i (sb_live sb) = ?p # drop (i + 1) (sb_live sb)"
    using i l nth Cons_nth_drop_Suc [of i "sb_live sb"] by simp
  have p: "rd8 (sb_packets sb) i = Some ?p" using i c by simp
  show ?case
  proof (cases "sp_due timeout now ?p")
    case False
    have "?loop i sb sent freed = ?loop (i + 1) sb sent freed"
      using False i p by (subst send_buffer_resend_loop.simps) (simp add: sp_due_def)
    then show ?thesis
      using Suc.hyps(1) [of sb "i + 1" sent] Suc.hyps(2) Suc.prems False i dr l nth
      by (auto simp: take_Suc_conv_app_nth)
  next
    case True
    let ?sb = "sb\<lparr>sb_packets := (sb_packets sb)[i := sp_touch now ?p]\<rparr>"
    have t: "sp_tries ?p < RESEND_TRIES_MAX" "ok_buf (sp_buf ?p)"
      using Suc.prems(2) [of ?p] True dr by auto
    have eq: "?loop i sb sent freed = ?loop (i + 1) ?sb (sent @ [sp_buf ?p]) freed"
      using True i c p t
      by (subst send_buffer_resend_loop.simps) (simp add: sp_due_def sp_touch_def not_le [symmetric])
    have lv: "sb_live ?sb = (sb_live sb)[i := sp_touch now ?p]" by (rule sb_live_update)
    then have d: "drop (i + 1) (sb_live ?sb) = drop (i + 1) (sb_live sb)" by simp
    have tk: "take (i + 1) (sb_live ?sb) = take i (sb_live sb) @ [sp_touch now ?p]"
      using i l lv by (simp add: take_Suc_conv_app_nth)
    have "sb_count ?sb \<le> length (sb_packets ?sb)" "m = sb_count ?sb - (i + 1)" "i + 1 \<le> sb_count ?sb"
      using c i Suc.hyps(2) by auto
    then obtain sb' where "?loop (i + 1) ?sb (sent @ [sp_buf ?p]) freed = Some (sb',
        (sent @ [sp_buf ?p]) @ map sp_buf (filter (sp_due timeout now) (drop (i + 1) (sb_live ?sb))),
        freed)"
      "sb_live sb' = take (i + 1) (sb_live ?sb)
        @ map (\<lambda>p. if sp_due timeout now p then sp_touch now p else p) (drop (i + 1) (sb_live ?sb))"
      using Suc.hyps(1) [of ?sb "i + 1" "sent @ [sp_buf ?p]"] Suc.prems(2) d dr by auto
    then show ?thesis
      using True dr unfolding eq d tk by simp
  qed
qed

end
