(* ===== verification/SendBufferRun.thy ===== *)
theory SendBufferRun
  imports SendBuffer
begin

text \<open>
  What a retransmission buffer promises its owner, stated as the interface \<open>retransmit_buffer\<close> and
  interpreted for the Takion (32-bit) and the RUDP (16-bit) buffer: every packet buffer handed in is
  held or freed, exactly once, whatever the order of pushes, acknowledgements and resend passes.
\<close>

subsection \<open>The interface\<close>

datatype 's sb_op = Sb_Push u64 's bytes | Sb_Ack 's | Sb_Resend u64

text \<open>A run of operations; \<open>freed\<close> collects the buffers released on the way.\<close>

fun sb_run ::
    "(u64 \<Rightarrow> 'b \<Rightarrow> 's \<Rightarrow> bytes \<Rightarrow> ('b \<times> bytes list) option) \<Rightarrow>
     ('b \<Rightarrow> 's \<Rightarrow> ('b \<times> bytes list) option) \<Rightarrow>
     (u64 \<Rightarrow> 'b \<Rightarrow> ('b \<times> bytes list \<times> bytes list) option) \<Rightarrow>
     's sb_op list \<Rightarrow> 'b \<Rightarrow> ('b \<times> bytes list) option" where
  "sb_run push ack resend [] b = Some (b, [])"
| "sb_run push ack resend (op # ops) b =
     do { (b', f) \<leftarrow> (case op of
            Sb_Push now s x \<Rightarrow> push now b s x
          | Sb_Ack s \<Rightarrow> ack b s
          | Sb_Resend now \<Rightarrow> map_option (\<lambda>(b', sent, f). (b', f)) (resend now b));
          (b'', f') \<leftarrow> sb_run push ack resend ops b';
          Some (b'', f @ f') }"

fun sb_pushed :: "'s sb_op list \<Rightarrow> bytes list" where
  "sb_pushed [] = []"
| "sb_pushed (Sb_Push now s x # ops) = x # sb_pushed ops"
| "sb_pushed (Sb_Ack s # ops) = sb_pushed ops"
| "sb_pushed (Sb_Resend now # ops) = sb_pushed ops"

locale retransmit_buffer =
  fixes ok :: "'b \<Rightarrow> bool"
    and bufs :: "'b \<Rightarrow> bytes list"
    and fits :: "bytes \<Rightarrow> bool"
    and push :: "u64 \<Rightarrow> 'b \<Rightarrow> 's \<Rightarrow> bytes \<Rightarrow> ('b \<times> bytes list) option"
    and ack :: "'b \<Rightarrow> 's \<Rightarrow> ('b \<times> bytes list) option"
    and resend :: "u64 \<Rightarrow> 'b \<Rightarrow> ('b \<times> bytes list \<times> bytes list) option"
  assumes push_law: "ok b \<Longrightarrow>
      \<exists>b' f. push now b s x = Some (b', f) \<and> ok b'
        \<and> mset (bufs b') + mset f = add_mset x (mset (bufs b))"
    and ack_law: "ok b \<Longrightarrow>
      \<exists>b' f. ack b s = Some (b', f) \<and> ok b' \<and> mset (bufs b') + mset f = mset (bufs b)"
    and resend_law: "ok b \<Longrightarrow> \<forall>x \<in> set (bufs b). fits x \<Longrightarrow>
      \<exists>b' sent f. resend now b = Some (b', sent, f) \<and> ok b'
        \<and> mset (bufs b') + mset f = mset (bufs b)"
begin

lemma kept_fit:
  assumes "mset (bufs b') + mset f = M" "\<forall>x \<in> set_mset M. fits x"
  shows "\<forall>x \<in> set (bufs b'). fits x"
  using assms by (metis set_mset_mset set_mset_union UnI1)

lemma run_conserves:
  assumes "ok b" "\<forall>x \<in> set (bufs b). fits x" "\<forall>x \<in> set (sb_pushed ops). fits x"
  shows "\<exists>b' f. sb_run push ack resend ops b = Some (b', f) \<and> ok b'
      \<and> mset (bufs b') + mset f = mset (bufs b) + mset (sb_pushed ops)"
  using assms
proof (induction ops arbitrary: b)
  case Nil
  then show ?case by simp
next
  case (Cons op ops)
  have "\<exists>b1 f1. (case op of
            Sb_Push now s x \<Rightarrow> push now b s x
          | Sb_Ack s \<Rightarrow> ack b s
          | Sb_Resend now \<Rightarrow> map_option (\<lambda>(b', sent, f). (b', f)) (resend now b)) = Some (b1, f1)
      \<and> ok b1 \<and> mset (bufs b1) + mset f1 + mset (sb_pushed ops)
          = mset (bufs b) + mset (sb_pushed (op # ops))"
  proof (cases op)
    case (Sb_Push now s x)
    then show ?thesis using push_law [OF Cons.prems(1), of now s x] by force
  next
    case (Sb_Ack s)
    then show ?thesis using ack_law [OF Cons.prems(1), of s] by force
  next
    case (Sb_Resend now)
    then show ?thesis using resend_law [OF Cons.prems(1,2), of now] by force
  qed
  then obtain b1 f1 where 1: "(case op of
            Sb_Push now s x \<Rightarrow> push now b s x
          | Sb_Ack s \<Rightarrow> ack b s
          | Sb_Resend now \<Rightarrow> map_option (\<lambda>(b', sent, f). (b', f)) (resend now b)) = Some (b1, f1)"
      "ok b1" "mset (bufs b1) + mset f1 + mset (sb_pushed ops)
          = mset (bufs b) + mset (sb_pushed (op # ops))" by blast
  have "\<forall>x \<in> set_mset (mset (bufs b) + mset (sb_pushed (op # ops))). fits x"
    using Cons.prems(2,3) by auto
  then have fit: "\<forall>x \<in> set (bufs b1). fits x" "\<forall>x \<in> set (sb_pushed ops). fits x"
    unfolding 1(3) [symmetric] by auto
  obtain b2 f2 where 2: "sb_run push ack resend ops b1 = Some (b2, f2)" "ok b2"
      "mset (bufs b2) + mset f2 = mset (bufs b1) + mset (sb_pushed ops)"
    using Cons.IH [OF 1(2) fit] by blast
  have "sb_run push ack resend (op # ops) b = Some (b2, f1 @ f2)"
    using 1(1) 2(1) by simp
  moreover have "mset (bufs b2) + mset (f1 @ f2) = mset (bufs b) + mset (sb_pushed (op # ops))"
    using 2(3) unfolding 1(3) [symmetric] by (simp add: ac_simps)
  ultimately show ?case using 2(2) by blast
qed

end

subsection \<open>The two buffers provide it\<close>

definition sb_do_push :: "u64 \<Rightarrow> ('n::len) word send_buffer \<Rightarrow> 'n word \<Rightarrow> bytes \<Rightarrow>
    ('n word send_buffer \<times> bytes list) option" where
  "sb_do_push now sb s b =
     map_option (\<lambda>r. (pr_buffer r, if pr_freed r then [b] else []))
       (send_buffer_push CHIAKI_ERR_SUCCESS now sb s b)"

definition sb_do_ack :: "('n::len) word send_buffer \<Rightarrow> 'n word \<Rightarrow>
    ('n word send_buffer \<times> bytes list) option" where
  "sb_do_ack sb s =
     map_option (\<lambda>r. (ar_buffer r, ar_freed r))
       (send_buffer_ack CHIAKI_ERR_SUCCESS (Some RESEND_ACKED_SIZE) sb s)"

lemma sb_ok_append:
  assumes "sb_ok sb" "sb_count sb < length (sb_packets sb)" "s \<notin> sp_seq_num ` set (sb_live sb)"
  shows "sb_ok (sb\<lparr>sb_packets := (sb_packets sb)[sb_count sb :=
      \<lparr>sp_seq_num = s, sp_tries = 0, sp_last_send_ms = now, sp_buf = b\<rparr>],
    sb_count := sb_count sb + 1\<rparr>)"
  using assms sb_live_append [OF assms(2)]
  by (auto simp: sb_ok_def)

lemma sb_push_law:
  assumes "sb_ok sb"
  shows "\<exists>sb' f. sb_do_push now sb s b = Some (sb', f) \<and> sb_ok sb'
    \<and> mset (sb_bufs sb') + mset f = add_mset b (mset (sb_bufs sb))"
proof -
  have c: "sb_count sb \<le> length (sb_packets sb)" using assms by (simp add: sb_ok_def)
  show ?thesis
  proof (cases "sb_count sb = length (sb_packets sb) \<or> s \<in> sp_seq_num ` set (sb_live sb)")
    case True
    then show ?thesis using c assms by (auto simp: sb_do_push_def send_buffer_push_live)
  next
    case False
    then have lt: "sb_count sb < length (sb_packets sb)" using c by auto
    show ?thesis
      using False lt sb_live_append [OF lt] sb_ok_append [OF assms lt]
      by (simp add: sb_do_push_def send_buffer_push_live sb_bufs_def)
  qed
qed

lemma sb_ack_law:
  assumes "sb_ok sb"
  shows "\<exists>sb' f. sb_do_ack sb s = Some (sb', f) \<and> sb_ok sb'
    \<and> mset (sb_bufs sb') + mset f = mset (sb_bufs sb)"
proof -
  obtain sb' where "send_buffer_ack CHIAKI_ERR_SUCCESS (Some RESEND_ACKED_SIZE) sb s
      = Some \<lparr>ar_err = CHIAKI_ERR_SUCCESS, ar_buffer = sb',
              ar_acked = (if Some RESEND_ACKED_SIZE = None then []
                else map sp_seq_num (filter (seq_acked s) (sb_live sb))),
              ar_freed = map sp_buf (filter (seq_acked s) (sb_live sb))\<rparr>"
    "sb_live sb' = filter (\<lambda>p. \<not> seq_acked s p) (sb_live sb)" "sb_ok sb'"
    using sb_ok_ack [OF assms, of "Some RESEND_ACKED_SIZE" s] by auto
  then show ?thesis
    using mset_filter_bufs [of sp_buf "seq_acked s" "sb_live sb"]
    by (auto simp: sb_do_ack_def sb_bufs_def add.commute)
qed

interpretation takion_buf: retransmit_buffer
  "sb_ok :: u32 send_buffer \<Rightarrow> bool" sb_bufs "\<lambda>_. True" sb_do_push sb_do_ack
  takion_send_buffer_resend
proof
  show "\<exists>b' sent f. takion_send_buffer_resend now b = Some (b', sent, f) \<and> sb_ok b'
      \<and> mset (sb_bufs b') + mset f = mset (sb_bufs b)" if "sb_ok b" for now b
    using resend_ok [OF that, of "\<lambda>_. True"] by (fastforce simp: takion_send_buffer_resend_def)
qed (rule sb_push_law sb_ack_law; assumption)+

interpretation rudp_buf: retransmit_buffer
  "sb_ok :: u16 send_buffer \<Rightarrow> bool" sb_bufs "\<lambda>b. 8 \<le> length b" sb_do_push sb_do_ack
  rudp_send_buffer_resend
proof
  show "\<exists>b' sent f. rudp_send_buffer_resend now b = Some (b', sent, f) \<and> sb_ok b'
      \<and> mset (sb_bufs b') + mset f = mset (sb_bufs b)"
    if "sb_ok b" "\<forall>x \<in> set (sb_bufs b). 8 \<le> length x" for now b
    using resend_ok [OF that, of RUDP_DATA_RESEND_TIMEOUT_MS now]
    by (fastforce simp: rudp_send_buffer_resend_def)
qed (rule sb_push_law sb_ack_law; assumption)+

subsection \<open>Properties\<close>

definition sb_empty :: "bool \<Rightarrow> ('n::len) word send_buffer" where
  "sb_empty attached = \<lparr> sb_packets = replicate RESEND_ACKED_SIZE
       \<lparr>sp_seq_num = 0, sp_tries = 0, sp_last_send_ms = 0, sp_buf = []\<rparr>,
     sb_count = 0, sb_should_stop = False, sb_attached = attached \<rparr>"

lemma sb_empty_ok: "sb_ok (sb_empty attached)" "sb_bufs (sb_empty attached) = []"
  by (simp_all add: sb_empty_def sb_ok_def sb_live_def sb_bufs_def)

lemma sb_fini_bufs: "sb_ok sb \<Longrightarrow> send_buffer_fini sb = Some (sb_bufs sb)"
  by (simp add: send_buffer_fini_def sb_ok_def sb_bufs_def sb_live_def)

text \<open>C5.  No leak and no double free in the Takion send buffer: from a fresh buffer, whatever
  sequence of pushes, acknowledgements and resend passes is run, every operation completes inside
  its arrays (each resend pass ends), and the buffers freed on the way together with those freed at
  teardown are exactly the buffers pushed, each once.\<close>

theorem takion_send_buffer_no_leak:
  "\<exists>sb sb' f r. chiaki_takion_send_buffer_init True CHIAKI_ERR_SUCCESS CHIAKI_ERR_SUCCESS
        CHIAKI_ERR_SUCCESS attached RESEND_ACKED_SIZE = Inr sb
    \<and> sb_run sb_do_push sb_do_ack takion_send_buffer_resend ops sb = Some (sb', f)
    \<and> send_buffer_fini sb' = Some r \<and> mset (f @ r) = mset (sb_pushed ops)"
proof -
  have "chiaki_takion_send_buffer_init True CHIAKI_ERR_SUCCESS CHIAKI_ERR_SUCCESS
        CHIAKI_ERR_SUCCESS attached RESEND_ACKED_SIZE = Inr (sb_empty attached)"
    by (simp add: chiaki_takion_send_buffer_init_def send_buffer_init_def sb_empty_def)
  moreover obtain sb' f where
    "sb_run sb_do_push sb_do_ack takion_send_buffer_resend ops (sb_empty attached) = Some (sb', f)"
    "sb_ok sb'" "mset (sb_bufs sb') + mset f = mset (sb_pushed ops)"
    using takion_buf.run_conserves [OF sb_empty_ok(1), of attached ops] by (auto simp: sb_empty_ok)
  ultimately show ?thesis by (auto simp: sb_fini_bufs add.commute)
qed

text \<open>The same for the RUDP send buffer, for packets of at least 8 bytes: the resend pass reads
  bytes 6 and 7 of every packet it sends again.\<close>

theorem rudp_send_buffer_no_leak:
  assumes "\<forall>x \<in> set (sb_pushed ops). 8 \<le> length x"
  shows "\<exists>sb sb' f r. chiaki_rudp_send_buffer_init True CHIAKI_ERR_SUCCESS CHIAKI_ERR_SUCCESS
        CHIAKI_ERR_SUCCESS attached RESEND_ACKED_SIZE = Inr sb
    \<and> sb_run sb_do_push sb_do_ack rudp_send_buffer_resend ops sb = Some (sb', f)
    \<and> send_buffer_fini sb' = Some r \<and> mset (f @ r) = mset (sb_pushed ops)"
proof -
  have "chiaki_rudp_send_buffer_init True CHIAKI_ERR_SUCCESS CHIAKI_ERR_SUCCESS
        CHIAKI_ERR_SUCCESS attached RESEND_ACKED_SIZE = Inr (sb_empty attached)"
    by (simp add: chiaki_rudp_send_buffer_init_def sb_empty_def)
  moreover obtain sb' f where
    "sb_run sb_do_push sb_do_ack rudp_send_buffer_resend ops (sb_empty attached) = Some (sb', f)"
    "sb_ok sb'" "mset (sb_bufs sb') + mset f = mset (sb_pushed ops)"
    using rudp_buf.run_conserves [OF sb_empty_ok(1), of attached ops] assms
    by (auto simp: sb_empty_ok)
  ultimately show ?thesis by (auto simp: sb_fini_bufs add.commute)
qed

text \<open>A cumulative acknowledgement removes exactly the packets whose number is the acknowledged
  one or precedes it in serial-number order, reports those numbers in buffer order without
  overflowing the caller's 16-entry array, frees their buffers, and keeps the others in order.\<close>

theorem takion_ack_cumulative:
  assumes "sb_ok sb"
  shows "\<exists>sb'. chiaki_takion_send_buffer_ack CHIAKI_ERR_SUCCESS (Some RESEND_ACKED_SIZE) sb s
      = Some \<lparr>ar_err = CHIAKI_ERR_SUCCESS, ar_buffer = sb',
              ar_acked = map sp_seq_num (filter (seq_acked s) (sb_live sb)),
              ar_freed = map sp_buf (filter (seq_acked s) (sb_live sb))\<rparr>
    \<and> sb_live sb' = filter (\<lambda>p. \<not> (sp_seq_num p = s \<or> chiaki_seq_num_lt (sp_seq_num p) s)) (sb_live sb)
    \<and> sb_ok sb'"
  using sb_ok_ack [OF assms, of "Some RESEND_ACKED_SIZE" s]
  by (auto simp: chiaki_takion_send_buffer_ack_def seq_acked_def [symmetric])

text \<open>Push: a full buffer and a number already held are refused with the code's two errors and
  the packet is freed; otherwise the packet is appended with zero tries and the current time, and
  the thread is woken exactly when the buffer was empty.\<close>

theorem takion_push_cases:
  assumes "sb_ok sb" and "chiaki_takion_send_buffer_push CHIAKI_ERR_SUCCESS now sb s b = Some r"
  shows "sb_live (pr_buffer r) = (if pr_err r = CHIAKI_ERR_SUCCESS
           then sb_live sb @ [\<lparr>sp_seq_num = s, sp_tries = 0, sp_last_send_ms = now, sp_buf = b\<rparr>]
           else sb_live sb)
    \<and> pr_err r = (if sb_count sb = length (sb_packets sb) then CHIAKI_ERR_OVERFLOW
                  else if \<exists>p \<in> set (sb_live sb). sp_seq_num p = s then CHIAKI_ERR_INVALID_DATA
                  else CHIAKI_ERR_SUCCESS)
    \<and> pr_freed r = (pr_err r \<noteq> CHIAKI_ERR_SUCCESS)
    \<and> pr_signalled r = (pr_err r = CHIAKI_ERR_SUCCESS \<and> sb_live sb = [])"
proof -
  have c: "sb_count sb \<le> length (sb_packets sb)" using assms(1) by (simp add: sb_ok_def)
  have e: "sb_live sb = [] \<longleftrightarrow> sb_count sb = 0" using length_sb_live [OF c] by auto
  show ?thesis
  proof (cases "sb_count sb = length (sb_packets sb) \<or> s \<in> sp_seq_num ` set (sb_live sb)")
    case True
    then show ?thesis
      using assms(2) by (auto simp: chiaki_takion_send_buffer_push_def send_buffer_push_live [OF c])
  next
    case False
    then show ?thesis
      using assms(2) c sb_live_append [of sb] e
      by (auto simp: chiaki_takion_send_buffer_push_def send_buffer_push_live [OF c])
  qed
qed

text \<open>A resend pass in which no due packet has used up its 25 tries sends exactly the packets
  last sent more than 200 ms ago, oldest slot first, stamps them and counts the try, and leaves the
  others alone.\<close>

theorem takion_resend_exact:
  assumes "sb_ok sb" "sb_attached sb"
    and "\<forall>p \<in> set (sb_live sb). sp_due TAKION_DATA_RESEND_TIMEOUT_MS now p \<longrightarrow> sp_tries p < RESEND_TRIES_MAX"
  shows "\<exists>sb'. takion_send_buffer_resend now sb
      = Some (sb', map sp_buf (filter (\<lambda>p. 200 < now - sp_last_send_ms p) (sb_live sb)), [])
    \<and> sb_live sb' = map (\<lambda>p. if 200 < now - sp_last_send_ms p
        then p\<lparr>sp_last_send_ms := now, sp_tries := sp_tries p + 1\<rparr> else p) (sb_live sb)"
proof -
  have "sb_count sb \<le> length (sb_packets sb)" using assms(1) by (simp add: sb_ok_def)
  moreover have "sp_due TAKION_DATA_RESEND_TIMEOUT_MS now = (\<lambda>p :: u32 send_packet. 200 < now - sp_last_send_ms p)"
    by (simp add: fun_eq_iff sp_due_def TAKION_DATA_RESEND_TIMEOUT_MS_def)
  ultimately show ?thesis
    using resend_loop_exact [of sb 0 TAKION_DATA_RESEND_TIMEOUT_MS now "\<lambda>_. True" "[]" "[]"] assms
    by (auto simp: takion_send_buffer_resend_def send_buffer_resend_def sp_touch_def cong: if_cong)
qed

subsection \<open>Witnesses\<close>

definition sb_example :: "u32 send_buffer" where
  "sb_example = \<lparr> sb_packets = [
       \<lparr>sp_seq_num = 4294967295, sp_tries = 0, sp_last_send_ms = 100, sp_buf = [1]\<rparr>,
       \<lparr>sp_seq_num = 0, sp_tries = 3, sp_last_send_ms = 900, sp_buf = [2]\<rparr>,
       \<lparr>sp_seq_num = 1, sp_tries = 0, sp_last_send_ms = 990, sp_buf = [3]\<rparr>,
       \<lparr>sp_seq_num = 0, sp_tries = 0, sp_last_send_ms = 0, sp_buf = []\<rparr>],
     sb_count = 3, sb_should_stop = False, sb_attached = True \<rparr>"

lemma sb_example_ok: "sb_ok sb_example" "sb_attached sb_example"
  by (simp_all add: sb_ok_def sb_live_def sb_example_def RESEND_ACKED_SIZE_def RESEND_TRIES_MAX_def)

theorem rudp_send_buffer_no_leak_witness:
  "\<exists>sb sb' f r. chiaki_rudp_send_buffer_init True CHIAKI_ERR_SUCCESS CHIAKI_ERR_SUCCESS
        CHIAKI_ERR_SUCCESS True RESEND_ACKED_SIZE = Inr sb
    \<and> sb_run sb_do_push sb_do_ack rudp_send_buffer_resend
        [Sb_Push 5 7 [0,1,2,3,4,5,6,7], Sb_Resend 500, Sb_Ack 7] sb = Some (sb', f)
    \<and> send_buffer_fini sb' = Some r \<and> mset (f @ r) = {# [0,1,2,3,4,5,6,7] #}"
  using rudp_send_buffer_no_leak [of "[Sb_Push 5 7 [0,1,2,3,4,5,6,7], Sb_Resend 500, Sb_Ack 7]" True]
  by simp

theorem takion_ack_cumulative_witness:
  "\<exists>sb'. chiaki_takion_send_buffer_ack CHIAKI_ERR_SUCCESS (Some RESEND_ACKED_SIZE) sb_example 0
      = Some \<lparr>ar_err = CHIAKI_ERR_SUCCESS, ar_buffer = sb', ar_acked = [4294967295, 0],
              ar_freed = [[1], [2]]\<rparr>
    \<and> map sp_seq_num (sb_live sb') = [1]"
proof -
  have "filter (seq_acked 0) (sb_live sb_example) = take 2 (sb_packets sb_example)"
    by (simp add: sb_live_def sb_example_def seq_acked_def chiaki_seq_num_lt_def)
  then show ?thesis
    using takion_ack_cumulative [OF sb_example_ok(1), of 0]
    by (auto simp: sb_example_def sb_live_def chiaki_seq_num_lt_def)
qed

theorem takion_push_cases_witness:
  "\<exists>r. chiaki_takion_send_buffer_push CHIAKI_ERR_SUCCESS 1000 sb_example 2 [9] = Some r
    \<and> pr_err r = CHIAKI_ERR_SUCCESS \<and> map sp_seq_num (sb_live (pr_buffer r)) = [4294967295, 0, 1, 2]"
proof -
  obtain r where r: "chiaki_takion_send_buffer_push CHIAKI_ERR_SUCCESS 1000 sb_example 2 [9] = Some r"
    by (simp add: chiaki_takion_send_buffer_push_def send_buffer_push_def sb_example_def
        numeral_3_eq_3)
  show ?thesis
    using takion_push_cases [OF sb_example_ok(1) r] r by (simp add: sb_example_def sb_live_def)
qed

theorem takion_resend_exact_witness:
  "\<exists>sb'. takion_send_buffer_resend 1000 sb_example = Some (sb', [[1]], [])
    \<and> map sp_tries (sb_live sb') = [1, 3, 0]"
  using takion_resend_exact [OF sb_example_ok, of 1000]
  by (auto simp: sb_example_def sb_live_def RESEND_TRIES_MAX_def)

end
