(* ===== verification/Base64.thy ===== *)
theory Base64
  imports Prelude
begin

text \<open>
  \<^verbatim>\<open>lib/src/base64.c\<close>: encoding and decoding of base64 text.

  The loop over the input three bytes at a time is recursion on the input list; a character is
  written only after the code's bound check, and then through \<open>wr8\<close> into the array itself.  The
  contents of the output after an error are not part of the result.  The decoder indexes its table
  with \<open>(size_t)(*in++)\<close>: with a signed \<open>char\<close> (the argument \<open>char_signed\<close>) the index is
  sign-extended.
\<close>

subsection \<open>Encoding\<close>

definition base64chars :: bytes where
  "base64chars = map of_char
     ''ABCDEFGHIJKLMNOPQRSTUVWXYZabcdefghijklmnopqrstuvwxyz0123456789+/''"

definition b64_put :: "nat \<Rightarrow> u8 \<Rightarrow> nat \<times> bytes \<Rightarrow> (nat \<times> bytes) result" where
  "b64_put out_size c st =
     (case st of (i, out) \<Rightarrow>
        if out_size \<le> i then ret_err CHIAKI_ERR_BUF_TOO_SMALL
        else checked (map_option (Pair (i + 1)) (wr8 out i c)))"

text \<open>Up to three bytes as one 24-bit number, and its four 6-bit digits.\<close>

definition b64_number :: "u8 \<Rightarrow> u8 option \<Rightarrow> u8 option \<Rightarrow> u32" where
  "b64_number a b c =
     push_bit 16 (ucast a)
       + (case b of None \<Rightarrow> 0 | Some b \<Rightarrow> push_bit 8 (ucast b))
       + (case c of None \<Rightarrow> 0 | Some c \<Rightarrow> ucast c)"

definition b64_digit :: "nat \<Rightarrow> u32 \<Rightarrow> u8" where
  "b64_digit k n = ucast (drop_bit (6 * (3 - k)) n) AND 63"

definition b64_char :: "nat \<Rightarrow> u32 \<Rightarrow> u8" where
  "b64_char k n = base64chars ! unat (b64_digit k n)"

fun b64_encode_loop :: "nat \<Rightarrow> bytes \<Rightarrow> nat \<times> bytes \<Rightarrow> (nat \<times> bytes) result" where
  "b64_encode_loop out_size [] st = ret_ok st"
| "b64_encode_loop out_size [a] st =
     (let n = b64_number a None None in
      and_then (b64_put out_size (b64_char 0 n) st) (b64_put out_size (b64_char 1 n)))"
| "b64_encode_loop out_size [a, b] st =
     (let n = b64_number a (Some b) None in
      and_then (b64_put out_size (b64_char 0 n) st) (\<lambda>st.
      and_then (b64_put out_size (b64_char 1 n) st) (b64_put out_size (b64_char 2 n))))"
| "b64_encode_loop out_size (a # b # c # rest) st =
     (let n = b64_number a (Some b) (Some c) in
      and_then (b64_put out_size (b64_char 0 n) st) (\<lambda>st.
      and_then (b64_put out_size (b64_char 1 n) st) (\<lambda>st.
      and_then (b64_put out_size (b64_char 2 n) st) (\<lambda>st.
      and_then (b64_put out_size (b64_char 3 n) st) (b64_encode_loop out_size rest)))))"

fun b64_pad :: "nat \<Rightarrow> nat \<Rightarrow> nat \<times> bytes \<Rightarrow> (nat \<times> bytes) result" where
  "b64_pad out_size 0 st = ret_ok st"
| "b64_pad out_size (Suc k) st = and_then (b64_put out_size 61 st) (b64_pad out_size k)"

definition chiaki_base64_encode :: "bytes \<Rightarrow> bytes \<Rightarrow> nat \<Rightarrow> bytes result" where
  "chiaki_base64_encode inp out out_size =
     and_then (b64_encode_loop out_size inp (0, out)) (\<lambda>st.
     (let pad_count = length inp mod 3 in
      and_then (if pad_count > 0 then b64_pad out_size (3 - pad_count) st else ret_ok st) (\<lambda>st.
      and_then (b64_put out_size 0 st) (\<lambda>(i, out). ret_ok out))))"

subsection \<open>Decoding\<close>

definition b64_WHITESPACE :: u8 where "b64_WHITESPACE = 64"
definition b64_EQUALS :: u8 where "b64_EQUALS = 65"
definition b64_INVALID :: u8 where "b64_INVALID = 66"

definition b64_table :: bytes where
  "b64_table =
    [66, 66, 66, 66, 66, 66, 66, 66, 66, 66, 64, 66, 66, 66, 66, 66, 66, 66, 66, 66, 66, 66, 66, 66, 66,
     66, 66, 66, 66, 66, 66, 66, 66, 66, 66, 66, 66, 66, 66, 66, 66, 66, 66, 62, 66, 66, 66, 63, 52, 53,
     54, 55, 56, 57, 58, 59, 60, 61, 66, 66, 66, 65, 66, 66, 66, 0, 1, 2, 3, 4, 5, 6, 7, 8, 9,
     10, 11, 12, 13, 14, 15, 16, 17, 18, 19, 20, 21, 22, 23, 24, 25, 66, 66, 66, 66, 66, 66, 26, 27, 28,
     29, 30, 31, 32, 33, 34, 35, 36, 37, 38, 39, 40, 41, 42, 43, 44, 45, 46, 47, 48, 49, 50, 51, 66, 66,
     66, 66, 66, 66, 66, 66, 66, 66, 66, 66, 66, 66, 66, 66, 66, 66, 66, 66, 66, 66, 66, 66, 66, 66, 66,
     66, 66, 66, 66, 66, 66, 66, 66, 66, 66, 66, 66, 66, 66, 66, 66, 66, 66, 66, 66, 66, 66, 66, 66, 66,
     66, 66, 66, 66, 66, 66, 66, 66, 66, 66, 66, 66, 66, 66, 66, 66, 66, 66, 66, 66, 66, 66, 66, 66, 66,
     66, 66, 66, 66, 66, 66, 66, 66, 66, 66, 66, 66, 66, 66, 66, 66, 66, 66, 66, 66, 66, 66, 66, 66, 66,
     66, 66, 66, 66, 66, 66, 66, 66, 66, 66, 66, 66, 66, 66, 66, 66, 66, 66, 66, 66, 66, 66, 66, 66, 66,
     66, 66, 66, 66, 66, 66]"

definition b64_lookup :: "bool \<Rightarrow> u8 \<Rightarrow> u8 option" where
  "b64_lookup char_signed c =
     rd8 b64_table (if char_signed then unat (scast c :: u64) else unat (ucast c :: u64))"

record b64_state =
  b64_iter :: nat
  b64_buf :: u32
  b64_len :: nat
  b64_out :: bytes

fun b64_decode_loop :: "bool \<Rightarrow> nat \<Rightarrow> bytes \<Rightarrow> b64_state \<Rightarrow> b64_state result" where
  "b64_decode_loop char_signed out_size [] st = ret_ok st"
| "b64_decode_loop char_signed out_size (x # xs) st =
     and_then (checked (b64_lookup char_signed x)) (\<lambda>c.
       if c = b64_WHITESPACE then b64_decode_loop char_signed out_size xs st
       else if c = b64_INVALID then ret_err CHIAKI_ERR_INVALID_DATA
       else if c = b64_EQUALS then ret_ok st
       else let buf = push_bit 6 (b64_buf st) OR ucast c in
         if b64_iter st + 1 = 4
         then if out_size < b64_len st + 3 then ret_err CHIAKI_ERR_BUF_TOO_SMALL
              else and_then (checked (wr_slice (b64_out st) (b64_len st)
                     [ucast (drop_bit 16 buf), ucast (drop_bit 8 buf), ucast buf])) (\<lambda>out.
                b64_decode_loop char_signed out_size xs
                  \<lparr>b64_iter = 0, b64_buf = 0, b64_len = b64_len st + 3, b64_out = out\<rparr>)
         else b64_decode_loop char_signed out_size xs
                (st\<lparr>b64_iter := b64_iter st + 1, b64_buf := buf\<rparr>))"

text \<open>The result is the output array and the number of bytes decoded.\<close>

definition chiaki_base64_decode :: "bool \<Rightarrow> bytes \<Rightarrow> bytes \<Rightarrow> nat \<Rightarrow> (bytes \<times> nat) result" where
  "chiaki_base64_decode char_signed inp out out_size =
     and_then (b64_decode_loop char_signed out_size inp
       \<lparr>b64_iter = 0, b64_buf = 0, b64_len = 0, b64_out = out\<rparr>) (\<lambda>st.
     if b64_iter st = 3
     then if out_size < b64_len st + 2 then ret_err CHIAKI_ERR_BUF_TOO_SMALL
          else and_then (checked (wr_slice (b64_out st) (b64_len st)
                 [ucast (drop_bit 10 (b64_buf st)), ucast (drop_bit 2 (b64_buf st))])) (\<lambda>out.
               ret_ok (out, b64_len st + 2))
     else if b64_iter st = 2
     then if out_size < b64_len st + 1 then ret_err CHIAKI_ERR_BUF_TOO_SMALL
          else and_then (checked (wr_slice (b64_out st) (b64_len st)
                 [ucast (drop_bit 4 (b64_buf st))])) (\<lambda>out.
               ret_ok (out, b64_len st + 1))
     else ret_ok (b64_out st, b64_len st))"

subsection \<open>Bits of the 24-bit groups\<close>

lemma b64_digit_step:
  "push_bit 6 (drop_bit (6 + k) n) OR ucast (ucast (drop_bit k n) AND 63 :: u8) = drop_bit k (n :: u32)"
    (is "?l = ?r")
proof (rule bit_word_eqI)
  fix i
  have m: "(63 :: u8) = mask 6" by (simp add: mask_eq_exp_minus_1)
  show "bit ?l i = bit ?r i" if "i < LENGTH(32)"
    using that unfolding m by (cases "i < 6") (auto simp: bit_simps add.commute)
qed

lemma b64_number_or:
  "b64_number a b c = push_bit 16 (ucast a)
     OR (case b of None \<Rightarrow> 0 | Some b \<Rightarrow> push_bit 8 (ucast b))
     OR (case c of None \<Rightarrow> 0 | Some c \<Rightarrow> ucast c)"
proof -
  let ?b = "case b of None \<Rightarrow> 0 | Some b \<Rightarrow> push_bit 8 (ucast b :: u32)"
    and ?c = "case c of None \<Rightarrow> 0 | Some c \<Rightarrow> (ucast c :: u32)"
  have "push_bit 16 (ucast a) + ?b = push_bit 16 (ucast a :: u32) OR ?b"
    by (rule disjunctive_add) (auto simp: bit_simps split: option.splits dest: bit_imp_le_length)
  moreover have "(push_bit 16 (ucast a :: u32) OR ?b) + ?c = (push_bit 16 (ucast a) OR ?b) OR ?c"
    by (rule disjunctive_add) (auto simp: bit_simps split: option.splits dest: bit_imp_le_length)
  ultimately show ?thesis by (simp add: b64_number_def or.assoc)
qed

lemma b64_number_bytes:
  "drop_bit 24 (b64_number a b c) = 0"
  "ucast (drop_bit 16 (b64_number a b c)) = a"
  "b = Some y \<Longrightarrow> ucast (drop_bit 8 (b64_number a b c)) = y"
  "c = Some z \<Longrightarrow> ucast (b64_number a b c) = z"
  unfolding b64_number_or
  by (rule bit_word_eqI; auto simp: bit_simps split: option.splits dest: bit_imp_le_length)+

lemma b64_accumulate:
  fixes a b c
  defines "n \<equiv> b64_number a b c"
  shows "ucast (b64_digit 0 n) = drop_bit 18 n"
    "push_bit 6 (drop_bit 18 n) OR ucast (b64_digit 1 n) = drop_bit 12 n"
    "push_bit 6 (drop_bit 12 n) OR ucast (b64_digit 2 n) = drop_bit 6 n"
    "push_bit 6 (drop_bit 6 n) OR ucast (b64_digit 3 n) = n"
  using b64_digit_step [of 18 n] b64_digit_step [of 12 n] b64_digit_step [of 6 n]
    b64_digit_step [of 0 n] b64_number_bytes(1) [of a b c]
  by (simp_all add: b64_digit_def n_def)

subsection \<open>The alphabet and the decoding table\<close>

lemma b64_table_ok:
  "\<forall>m \<in> set [0..<64]. \<forall>s \<in> {True, False}. b64_lookup s (base64chars ! m) = Some (of_nat m)"
  by code_simp

lemma b64_lookup_char:
  "b64_lookup s (b64_char k n) = Some (b64_digit k n)" "b64_digit k n < 64"
proof -
  have "b64_digit k n \<le> 63" unfolding b64_digit_def by (rule word_and_le1)
  then have "unat (b64_digit k n) < 64" by (simp add: word_le_nat_alt)
  then show "b64_lookup s (b64_char k n) = Some (b64_digit k n)" "b64_digit k n < 64"
    using bspec [OF bspec [OF b64_table_ok, of "unat (b64_digit k n)"], of s]
    by (simp_all add: b64_char_def word_less_nat_alt)
qed

lemma b64_digit_plain:
  "b64_digit k n \<noteq> b64_WHITESPACE" "b64_digit k n \<noteq> b64_INVALID" "b64_digit k n \<noteq> b64_EQUALS"
  using b64_lookup_char(2) [of k n]
  by (auto simp: b64_WHITESPACE_def b64_INVALID_def b64_EQUALS_def)

lemma b64_lookup_equals: "\<forall>s \<in> {True, False}. b64_lookup s 61 = Some b64_EQUALS"
  by code_simp

subsection \<open>What the encoder writes\<close>

fun b64_text :: "bytes \<Rightarrow> bytes" where
  "b64_text [] = []"
| "b64_text [a] = (let n = b64_number a None None in [b64_char 0 n, b64_char 1 n])"
| "b64_text [a, b] = (let n = b64_number a (Some b) None
     in [b64_char 0 n, b64_char 1 n, b64_char 2 n])"
| "b64_text (a # b # c # rest) = (let n = b64_number a (Some b) (Some c)
     in [b64_char 0 n, b64_char 1 n, b64_char 2 n, b64_char 3 n] @ b64_text rest)"

definition b64_pads :: "bytes \<Rightarrow> nat" where
  "b64_pads inp = (if length inp mod 3 = 0 then 0 else 3 - length inp mod 3)"

lemma length_b64_text: "length (b64_text inp) + b64_pads inp = 4 * ((length inp + 2) div 3)"
proof (induction inp rule: b64_text.induct)
  case (4 a b c rest)
  have "b64_pads (a # b # c # rest) = b64_pads rest" by (simp add: b64_pads_def)
  moreover have "(length (a # b # c # rest) + 2) div 3 = (length rest + 2) div 3 + 1" by simp
  ultimately show ?case using 4 by (simp add: Let_def)
qed (simp_all add: b64_pads_def Let_def)

lemma b64_put_step [simp]:
  assumes "length pre < sz" "rest \<noteq> []"
  shows "b64_put sz c (length pre, pre @ rest) = ret_ok (length (pre @ [c]), (pre @ [c]) @ tl rest)"
  using assms by (cases rest) (simp_all add: b64_put_def list_update_append)

lemma b64_put_chain:
  assumes "length pre + length cs \<le> sz" "length cs \<le> length rest" "cs \<noteq> []"
  shows "foldl (\<lambda>m c. and_then m (b64_put sz c)) (b64_put sz (hd cs) (length pre, pre @ rest)) (tl cs)
    = ret_ok (length (pre @ cs), (pre @ cs) @ drop (length cs) rest)"
  using assms
proof (induction cs arbitrary: pre rest)
  case Nil
  then show ?case by simp
next
  case (Cons c cs)
  have put: "b64_put sz c (length pre, pre @ rest)
      = ret_ok (length (pre @ [c]), (pre @ [c]) @ tl rest)"
    using Cons.prems by (intro b64_put_step) auto
  show ?case
  proof (cases cs)
    case Nil
    then show ?thesis using put by (simp add: drop_Suc)
  next
    case (Cons c' cs')
    then show ?thesis
      using Cons.IH [of "pre @ [c]" "tl rest"] Cons.prems put
      by (simp add: drop_Suc)
  qed
qed

lemma b64_encode_loop_text:
  "length pre + length (b64_text inp) \<le> sz \<Longrightarrow> length (b64_text inp) \<le> length rest \<Longrightarrow>
     b64_encode_loop sz inp (length pre, pre @ rest)
       = ret_ok (length (pre @ b64_text inp), (pre @ b64_text inp) @ drop (length (b64_text inp)) rest)"
proof (induction inp arbitrary: pre rest rule: b64_text.induct)
  case 1
  then show ?case by simp
next
  case (2 a)
  then show ?case
    using b64_put_chain [of pre "b64_text [a]" sz rest] by (simp add: Let_def)
next
  case (3 a b)
  then show ?case
    using b64_put_chain [of pre "b64_text [a, b]" sz rest] by (simp add: Let_def and_then_assoc)
next
  case (4 a b c inp)
  let ?n = "b64_number a (Some b) (Some c)"
  let ?cs = "[b64_char 0 ?n, b64_char 1 ?n, b64_char 2 ?n, b64_char 3 ?n]"
  have "b64_encode_loop sz (a # b # c # inp) (length pre, pre @ rest)
      = and_then (foldl (\<lambda>m c. and_then m (b64_put sz c))
          (b64_put sz (hd ?cs) (length pre, pre @ rest)) (tl ?cs)) (b64_encode_loop sz inp)"
    by (simp add: Let_def and_then_assoc)
  also have "\<dots> = b64_encode_loop sz inp (length (pre @ ?cs), (pre @ ?cs) @ drop 4 rest)"
    using 4(2,3) by (subst b64_put_chain) (simp_all add: Let_def eval_nat_numeral)
  also have "\<dots> = ret_ok (length ((pre @ ?cs) @ b64_text inp),
      ((pre @ ?cs) @ b64_text inp) @ drop (length (b64_text inp)) (drop 4 rest))"
    using 4(2,3) by (intro 4(1) [OF refl]) (simp_all add: Let_def)
  finally show ?case
    by (simp add: Let_def add.commute eval_nat_numeral del: b64_encode_loop.simps)
qed

lemma b64_pad_text:
  "length pre + k \<le> sz \<Longrightarrow> k \<le> length rest \<Longrightarrow>
     b64_pad sz k (length pre, pre @ rest)
       = ret_ok (length (pre @ replicate k 61), (pre @ replicate k 61) @ drop k rest)"
proof (induction k arbitrary: pre rest)
  case (Suc k)
  have "b64_put sz 61 (length pre, pre @ rest)
      = ret_ok (length (pre @ [61]), (pre @ [61]) @ tl rest)"
    using Suc.prems by (intro b64_put_step) auto
  then have "b64_pad sz (Suc k) (length pre, pre @ rest)
      = b64_pad sz k (length (pre @ [61]), (pre @ [61]) @ tl rest)" by simp
  also have "\<dots> = ret_ok (length ((pre @ [61]) @ replicate k 61),
      ((pre @ [61]) @ replicate k 61) @ drop k (tl rest))"
    using Suc.prems by (intro Suc.IH) auto
  finally show ?case by (simp add: drop_Suc)
qed simp

definition b64_full :: "bytes \<Rightarrow> bytes" where
  "b64_full inp = b64_text inp @ replicate (b64_pads inp) 61"

lemma base64_encode_text:
  assumes "length (b64_full inp) < sz" "length (b64_full inp) < length out"
  shows "chiaki_base64_encode inp out sz
    = ret_ok (b64_full inp @ 0 # drop (length (b64_full inp) + 1) out)"
proof -
  let ?t = "b64_text inp" and ?k = "b64_pads inp"
  have l: "length ?t + ?k < sz" "length ?t + ?k < length out"
    using assms by (simp_all add: b64_full_def)
  have 1: "b64_encode_loop sz inp (0, out) = ret_ok (length ?t, ?t @ drop (length ?t) out)"
    using b64_encode_loop_text [of "[]" inp sz out] l by simp
  have 2: "(if length inp mod 3 > 0 then b64_pad sz (3 - length inp mod 3) st else ret_ok st)
      = b64_pad sz ?k st" for st
    by (simp add: b64_pads_def)
  have 3: "b64_pad sz ?k (length ?t, ?t @ drop (length ?t) out)
      = ret_ok (length (b64_full inp), b64_full inp @ drop (length (b64_full inp)) out)"
    using b64_pad_text [of ?t ?k sz "drop (length ?t) out"] l
    by (simp add: b64_full_def add.commute)
  have "b64_put sz 0 (length (b64_full inp), b64_full inp @ drop (length (b64_full inp)) out)
      = ret_ok (length (b64_full inp @ [0]),
          (b64_full inp @ [0]) @ tl (drop (length (b64_full inp)) out))"
    using assms by (intro b64_put_step) auto
  then show ?thesis
    by (simp add: chiaki_base64_encode_def Let_def 1 2 3 tl_drop drop_Suc)
qed

subsection \<open>What the decoder reads back\<close>

lemma b64_decode_digit:
  "b64_decode_loop s sz (b64_char k n # xs) st =
     (let buf = push_bit 6 (b64_buf st) OR ucast (b64_digit k n) in
      if b64_iter st + 1 = 4
      then if sz < b64_len st + 3 then ret_err CHIAKI_ERR_BUF_TOO_SMALL
           else and_then (checked (wr_slice (b64_out st) (b64_len st)
                  [ucast (drop_bit 16 buf), ucast (drop_bit 8 buf), ucast buf])) (\<lambda>out.
             b64_decode_loop s sz xs
               \<lparr>b64_iter = 0, b64_buf = 0, b64_len = b64_len st + 3, b64_out = out\<rparr>)
      else b64_decode_loop s sz xs (st\<lparr>b64_iter := b64_iter st + 1, b64_buf := buf\<rparr>))"
  by (simp add: b64_lookup_char b64_digit_plain)

lemma wr_slice_append:
  "length pre + length xs \<le> length (pre @ rest) \<Longrightarrow>
     wr_slice (pre @ rest) (length pre) xs = Some ((pre @ xs) @ drop (length xs) rest)"
  by (simp add: wr_slice_def)

text \<open>What the loop leaves for the code after it: the last, incomplete group.\<close>

fun b64_rest :: "bytes \<Rightarrow> nat \<times> u32" where
  "b64_rest [] = (0, 0)"
| "b64_rest [a] = (2, drop_bit 12 (b64_number a None None))"
| "b64_rest [a, b] = (3, drop_bit 6 (b64_number a (Some b) None))"
| "b64_rest (a # b # c # rest) = b64_rest rest"

fun b64_whole :: "bytes \<Rightarrow> bytes" where
  "b64_whole (a # b # c # rest) = [a, b, c] @ b64_whole rest"
| "b64_whole _ = []"

lemma b64_decode_loop_text:
  assumes "\<And>st. b64_decode_loop s sz tail st = ret_ok st"
    and "length pre + length inp \<le> sz" "length inp \<le> length rest"
  shows "b64_decode_loop s sz (b64_text inp @ tail)
      \<lparr>b64_iter = 0, b64_buf = 0, b64_len = length pre, b64_out = pre @ rest\<rparr>
    = ret_ok \<lparr>b64_iter = fst (b64_rest inp), b64_buf = snd (b64_rest inp),
        b64_len = length (pre @ b64_whole inp),
        b64_out = (pre @ b64_whole inp) @ drop (length (b64_whole inp)) rest\<rparr>"
  using assms(2,3)
proof (induction inp arbitrary: pre rest rule: b64_text.induct)
  case 1
  then show ?case by (simp add: assms(1))
next
  case (2 a)
  then show ?case
    using b64_accumulate [of a None None]
    by (simp add: Let_def b64_decode_digit assms(1)
        del: b64_decode_loop.simps push_bit_or)
next
  case (3 a b)
  then show ?case
    using b64_accumulate [of a "Some b" None]
    by (simp add: Let_def b64_decode_digit assms(1)
        del: b64_decode_loop.simps push_bit_or)
next
  case (4 a b c inp)
  let ?n = "b64_number a (Some b) (Some c)"
  have w: "wr_slice (pre @ rest) (length pre) [a, b, c] = Some ((pre @ [a, b, c]) @ drop 3 rest)"
    using 4(3) wr_slice_append [of pre "[a, b, c]" rest] by (simp add: numeral_3_eq_3)
  have "b64_decode_loop s sz (b64_text (a # b # c # inp) @ tail)
      \<lparr>b64_iter = 0, b64_buf = 0, b64_len = length pre, b64_out = pre @ rest\<rparr>
    = b64_decode_loop s sz (b64_text inp @ tail)
      \<lparr>b64_iter = 0, b64_buf = 0, b64_len = length (pre @ [a, b, c]),
       b64_out = (pre @ [a, b, c]) @ drop 3 rest\<rparr>"
    using 4(2,3) b64_accumulate [of a "Some b" "Some c"] w
      b64_number_bytes [where a = a and b = "Some b" and c = "Some c"]
    by (simp add: Let_def b64_decode_digit numeral_3_eq_3
        del: b64_decode_loop.simps push_bit_or drop_bit_or)
  also have "\<dots> = ret_ok \<lparr>b64_iter = fst (b64_rest inp), b64_buf = snd (b64_rest inp),
        b64_len = length ((pre @ [a, b, c]) @ b64_whole inp),
        b64_out = ((pre @ [a, b, c]) @ b64_whole inp) @ drop (length (b64_whole inp)) (drop 3 rest)\<rparr>"
    using 4(2,3) by (intro 4(1)) auto
  finally show ?case
    by (simp add: add.commute numeral_3_eq_3 del: b64_decode_loop.simps b64_text.simps)
qed

lemma b64_rest_cases:
  obtains "inp = b64_whole inp" "b64_rest inp = (0, 0)"
  | a where "inp = b64_whole inp @ [a]" "b64_rest inp = (2, drop_bit 12 (b64_number a None None))"
  | a b where "inp = b64_whole inp @ [a, b]"
      "b64_rest inp = (3, drop_bit 6 (b64_number a (Some b) None))"
proof -
  have "(inp = b64_whole inp \<and> b64_rest inp = (0, 0))
    \<or> (\<exists>a. inp = b64_whole inp @ [a] \<and> b64_rest inp = (2, drop_bit 12 (b64_number a None None)))
    \<or> (\<exists>a b. inp = b64_whole inp @ [a, b]
         \<and> b64_rest inp = (3, drop_bit 6 (b64_number a (Some b) None)))"
    by (induction inp rule: b64_rest.induct) auto
  then show ?thesis using that by blast
qed

text \<open>C6.  Base64 round trip: the encoder succeeds when the text and its terminator fit, writes
  \<open>4 * ceil(n / 3)\<close> characters and a terminator, and the decoder, given a buffer of at least \<open>n\<close>
  bytes, recovers the \<open>n\<close> input bytes, whether \<open>char\<close> is signed or not.\<close>

theorem base64_roundtrip:
  assumes "4 * ((length inp + 2) div 3) < length txt" "length inp \<le> length dst"
  shows "\<exists>t d. chiaki_base64_encode inp txt (length txt) = ret_ok t
    \<and> t ! (4 * ((length inp + 2) div 3)) = 0
    \<and> chiaki_base64_decode s (take (4 * ((length inp + 2) div 3)) t) dst (length dst)
        = ret_ok (d, length inp)
    \<and> take (length inp) d = inp"
proof -
  have len: "length (b64_full inp) = 4 * ((length inp + 2) div 3)"
    using length_b64_text [of inp] by (simp add: b64_full_def)
  have enc: "chiaki_base64_encode inp txt (length txt)
      = ret_ok (b64_full inp @ 0 # drop (length (b64_full inp) + 1) txt)"
    using assms(1) len by (intro base64_encode_text) auto
  have eq: "b64_lookup s 61 = Some b64_EQUALS" using b64_lookup_equals by (cases s) auto
  have "b64_decode_loop s (length dst) (replicate k 61) st = ret_ok st" for k st
    by (cases k) (simp_all add: eq b64_EQUALS_def b64_WHITESPACE_def b64_INVALID_def)
  from b64_decode_loop_text [of s "length dst" "replicate (b64_pads inp) 61" "[]" inp dst, OF this]
  have loop: "b64_decode_loop s (length dst) (b64_full inp)
      \<lparr>b64_iter = 0, b64_buf = 0, b64_len = 0, b64_out = dst\<rparr>
    = ret_ok \<lparr>b64_iter = fst (b64_rest inp), b64_buf = snd (b64_rest inp),
        b64_len = length (b64_whole inp),
        b64_out = b64_whole inp @ drop (length (b64_whole inp)) dst\<rparr>"
    using assms(2) by (simp add: b64_full_def)
  have "\<exists>d. chiaki_base64_decode s (b64_full inp) dst (length dst) = ret_ok (d, length inp)
      \<and> take (length inp) d = inp"
  proof (cases inp rule: b64_rest_cases)
    case 1
    then have "length (b64_whole inp) = length inp" by simp
    then show ?thesis using loop 1 by (simp add: chiaki_base64_decode_def)
  next
    case (2 a)
    let ?w = "b64_whole inp" and ?n = "b64_number a None None"
    have l: "length inp = length ?w + 1" by (metis 2(1) length_append_singleton Suc_eq_plus1)
    have b: "ucast (drop_bit 4 (snd (b64_rest inp))) = a"
      using 2(2) b64_number_bytes(2) [where a = a and b = None and c = None] by simp
    have w: "wr_slice (?w @ drop (length ?w) dst) (length ?w) [a] = Some ((?w @ [a]) @ drop 1 (drop (length ?w) dst))"
      using l assms(2) wr_slice_append [of ?w "[a]" "drop (length ?w) dst"] by simp
    have "chiaki_base64_decode s (b64_full inp) dst (length dst)
        = ret_ok ((?w @ [a]) @ drop 1 (drop (length ?w) dst), length inp)"
      using loop 2(2) b w l assms(2) by (simp add: chiaki_base64_decode_def)
    moreover have "take (length inp) ((?w @ [a]) @ drop 1 (drop (length ?w) dst)) = inp"
      using 2(1) l by (metis append_eq_conv_conj)
    ultimately show ?thesis by blast
  next
    case (3 a b)
    let ?w = "b64_whole inp" and ?n = "b64_number a (Some b) None"
    have "length inp = length (?w @ [a, b])" using 3(1) by simp
    then have l: "length inp = length ?w + 2" by simp
    have b: "ucast (drop_bit 10 (snd (b64_rest inp))) = a" "ucast (drop_bit 2 (snd (b64_rest inp))) = b"
      using 3(2) b64_number_bytes(2,3) [where a = a and b = "Some b" and c = None] by simp_all
    have w: "wr_slice (?w @ drop (length ?w) dst) (length ?w) [a, b]
        = Some ((?w @ [a, b]) @ drop 2 (drop (length ?w) dst))"
      using l assms(2) wr_slice_append [of ?w "[a, b]" "drop (length ?w) dst"]
      by (simp add: numeral_2_eq_2)
    have "chiaki_base64_decode s (b64_full inp) dst (length dst)
        = ret_ok ((?w @ [a, b]) @ drop 2 (drop (length ?w) dst), length inp)"
      using loop 3(2) b w l assms(2) by (simp add: chiaki_base64_decode_def)
    moreover have "take (length inp) ((?w @ [a, b]) @ drop 2 (drop (length ?w) dst)) = inp"
      using 3(1) l by (metis append_eq_conv_conj)
    ultimately show ?thesis by blast
  qed
  then show ?thesis using enc len by (simp add: nth_append)
qed

lemma b64_table_high: "length b64_table = 256" "drop 128 b64_table = replicate 128 66"
  by (code_simp, code_simp)

lemma b64_lookup_high:
  assumes "128 \<le> c"
  shows "b64_lookup True c = None" "b64_lookup False c = Some 66"
proof -
  have u: "128 \<le> unat c" "unat c < 256"
    using assms unsigned_less [of c, where 'a = nat] by (simp_all add: word_le_nat_alt)
  then have "unat c div 2 ^ 7 = 1" by simp
  then have "bit (unat c) 7" unfolding bit_iff_odd by simp
  then have "bit c 7" by (simp add: bit_unsigned_iff)
  then have "bit (scast c :: u64) 63" by (simp add: bit_simps)
  then have "bit (unat (scast c :: u64)) 63" by (simp add: bit_unsigned_iff)
  then have "\<not> unat (scast c :: u64) < 256" unfolding bit_iff_odd by auto
  then show "b64_lookup True c = None" by (simp add: b64_lookup_def rd8_def b64_table_high(1))
  have "b64_table ! unat c = drop 128 b64_table ! (unat c - 128)"
    using u b64_table_high(1) by simp
  also have "\<dots> = 66" using u b64_table_high(2) by simp
  finally show "b64_lookup False c = Some 66"
    using u by (simp add: b64_lookup_def rd8_def b64_table_high(1) word_norm)
qed

text \<open>With a signed \<open>char\<close>, decoding a string that starts with a byte of 128 or more reads outside
  the table: the index is the sign-extended byte.  With an unsigned \<open>char\<close> the same input is
  rejected as invalid.\<close>

theorem base64_decode_high_byte:
  assumes "128 \<le> c"
  shows "chiaki_base64_decode True (c # cs) dst sz = None
    \<and> chiaki_base64_decode False (c # cs) dst sz = ret_err CHIAKI_ERR_INVALID_DATA"
  by (simp add: chiaki_base64_decode_def b64_lookup_high [OF assms] b64_INVALID_def
      b64_WHITESPACE_def)

theorem base64_roundtrip_witness:
  "\<exists>t d. chiaki_base64_encode [77, 97] (replicate 5 1) 5 = ret_ok t
    \<and> chiaki_base64_decode True (take 4 t) [0, 0] 2 = ret_ok (d, 2) \<and> take 2 d = [77, 97]"
  using base64_roundtrip [of "[77, 97]" "replicate 5 1" "[0, 0]" True]
  by (auto simp: numeral_2_eq_2)

theorem base64_decode_high_byte_witness:
  "chiaki_base64_decode True [195, 169] [0, 0] 2 = None"
  using base64_decode_high_byte [of 195 "[169]" "[0, 0]" 2] by simp

end
