(* ===== verification/Stats.thy ===== *)
theory Stats
  imports SeqNum
begin

text \<open>
  \<^verbatim>\<open>lib/src/packetstats.c\<close> (counting received and lost packets), \<^verbatim>\<open>lib/src/congestioncontrol.c\<close>
  (the round of the thread that reports them) and \<^verbatim>\<open>lib/src/audio.c\<close> (the audio header).

  The difference of two \<open>uint16_t\<close> is an \<open>int\<close>, converted to \<open>uint64_t\<close> with its sign.  The
  floating-point operations of the congestion report are arguments: the theorems about it hold
  whatever they return.
\<close>

subsection \<open>Packet statistics\<close>

record packet_stats =
  gen_received :: u64
  gen_lost :: u64
  seq_min :: u16
  seq_max :: u16
  seq_received :: u64

definition chiaki_packet_stats_init :: "chiaki_error \<Rightarrow> chiaki_error + packet_stats" where
  "chiaki_packet_stats_init mutex =
     (if mutex \<noteq> CHIAKI_ERR_SUCCESS then Inl mutex
      else Inr \<lparr>gen_received = 0, gen_lost = 0, seq_min = 0, seq_max = 0, seq_received = 0\<rparr>)"

definition reset_stats :: "packet_stats \<Rightarrow> packet_stats" where
  "reset_stats st = st\<lparr>gen_received := 0, gen_lost := 0, seq_min := seq_max st, seq_received := 0\<rparr>"

definition chiaki_packet_stats_push_generation :: "packet_stats \<Rightarrow> u64 \<Rightarrow> u64 \<Rightarrow> packet_stats" where
  "chiaki_packet_stats_push_generation st received lost =
     st\<lparr>gen_received := gen_received st + received, gen_lost := gen_lost st + lost\<rparr>"

definition chiaki_packet_stats_push_seq :: "packet_stats \<Rightarrow> u16 \<Rightarrow> packet_stats" where
  "chiaki_packet_stats_push_seq st s =
     (let st = st\<lparr>seq_received := seq_received st + 1\<rparr>
      in if chiaki_seq_num_gt s (seq_max st) then st\<lparr>seq_max := s\<rparr> else st)"

definition stats_seq_diff :: "packet_stats \<Rightarrow> u64" where
  "stats_seq_diff st = scast (ucast (seq_max st) - ucast (seq_min st) :: i32)"

definition chiaki_packet_stats_get :: "packet_stats \<Rightarrow> bool \<Rightarrow> packet_stats \<times> u64 \<times> u64" where
  "chiaki_packet_stats_get st reset =
     (let seq_diff = stats_seq_diff st;
          seq_lost = (if seq_diff < seq_received st then seq_diff else seq_diff - seq_received st)
      in (if reset then reset_stats st else st,
          gen_received st + seq_received st, gen_lost st + seq_lost))"

definition push_seqs :: "packet_stats \<Rightarrow> u16 list \<Rightarrow> packet_stats" where
  "push_seqs = foldl chiaki_packet_stats_push_seq"

subsection \<open>Congestion report\<close>

record 'd double_ops =
  d_div :: "u64 \<Rightarrow> u64 \<Rightarrow> 'd"
  d_zero :: 'd
  d_gt :: "'d \<Rightarrow> 'd \<Rightarrow> bool"
  d_scale :: "u64 \<Rightarrow> 'd \<Rightarrow> u64"

text \<open>One interval of the thread: the statistics are read and reset, and the report is the two 16-bit
  counters of the packet sent.\<close>

definition congestion_control_round ::
    "'d double_ops \<Rightarrow> 'd \<Rightarrow> packet_stats \<Rightarrow> packet_stats \<times> 'd \<times> u16 \<times> u16" where
  "congestion_control_round fp packet_loss_max st =
     (let (st', received, lost) = chiaki_packet_stats_get st True;
          total = received + lost;
          packet_loss = (if 0 < total then d_div fp lost total else d_zero fp);
          (received, lost) = (if d_gt fp packet_loss packet_loss_max
             then let l = d_scale fp total packet_loss_max in (total - l, l)
             else (received, lost))
      in (st', packet_loss, ucast received, ucast lost))"

subsection \<open>Audio header\<close>

record audio_header =
  ah_channels :: u8
  ah_bits :: u8
  ah_rate :: u32
  ah_frame_size :: u32
  ah_unknown :: u32

definition CHIAKI_AUDIO_HEADER_SIZE :: nat where "CHIAKI_AUDIO_HEADER_SIZE = 0xe"

definition chiaki_audio_header_load :: "bytes \<Rightarrow> audio_header option" where
  "chiaki_audio_header_load buf = do {
     channels \<leftarrow> rd8 buf 0;
     bits \<leftarrow> rd8 buf 1;
     rate \<leftarrow> rd32be buf 2;
     frame_size \<leftarrow> rd32be buf 6;
     unknown \<leftarrow> rd32be buf 0xa;
     Some \<lparr>ah_channels = channels, ah_bits = bits, ah_rate = rate, ah_frame_size = frame_size,
           ah_unknown = unknown\<rparr> }"

definition chiaki_audio_header_save :: "audio_header \<Rightarrow> bytes \<Rightarrow> bytes option" where
  "chiaki_audio_header_save h buf = do {
     buf \<leftarrow> wr8 buf 0 (ah_bits h);
     buf \<leftarrow> wr8 buf 1 (ah_channels h);
     buf \<leftarrow> wr_slice buf 2 (be32 (ah_rate h));
     buf \<leftarrow> wr_slice buf 6 (be32 (ah_frame_size h));
     wr_slice buf 0xa (be32 (ah_unknown h)) }"

definition chiaki_audio_header_set :: "u8 \<Rightarrow> u8 \<Rightarrow> u32 \<Rightarrow> u32 \<Rightarrow> audio_header" where
  "chiaki_audio_header_set channels bits rate frame_size =
     \<lparr>ah_channels = channels, ah_bits = bits, ah_rate = rate, ah_frame_size = frame_size,
      ah_unknown = 1\<rparr>"

text \<open>\<open>uint32_t * uint8_t\<close> is computed in 32 bits, then multiplied as a \<open>size_t\<close>.\<close>

definition chiaki_audio_header_frame_buf_size :: "audio_header \<Rightarrow> u64" where
  "chiaki_audio_header_frame_buf_size h = ucast (ah_frame_size h * ucast (ah_channels h)) * 2"

subsection \<open>Properties of the statistics\<close>

lemma stats_seq_diff_forward:
  assumes "seq_min st \<le> seq_max st"
  shows "unat (stats_seq_diff st) = unat (seq_max st) - unat (seq_min st)"
proof -
  let ?d = "ucast (seq_max st) - ucast (seq_min st) :: i32"
  have b: "unat (seq_max st) < 2 ^ 16" "unat (seq_min st) \<le> unat (seq_max st)"
    using unsigned_less [of "seq_max st", where 'a = nat] assms by (simp_all add: word_le_nat_alt)
  have d: "unat ?d = unat (seq_max st) - unat (seq_min st)"
    using b by (simp add: unat_sub_if' word_norm)
  moreover have "(scast ?d :: u64) = ucast ?d"
    by (rule scast_small) (use d b in simp)
  ultimately show ?thesis by (simp add: stats_seq_diff_def word_norm)
qed

lemma seq_gt_step:
  assumes "unat a < unat (b :: u16)" "unat b - unat a < 2 ^ 15"
  shows "chiaki_seq_num_gt b a"
  using assms by (simp add: seq_num_gt_iff_lt seq_num_lt_iff unat_sub_if')

lemma push_seqs_ascending:
  assumes "sorted_wrt (\<lambda>a b. unat a < unat b) (seq_max st # xs)"
    and "unat (last (seq_max st # xs)) - unat (seq_max st) < 2 ^ 15"
  shows "push_seqs st xs = st\<lparr>seq_max := last (seq_max st # xs),
    seq_received := seq_received st + of_nat (length xs)\<rparr>"
  using assms
proof (induction xs arbitrary: st)
  case Nil
  then show ?case by (simp add: push_seqs_def)
next
  case (Cons x xs)
  let ?st = "st\<lparr>seq_received := seq_received st + 1, seq_max := x\<rparr>"
  have l: "unat x \<le> unat (last (x # xs))" "unat (seq_max st) < unat x"
    using Cons.prems(1) by (cases xs rule: rev_cases; auto)+
  then have "chiaki_seq_num_gt x (seq_max st)"
    using Cons.prems(2) by (intro seq_gt_step) auto
  then have "push_seqs st (x # xs) = push_seqs ?st xs"
    by (simp add: push_seqs_def chiaki_packet_stats_push_seq_def Let_def)
  also have "\<dots> = ?st\<lparr>seq_max := last (seq_max ?st # xs),
      seq_received := seq_received ?st + of_nat (length xs)\<rparr>"
    using Cons.prems l by (intro Cons.IH) auto
  finally show ?case by (simp add: add.assoc)
qed

text \<open>Packet statistics count gaps: after a reset, packets that arrive in ascending order without
  wrapping around 65535 are all counted as received, and the numbers skipped are counted as lost,
  on top of the generation counters.\<close>

theorem packet_stats_count_gaps:
  assumes "sorted_wrt (\<lambda>a b. unat a < unat b) (seq_max st # xs)"
    and "unat (last (seq_max st # xs)) - unat (seq_max st) < 2 ^ 15"
  shows "\<exists>st'. chiaki_packet_stats_get (push_seqs (reset_stats st) xs) True
      = (st', of_nat (length xs),
         of_nat (unat (last (seq_max st # xs)) - unat (seq_max st) - length xs))
    \<and> length xs \<le> unat (last (seq_max st # xs)) - unat (seq_max st)
    \<and> seq_min st' = last (seq_max st # xs) \<and> seq_received st' = 0"
proof -
  let ?m = "seq_max st" and ?l = "last (seq_max st # xs)"
  have len: "length ys \<le> unat (last (m # ys)) - unat m \<and> unat m \<le> unat (last (m # ys))"
    if "sorted_wrt (\<lambda>a b. unat a < unat b) (m # ys)" for m :: u16 and ys
    using that
  proof (induction ys arbitrary: m)
    case (Cons y ys)
    then have "length ys \<le> unat (last (y # ys)) - unat y" "unat y \<le> unat (last (y # ys))"
      "unat m < unat y"
      using Cons.IH [of y] by (simp_all only: sorted_wrt.simps) auto
    then show ?case by simp
  qed simp
  have st: "push_seqs (reset_stats st) xs
      = (reset_stats st)\<lparr>seq_max := ?l, seq_received := of_nat (length xs)\<rparr>"
    using push_seqs_ascending [of "reset_stats st" xs] assms by (simp add: reset_stats_def)
  let ?st = "(reset_stats st)\<lparr>seq_max := ?l, seq_received := of_nat (length xs)\<rparr>"
  have d: "unat (stats_seq_diff ?st) = unat ?l - unat ?m"
    using stats_seq_diff_forward [of ?st] len [OF assms(1)]
    by (simp add: reset_stats_def word_le_nat_alt)
  have n: "length xs \<le> unat ?l - unat ?m" "unat ?l - unat ?m < 2 ^ 64"
    using len [OF assms(1)] assms(2) by auto
  then have r: "unat (of_nat (length xs) :: u64) = length xs"
    by (simp add: unat_of_nat)
  then have "\<not> stats_seq_diff ?st < of_nat (length xs)"
    using d n by (simp add: word_less_nat_alt)
  moreover have "stats_seq_diff ?st - of_nat (length xs) = of_nat (unat ?l - unat ?m - length xs)"
  proof -
    have "stats_seq_diff ?st = of_nat (unat ?l - unat ?m)"
      unfolding d [symmetric] by simp
    then show ?thesis unfolding of_nat_diff [OF n(1)] by (rule arg_cong)
  qed
  ultimately show ?thesis
    using n st by (auto simp: chiaki_packet_stats_get_def Let_def reset_stats_def)
qed

text \<open>Two inputs the statistics miscount.  After the numbers wrap around (65535, 0, 1 received
  after 65534, none lost) the difference of the 16-bit maxima is a negative \<open>int\<close> and the loss is
  nearly 2^64, not 0.  And when a packet arrives twice (received exceeds the span of the
  numbers) the whole span is reported as lost.\<close>

theorem packet_stats_miscounts:
  "snd (chiaki_packet_stats_get (push_seqs
      \<lparr>gen_received = 0, gen_lost = 0, seq_min = 65534, seq_max = 65534, seq_received = 0\<rparr>
      [65535, 0, 1]) True) = (3, 2 ^ 64 - 65536)
   \<and> snd (chiaki_packet_stats_get (push_seqs
      \<lparr>gen_received = 0, gen_lost = 0, seq_min = 10, seq_max = 10, seq_received = 0\<rparr>
      [11, 12, 12]) True) = (3, 2)"
  by code_simp

text \<open>The congestion report keeps the total: whatever the floating-point clamp computes, the
  received and lost counters sent add up, modulo 2^16, to the packets counted since the last
  report, and the statistics start over.\<close>

theorem congestion_report_total:
  "\<exists>st' received lost loss r l. chiaki_packet_stats_get st True = (st', received, lost)
    \<and> congestion_control_round fp limit st = (st', loss, r, l)
    \<and> r + l = ucast (received + lost) \<and> seq_received st' = 0 \<and> gen_lost st' = 0"
proof -
  have "ucast (x - y) + ucast y = (ucast x :: u16)" for x y :: u64
    using ucast_down_add [of "x - y" y, where 'b = 16] by simp
  then show ?thesis
    using ucast_down_add [where 'a = 64 and 'b = 16]
    by (simp add: congestion_control_round_def chiaki_packet_stats_get_def reset_stats_def Let_def)
qed

subsection \<open>The audio header\<close>

text \<open>Saving and loading an audio header swaps two fields: \<open>save\<close> writes the bits first and the
  channels second, \<open>load\<close> reads them the other way around; everything else survives.\<close>

theorem audio_header_save_load:
  assumes "CHIAKI_AUDIO_HEADER_SIZE \<le> length buf"
  shows "\<exists>b. chiaki_audio_header_save h buf = Some b \<and> length b = length buf
    \<and> chiaki_audio_header_load b = Some (h\<lparr>ah_channels := ah_bits h, ah_bits := ah_channels h\<rparr>)"
proof -
  have l: "14 \<le> length buf" using assms by (simp add: CHIAKI_AUDIO_HEADER_SIZE_def)
  obtain x0 x1 x2 x3 x4 x5 x6 x7 x8 x9 xa xb xc xd r where
    "buf = x0 # x1 # x2 # x3 # x4 # x5 # x6 # x7 # x8 # x9 # xa # xb # xc # xd # r"
    using l by (auto simp: Suc_le_length_iff eval_nat_numeral)
  then show ?thesis
    by (simp add: chiaki_audio_header_save_def chiaki_audio_header_load_def be32_def
        wr8_def wr_slice_def rd8_def rd32be_def)
qed

theorem audio_header_save_load_witness:
  "\<exists>b. chiaki_audio_header_save (chiaki_audio_header_set 2 16 48000 480) (replicate 14 0) = Some b
    \<and> map_option (\<lambda>h. (ah_channels h, ah_bits h, ah_rate h)) (chiaki_audio_header_load b)
        = Some (16, 2, 48000)"
  using audio_header_save_load [of "replicate 14 0" "chiaki_audio_header_set 2 16 48000 480"]
  by (auto simp: CHIAKI_AUDIO_HEADER_SIZE_def chiaki_audio_header_set_def)

theorem packet_stats_count_gaps_witness:
  "\<exists>st'. chiaki_packet_stats_get (push_seqs (reset_stats
      \<lparr>gen_received = 5, gen_lost = 1, seq_min = 0, seq_max = 100, seq_received = 7\<rparr>) [101, 104]) True
    = (st', 2, 2) \<and> seq_min st' = 104"
  using packet_stats_count_gaps [of "\<lparr>gen_received = 5, gen_lost = 1, seq_min = 0, seq_max = 100,
    seq_received = 7\<rparr>" "[101, 104]"]
  by auto

end
