(* ===== verification/Http.thy ===== *)
theory Http
  imports Prelude
begin

text \<open>
  \<^verbatim>\<open>lib/src/http.c\<close>: the parser of HTTP headers and status lines, and the receive loops that collect
  a header up to its empty line.

  The parser works in place: it writes terminators into the buffer and keeps pointers into it.  Here
  a pointer is an index into the buffer, a header a pair of indices, and \<open>cstr\<close> reads the string at
  an index.  The linked list of headers is a list, newest first, as the code builds it.  Sockets, the
  clock and the stop pipe are a script of events; a script that ends too early gives \<open>None\<close>, as does
  an access outside the buffer.
\<close>

subsection \<open>Characters and C strings\<close>

definition CR :: u8 where "CR = 13"
definition LF :: u8 where "LF = 10"
definition COLON :: u8 where "COLON = 58"
definition SPACE :: u8 where "SPACE = 32"

lemmas http_chars = CR_def LF_def COLON_def SPACE_def

definition cstr :: "bytes \<Rightarrow> nat \<Rightarrow> bytes" where
  "cstr buf i = takeWhile (\<lambda>c. c \<noteq> 0) (drop i buf)"

definition ascii :: "string \<Rightarrow> bytes" where
  "ascii s = map of_char s"

subsection \<open>Headers\<close>

record http_header =
  hh_key :: nat
  hh_value :: nat

record http_parse =
  hp_buf :: bytes
  hp_headers :: "http_header list"

text \<open>The loop from index \<open>i\<close> to \<open>fin\<close>: \<open>key\<close> is \<open>key_ptr\<close>, \<open>val\<close> is \<open>value_ptr\<close> (\<open>None\<close> for the null
  pointer), \<open>alloc n\<close> the outcome of allocating the \<open>n\<close>-th header.  After a colon the loop goes on
  behind the first character of the value, which it does not look at.\<close>

function http_header_loop ::
    "(nat \<Rightarrow> bool) \<Rightarrow> nat \<Rightarrow> nat \<Rightarrow> bytes \<Rightarrow> nat \<Rightarrow> nat option \<Rightarrow> http_header list \<Rightarrow> http_parse result" where
  "http_header_loop alloc fin i buf key val hs =
     (if fin \<le> i then ret_ok \<lparr>hp_buf = buf, hp_headers = hs\<rparr>
      else and_then (checked (rd8 buf i)) (\<lambda>c.
        if c = 0 then ret_ok \<lparr>hp_buf = buf, hp_headers = hs\<rparr>
        else case val of
          None \<Rightarrow>
            if c = COLON then
              if key = i then ret_err CHIAKI_ERR_INVALID_DATA
              else and_then (checked (wr8 buf i 0)) (\<lambda>buf.
                if i + 1 = fin then ret_err CHIAKI_ERR_INVALID_DATA
                else and_then (checked (rd8 buf (i + 1))) (\<lambda>s.
                  let j = (if s = SPACE then i + 2 else i + 1) in
                  if j = fin then ret_err CHIAKI_ERR_INVALID_DATA
                  else http_header_loop alloc fin (j + 1) buf key (Some j) hs))
            else if c = CR \<or> c = LF then
              if key + 1 < i then ret_err CHIAKI_ERR_INVALID_DATA
              else http_header_loop alloc fin (i + 1) buf (i + 1) None hs
            else http_header_loop alloc fin (i + 1) buf key None hs
        | Some v \<Rightarrow>
            if c = CR \<or> c = LF then
              if v = i then ret_err CHIAKI_ERR_INVALID_DATA
              else and_then (checked (wr8 buf i 0)) (\<lambda>buf.
                if \<not> alloc (length hs) then ret_err CHIAKI_ERR_MEMORY
                else http_header_loop alloc fin (i + 1) buf (i + 1) None
                       (\<lparr>hh_key = key, hh_value = v\<rparr> # hs))
            else http_header_loop alloc fin (i + 1) buf key (Some v) hs))"
  by pat_completeness auto
termination
  by (relation "measure (\<lambda>(alloc, fin, i, buf, key, val, hs). fin - i)") (auto simp: Let_def)

declare http_header_loop.simps [simp del]

text \<open>The buffer starts at \<open>off\<close> of the caller's array and is \<open>buf_size\<close> bytes long.\<close>

definition chiaki_http_header_parse ::
    "(nat \<Rightarrow> bool) \<Rightarrow> bytes \<Rightarrow> nat \<Rightarrow> nat \<Rightarrow> http_parse result" where
  "chiaki_http_header_parse alloc buf off buf_size =
     http_header_loop alloc (off + buf_size) off buf off None []"

text \<open>Freeing walks the list to its end.\<close>

fun chiaki_http_header_free :: "http_header list \<Rightarrow> nat" where
  "chiaki_http_header_free [] = 0"
| "chiaki_http_header_free (h # hs) = Suc (chiaki_http_header_free hs)"

subsection \<open>Responses\<close>

text \<open>\<open>strtol\<close> in base 10: white space, a sign, digits; the value saturates at the range of \<open>long\<close>.\<close>

definition c_isspace :: "u8 \<Rightarrow> bool" where
  "c_isspace c = (c = 32 \<or> 9 \<le> c \<and> c \<le> 13)"

definition c_isdigit :: "u8 \<Rightarrow> bool" where
  "c_isdigit c = (48 \<le> c \<and> c \<le> 57)"

definition digits_value :: "bytes \<Rightarrow> int" where
  "digits_value ds = foldl (\<lambda>n d. 10 * n + (int (unat d) - 48)) 0 ds"

definition c_strtol10 :: "bytes \<Rightarrow> int" where
  "c_strtol10 s =
     (let s = dropWhile c_isspace s;
          neg = (s \<noteq> [] \<and> hd s = 45);
          s = (if s \<noteq> [] \<and> (hd s = 45 \<or> hd s = 43) then tl s else s);
          n = digits_value (takeWhile c_isdigit s)
      in if neg then max (- (2 ^ 63)) (- n) else min (2 ^ 63 - 1) n)"

record http_response =
  hr_code :: i32
  hr_parse :: http_parse

definition find_byte :: "u8 \<Rightarrow> bytes \<Rightarrow> nat option" where
  "find_byte c xs = (let n = length (takeWhile (\<lambda>x. x \<noteq> c) xs) in if n < length xs then Some n else None)"

definition http_version :: bytes where
  "http_version = ascii ''HTTP/1.1 ''"

definition chiaki_http_response_parse ::
    "(nat \<Rightarrow> bool) \<Rightarrow> bytes \<Rightarrow> nat \<Rightarrow> http_response result" where
  "chiaki_http_response_parse alloc buf buf_size =
     (if buf_size < 9 then ret_err CHIAKI_ERR_INVALID_DATA
      else and_then (checked (rd_slice buf 0 9)) (\<lambda>v.
        if v \<noteq> http_version then ret_err CHIAKI_ERR_INVALID_DATA
        else and_then (checked (rd_slice buf 9 (buf_size - 9))) (\<lambda>rest.
          case find_byte LF rest of
            None \<Rightarrow> ret_err CHIAKI_ERR_INVALID_DATA
          | Some line_end \<Rightarrow>
              let line_length = line_end + 1 in
              if buf_size - 9 \<le> line_length then ret_err CHIAKI_ERR_INVALID_DATA
              else and_then (checked
                  (if 1 < line_length \<and> rest ! (line_end - 1) = CR then wr8 buf (9 + line_end - 1) 0
                   else wr8 buf (9 + line_end) 0)) (\<lambda>buf.
                let code = word_of_int (c_strtol10 (cstr buf 9)) in
                if code = 0 then ret_err CHIAKI_ERR_INVALID_DATA
                else and_then (chiaki_http_header_parse alloc buf (9 + line_length)
                                 (buf_size - 9 - line_length)) (\<lambda>p.
                  ret_ok \<lparr>hr_code = code, hr_parse = p\<rparr>)))))"

subsection \<open>Receiving a header\<close>

text \<open>The state counts how much of the sequence CR LF CR LF the bytes read so far end with.\<close>

definition transitions_r :: "nat list" where "transitions_r = [1, 1, 3, 1]"
definition transitions_n :: "nat list" where "transitions_n = [0, 2, 0, 4]"

definition nl_step :: "nat \<Rightarrow> u8 \<Rightarrow> nat" where
  "nl_step s c = (if c = CR then transitions_r ! s else if c = LF then transitions_n ! s else 0)"

text \<open>The state after the bytes, and the bytes left when the empty line is complete.\<close>

fun nl_scan :: "nat \<Rightarrow> bytes \<Rightarrow> nat \<times> bytes" where
  "nl_scan s [] = (s, [])"
| "nl_scan s (c # cs) = (let s' = nl_step s c in if s' = 4 then (4, cs) else nl_scan s' cs)"

datatype rx_event =
    Rx_Select u64 chiaki_error
  | Rx_Data bytes
  | Rx_Closed
  | Rx_Would_Block
  | Rx_Interrupted
  | Rx_Error

record rx_header =
  rx_buf :: bytes
  rx_header_size :: nat
  rx_received_size :: nat

text \<open>\<open>pos\<close> is how far \<open>buf\<close> has advanced, \<open>received\<close> the value of \<open>*received_size\<close>.  As in the source,
  \<open>recv\<close> is told \<open>buf_size\<close> on every call, not what is left of it.\<close>

fun recv_http_loop ::
    "bool \<Rightarrow> u64 option \<Rightarrow> nat \<Rightarrow> bool \<Rightarrow> rx_event list \<Rightarrow> nat \<Rightarrow> nat \<Rightarrow> nat \<Rightarrow> bytes \<Rightarrow> rx_header result" where
  "recv_http_loop pipe deadline buf_size selected [] nl pos received buf = None"
| "recv_http_loop pipe deadline buf_size selected (ev # evs) nl pos received buf =
     (if pipe \<and> \<not> selected then
        (case ev of
           Rx_Select now err \<Rightarrow>
             if (case deadline of None \<Rightarrow> False | Some d \<Rightarrow> d \<le> now) then ret_err CHIAKI_ERR_TIMEOUT
             else if err \<noteq> CHIAKI_ERR_SUCCESS then ret_err err
             else recv_http_loop pipe deadline buf_size True evs nl pos received buf
         | _ \<Rightarrow> None)
      else
        (case ev of
           Rx_Select now err \<Rightarrow> None
         | Rx_Interrupted \<Rightarrow> recv_http_loop pipe deadline buf_size selected evs nl pos received buf
         | Rx_Would_Block \<Rightarrow> recv_http_loop pipe deadline buf_size False evs nl pos received buf
         | Rx_Closed \<Rightarrow> ret_err CHIAKI_ERR_DISCONNECTED
         | Rx_Error \<Rightarrow> ret_err CHIAKI_ERR_NETWORK
         | Rx_Data ds \<Rightarrow>
             let ds = take buf_size ds in
             if ds = [] then ret_err CHIAKI_ERR_DISCONNECTED
             else and_then (checked (wr_slice buf pos ds)) (\<lambda>buf.
               let received = received + length ds; (nl', rest) = nl_scan nl ds in
               if nl' = 4
               then ret_ok \<lparr>rx_buf = buf, rx_header_size = received - length rest,
                            rx_received_size = received\<rparr>
               else recv_http_loop pipe deadline buf_size False evs nl' (pos + length ds) received buf)))"

definition chiaki_recv_http_header ::
    "bool \<Rightarrow> u64 \<Rightarrow> u64 \<Rightarrow> rx_event list \<Rightarrow> bytes \<Rightarrow> nat \<Rightarrow> rx_header result" where
  "chiaki_recv_http_header pipe start timeout_ms evs buf buf_size =
     (let deadline = (if timeout_ms = -1 then -1 else start + timeout_ms)
      in recv_http_loop pipe (if deadline = -1 then None else Some deadline) buf_size False evs 0 0 0 buf)"

text \<open>Over RUDP one message carries the header: \<open>send_recv\<close> is the outcome of the exchange, the data
  of the message and its counter.  The copy is made before the length is looked at; \<open>None\<close> for the
  header size is the case where the caller's variable is not written.\<close>

record rx_psn =
  rp_buf :: bytes
  rp_header_size :: "nat option"
  rp_received_size :: nat
  rp_counter :: u16

definition chiaki_send_recv_http_header_psn ::
    "chiaki_error + (bytes \<times> u16) \<Rightarrow> bytes \<Rightarrow> rx_psn result" where
  "chiaki_send_recv_http_header_psn send_recv buf =
     (case send_recv of
        Inl err \<Rightarrow> ret_err err
      | Inr (d, counter) \<Rightarrow>
          if length d < 2 then None
          else and_then (checked (wr_slice buf 0 (drop 2 d))) (\<lambda>buf.
            if length d = 2 then ret_err CHIAKI_ERR_DISCONNECTED
            else let received = length d - 2; (nl, rest) = nl_scan 0 (drop 2 d) in
              ret_ok \<lparr>rp_buf = buf,
                      rp_header_size = (if nl = 4 then Some (received - length rest) else None),
                      rp_received_size = received, rp_counter = counter\<rparr>))"

subsection \<open>Parsing well-formed header lines\<close>

definition key_char :: "u8 \<Rightarrow> bool" where
  "key_char c = (c \<noteq> 0 \<and> c \<noteq> COLON \<and> c \<noteq> CR \<and> c \<noteq> LF)"

definition value_char :: "u8 \<Rightarrow> bool" where
  "value_char c = (c \<noteq> 0 \<and> c \<noteq> CR \<and> c \<noteq> LF)"

definition header_ok :: "bytes \<times> bytes \<Rightarrow> bool" where
  "header_ok kv = (fst kv \<noteq> [] \<and> list_all key_char (fst kv)
     \<and> snd kv \<noteq> [] \<and> list_all value_char (snd kv))"

definition header_line :: "bytes \<times> bytes \<Rightarrow> bytes" where
  "header_line kv = fst kv @ [COLON, SPACE] @ snd kv @ [CR, LF]"

definition header_line_done :: "bytes \<times> bytes \<Rightarrow> bytes" where
  "header_line_done kv = fst kv @ [0, SPACE] @ snd kv @ [0, LF]"

fun header_index :: "nat \<Rightarrow> (bytes \<times> bytes) list \<Rightarrow> http_header list" where
  "header_index off [] = []"
| "header_index off (kv # kvs) = \<lparr>hh_key = off, hh_value = off + length (fst kv) + 2\<rparr>
     # header_index (off + length (header_line kv)) kvs"

lemma http_skip_key:
  "list_all key_char ks \<Longrightarrow> length pre = i \<Longrightarrow> i + length ks \<le> fin \<Longrightarrow>
     http_header_loop alloc fin i (pre @ ks @ post) key None hs
       = http_header_loop alloc fin (i + length ks) (pre @ ks @ post) key None hs"
proof (induction ks arbitrary: pre i)
  case (Cons c ks)
  have "http_header_loop alloc fin i (pre @ (c # ks) @ post) key None hs
      = http_header_loop alloc fin (i + 1) (pre @ (c # ks) @ post) key None hs"
    using Cons.prems by (subst http_header_loop.simps) (auto simp: key_char_def)
  then show ?case using Cons.IH [of "pre @ [c]" "i + 1"] Cons.prems by simp
qed simp

lemma http_skip_value:
  "list_all value_char vs \<Longrightarrow> length pre = i \<Longrightarrow> i + length vs \<le> fin \<Longrightarrow>
     http_header_loop alloc fin i (pre @ vs @ post) key (Some v) hs
       = http_header_loop alloc fin (i + length vs) (pre @ vs @ post) key (Some v) hs"
proof (induction vs arbitrary: pre i)
  case (Cons c vs)
  have "http_header_loop alloc fin i (pre @ (c # vs) @ post) key (Some v) hs
      = http_header_loop alloc fin (i + 1) (pre @ (c # vs) @ post) key (Some v) hs"
    using Cons.prems by (subst http_header_loop.simps) (auto simp: value_char_def)
  then show ?case using Cons.IH [of "pre @ [c]" "i + 1"] Cons.prems by simp
qed simp

lemma http_value_done:
  assumes "i < fin" "i < length buf" "buf ! i = CR \<or> buf ! i = LF" "v \<noteq> i" "alloc (length hs)"
  shows "http_header_loop alloc fin i buf key (Some v) hs
    = http_header_loop alloc fin (i + 1) (buf[i := 0]) (i + 1) None (\<lparr>hh_key = key, hh_value = v\<rparr> # hs)"
  using assms by (subst http_header_loop.simps) (auto simp: CR_def LF_def)

lemma http_line_break:
  assumes "i < fin" "i < length buf" "buf ! i = LF" "i \<le> key + 1"
  shows "http_header_loop alloc fin i buf key None hs
    = http_header_loop alloc fin (i + 1) buf (i + 1) None hs"
  using assms by (subst http_header_loop.simps) (simp add: CR_def LF_def COLON_def)

lemma http_one_line:
  assumes kv: "header_ok kv" and a: "alloc (length hs)" and i: "length pre = i"
    and fin: "i + length (header_line kv) \<le> fin"
  shows "http_header_loop alloc fin i (pre @ header_line kv @ post) i None hs
    = http_header_loop alloc fin (i + length (header_line kv)) (pre @ header_line_done kv @ post)
        (i + length (header_line kv)) None
        (\<lparr>hh_key = i, hh_value = i + length (fst kv) + 2\<rparr> # hs)"
proof -
  obtain k v0 v where [simp]: "kv = (k, v0 # v)" and k: "k \<noteq> []" "list_all key_char k"
    and v: "list_all value_char v"
    using kv by (cases kv; cases "snd kv") (auto simp: header_ok_def)
  let ?n = "length k" and ?loop = "http_header_loop alloc fin"
  let ?b1 = "pre @ k @ COLON # SPACE # v0 # v @ CR # LF # post"
  let ?b2 = "pre @ k @ 0 # SPACE # v0 # v @ CR # LF # post"
  let ?b3 = "pre @ k @ 0 # SPACE # v0 # v @ 0 # LF # post"
  have f: "i + ?n + 4 + length v < fin" using fin by (simp add: header_line_def)
  have nth: "?b1 ! (i + ?n) = COLON" "?b2 ! (i + ?n + 1) = SPACE" "length ?b1 > i + ?n + 1"
      "length ?b2 = length ?b1" "?b1[i + ?n := 0] = ?b2"
    using i by (simp_all add: nth_append list_update_append)
  have "?loop i (pre @ header_line kv @ post) i None hs = ?loop (i + ?n) ?b1 i None hs"
    using http_skip_key [OF k(2) i, of fin alloc "COLON # SPACE # v0 # v @ CR # LF # post" i hs] f
    by (simp add: header_line_def)
  also have "\<dots> = ?loop (i + ?n + 3) ?b2 i (Some (i + ?n + 2)) hs"
    using nth f k(1)
    by (subst http_header_loop.simps)
      (simp add: COLON_def Let_def numeral_3_eq_3 del: append_assoc length_append)
  also have "\<dots> = ?loop (i + ?n + 3 + length v) ?b2 i (Some (i + ?n + 2)) hs"
    using http_skip_value [OF v, of "pre @ k @ [0, SPACE, v0]" "i + ?n + 3" fin alloc "CR # LF # post"
        i "i + ?n + 2" hs] i f by simp
  also have "\<dots> = ?loop (i + ?n + 4 + length v) ?b3 (i + ?n + 4 + length v) None
      (\<lparr>hh_key = i, hh_value = i + ?n + 2\<rparr> # hs)"
  proof -
    have "?b2 ! (i + ?n + 3 + length v) = CR" "i + ?n + 3 + length v < length ?b2"
      "?b2[i + ?n + 3 + length v := 0] = ?b3"
      using i by (simp_all add: nth_append list_update_append)
    moreover have "i + ?n + 3 + length v + 1 = i + ?n + 4 + length v" by simp
    ultimately show ?thesis
      using http_value_done [of "i + ?n + 3 + length v" fin ?b2 "i + ?n + 2" alloc hs i] f a
      by (simp add: ac_simps)
  qed
  also have "\<dots> = ?loop (i + ?n + 5 + length v) ?b3 (i + ?n + 5 + length v) None
      (\<lparr>hh_key = i, hh_value = i + ?n + 2\<rparr> # hs)"
  proof -
    have "?b3 ! (i + ?n + 4 + length v) = LF" "i + ?n + 4 + length v < length ?b3"
      using i by (simp_all add: nth_append)
    then show ?thesis
      using http_line_break [of "i + ?n + 4 + length v" fin ?b3 "i + ?n + 4 + length v" alloc
          "\<lparr>hh_key = i, hh_value = i + ?n + 2\<rparr> # hs"] f
      by (simp add: ac_simps)
  qed
  also have "i + ?n + 5 + length v = i + length (header_line kv)" by (simp add: header_line_def)
  finally show ?thesis by (simp add: header_line_done_def)
qed

lemma http_header_lines:
  assumes "list_all header_ok kvs" "\<And>n. alloc n" "length pre = i"
    "i + length (concat (map header_line kvs)) \<le> fin"
  shows "http_header_loop alloc fin i (pre @ concat (map header_line kvs) @ post) i None hs
    = http_header_loop alloc fin (i + length (concat (map header_line kvs)))
        (pre @ concat (map header_line_done kvs) @ post)
        (i + length (concat (map header_line kvs))) None (rev (header_index i kvs) @ hs)"
  using assms(1,3,4)
proof (induction kvs arbitrary: pre i hs)
  case Nil
  then show ?case by simp
next
  case (Cons kv kvs)
  let ?n = "i + length (header_line kv)"
  have d: "length (pre @ header_line_done kv) = ?n"
    using Cons.prems(2) by (simp add: header_line_def header_line_done_def)
  have "http_header_loop alloc fin i (pre @ concat (map header_line (kv # kvs)) @ post) i None hs
      = http_header_loop alloc fin ?n
          ((pre @ header_line_done kv) @ concat (map header_line kvs) @ post) ?n None
          (\<lparr>hh_key = i, hh_value = i + length (fst kv) + 2\<rparr> # hs)"
    using http_one_line [of kv alloc hs pre i fin "concat (map header_line kvs) @ post"] Cons.prems
      assms(2) by simp
  also have "\<dots> = http_header_loop alloc fin (?n + length (concat (map header_line kvs)))
        ((pre @ header_line_done kv) @ concat (map header_line_done kvs) @ post)
        (?n + length (concat (map header_line kvs))) None
        (rev (header_index ?n kvs) @ \<lparr>hh_key = i, hh_value = i + length (fst kv) + 2\<rparr> # hs)"
    using Cons.prems d by (intro Cons.IH) auto
  finally show ?case by (simp add: add.assoc)
qed

lemma cstr_at:
  "list_all (\<lambda>c. c \<noteq> 0) xs \<Longrightarrow> length pre = i \<Longrightarrow> cstr (pre @ xs @ 0 # post) i = xs"
  by (auto simp: cstr_def list_all_iff takeWhile_append2)

lemma header_index_strings:
  assumes "list_all header_ok kvs" "length pre = i"
  shows "map (\<lambda>h. (cstr (pre @ concat (map header_line_done kvs) @ post) (hh_key h),
                   cstr (pre @ concat (map header_line_done kvs) @ post) (hh_value h)))
           (header_index i kvs) = kvs"
  using assms
proof (induction kvs arbitrary: pre i)
  case Nil
  then show ?case by simp
next
  case (Cons kv kvs)
  have ok: "list_all (\<lambda>c. c \<noteq> 0) (fst kv)" "list_all (\<lambda>c. c \<noteq> 0) (snd kv)"
    using Cons.prems(1) by (auto simp: header_ok_def list_all_iff key_char_def value_char_def)
  let ?buf = "pre @ concat (map header_line_done (kv # kvs)) @ post"
  have "?buf = pre @ fst kv @ 0 # SPACE # snd kv @ [0, LF] @ concat (map header_line_done kvs) @ post"
    "?buf = (pre @ fst kv @ [0, SPACE]) @ snd kv @ 0 # LF # concat (map header_line_done kvs) @ post"
    by (simp_all add: header_line_done_def)
  then have "cstr ?buf i = fst kv" "cstr ?buf (i + length (fst kv) + 2) = snd kv"
    using cstr_at [OF ok(1) Cons.prems(2)] cstr_at [OF ok(2), of "pre @ fst kv @ [0, SPACE]"]
      Cons.prems(2) by simp_all
  moreover have "map (\<lambda>h. (cstr ?buf (hh_key h), cstr ?buf (hh_value h)))
      (header_index (i + length (header_line kv)) kvs) = kvs"
  proof -
    have "length (pre @ header_line_done kv) = i + length (header_line kv)"
      using Cons.prems(2) by (simp add: header_line_def header_line_done_def)
    then show ?thesis using Cons.IH [of "pre @ header_line_done kv"] Cons.prems(1) by simp
  qed
  ultimately show ?case by simp
qed

text \<open>C7.  Header parser: on any sequence of well-formed lines \<open>key: value\<close> followed by the empty line,
  at any place in a buffer, the parser returns exactly those keys and values, newest first, and the
  strings are terminated inside the buffer.\<close>

theorem http_header_parse_lines:
  assumes "list_all header_ok kvs" "\<And>n. alloc n"
  shows "\<exists>p. chiaki_http_header_parse alloc (pre @ concat (map header_line kvs) @ [CR, LF] @ post)
      (length pre) (length (concat (map header_line kvs)) + 2) = ret_ok p
    \<and> map (\<lambda>h. (cstr (hp_buf p) (hh_key h), cstr (hp_buf p) (hh_value h))) (hp_headers p) = rev kvs"
proof -
  let ?n = "length pre + length (concat (map header_line kvs))"
  let ?buf = "pre @ concat (map header_line_done kvs) @ [CR, LF] @ post"
  have l: "length (concat (map header_line_done kvs)) = length (concat (map header_line kvs))"
    by (induction kvs) (simp_all add: header_line_def header_line_done_def)
  have "chiaki_http_header_parse alloc (pre @ concat (map header_line kvs) @ [CR, LF] @ post)
      (length pre) (length (concat (map header_line kvs)) + 2)
    = http_header_loop alloc (?n + 2) ?n ?buf ?n None (rev (header_index (length pre) kvs))"
    using http_header_lines [OF assms refl, where post = "[CR, LF] @ post" and hs = "[]"]
    by (simp add: chiaki_http_header_parse_def add.assoc)
  also have "\<dots> = http_header_loop alloc (?n + 2) (?n + 1) ?buf (?n + 1) None
      (rev (header_index (length pre) kvs))"
    using l by (subst http_header_loop.simps) (simp add: nth_append CR_def COLON_def)
  also have "\<dots> = http_header_loop alloc (?n + 2) (?n + 2) ?buf (?n + 2) None
      (rev (header_index (length pre) kvs))"
    using l by (subst http_header_loop.simps) (simp add: nth_append LF_def COLON_def)
  also have "\<dots> = ret_ok \<lparr>hp_buf = ?buf, hp_headers = rev (header_index (length pre) kvs)\<rparr>"
    by (subst http_header_loop.simps) simp
  finally show ?thesis
    using header_index_strings [OF assms(1) refl, of pre "[CR, LF] @ post"]
    by (simp add: rev_map [symmetric])
qed

text \<open>The rejection of empty values never happens: the loop goes on behind the first character of a
  value without looking at it, so an empty value takes in what follows it, with a carriage return
  as the value, or the whole next header line.\<close>

theorem http_empty_value_swallows:
  "map_option (map_sum id (\<lambda>p. map (\<lambda>h. (cstr (hp_buf p) (hh_key h), cstr (hp_buf p) (hh_value h)))
       (hp_headers p))) (chiaki_http_header_parse (\<lambda>_. True) (ascii ''A:'' @ [CR, LF] @ ascii ''B: c'' @ [CR, LF]) 0 10)
     = ret_ok [(ascii ''B'', ascii ''c''), (ascii ''A'', [CR])]
   \<and> map_option (map_sum id (\<lambda>p. map (\<lambda>h. (cstr (hp_buf p) (hh_key h), cstr (hp_buf p) (hh_value h)))
       (hp_headers p))) (chiaki_http_header_parse (\<lambda>_. True) (ascii ''A:'' @ [LF] @ ascii ''B: c'' @ [LF]) 0 8)
     = ret_ok [(ascii ''A'', LF # ascii ''B: c'')]"
  by code_simp

subsection \<open>Finding the empty line\<close>

definition ends_header :: "bytes \<Rightarrow> bool" where
  "ends_header xs = (take 4 (rev xs) = [LF, CR, LF, CR])"

text \<open>The state that goes with the bytes read so far, given newest first.\<close>

definition nl_of :: "bytes \<Rightarrow> nat" where
  "nl_of r = (if take 3 r = [CR, LF, CR] then 3 else if take 2 r = [LF, CR] then 2
              else if take 1 r = [CR] then 1 else 0)"

lemma CR_LF [simp]: "CR \<noteq> LF" "LF \<noteq> CR"
  by (simp_all add: CR_def LF_def)

lemma nl_step_of: "nl_step (nl_of r) c = (if take 4 (c # r) = [LF, CR, LF, CR] then 4 else nl_of (c # r))"
proof -
  note defs = nl_step_def nl_of_def transitions_r_def transitions_n_def eval_nat_numeral
  show ?thesis
  proof (cases "length r < 3")
    case True
    then consider "r = []" | a where "r = [a]" | a b where "r = [a, b]"
      by (auto simp: less_Suc_eq length_Suc_conv eval_nat_numeral)
    then show ?thesis by cases (auto simp: defs)
  next
    case False
    then obtain a b d r' where "r = a # b # d # r'"
      by (auto simp: not_less Suc_le_length_iff eval_nat_numeral)
    then show ?thesis by (auto simp: defs)
  qed
qed

lemma nl_scan_append:
  "nl_scan s (xs @ ys) = (case nl_scan s xs of (s', rest) \<Rightarrow>
     if s' = 4 then (4, rest @ ys) else nl_scan s' ys)" if "s \<noteq> 4"
  using that by (induction xs arbitrary: s) (auto simp: Let_def split: prod.splits)

lemma nl_scan_none:
  assumes "\<And>n. 0 < n \<Longrightarrow> n \<le> length xs \<Longrightarrow> take 4 (rev (take n xs) @ r) \<noteq> [LF, CR, LF, CR]"
  shows "nl_scan (nl_of r) xs = (nl_of (rev xs @ r), [])"
  using assms
proof (induction xs arbitrary: r)
  case (Cons c xs)
  have "take 4 (c # r) \<noteq> [LF, CR, LF, CR]" using Cons.prems [of 1] by simp
  then have s: "nl_step (nl_of r) c = nl_of (c # r)" by (metis nl_step_of)
  have "nl_of (c # r) \<noteq> 4" by (simp add: nl_of_def)
  moreover have "nl_scan (nl_of (c # r)) xs = (nl_of (rev xs @ c # r), [])"
    using Cons.prems [of "Suc n" for n] by (intro Cons.IH) simp
  ultimately show ?case by (simp add: s Let_def)
qed simp

lemma nl_scan_first:
  assumes "n \<le> length xs" "ends_header (take n xs)" "\<And>m. m < n \<Longrightarrow> \<not> ends_header (take m xs)"
  shows "nl_scan 0 xs = (4, drop n xs)"
proof -
  have n0: "0 < n" using assms(2) by (cases n) (auto simp: ends_header_def)
  let ?r = "rev (take (n - 1) xs)"
  have tk: "take n xs = take (n - 1) xs @ [xs ! (n - 1)]"
    using assms(1) n0 take_Suc_conv_app_nth [of "n - 1" xs] by simp
  have z: "nl_of [] = 0" by (simp add: nl_of_def)
  have pre: "nl_scan 0 (take (n - 1) xs) = (nl_of ?r, [])"
    using nl_scan_none [of "take (n - 1) xs" "[]"] assms(3) n0
    by (auto simp: ends_header_def z min_def)
  have four: "nl_of ?r \<noteq> 4" by (simp add: nl_of_def)
  have "take 4 (xs ! (n - 1) # ?r) = [LF, CR, LF, CR]"
    using assms(2) by (simp add: ends_header_def tk)
  then have step: "nl_step (nl_of ?r) (xs ! (n - 1)) = 4" by (simp add: nl_step_of)
  have "xs = take (n - 1) xs @ xs ! (n - 1) # drop n xs"
    using assms(1) n0 by (metis Suc_pred' id_take_nth_drop Suc_le_eq)
  then have "nl_scan 0 xs = nl_scan 0 (take (n - 1) xs @ xs ! (n - 1) # drop n xs)" by simp
  also have "\<dots> = (4, drop n xs)"
    unfolding nl_scan_append [OF zero_neq_numeral] pre using four step by (simp add: Let_def)
  finally show ?thesis .
qed

text \<open>Without stop pipe: chunks that arrive one after the other, the last one with the empty line.\<close>

lemma recv_http_loop_chunks:
  assumes "nl_scan nl (concat chunks @ c) = (4, rest)" "nl \<noteq> 4"
    and "\<And>k. k < length (concat chunks) + 1 \<Longrightarrow> fst (nl_scan nl (take k (concat chunks))) \<noteq> 4"
    and "\<And>d. d \<in> set (c # chunks) \<Longrightarrow> d \<noteq> [] \<and> length d \<le> sz"
    and "length pre + length (concat chunks) + length c \<le> length (pre @ buf)"
  shows "recv_http_loop False None sz False (map Rx_Data (chunks @ [c])) nl (length pre) (length pre) (pre @ buf)
    = ret_ok \<lparr>rx_buf = pre @ concat chunks @ c @ drop (length (concat chunks) + length c) buf,
        rx_header_size = length pre + length (concat chunks) + length c - length rest,
        rx_received_size = length pre + length (concat chunks) + length c\<rparr>"
  using assms
proof (induction chunks arbitrary: nl pre buf)
  case Nil
  have "wr_slice (pre @ buf) (length pre) c = Some (pre @ c @ drop (length c) buf)"
    using Nil(5) by (simp add: wr_slice_def)
  then show ?case using Nil by (simp add: Let_def)
next
  case (Cons d chunks)
  have d: "d \<noteq> []" "take sz d = d" using Cons.prems(4) by auto
  have w: "wr_slice (pre @ buf) (length pre) d = Some ((pre @ d) @ drop (length d) buf)"
    using Cons.prems(5) by (simp add: wr_slice_def)
  obtain s r where s: "nl_scan nl d = (s, r)" by fastforce
  have s4: "s \<noteq> 4" using Cons.prems(3) [of "length d"] s by simp
  have "recv_http_loop False None sz False (map Rx_Data ((d # chunks) @ [c])) nl (length pre) (length pre) (pre @ buf)
      = recv_http_loop False None sz False (map Rx_Data (chunks @ [c])) s (length (pre @ d)) (length (pre @ d))
          ((pre @ d) @ drop (length d) buf)"
    using d w s s4 by (simp add: Let_def)
  also have "\<dots> = ret_ok \<lparr>rx_buf = (pre @ d) @ concat chunks @ c
          @ drop (length (concat chunks) + length c) (drop (length d) buf),
        rx_header_size = length (pre @ d) + length (concat chunks) + length c - length rest,
        rx_received_size = length (pre @ d) + length (concat chunks) + length c\<rparr>"
  proof (rule Cons.IH)
    show "nl_scan s (concat chunks @ c) = (4, rest)"
      using Cons.prems(1,2) s s4 by (simp add: nl_scan_append)
    show "fst (nl_scan s (take k (concat chunks))) \<noteq> 4" if "k < length (concat chunks) + 1" for k
      using Cons.prems(2) Cons.prems(3) [of "length d + k"] that s s4
      by (simp add: nl_scan_append)
  qed (use Cons.prems s4 in auto)
  finally show ?case by (simp add: ac_simps)
qed

lemma recv_http_loop_deadline:
  "recv_http_loop False dl buf_size sel evs nl pos rec b
     = recv_http_loop False None buf_size sel evs nl pos rec b"
  by (induction False dl buf_size sel evs nl pos rec b rule: recv_http_loop.induct)
    (simp_all add: Let_def and_then_def split: rx_event.splits option.splits sum.splits prod.splits)

lemma nl_scan_no_end:
  assumes "\<forall>m \<le> length xs. \<not> ends_header (take m xs)"
  shows "fst (nl_scan 0 (take k xs)) \<noteq> 4"
proof -
  have "nl_scan (nl_of []) (take k xs) = (nl_of (rev (take k xs) @ []), [])"
  proof (rule nl_scan_none)
    fix n
    assume "0 < n" "n \<le> length (take k xs)"
    then have "take n (take k xs) = take n xs" "n \<le> length xs" by simp_all
    then show "take 4 (rev (take n (take k xs)) @ []) \<noteq> [LF, CR, LF, CR]"
      using assms by (simp add: ends_header_def)
  qed
  then show ?thesis by (simp add: nl_of_def)
qed

text \<open>Receiving a header over a socket: when the chunks that arrive fit into the buffer and the
  empty line is complete within the last of them, the header size is the end of the first empty
  line, and the buffer holds the bytes received, in order.\<close>

theorem recv_http_header_first_empty_line:
  fixes chunks c
  defines "data \<equiv> concat chunks @ c"
  assumes "n \<le> length data" "ends_header (take n data)" "\<forall>m < n. \<not> ends_header (take m data)"
    and "length (concat chunks) < n"
    and "\<forall>d \<in> set (c # chunks). d \<noteq> [] \<and> length d \<le> buf_size"
    and "length data \<le> length buf"
  shows "chiaki_recv_http_header False start timeout (map Rx_Data (chunks @ [c])) buf buf_size
    = ret_ok \<lparr>rx_buf = data @ drop (length data) buf, rx_header_size = n,
              rx_received_size = length data\<rparr>"
proof -
  have scan: "nl_scan 0 data = (4, drop n data)" using assms by (intro nl_scan_first) auto
  have "\<not> ends_header (take m (concat chunks))" if "m \<le> length (concat chunks)" for m
    using assms(4) [rule_format, of m] assms(5) that by (simp add: data_def)
  then have "fst (nl_scan 0 (take k (concat chunks))) \<noteq> 4" for k
    using nl_scan_no_end [of "concat chunks"] by simp
  then have "recv_http_loop False None buf_size False (map Rx_Data (chunks @ [c])) 0 0 0 buf
    = ret_ok \<lparr>rx_buf = concat chunks @ c @ drop (length (concat chunks) + length c) buf,
        rx_header_size = length (concat chunks) + length c - length (drop n data),
        rx_received_size = length (concat chunks) + length c\<rparr>"
    using recv_http_loop_chunks [of 0 chunks c "drop n data" buf_size "[]" buf] scan assms(6,7)
    by (simp add: data_def)
  moreover have "length (concat chunks) + length c - length (drop n data) = n"
    using assms(2) by (simp add: data_def)
  ultimately show ?thesis
    unfolding chiaki_recv_http_header_def Let_def
    by (subst recv_http_loop_deadline) (simp add: data_def)
qed

lemma recv_http_loop_overrun:
  assumes "nl \<noteq> 4" "length (pre @ buf) < length pre + length (concat chunks) + length c"
    and "\<And>k. k < length (concat chunks) + 1 \<Longrightarrow> fst (nl_scan nl (take k (concat chunks))) \<noteq> 4"
    and "\<And>d. d \<in> set (c # chunks) \<Longrightarrow> d \<noteq> [] \<and> length d \<le> sz"
  shows "recv_http_loop False None sz False (map Rx_Data (chunks @ [c])) nl (length pre) (length pre)
    (pre @ buf) = None"
  using assms
proof (induction chunks arbitrary: nl pre buf)
  case Nil
  then show ?case by (simp add: Let_def wr_slice_def)
next
  case (Cons d chunks)
  have d: "d \<noteq> []" "take sz d = d" using Cons.prems(4) by auto
  obtain s r where s: "nl_scan nl d = (s, r)" by fastforce
  have s4: "s \<noteq> 4" using Cons.prems(3) [of "length d"] s by simp
  show ?case
  proof (cases "length d \<le> length buf")
    case True
    then have w: "wr_slice (pre @ buf) (length pre) d = Some ((pre @ d) @ drop (length d) buf)"
      by (simp add: wr_slice_def)
    have "fst (nl_scan s (take k (concat chunks))) \<noteq> 4" if "k < length (concat chunks) + 1" for k
      using Cons.prems(1) Cons.prems(3) [of "length d + k"] that s s4 by (simp add: nl_scan_append)
    then have "recv_http_loop False None sz False (map Rx_Data (chunks @ [c])) s (length (pre @ d))
        (length (pre @ d)) ((pre @ d) @ drop (length d) buf) = None"
      using Cons.prems s4 True by (intro Cons.IH) auto
    then show ?thesis using d w s s4 by (simp add: Let_def)
  qed (use d in \<open>simp add: Let_def wr_slice_def\<close>)
qed

text \<open>C8.  The receive loop tells \<open>recv\<close> the full \<open>buf_size\<close> on every call, though it has advanced into
  the buffer.  For all pieces that \<open>recv\<close> can return (not empty, each at most \<open>buf_size\<close>), of which
  only the last completes the first empty line, received without a stop pipe into any memory: the
  call succeeds, with the bytes in order and the header ending at the empty line, if the memory
  holds all the pieces; if it does not, the call writes past its end, whatever \<open>buf_size\<close> is.\<close>

theorem recv_http_header_overruns:
  assumes "n \<le> length (concat chunks @ c)" "ends_header (take n (concat chunks @ c))"
    and "\<forall>m < n. \<not> ends_header (take m (concat chunks @ c))"
    and "length (concat chunks) < n"
    and "\<forall>d \<in> set (c # chunks). d \<noteq> [] \<and> length d \<le> buf_size"
  shows "chiaki_recv_http_header False start timeout (map Rx_Data (chunks @ [c])) buf buf_size
    = (if length (concat chunks @ c) \<le> length buf
       then ret_ok \<lparr>rx_buf = concat chunks @ c @ drop (length (concat chunks @ c)) buf,
                    rx_header_size = n, rx_received_size = length (concat chunks @ c)\<rparr>
       else None)"
proof (cases "length (concat chunks @ c) \<le> length buf")
  case True
  then show ?thesis using recv_http_header_first_empty_line [OF assms, of buf] by simp
next
  case False
  have "\<not> ends_header (take m (concat chunks))" if "m \<le> length (concat chunks)" for m
    using assms(3) [rule_format, of m] assms(4) that by simp
  then have "recv_http_loop False None buf_size False (map Rx_Data (chunks @ [c])) 0 0 0 buf = None"
    using nl_scan_no_end [of "concat chunks"] assms(5) False
      recv_http_loop_overrun [of 0 "[]" buf chunks c buf_size] by auto
  then show ?thesis
    using False unfolding chiaki_recv_http_header_def Let_def by (subst recv_http_loop_deadline) simp
qed

lemma numeral_13: "(13 :: nat) = Suc (Suc (Suc (Suc (Suc (Suc (Suc (Suc (Suc (Suc (Suc (Suc (Suc 0))))))))))))"
  by simp

theorem http_header_parse_lines_witness:
  "\<exists>p. chiaki_http_header_parse (\<lambda>_. True) ([9] @ concat (map header_line [(ascii ''Key'', ascii ''v: 1'')])
        @ [CR, LF] @ []) 1 13 = ret_ok p
    \<and> map (\<lambda>h. (cstr (hp_buf p) (hh_key h), cstr (hp_buf p) (hh_value h))) (hp_headers p)
        = [(ascii ''Key'', ascii ''v: 1'')]"
  using http_header_parse_lines [of "[(ascii ''Key'', ascii ''v: 1'')]" "\<lambda>_. True" "[9]" "[]"]
  by (simp add: header_ok_def key_char_def value_char_def http_chars ascii_def header_line_def
      numeral_13)

theorem recv_http_header_overruns_witness:
  "chiaki_recv_http_header False 0 0 (map Rx_Data ([[72, CR, LF]] @ [[CR, LF, 66]])) (replicate 5 0) 5
    = None"
proof -
  have "\<forall>m \<in> set [0..<5]. \<not> ends_header (take m [72, CR, LF, CR, LF, 66])"
    "ends_header (take 5 [72, CR, LF, CR, LF, 66])"
    by code_simp+
  then show ?thesis
    using recv_http_header_overruns [of 5 "[[72, CR, LF]]" "[CR, LF, 66]" 5 0 0 "replicate 5 0"]
    by (simp add: eval_nat_numeral All_less_Suc)
qed

theorem recv_http_header_first_empty_line_witness:
  "chiaki_recv_http_header False 0 0 (map Rx_Data ([[72, CR, LF]] @ [[CR, LF, 66]])) (replicate 8 0) 8
    = ret_ok \<lparr>rx_buf = [72, CR, LF, CR, LF, 66, 0, 0], rx_header_size = 5, rx_received_size = 6\<rparr>"
proof -
  have "\<forall>m \<in> set [0..<5]. \<not> ends_header (take m [72, CR, LF, CR, LF, 66])"
    "ends_header (take 5 [72, CR, LF, CR, LF, 66])"
    by code_simp+
  then show ?thesis
    using recv_http_header_first_empty_line [of 5 "[[72, CR, LF]]" "[CR, LF, 66]" 8 "replicate 8 0" 0 0]
    by (simp add: eval_nat_numeral All_less_Suc)
qed

end
