(* ===== verification/Common.thy ===== *)
theory Common
  imports Prelude
begin

text \<open>
  The common definitions of \<^verbatim>\<open>lib/include/chiaki/common.h\<close> and \<^verbatim>\<open>lib/src/common.c\<close> (targets,
  codecs, error strings) and the helpers of \<^verbatim>\<open>lib/src/utils.h\<close> (hexadecimal text, xor of buffers,
  sending a whole buffer over a socket).

  Characters are bytes.  A C \<open>char\<close> may be signed; the comparisons of \<open>nibble_value\<close> give the same
  answer either way, because no byte of 128 or more lies in the ranges tested.
\<close>

subsection \<open>Targets and codecs\<close>

type_synonym chiaki_target = i32

definition CHIAKI_TARGET_PS4_UNKNOWN :: chiaki_target where "CHIAKI_TARGET_PS4_UNKNOWN = 0"
definition CHIAKI_TARGET_PS4_8 :: chiaki_target where "CHIAKI_TARGET_PS4_8 = 800"
definition CHIAKI_TARGET_PS4_9 :: chiaki_target where "CHIAKI_TARGET_PS4_9 = 900"
definition CHIAKI_TARGET_PS4_10 :: chiaki_target where "CHIAKI_TARGET_PS4_10 = 1000"
definition CHIAKI_TARGET_PS5_UNKNOWN :: chiaki_target where "CHIAKI_TARGET_PS5_UNKNOWN = 1000000"
definition CHIAKI_TARGET_PS5_1 :: chiaki_target where "CHIAKI_TARGET_PS5_1 = 1000100"

lemmas target_defs = CHIAKI_TARGET_PS4_UNKNOWN_def CHIAKI_TARGET_PS4_8_def CHIAKI_TARGET_PS4_9_def
  CHIAKI_TARGET_PS4_10_def CHIAKI_TARGET_PS5_UNKNOWN_def CHIAKI_TARGET_PS5_1_def

definition chiaki_target_is_unknown :: "chiaki_target \<Rightarrow> bool" where
  "chiaki_target_is_unknown t =
     (t = CHIAKI_TARGET_PS5_UNKNOWN \<or> t = CHIAKI_TARGET_PS4_UNKNOWN)"

definition chiaki_target_is_ps5 :: "chiaki_target \<Rightarrow> bool" where
  "chiaki_target_is_ps5 t = (sint CHIAKI_TARGET_PS5_UNKNOWN \<le> sint t)"

datatype chiaki_codec = CHIAKI_CODEC_H264 | CHIAKI_CODEC_H265 | CHIAKI_CODEC_H265_HDR

definition chiaki_codec_is_h265 :: "chiaki_codec \<Rightarrow> bool" where
  "chiaki_codec_is_h265 c = (c = CHIAKI_CODEC_H265 \<or> c = CHIAKI_CODEC_H265_HDR)"

definition chiaki_codec_is_hdr :: "chiaki_codec \<Rightarrow> bool" where
  "chiaki_codec_is_hdr c = (c = CHIAKI_CODEC_H265_HDR)"

fun chiaki_codec_name :: "chiaki_codec \<Rightarrow> string" where
  "chiaki_codec_name CHIAKI_CODEC_H264 = ''H264''"
| "chiaki_codec_name CHIAKI_CODEC_H265 = ''H265''"
| "chiaki_codec_name CHIAKI_CODEC_H265_HDR = ''H265/HDR''"

definition chiaki_error_string :: "chiaki_error \<Rightarrow> string" where
  "chiaki_error_string code = (case code of
       CHIAKI_ERR_SUCCESS \<Rightarrow> ''Success''
     | CHIAKI_ERR_PARSE_ADDR \<Rightarrow> ''Failed to parse host address''
     | CHIAKI_ERR_THREAD \<Rightarrow> ''Thread error''
     | CHIAKI_ERR_MEMORY \<Rightarrow> ''Memory error''
     | CHIAKI_ERR_NETWORK \<Rightarrow> ''Network error''
     | CHIAKI_ERR_CONNECTION_REFUSED \<Rightarrow> ''Connection Refused''
     | CHIAKI_ERR_HOST_DOWN \<Rightarrow> ''Host is down''
     | CHIAKI_ERR_HOST_UNREACH \<Rightarrow> ''No route to host''
     | CHIAKI_ERR_DISCONNECTED \<Rightarrow> ''Disconnected''
     | CHIAKI_ERR_INVALID_DATA \<Rightarrow> ''Invalid data''
     | CHIAKI_ERR_BUF_TOO_SMALL \<Rightarrow> ''Buffer too small''
     | CHIAKI_ERR_MUTEX_LOCKED \<Rightarrow> ''Mutex is locked''
     | CHIAKI_ERR_CANCELED \<Rightarrow> ''Canceled''
     | CHIAKI_ERR_TIMEOUT \<Rightarrow> ''Timeout''
     | CHIAKI_ERR_INVALID_RESPONSE \<Rightarrow> ''Invalid Response''
     | CHIAKI_ERR_INVALID_MAC \<Rightarrow> ''Invalid MAC''
     | CHIAKI_ERR_UNINITIALIZED \<Rightarrow> ''Uninitialized''
     | CHIAKI_ERR_FEC_FAILED \<Rightarrow> ''FEC failed''
     | _ \<Rightarrow> ''Unknown'')"

subsection \<open>Hexadecimal text\<close>

text \<open>The result is an \<open>int8_t\<close>; \<open>None\<close> is its value -1.\<close>

definition nibble_value :: "u8 \<Rightarrow> u8 option" where
  "nibble_value c =
     (if 48 \<le> c \<and> c \<le> 57 then Some (c - 48)
      else if 97 \<le> c \<and> c \<le> 102 then Some (c - 97 + 10)
      else if 65 \<le> c \<and> c \<le> 70 then Some (c - 65 + 10)
      else None)"

text \<open>\<open>n\<close> pairs of digits remain, from position \<open>i\<close>; digits read outside \<open>hex\<close> and bytes written
  outside \<open>buf\<close> are undefined.  The flag is whether every digit was valid.\<close>

fun parse_hex_loop :: "bytes \<Rightarrow> nat \<Rightarrow> nat \<Rightarrow> bytes \<Rightarrow> (bool \<times> bytes) option" where
  "parse_hex_loop hex i 0 buf = Some (True, buf)"
| "parse_hex_loop hex i (Suc n) buf = do {
     a \<leftarrow> rd8 hex (i + 0);
     (case nibble_value a of
        None \<Rightarrow> Some (False, buf)
      | Some h \<Rightarrow> do {
          b \<leftarrow> rd8 hex (i + 1);
          (case nibble_value b of
             None \<Rightarrow> Some (False, buf)
           | Some l \<Rightarrow> do {
               buf' \<leftarrow> wr8 buf (i div 2) (push_bit 4 h OR l);
               parse_hex_loop hex (i + 2) n buf' }) }) }"

record hex_result =
  hx_err :: chiaki_error
  hx_buf :: bytes
  hx_size :: nat

definition parse_hex :: "bytes \<Rightarrow> nat \<Rightarrow> bytes \<Rightarrow> nat \<Rightarrow> hex_result option" where
  "parse_hex buf buf_size hex hex_size =
     (if hex_size mod 2 \<noteq> 0
      then Some \<lparr>hx_err = CHIAKI_ERR_INVALID_DATA, hx_buf = buf, hx_size = buf_size\<rparr>
      else if buf_size < hex_size div 2
      then Some \<lparr>hx_err = CHIAKI_ERR_BUF_TOO_SMALL, hx_buf = buf, hx_size = buf_size\<rparr>
      else do {
        (ok, buf') \<leftarrow> parse_hex_loop hex 0 (hex_size div 2) buf;
        Some (if ok
              then \<lparr>hx_err = CHIAKI_ERR_SUCCESS, hx_buf = buf', hx_size = hex_size div 2\<rparr>
              else \<lparr>hx_err = CHIAKI_ERR_INVALID_DATA, hx_buf = buf', hx_size = buf_size\<rparr>) })"

text \<open>As the source has it: the digit of a value of 10 or more is the letter \<open>a\<close> advanced by the whole
  value, not by the value less 10.\<close>

definition nibble_char :: "u8 \<Rightarrow> u8" where
  "nibble_char v = (if 15 < v then 48 else if v < 10 then 48 + v else 97 + v)"

fun format_hex_loop :: "bytes \<Rightarrow> nat \<Rightarrow> bytes \<Rightarrow> bytes option" where
  "format_hex_loop hex_buf i [] = Some hex_buf"
| "format_hex_loop hex_buf i (v # vs) = do {
     b \<leftarrow> wr8 hex_buf (i * 2 + 0) (nibble_char (drop_bit 4 v));
     b' \<leftarrow> wr8 b (i * 2 + 1) (nibble_char (v AND 0xf));
     format_hex_loop b' (i + 1) vs }"

definition format_hex :: "bytes \<Rightarrow> nat \<Rightarrow> bytes \<Rightarrow> nat \<Rightarrow> (chiaki_error \<times> bytes) option" where
  "format_hex hex_buf hex_buf_size buf buf_size =
     (if hex_buf_size < buf_size * 2 + 1 then Some (CHIAKI_ERR_BUF_TOO_SMALL, hex_buf)
      else do {
        vs \<leftarrow> rd_slice buf 0 buf_size;
        b \<leftarrow> format_hex_loop hex_buf 0 vs;
        b' \<leftarrow> wr8 b (buf_size * 2) 0;
        Some (CHIAKI_ERR_SUCCESS, b') })"

subsection \<open>Xor of buffers\<close>

fun xor_bytes :: "bytes \<Rightarrow> bytes \<Rightarrow> nat \<Rightarrow> bytes option" where
  "xor_bytes dst src 0 = Some dst"
| "xor_bytes (d # dst) (s # src) (Suc n) = map_option ((#) (d XOR s)) (xor_bytes dst src n)"
| "xor_bytes _ _ (Suc n) = None"

subsection \<open>Sending a whole buffer\<close>

text \<open>What the socket and the clock answer, in the order the loop asks: the result of \<open>send\<close>; after a
  would-block error, the clock and the outcome of the stop pipe wait.  The list is the script of
  these answers; a script that is too short for the loop gives \<open>None\<close>.\<close>

datatype send_event =
    Send_Bytes nat
  | Send_Interrupted
  | Send_Would_Block u64 chiaki_error
  | Send_Fails

text \<open>\<open>remaining\<close> is what \<open>sent_total\<close> has left; each chunk handed to \<open>send\<close> is at most \<open>INT_MAX\<close>
  bytes, and a socket takes at most what it was handed.  The result is the status, and the bytes
  that went out.\<close>

fun send_fully_loop ::
    "bool \<Rightarrow> u64 option \<Rightarrow> send_event list \<Rightarrow> bytes \<Rightarrow> bytes \<Rightarrow> (chiaki_error \<times> bytes) option" where
  "send_fully_loop has_pipe deadline evs [] out = Some (CHIAKI_ERR_SUCCESS, out)"
| "send_fully_loop has_pipe deadline [] (x # xs) out = None"
| "send_fully_loop has_pipe deadline (ev # evs) (x # xs) out =
     (case ev of
        Send_Bytes n \<Rightarrow>
          if n = 0 then Some (CHIAKI_ERR_NETWORK, out)
          else let n' = min n (min (length (x # xs)) (2 ^ 31 - 1))
               in send_fully_loop has_pipe deadline evs (drop n' (x # xs)) (out @ take n' (x # xs))
      | Send_Interrupted \<Rightarrow> send_fully_loop has_pipe deadline evs (x # xs) out
      | Send_Would_Block now wait \<Rightarrow>
          if \<not> has_pipe then Some (CHIAKI_ERR_NETWORK, out)
          else if (case deadline of None \<Rightarrow> False | Some d \<Rightarrow> d \<le> now)
          then Some (CHIAKI_ERR_TIMEOUT, out)
          else if wait \<noteq> CHIAKI_ERR_SUCCESS then Some (wait, out)
          else send_fully_loop has_pipe deadline evs (x # xs) out
      | Send_Fails \<Rightarrow> Some (CHIAKI_ERR_NETWORK, out))"

definition chiaki_send_fully ::
    "bool \<Rightarrow> u64 \<Rightarrow> u64 \<Rightarrow> send_event list \<Rightarrow> bytes \<Rightarrow> (chiaki_error \<times> bytes) option" where
  "chiaki_send_fully has_pipe start timeout_ms evs buf =
     (let deadline = (if timeout_ms = -1 then -1 else start + timeout_ms)
      in send_fully_loop has_pipe (if deadline = -1 then None else Some deadline) evs buf [])"

subsection \<open>Hexadecimal text: what is written and what can be read back\<close>

definition hex_pair :: "u8 \<Rightarrow> bytes" where
  "hex_pair v = [nibble_char (drop_bit 4 v), nibble_char (v AND 0xf)]"

definition hex_text :: "bytes \<Rightarrow> bytes" where
  "hex_text vs = concat (map hex_pair vs)"

definition decimal_nibbles :: "u8 \<Rightarrow> bool" where
  "decimal_nibbles v \<longleftrightarrow> drop_bit 4 v < 10 \<and> v AND 0xf < 10"

lemma length_hex_text [simp]: "length (hex_text vs) = 2 * length vs"
  by (induction vs) (simp_all add: hex_text_def hex_pair_def)

lemma hex_text_Cons [simp]: "hex_text (v # vs) = hex_pair v @ hex_text vs"
  by (simp add: hex_text_def)

lemma nibble_value_char:
  assumes "v \<le> 15"
  shows "nibble_value (nibble_char v) = (if v < 10 then Some v else None)"
proof -
  have tab: "\<forall>n \<in> set [0..<16]. nibble_value (nibble_char (of_nat n))
      = (if of_nat n < (10 :: u8) then Some (of_nat n) else None)"
    by code_simp
  have "unat v \<in> set [0..<16]" using assms by (simp add: word_le_nat_alt)
  from bspec [OF tab this] show ?thesis by simp
qed

lemma nibble_bounds: "drop_bit 4 (v :: u8) \<le> 15" "(v :: u8) AND 0xf \<le> 15"
proof -
  have "unat (drop_bit 4 v) < 16"
    using unsigned_less [of v, where 'a = nat] by (simp add: unat_drop_bit_eq drop_bit_nat_def del: drop_bit_eq_div)
  then show "drop_bit 4 v \<le> 15" by (simp add: word_le_nat_alt)
  show "v AND 0xf \<le> 15" by (rule word_and_le1)
qed

lemma nibbles_join: "push_bit 4 (drop_bit 4 v) OR (v AND 0xf) = (v :: u8)"
proof (rule bit_word_eqI)
  fix n
  show "bit (push_bit 4 (drop_bit 4 v) OR (v AND 0xf)) n = bit v n" if "n < LENGTH(8)"
    using that bit_mask_iff [of 4 n, where 'a = "u8"]
    by (cases "n < 4") (auto simp: bit_simps mask_eq_exp_minus_1)
qed

lemma format_hex_loop_text:
  "i * 2 + 2 * length vs \<le> length b \<Longrightarrow>
     format_hex_loop b i vs = Some (take (i * 2) b @ hex_text vs @ drop (i * 2 + 2 * length vs) b)"
proof (induction vs arbitrary: i b)
  case Nil
  then show ?case by (simp add: hex_text_def)
next
  case (Cons v vs)
  let ?b = "b[i * 2 := nibble_char (drop_bit 4 v), i * 2 + 1 := nibble_char (v AND 0xf)]"
  have tk: "take ((i + 1) * 2) ?b = take (i * 2) b @ hex_pair v"
  proof -
    have "take (Suc (Suc (i * 2))) ?b = take (i * 2) b @ hex_pair v"
      using Cons.prems by (simp add: take_Suc_conv_app_nth hex_pair_def)
    then show ?thesis by simp
  qed
  have "drop ((i + 1) * 2 + 2 * length vs) ?b = drop (i * 2 + 2 * length (v # vs)) b"
    by simp
  then show ?case
    using Cons.IH [of "i + 1" ?b] Cons.prems tk by simp
qed

lemma parse_hex_loop_text:
  assumes "hex = pre @ hex_text vs @ post" "length pre = i" "even i"
    "i div 2 + length vs \<le> length buf"
  shows "((\<forall>v \<in> set vs. decimal_nibbles v) \<longrightarrow> parse_hex_loop hex i (length vs) buf
      = Some (True, take (i div 2) buf @ vs @ drop (i div 2 + length vs) buf))
    \<and> ((\<exists>v \<in> set vs. \<not> decimal_nibbles v) \<longrightarrow>
         (\<exists>b. parse_hex_loop hex i (length vs) buf = Some (False, b)))"
  using assms
proof (induction vs arbitrary: pre i buf)
  case Nil
  then show ?case by simp
next
  case (Cons v vs)
  let ?h = "drop_bit 4 v" and ?l = "v AND 0xf"
  have rd: "rd8 hex (i + 0) = Some (nibble_char ?h)" "rd8 hex (i + 1) = Some (nibble_char ?l)"
    using Cons.prems(1,2) by (simp_all add: hex_pair_def nth_append)
  have h: "nibble_value (nibble_char ?h) = (if ?h < 10 then Some ?h else None)"
    "nibble_value (nibble_char ?l) = (if ?l < 10 then Some ?l else None)"
    by (rule nibble_value_char [OF nibble_bounds(1)] nibble_value_char [OF nibble_bounds(2)])+
  show ?case
  proof (cases "decimal_nibbles v")
    case False
    then have "\<exists>b. parse_hex_loop hex i (length (v # vs)) buf = Some (False, b)"
      using rd h by (auto simp: decimal_nibbles_def)
    then show ?thesis using False by auto
  next
    case True
    let ?buf = "buf[i div 2 := v]"
    have step: "parse_hex_loop hex i (length (v # vs)) buf = parse_hex_loop hex (i + 2) (length vs) ?buf"
      using rd h True Cons.prems(4) by (simp add: decimal_nibbles_def nibbles_join)
    have hx: "hex = (pre @ hex_pair v) @ hex_text vs @ post" "length (pre @ hex_pair v) = i + 2"
      using Cons.prems(1,2) by (simp_all add: hex_pair_def)
    have "take ((i + 2) div 2) ?buf = take (i div 2) buf @ [v]"
      using Cons.prems(4) by (simp add: take_Suc_conv_app_nth)
    moreover have "drop ((i + 2) div 2 + length vs) ?buf = drop (i div 2 + length (v # vs)) buf"
      by simp
    moreover have "even (i + 2)" "(i + 2) div 2 + length vs \<le> length ?buf"
      using Cons.prems(3,4) by auto
    ultimately show ?thesis
      using Cons.IH [OF hx, of ?buf] True unfolding step by simp
  qed
qed

text \<open>Hexadecimal text that \<open>format_hex\<close> writes reads back with \<open>parse_hex\<close> exactly when every
  half-byte is below 10: \<open>nibble_char\<close> writes the letters k to p for 10 to 15, which \<open>parse_hex\<close>
  rejects.  Neither function leaves its buffers.\<close>

theorem format_hex_parse_hex:
  assumes "2 * length buf + 1 \<le> length hex_buf" "length buf \<le> length out"
  shows "\<exists>hex r. format_hex hex_buf (length hex_buf) buf (length buf) = Some (CHIAKI_ERR_SUCCESS, hex)
    \<and> hex ! (2 * length buf) = 0
    \<and> parse_hex out (length out) hex (2 * length buf) = Some r
    \<and> (if \<forall>v \<in> set buf. drop_bit 4 v < 10 \<and> v AND 0xf < 10
       then hx_err r = CHIAKI_ERR_SUCCESS \<and> hx_size r = length buf \<and> take (length buf) (hx_buf r) = buf
       else hx_err r = CHIAKI_ERR_INVALID_DATA)"
proof -
  let ?n = "length buf"
  let ?hex = "hex_text buf @ 0 # drop (2 * ?n + 1) hex_buf"
  have dr: "drop (2 * ?n) hex_buf = hex_buf ! (2 * ?n) # drop (2 * ?n + 1) hex_buf"
    using assms(1) Cons_nth_drop_Suc [of "2 * ?n" hex_buf] by simp
  have "format_hex hex_buf (length hex_buf) buf ?n = Some (CHIAKI_ERR_SUCCESS, ?hex)"
    using assms(1) format_hex_loop_text [of 0 buf hex_buf] dr
    by (simp add: format_hex_def wr8_def list_update_append mult.commute)
  moreover have "?hex ! (2 * ?n) = 0" by (simp add: nth_append)
  moreover have "((\<forall>v \<in> set buf. decimal_nibbles v) \<longrightarrow>
      parse_hex_loop ?hex 0 ?n out = Some (True, buf @ drop ?n out))
    \<and> ((\<exists>v \<in> set buf. \<not> decimal_nibbles v) \<longrightarrow> (\<exists>b. parse_hex_loop ?hex 0 ?n out = Some (False, b)))"
    using parse_hex_loop_text [of ?hex "[]" buf "0 # drop (2 * ?n + 1) hex_buf" 0 out] assms(2)
    by simp
  ultimately show ?thesis
    using assms(2) by (fastforce simp: parse_hex_def decimal_nibbles_def split: if_splits)
qed

theorem format_hex_parse_hex_witness:
  "\<exists>hex r. format_hex (replicate 5 0) 5 [0x12, 0x3a] 2 = Some (CHIAKI_ERR_SUCCESS, hex)
    \<and> parse_hex [0, 0] 2 hex 4 = Some r \<and> hx_err r = CHIAKI_ERR_INVALID_DATA"
proof -
  have "\<not> (0x3a :: u8) AND 0xf < 10" by simp
  then show ?thesis
    using format_hex_parse_hex [of "[0x12, 0x3a]" "replicate 5 0" "[0, 0]"]
    by (auto simp: numeral_2_eq_2 numeral_3_eq_3 eval_nat_numeral)
qed

subsection \<open>Sending: success means the whole buffer went out, in order\<close>

lemma send_fully_loop_prefix:
  "send_fully_loop pipe dl evs buf out = Some (err, sent) \<Longrightarrow>
     \<exists>k \<le> length buf. sent = out @ take k buf \<and> (err = CHIAKI_ERR_SUCCESS \<longrightarrow> k = length buf)"
proof (induction pipe dl evs buf out rule: send_fully_loop.induct)
  case (1 pipe dl evs out)
  then show ?case by simp
next
  case (2 pipe dl x xs out)
  then show ?case by simp
next
  case (3 pipe dl ev evs x xs out)
  show ?case
  proof (cases ev)
    case (Send_Bytes n)
    let ?n = "min n (min (length (x # xs)) (2 ^ 31 - 1))"
    show ?thesis
    proof (cases "n = 0")
      case True
      then show ?thesis using 3 Send_Bytes by (auto intro!: exI [of _ 0])
    next
      case False
      then have "send_fully_loop pipe dl evs (drop ?n (x # xs)) (out @ take ?n (x # xs)) = Some (err, sent)"
        using "3.prems" Send_Bytes by (simp add: Let_def)
      then obtain k where k: "k \<le> length (drop ?n (x # xs))"
        "sent = (out @ take ?n (x # xs)) @ take k (drop ?n (x # xs))"
        "err = CHIAKI_ERR_SUCCESS \<longrightarrow> k = length (drop ?n (x # xs))"
        using "3.IH"(1) [OF Send_Bytes False refl] by blast
      have "sent = out @ take (?n + k) (x # xs)" using k(2) by (simp only: take_add append.assoc)
      moreover have "?n + k \<le> length (x # xs)" "err = CHIAKI_ERR_SUCCESS \<longrightarrow> ?n + k = length (x # xs)"
        using k(1,3) by auto
      ultimately show ?thesis by blast
    qed
  qed (use 3 in \<open>auto split: if_splits option.splits intro!: exI [of _ 0]\<close>)
qed

text \<open>\<open>chiaki_send_fully\<close> never sends anything but a prefix of its buffer, whatever the socket,
  the clock and the stop pipe answer, and reports success only when that prefix is the whole
  buffer.\<close>

theorem send_fully_prefix:
  assumes "chiaki_send_fully pipe start timeout evs buf = Some (err, sent)"
  shows "\<exists>k \<le> length buf. sent = take k buf \<and> (err = CHIAKI_ERR_SUCCESS \<longrightarrow> sent = buf)"
  using assms send_fully_loop_prefix [of pipe _ evs buf "[]" err sent]
  by (fastforce simp: chiaki_send_fully_def Let_def)

theorem send_fully_prefix_witness:
  "\<exists>sent. chiaki_send_fully True 0 100 [Send_Bytes 2, Send_Interrupted,
      Send_Would_Block 5 CHIAKI_ERR_SUCCESS, Send_Bytes 9] [1, 2, 3] = Some (CHIAKI_ERR_SUCCESS, sent)
    \<and> sent = [1, 2, 3]"
  using send_fully_prefix [of True 0 100 "[Send_Bytes 2, Send_Interrupted,
      Send_Would_Block 5 CHIAKI_ERR_SUCCESS, Send_Bytes 9]" "[1, 2, 3]" CHIAKI_ERR_SUCCESS "[1, 2, 3]"]
  by (simp add: chiaki_send_fully_def)

end
