(* ===== verification/GKCrypt.thy ===== *)
theory GKCrypt
  imports Common SeqNum
begin

text \<open>
  \<^verbatim>\<open>lib/src/gkcrypt.c\<close>: the key positions, the counter-mode key stream with its ring buffer filled by
  a thread, and the message authentication keys.

  AES, SHA-256, HMAC and GCM belong to OpenSSL or mbedTLS; they are the fields of \<open>gk_prims\<close>, an
  argument of the definitions that use them, and \<open>prim_ok\<close> says whether the library calls succeed.
  Positions are 64-bit words, offsets inside the ring buffer are read as natural numbers.
\<close>

subsection \<open>Constants and primitives\<close>

definition CHIAKI_GKCRYPT_BLOCK_SIZE :: nat where "CHIAKI_GKCRYPT_BLOCK_SIZE = 0x10"
definition CHIAKI_GKCRYPT_GMAC_SIZE :: nat where "CHIAKI_GKCRYPT_GMAC_SIZE = 4"
definition CHIAKI_GKCRYPT_GMAC_KEY_REFRESH_KEY_POS :: u64 where "CHIAKI_GKCRYPT_GMAC_KEY_REFRESH_KEY_POS = 45000"
definition CHIAKI_GKCRYPT_GMAC_KEY_REFRESH_IV_OFFSET :: u64 where "CHIAKI_GKCRYPT_GMAC_KEY_REFRESH_IV_OFFSET = 44910"
definition KEY_BUF_CHUNK_SIZE :: u64 where "KEY_BUF_CHUNK_SIZE = 0x1000"

record gk_prims =
  aes_block :: "bytes \<Rightarrow> bytes \<Rightarrow> bytes"
  sha256 :: "bytes \<Rightarrow> bytes"
  hmac_sha256 :: "bytes \<Rightarrow> bytes \<Rightarrow> bytes"
  gcm_tag :: "bytes \<Rightarrow> bytes \<Rightarrow> bytes \<Rightarrow> bytes"
  prim_ok :: bool

text \<open>The documented sizes of what the primitives return.\<close>

definition prims_sizes :: "gk_prims \<Rightarrow> bool" where
  "prims_sizes P \<longleftrightarrow> prim_ok P \<and> (\<forall>k b. length (aes_block P k b) = 16)
     \<and> (\<forall>d. length (sha256 P d) = 32) \<and> (\<forall>k d. length (hmac_sha256 P k d) = 32)
     \<and> (\<forall>k iv d. length (gcm_tag P k iv d) = 4)"

subsection \<open>Key positions\<close>

record key_state =
  ks_prev :: u64

definition chiaki_key_state_init :: key_state where
  "chiaki_key_state_init = \<lparr>ks_prev = 0\<rparr>"

definition key_pos_high :: "u64 \<Rightarrow> u32 \<Rightarrow> u32" where
  "key_pos_high prev low =
     (let prev_low = ucast prev; high = ucast (drop_bit 32 prev) in
      if chiaki_seq_num_gt low prev_low \<and> low < prev_low then high + 1
      else if chiaki_seq_num_lt low prev_low \<and> prev_low < low \<and> high \<noteq> 0 then high - 1
      else high)"

definition chiaki_key_state_request_pos :: "key_state \<Rightarrow> u32 \<Rightarrow> bool \<Rightarrow> key_state \<times> u64" where
  "chiaki_key_state_request_pos st low commit =
     (let res = push_bit 32 (ucast (key_pos_high (ks_prev st) low)) OR ucast low
      in (if commit then st\<lparr>ks_prev := res\<rparr> else st, res))"

definition chiaki_key_state_commit :: "key_state \<Rightarrow> u64 \<Rightarrow> key_state" where
  "chiaki_key_state_commit st prev = st\<lparr>ks_prev := prev\<rparr>"

subsection \<open>The counter\<close>

fun counter_add :: "bytes \<Rightarrow> u64 \<Rightarrow> bytes" where
  "counter_add [] v = []"
| "counter_add (b # bs) v =
     (let r = ucast b + v; v' = drop_bit 8 r
      in ucast (r AND 0xff) # (if v' = 0 then bs else counter_add bs v'))"

subsection \<open>State and keys\<close>

record gkcrypt =
  gk_index :: u8
  gk_key_buf :: "bytes option"
  gk_key_buf_size :: u64
  gk_populated :: u64
  gk_key_pos_min :: u64
  gk_start_offset :: u64
  gk_last_key_pos :: u64
  gk_thread_stop :: bool
  gk_iv :: bytes
  gk_key_base :: bytes
  gk_gmac_base :: bytes
  gk_gmac_current :: bytes
  gk_gmac_index_current :: u64

definition chiaki_gkcrypt_gen_gmac_key :: "gk_prims \<Rightarrow> u64 \<Rightarrow> bytes \<Rightarrow> bytes \<Rightarrow> bytes option" where
  "chiaki_gkcrypt_gen_gmac_key P index key_base iv = do {
     kb \<leftarrow> rd_slice key_base 0 0x10;
     let md = sha256 P (kb @ counter_add iv (index * CHIAKI_GKCRYPT_GMAC_KEY_REFRESH_IV_OFFSET));
     hi \<leftarrow> rd_slice md 0x10 0x10;
     md \<leftarrow> xor_bytes md hi 0x10;
     rd_slice md 0 CHIAKI_GKCRYPT_BLOCK_SIZE }"

definition chiaki_gkcrypt_gen_new_gmac_key :: "gk_prims \<Rightarrow> gkcrypt \<Rightarrow> u64 \<Rightarrow> gkcrypt option" where
  "chiaki_gkcrypt_gen_new_gmac_key P gk index =
     (if index = 0 then None
      else do { k \<leftarrow> chiaki_gkcrypt_gen_gmac_key P index (gk_gmac_base gk) (gk_iv gk);
                Some (gk\<lparr>gk_gmac_current := k, gk_gmac_index_current := index\<rparr>) })"

definition chiaki_gkcrypt_gen_tmp_gmac_key :: "gk_prims \<Rightarrow> gkcrypt \<Rightarrow> u64 \<Rightarrow> bytes option" where
  "chiaki_gkcrypt_gen_tmp_gmac_key P gk index =
     (if index \<noteq> 0 then chiaki_gkcrypt_gen_gmac_key P index (gk_gmac_base gk) (gk_iv gk)
      else Some (gk_gmac_base gk))"

definition gkcrypt_gen_key_iv :: "gk_prims \<Rightarrow> u8 \<Rightarrow> bytes \<Rightarrow> bytes \<Rightarrow> (bytes \<times> bytes) result" where
  "gkcrypt_gen_key_iv P index handshake_key ecdh_secret =
     and_then (checked (rd_slice handshake_key 0 0x10)) (\<lambda>hk.
       let hmac = hmac_sha256 P ecdh_secret ([1, index, 0] @ hk @ [1, 0]) in
       if \<not> prim_ok P then ret_err CHIAKI_ERR_UNKNOWN
       else if length hmac \<noteq> 2 * CHIAKI_GKCRYPT_BLOCK_SIZE then None
       else ret_ok (take CHIAKI_GKCRYPT_BLOCK_SIZE hmac, drop CHIAKI_GKCRYPT_BLOCK_SIZE hmac))"

text \<open>The outcomes of the aligned allocation, the mutex, the condition variable and the thread are
  arguments; they matter only when a key buffer is asked for.\<close>

definition chiaki_gkcrypt_init ::
    "gk_prims \<Rightarrow> bytes option \<Rightarrow> chiaki_error \<Rightarrow> chiaki_error \<Rightarrow> chiaki_error \<Rightarrow>
     u64 \<Rightarrow> u8 \<Rightarrow> bytes \<Rightarrow> bytes \<Rightarrow> gkcrypt result" where
  "chiaki_gkcrypt_init P alloc mutex cond thread key_buf_chunks index handshake_key ecdh_secret =
     (let sz = key_buf_chunks * KEY_BUF_CHUNK_SIZE in
      if sz \<noteq> 0 \<and> alloc = None then ret_err CHIAKI_ERR_MEMORY
      else if sz \<noteq> 0 \<and> mutex \<noteq> CHIAKI_ERR_SUCCESS then ret_err mutex
      else if sz \<noteq> 0 \<and> cond \<noteq> CHIAKI_ERR_SUCCESS then ret_err cond
      else and_then (gkcrypt_gen_key_iv P index handshake_key ecdh_secret) (\<lambda>(key_base, iv).
        and_then (checked (chiaki_gkcrypt_gen_gmac_key P 0 key_base iv)) (\<lambda>gmac.
          if sz \<noteq> 0 \<and> thread \<noteq> CHIAKI_ERR_SUCCESS then ret_err thread
          else ret_ok \<lparr>gk_index = index,
                 gk_key_buf = (if sz = 0 then None else alloc), gk_key_buf_size = sz,
                 gk_populated = 0, gk_key_pos_min = 0, gk_start_offset = 0, gk_last_key_pos = 0,
                 gk_thread_stop = False, gk_iv = iv, gk_key_base = key_base,
                 gk_gmac_base = gmac, gk_gmac_current = gmac, gk_gmac_index_current = 0\<rparr>)))"

subsection \<open>The key stream\<close>

definition chiaki_gkcrypt_gen_key_stream :: "gk_prims \<Rightarrow> gkcrypt \<Rightarrow> u64 \<Rightarrow> nat \<Rightarrow> bytes result" where
  "chiaki_gkcrypt_gen_key_stream P gk key_pos buf_size =
     (if unat key_pos mod CHIAKI_GKCRYPT_BLOCK_SIZE \<noteq> 0 \<or> buf_size mod CHIAKI_GKCRYPT_BLOCK_SIZE \<noteq> 0
      then None
      else if \<not> prim_ok P then ret_err CHIAKI_ERR_UNKNOWN
      else let counter_offset = key_pos div 0x10 in
        ret_ok (concat (map (\<lambda>i. aes_block P (gk_key_base gk)
                               (counter_add (gk_iv gk) (counter_offset + of_nat i)))
                  [0..<buf_size div CHIAKI_GKCRYPT_BLOCK_SIZE])))"

definition gkcrypt_key_buf_should_generate :: "gkcrypt \<Rightarrow> bool" where
  "gkcrypt_key_buf_should_generate gk = (gk_key_pos_min gk + gk_populated gk div 2 < gk_last_key_pos gk)"

definition key_buf_copy :: "bytes \<Rightarrow> nat \<Rightarrow> nat \<Rightarrow> nat \<Rightarrow> bytes option" where
  "key_buf_copy kb sz off n =
     (if sz < off + n
      then let excess = off + n - sz in do {
        a \<leftarrow> rd_slice kb off (n - excess);
        b \<leftarrow> rd_slice kb 0 excess;
        Some (a @ b) }
      else rd_slice kb off n)"

definition chiaki_gkcrypt_get_key_stream ::
    "gk_prims \<Rightarrow> gkcrypt \<Rightarrow> u64 \<Rightarrow> nat \<Rightarrow> (gkcrypt \<times> bytes) result" where
  "chiaki_gkcrypt_get_key_stream P gk key_pos buf_size =
     (case gk_key_buf gk of
        None \<Rightarrow> and_then (chiaki_gkcrypt_gen_key_stream P gk key_pos buf_size) (\<lambda>ks. ret_ok (gk, ks))
      | Some kb \<Rightarrow>
          let fin = key_pos + of_nat buf_size;
              gk = (if gk_last_key_pos gk < fin then gk\<lparr>gk_last_key_pos := fin\<rparr> else gk)
          in if key_pos < gk_key_pos_min gk \<or> gk_key_pos_min gk + gk_populated gk \<le> fin
          then and_then (chiaki_gkcrypt_gen_key_stream P gk key_pos buf_size) (\<lambda>ks. ret_ok (gk, ks))
          else let off = (key_pos - gk_key_pos_min gk + gk_start_offset gk) mod gk_key_buf_size gk
            in and_then (checked (key_buf_copy kb (unat (gk_key_buf_size gk)) (unat off) buf_size))
                 (\<lambda>ks. ret_ok (gk, ks)))"

text \<open>\<open>alloc\<close> is whether the allocation of the key stream succeeds.\<close>

definition chiaki_gkcrypt_decrypt ::
    "gk_prims \<Rightarrow> bool \<Rightarrow> gkcrypt \<Rightarrow> u64 \<Rightarrow> bytes \<Rightarrow> (gkcrypt \<times> bytes) result" where
  "chiaki_gkcrypt_decrypt P alloc gk key_pos buf =
     (if \<not> alloc then ret_err CHIAKI_ERR_MEMORY else
      let padding_pre = unat key_pos mod CHIAKI_GKCRYPT_BLOCK_SIZE;
          full_size = ((padding_pre + length buf + CHIAKI_GKCRYPT_BLOCK_SIZE - 1)
                         div CHIAKI_GKCRYPT_BLOCK_SIZE) * CHIAKI_GKCRYPT_BLOCK_SIZE
      in and_then (chiaki_gkcrypt_get_key_stream P gk (key_pos - of_nat padding_pre) full_size)
           (\<lambda>(gk, ks).
         and_then (checked (do { k \<leftarrow> rd_slice ks padding_pre (length buf);
                                 xor_bytes buf k (length buf) }))
           (\<lambda>out. ret_ok (gk, out))))"

definition chiaki_gkcrypt_encrypt :: "gk_prims \<Rightarrow> bool \<Rightarrow> gkcrypt \<Rightarrow> u64 \<Rightarrow> bytes \<Rightarrow> (gkcrypt \<times> bytes) result" where
  "chiaki_gkcrypt_encrypt = chiaki_gkcrypt_decrypt"

subsection \<open>Message authentication\<close>

definition gmac_key_index :: "u64 \<Rightarrow> u64" where
  "gmac_key_index key_pos = (if 0 < key_pos then key_pos - 1 else 0) div CHIAKI_GKCRYPT_GMAC_KEY_REFRESH_KEY_POS"

definition gmac_select_key :: "gk_prims \<Rightarrow> gkcrypt \<Rightarrow> u64 \<Rightarrow> (gkcrypt \<times> bytes) option" where
  "gmac_select_key P gk key_pos =
     (let key_index = gmac_key_index key_pos in
      if gk_gmac_index_current gk < key_index
      then do { gk \<leftarrow> chiaki_gkcrypt_gen_new_gmac_key P gk key_index; Some (gk, gk_gmac_current gk) }
      else if key_index < gk_gmac_index_current gk
      then do { k \<leftarrow> chiaki_gkcrypt_gen_tmp_gmac_key P gk key_index; Some (gk, k) }
      else Some (gk, gk_gmac_current gk))"

definition chiaki_gkcrypt_gmac :: "gk_prims \<Rightarrow> gkcrypt \<Rightarrow> u64 \<Rightarrow> bytes \<Rightarrow> (gkcrypt \<times> bytes) result" where
  "chiaki_gkcrypt_gmac P gk key_pos buf =
     (let iv = counter_add (gk_iv gk) (key_pos div 0x10) in
      and_then (checked (gmac_select_key P gk key_pos)) (\<lambda>(gk, key).
        if \<not> prim_ok P then ret_err CHIAKI_ERR_UNKNOWN
        else ret_ok (gk, gcm_tag P key iv buf)))"

subsection \<open>The thread that fills the buffer\<close>

definition key_buf_mutex_pred :: "gkcrypt \<Rightarrow> bool" where
  "key_buf_mutex_pred gk = (gk_thread_stop gk \<or> gk_populated gk < gk_key_buf_size gk
     \<or> gkcrypt_key_buf_should_generate gk)"

text \<open>What the thread does before it generates: skip ahead, or give up the oldest chunk.\<close>

definition gkcrypt_thread_advance :: "gkcrypt \<Rightarrow> gkcrypt" where
  "gkcrypt_thread_advance gk =
     (if gk_key_pos_min gk + gk_populated gk < gk_last_key_pos gk
      then gk\<lparr>gk_key_pos_min := (gk_last_key_pos gk div KEY_BUF_CHUNK_SIZE) * KEY_BUF_CHUNK_SIZE,
              gk_start_offset := 0, gk_populated := 0\<rparr>
      else if gk_populated gk = gk_key_buf_size gk
      then gk\<lparr>gk_start_offset := (gk_start_offset gk + KEY_BUF_CHUNK_SIZE) mod gk_key_buf_size gk,
              gk_key_pos_min := gk_key_pos_min gk + KEY_BUF_CHUNK_SIZE,
              gk_populated := gk_populated gk - KEY_BUF_CHUNK_SIZE\<rparr>
      else gk)"

text \<open>\<open>gkcrypt_generate_next_chunk\<close> in its two halves: outside the lock the chunk is written behind
  the populated part, then under the lock it is counted in.\<close>

definition gkcrypt_write_chunk :: "gk_prims \<Rightarrow> gkcrypt \<Rightarrow> gkcrypt result" where
  "gkcrypt_write_chunk P gk =
     (case gk_key_buf gk of
        None \<Rightarrow> None
      | Some kb \<Rightarrow>
          if unat (gk_key_buf_size gk) < unat (gk_populated gk) + unat KEY_BUF_CHUNK_SIZE then None
          else let buf_offset = (gk_start_offset gk + gk_populated gk) mod gk_key_buf_size gk;
                   key_pos = gk_key_pos_min gk + gk_populated gk
            in and_then (chiaki_gkcrypt_gen_key_stream P gk key_pos (unat KEY_BUF_CHUNK_SIZE)) (\<lambda>ks.
               and_then (checked (wr_slice kb (unat buf_offset) ks)) (\<lambda>kb.
                 ret_ok (gk\<lparr>gk_key_buf := Some kb\<rparr>))))"

definition gkcrypt_publish_chunk :: "gkcrypt \<Rightarrow> gkcrypt" where
  "gkcrypt_publish_chunk gk = gk\<lparr>gk_populated := gk_populated gk + KEY_BUF_CHUNK_SIZE\<rparr>"

definition gkcrypt_generate_next_chunk :: "gk_prims \<Rightarrow> gkcrypt \<Rightarrow> (chiaki_error \<times> gkcrypt) option" where
  "gkcrypt_generate_next_chunk P gk =
     (case gkcrypt_write_chunk P gk of
        None \<Rightarrow> None
      | Some (Inl err) \<Rightarrow> Some (err, gk)
      | Some (Inr gk') \<Rightarrow> Some (CHIAKI_ERR_SUCCESS, gkcrypt_publish_chunk gk'))"

text \<open>One round of the thread after the wait returned \<open>err\<close>; the flag is whether it goes on.\<close>

definition gkcrypt_thread_round :: "gk_prims \<Rightarrow> chiaki_error \<Rightarrow> gkcrypt \<Rightarrow> (bool \<times> gkcrypt) option" where
  "gkcrypt_thread_round P err gk =
     (if gk_thread_stop gk \<or> err \<noteq> CHIAKI_ERR_SUCCESS then Some (False, gk)
      else do { (err, gk) \<leftarrow> gkcrypt_generate_next_chunk P (gkcrypt_thread_advance gk);
                Some (err = CHIAKI_ERR_SUCCESS, gk) })"

text \<open>Teardown: the thread is told to stop and joined, then its buffer is freed.\<close>

definition chiaki_gkcrypt_fini :: "gkcrypt \<Rightarrow> gkcrypt \<times> bytes list" where
  "chiaki_gkcrypt_fini gk = (case gk_key_buf gk of
     None \<Rightarrow> (gk, []) | Some kb \<Rightarrow> (gk\<lparr>gk_thread_stop := True\<rparr>, [kb]))"

end
