(* ===== verification/GKCryptProps.thy ===== *)
theory GKCryptProps
  imports GKCrypt
begin

text \<open>
  What \<^verbatim>\<open>lib/src/gkcrypt.c\<close> guarantees: key positions are recovered from their low halves, the
  counter is a 128-bit addition, the ring buffer of the key stream is transparent under every
  interleaving of requests with its thread, decryption undoes encryption, and the authentication key
  depends only on the key position.
\<close>

subsection \<open>Key positions\<close>

lemma key_pos_join:
  "push_bit 32 (ucast (ucast (drop_bit 32 pos) :: u32)) OR ucast (ucast pos :: u32) = (pos :: u64)"
    (is "?l = pos")
proof (rule bit_word_eqI)
  fix n
  show "bit ?l n = bit pos n" if "n < LENGTH(64)"
    using that by (cases "n < 32") (auto simp: bit_simps)
qed

lemma unat_halves:
  "unat (ucast (w :: u64) :: u32) = unat w mod 2 ^ 32"
  "unat (ucast (drop_bit 32 (w :: u64)) :: u32) = unat w div 2 ^ 32"
proof -
  show "unat (ucast w :: u32) = unat w mod 2 ^ 32"
    by (simp add: unsigned_ucast_eq take_bit_eq_mod)
  have "unat w div 2 ^ 32 < 2 ^ 32"
    using unsigned_less [of w, where 'a = nat] by (simp add: less_mult_imp_div_less)
  then show "unat (ucast (drop_bit 32 w) :: u32) = unat w div 2 ^ 32"
    by (simp add: unsigned_ucast_eq take_bit_eq_mod drop_bit_eq_div unat_div_distrib)
qed

lemma key_pos_high_recovers:
  fixes pos :: u64
  assumes "\<bar>int (unat pos) - int (unat prev)\<bar> < 2 ^ 31"
  shows "key_pos_high prev (ucast pos) = ucast (drop_bit 32 pos)"
proof -
  define l p where "l = unat pos mod 2 ^ 32" and "p = unat prev mod 2 ^ 32"
  define h ph where "h = unat pos div 2 ^ 32" and "ph = unat prev div 2 ^ 32"
  note defs = l_def p_def h_def ph_def
  have pos: "unat pos = 2 ^ 32 * h + l" "l < 2 ^ 32" by (simp_all add: defs)
  have prev: "unat prev = 2 ^ 32 * ph + p" "p < 2 ^ 32" by (simp_all add: defs)
  have u: "unat (ucast pos :: u32) = l" "unat (ucast prev :: u32) = p"
    "unat (ucast (drop_bit 32 pos) :: u32) = h" "unat (ucast (drop_bit 32 prev) :: u32) = ph"
    unfolding defs by (rule unat_halves)+
  have hb: "h < 2 ^ 32" "ph < 2 ^ 32"
    using unsigned_less [of pos, where 'a = nat] unsigned_less [of prev, where 'a = nat]
    by (simp_all add: defs less_mult_imp_div_less)
  have lt: "chiaki_seq_num_lt (a :: u32) b
      \<longleftrightarrow> (if unat a \<le> unat b then 0 < unat b - unat a \<and> unat b - unat a < 2 ^ 31
           else 2 ^ 32 + unat b - unat a < 2 ^ 31)" for a b
    using unsigned_less [of a, where 'a = nat] by (auto simp: seq_num_lt_iff unat_sub_if')
  have d: "\<bar>(2 ^ 32 * int h + int l) - (2 ^ 32 * int ph + int p)\<bar> < 2 ^ 31"
    using assms unfolding pos(1) prev(1) by simp
  let ?low = "ucast pos :: u32" and ?plow = "ucast prev :: u32"
  let ?high = "ucast (drop_bit 32 prev) :: u32"
  have eqs: "chiaki_seq_num_gt ?low ?plow \<and> ?low < ?plow \<longleftrightarrow> h = ph + 1"
    "chiaki_seq_num_lt ?low ?plow \<and> ?plow < ?low \<longleftrightarrow> h + 1 = ph"
    unfolding seq_num_gt_iff_lt lt u word_less_nat_alt using d pos(2) prev(2) by auto
  show ?thesis
  proof (cases "h = ph + 1")
    case True
    then have "key_pos_high prev ?low = ?high + 1" using eqs by (simp add: key_pos_high_def Let_def)
    moreover have "unat (?high + 1) = h" using u(4) hb True by (simp add: unat_plus_if')
    ultimately show ?thesis using u(3) by (simp add: word_unat_eq_iff)
  next
    case up: False
    show ?thesis
    proof (cases "h + 1 = ph")
      case True
      then have "?high \<noteq> 0" using u(4) by (metis add_is_0 unat_0 zero_neq_one)
      then have "key_pos_high prev ?low = ?high - 1"
        using eqs up True by (simp add: key_pos_high_def Let_def)
      moreover have "unat (?high - 1) = h" using u(4) True by (simp add: unat_sub_if')
      ultimately show ?thesis using u(3) by (simp add: word_unat_eq_iff)
    next
      case False
      then have "h = ph" using up d pos(2) prev(2) by auto
      moreover have "key_pos_high prev ?low = ?high"
        using eqs up False unfolding key_pos_high_def Let_def by presburger
      ultimately show ?thesis using u(3,4) by (simp add: word_unat_eq_iff)
    qed
  qed
qed

lemma key_pos_recover:
  assumes "\<bar>int (unat pos) - int (unat (ks_prev st))\<bar> < 2 ^ 31"
  shows "chiaki_key_state_request_pos st (ucast pos) commit
    = (if commit then chiaki_key_state_commit st pos else st, pos)"
  using key_pos_high_recovers [OF assms]
  by (simp add: chiaki_key_state_request_pos_def chiaki_key_state_commit_def Let_def key_pos_join)

text \<open>Key positions: from the low 32 bits alone, the position that was sent is recovered whenever
  it is less than 2^31 away from the last one remembered, in either direction and across the
  32-bit boundary; the state remembers it exactly when asked to commit.\<close>

theorem key_pos_recovered:
  assumes "\<bar>int (unat pos) - int (unat (ks_prev st))\<bar> < 2 ^ 31"
  shows "chiaki_key_state_request_pos st (ucast pos) commit
    = (if commit then chiaki_key_state_commit st pos else st, pos)"
  using assms by (rule key_pos_recover)

subsection \<open>The counter\<close>

fun le_value :: "bytes \<Rightarrow> nat" where
  "le_value [] = 0"
| "le_value (b # bs) = unat b + 256 * le_value bs"

lemma length_counter_add [simp]: "length (counter_add bs v) = length bs"
  by (induction bs v rule: counter_add.induct) (auto simp: Let_def)

lemma le_value_less: "le_value bs < 256 ^ length bs"
proof (induction bs)
  case (Cons b bs)
  have "unat b < 256" using unsigned_less [of b, where 'a = nat] by simp
  then show ?case using Cons by simp
qed simp

text \<open>\<open>counter_add\<close> is addition of a 64-bit number to a little-endian counter, modulo its
  size (2^128 for the 16-byte counters), for every number that leaves room for one more byte.\<close>

theorem counter_add_value:
  assumes "unat v \<le> 2 ^ 64 - 256"
  shows "length (counter_add base v) = length base
    \<and> le_value (counter_add base v) = (le_value base + unat v) mod 256 ^ length base"
  using assms
proof (induction base v rule: counter_add.induct)
  case (1 v)
  then show ?case by simp
next
  case (2 b bs v)
  let ?r = "ucast b + v" and ?v = "drop_bit 8 (ucast b + v) :: u64"
  have b: "unat b < 256" using unsigned_less [of b, where 'a = nat] by simp
  have r: "unat ?r = unat b + unat v"
    using b 2(2) by (simp add: unat_plus_if' word_norm)
  have m: "(0xff :: u64) = mask 8" by (simp add: mask_eq_exp_minus_1)
  have lo: "unat (ucast (?r AND 0xff) :: u8) = (unat b + unat v) mod 256"
    unfolding m r [symmetric]
    by (simp add: unsigned_ucast_eq take_bit_eq_mod unat_mod_distrib flip: take_bit_eq_mask)
  have hi: "unat ?v = (unat b + unat v) div 256"
    unfolding r [symmetric] by (simp add: drop_bit_eq_div unat_div_distrib)
  have v: "unat ?v \<le> 2 ^ 64 - 256" unfolding hi using b 2(2) by auto
  have tl: "le_value (if ?v = 0 then bs else counter_add bs ?v) = (le_value bs + unat ?v) mod 256 ^ length bs"
    using 2(1) [OF refl refl _ v] le_value_less [of bs] by auto
  have "(unat b + unat v) mod 256 + 256 * ((le_value bs + (unat b + unat v) div 256) mod 256 ^ length bs)
      = (unat b + 256 * le_value bs + unat v) mod (256 * 256 ^ length bs)"
    (is "?x mod 256 + 256 * ((?y + ?x div 256) mod ?m) = _")
  proof -
    have e: "unat b + 256 * le_value bs + unat v = ?x + 256 * ?y" by simp
    have d: "(?x + 256 * ?y) div 256 = ?y + ?x div 256" "(?x + 256 * ?y) mod 256 = ?x mod 256"
      by simp_all
    show ?thesis unfolding e mod_mult2_eq d by (rule add.commute)
  qed
  then show ?case using lo hi tl by (simp add: Let_def)
qed

subsection \<open>The key stream\<close>

definition ks_byte :: "gk_prims \<Rightarrow> bytes \<Rightarrow> bytes \<Rightarrow> nat \<Rightarrow> u8" where
  "ks_byte P key iv p = aes_block P key (counter_add iv (of_nat (p div 16))) ! (p mod 16)"

definition ks_range :: "gk_prims \<Rightarrow> gkcrypt \<Rightarrow> nat \<Rightarrow> nat \<Rightarrow> bytes" where
  "ks_range P gk p n = map (ks_byte P (gk_key_base gk) (gk_iv gk)) [p..<p + n]"

lemma length_ks_range [simp]: "length (ks_range P gk p n) = n"
  by (simp add: ks_range_def)

lemma ks_range_nth: "i < n \<Longrightarrow> ks_range P gk p n ! i = ks_byte P (gk_key_base gk) (gk_iv gk) (p + i)"
  by (simp add: ks_range_def)

lemma concat_blocks:
  assumes "\<And>i. length (g i) = 16" "16 dvd p"
  shows "concat (map (\<lambda>i. g (p div 16 + i)) [0..<m]) = map (\<lambda>q. g (q div 16) ! (q mod 16)) [p..<p + 16 * m]"
proof (induction m)
  case (Suc m)
  have blk: "map (\<lambda>q. g (q div 16) ! (q mod 16)) [p + 16 * m..<p + 16 * m + 16] = g (p div 16 + m)"
  proof (rule nth_equalityI)
    fix i
    assume "i < length (map (\<lambda>q. g (q div 16) ! (q mod 16)) [p + 16 * m..<p + 16 * m + 16])"
    then have i: "i < 16" by simp
    obtain k where "p = 16 * k" using assms(2) by blast
    then have "(p + 16 * m + i) div 16 = p div 16 + m" "(p + 16 * m + i) mod 16 = i"
      using i by presburger+
    then show "map (\<lambda>q. g (q div 16) ! (q mod 16)) [p + 16 * m..<p + 16 * m + 16] ! i = g (p div 16 + m) ! i"
      using i by simp
  qed (simp add: assms(1))
  have "[p..<p + 16 * Suc m] = [p..<p + 16 * m] @ [p + 16 * m..<p + 16 * m + 16]"
    by (subst upt_add_eq_append [symmetric]) (simp_all add: ac_simps)
  then show ?case using Suc blk by simp
qed simp

lemma gen_key_stream_range:
  assumes "prims_sizes P" "16 dvd unat key_pos" "16 dvd n"
  shows "chiaki_gkcrypt_gen_key_stream P gk key_pos n = ret_ok (ks_range P gk (unat key_pos) n)"
proof -
  let ?g = "\<lambda>i. aes_block P (gk_key_base gk) (counter_add (gk_iv gk) (of_nat i))"
  have c: "key_pos div 0x10 + of_nat i = of_nat (unat key_pos div 16 + i)" for i
  proof -
    have "of_nat (unat key_pos div 16) = (of_nat (unat (key_pos div 0x10)) :: u64)"
      by (simp only: unat_div_distrib unat_numeral) simp
    then show ?thesis by simp
  qed
  have "concat (map (\<lambda>i. ?g (unat key_pos div 16 + i)) [0..<n div 16])
      = map (\<lambda>q. ?g (q div 16) ! (q mod 16)) [unat key_pos..<unat key_pos + 16 * (n div 16)]"
    using assms(1,2) by (intro concat_blocks) (simp_all add: prims_sizes_def)
  moreover have "16 * (n div 16) = n" using assms(3) by simp
  ultimately show ?thesis
    using assms by (simp add: chiaki_gkcrypt_gen_key_stream_def CHIAKI_GKCRYPT_BLOCK_SIZE_def
        prims_sizes_def Let_def c ks_range_def ks_byte_def dvd_eq_mod_eq_0)
qed

subsection \<open>The ring buffer\<close>

definition gk_ring :: "gk_prims \<Rightarrow> gkcrypt \<Rightarrow> nat \<Rightarrow> bool" where
  "gk_ring P gk n \<longleftrightarrow> (\<exists>kb. gk_key_buf gk = Some kb \<and> length kb = unat (gk_key_buf_size gk)
     \<and> (\<forall>j < n. kb ! ((unat (gk_start_offset gk) + j) mod unat (gk_key_buf_size gk))
          = ks_byte P (gk_key_base gk) (gk_iv gk) (unat (gk_key_pos_min gk) + j)))"

definition gk_shape :: "gkcrypt \<Rightarrow> bool" where
  "gk_shape gk \<longleftrightarrow>
     0 < unat (gk_key_buf_size gk) \<and> unat (gk_key_buf_size gk) \<le> 2 ^ 62
     \<and> 4096 dvd unat (gk_key_buf_size gk)
     \<and> 4096 dvd unat (gk_start_offset gk) \<and> unat (gk_start_offset gk) < unat (gk_key_buf_size gk)
     \<and> 4096 dvd unat (gk_populated gk) \<and> unat (gk_populated gk) \<le> unat (gk_key_buf_size gk)
     \<and> 4096 dvd unat (gk_key_pos_min gk) \<and> unat (gk_key_pos_min gk) \<le> 2 ^ 63 + 4096
     \<and> unat (gk_last_key_pos gk) \<le> 2 ^ 63"

datatype gk_phase = Gk_Wait | Gk_Advanced | Gk_Written

definition gk_inv :: "gk_prims \<Rightarrow> gk_phase \<Rightarrow> gkcrypt \<Rightarrow> bool" where
  "gk_inv P ph gk \<longleftrightarrow> gk_shape gk
     \<and> gk_ring P gk (unat (gk_populated gk) + (if ph = Gk_Written then 4096 else 0))
     \<and> (ph \<noteq> Gk_Wait \<longrightarrow> unat (gk_populated gk) + 4096 \<le> unat (gk_key_buf_size gk))"

lemma gk_ring_mono: "gk_ring P gk n \<Longrightarrow> m \<le> n \<Longrightarrow> gk_ring P gk m"
  by (force simp: gk_ring_def)

lemma key_buf_copy_ring:
  assumes "length kb = sz" "off < sz" "n \<le> sz"
  shows "key_buf_copy kb sz off n = Some (map (\<lambda>i. kb ! ((off + i) mod sz)) [0..<n])"
proof (cases "sz < off + n")
  case True
  let ?e = "off + n - sz"
  have "take (n - ?e) (drop off kb) @ take ?e kb = map (\<lambda>i. kb ! ((off + i) mod sz)) [0..<n]"
  proof (rule nth_equalityI)
    fix i
    assume "i < length (take (n - ?e) (drop off kb) @ take ?e kb)"
    then have i: "i < n" using assms True by simp
    have l: "length (take (n - ?e) (drop off kb)) = n - ?e" using assms True by simp
    show "(take (n - ?e) (drop off kb) @ take ?e kb) ! i = map (\<lambda>i. kb ! ((off + i) mod sz)) [0..<n] ! i"
    proof (cases "i < n - ?e")
      case True
      then have "off + i < sz" using assms by linarith
      then show ?thesis using True i assms l unfolding nth_append l by simp
    next
      case False
      then have "sz \<le> off + i" "off + i - sz < sz" using i assms \<open>sz < off + n\<close> by linarith+
      then have m: "(off + i) mod sz = off + i - sz"
        by (metis mod_if le_mod_geq mod_less)
      have s: "i - (n - ?e) = off + i - sz" "off + i - sz < ?e"
        using False i assms \<open>sz < off + n\<close> by linarith+
      show ?thesis using False i m s unfolding nth_append l by simp
    qed
  qed (use assms True in simp)
  then show ?thesis using True assms by (simp add: key_buf_copy_def Let_def)
next
  case False
  then have "take n (drop off kb) = map (\<lambda>i. kb ! ((off + i) mod sz)) [0..<n]"
    using assms by (intro nth_equalityI) simp_all
  then show ?thesis using False assms by (simp add: key_buf_copy_def)
qed

definition gk_same_keys :: "gkcrypt \<Rightarrow> gkcrypt \<Rightarrow> bool" where
  "gk_same_keys gk gk' \<longleftrightarrow> gk_key_base gk' = gk_key_base gk \<and> gk_iv gk' = gk_iv gk"

lemma ks_range_same: "gk_same_keys gk gk' \<Longrightarrow> ks_range P gk' = ks_range P gk"
  by (simp add: fun_eq_iff ks_range_def gk_same_keys_def)

lemma get_key_stream_ok:
  assumes inv: "gk_inv P ph gk" and P: "prims_sizes P"
    and kp: "16 dvd unat key_pos" "16 dvd n" "unat key_pos + n \<le> 2 ^ 63"
  shows "\<exists>gk'. chiaki_gkcrypt_get_key_stream P gk key_pos n = ret_ok (gk', ks_range P gk (unat key_pos) n)
    \<and> gk_inv P ph gk' \<and> gk_same_keys gk gk'"
proof -
  obtain kb where kb: "gk_key_buf gk = Some kb" "length kb = unat (gk_key_buf_size gk)"
    "\<And>j. j < unat (gk_populated gk) \<Longrightarrow> kb ! ((unat (gk_start_offset gk) + j) mod unat (gk_key_buf_size gk))
          = ks_byte P (gk_key_base gk) (gk_iv gk) (unat (gk_key_pos_min gk) + j)"
    using inv by (auto simp: gk_inv_def gk_ring_def)
  let ?S = "unat (gk_key_buf_size gk)" and ?min = "unat (gk_key_pos_min gk)"
    and ?pop = "unat (gk_populated gk)" and ?st = "unat (gk_start_offset gk)"
  have sh: "?S \<le> 2 ^ 62" "?min \<le> 2 ^ 63 + 4096" "?pop \<le> ?S" "?st < ?S"
    using inv by (auto simp: gk_inv_def gk_shape_def)
  let ?fin = "key_pos + of_nat n"
  define gk1 where "gk1 = (if gk_last_key_pos gk < ?fin then gk\<lparr>gk_last_key_pos := ?fin\<rparr> else gk)"
  have un: "unat (of_nat n :: u64) = n" using kp(3) by (simp add: unat_of_nat)
  then have fin: "unat ?fin = unat key_pos + n" using kp(3) by (simp add: unat_plus_if')
  have same: "gk_same_keys gk gk1" by (simp add: gk1_def gk_same_keys_def)
  have inv1: "gk_inv P ph gk1"
    using inv fin kp(3) by (auto simp: gk1_def gk_inv_def gk_shape_def gk_ring_def)
  have f1: "gk_key_pos_min gk1 = gk_key_pos_min gk" "gk_populated gk1 = gk_populated gk"
    "gk_start_offset gk1 = gk_start_offset gk" "gk_key_buf_size gk1 = gk_key_buf_size gk"
    by (simp_all add: gk1_def)
  have gen: "chiaki_gkcrypt_gen_key_stream P gk1 key_pos n = ret_ok (ks_range P gk (unat key_pos) n)"
    using gen_key_stream_range [OF P kp(1,2)] ks_range_same [OF same] by simp
  show ?thesis
  proof (cases "key_pos < gk_key_pos_min gk \<or> gk_key_pos_min gk + gk_populated gk \<le> ?fin")
    case True
    then have "chiaki_gkcrypt_get_key_stream P gk key_pos n = ret_ok (gk1, ks_range P gk (unat key_pos) n)"
      using kb(1) gen by (simp add: chiaki_gkcrypt_get_key_stream_def Let_def f1 flip: gk1_def)
    then show ?thesis using inv1 same by blast
  next
    case False
    let ?off = "(key_pos - gk_key_pos_min gk + gk_start_offset gk) mod gk_key_buf_size gk"
    have mp: "unat (gk_key_pos_min gk + gk_populated gk) = ?min + ?pop"
      using sh by (simp add: unat_plus_if')
    have in_buf: "?min \<le> unat key_pos" "unat key_pos + n < ?min + ?pop"
      using False fin mp by (simp_all add: word_less_nat_alt word_le_nat_alt)
    have "unat (key_pos - gk_key_pos_min gk) = unat key_pos - ?min"
      using in_buf(1) by (simp add: unat_sub_if')
    then have "unat (key_pos - gk_key_pos_min gk + gk_start_offset gk) = unat key_pos - ?min + ?st"
      using in_buf sh by (simp add: unat_plus_if')
    then have off: "unat ?off = (unat key_pos - ?min + ?st) mod ?S" by (simp add: unat_mod_distrib)
    have "key_buf_copy kb ?S (unat ?off) n = Some (map (\<lambda>i. kb ! ((unat ?off + i) mod ?S)) [0..<n])"
      using kb(2) sh in_buf off by (intro key_buf_copy_ring) auto
    also have "map (\<lambda>i. kb ! ((unat ?off + i) mod ?S)) [0..<n] = ks_range P gk (unat key_pos) n"
    proof (rule nth_equalityI)
      fix i
      assume "i < length (map (\<lambda>i. kb ! ((unat ?off + i) mod ?S)) [0..<n])"
      then have i: "i < n" by simp
      let ?j = "unat key_pos - ?min + i"
      have "(unat ?off + i) mod ?S = (?st + ?j) mod ?S"
        unfolding off by (simp add: mod_simps ac_simps)
      moreover have "?j < ?pop" "?min + ?j = unat key_pos + i" using in_buf i by auto
      ultimately show "map (\<lambda>i. kb ! ((unat ?off + i) mod ?S)) [0..<n] ! i
          = ks_range P gk (unat key_pos) n ! i"
        using kb(3) [of ?j] i by (simp add: ks_range_def)
    qed simp
    finally have "chiaki_gkcrypt_get_key_stream P gk key_pos n = ret_ok (gk1, ks_range P gk (unat key_pos) n)"
      using kb(1) False by (simp add: chiaki_gkcrypt_get_key_stream_def Let_def f1 flip: gk1_def)
    then show ?thesis using inv1 same by blast
  qed
qed

lemma dvd_room: "(4096 :: nat) dvd a \<Longrightarrow> 4096 dvd b \<Longrightarrow> a < b \<Longrightarrow> a + 4096 \<le> b"
  by (elim dvdE) auto

lemma chunk_size: "unat KEY_BUF_CHUNK_SIZE = 4096"
  by (simp add: KEY_BUF_CHUNK_SIZE_def)

lemma thread_advance_ok:
  assumes inv: "gk_inv P Gk_Wait gk" and pred: "key_buf_mutex_pred gk" "\<not> gk_thread_stop gk"
  shows "gk_inv P Gk_Advanced (gkcrypt_thread_advance gk) \<and> gk_same_keys gk (gkcrypt_thread_advance gk)"
proof -
  let ?S = "unat (gk_key_buf_size gk)" and ?min = "unat (gk_key_pos_min gk)"
    and ?pop = "unat (gk_populated gk)" and ?st = "unat (gk_start_offset gk)"
    and ?last = "unat (gk_last_key_pos gk)"
  obtain kb where kb: "gk_key_buf gk = Some kb" "length kb = ?S"
    "\<And>j. j < ?pop \<Longrightarrow> kb ! ((?st + j) mod ?S)
          = ks_byte P (gk_key_base gk) (gk_iv gk) (?min + j)"
    using inv by (auto simp: gk_inv_def gk_ring_def)
  have sh: "0 < ?S" "?S \<le> 2 ^ 62" "4096 dvd ?S" "4096 dvd ?st" "?st < ?S" "4096 dvd ?pop" "?pop \<le> ?S"
    "4096 dvd ?min" "?min \<le> 2 ^ 63 + 4096" "?last \<le> 2 ^ 63"
    using inv by (auto simp: gk_inv_def gk_shape_def)
  have S: "4096 \<le> ?S" using sh(1,3) by (rule dvd_imp_le [rotated])
  have mp: "unat (gk_key_pos_min gk + gk_populated gk) = ?min + ?pop"
    using sh by (simp add: unat_plus_if')
  consider (skip) "gk_key_pos_min gk + gk_populated gk < gk_last_key_pos gk"
    | (shift) "\<not> gk_key_pos_min gk + gk_populated gk < gk_last_key_pos gk"
        "gk_populated gk = gk_key_buf_size gk"
    | (room) "\<not> gk_key_pos_min gk + gk_populated gk < gk_last_key_pos gk"
        "gk_populated gk \<noteq> gk_key_buf_size gk"
    by blast
  then show ?thesis
  proof cases
    case skip
    have "?last div 4096 * 4096 \<le> ?last" by simp
    then have "unat ((gk_last_key_pos gk div KEY_BUF_CHUNK_SIZE) * KEY_BUF_CHUNK_SIZE) = ?last div 4096 * 4096"
      using sh(10) by (simp add: unat_mult_lem unat_div_distrib KEY_BUF_CHUNK_SIZE_def
          unat_word_ariths)
    then show ?thesis
      using skip sh S kb \<open>?last div 4096 * 4096 \<le> ?last\<close>
      by (auto simp: gkcrypt_thread_advance_def gk_inv_def gk_shape_def gk_ring_def gk_same_keys_def)
  next
    case shift
    then have pS: "?pop = ?S" by simp
    have "gk_key_pos_min gk + gk_populated gk div 2 < gk_last_key_pos gk"
      using pred shift by (auto simp: key_buf_mutex_pred_def gkcrypt_key_buf_should_generate_def)
    moreover have h: "unat (gk_populated gk div 2) = ?pop div 2"
      by (simp only: unat_div_distrib unat_numeral) simp
    have "unat (gk_key_pos_min gk + gk_populated gk div 2) = ?min + ?pop div 2"
      unfolding unat_plus_if' h using sh by (simp, linarith)
    ultimately have "?min + ?pop div 2 < ?last"
      by (simp add: word_less_nat_alt)
    then have mn: "unat (gk_key_pos_min gk + KEY_BUF_CHUNK_SIZE) = ?min + 4096" "?min + 4096 \<le> 2 ^ 63 + 4096"
      using sh by (auto simp: unat_plus_if' chunk_size)
    have pp: "unat (gk_populated gk - KEY_BUF_CHUNK_SIZE) = ?S - 4096"
      using S pS by (simp add: unat_sub_if' chunk_size)
    have so: "unat ((gk_start_offset gk + KEY_BUF_CHUNK_SIZE) mod gk_key_buf_size gk) = (?st + 4096) mod ?S"
      using sh by (simp add: unat_mod_distrib unat_plus_if' chunk_size)
    have "kb ! (((?st + 4096) mod ?S + j) mod ?S)
        = ks_byte P (gk_key_base gk) (gk_iv gk) (?min + 4096 + j)" if "j < ?S - 4096" for j
      using kb(3) [of "4096 + j"] that pS by (simp add: mod_simps ac_simps)
    moreover have "4096 dvd (?st + 4096) mod ?S" using sh by (simp add: dvd_mod)
    ultimately show ?thesis
      using shift sh S kb(1,2) pS mn pp so
      by (auto simp: gkcrypt_thread_advance_def gk_inv_def gk_shape_def gk_ring_def gk_same_keys_def
          dvd_diff_nat)
  next
    case room
    then have "?pop < ?S" using sh(7) by (simp add: word_unat_eq_iff le_neq_implies_less)
    then have "?pop + 4096 \<le> ?S" using sh by (intro dvd_room)
    then show ?thesis
      using room inv by (auto simp: gkcrypt_thread_advance_def gk_inv_def gk_same_keys_def)
  qed
qed

lemma chunk_mod_disjoint:
  fixes st i j S pop :: nat
  assumes "j < pop" "pop + 4096 \<le> S" "i < 4096"
  shows "(st + j) mod S \<noteq> (st + pop + i) mod S"
proof
  assume "(st + j) mod S = (st + pop + i) mod S"
  then have "S dvd (st + pop + i) - (st + j)" using mod_eq_dvd_iff_nat [of "st + j" "st + pop + i" S] assms
    by (metis add.assoc add_le_cancel_left le_add1 less_imp_le_nat order_trans)
  moreover have "0 < (st + pop + i) - (st + j)" "(st + pop + i) - (st + j) < S" using assms by auto
  ultimately show False by (auto dest: dvd_imp_le)
qed

lemma chunk_room:
  fixes st S pop :: nat
  assumes "4096 dvd st" "4096 dvd pop" "4096 dvd S" "0 < S"
  shows "(st + pop) mod S + 4096 \<le> S"
  using assms by (intro dvd_room) (auto simp: dvd_mod)

lemma chunk_mod_split:
  fixes a S i :: nat
  assumes "a mod S + 4096 \<le> S" "i < 4096"
  shows "(a + i) mod S = a mod S + i"
  using assms by (simp add: mod_add_left_eq [of a S i, symmetric] del: mod_add_left_eq)

lemma nth_splice:
  assumes "o1 + length ks \<le> length kb" "q < length kb"
  shows "(take o1 kb @ ks @ drop (o1 + length ks) kb) ! q
    = (if o1 \<le> q \<and> q < o1 + length ks then ks ! (q - o1) else kb ! q)"
  using assms by (auto simp: nth_append min_def)

lemma write_chunk_ok:
  assumes inv: "gk_inv P Gk_Advanced gk" and P: "prims_sizes P"
  shows "\<exists>gk'. gkcrypt_write_chunk P gk = ret_ok gk' \<and> gk_inv P Gk_Written gk' \<and> gk_same_keys gk gk'"
proof -
  let ?S = "unat (gk_key_buf_size gk)" and ?min = "unat (gk_key_pos_min gk)"
    and ?pop = "unat (gk_populated gk)" and ?st = "unat (gk_start_offset gk)"
    and ?byte = "ks_byte P (gk_key_base gk) (gk_iv gk)"
  obtain kb where kb: "gk_key_buf gk = Some kb" "length kb = ?S"
    "\<And>j. j < ?pop \<Longrightarrow> kb ! ((?st + j) mod ?S) = ?byte (?min + j)"
    using inv by (auto simp: gk_inv_def gk_ring_def)
  have sh: "0 < ?S" "?S \<le> 2 ^ 62" "4096 dvd ?S" "4096 dvd ?st" "?st < ?S" "4096 dvd ?pop" "?pop + 4096 \<le> ?S"
    "4096 dvd ?min" "?min \<le> 2 ^ 63 + 4096"
    using inv by (auto simp: gk_inv_def gk_shape_def)
  let ?off = "unat ((gk_start_offset gk + gk_populated gk) mod gk_key_buf_size gk)"
  have off: "?off = (?st + ?pop) mod ?S" using sh by (simp add: unat_mod_distrib unat_plus_if')
  have pos: "unat (gk_key_pos_min gk + gk_populated gk) = ?min + ?pop"
    using sh by (simp add: unat_plus_if')
  have d16: "(16 :: nat) dvd 4096" by simp
  have gen: "chiaki_gkcrypt_gen_key_stream P gk (gk_key_pos_min gk + gk_populated gk) 4096
      = ret_ok (ks_range P gk (?min + ?pop) 4096)"
    unfolding pos [symmetric] using sh dvd_trans [OF d16]
    by (intro gen_key_stream_range P) (auto simp: pos)
  have room: "(?st + ?pop) mod ?S + 4096 \<le> ?S" using sh by (intro chunk_room)
  define kb' where "kb' = take ?off kb @ ks_range P gk (?min + ?pop) 4096 @ drop (?off + 4096) kb"
  have run: "gkcrypt_write_chunk P gk = ret_ok (gk\<lparr>gk_key_buf := Some kb'\<rparr>)"
    using sh kb(1,2) room by (simp add: gkcrypt_write_chunk_def chunk_size gen Let_def kb'_def off)
  have nth: "kb' ! q = (if ?off \<le> q \<and> q < ?off + 4096 then ?byte (?min + ?pop + (q - ?off)) else kb ! q)"
    if "q < ?S" for q
  proof -
    have "?off + length (ks_range P gk (?min + ?pop) 4096) \<le> length kb" using room kb(2) off by simp
    from nth_splice [OF this, of q] that kb(2)
    have "kb' ! q = (if ?off \<le> q \<and> q < ?off + 4096 then ks_range P gk (?min + ?pop) 4096 ! (q - ?off) else kb ! q)"
      unfolding kb'_def length_ks_range by metis
    then show ?thesis by (auto simp: ks_range_nth less_diff_conv2)
  qed
  have "kb' ! ((?st + j) mod ?S) = ?byte (?min + j)" if j: "j < ?pop + 4096" for j
  proof (cases "j < ?pop")
    case True
    let ?q = "(?st + j) mod ?S"
    have "\<not> (?off \<le> ?q \<and> ?q < ?off + 4096)"
    proof
      assume a: "?off \<le> ?q \<and> ?q < ?off + 4096"
      then have "(?st + ?pop + (?q - ?off)) mod ?S = ?q"
        using room off by (subst chunk_mod_split) auto
      moreover have "?q - ?off < 4096" using a by auto
      ultimately show False using chunk_mod_disjoint [OF True sh(7)] by metis
    qed
    then have "kb' ! ?q = kb ! ?q" using nth [of ?q] sh(1) by (simp only: mod_less_divisor if_False)
    then show ?thesis using kb(3) [OF True] by simp
  next
    case False
    then have i: "j - ?pop < 4096" "?st + j = ?st + ?pop + (j - ?pop)" using j by auto
    have "(?st + j) mod ?S = ?off + (j - ?pop)"
      unfolding i(2) off by (rule chunk_mod_split [OF room i(1)])
    moreover have "?off + (j - ?pop) < ?S" "?off + (j - ?pop) - ?off = j - ?pop" using i(1) room off by linarith+
    ultimately have "kb' ! ((?st + j) mod ?S) = ?byte (?min + ?pop + (j - ?pop))"
      using nth [of "?off + (j - ?pop)"] i(1) by (simp only: le_add1 add_less_cancel_left if_True simp_thms)
    then show ?thesis using False by simp
  qed
  moreover have "length kb' = ?S" using kb(2) room off by (simp add: kb'_def)
  ultimately have "gk_inv P Gk_Written (gk\<lparr>gk_key_buf := Some kb'\<rparr>)"
    using inv by (auto simp: gk_inv_def gk_shape_def gk_ring_def)
  then show ?thesis using run by (simp add: gk_same_keys_def)
qed

lemma publish_chunk_ok:
  assumes "gk_inv P Gk_Written gk"
  shows "gk_inv P Gk_Wait (gkcrypt_publish_chunk gk) \<and> gk_same_keys gk (gkcrypt_publish_chunk gk)"
proof -
  have sh: "unat (gk_populated gk) + 4096 \<le> unat (gk_key_buf_size gk)" "unat (gk_key_buf_size gk) \<le> 2 ^ 62"
    "4096 dvd unat (gk_populated gk)"
    using assms by (auto simp: gk_inv_def gk_shape_def)
  have "unat (gk_populated gk + KEY_BUF_CHUNK_SIZE) = unat (gk_populated gk) + 4096"
    using sh by (simp add: unat_plus_if' chunk_size)
  then show ?thesis
    using assms sh by (auto simp: gkcrypt_publish_chunk_def gk_inv_def gk_shape_def gk_ring_def gk_same_keys_def)
qed

subsection \<open>Interleavings with the thread\<close>

text \<open>A request may come at any time the thread does not hold the lock: while it waits, and while it
  writes the chunk it has made room for.  Requests stay below 2^63.\<close>

inductive gk_step :: "gk_prims \<Rightarrow> gkcrypt \<times> gk_phase \<Rightarrow> gkcrypt \<times> gk_phase \<Rightarrow> bool" for P where
  gk_get: "chiaki_gkcrypt_get_key_stream P gk key_pos n = ret_ok (gk', ks) \<Longrightarrow> 16 dvd unat key_pos \<Longrightarrow>
     16 dvd n \<Longrightarrow> unat key_pos + n \<le> 2 ^ 63 \<Longrightarrow> gk_step P (gk, ph) (gk', ph)"
| gk_wake: "key_buf_mutex_pred gk \<Longrightarrow> \<not> gk_thread_stop gk \<Longrightarrow>
     gk_step P (gk, Gk_Wait) (gkcrypt_thread_advance gk, Gk_Advanced)"
| gk_write: "gkcrypt_write_chunk P gk = ret_ok gk' \<Longrightarrow> gk_step P (gk, Gk_Advanced) (gk', Gk_Written)"
| gk_publish: "gk_step P (gk, Gk_Written) (gkcrypt_publish_chunk gk, Gk_Wait)"

inductive gk_reach :: "gk_prims \<Rightarrow> gkcrypt \<Rightarrow> gkcrypt \<times> gk_phase \<Rightarrow> bool" for P gk0 where
  gk_reach_start: "gk_reach P gk0 (gk0, Gk_Wait)"
| gk_reach_step: "gk_reach P gk0 s \<Longrightarrow> gk_step P s s' \<Longrightarrow> gk_reach P gk0 s'"

inductive_cases gk_stepE: "gk_step P s s'"

lemma gk_same_keys_refl [simp]: "gk_same_keys gk gk"
  by (simp add: gk_same_keys_def)

lemma gk_same_keys_trans: "gk_same_keys a b \<Longrightarrow> gk_same_keys b c \<Longrightarrow> gk_same_keys a c"
  by (simp add: gk_same_keys_def)

lemma gk_step_inv:
  assumes "gk_step P s s'" "prims_sizes P" "gk_inv P (snd s) (fst s)"
  shows "gk_inv P (snd s') (fst s') \<and> gk_same_keys (fst s) (fst s')"
  using assms(1)
proof cases
  case (gk_get gk key_pos n gk' ks ph)
  then show ?thesis using get_key_stream_ok [OF _ assms(2), of ph gk key_pos n] assms(3) by auto
next
  case (gk_write gk gk')
  then show ?thesis using write_chunk_ok [OF _ assms(2), of gk] assms(3) by auto
qed (use assms(3) thread_advance_ok publish_chunk_ok in auto)

lemma gk_reach_inv:
  assumes "gk_reach P gk0 s" "prims_sizes P" "gk_inv P Gk_Wait gk0"
  shows "gk_inv P (snd s) (fst s) \<and> gk_same_keys gk0 (fst s)"
  using assms
proof (induction rule: gk_reach.induct)
  case (gk_reach_step s s')
  then show ?case using gk_step_inv gk_same_keys_trans by blast
qed simp

lemma init_inv:
  assumes "chiaki_gkcrypt_init P (Some kb) m c t chunks index hk secret = ret_ok gk0"
    "length kb = unat (chunks * KEY_BUF_CHUNK_SIZE)" "0 < unat chunks" "unat chunks \<le> 2 ^ 50"
  shows "gk_inv P Gk_Wait gk0"
proof -
  have n: "unat (chunks * KEY_BUF_CHUNK_SIZE) = unat chunks * 4096"
    using assms(4) by (simp add: unat_mult_lem [THEN iffD1] KEY_BUF_CHUNK_SIZE_def)
  then have "chunks * KEY_BUF_CHUNK_SIZE \<noteq> 0" using assms(3) by (auto simp: word_unat_eq_iff)
  then have "gk_key_buf gk0 = Some kb \<and> gk_key_buf_size gk0 = chunks * KEY_BUF_CHUNK_SIZE
      \<and> gk_populated gk0 = 0 \<and> gk_key_pos_min gk0 = 0 \<and> gk_start_offset gk0 = 0 \<and> gk_last_key_pos gk0 = 0"
    using assms(1) by (auto simp: chiaki_gkcrypt_init_def Let_def buf_simps split: if_splits)
  then show ?thesis using assms(2-4) n by (auto simp: gk_inv_def gk_shape_def gk_ring_def)
qed

text \<open>C9.  Transparency of the key buffer: however requests and the thread's steps are interleaved
  from initialisation on, a request for block-aligned key stream returns exactly the blocks of the
  reference counter-mode stream of the keys derived at initialisation, whether they come from the
  ring buffer (wrapping or not) or are generated on the spot.\<close>

theorem gk_key_stream_transparent:
  assumes "chiaki_gkcrypt_init P (Some kb) m c t chunks index hk secret = ret_ok gk0"
    and "length kb = unat (chunks * KEY_BUF_CHUNK_SIZE)" "0 < unat chunks" "unat chunks \<le> 2 ^ 50"
    and "prims_sizes P" "gk_reach P gk0 (gk, ph)"
    and "16 dvd unat key_pos" "16 dvd n" "unat key_pos + n \<le> 2 ^ 63"
  shows "\<exists>gk'. chiaki_gkcrypt_get_key_stream P gk key_pos n = ret_ok (gk', ks_range P gk0 (unat key_pos) n)"
proof -
  have inv: "gk_inv P ph gk" "gk_same_keys gk0 gk"
    using gk_reach_inv [OF assms(6,5) init_inv [OF assms(1-4)]] by simp_all
  show ?thesis
    using get_key_stream_ok [OF inv(1) assms(5,7-9)] unfolding ks_range_same [OF inv(2)] by blast
qed

text \<open>The thread never fails and never leaves its buffer: in every reachable state in which it
  is about to generate, the assertion on the room left holds, the chunk lands inside the buffer, and
  the write succeeds.\<close>

theorem gk_thread_never_fails:
  assumes "chiaki_gkcrypt_init P (Some kb) m c t chunks index hk secret = ret_ok gk0"
    and "length kb = unat (chunks * KEY_BUF_CHUNK_SIZE)" "0 < unat chunks" "unat chunks \<le> 2 ^ 50"
    and "prims_sizes P" "gk_reach P gk0 (gk, Gk_Advanced)"
  shows "\<exists>gk'. gkcrypt_write_chunk P gk = ret_ok gk'"
proof -
  have "gk_inv P Gk_Advanced gk" using gk_reach_inv [OF assms(6,5) init_inv [OF assms(1-4)]] by simp
  then show ?thesis using write_chunk_ok [OF _ assms(5)] by blast
qed

subsection \<open>The thread becomes quiet\<close>

text \<open>The rounds of the thread when no request comes in between: it sleeps when its predicate is
  false; \<open>n\<close> bounds the rounds.\<close>

fun gk_rounds :: "gk_prims \<Rightarrow> nat \<Rightarrow> gkcrypt \<Rightarrow> gkcrypt option" where
  "gk_rounds P 0 gk = Some gk"
| "gk_rounds P (Suc n) gk =
     (if key_buf_mutex_pred gk
      then (case gkcrypt_thread_round P CHIAKI_ERR_SUCCESS gk of
              None \<Rightarrow> None | Some (go, gk') \<Rightarrow> if go then gk_rounds P n gk' else Some gk')
      else Some gk)"

definition gk_behind :: "gkcrypt \<Rightarrow> nat" where
  "gk_behind gk = (if unat (gk_key_pos_min gk) + unat (gk_populated gk) < unat (gk_last_key_pos gk) then 1 else 0)"

definition gk_work :: "gkcrypt \<Rightarrow> nat" where
  "gk_work gk = (unat (gk_key_buf_size gk) - unat (gk_populated gk))
     + (unat (gk_last_key_pos gk) - unat (gk_key_pos_min gk))"

lemma chunk_floor: "(n :: nat) < n div 4096 * 4096 + 4096"
  using div_mult_mod_eq [of n 4096] mod_less_divisor [of 4096 n] by linarith

lemma advance_progress:
  assumes inv: "gk_inv P Gk_Wait gk" and pred: "key_buf_mutex_pred gk" "\<not> gk_thread_stop gk"
    and gk': "gk' = gkcrypt_publish_chunk (gkcrypt_thread_advance gk)"
  shows "gk_behind gk' < gk_behind gk \<or> gk_behind gk' = gk_behind gk \<and> gk_work gk' < gk_work gk"
proof -
  let ?S = "unat (gk_key_buf_size gk)" and ?min = "unat (gk_key_pos_min gk)"
    and ?pop = "unat (gk_populated gk)" and ?last = "unat (gk_last_key_pos gk)"
  have sh: "0 < ?S" "?S \<le> 2 ^ 62" "4096 dvd ?S" "4096 dvd ?pop" "?pop \<le> ?S"
    "?min \<le> 2 ^ 63 + 4096" "?last \<le> 2 ^ 63"
    using inv by (auto simp: gk_inv_def gk_shape_def)
  have mp: "unat (gk_key_pos_min gk + gk_populated gk) = ?min + ?pop"
    using sh by (simp add: unat_plus_if')
  have h: "unat (gk_populated gk div 2) = ?pop div 2"
    by (simp only: unat_div_distrib unat_numeral) simp
  have mh: "unat (gk_key_pos_min gk + gk_populated gk div 2) = ?min + ?pop div 2"
    unfolding unat_plus_if' h using sh by (simp, linarith)
  have S: "4096 \<le> ?S" using sh(1,3) by (rule dvd_imp_le [rotated])
  consider (skip) "?min + ?pop < ?last" | (shift) "\<not> ?min + ?pop < ?last" "?pop = ?S"
    | (room) "\<not> ?min + ?pop < ?last" "?pop \<noteq> ?S" by blast
  then show ?thesis
  proof cases
    case skip
    have "?last div 4096 * 4096 \<le> ?last" by simp
    then have "unat ((gk_last_key_pos gk div KEY_BUF_CHUNK_SIZE) * KEY_BUF_CHUNK_SIZE) = ?last div 4096 * 4096"
      using sh by (simp add: unat_div_distrib KEY_BUF_CHUNK_SIZE_def unat_word_ariths)
    then have "gk_behind gk' = 0"
      using skip mp chunk_floor [of ?last]
      by (simp add: gk' gkcrypt_publish_chunk_def gkcrypt_thread_advance_def gk_behind_def
          word_less_nat_alt chunk_size)
    then show ?thesis using skip by (simp add: gk_behind_def)
  next
    case shift
    have e: "gk_populated gk = gk_key_buf_size gk" using shift(2) by (rule word_unat_eq_iff [THEN iffD2])
    have "?min + ?pop div 2 < ?last"
      using pred e mh by (auto simp: key_buf_mutex_pred_def gkcrypt_key_buf_should_generate_def word_less_nat_alt)
    moreover have "unat (gk_key_pos_min gk + KEY_BUF_CHUNK_SIZE) = ?min + 4096"
      using sh by (simp add: unat_plus_if' chunk_size)
    moreover have "gk_populated gk - KEY_BUF_CHUNK_SIZE + KEY_BUF_CHUNK_SIZE = gk_populated gk" by simp
    ultimately show ?thesis
      using shift S mp e
      by (simp add: gk' gkcrypt_publish_chunk_def gkcrypt_thread_advance_def gk_behind_def gk_work_def
          word_less_nat_alt)
  next
    case room
    then have "?pop + 4096 \<le> ?S" using sh by (intro dvd_room) auto
    moreover have ne: "gk_populated gk \<noteq> gk_key_buf_size gk" using room(2) by auto
    moreover have "unat (gk_populated gk + KEY_BUF_CHUNK_SIZE) = ?pop + 4096"
      using calculation(1) sh by (simp add: unat_plus_if' chunk_size)
    ultimately show ?thesis
      using room mp
      by (simp add: gk' gkcrypt_publish_chunk_def gkcrypt_thread_advance_def gk_behind_def gk_work_def
          word_less_nat_alt)
  qed
qed

lemma write_chunk_only_buffer:
  "gkcrypt_write_chunk P gk = ret_ok gk' \<Longrightarrow> \<exists>kb. gk' = gk\<lparr>gk_key_buf := kb\<rparr>"
  by (auto simp: gkcrypt_write_chunk_def buf_simps Let_def split: option.splits if_splits)

lemma thread_round_ok:
  assumes inv: "gk_inv P Gk_Wait gk" and P: "prims_sizes P"
    and pred: "key_buf_mutex_pred gk" "\<not> gk_thread_stop gk"
  shows "\<exists>gk'. gkcrypt_thread_round P CHIAKI_ERR_SUCCESS gk = Some (True, gk') \<and> gk_inv P Gk_Wait gk'
    \<and> \<not> gk_thread_stop gk' \<and> gk_last_key_pos gk' = gk_last_key_pos gk \<and> gk_same_keys gk gk'
    \<and> (gk_behind gk' < gk_behind gk \<or> gk_behind gk' = gk_behind gk \<and> gk_work gk' < gk_work gk)"
proof -
  note adv = thread_advance_ok [OF inv pred]
  obtain w where w: "gkcrypt_write_chunk P (gkcrypt_thread_advance gk) = ret_ok w" "gk_inv P Gk_Written w"
    "gk_same_keys (gkcrypt_thread_advance gk) w"
    using write_chunk_ok [OF _ P] adv by blast
  obtain kb where kb: "w = gkcrypt_thread_advance gk\<lparr>gk_key_buf := kb\<rparr>"
    using write_chunk_only_buffer [OF w(1)] by blast
  let ?n = "gkcrypt_publish_chunk w" and ?m = "gkcrypt_publish_chunk (gkcrypt_thread_advance gk)"
  have "gk_behind ?n = gk_behind ?m" "gk_work ?n = gk_work ?m"
    by (simp_all add: kb gkcrypt_publish_chunk_def gk_behind_def gk_work_def)
  moreover have "\<not> gk_thread_stop ?n" "gk_last_key_pos ?n = gk_last_key_pos gk"
    using pred(2) by (simp_all add: kb gkcrypt_publish_chunk_def gkcrypt_thread_advance_def)
  moreover have "gkcrypt_thread_round P CHIAKI_ERR_SUCCESS gk = Some (True, ?n)"
    using w(1) pred(2) by (simp add: gkcrypt_thread_round_def gkcrypt_generate_next_chunk_def)
  ultimately show ?thesis
    using advance_progress [OF inv pred refl] publish_chunk_ok [OF w(2)] adv w(3) gk_same_keys_trans
    by metis
qed

text \<open>C10.  The thread catches up: left alone after any reachable history, it stops generating after
  finitely many rounds, none of which fails, and then its buffer is full, holds the reference stream
  and reaches at least half its size beyond the last position requested.\<close>

theorem gk_thread_catches_up:
  assumes "gk_inv P Gk_Wait gk" "prims_sizes P" "\<not> gk_thread_stop gk"
  shows "\<exists>n gk'. gk_rounds P n gk = Some gk' \<and> gk_inv P Gk_Wait gk'
    \<and> gk_populated gk' = gk_key_buf_size gk'
    \<and> gk_last_key_pos gk' = gk_last_key_pos gk
    \<and> gk_last_key_pos gk \<le> gk_key_pos_min gk' + gk_populated gk' div 2"
  using assms
proof (induction "(gk_behind gk, gk_work gk)" arbitrary: gk rule: wf_induct_rule [OF wf_lex_prod [OF wf_less wf_less]])
  case (1 gk)
  show ?case
  proof (cases "key_buf_mutex_pred gk")
    case True
    obtain gk' where s: "gkcrypt_thread_round P CHIAKI_ERR_SUCCESS gk = Some (True, gk')" "gk_inv P Gk_Wait gk'"
      "\<not> gk_thread_stop gk'" "gk_last_key_pos gk' = gk_last_key_pos gk"
      "gk_behind gk' < gk_behind gk \<or> gk_behind gk' = gk_behind gk \<and> gk_work gk' < gk_work gk"
      using thread_round_ok [OF 1(2,3) True 1(4)] by blast
    then obtain n fin where r: "gk_rounds P n gk' = Some fin" and f: "gk_inv P Gk_Wait fin"
        "gk_populated fin = gk_key_buf_size fin" "gk_last_key_pos fin = gk_last_key_pos gk"
        "gk_last_key_pos gk \<le> gk_key_pos_min fin + gk_populated fin div 2"
      using 1(1) [OF _ s(2) 1(3) s(3)] by auto
    have "gk_rounds P (Suc n) gk = Some fin" using s(1) r True by simp
    with f show ?thesis by blast
  next
    case False
    then have "gk_populated gk = gk_key_buf_size gk" "gk_last_key_pos gk \<le> gk_key_pos_min gk + gk_populated gk div 2"
      using 1(2) by (auto simp: key_buf_mutex_pred_def gkcrypt_key_buf_should_generate_def gk_inv_def
          gk_shape_def not_less word_le_nat_alt intro: antisym)
    then show ?thesis using 1(2) by (intro exI [of _ 0] exI [of _ gk]) simp
  qed
qed

subsection \<open>Encryption\<close>

lemma xor_bytes_map2:
  "length src = length dst \<Longrightarrow> xor_bytes dst src (length dst) = Some (map2 (XOR) dst src)"
  by (induction dst arbitrary: src) (auto simp: length_Suc_conv)

lemma take_drop_ks_range:
  "a + n \<le> m \<Longrightarrow> take n (drop a (ks_range P gk p m)) = ks_range P gk (p + a) n"
  by (auto simp: list_eq_iff_nth_eq ks_range_nth ac_simps)

definition gk_ready :: "gk_prims \<Rightarrow> gkcrypt \<Rightarrow> gkcrypt \<Rightarrow> bool" where
  "gk_ready P gk0 gk \<longleftrightarrow> gk_same_keys gk0 gk
     \<and> (gk_key_buf gk = None \<or> gk_inv P Gk_Wait gk \<or> gk_inv P Gk_Advanced gk \<or> gk_inv P Gk_Written gk)"

lemma gk_ready_stream:
  assumes "gk_ready P gk0 gk" "prims_sizes P" "16 dvd unat p" "16 dvd n" "unat p + n \<le> 2 ^ 63"
  shows "\<exists>gk'. chiaki_gkcrypt_get_key_stream P gk p n = ret_ok (gk', ks_range P gk0 (unat p) n)
    \<and> gk_ready P gk0 gk'"
proof (cases "gk_key_buf gk")
  case None
  then show ?thesis
    using assms gen_key_stream_range [OF assms(2-4), of gk] ks_range_same [of gk0 gk]
    by (simp add: chiaki_gkcrypt_get_key_stream_def gk_ready_def)
next
  case (Some kb)
  then obtain ph where ph: "gk_inv P ph gk" "gk_same_keys gk0 gk" using assms(1) by (auto simp: gk_ready_def)
  obtain gk' where gk': "chiaki_gkcrypt_get_key_stream P gk p n = ret_ok (gk', ks_range P gk0 (unat p) n)"
    "gk_inv P ph gk'" "gk_same_keys gk gk'"
    using get_key_stream_ok [OF ph(1) assms(2-5)] unfolding ks_range_same [OF ph(2)] by blast
  moreover have "gk_ready P gk0 gk'"
    using gk'(2) gk_same_keys_trans [OF ph(2) gk'(3)] by (cases ph) (auto simp: gk_ready_def)
  ultimately show ?thesis by blast
qed

lemma round_up_16: "(n :: nat) \<le> (n + 16 - 1) div 16 * 16" "(n + 16 - 1) div 16 * 16 \<le> n + 15"
proof -
  have "(n + 15) div 16 * 16 + (n + 15) mod 16 = n + 15" "(n + 15) mod 16 < 16" by simp_all
  then show "n \<le> (n + 16 - 1) div 16 * 16" "(n + 16 - 1) div 16 * 16 \<le> n + 15" by simp_all
qed

lemma decrypt_xor:
  assumes "gk_ready P gk0 gk" "prims_sizes P" "unat key_pos + length buf \<le> 2 ^ 62"
  shows "\<exists>gk'. chiaki_gkcrypt_decrypt P True gk key_pos buf
      = ret_ok (gk', map2 (XOR) buf (ks_range P gk0 (unat key_pos) (length buf))) \<and> gk_ready P gk0 gk'"
proof -
  let ?pad = "unat key_pos mod 16"
  let ?full = "((?pad + length buf + 16 - 1) div 16) * 16"
  have "unat (of_nat ?pad :: u64) = ?pad" by (simp add: unat_of_nat)
  then have p: "unat (key_pos - of_nat ?pad) = unat key_pos - ?pad"
    by (simp add: unat_sub_if')
  have f: "?pad + length buf \<le> ?full" "?full \<le> ?pad + length buf + 15"
    using round_up_16 [of "?pad + length buf"] by simp_all
  have d: "16 dvd unat key_pos - ?pad" by (simp add: minus_mod_eq_mult_div)
  have b: "unat key_pos - ?pad + ?full \<le> 2 ^ 63"
    using f(2) assms(3) mod_less_eq_dividend [of "unat key_pos" 16] by simp
  obtain gk' where gk': "chiaki_gkcrypt_get_key_stream P gk (key_pos - of_nat ?pad) ?full
      = ret_ok (gk', ks_range P gk0 (unat key_pos - ?pad) ?full)" "gk_ready P gk0 gk'"
    using gk_ready_stream [OF assms(1,2), of "key_pos - of_nat ?pad" ?full] p d b by auto
  have "take (length buf) (drop ?pad (ks_range P gk0 (unat key_pos - ?pad) ?full))
      = ks_range P gk0 (unat key_pos) (length buf)"
    using f(1) by (subst take_drop_ks_range) simp_all
  then show ?thesis
    using gk' f(1) xor_bytes_map2 [of "ks_range P gk0 (unat key_pos) (length buf)" buf]
    by (simp add: chiaki_gkcrypt_decrypt_def Let_def CHIAKI_GKCRYPT_BLOCK_SIZE_def)
qed

lemma xor_twice: "length ks = length buf \<Longrightarrow> map2 (XOR) (map2 (XOR) buf ks) ks = (buf :: bytes)"
proof (induction buf arbitrary: ks)
  case (Cons b buf)
  then show ?case by (cases ks) (simp_all add: xor.assoc)
qed simp

text \<open>C11.  Encryption round trip: what one end encrypts at a key position, with or without a key
  buffer and in any state of it, the other end, holding the same keys and in any state of its own
  buffer, decrypts to the original bytes; the length is kept and the position need not be aligned.\<close>

theorem gk_encrypt_decrypt:
  assumes "gk_ready P gk0 gk" "gk_ready P gk0 peer" "prims_sizes P" "unat key_pos + length buf \<le> 2 ^ 62"
  shows "\<exists>gk' c peer'. chiaki_gkcrypt_encrypt P True gk key_pos buf = ret_ok (gk', c) \<and> length c = length buf
    \<and> chiaki_gkcrypt_decrypt P True peer key_pos c = ret_ok (peer', buf)
    \<and> gk_ready P gk0 gk' \<and> gk_ready P gk0 peer'"
proof -
  let ?c = "map2 (XOR) buf (ks_range P gk0 (unat key_pos) (length buf))"
  have l: "length ?c = length buf" by simp
  obtain gk' where a: "chiaki_gkcrypt_decrypt P True gk key_pos buf = ret_ok (gk', ?c)" "gk_ready P gk0 gk'"
    using decrypt_xor [OF assms(1,3,4)] by blast
  obtain peer' where b: "chiaki_gkcrypt_decrypt P True peer key_pos ?c
      = ret_ok (peer', map2 (XOR) ?c (ks_range P gk0 (unat key_pos) (length ?c)))" "gk_ready P gk0 peer'"
    using decrypt_xor [OF assms(2,3), of key_pos ?c] assms(4) l by auto
  have "map2 (XOR) ?c (ks_range P gk0 (unat key_pos) (length ?c)) = buf"
    unfolding l by (rule xor_twice) simp
  then show ?thesis using a b l unfolding chiaki_gkcrypt_encrypt_def by auto
qed

subsection \<open>Message authentication\<close>

definition gmac_key_of :: "gk_prims \<Rightarrow> gkcrypt \<Rightarrow> u64 \<Rightarrow> bytes option" where
  "gmac_key_of P gk index = (if index = 0 then Some (gk_gmac_base gk)
     else chiaki_gkcrypt_gen_gmac_key P index (gk_gmac_base gk) (gk_iv gk))"

definition gmac_inv :: "gk_prims \<Rightarrow> gkcrypt \<Rightarrow> gkcrypt \<Rightarrow> bool" where
  "gmac_inv P gk0 gk \<longleftrightarrow> gk_gmac_base gk = gk_gmac_base gk0 \<and> gk_iv gk = gk_iv gk0
     \<and> gmac_key_of P gk0 (gk_gmac_index_current gk) = Some (gk_gmac_current gk)"

lemma gen_gmac_key_total:
  assumes "prims_sizes P" "length base = 16"
  shows "\<exists>k. chiaki_gkcrypt_gen_gmac_key P index base iv = Some k \<and> length k = 16"
proof -
  let ?md = "sha256 P (take 16 base @ counter_add iv (index * CHIAKI_GKCRYPT_GMAC_KEY_REFRESH_IV_OFFSET))"
  have md: "length ?md = 32" using assms(1) by (simp add: prims_sizes_def)
  have pre: "\<exists>x. xor_bytes d s n = Some x \<and> length x = length d" if "n \<le> length s" "n \<le> length d" for d s :: bytes and n
    using that
  proof (induction d s n rule: xor_bytes.induct)
    case (2 d dst s src n)
    then show ?case by auto
  qed auto
  obtain x where "xor_bytes ?md (take 16 (drop 16 ?md)) 16 = Some x" "length x = 32"
    using pre [of 16 "take 16 (drop 16 ?md)" ?md] md by auto
  then show ?thesis
    using assms md by (simp add: chiaki_gkcrypt_gen_gmac_key_def CHIAKI_GKCRYPT_BLOCK_SIZE_def)
qed

lemma gmac_select_total:
  assumes "gmac_inv P gk0 gk" "prims_sizes P" "length (gk_gmac_base gk0) = 16"
  shows "\<exists>gk' key. gmac_select_key P gk key_pos = Some (gk', key)
    \<and> gmac_key_of P gk0 (gmac_key_index key_pos) = Some key \<and> gmac_inv P gk0 gk'"
proof -
  let ?i = "gmac_key_index key_pos" and ?c = "gk_gmac_index_current gk"
  obtain k where k: "chiaki_gkcrypt_gen_gmac_key P ?i (gk_gmac_base gk0) (gk_iv gk0) = Some k"
    using gen_gmac_key_total [OF assms(2,3)] by blast
  consider "?c < ?i" | "?i < ?c" | "?i = ?c" by force
  then show ?thesis
  proof cases
    case 1
    then have "?i \<noteq> 0" by auto
    then show ?thesis using 1 k assms(1)
      by (auto simp: gmac_select_key_def chiaki_gkcrypt_gen_new_gmac_key_def gmac_inv_def gmac_key_of_def Let_def)
  next
    case 2
    then have "\<not> ?c < ?i" by auto
    then show ?thesis using 2 k assms(1)
      by (auto simp: gmac_select_key_def chiaki_gkcrypt_gen_tmp_gmac_key_def gmac_inv_def gmac_key_of_def Let_def)
  next
    case 3
    then show ?thesis using assms(1) by (auto simp: gmac_select_key_def gmac_inv_def Let_def)
  qed
qed

text \<open>The authentication key depends only on the key position: starting from the keys of
  initialisation, after any history of requests (in order, late or repeated), the key chosen for a
  position is the one derived for its interval of 45000 positions, and the cached key stays the key
  of the cached interval.  Interval 0 uses the base key.\<close>

theorem gmac_key_history_free:
  assumes "gmac_inv P gk0 gk" "prims_sizes P" "length (gk_gmac_base gk0) = 16"
  shows "\<exists>gk' key. gmac_select_key P gk key_pos = Some (gk', key)
    \<and> gmac_key_of P gk0 (gmac_key_index key_pos) = Some key \<and> gmac_inv P gk0 gk'"
  using assms by (rule gmac_select_total)

subsection \<open>Establishing the hypotheses\<close>

lemma gk_ready_reach:
  assumes "gk_inv P Gk_Wait gk0" "prims_sizes P" "gk_reach P gk0 (gk, ph)"
  shows "gk_ready P gk0 gk"
  using gk_reach_inv [OF assms(3,2,1)] by (cases ph) (auto simp: gk_ready_def)

lemma init_gmac_inv:
  assumes "chiaki_gkcrypt_init P alloc m c t chunks index hk secret = ret_ok gk0"
  shows "gmac_inv P gk0 gk0"
  using assms by (auto simp: chiaki_gkcrypt_init_def gmac_inv_def gmac_key_of_def Let_def buf_simps split: if_splits)

lemma init_succeeds:
  assumes "prims_sizes P" "alloc \<noteq> None" "16 \<le> length hk"
  shows "\<exists>gk0. chiaki_gkcrypt_init P alloc CHIAKI_ERR_SUCCESS CHIAKI_ERR_SUCCESS CHIAKI_ERR_SUCCESS
    chunks index hk secret = ret_ok gk0 \<and> length (gk_gmac_base gk0) = 16"
proof -
  let ?h = "hmac_sha256 P secret ([1, index, 0] @ take 16 hk @ [1, 0])"
  have h: "length ?h = 32" "prim_ok P" using assms(1) by (simp_all add: prims_sizes_def)
  obtain k where "chiaki_gkcrypt_gen_gmac_key P 0 (take 16 ?h) (drop 16 ?h) = Some k" "length k = 16"
    using gen_gmac_key_total [OF assms(1), of "take 16 ?h" 0 "drop 16 ?h"] h by auto
  then show ?thesis
    using h assms by (auto simp: chiaki_gkcrypt_init_def gkcrypt_gen_key_iv_def CHIAKI_GKCRYPT_BLOCK_SIZE_def Let_def)
qed

text \<open>A concrete instance of the primitives, to show that the hypotheses can hold.\<close>

definition toy_prims :: gk_prims where
  "toy_prims = \<lparr>aes_block = (\<lambda>k b. take 16 (map2 (XOR) k b @ replicate 16 7)),
     sha256 = (\<lambda>d. take 32 (d @ replicate 32 0)), hmac_sha256 = (\<lambda>k d. take 32 (d @ k @ replicate 32 1)),
     gcm_tag = (\<lambda>k iv d. take 4 (k @ iv @ d @ replicate 4 0)), prim_ok = True\<rparr>"

lemma toy_prims_sizes: "prims_sizes toy_prims"
  by (auto simp: prims_sizes_def toy_prims_def min_def)

definition toy_init :: "gkcrypt result" where
  "toy_init = chiaki_gkcrypt_init toy_prims (Some (replicate 4096 0)) CHIAKI_ERR_SUCCESS CHIAKI_ERR_SUCCESS
     CHIAKI_ERR_SUCCESS 1 2 (replicate 16 5) []"

lemma toy_init_ok:
  obtains gk0 where "toy_init = ret_ok gk0" "length (gk_gmac_base gk0) = 16" "gk_inv toy_prims Gk_Wait gk0"
    "gmac_inv toy_prims gk0 gk0" "gk_reach toy_prims gk0 (gkcrypt_thread_advance gk0, Gk_Advanced)"
proof -
  obtain gk0 where i: "toy_init = ret_ok gk0" "length (gk_gmac_base gk0) = 16"
    using init_succeeds [OF toy_prims_sizes, of "Some (replicate 4096 0)" "replicate 16 5" 1 2 "[]"]
    unfolding toy_init_def by auto
  have inv: "gk_inv toy_prims Gk_Wait gk0"
    by (rule init_inv [OF i(1) [unfolded toy_init_def]]) (simp_all add: chunk_size)
  have "gk_populated gk0 = 0 \<and> gk_key_buf_size gk0 = 4096 \<and> \<not> gk_thread_stop gk0"
    using i(1) by (auto simp: toy_init_def chiaki_gkcrypt_init_def Let_def KEY_BUF_CHUNK_SIZE_def buf_simps)
  then have "gk_reach toy_prims gk0 (gkcrypt_thread_advance gk0, Gk_Advanced)"
    by (intro gk_reach_step [OF gk_reach_start] gk_wake) (simp_all add: key_buf_mutex_pred_def)
  with that i inv init_gmac_inv [OF i(1) [unfolded toy_init_def]] show ?thesis by blast
qed

lemma key_pos_recovered_witness:
  "chiaki_key_state_request_pos \<lparr>ks_prev = 0xfffffff0\<rparr> (ucast (0x100000010 :: u64)) True
    = (\<lparr>ks_prev = 0x100000010\<rparr>, 0x100000010)"
  using key_pos_recovered [of "0x100000010" "\<lparr>ks_prev = 0xfffffff0\<rparr>" True]
  by (simp add: chiaki_key_state_commit_def)

lemma counter_add_value_witness:
  "length (counter_add [0xff, 0xff, 3] 1) = 3
    \<and> le_value (counter_add [0xff, 0xff, 3] 1) = (le_value [0xff, 0xff, 3] + 1) mod 256 ^ 3"
  using counter_add_value [of 1 "[0xff, 0xff, 3]"] by simp

lemma gk_key_stream_transparent_witness:
  "\<exists>gk0 gk'. toy_init = ret_ok gk0
    \<and> chiaki_gkcrypt_get_key_stream toy_prims (gkcrypt_thread_advance gk0) 16 32
        = ret_ok (gk', ks_range toy_prims gk0 16 32)"
proof -
  obtain gk0 where g: "toy_init = ret_ok gk0" "gk_reach toy_prims gk0 (gkcrypt_thread_advance gk0, Gk_Advanced)"
    by (rule toy_init_ok)
  show ?thesis
    using gk_key_stream_transparent [OF g(1) [unfolded toy_init_def] _ _ _ toy_prims_sizes g(2), of 16 32] g(1)
    by (auto simp: chunk_size)
qed

lemma gk_thread_never_fails_witness:
  "\<exists>gk0 gk'. toy_init = ret_ok gk0
    \<and> gkcrypt_write_chunk toy_prims (gkcrypt_thread_advance gk0) = ret_ok gk'"
proof -
  obtain gk0 where g: "toy_init = ret_ok gk0" "gk_reach toy_prims gk0 (gkcrypt_thread_advance gk0, Gk_Advanced)"
    by (rule toy_init_ok)
  show ?thesis
    using gk_thread_never_fails [OF g(1) [unfolded toy_init_def] _ _ _ toy_prims_sizes g(2)] g(1)
    by (auto simp: chunk_size)
qed

lemma gk_encrypt_decrypt_witness:
  "\<exists>gk0 gk' c peer'. toy_init = ret_ok gk0
    \<and> chiaki_gkcrypt_encrypt toy_prims True gk0 5 [1, 2, 3] = ret_ok (gk', c)
    \<and> chiaki_gkcrypt_decrypt toy_prims True (gkcrypt_thread_advance gk0) 5 c = ret_ok (peer', [1, 2, 3])"
proof -
  obtain gk0 where g: "toy_init = ret_ok gk0" "gk_inv toy_prims Gk_Wait gk0"
    "gk_reach toy_prims gk0 (gkcrypt_thread_advance gk0, Gk_Advanced)"
    by (rule toy_init_ok)
  show ?thesis
    using gk_encrypt_decrypt [OF gk_ready_reach [OF g(2) toy_prims_sizes gk_reach_start]
        gk_ready_reach [OF g(2) toy_prims_sizes g(3)] toy_prims_sizes, of 5 "[1, 2, 3]"] g(1)
    by auto
qed

lemma gmac_key_history_free_witness:
  "\<exists>gk0 gk' key. toy_init = ret_ok gk0 \<and> gmac_select_key toy_prims gk0 90001 = Some (gk', key)
    \<and> gmac_key_of toy_prims gk0 2 = Some key"
proof -
  obtain gk0 where g: "toy_init = ret_ok gk0" "length (gk_gmac_base gk0) = 16" "gmac_inv toy_prims gk0 gk0"
    by (rule toy_init_ok)
  have "gmac_key_index 90001 = 2" by (simp add: gmac_key_index_def CHIAKI_GKCRYPT_GMAC_KEY_REFRESH_KEY_POS_def)
  then show ?thesis
    using gmac_key_history_free [OF g(3) toy_prims_sizes g(2), of 90001] g(1) by auto
qed

lemma gk_thread_catches_up_witness:
  "\<exists>gk0 n gk'. toy_init = ret_ok gk0 \<and> gk_rounds toy_prims n gk0 = Some gk'
    \<and> gk_populated gk' = gk_key_buf_size gk'"
proof -
  obtain gk0 where g: "toy_init = ret_ok gk0" "gk_inv toy_prims Gk_Wait gk0"
    by (rule toy_init_ok)
  have "\<not> gk_thread_stop gk0"
    using g(1) by (auto simp: toy_init_def chiaki_gkcrypt_init_def Let_def buf_simps split: if_splits)
  then show ?thesis using gk_thread_catches_up [OF g(2) toy_prims_sizes] g(1) by blast
qed

end
