(* ===== verification/RPCryptTables.thy ===== *)
theory RPCryptTables
  imports Prelude
begin

text \<open>
  The key tables of \<^verbatim>\<open>lib/src/rpcrypt.c\<close>.  A row of the source, ten bytes, is one hexadecimal
  numeral here; \<open>row_bytes\<close> takes it apart again, most significant byte first.  The tables
  \<open>ps4_keys_1\<close> and \<open>ps5_keys_1\<close> stand three times in the source and \<open>ps4_keys_0\<close> and
  \<open>ps5_keys_0\<close> twice, with the same contents.
\<close>

primrec row_bytes :: "nat \<Rightarrow> bytes \<Rightarrow> nat \<Rightarrow> bytes" where
  "row_bytes 0 acc v = acc"
| "row_bytes (Suc n) acc v = row_bytes n (of_nat (v mod 256) # acc) (v div 256)"

definition table_bytes :: "nat list \<Rightarrow> bytes \<Rightarrow> bytes" where
  "table_bytes rows rest = concat (map (row_bytes 10 []) rows) @ rest"

lemma length_row_bytes: "length (row_bytes n acc v) = n + length acc"
  by (induction n arbitrary: acc v) auto

lemma length_table_bytes: "length (table_bytes rows rest) = 10 * length rows + length rest"
  by (induction rows) (simp_all add: table_bytes_def length_row_bytes)

definition keys_a_ps4 :: bytes where
  "keys_a_ps4 = table_bytes [
     0xdf4082a62ed86b2bf56c, 0x5ff5fb2169b400275e87, 0xfa1aa79516a1b7b7caf2, 0x3d7a0497ef49eb51bce9,
     0x2a4784bafb08784aa782, 0x17ad4b263497b2de417d, 0xc608c4e9e773a122a2f3, 0x2a6f8cc045f684b4d754,
     0x07d57633d38b61e7ead6, 0x9832f5eb9e1bbde20131, 0x45010d511f77af0c34b7, 0x23400dc0ac7e04b5f075,
     0xde5ebafaa62556de5383, 0x944ea4d94ef473abd696, 0xb6fc0946e21a9d4ff189, 0x90a034f4556029f939db,
     0x20aadf8bff6cc0a996ad, 0x7167aeb61a6ed4927ac7, 0xac31c821243bb36a1d4d, 0xc0825f539ff9eb4a4147,
     0x275abc3bc85020eb1102, 0xf8c57ea4d3855290614e, 0x88ff81cf755821fe588f, 0xd075f620aa543a4554f3,
     0xe444da987f099ea67263, 0xbc9f46777e24f8dac494, 0x04a923a7ea67e38541a4, 0x4b8ec192de96c809b7d4,
     0x416089f0db095601c16c, 0x33b137bd796fab1c61e9, 0x18fcb36cbcfeeab19ece, 0xba83dae581d707b78af0,
     0x8939dc306b0da72bc951, 0xdc4f99983ccf621c56f1, 0x8688dbce10bf3ddee6f5, 0x0251f7a5e30adbebaeb0,
     0x7689624ba7bdd6fe8d01, 0x2826f37665ba0f447765, 0x79470643aea8d15e200e, 0x722a15d94296e7db40ae,
     0x4e2b1c6d71a28ea6e14d, 0xe884a3a559410c9ee93e, 0x5ac8023fbbf3e10af73d, 0xd7aae564c64ec3c9bb32,
     0x30a918ecb8ae61c91a62, 0xeb47920ca7e06c33f584, 0xec6931dbaddf3dbb4c4b, 0xa18cf046526572af6ac8,
     0xceb327d33278b139d6d1, 0x5e0906ffdc8fca169b5e, 0xa21864ee8c0b9bd741f8, 0x3598d35c78e2bba5f768,
     0x028ad21485508b982a09, 0x15c09e9c471f92c2a52a, 0x3baa7bdeb8e7eea7e04a, 0xb481287f1538e878ffc1,
     0xed98d84f233f7729aca5, 0xbcd08f2b89b999bec1f1, 0x3e4ebd30d76c1c094e7c, 0x1328f5c3ffc1cf8a2a41,
     0xd0732423311377a433c0, 0x7e7bc081b5f5258045c5, 0x9465a48a94c1b6f46961, 0x11d543ea4b384a5614dd,
     0x3ba699dfe5872af912bf, 0x45b1d974678b2b57c3d0, 0xb19a4acc4f63795a4f1d, 0xa6ff65eebed916eaa966,
     0x07977143dd64e30003bc, 0xba1bf3a6a6eeeff8a7f2, 0x15f9cf8c622a1e9bbefb, 0x5ab7edd5d2712ac9eb65,
     0x687734a4bb44ab01e579, 0x1937b20701c6cab307b8, 0x55ac03aef63f2912a1ba, 0x1d943aa3b56c6ef4313f,
     0x38a7e03431f22a7ae6cf, 0x3fc4e9b90f059fec9adc, 0xb359c461aa10b6ce73e3, 0xe38cf85d0e953e1a4fbe,
     0x7787ce8a17f520a701f0, 0xd7e634630476be74b344, 0x7ddf1132b91332151aed, 0xcf1f8591dba3c4f20f2c,
     0x8f770ac4097d19127c46, 0xf79d3a94864b22676f90, 0x579970283d9c53d2d30b, 0xc129b7398cb762c8bb64,
     0x4dcfe05f64fc47b2ef0a, 0x688d9acd9f49776b5047, 0x7cfca4d42c4d53c12626, 0x92380dba1c7181174a59,
     0x0f80fdad695c58a7ffef, 0x1acad6fb7e09dc321734, 0x319cfa78f9881a506b09, 0x24fe75cd22bdf012109d,
     0xc57bbe9fa4c87a7cb1a7, 0x462d48a108d8753c4053, 0x595a04f6cbd62f519e4a, 0xa8ef023c61a8455a999a,
     0x7309c0716f4db72c696c, 0x1e8548ea335bb12809e3, 0x24477a12d877a0fd3ccd, 0x235361f09e4944199ce1,
     0x0ab6c593354d06deb5ac, 0x15e28d476a8a29588ffc, 0x2b32c40e4e75b2714491, 0xb6fb5060c4504dd91cd7,
     0x28b52e0882fdbd7c4862, 0x000130a5472a104bfe3e, 0xb5d7e21e5ad0e36ba09c, 0xe31205b91c7b3f188811,
     0xc34de88378f18c6ab387, 0x7f67df47c42fea9c7998, 0x352d7b2dc73e31136ef3, 0xfda81625033fb11477ff,
     0xa1f2e99832e42f3eb06e, 0x29840fdd85bbda0ac619, 0x789a6bdd8b40391f19ce, 0xad79c9da59bf6ebcb0c8,
     0x6e61eb2ebaa650068c74, 0xab234f9d9e20679a0cea, 0x60148542c47dc01c62a5, 0x7e651deea1fded82191e,
     0x9087abdb80b7b2aba0bc, 0xdb999b2e8ec496fe3182, 0x9ee9c9a3d0e3520f7324, 0xd7b641ccfcae86b579e5,
     0x25c87660483ca4746a7b, 0x7ea85bf85b790f19957d, 0x7f5631cc34d0b80c293f, 0x83540275e379b664f966,
     0x7f90e1a77bfa176807d1, 0xef3552f356de3535141b, 0xcd971ae5f4b5aefc530c, 0xec36f0b430ea9bde6031,
     0x727e9941789081730a81, 0xe2aa7068677a524a4dd4, 0x9f900dd93a1f8d80fa68, 0x6254aeb70f3afaedc9ce,
     0x208d884879828af6c54d, 0x6eed38817565acf672ee, 0xf02e6d3f2e2a54f2f15a, 0xb981ce56bfedabd532f1,
     0x958681f9fd381dc79f55, 0xe12cd128662681f51272, 0x0235876501ea4ff795ba, 0xb109919c89b4481d7bb4,
     0x37766cce830e2cb8d5e0, 0x43363c2db10f294e1d36, 0x589acdf4a7adaedb8f59, 0xd078b4cbfde61ba92426,
     0xb7a2c0bd0853d24eb219, 0x90b1b0a757aaeb1171dd, 0x3bae04f444a527ebb32e, 0xdd707e0d2b2fc44ceeff,
     0x4d94de6f48a17ba2a2ef, 0x3aa30c994e6ed464bbd2, 0xa03839e816a34b77b7a4, 0xf6c012ecfe97c0a4fc90,
     0x8c07fb0ac94fe8f76e45, 0xf6ab8bb158565bda12c0, 0x4ce1741cb914dfe41753, 0xb30ce2e1bcfce69ceded,
     0x82202a4ddfd8786ef516, 0x5748589ab65720f074cc, 0xcfdd5cf4d67ec45313a4, 0xf168c5a4e19158cf5c9f,
     0x36bf20211b345cbd2c64, 0xc56f7fb99165cf254493, 0x991fb982ebc53b4fd2ad, 0x5eaf69fc2f54e4d034db,
     0x47ef8b16542b67273c50, 0x9ff06ce6e208d00a3676, 0xc16562014d70b842e488, 0xee630b74642b15f1906c,
     0xa33ff494ca3f48645a09, 0x365c7c4f75f04ee33df3, 0x6d9b4f9929f1e2ff9238, 0x5df6f3d2c55d1d897809,
     0xbb6a3a0a9c014cd9fd55, 0x48a1f7a19c55c131afa5, 0x03bbba8c760af0d60357, 0x71f5fead7f362357ba9b,
     0x2092149ecf7659cde247, 0x12b41eb552c37fdaa035, 0xc2555697d057a0cccd27, 0xcc081c9c06fdbe47df78,
     0x0817b67f311e0adc54cc, 0x06f7bfee744821396cf0, 0x1f291976197fc238948a, 0xe42d7ffff745572198aa,
     0x6535ba3c56ff6288b9e8, 0xe9dbd1f8590f50138bc2, 0xc2bdba444436e1b01332, 0x3a684d62a8508744bb31,
     0xfbe32573a0f12cf53419, 0x0966a94621c7a2917de9, 0xf49da98228f41f28a8a9, 0x01f197709d6172d58b84,
     0xcff17cc27da7a3254f68, 0x3f5e8eb6161878cf6353, 0x57081155651b555e8dce, 0x682d77161e87a6d01144,
     0x378fa28bb0db4b012fd7, 0x1e1693b519adb7de130d, 0xaccd776a1561ebe0d1bf, 0xcf6910287258fec7cebc,
     0x92fd5f9cd66d56bd3935, 0xe0a67319456af2368a0a, 0x58e1230728a4897a51bb, 0xbad64278bb5f420bc08f,
     0xc93cc37e4122943c02d3, 0x2cecf88f14627c784773, 0xe8d5402d26827216d7dd, 0x9e8d8efbaf8373d84d85,
     0x285372c1b0085ac66ebe, 0xf921dd8c30f55ebeeccc, 0xd28a1ac3f48398863b4e, 0x6d3e9ebe84802f27bb6a,
     0x3e5118b07a828202536d, 0x2d2aab4a2e3ba4889099, 0x741027a7e95c525bf5b0, 0x00c7529104c7ff01b756,
     0x409f5654de9665617606, 0xb6db16c81c0bfff073d0, 0x892286c6acc5b19821d0, 0x6c309243b4a980c8dd6f,
     0xf04b57806d53fbd49539, 0xde6ef5289e9294429942, 0x4d020a7b9b8fc632b0d9, 0x5d8174d276db6421dfc2,
     0xee5f7788136032d897f4, 0x1c77e049ce1da2bb66ca, 0x27fdc1963a504f1fbb56, 0x24857677fd847bb43c87,
     0x0109894c0f8e44c04939, 0x498b9309a68d93f15a3f, 0x1f642fd2e2be993838f1, 0xec1546e38a95e63cf8a3,
     0x38b8c0205fcb36e49079, 0x0c8eb6e548232dcb3c88, 0x3135e78efaf581363596, 0x9839b02da3d7843a9230,
     0x079b7061dad680947b93, 0x0110e2032383c2ef2f4e, 0x3101870c0b0c1f20aa75, 0x52b5bca255d6063ff16a,
     0x1ea40043db0f9ad4c445, 0x2f209457bc6eeb63da90, 0xb2569b6c81b315d31de1, 0xe475aa3bbf4546d70d31,
     0xb1f58bfb5b3e484bea09, 0x0c82d37a451cc24dda4d, 0x08d15d7cb55024bf3b5a, 0xb7ca76c4ee64f7c7772d,
     0x068d9bee7c6bf56b8f62, 0x4d3766315fde2bb2e470, 0xdaeb49e41b1fdf45ee5a, 0x696859e57114cc4e73a4,
     0x20385cc7a728d5a0bffd, 0x6a0f926f02644919e418, 0x23a2da9b757bc8db8f78, 0x684c674782f610442336,
     0x740258ad75d4ad599e2e, 0x9967c25b899101372efe, 0x50c46de78b345322d0c3, 0x1f16c9142f0b76df29b9,
     0x32d4cd5e04dbf5473f99, 0x26cb6bacae2bbc75f28d, 0x64ffd22bfb8c8179ed8d, 0x8689c7fde8de1ae19630,
     0xbae38dc843d59752e519, 0x0bd4ba41ea9aadcc9424, 0x6e9c8fd1696b4a5092ba, 0x7341b1d18210bbcf3c4b,
     0xdf49dcdfd3bba6ac63bc, 0x886a4f3bfad4ddd43c3a, 0xe568d786bdcdd36da822, 0xca71d6d0a7a775d270d4,
     0xb427782bcd161081b159, 0xfee41b62d1cf637c7278, 0xc296af8876280a47eba8, 0xd9d1efea0120156389b4,
     0xe799a03b2fdf990bc3ef, 0xa6f3e090c9824c3e51e9, 0x2c867d317e8f5d7a24ff, 0x65a9b6bc18c8284c8dda,
     0xc7986a54ad2219ca3d4d, 0x88cc4e5c2aefd0603ce3, 0x49d2f6593825ed315218, 0xb43131438f857d59a8d2,
     0x264ca0fbf8db6a12ad40, 0x73b15d61f549657b4430, 0x497ad7e9ce349c646e31, 0xae48ad4c69c4d9f82ab0,
     0x7eb3baecea2b49092153, 0x63b7c6d6809c7727e9f6, 0xc7062c8ec1b83115a987, 0x13fdfd3218dd5cbaf370,
     0x94099db6bc2c91ef42b7, 0x1325907710dd80a9d9ab, 0xefcfbe7593e2bce726df, 0x7788e090c02d20c98cfa,
     0x829157fbb1ecdf2b2f9b, 0x6a23a03e2aa3398cea09, 0x06037ba8e77732211a29, 0xcd22609bc0fec2f39c83,
     0x568ff022adfde3a9e3c5, 0xbfd1f3bdc643c384f246, 0x915b3743b9cfe4477a5a, 0xfdd2c0b67e99ea151b31,
     0x3c146bbf264ffa3839ef, 0x754cda4c4f00ef0fc63b, 0x5b4cf11b3592b9749e0f, 0x162a2b3ca080f0e556aa,
     0xdb0e4ffc5fb2d10be204, 0x1ee86f4f81dbc71a0cb0, 0x00ed8a7b1d44de30fab6, 0x883b7381b35731380e13,
     0x779e5a4da19373300d44, 0x569788bfc436e9ece258, 0x113933716bd4b74a9a2c, 0xc0ac88eb088c4348a2ba,
     0xfa9895922da2ee72b37e, 0xd9111aa341c465191ddb, 0x92f43ef4aa49ad77c603, 0xdd197a8d620919d7f7d3,
     0x84f1cb4554d1741ef8e6, 0xa4fdaa30f8f9e12bcf65, 0x22f973cf5de3de939484, 0x8fe166996a7176aedb16,
     0x2b73ab4e6108a0dc3fd4, 0xe3ac897a31c1b9209210, 0x581b87fde37c42c82606, 0x50cebb000b9f09dcac31,
     0xe0cda6ee23ef6487655f, 0xfb5f6c294af9d3af4eaa, 0x39308205c61c1e838fe4, 0xf71cca3b030180e46a84,
     0x71d4e9a6ba728969fa56, 0x6d26e31dfa918f4ccc50, 0x74752fe39716077840de, 0x5822ca41deb992565589,
     0x8520445ad0fc884e4981, 0x32cf44b6ee580e22f88f, 0x052a78303411b08f2110, 0xb7e280a2e069bc29e348,
     0x08a6dcbc68d7d784233f, 0xb00a69a18713290d713d, 0xadadf05e5304039e4bb2, 0x24c2828cef4c70cd58b3,
     0x19a4e80ec0fd572b65ee, 0xa54302f2bee766c9b5fd, 0x70c0939be86074d4cca5, 0xa6a26635dc74f3021674,
     0x9a910a3da48b98d1fd29, 0x34ea52891662ddedb58b] [0xed, 0xe4, 0x03, 0xd9]"

definition keys_a_ps5 :: bytes where
  "keys_a_ps5 = table_bytes [
     0x7fae83204739b65b239b, 0x5ca537c4df5926810a53, 0xa1aea3a3f9beaa9fcae0, 0x9e458d437f533ec01790,
     0xd2032d92a81b3e179a9d, 0xc945399e6c5fb6b24257, 0x6a1aa03589dd6ac6a92d, 0x06a2d370d5a79132425a,
     0x440f358618c0759f8e07, 0xb68046c1bce34fc0dca1, 0xaffb1b2b4db6148fafeb, 0x49dd2ab3fdb232863ce7,
     0x1a96149db1d99072b3b3, 0x3d6f3dcc26bc51da916e, 0xc6a9f99f86071370dce2, 0x21d74cb3c39802949a63,
     0x6d34732da12383a85834, 0x3f301b9b01fbfae402a3, 0x524dfac816b8fac567e1, 0x8928e1e5f4d7a29fccd4,
     0x399141e9a27a44b4b64b, 0xe9d72c0b13c5d9a4500c, 0x1594c86588ace4147723, 0x049e30ec3f27e7c2b176,
     0x15bb45446f1bcd2bae07, 0x77631ade10ade6de8c54, 0xe598decc3b8be152b278, 0xa4a6a8430adb6ad697e4,
     0x1a518a819c7db935677a, 0xfabf59ce6c30d8009549, 0x7375c6fcb7f4931618c9, 0x1b6e71843085e3001943,
     0xcb04615883918bf80a3d, 0x4c47713c34f0a1ee5dea, 0xc0b968eea261b9b46912, 0x0990744bc4bcaf326b9c,
     0x6972153bb25d2c59952b, 0x72c3ae454cdafa0c669c, 0xf823f3749df90e5c1822, 0x020f960ce99bb905f5f9,
     0x38b7cd3603b089483e34, 0xb5e68ff0a720ad420f55, 0xbc168c81abb76d8b8888, 0xde14597bf4288a5826bc,
     0xed03277a5935dd0fff23, 0xbb189356ff48d8d371a1, 0xc3613083d406cf41de81, 0x7a1016cee79fdc9724c3,
     0x620442bbb7ad134e2b0c, 0xf13653b5a414ecdf8aa1, 0x9ed362d1e8c1a39a8776, 0x060a84767b88dceb4a68,
     0xa40f8362fdf501508bbc, 0x6cd0e9602ce5ef88cec6, 0x834f7a32a3c00e058326, 0x493b88e5b926c58fbbe3,
     0x54056b8d42560401d80b, 0xe7830a66b294f18c92b2, 0xc3a4771cb15d2443702e, 0x1d43a5032794f6aa06ba,
     0xa058f0c5c8e9800998c9, 0xc195d21333c8fb035a37, 0xa4dc44d77e4b41cbb0ac, 0xda7880806cb2dfe65c4c,
     0x1e82d6765621efd06c0e, 0xe16abb07fcbda234865f, 0xb098b9a4c985d4b0b145, 0xfc3c5217285ce510c777,
     0x03ba5189736a2868b401, 0xb2f36d8f41f288191a2a, 0x86e2d6b540bcf7d86be9, 0xe24f03ae147e5cfda1f6,
     0xdaa76cebe401a0649eb6, 0xad31f6ba1d8885fd626c, 0x4b10c33d9710fa2f8323, 0x55b07de620e9ae8910e4,
     0xfcfd82e42b5a4eea17ca, 0xf805ba039f06023db49c, 0x3527ab47b16778794c6e, 0xb197b3b77f54a7025535,
     0x4d0f62649be67bbb655d, 0x5321007ce39bf868aebc, 0x0d5fdced4dfed02e6c93, 0x0cef3d98747b30db6ca1,
     0x732008f879f904e4a3aa, 0xf88450479f0534b61805, 0xc593b4b60754bfff6b1f, 0x4bd65f90695e12d98448,
     0xf3b8e29597c0af4d6888, 0x1da2a1960a32e7566bc3, 0x3cee8931d5f1235cec45, 0x3c558fa63908a8f20128,
     0xd4977f916349e2c7f87e, 0xcb011adde057f87f713b, 0x17d4d95720ed494d8f57, 0xc5aa65709ff12c740d57,
     0x071626748e7a5e4f44ab, 0x77e979e298e5ca64457c, 0xbf8c7c0dba71ecbf9246, 0x96755e61e27c494fcfa1,
     0x9ac43b990b8ad2123317, 0x20a07617233f76acb4cc, 0x075a62220b2127f6803d, 0x30dc8c2ef7f396c0bf03,
     0x10d6bea3e419212849e4, 0xa7e64e69798f0955775d, 0x905ffa8335c8abe3d818, 0x7c148a736837c2f2b689,
     0xc04bbf5cb39e50849a95, 0xbf1495619fb940a99cb2, 0xf13d1b34c926bfb30d2f, 0x856c48c06656c31a30ea,
     0x589615c9f8197ba007b3, 0x01c8fce0b6f4017e587e, 0x08094833869aeab44851, 0xe85e69206a38771b8aa5,
     0x43e467149618c47e4bbd, 0x90d60343cedc85236890, 0x0972c98d4d89e2486d03, 0x2f42e01a5b9615163a56,
     0xa9a9b1acf396586d6113, 0x9279f1580b565b2fe543, 0x358278ce3c716c91c7c9, 0xd2bf30b6688750069854,
     0x512b2e5715011f85065f, 0xf0be2209142abf34119e, 0x31a87c9e17033d0ce821, 0x0b8b6103332ec206c0c6,
     0x0ca4f1791802decf3d6c, 0xf75d3c8181381a639047, 0xaa7325d9183b88cdde06, 0xd6becf2e206a32bbf012,
     0xfd3ea1bf58638d0caf1f, 0x81c2b703c2f754815b04, 0x6e3e495abafa39eccfe8, 0x12883083a62ad208d5ae,
     0x3c63b4d2d90900472aa3, 0xaea64e9eab654032a449, 0xc7cc280ce660f823d48b, 0xded9bf1018f4399f7e64,
     0x9ed48c04e6ecc609c82c, 0xa4d4e24b841bc40490df, 0xf44c68e832f6cca05148, 0x926c019eb2240b76767d,
     0x2ab46826e3ae0de533f8, 0x1986194f5a14fb2f1383, 0xce0a24cb427aa6266d52, 0xd69bab153608bf754116,
     0x7546b259e0d258f1c025, 0xf1114a6c393ccedaec94, 0xdccb0aef5a5f6813c775, 0x0fdd7d80216b32dc838a,
     0xa4ab1cc703293eeef38b, 0xc85a9a3061c81d51a88b, 0xd7a1f06fe3ec88113b9d, 0xbf64daed3e6dc6ea36e1,
     0xbc54412e4b38a529abca, 0x48539e31055d5078e50d, 0x2d877c83f1e718b287f7, 0x7f7f29d9e01fc8a3c33c,
     0x297e025d3e0ca3a2906b, 0xe919570a256a19ef5c38, 0xab44ed04aa588eb7f641, 0x525242c8e33f3a07caa5,
     0xdb228329e199a1891627, 0xb24e1966d8dd9870ab83, 0x114ee82d3d9c588fd0eb, 0xf79aba1c16d0cda8ffdb,
     0x3fbc19ae901bce021d75, 0xd3d16fd1c2f0ebabb1e2, 0x47c14b73467bbc3beffb, 0xe063cfaacf4c0691d400,
     0xbd87200d4e2d097c13b4, 0xbb6f216a30a84d9146c0, 0x4bfb6e74f64dbb325bf1, 0x274ba36a1df81e9ac06c,
     0x16044bcab6d4ae79a96c, 0x3c2eb2b4ef73d2e9f471, 0x2f34e37c1bf1520da85f, 0xac7c48f0b337054dbe69,
     0x27da04c233a345b13d3f, 0xe112942ed6f1faaf1b91, 0xe33f594025d0badaa046, 0x14591d29d3dcfbbe25b5,
     0x1d9dd593038fb17245f7, 0x6b89bb04bf2c177a2a6c, 0xa185ac88908aee7e2539, 0x29e86a8f682497b04d8e,
     0x9c9bb5d40b6cd414b5a1, 0x47301dd884f6b5bab6f2, 0x90ced69c7171e0f3cc8b, 0xa618886d1e2f3c6b6989,
     0xe133c5fb4c53555510b7, 0xcf3584f607d2aec2c4f5, 0x9cd8eb7df7dcb4bbf0be, 0xdd3d3fcbd2a1529ec95c,
     0x0503f99cf6dfb3d4e254, 0x346266f8a6ed6def9fa6, 0x4961872f544899ddd5a3, 0xe2c7bb69173adc6fbdb6,
     0x84f3a28c3f16125062a0, 0xc847d3a69a67e6c5f900, 0xca329f2087d7ea1518bb, 0xe0244f5b02b42ec91c66,
     0x455401e3e0d0c25c8c69, 0x1ca7f715257d76b4ba8d, 0xa05f1e468ee140d2b71f, 0x2f78ecb581c4a7b1074d,
     0x7fa115857bdbaa8480c6, 0x5a32cba30f5fb971aefa, 0x032ab5f8619680cbdf69, 0xc6b0054d1a726bb0ed3e,
     0x526f60f5644e18bb450c, 0xe7c21abcccff6d3f1557, 0x941ca2253db546e6c126, 0x39e13da44474f30e923c,
     0xd6a193e0d67b5dd36060, 0x6aa4a020026e8954f700, 0x8ac13c77fe60b6a0121e, 0xd1fd9f3dc6161f090197,
     0x103aa159a4f8dee315fe, 0x95830f9cc2cbe6913d49, 0x36c9fc02401f3a91f96e, 0x08a7b38b9d6c7e71abe6,
     0x61a2b1ef31a8a9021aa2, 0x89f8ecee97f6a3c0a77f, 0xcab9755218f38d02b859, 0x7a20f6f314336870fc02,
     0xe1744f6ec99c5dc7c0b3, 0xe45b685d56418d884096, 0x55fe7190506134c160a9, 0xf09207707271fc53359c,
     0x2535c901dea06e1e3e05, 0x9557a3b5bec0c59e4cd0, 0x0950fad31b6b90ce8548, 0x12be9d95f3c75dcb1208,
     0x2c49e1d5936752a3ac8f, 0xdc8f64aa0c5852304eef, 0xf8fe2bbed36c7b30d6ff, 0x4294dcbf4e6b0def5cd9,
     0x844310228524e99a4baf, 0xb69cce7b590f3c5116c8, 0x2b18d9ce9f8286efc8aa, 0x56fabd0fd08f6676ed66,
     0x488ba467d1cad262137c, 0xdedffefcf91a164afcb2, 0xc1dd92449ee54462eeeb, 0xbea49a953db3693fda9a,
     0x24dc9056e0463e90f5ea, 0x9857899bf1d267d74643, 0xf57d7d2ce16ad27977ef, 0xd1a10f8c1ad7195586f2,
     0xc7a89b32f95e4523522d, 0xb6dc65bf98a441ffbb89, 0x79ec16a2f8056964df95, 0x6b7dfcce3da1d8bf83e2,
     0x89c91a36b9ffc36f041a, 0xfc5c6c3f787cf3e20b72, 0x55138b971258f44a5236, 0xc642caf5f0319df36056,
     0x26ff81f8d382761db89e, 0xc853ab5422f8ef378ec3, 0x7be9bf252e562a18a9ec, 0x3928a59c8ec5aa7da697,
     0x8f44cf62b3a16f26cf5c, 0x3d5c47408f5d70680169, 0x265d45a060b149a9e36c, 0xe72a64029e43370f57d3,
     0xa5eb11e66955d1856c78, 0xc98b44bc858093ba6ce3, 0xd23995c649d1a94650d6, 0xb27c125ca77f2cb3aa01,
     0x4a0658efe3ad8cdcc645, 0xe61833cb19ba8f767241, 0xd5e3a98f9350dc7acd4e, 0x94c2aab4c0f4adec46ff,
     0x657354b5fcbbd26114ae, 0xabf75295cd1c3f25c9c9, 0xe3197962ac02858ac93a, 0xf1c5d2bddc8fd7cefea2,
     0x5814c5a2d9ef2d9d97f7, 0xec55f72e4c0f2f3bdec0, 0x417f7d2ab956abe6f411, 0x52b6e6c9e6c6ef026e4a,
     0xd16d3ca60cb8d67e313a, 0xa0cecc0c31abc8e837fd, 0x0e5bc362f8dbcbf500a0, 0x40b348eb82aed2d34aea,
     0x126f3985bb98b7393ff3, 0x0b0e6dca84f8f135dce7, 0xbd1cdd214bdfdeb5cc16, 0x870fe8b8348645fcf461,
     0x934a7f2c3febd1cec861, 0x0b72493ad33f06054ce0, 0x234d8a20ae87da4c6cb8, 0xb979da1c735eb6f20361,
     0x68ffd5bf9a04b473c8da, 0xb582340c95fbda70cbb2, 0xdea808dfe424ff775c2f, 0x180c821fe629098ffe67,
     0x96b2479c433a58e85fc9, 0x73a4653ce37fdcde0ddf, 0x1c4d0e3ec3d21cc10e4a, 0x44f774ce00694399bdb7,
     0xa136ff0ac86bddd8622f, 0xf537958d91d8a05bc9a7, 0xfe6cc0457c000d4abf3e, 0x0050e6ce6926a61da4b0,
     0x4b4e025b010a1ccb116e, 0x74fecce162d7f156f93b, 0x69468c1c523725333503, 0xea517a29859a584f389f,
     0xc65754ba8e9259cc4f88, 0xd54a33829f2c7d2b99ce, 0x223b2dc96f4d38874520, 0xc56741f2ced93b7741ad,
     0x35930a531ab215c991b9, 0xc7685c1b29d299b538a2, 0x605dc22c36eff7edfae2, 0x33dbb43523d418904ee3,
     0xb4eccd42bf3528248818, 0x3dfc97a61296685bd45b, 0xf0e9dac7bde1ca3f86ff, 0x8e16aa285a9dbd6ad3a7,
     0x7bf8323987a221031113, 0xe6e7866892930a71a55b, 0x9501ae09b568ee0dd72f, 0x247a44f400582307d325,
     0x7c1a484a20061d1fc4f8, 0x5ba188b3532b6589d426, 0x0bc1c40fc52fabf6c8c6, 0x98738191877c9f506650,
     0xc3ccff7a9c251473944b, 0x8a519823529620a8e90f, 0x3836c451eceae4eae98e, 0x44471375eab1900a66d1,
     0x17d5d72f9e5686d1989c, 0x24a28284adee50d8c152, 0xf1a7a296fe346ff2f737, 0x537fa54f4a5ee5652cb1,
     0xc5227bbeb09961c8f354, 0x209c6e451adf685c8032, 0xadd3a4ac28eb02c831c0, 0x745b9be020721293c293,
     0x2b77cb2c08aa48070577, 0x276d431b75c5da1d6b41, 0x6b565cf30e8b17a2e815, 0x63bd07facfea1be76dc1,
     0xf38a0b214e6647a4d4ed, 0x3bfa7c65ac4d38da4f2a, 0xc952b16e1faebade8c1d, 0x7349dc7b04dfdadc24d6,
     0xe10a1a308500eae1c8a9, 0x9884dda68be6bf962b9f, 0x27ce714d4bdc21cb2f17, 0xa8a598a37ab12479921d,
     0xbd8d228db81a5e0c3f00, 0xe7e69b43cce19f1cde17] [0x59, 0xfd, 0xf4, 0xfc]"

definition keys_b_ps4 :: bytes where
  "keys_b_ps4 = table_bytes [
     0x76659de4f76c451f7342, 0x47c39232f4386f28cffa, 0x4184be1b5a2399facd74, 0xf03b43c9d13066775eac,
     0x398e8a6c5cfedd80f303, 0x0430849d12ee4ae30f5e, 0x5e97d0f91b570574035a, 0x5d41da6efd4b1ec44b76,
     0xe4d339eb3c2cae27e298, 0xe408a3beb0316914a36c, 0xdffc1f560dfe5512975e, 0xad3d9beeb5ada35685c3,
     0xbd9befac55981fafb80b, 0xaeedf38734c95b69f0ed, 0x4f0340a57124a2239352, 0xe987c4794fe920bc0458,
     0x7096b1d737c4294d3d52, 0xd3cf7c08e982c699f5db, 0x60119b9d258608b37727, 0xa82cf9282f2b706c4bbb,
     0x1e493ed669d8e809f49c, 0x0932dfdde10b410e263e, 0x53cc7ad11516fbc309d3, 0xada4eaa34abef2889a34,
     0x7b094144f15e3c4f0e9f, 0x5a95577afebec8241f98, 0x851e257490dd5ad17c02, 0xbe63e5c7a20b26df2084,
     0x61e3ff2c69329162f811, 0x7cf21ee51ec1b22a848e, 0x3a78f6f676764e344f24, 0xf08c34af957a35265e28,
     0xe32c66f97f35fcadfe6e, 0x4be15c48ec1ababdac73, 0x7ae8bcadba5ea6f0b85a, 0x512a97e4348a3b646197,
     0x575929877680780591c0, 0xa55e7b5aa57b2f8d077d, 0xfa7532e8480c68bf70b3, 0x7988c0bdbc499a9a07b8,
     0xa3c2b41dca2490e82fe8, 0x9f28ba40175056cf4ec8, 0x82cb77f1748def0b4c1f, 0x3d4dd24e662f13e78ab6,
     0xead1d736f3516507c188, 0x7daef4b889b5cedd27be, 0x6f6c818f56020d49e43f, 0x609355a368755dc55a09,
     0x90dc8faa9f47f6a9addb, 0x5be264cec126ebeba003, 0x2361149e7248c2103d73, 0xc3c92201682c3c98a585,
     0x0da4ecc6fc7dff2cae60, 0xc4b071b9bcdb29c6780b, 0xf68238ed35b7922feba9, 0xe7c31aa2ae4451716e8c,
     0x219f9c5d9872a32e7449, 0x70af857b146656998907, 0xc4a9c2c2b339a6f55b3f, 0x30cc2d0322b42a271a46,
     0xbce5f61934c1066f2884, 0xe1e3b021218434338d01, 0x26445fa3561946c17829, 0x380b9fe1f12bfc019171,
     0x1ca59cb6e15efa26563f, 0xa8b2d1e4f3690836acd6, 0x67b6e6b8c7a67a1049e7, 0xba6fbfe825afc2dff3a1,
     0x76f42b8c6f01ce9630d2, 0x2df86caded1ee57adf37, 0xe6ffed9d5fa9fbf1bcc7, 0x475a6f7783180eba182b,
     0x38b4363236dc98ec16a1, 0x684295eead434c3d31cf, 0xdb57ae0f7852d8a6474b, 0xba94c2d297562bb0bd43,
     0x30054b307b8be4ee61c4, 0xcdcb08b1162ea3e4200e, 0xd5021781ba43f7027a0e, 0x77154503aa848856b1ee,
     0x3a1fe628fd9f05818dbf, 0x53a15bbd9c79532873ba, 0x0d72e714ed5db79509a0, 0xbfef75a120a42d16a658,
     0x61933a6240ca4eefe431, 0x18d139357c78e36c768a, 0x37ddc38e60e20d67fce7, 0x378848b6e44b87e6048c,
     0x06d8c74e9a979d9da1fa, 0x11278c34e702550f6ec6, 0xcd6bc4f0a1056b3fc4c9, 0x4795851f806a23e7249f,
     0xc3d09d17ea2ffafae4a6, 0x889a570c5bfeb4673ef0, 0x0a58a0c8c716d60b419e, 0xa9debf17490882c44e56,
     0x53b04e231da807de98f8, 0xe9ec453b50f6b6a3dcfa, 0xa186d3fadab61d27ed3d, 0x17c9ccf62f7dea3b3d58,
     0xb7f04aaef92fa080e9de, 0x2e303cd646ca5025f7a2, 0x66eca56e066e003e086c, 0xe63bfbc8a7d01ec82524,
     0x110b390f70d9f8ff5454, 0x9d02ab4c8c9094e50ed5, 0x6278aba59c111c70079b, 0x2ae4fbedfbcd920dbc21,
     0x25330bbff3189373edf3, 0x883b4397ce1925f5bb71, 0x26982cd6ff324f75cc92, 0x4ee3beb8bf3389e5094c,
     0x418cb0517432ea96ce70, 0x1c5c2634663a3ae8924e, 0xd26170123c339d095723, 0x4881297fc94d06e8c56e,
     0x507c8ffaf0b4e69c7d5e, 0x0936b324c4f8e319a865, 0x3f2a849879185826295e, 0xbc3c7e80aa04431bbd36,
     0xef5cc678fba6fd266aa4, 0xb62e92b77a02a7c8b047, 0xa86e6a5315817d1cb055, 0xbea9111ed0d89937ae35,
     0xfae40b4c520c123a5f09, 0x4e21c60d56e423d25e86, 0x7f04b01ceb9f5017cc8e, 0xf98f0091eea7a49159b7,
     0x119e8740e241080fec40, 0xbc8c3014cc97c9f0507b, 0x5c18e21b027fdac0e623, 0x4b48bbe801e9d4b852fa,
     0x3699dd038d21d316172c, 0x25207092d557cbff7016, 0x3318f3311ab0072782c5, 0x13863db522fb7d2a4d45,
     0xaa2f46671e9fc48b3ab8, 0x8c563ca4fee793b2edc8, 0x193cc05d38b0a254e871, 0xd169c7b8dc330c3b8ff4,
     0x37233d1e7b50c54c3a6a, 0x8da82b3d8c634e5279ea, 0x7fa20cc0dcba600486a5, 0xd62bab2a17be95112d14,
     0x4ec142a38eaf574d84d9, 0x3c91b945096af5b3244a, 0x2d694651659a37117dde, 0x9c7c11af81fadf1e5dff,
     0xb2643375237f99c2a6b8, 0x30dfd2b65a356bc528b0, 0x601a85592e2b8b8f9a4c, 0xd29b901e955af3ac3478,
     0x8ceb67096b95735e541f, 0x05d6e4f43b4d93138aa2, 0x3662b976dc77f710f673, 0xb74990539abe969d4cd4,
     0xf5091588e8c7bd041ef8, 0x70887df92cf4805c6f55, 0x73f2a090b4b4b980493a, 0xc5da848c268490c12ba6,
     0xac482d376127d218b851, 0x280b13bb3558e6f02418, 0x28426dddbae864f2ff47, 0x27591655cc5b54a3e2fb,
     0xef14688dbf2e9abcfab8, 0x8e5e378a1b6709e80bed, 0x44711605bc5b2af88add, 0xd9745373b0d9b9fdd667,
     0x527e2c5036d03bf71fd8, 0x4a0611f3211f6e8f2444, 0xb8a1ba0abb6c18028ee7, 0x5bedaa39bbb59900d962,
     0x265f263e8e4911d42e70, 0x5e790863fb8d708f4f1d, 0x4f3372cdb1bd204c747f, 0xde54e31eb10db1eb5c63,
     0xd6c9af82a6c519e7962f, 0xaf19794ae478d0b3fcff, 0xd78f3593412d59f2d8cc, 0x76b83af7df1ca885d5f8,
     0x54637536ea305a1374f9, 0x6d5527040ba0a06d9e3a, 0x93bf4e922885e4cfc506, 0xa7175aecc2606aab1b50,
     0xc90b849a82451e29cc85, 0x5aa8d490fba72f89a780, 0xd069b6cae0004ee8ea12, 0x7485c835ea1d237597cb,
     0x1d946f2aa97a32c592f0, 0x0a28bd77bcbeaea7a834, 0x9626af832a8ee9daadb2, 0x529474697019c4c836f3,
     0x0f320f6f2b75ac0e9d91, 0x1f06bae39c7fde163a3f, 0xfd7d886190ca98c1cfa5, 0x501fb38cf98ce99fa3d3,
     0xd7ce7fdfd28e849c24c3, 0x85b1c6948fbb55838ea3, 0xc7f58e7ee6301306619e, 0x6324270301efec6db156,
     0x86d9f32efce2bba5a7aa, 0x9c06f33604aebd0f6fb9, 0xc74279fdac8f1ccc019f, 0x453a52a22031f65dea4e,
     0xe7139d79e88162cdaf2e, 0x6bb51b75fe61f7cf4d90, 0xdfe8562396e4ab5da5d8, 0x2e9e0c3027a32c10da79,
     0xafb9166a8933e746ef43, 0xe55eb638aa07b65dd857, 0x4b94bdd0739cf9a9318a, 0x71e5f0e6fb4ec4c74bfe,
     0xe21ebc77ba3b2ca2712e, 0xf1d733a2ae2d896acb63, 0xed8d831096b443efc2e6, 0x49132f0a09aecaa801ff,
     0xc965878d20985ffb25e0, 0x7a3acbf8487e18cc4c66, 0xd3761093a27d3b0d49ca, 0xa9182a50e2b3dc773c23,
     0x84fee786397fc718caae, 0x79fc4427f9bccedbdae9, 0xd58390fb8c794bc91b6b, 0x570a88fc807d1710327d,
     0xf587f718d67a605c2b4a, 0x190aea3fd15b5e93389f, 0xc9fc6c6791d60c3b1ea6, 0x2d1a7174576746a293af,
     0x9d850e0b1d3984e17c8a, 0x11ed7bfe98af2b7ae6c6, 0x70f7ce13e65a967e5d76, 0x30fc22dc4eb2d5596654,
     0x7025831f16f00a72d5b1, 0x698613b86c0fe05add5e, 0x269a9ebc94dfd0084fc9, 0x87f3d56dad65bd52d210,
     0x71ca4be572cdaea79c51, 0x5204e5cb80fa231b4a0d, 0x838aa691ef1008052a39, 0x142fdb1f968de15808d0,
     0x656d838f71e0879096ce, 0xa4a030f756d488610861, 0xdad1368a923fb1d4d06f, 0x579bb4e29612ad934bd6,
     0x5937084f7ac87f378e11, 0x5f07d25ebe54cba8c62e, 0xfc237eab4024194c5119, 0x52ccc27063c6341c9714,
     0xb1fed3e698f2d7775a69, 0xc6f60fb962ae4ab0333a, 0x43162b66bfc68c418d0f, 0x947977810123d95e8174,
     0x1d871176c60f409172e9, 0x7d51b872a96f231d3233, 0xded8f79c52a46d4f3f9e, 0xe4fa258f27788dde39a2,
     0xfdd13901ebceac60e49f, 0x698bf8d1857074ad1e30, 0x899f8458ffd58441a668, 0x16c8079b7a3329055c0e,
     0x08944d1880ba10824e92, 0x60a8ff1a0e46571e6567, 0x258d28b1db66cac0bca9, 0x908a74529768323460b0,
     0x3060d58915091f95c541, 0xe2027a817d49dd8c2605, 0xfeeda812a43d82653d87, 0xed9586803fc6cd275856,
     0xca23caa4d80611b424c8, 0x8ac53642e3d4f7af74ac, 0x89ee472e8bded085d42e, 0xb4ae999688e26099fb62,
     0x5f8ba724e2c3724c6f1d, 0xcdc13a320698b5928298, 0xb17dcaa1e14de1e5af3a, 0x080d6833b8c0c3fdb990,
     0x4758cab28d2d757dbbd3, 0xc30f7da75a5a256f12d8, 0x69d4c12019654d367c7f, 0xc44700cb2c6413060a37,
     0x1d1d7d899c21d0aaa901, 0xeeb270c7c31160d973c9, 0xea6d8a1b0f691db39582, 0x52f4a94e258575de123c,
     0x11710688f03993293a94, 0x7c7342ea597c1d931a14, 0x104c5e921a9e71f142b9, 0x72137d994a288b92481d,
     0x781904f8c4f3b11c2f56, 0xb6f68700bd8c8c56e138, 0xf86d19e77e3052c64772, 0xc9a130ef8cf623bffbd0,
     0xbb51a9f61da7d2c7aaa6, 0xc8a6a6618f8c22ee6eb5, 0x2189720ebe00cf088009, 0x064dd4d4eab6a08e71c8,
     0x7316db550fedbfb74041, 0x9a47fcad5bf4863c98d1, 0xaa5115c310558e5df79d, 0xd41135e705117d0f2b44,
     0xfe127f39a619918bd0ac, 0x2c18636a33c275d2cdf7, 0x2246cad1f9c01508c710, 0x67d142132722c3e39466,
     0x00bf2f7dfbc56fb90324, 0xcefbf46bade047da5fea, 0x61fd6a7698157672ef95, 0x77933b23de09381c7bd5,
     0xd15cc5c4340cd8c205b7, 0xe5b5c97bc128eac80798, 0xe2ab7324fbefce0aa7b9, 0x8deb310982f29c4df11a,
     0x4a7935a77b7bf0a9e7b9, 0xf952637329e4d413192a, 0xf29d4ecc2ab3df95c5b6, 0x9134f4102ee70df83a6d,
     0xdd3057ec0570ef808c8a, 0xe12e9ed4d1b4dc1487f5, 0x974b2cd993713a1525a0, 0x8ab293b562f781099c8d,
     0xe509b2da07f233f65cd2, 0x71b1afea6205f35fd9b1, 0x8ed15df9898578d55456, 0x6cd42045e703cc257ede,
     0x403db2469059c2fcdc15, 0xd4805bd8ec2e49d7d845, 0x0e7dba093260db64d644, 0xd7eab4b1b6fc1bde4a48,
     0xa16c5b5a1f355518d2ae, 0x88465f2d25b0d94f40bb, 0x23409f85194ed4fccdc4, 0x599827e27eab36525130,
     0xf4b4f3a18d8701e52d42, 0x4b877095de9d80364e8a, 0x14401c2789e142ee7787, 0x4f4db0383f0567e39c88,
     0xd86875f3f9928e78be43, 0xb928a92edec9bd48994d, 0x7db6ba3b31209f0cc490, 0xae4a33175813b5fdecef,
     0x87210ccebdbd856107b8, 0x7f93aabdc6ae632c126a, 0xaae29df855acc3a340f8, 0xadfb21895c90214057fb,
     0x085d2883cc4676442ee4, 0x5be73779c7c80a0bc2b6, 0x17488c2b67d6f933e0bd, 0x6bea797d6d5b237e5e5d,
     0x53cf01ea865f8a4b1f32, 0xcddb30e3273f104bba3c, 0xf94278520187edf415a4, 0x8da01dc789f54f992804,
     0xa787f89b77180ab859f3, 0xcd74f1d51361ca0295e6, 0x5030968335f8d2ead7d6, 0x5fbfab9b91c9c49357b5,
     0x55b683b0831778c9b6a5, 0x559b2d081f09371c0a3a] [0xdc, 0x32, 0xeb, 0x20]"

definition keys_b_ps5 :: bytes where
  "keys_b_ps5 = table_bytes [
     0xe134171df517dae11be6, 0x0c7335d46b4228cd4706, 0x4e9687d59d09e724a01b, 0xad326d0675df776989eb,
     0x0324d63123c0f60d600c, 0xb6ad4bba9eb266fd8db5, 0xddc9f767c3933f1ec187, 0x5c34ae2444c034f3d91e,
     0x3b620ba000a21e139ba6, 0xe88b91b142b12ba7cec6, 0x856ee922fc6d77b29b71, 0x5d1af4b69372ae46405d,
     0x263098f8c7beb72c6e1b, 0x13327ab281a696c4e815, 0x82c4eac32870af3ff67f, 0x13a6732729df1738d4b0,
     0x72ed91b5b1e6d73a34a9, 0x67456702c2c63c22f022, 0xecff7dda2ce467476b31, 0x63f4b35ddb4733a61c21,
     0xa3480f7fc9841a570dd5, 0x72d6203436410e4311e5, 0x43910569cf797090c57a, 0xf3b13d590859e141ae65,
     0x2e5ccb048d4cac502193, 0x0636b6e0b1dc4c98488f, 0x95126440876bddf7790a, 0xc11d67f9f5f8ce75940a,
     0x6617ec17eefaf6888beb, 0x2e06f1771d22d34c4f8d, 0xa86a53c7d472b4ec979d, 0x3148ed62d24094234c10,
     0x37203bb69f1c99cfce9d, 0xdae7c93288e91d37b5a7, 0x8b198a50502da9894e6e, 0x7dbfd27ee1a26b3ef133,
     0x0e748896d8a3002d9baf, 0x71ac68632fa9466c735d, 0xb0d692a303c493b6487f, 0x3c151bb1e040568f63a6,
     0x94c98bde662a5f324a8d, 0xa650dfdfaa20e1eb7105, 0xd7cae1a879bc83947485, 0x5889c85997aaf0fa5a37,
     0xa74a13e6360fe6452989, 0xb61132db0d7558e29a1a, 0x1b08662a3d66e12482e6, 0x0bc5e6d79c18a34d2f4e,
     0x46d62176afada9d837d1, 0x3dfe3224dcc4be692e97, 0x8f09b1559b3de2461c99, 0x274d06ff727aefe99ac4,
     0xe993c4f0b664a9eaf209, 0xd6a3206cd11bd77f7400, 0xf560f8f49993a5c22bb1, 0xe98339334d160bb8a66d,
     0x309b97be9f0c1e4eff3a, 0xe20615ba579d60764d50, 0x886d8b9df9703d668711, 0x1e9a24aaa5e8f8386c3e,
     0x6ddae5fcde9e2ae4e6ee, 0x07ce485ed8272310c972, 0x9d7cd95da8ba8a1e22ef, 0x46226f792e6f73bfcdcf,
     0x4f13dc5d510bd5a976c5, 0xe3c090e93228fc9ff188, 0x1fa6b34504a71cbd66e7, 0xbbc14942db524bbbd963,
     0x8f6d9d3bd7e349bc7cd9, 0xdb50676f076d082aea02, 0xebbe22d1171bfa391c6c, 0xda5637d38ef4e322aa6c,
     0xc175714c2136fbe00254, 0x6a4831407b647c7631e5, 0x0fc1d8b429d99c0c80ce, 0xa37c2f0f4c11b53d8593,
     0xbd60d45c3f4154e650b1, 0xb1ed851930816a95fe4a, 0x9328123ddc76ac59e6e3, 0x56811d29f96548c37050,
     0x2f2c4c6901dc753d14ff, 0x5faf6ac7c1a33b12a56d, 0xd795dd3d7067cb2f225d, 0xac9df21c6a274559295a,
     0x4f6c34434394d1e61dde, 0xda7c4fdff6a142de88c7, 0xccbb99b049a59d6aae3f, 0xb0592cfab86626f5dbb7,
     0xe8c5b345fad2d3ec1bcf, 0x83c596669227d488bf3a, 0x7e0022b28a80fef9751a, 0xd1ccaf979f6cd67f1f6e,
     0xe15f772b96d62173f96a, 0x8e9965190f91e751572c, 0x597bdcb28406126df961, 0x4ca74f2c8a58fbc36c90,
     0x9bc3197234449b2f53c3, 0x6f4ef7ff7f2204d45cd7, 0x180729c83e2bbea9ba17, 0x3bcba8b0639009224dbf,
     0x54314f418baa8b8e1907, 0x6062dc4b996495eaf6cc, 0xfc97e57fd4d9b99b5a28, 0x058f307d5f1155626498,
     0x9c2a6b6e64ac3f1fbc45, 0x980eed5192198411b88f, 0xe7b77a9bc0415085c9c2, 0x0ee984b5cc72a6ecd4dd,
     0x6f2fd0b6a603aad3991c, 0xb75f7ada9fe7ffa58e77, 0x4c1485d0783c0faf1c5c, 0x09796cb464a186d0b2fa,
     0xebfcdaf3423a43b0d224, 0xfe04d1314777de0fb455, 0x2883145ed54d99cef1b9, 0x486ef817d50aa0a37ace,
     0x9a1a2983fc425873482c, 0x18dd46b60f5ebea33e2e, 0xa0d6efe8f888d8044453, 0x093307fc7005c74e56ea,
     0x27be156c0aa7045a3536, 0x1c9eeb88eedd634c34a9, 0x7093c8ea83796f0e25c5, 0x0b3255bc0a759082a218,
     0x2f12263192eb47386062, 0xe9ceb04288e6843c1337, 0x4d2b7401ef07b69e992a, 0x844b6f419a8b0e01bb51,
     0xf9737b7a5150688a41be, 0xb691f65de966effdf38e, 0xe224cbca5bc575873f15, 0x6ed3c06fe261ab977d22,
     0x67ef3b84b3e76c99772f, 0xeda8d1f66038851aef91, 0x7d40a93a6e45e0998380, 0x7402e304e67a64c9088a,
     0xa49e6401cea1b83bf622, 0x0d8c7bf8fcd8f092dc95, 0xdda805de592fc2178dfa, 0x6f7b2d074d533e806c5d,
     0x62e4e19f938a2e59dead, 0x44ec471268fd6f8714d5, 0x0ce193ecc0a1934d2dff, 0x270018e2b340df1d5605,
     0xb6423c76ded20da6af8b, 0x71937d923f55f0993426, 0xa2a5c815e9916fd7c1c7, 0xe6c5a1ba088e78ac3bd2,
     0xd3c44699977d7127c92f, 0x157c65c22b40c86c058b, 0x6f1efc1f78d8489a2fb4, 0x38b7fc92db974d034cf9,
     0xba693f41bb39ba3e74ac, 0x8e578d456b9d8aa116b0, 0xea7d12e5080dc2ba4f52, 0xdbb8b64c07b2dcbcc777,
     0x01b0dafd152b5ece5d2c, 0x6b55bb5b44d1f8369b81, 0x193a4718932340aa147f, 0xe3b5d61e702685b35127,
     0x1c45cab747a998f3b3a9, 0x3733bf108295cea9a457, 0x9cecdefb2b2bd8c76de4, 0x4c297e6efb26e64217df,
     0xd01fc2b771d8446bf600, 0x7851a0572875000e4fac, 0x3de63875a01acf4220a0, 0x228380b3f65f1585b58d,
     0xd7aef2b8b1c1b7d6e89f, 0x6a68317dbef375aa24c3, 0x41a7fcafd3d171b060cc, 0x35be09497ff6970bf16b,
     0xe52dec83538a20b996bb, 0x611e4732022ae51ca89f, 0xecbe2b46a6149b84ed92, 0x90ee08654b06992384ba,
     0x97c18c42de2e95e49de0, 0x6f8d1589a98b742af94b, 0xc776d4f553ae95444f61, 0x86129ff2e23741098652,
     0x3faca4984e426c81c082, 0x82c24cca8077d1083b90, 0x63978c80ab48ba1b5977, 0x3778b095d25babd8f6f1,
     0xcf401a6e406195392a17, 0x5851daeb4c08f194ed44, 0x48bbaadd7876303186fd, 0x91d7f8d9d41a5a923f16,
     0x1148f8397963a2009413, 0x70e8c17e93f73958ee3b, 0xfa81e6c364316bfdf801, 0x7514acb5182fefd5424d,
     0xa1a546925b373d3f99d2, 0x23d87510817691db3df3, 0x19bffcfcb16c3b6a67f0, 0xb90a6ec2c61288547866,
     0x68b6e781396f1845344c, 0x99aa4d23f85fcbe7ecbe, 0xbef33793967d4f5795f5, 0xea6acad14e8af04634c5,
     0x7978ce79479eb792512d, 0x8f5dab9a5e4a2d392c11, 0x24220fac65bfd6daef82, 0x00fb405355f7e5a56a84,
     0xc6361a72a62ae0b2a3fe, 0x1f329cff8a3cccd1f08c, 0x99bed182b6748882996e, 0xdbd0e2023bee44237014,
     0x1a376b09b20d794bf6a3, 0x639cb32929c6c9280ace, 0xf096f9bb3b7aad7e1217, 0xb6c65f1623a7bfaa4860,
     0x6083ddf32adc9211622c, 0x8dd8b6776e1a2aa534da, 0xad756488733f51feca9f, 0xe9654a1eb68105b86101,
     0x1e36416ed670e3c9a4e7, 0x1e6c55c6e8bffecf1e23, 0x99caf0a7573e8ff56f0e, 0xe9bcef2813e8f72f5ec2,
     0xbeac7937adbbe201f463, 0x7fef9abc9ba75a70fa02, 0xc6a44abbabed416c5a38, 0xbfdbb16dd7e23afe233f,
     0x6cb018cec8ed825d4d18, 0x43895706fdc2940f95da, 0x43a7bcc76139718f9d4c, 0x1ce5802d37d4d14e9aa6,
     0x6944dfa33d7b8c56710d, 0xf07cbcccde2c003ce644, 0x75be742397dbde19b843, 0x3b20403aa0de9c5e0d74,
     0x889fd6373d0fceacedb0, 0x84f6e523900479274201, 0x9e400272e1ee8095696f, 0x440c5c82232b437f55ec,
     0xf8fb23ed49921dcfefcf, 0x0204d8697f3ff88bee6f, 0x304d4b4edb8afcd3b500, 0x8052999cab469434ca0e,
     0x30ae0efbfa18638a2686, 0xb98705dc6264623a5396, 0x23c66bf6b07cca0c3090, 0x8595b87a1ba53eb60880,
     0xd564b6658d6af35a704a, 0x11798ae0ac294e841bdf, 0xcbf8c4123b6aad42071a, 0x765eda5a23441d2dc9ec,
     0x0780db6bf9b37d60b5a9, 0xe4ac571a628b2e07405d, 0x72a65543f9f4a5f7eb2d, 0xf8f6e1976d8c3cef9df8,
     0xfcdfe2bdf4966931be69, 0xe37312ab628d8cbdf125, 0xd89c13689f31b523b616, 0x1fea5d6e64db02d43f26,
     0x9a0844a805390cc216e0, 0x1571bfb46e8061f29b4f, 0xb412334d6a86e2f0d94d, 0x457a444c3c6fa53147cd,
     0x670f43a42ed6e6ddc2f0, 0xa87e0f1f59813adebaa1, 0x32e698099cc42ac41cf5, 0x1031fbcf96550fec5d63,
     0x4fcb742735f33a6b9930, 0x47bbf96008777defd28c, 0xbda939dac16adb0b7194, 0xbae6c209d66700e27c1b,
     0x8f890991c1ee51af098a, 0x95edd9862af2c6fd722f, 0x3d189f7f4a6a989e6e48, 0xe069329780e97a2b5a5c,
     0xdbcb58f38b7f2c059fa6, 0xbf98c859200e6cab9976, 0xc8a2e97831e8c11fda9d, 0x6ad396bdbfda522a3e48,
     0x2fd01fac85f99ca717a9, 0x2575b0541c15c7172979, 0xb9906a4d3a08265030a7, 0x41569f0bb26afa1ba9fc,
     0xab504885710d68559196, 0xa28751daf84cfb636a5f, 0xa9cbf012a507b8e095b7, 0x812a471e342cb5d02784,
     0xee33d1c473adc305aa18, 0x87b4960c5fe2d03000c7, 0x2280e3d4f2d555725961, 0x3fea4a5df7b244169635,
     0x733377eeeb65ef41c2e0, 0xcc040990a0e3ec658de1, 0xcaa775b49298dd88cd48, 0x0cf9b045bd9f988d5a50,
     0x4765686fc308784cbcbc, 0x8f16486908f503c5259c, 0x903f54807c9d90267756, 0xca1c89fec8d13c1bc420,
     0x64c861091e3621cd94b3, 0x03d9bc3037c6ff98e27b, 0xc402cf48785cddf81b7b, 0x1e21af2a1be32c1a3533,
     0x8fffac413d4181401375, 0xfc449e57e57d4c3a61a4, 0x17cf281a90c256a96203, 0xd1bd7754706a96cebde0,
     0x862f2c1b2c3294d3819b, 0x45b9901ff7cab4e6cc29, 0x12568c2dd16863f16f39, 0x16e92455cd3dd731a246,
     0xee9ca2738c755cc54812, 0xd7187eea052311551c07, 0xdda3ca4b844cf4f4c4d3, 0xb1c233b09c8586b880d6,
     0xe376ba3884caa81e3048, 0xf38b37f1167857cbf44d, 0x2c8fb82cae4e314deeb9, 0x5031e457d4af3ff08ddb,
     0xe64b11687281b8e33619, 0x96af4f3d8a3d805b68db, 0xb73f9743ca7d3c268103, 0xe1a9187991bd0f012a0e,
     0xbf928351690807823b02, 0x8c8c37d9fb43fe5c64e5, 0x5a23e3ec08a1826a0b9f, 0x7b7806ada0a7496b6762,
     0x930e17a335220f1b7530, 0xffb1fcef2e0508283d44, 0x8a4a03e3dede871af9d9, 0x14824de4e196d2242271,
     0xb38d61aebc25c956a7c7, 0xaaa6dbfb5374a5e82428, 0xac5d501d1d52a525da6b, 0xee4bba7d5762e0aad1a6,
     0xe893699e6948a9f2c143, 0xfd801a775aca31b1c68c, 0x2fb0b704388376fc5f6b, 0x62b2a479c6618248fc1b,
     0x546913d59b68125b4acf, 0xa2b9509fc0cce618c804, 0xafc05b1da5a74cbe79c7, 0x51cebbfd2f653e3469ed,
     0x8dc60962331258f24f96, 0x8eb293f8bff8eb834c3b, 0xc1264c451f6e04e3cf13, 0x3b34b436484ad23d8ad6,
     0x57987417ba143a589968, 0xad2b816f5763521936fe, 0x1dcb73a135b2f1f1269e, 0x2bf31bcd10d79229651e,
     0x028d084e68d370f787e5, 0x5304a443c530744c5ee1, 0xf6a8d85595c842d8fc3d, 0x2e8d8f0a2076d37afb07,
     0xbad807ef293a3d8190af, 0x0c139672b63c0e57963e, 0x5191dbb02ddf31392129, 0xbb170a236be4dc6927c4,
     0x2098fd34ca7a662058d2, 0x367f2ba7d1de6f36b4f2] [0x3b, 0x20, 0x5d, 0x02]"

definition ps4_keys_1 :: bytes where
  "ps4_keys_1 = table_bytes [
     0xc848c2b408eb88f75f4a, 0x092d591f09cd1c18f47a, 0x284a966db3597153757e, 0x825057e459b3f4496940,
     0xeb17c99f179771aec960, 0x7ff82e0894e843eada6b, 0xe51959331f89ae47577b, 0x1c66feff95bf556bd593,
     0x27eaa62467399fd30caa, 0x2642e7664dd81875fe44, 0x0346ee3ef83cb7859703, 0x070692ff5917270b21f7,
     0x057f69900e3891c66723, 0x48ba088e57dd91d04047, 0x1c5bbfc8063f96a0dc00, 0xe59af53b908066bb0f93,
     0x30072b5645a09ab1b072, 0x0ce4dd70dd7c5abfd4e8, 0x0dca37e50efd12ee799a, 0x5ea71e31af1f4652caf3,
     0x42003df2897c1c7760b7, 0x4a8076474b3fb6912f9c, 0xc2f1ad4429cb328c0a8d, 0x057546a1f8da1aa720de,
     0x3259fe70b587f392fdb4, 0xdff4a6e37d983be1ba18, 0xdb61d1c2a6ee0825fa86, 0x8a7bfebc02bd225f2530,
     0x515d28365a298e52eb49, 0x14287f0ac46925856bec, 0x333357ab5013cfe77378, 0x23064d1fbb3811b16e6c,
     0x6fcd4b0e428580bba839, 0x68c95bbb465886885788, 0x5eea7c37dffd02394589, 0x2ef2e4f008c0b6eb9c6e,
     0x7a81a32646fee1703c3e, 0x117a32ce45027d32cd08, 0x0706a3a8f734feee06b0, 0x14d66b2d2e01af7711ec,
     0x1f3138179cd0e0c54da4, 0xd6adb9e6e1e3e29e4491, 0x9a5e26caccda4dd7786a, 0x75a619adcc62c7b60d14,
     0xb1beebcb10cfa9eee242, 0x08358a5cbcf149fe6478, 0x03490c85f0e47726d25e, 0xf5c13b3d2dcccf2aaced,
     0x8852746dbfb2b9f75851, 0x1c50f63df2c4470a2130, 0x47812de4750d8f2d22b0] [0x63, 0x27]"

definition ps5_keys_1 :: bytes where
  "ps5_keys_1 = table_bytes [
     0x794d7830fe10524ca890, 0x5b9a7e5fd3e113e0f10f, 0xa3e7bb457fdc8ed5f104, 0x5c7851eff86559033984,
     0x37ae59df23b66034e64b, 0xe2f54c13c6daf9fdb365, 0x84d645ec2c00f2eddccb, 0x936e6146e5d60194ee78,
     0x850e685eb55bcdd36341, 0xfc81431c6f7cbae8bd86, 0x31d5707fb54a903e84e1, 0x71e00299f471e702ed36,
     0xafde56c290e0aec2f9af, 0x53c6d862163227fb6e9b, 0x48c6eaff6f780222982c, 0x1fbfb08ea939bcdf17de,
     0xd70ee17a010ec387fcaa, 0xe46b0f5b0af118198ae5, 0x2c369b403099249448d7, 0x47b2af6b8c409e4d6d34,
     0x07c1262fbb14f7bc3652, 0xbd84fe4a9af48adb3489, 0xaaf10d940b92f41ce46c, 0x792d6ec0190ad5559414,
     0x0513c26223b3d426c444, 0x567acd1cead474b93640, 0x9f08fb4962059298ad1d, 0x9f8a768bd40f214076b6,
     0x1691459366cc12ea4df4, 0x09e2ac33d06f4351073e, 0xd7952c1e1f0c24b30e3a, 0xef95f5eb77dd20f23598,
     0xf2aea966e613ef5d3a2d, 0x66ede21ee9324a40bf37, 0xc67029d98ca1614a293d, 0xc7559c949ec911451028,
     0xa727d1d3d08479c7a9b0, 0xf6af458c3cd4df3bf70d, 0xa24f13977827f048c0a5, 0xab830105d012d71e123a,
     0x4e9877aebab14eb53b59, 0xca6da51180919c076959, 0x5a53707c9597116d668d, 0xa3bdbb2db0bf9b10cbc7,
     0x0f5b7e67e2b04bba1012, 0xb9bc97fd48e48ac10fa1, 0x309d5620241a7d5ba0b4, 0xbe9d384fb456a84d137c,
     0x44e88497eb782c5285e4, 0xa2f6f3d9719eeeb81147, 0xfba91bc740c6e1196d50] [0xa1, 0x2a]"

definition ps4_keys_0 :: bytes where
  "ps4_keys_0 = table_bytes [
     0xbece5df0c17db5d0cb30, 0x135daa5623fbc4bcf18f, 0x3857fbd4d43f2638b5ce, 0xed6a21bc38d01e68cc7b,
     0x45d1be421a08aa16fdb0, 0xc0f4da35e912fd210748, 0x34c1fc9f8cb6cb5db29c, 0x84e01afaa0c7eb3a93b3,
     0xb3f115af13bd21abea5b, 0x80506b311d7c1d40ba3c, 0x560ee7943a5ba1408074, 0x0aad28cf47df42a669e9,
     0x5ebbc0c00eb2c58aee08, 0x03d284e591001d460655, 0x099d399fd8e7fdad9e93, 0x97c5eae7a310a7f2a293,
     0x7f0704b4eebbbf88239c, 0x6ea762b14b671eb83b1f, 0x64935a99ecdafd0c6ab7, 0xfee412763265b84123d1,
     0x17099c242d5c9d1279de, 0xa1ce69aca4bc392f5738, 0x84612d2ae804f8d59d0b, 0xff7e560cec870a1eabdf,
     0x938113eecf32025abfb0, 0x17b7bab57ff0017be1cb, 0x397e606da4756e299245, 0xa64f7400867873befd3e,
     0xe0d10c6c0b4909836c85, 0x8a1dcb16ce817c49c92c, 0x6361dee23f98b273f09a, 0xec7b7cf1c9e17fa5198b,
     0x4be838a4347df428fe0d, 0x4d11570c95f1afd73480, 0xf4eb9b50e66a5deace0c, 0x854ec55b9344c4249880,
     0xfcf7729c310bee8967b3, 0xa2694fb3795a140270ed, 0x501375006af3c6051a00, 0x3334f5ac9e04dbc200b0,
     0x1bc4f3979d7fbeb8238d, 0x99e7cb74374c57ecd269, 0x49467574af5140a4117b, 0xb32f51dae2ef33731218,
     0x25390309ca49dc8ef194, 0xd780179e8746c10478d1, 0xe53d2588ec723a284168, 0x146e10e4c9577590fe22,
     0x1a638ef4b88d1a36fdb6, 0xcb72c297529f91721b75, 0x57903bfd5a938cdbfca3] [0x03, 0xdf]"

definition ps5_keys_0 :: bytes where
  "ps5_keys_0 = table_bytes [
     0x24d8c2694c677871ee31, 0xbd2b83b21d61c9a78eed, 0x9ad36a6b5cc83579a724, 0xe21706602edff4db2710,
     0x55d9ea164e900cbf406f, 0x54a531702d5d1e27df37, 0x40ba9d5dffe1057080d4, 0xb7c2967f2f42eb5a08de,
     0xc1b55215f6b5f2d969a5, 0xc7c47f4664a4fd4698a7, 0xe12a8e6faf654228b9c2, 0x6f3ee3e44ee45b9d6010,
     0xb85ab07d040c4c2478bd, 0xb8badb8fe3a0756d28c2, 0x335b3283dd51b0a58d09, 0x66e45cb8700be68214b6,
     0xd2b0c2e055f384ad9d3a, 0xf877f59d9aa97df1451b, 0x9b5525d8c1ff03a5480b, 0x1b190cbde0cd48f32c99,
     0x19d6b8bbd635436f71e3, 0xef3e97b8e940a847e0e0, 0x01169da7e5944b1dd280, 0xa27ff29810380db856c3,
     0x7a4b4c85ec2f2389afd5, 0xba9aadb0619c51b46d02, 0x4926a43484203530230a, 0x4714321a960ee80f9696,
     0xd4ba683a671574e0d660, 0x4c685073142f1159acc8, 0x32d1db4c8a94753361d1, 0xd4fdaa6a6168d8ae314f,
     0xb8077b270ff90bb0c264, 0xb372ea8b874009b482b4, 0xad76f936056089c820eb, 0xa5f1510b27a7f0768496,
     0xebb12ec28528bc4834d4, 0x018d5b2554e0c44fa0fa, 0x998d6d7a64b1a95da4f9, 0xf522eb9af4a87a784b7f,
     0xe28b0450437d262d1998, 0x386a4f2d30152e4fcdb9, 0xce9e8d12c9fe338b84ce, 0x5b40e37f726d6c8a6a9e,
     0x54f1e3645d6e7fac1ae7, 0xf7fa0022ed2b23fa58c5, 0xeb44925dccaa829f23fb, 0xa6c9652ae07912652c34,
     0xc52316c9cc0530f3960b, 0x90671aa7694c3e43249d, 0x4e68bd8b756e9d076f1a] [0x6a, 0xba]"

lemma length_keys_a_ps4 [simp]: "length keys_a_ps4 = 3584"
  by (simp add: keys_a_ps4_def length_table_bytes)

lemma length_keys_a_ps5 [simp]: "length keys_a_ps5 = 3584"
  by (simp add: keys_a_ps5_def length_table_bytes)

lemma length_keys_b_ps4 [simp]: "length keys_b_ps4 = 3584"
  by (simp add: keys_b_ps4_def length_table_bytes)

lemma length_keys_b_ps5 [simp]: "length keys_b_ps5 = 3584"
  by (simp add: keys_b_ps5_def length_table_bytes)

lemma length_ps4_keys_1 [simp]: "length ps4_keys_1 = 512"
  by (simp add: ps4_keys_1_def length_table_bytes)

lemma length_ps5_keys_1 [simp]: "length ps5_keys_1 = 512"
  by (simp add: ps5_keys_1_def length_table_bytes)

lemma length_ps4_keys_0 [simp]: "length ps4_keys_0 = 512"
  by (simp add: ps4_keys_0_def length_table_bytes)

lemma length_ps5_keys_0 [simp]: "length ps5_keys_0 = 512"
  by (simp add: ps5_keys_0_def length_table_bytes)

end
