(* ===== verification/RPCrypt.thy ===== *)
theory RPCrypt
  imports Common RPCryptTables
begin

text \<open>
  \<^verbatim>\<open>lib/src/rpcrypt.c\<close>: the keys of a session ("bright", "ambassador") from the nonce of the console
  and the registration secret ("morning"), the disguise of the ambassador in a registration request
  ("aeropause"), the keys of a registration from the PIN, and the encryption of control messages.

  HMAC and AES in CFB mode belong to OpenSSL (the branch of the source modelled); they are the fields
  of \<open>rp_prims\<close>, where \<open>None\<close> is a failing library call.  A loop that writes byte i of its result
  from byte i of its inputs is \<open>for_bytes\<close>; a read outside an input or a table is undefined.
\<close>

definition for_bytes :: "nat \<Rightarrow> (nat \<Rightarrow> u8 option) \<Rightarrow> bytes option" where
  "for_bytes n f = those (map f [0..<n])"

definition CHIAKI_RPCRYPT_KEY_SIZE :: nat where "CHIAKI_RPCRYPT_KEY_SIZE = 0x10"

record rpcrypt =
  rp_target :: chiaki_target
  rp_bright :: bytes
  rp_ambassador :: bytes

record rp_prims =
  rp_hmac :: "bytes \<Rightarrow> bytes \<Rightarrow> bytes option"
  rp_cfb :: "bool \<Rightarrow> bytes \<Rightarrow> bytes \<Rightarrow> bytes \<Rightarrow> bytes option"

text \<open>What the library documents: SHA-256 gives 32 bytes, and CFB decryption with the same key and
  initialisation vector undoes encryption and keeps the length.\<close>

definition rp_prims_ok :: "rp_prims \<Rightarrow> bool" where
  "rp_prims_ok P \<longleftrightarrow> (\<forall>k d. \<exists>h. rp_hmac P k d = Some h \<and> length h = 32)
     \<and> (\<forall>k iv d. \<exists>c. rp_cfb P True k iv d = Some c \<and> length c = length d \<and> rp_cfb P False k iv c = Some d)"

subsection \<open>Keys of a session\<close>

definition echo_a :: bytes where
  "echo_a = [0x01, 0x49, 0x87, 0x9b, 0x65, 0x39, 0x8b, 0x39, 0x4b, 0x3a, 0x8d, 0x48, 0xc3, 0x0a, 0xef, 0x51]"

definition echo_b :: bytes where
  "echo_b = [0xe1, 0xec, 0x9c, 0x3a, 0xdd, 0xbd, 0x08, 0x85, 0xfc, 0x0e, 0x1d, 0x78, 0x90, 0x32, 0xc0, 0x04]"

definition bright_ambassador_ps4_pre10 :: "bytes \<Rightarrow> bytes \<Rightarrow> (bytes \<times> bytes) option" where
  "bright_ambassador_ps4_pre10 nonce morning = do {
     ambassador \<leftarrow> for_bytes CHIAKI_RPCRYPT_KEY_SIZE (\<lambda>i. do {
       v \<leftarrow> rd8 nonce i; e \<leftarrow> rd8 echo_a i;
       Some ((v - of_nat i - 0x27) XOR e) });
     bright \<leftarrow> for_bytes CHIAKI_RPCRYPT_KEY_SIZE (\<lambda>i. do {
       v \<leftarrow> rd8 morning i; e \<leftarrow> rd8 echo_b i; n \<leftarrow> rd8 nonce i;
       Some ((v - of_nat i + 0x34) XOR e XOR n) });
     Some (bright, ambassador) }"

definition target_before_ps4_10 :: "chiaki_target \<Rightarrow> bool" where
  "target_before_ps4_10 t = (sint t < sint CHIAKI_TARGET_PS4_10)"

text \<open>The row of a key table selected by a nonce byte starts at \<open>(b >> 3) * 0x70\<close>.\<close>

definition key_row :: "bytes \<Rightarrow> u8 \<Rightarrow> nat \<Rightarrow> u8 option" where
  "key_row keys b i = rd8 keys (unat (drop_bit 3 b) * 0x70 + i)"

definition bright_ambassador :: "chiaki_target \<Rightarrow> bytes \<Rightarrow> bytes \<Rightarrow> (bytes \<times> bytes) result" where
  "bright_ambassador target nonce morning =
     (if target_before_ps4_10 target then ret_err CHIAKI_ERR_INVALID_DATA
      else let ps5 = chiaki_target_is_ps5 target;
               keys_a = (if ps5 then keys_a_ps5 else keys_a_ps4);
               keys_b = (if ps5 then keys_b_ps5 else keys_b_ps4)
      in checked (do {
        n0 \<leftarrow> rd8 nonce 0;
        ambassador \<leftarrow> for_bytes CHIAKI_RPCRYPT_KEY_SIZE (\<lambda>i. do {
          v \<leftarrow> rd8 nonce i; k \<leftarrow> key_row keys_a n0 i;
          Some ((if ps5 then v - 0x2d - of_nat i else v + 0x36 + of_nat i) XOR k) });
        n7 \<leftarrow> rd8 nonce 7;
        bright \<leftarrow> for_bytes CHIAKI_RPCRYPT_KEY_SIZE (\<lambda>i. do {
          m \<leftarrow> rd8 morning i; n \<leftarrow> rd8 nonce i; k \<leftarrow> key_row keys_b n7 i;
          Some (if ps5 then (m + 0x18 + of_nat i) XOR n XOR k
                else ((k XOR m) + 0x21 + of_nat i) XOR n) });
        Some (bright, ambassador) }))"

text \<open>A status other than success fails an assertion.\<close>

definition chiaki_rpcrypt_bright_ambassador :: "chiaki_target \<Rightarrow> bytes \<Rightarrow> bytes \<Rightarrow> (bytes \<times> bytes) option" where
  "chiaki_rpcrypt_bright_ambassador target nonce morning =
     (if target = CHIAKI_TARGET_PS4_8 \<or> target = CHIAKI_TARGET_PS4_9
      then bright_ambassador_ps4_pre10 nonce morning
      else case bright_ambassador target nonce morning of
             Some (Inr r) \<Rightarrow> Some r | _ \<Rightarrow> None)"

definition chiaki_rpcrypt_init_auth :: "chiaki_target \<Rightarrow> bytes \<Rightarrow> bytes \<Rightarrow> rpcrypt option" where
  "chiaki_rpcrypt_init_auth target nonce morning = do {
     (bright, ambassador) \<leftarrow> chiaki_rpcrypt_bright_ambassador target nonce morning;
     Some \<lparr>rp_target = target, rp_bright = bright, rp_ambassador = ambassador\<rparr> }"

subsection \<open>The disguised ambassador\<close>

definition chiaki_rpcrypt_aeropause_ps4_pre10 :: "bytes \<Rightarrow> bytes option" where
  "chiaki_rpcrypt_aeropause_ps4_pre10 ambassador = for_bytes CHIAKI_RPCRYPT_KEY_SIZE (\<lambda>i. do {
     v \<leftarrow> rd8 ambassador i; e \<leftarrow> rd8 echo_b i;
     Some ((v - of_nat i - 0x29) XOR e) })"

definition chiaki_rpcrypt_aeropause :: "chiaki_target \<Rightarrow> nat \<Rightarrow> bytes \<Rightarrow> bytes result" where
  "chiaki_rpcrypt_aeropause target key_1_off ambassador =
     (if target_before_ps4_10 target then ret_err CHIAKI_ERR_INVALID_DATA
      else let keys_1 = (if chiaki_target_is_ps5 target then ps5_keys_1 else ps4_keys_1);
               wurzelbert = (if chiaki_target_is_ps5 target then - 0x2d else 0x29)
      in checked (for_bytes CHIAKI_RPCRYPT_KEY_SIZE (\<lambda>i. do {
           k \<leftarrow> rd8 keys_1 (i * 0x20 + key_1_off); a \<leftarrow> rd8 ambassador i;
           Some ((a XOR k) + wurzelbert + of_nat i) })))"

definition chiaki_rpcrypt_aeropause_psn :: "chiaki_target \<Rightarrow> nat \<Rightarrow> bytes \<Rightarrow> bytes result" where
  "chiaki_rpcrypt_aeropause_psn target key_1_off ambassador =
     (if target_before_ps4_10 target then ret_err CHIAKI_ERR_INVALID_DATA
      else let keys_1 = (if chiaki_target_is_ps5 target then ps5_keys_1 else ps4_keys_1);
               wurzelbert = (if chiaki_target_is_ps5 target then 0x2B else - 0x29)
      in checked (for_bytes CHIAKI_RPCRYPT_KEY_SIZE (\<lambda>i. do {
           k \<leftarrow> rd8 keys_1 (i * 0x20 + key_1_off); a \<leftarrow> rd8 ambassador i;
           Some ((a - of_nat i + wurzelbert) XOR k) })))"

definition chiaki_rpcrypt_ambassador_from_aeropause :: "chiaki_target \<Rightarrow> nat \<Rightarrow> bytes \<Rightarrow> bytes result" where
  "chiaki_rpcrypt_ambassador_from_aeropause target key_1_off aeropause =
     (if target_before_ps4_10 target then ret_err CHIAKI_ERR_INVALID_DATA
      else let keys_1 = (if chiaki_target_is_ps5 target then ps5_keys_1 else ps4_keys_1);
               wurzelbert = (if chiaki_target_is_ps5 target then 0x2B else - 0x29)
      in checked (for_bytes CHIAKI_RPCRYPT_KEY_SIZE (\<lambda>i. do {
           k \<leftarrow> rd8 keys_1 (i * 0x20 + key_1_off); a \<leftarrow> rd8 aeropause i;
           Some ((a XOR k) + of_nat i - wurzelbert) })))"

subsection \<open>Keys of a registration\<close>

definition regist_aes_key :: bytes where
  "regist_aes_key =
     [0x3f, 0x1c, 0xc4, 0xb6, 0xdc, 0xbb, 0x3e, 0xcc, 0x50, 0xba, 0xed, 0xef, 0x97, 0x34, 0xc7, 0xc9]"

text \<open>The four bytes of the PIN, most significant first, are xored into the key from \<open>off\<close> on.\<close>

definition xor_pin :: "nat \<Rightarrow> u32 \<Rightarrow> bytes \<Rightarrow> bytes" where
  "xor_pin off pin b = b[
     off := b ! off XOR ucast (drop_bit 24 pin AND 0xff),
     off + 1 := b ! (off + 1) XOR ucast (drop_bit 16 pin AND 0xff),
     off + 2 := b ! (off + 2) XOR ucast (drop_bit 8 pin AND 0xff),
     off + 3 := b ! (off + 3) XOR ucast (drop_bit 0 pin AND 0xff)]"

definition chiaki_rpcrypt_init_regist_ps4_pre10 :: "bytes \<Rightarrow> u32 \<Rightarrow> rpcrypt option" where
  "chiaki_rpcrypt_init_regist_ps4_pre10 ambassador pin = do {
     a \<leftarrow> rd_slice ambassador 0 CHIAKI_RPCRYPT_KEY_SIZE;
     Some \<lparr>rp_target = CHIAKI_TARGET_PS4_9, rp_bright = xor_pin 0 pin regist_aes_key, rp_ambassador = a\<rparr> }"

definition chiaki_rpcrypt_init_regist :: "chiaki_target \<Rightarrow> bytes \<Rightarrow> nat \<Rightarrow> u32 \<Rightarrow> rpcrypt result" where
  "chiaki_rpcrypt_init_regist target ambassador key_0_off pin =
     (if target_before_ps4_10 target then ret_err CHIAKI_ERR_INVALID_DATA
      else if 0x20 \<le> key_0_off then ret_err CHIAKI_ERR_INVALID_DATA
      else let keys_0 = (if chiaki_target_is_ps5 target then ps5_keys_0 else ps4_keys_0)
      in checked (do {
        a \<leftarrow> rd_slice ambassador 0 CHIAKI_RPCRYPT_KEY_SIZE;
        bright \<leftarrow> for_bytes CHIAKI_RPCRYPT_KEY_SIZE (\<lambda>i. rd8 keys_0 (i * 0x20 + key_0_off));
        Some \<lparr>rp_target = target, rp_bright = xor_pin 0xc pin bright, rp_ambassador = a\<rparr> }))"

subsection \<open>Encryption\<close>

definition hmac_key_ps5 :: bytes where
  "hmac_key_ps5 =
     [0x46, 0x46, 0x87, 0xb3, 0x49, 0xca, 0x8c, 0xe8, 0x59, 0xc5, 0x27, 0x0f, 0x5d, 0x7a, 0x69, 0xd6]"

definition hmac_key_ps4 :: bytes where
  "hmac_key_ps4 =
     [0x20, 0xd6, 0x6f, 0x59, 0x04, 0xea, 0x7c, 0x14, 0xe5, 0x57, 0xff, 0xc5, 0x2e, 0x48, 0x8a, 0xc8]"

definition hmac_key_ps4_pre10 :: bytes where
  "hmac_key_ps4_pre10 =
     [0xac, 0x07, 0x88, 0x83, 0xc8, 0x3a, 0x1f, 0xe8, 0x11, 0x46, 0x3a, 0xf3, 0x9e, 0xe3, 0xe3, 0x77]"

definition rpcrypt_hmac_key :: "rpcrypt \<Rightarrow> bytes" where
  "rpcrypt_hmac_key rp =
     (if rp_target rp = CHIAKI_TARGET_PS5_1 then hmac_key_ps5
      else if rp_target rp = CHIAKI_TARGET_PS4_8 \<or> rp_target rp = CHIAKI_TARGET_PS4_9 then hmac_key_ps4_pre10
      else hmac_key_ps4)"

definition counter_bytes :: "u64 \<Rightarrow> bytes" where
  "counter_bytes c = map (\<lambda>s. ucast (drop_bit s c AND 0xff)) [0x38, 0x30, 0x28, 0x20, 0x18, 0x10, 0x08, 0x00]"

definition chiaki_rpcrypt_generate_iv :: "rp_prims \<Rightarrow> rpcrypt \<Rightarrow> u64 \<Rightarrow> bytes result" where
  "chiaki_rpcrypt_generate_iv P rp counter =
     (case rp_hmac P (rpcrypt_hmac_key rp) (rp_ambassador rp @ counter_bytes counter) of
        None \<Rightarrow> ret_err CHIAKI_ERR_UNKNOWN
      | Some hmac \<Rightarrow> if length hmac < CHIAKI_RPCRYPT_KEY_SIZE then ret_err CHIAKI_ERR_UNKNOWN
                     else ret_ok (take CHIAKI_RPCRYPT_KEY_SIZE hmac))"

text \<open>\<open>ctx\<close> is whether the cipher context could be allocated.\<close>

definition chiaki_rpcrypt_crypt :: "rp_prims \<Rightarrow> bool \<Rightarrow> rpcrypt \<Rightarrow> u64 \<Rightarrow> bytes \<Rightarrow> bool \<Rightarrow> bytes result" where
  "chiaki_rpcrypt_crypt P ctx rp counter inp encrypt =
     (if \<not> ctx then ret_err CHIAKI_ERR_UNKNOWN
      else and_then (chiaki_rpcrypt_generate_iv P rp counter) (\<lambda>iv.
        case rp_cfb P encrypt (rp_bright rp) iv inp of
          None \<Rightarrow> ret_err CHIAKI_ERR_UNKNOWN
        | Some out \<Rightarrow> if length out \<noteq> length inp then ret_err CHIAKI_ERR_UNKNOWN else ret_ok out))"

definition chiaki_rpcrypt_encrypt :: "rp_prims \<Rightarrow> bool \<Rightarrow> rpcrypt \<Rightarrow> u64 \<Rightarrow> bytes \<Rightarrow> bytes result" where
  "chiaki_rpcrypt_encrypt P ctx rp counter inp = chiaki_rpcrypt_crypt P ctx rp counter inp True"

definition chiaki_rpcrypt_decrypt :: "rp_prims \<Rightarrow> bool \<Rightarrow> rpcrypt \<Rightarrow> u64 \<Rightarrow> bytes \<Rightarrow> bytes result" where
  "chiaki_rpcrypt_decrypt P ctx rp counter inp = chiaki_rpcrypt_crypt P ctx rp counter inp False"

text \<open>Over PSN the key is the table's, xored with an encrypted secret instead of the PIN.\<close>

definition chiaki_rpcrypt_init_regist_psn ::
    "rp_prims \<Rightarrow> bool \<Rightarrow> chiaki_target \<Rightarrow> bytes \<Rightarrow> nat \<Rightarrow> bytes \<Rightarrow> bytes \<Rightarrow> bytes \<Rightarrow> rpcrypt result" where
  "chiaki_rpcrypt_init_regist_psn P ctx target ambassador key_0_off custom_data1 data1 data2 =
     and_then (checked (rd_slice data2 0 CHIAKI_RPCRYPT_KEY_SIZE)) (\<lambda>amb2.
     and_then (checked (rd_slice data1 0 CHIAKI_RPCRYPT_KEY_SIZE)) (\<lambda>bright2.
     and_then (checked (rd_slice custom_data1 0 CHIAKI_RPCRYPT_KEY_SIZE)) (\<lambda>cd1.
     and_then (chiaki_rpcrypt_encrypt P ctx
         \<lparr>rp_target = target, rp_bright = bright2, rp_ambassador = amb2\<rparr> 0 cd1) (\<lambda>enc.
       if target_before_ps4_10 target then ret_err CHIAKI_ERR_INVALID_DATA
       else if 0x20 \<le> key_0_off then ret_err CHIAKI_ERR_INVALID_DATA
       else let keys_0 = (if chiaki_target_is_ps5 target then ps5_keys_0 else ps4_keys_0)
       in checked (do {
         a \<leftarrow> rd_slice ambassador 0 CHIAKI_RPCRYPT_KEY_SIZE;
         bright \<leftarrow> for_bytes CHIAKI_RPCRYPT_KEY_SIZE (\<lambda>i. do {
           k \<leftarrow> rd8 keys_0 (i * 0x20 + key_0_off); e \<leftarrow> rd8 enc i; Some (k XOR e) });
         Some \<lparr>rp_target = target, rp_bright = bright, rp_ambassador = a\<rparr> })))))"

end
