(* ===== verification/RPCryptProps.thy ===== *)
theory RPCryptProps
  imports RPCrypt
begin

text \<open>
  What \<^verbatim>\<open>lib/src/rpcrypt.c\<close> guarantees: every table lookup is in bounds exactly under the conditions
  its callers keep, the disguised ambassador can be undone, the registration key determines the PIN,
  and decryption undoes encryption.
\<close>

subsection \<open>Byte loops\<close>

lemma those_map_Some: "(\<And>x. x \<in> set xs \<Longrightarrow> f x = Some (g x)) \<Longrightarrow> those (map f xs) = Some (map g xs)"
  by (induction xs) auto

lemma those_map_None: "x \<in> set xs \<Longrightarrow> f x = None \<Longrightarrow> those (map f xs) = None"
proof (induction xs)
  case (Cons y xs)
  then show ?case by (cases "f y") auto
qed simp

lemma for_bytes_Some: "(\<And>i. i < n \<Longrightarrow> f i = Some (g i)) \<Longrightarrow> for_bytes n f = Some (map g [0..<n])"
  by (auto simp: for_bytes_def intro!: those_map_Some)

lemma for_bytes_None: "i < n \<Longrightarrow> f i = None \<Longrightarrow> for_bytes n f = None"
  by (auto simp: for_bytes_def intro: those_map_None [of i])

lemma for_bytes_total: "(\<And>i. i < n \<Longrightarrow> f i \<noteq> None) \<Longrightarrow> for_bytes n f \<noteq> None"
  using for_bytes_Some [of n f "\<lambda>i. the (f i)"] by fastforce

subsection \<open>Table bounds\<close>

lemma key_row_total:
  assumes "length keys = 3584" "i < 16"
  shows "key_row keys b i = Some (keys ! (unat (drop_bit 3 b) * 0x70 + i))"
proof -
  have "unat b < 256" using unsigned_less [of b, where 'a = nat] by simp
  then have "unat (drop_bit 3 b) < 32" by (simp add: drop_bit_eq_div unat_div_distrib)
  then show ?thesis using assms by (simp add: key_row_def buf_simps)
qed

lemma bright_ambassador_total:
  assumes "length nonce = 16" "length morning = 16"
  shows "(\<exists>r. bright_ambassador t nonce morning = ret_ok r) \<longleftrightarrow> \<not> target_before_ps4_10 t"
proof (cases "target_before_ps4_10 t")
  case False
  have a: "for_bytes CHIAKI_RPCRYPT_KEY_SIZE (\<lambda>i. do { v \<leftarrow> rd8 nonce i; k \<leftarrow> key_row keys n i; Some (f v k i) })
      = Some (map (\<lambda>i. f (nonce ! i) (the (key_row keys n i)) i) [0..<CHIAKI_RPCRYPT_KEY_SIZE])"
    if "length keys = 3584" for keys n f
    using assms key_row_total [OF that] by (intro for_bytes_Some) (simp add: CHIAKI_RPCRYPT_KEY_SIZE_def)
  have b: "for_bytes CHIAKI_RPCRYPT_KEY_SIZE
      (\<lambda>i. do { m \<leftarrow> rd8 morning i; n \<leftarrow> rd8 nonce i; k \<leftarrow> key_row keys b i; Some (f m n k i) })
      = Some (map (\<lambda>i. f (morning ! i) (nonce ! i) (the (key_row keys b i)) i) [0..<CHIAKI_RPCRYPT_KEY_SIZE])"
    if "length keys = 3584" for keys b f
    using assms key_row_total [OF that] by (intro for_bytes_Some) (simp add: CHIAKI_RPCRYPT_KEY_SIZE_def)
  show ?thesis
    using False assms
    by (simp add: bright_ambassador_def Let_def a [OF length_keys_a_ps4] a [OF length_keys_a_ps5]
        b [OF length_keys_b_ps4] b [OF length_keys_b_ps5])
qed (simp add: bright_ambassador_def)

lemma pre10_total:
  "length nonce = 16 \<Longrightarrow> length morning = 16 \<Longrightarrow> \<exists>r. bright_ambassador_ps4_pre10 nonce morning = Some r"
proof -
  assume l: "length nonce = 16" "length morning = 16"
  have "for_bytes 16 (\<lambda>i. do { v \<leftarrow> rd8 nonce i; e \<leftarrow> rd8 echo_a i;
      Some ((v - of_nat i - 0x27) XOR e) }) \<noteq> None"
    using l by (intro for_bytes_total) (simp add: echo_a_def)
  moreover have "for_bytes 16 (\<lambda>i. do { v \<leftarrow> rd8 morning i; e \<leftarrow> rd8 echo_b i; n \<leftarrow> rd8 nonce i;
      Some ((v - of_nat i + 0x34) XOR e XOR n) }) \<noteq> None"
    using l by (intro for_bytes_total) (simp add: echo_b_def)
  ultimately show ?thesis
    by (auto simp: bright_ambassador_ps4_pre10_def CHIAKI_RPCRYPT_KEY_SIZE_def)
qed

lemma key_1_total:
  assumes "length keys = 512" "length amb = 16"
  shows "for_bytes 16 (\<lambda>i. do { k \<leftarrow> rd8 keys (i * 0x20 + off); a \<leftarrow> rd8 amb i; Some (f a k i) }) \<noteq> None
    \<longleftrightarrow> off < 0x20"
proof (cases "off < 0x20")
  case True
  then show ?thesis using assms by (simp add: for_bytes_total)
next
  case False
  then have "rd8 keys (15 * 0x20 + off) = None" using assms by (simp add: buf_simps)
  then show ?thesis
    using False for_bytes_None [of 15 16 "\<lambda>i. do { k \<leftarrow> rd8 keys (i * 0x20 + off); a \<leftarrow> rd8 amb i; Some (f a k i) }"]
    by simp
qed

text \<open>Table bounds: for 16-byte inputs the session keys are computed without leaving a table
  exactly for the targets the code means to support (any other target fails its assertion); the two
  disguises read outside their table exactly when the offset is 32 or more on a supported target,
  which they do not check; the registration keys check it and always return.\<close>

theorem rpcrypt_tables_in_bounds:
  assumes "length nonce = 16" "length morning = 16" "length amb = 16"
  shows "(chiaki_rpcrypt_init_auth t nonce morning \<noteq> None
      \<longleftrightarrow> t = CHIAKI_TARGET_PS4_8 \<or> t = CHIAKI_TARGET_PS4_9 \<or> \<not> target_before_ps4_10 t)
    \<and> (chiaki_rpcrypt_aeropause t off amb \<noteq> None \<longleftrightarrow> target_before_ps4_10 t \<or> off < 0x20)
    \<and> (chiaki_rpcrypt_aeropause_psn t off amb \<noteq> None \<longleftrightarrow> target_before_ps4_10 t \<or> off < 0x20)
    \<and> chiaki_rpcrypt_init_regist t amb off pin \<noteq> None"
proof (intro conjI)
  show "chiaki_rpcrypt_init_auth t nonce morning \<noteq> None
      \<longleftrightarrow> t = CHIAKI_TARGET_PS4_8 \<or> t = CHIAKI_TARGET_PS4_9 \<or> \<not> target_before_ps4_10 t"
    using pre10_total [OF assms(1,2)] bright_ambassador_total [OF assms(1,2), of t]
    by (auto simp: chiaki_rpcrypt_init_auth_def chiaki_rpcrypt_bright_ambassador_def
        split: option.splits sum.splits)
  show "chiaki_rpcrypt_aeropause t off amb \<noteq> None \<longleftrightarrow> target_before_ps4_10 t \<or> off < 0x20"
    using key_1_total [OF length_ps4_keys_1 assms(3)] key_1_total [OF length_ps5_keys_1 assms(3)]
    by (simp add: chiaki_rpcrypt_aeropause_def CHIAKI_RPCRYPT_KEY_SIZE_def Let_def checked_None_iff
        del: not_None_eq)
  show "chiaki_rpcrypt_aeropause_psn t off amb \<noteq> None \<longleftrightarrow> target_before_ps4_10 t \<or> off < 0x20"
    using key_1_total [OF length_ps4_keys_1 assms(3)] key_1_total [OF length_ps5_keys_1 assms(3)]
    by (simp add: chiaki_rpcrypt_aeropause_psn_def CHIAKI_RPCRYPT_KEY_SIZE_def Let_def checked_None_iff
        del: not_None_eq)
  have "for_bytes CHIAKI_RPCRYPT_KEY_SIZE (\<lambda>i. rd8 keys (i * 0x20 + off))
      = Some (map (\<lambda>i. keys ! (i * 0x20 + off)) [0..<CHIAKI_RPCRYPT_KEY_SIZE])"
    if "length keys = 512" "off < 0x20" for keys
    using that by (intro for_bytes_Some) (simp add: CHIAKI_RPCRYPT_KEY_SIZE_def)
  moreover have "rd_slice amb 0 CHIAKI_RPCRYPT_KEY_SIZE = Some amb"
    using assms(3) by (simp add: CHIAKI_RPCRYPT_KEY_SIZE_def)
  ultimately show "chiaki_rpcrypt_init_regist t amb off pin \<noteq> None"
    by (simp add: chiaki_rpcrypt_init_regist_def Let_def)
qed

lemma rpcrypt_tables_in_bounds_witness:
  "chiaki_rpcrypt_init_auth CHIAKI_TARGET_PS5_1 (replicate 16 0xff) (replicate 16 0) \<noteq> None
    \<and> chiaki_rpcrypt_init_auth CHIAKI_TARGET_PS4_UNKNOWN (replicate 16 0xff) (replicate 16 0) = None
    \<and> chiaki_rpcrypt_aeropause CHIAKI_TARGET_PS5_1 32 (replicate 16 1) = None"
proof -
  have t: "\<not> target_before_ps4_10 CHIAKI_TARGET_PS5_1" "target_before_ps4_10 CHIAKI_TARGET_PS4_UNKNOWN"
    "CHIAKI_TARGET_PS4_UNKNOWN \<noteq> CHIAKI_TARGET_PS4_8" "CHIAKI_TARGET_PS4_UNKNOWN \<noteq> CHIAKI_TARGET_PS4_9"
    by (simp_all add: target_before_ps4_10_def target_defs)
  note l = length_replicate [of 16 "0xff :: u8"] length_replicate [of 16 "0 :: u8"]
    length_replicate [of 16 "1 :: u8"]
  show ?thesis
    using rpcrypt_tables_in_bounds [OF l, of CHIAKI_TARGET_PS5_1 32]
      rpcrypt_tables_in_bounds [OF l, of CHIAKI_TARGET_PS4_UNKNOWN 32]
    by (simp add: t del: not_None_eq)
qed

subsection \<open>The disguise can be undone\<close>

text \<open>C12.  Over PSN, the ambassador hidden in a registration request is recovered from it at the same
  target and table offset.\<close>

theorem aeropause_psn_inverse:
  assumes "\<not> target_before_ps4_10 t" "off < 0x20" "length amb = 16"
  shows "\<exists>ae. chiaki_rpcrypt_aeropause_psn t off amb = ret_ok ae \<and> length ae = 16
    \<and> chiaki_rpcrypt_ambassador_from_aeropause t off ae = ret_ok amb"
proof -
  let ?keys = "if chiaki_target_is_ps5 t then ps5_keys_1 else ps4_keys_1"
  let ?w = "if chiaki_target_is_ps5 t then 0x2B else - 0x29 :: u8"
  let ?k = "\<lambda>i. ?keys ! (i * 0x20 + off)"
  let ?f = "\<lambda>i. (amb ! i - of_nat i + ?w) XOR ?k i"
  let ?ae = "map ?f [0..<16]"
  have k: "rd8 ?keys (i * 0x20 + off) = Some (?k i)" if "i < 16" for i using that assms(2) by simp
  have "for_bytes 16 (\<lambda>i. do { k \<leftarrow> rd8 ?keys (i * 0x20 + off); a \<leftarrow> rd8 amb i;
      Some ((a - of_nat i + ?w) XOR k) }) = Some ?ae"
    using assms(3) k by (intro for_bytes_Some) simp
  then have 1: "chiaki_rpcrypt_aeropause_psn t off amb = ret_ok ?ae"
    using assms(1) by (simp add: chiaki_rpcrypt_aeropause_psn_def CHIAKI_RPCRYPT_KEY_SIZE_def Let_def)
  have "for_bytes 16 (\<lambda>i. do { k \<leftarrow> rd8 ?keys (i * 0x20 + off); a \<leftarrow> rd8 ?ae i;
      Some ((a XOR k) + of_nat i - ?w) }) = Some (map (\<lambda>i. amb ! i) [0..<16])"
    using k by (intro for_bytes_Some) (simp add: xor.assoc)
  moreover have "map (\<lambda>i. amb ! i) [0..<16] = amb" using assms(3) map_nth [of amb] by simp
  ultimately have "chiaki_rpcrypt_ambassador_from_aeropause t off ?ae = ret_ok amb"
    using assms(1) by (simp add: chiaki_rpcrypt_ambassador_from_aeropause_def CHIAKI_RPCRYPT_KEY_SIZE_def Let_def)
  with 1 show ?thesis by auto
qed

lemma aeropause_psn_inverse_witness:
  "\<exists>ae. chiaki_rpcrypt_aeropause_psn CHIAKI_TARGET_PS5_1 31 (replicate 16 9) = ret_ok ae
    \<and> chiaki_rpcrypt_ambassador_from_aeropause CHIAKI_TARGET_PS5_1 31 ae = ret_ok (replicate 16 9)"
  using aeropause_psn_inverse [of CHIAKI_TARGET_PS5_1 31 "replicate 16 9"]
  by (auto simp: target_before_ps4_10_def target_defs)

subsection \<open>Registration keys\<close>

lemma xor_pin_inj:
  assumes "xor_pin off pin b = xor_pin off pin' b" "off + 3 < length b"
  shows "pin = pin'"
proof -
  have n: "xor_pin off p b ! (off + i) = b ! (off + i) XOR ucast (drop_bit (24 - 8 * i) p AND 0xff)"
    if "i < 4" for p i
  proof -
    have "i = 0 \<or> i = 1 \<or> i = 2 \<or> i = 3" using that by auto
    then show ?thesis using assms(2) by (auto simp: xor_pin_def)
  qed
  have e: "(ucast (drop_bit (24 - 8 * i) pin AND 0xff) :: u8) = ucast (drop_bit (24 - 8 * i) pin' AND 0xff)"
    if "i < 4" for i
  proof -
    have "b ! (off + i) XOR (b ! (off + i) XOR ucast (drop_bit (24 - 8 * i) pin AND 0xff))
        = b ! (off + i) XOR (b ! (off + i) XOR ucast (drop_bit (24 - 8 * i) pin' AND 0xff))"
      using n [OF that, of pin] n [OF that, of pin'] assms(1) by simp
    then show ?thesis by (simp flip: xor.assoc)
  qed
  show ?thesis
  proof (rule bit_word_eqI)
    fix j assume j: "j < LENGTH(32)"
    define i where "i = 3 - j div 8"
    have q: "j div 8 \<le> 3" using j by simp
    then have "24 - 8 * i = 8 * (j div 8)" by (simp add: i_def diff_mult_distrib2)
    then have i: "i < 4" "24 - 8 * i + j mod 8 = j" by (simp_all add: i_def)
    have m: "(0xff :: u32) = mask 8" by (simp add: mask_eq_exp_minus_1)
    have "bit (ucast (drop_bit (24 - 8 * i) p AND 0xff) :: u8) (j mod 8) = bit p j" for p :: u32
    proof -
      have "j mod 8 < 8" by simp
      then have "j mod 8 < 32" by linarith
      then show ?thesis using i(2) unfolding m by (simp add: bit_simps)
    qed
    then show "bit pin j = bit pin' j" using e [OF i(1)] by metis
  qed
qed

text \<open>The registration key determines the PIN: for a supported target and offset, two
  registrations with the same ambassador have the same key only if they were given the same PIN.\<close>

theorem regist_key_determines_pin:
  assumes "\<not> target_before_ps4_10 t" "off < 0x20" "length amb = 16"
  shows "chiaki_rpcrypt_init_regist t amb off pin = chiaki_rpcrypt_init_regist t amb off pin' \<longleftrightarrow> pin = pin'"
proof
  assume eq: "chiaki_rpcrypt_init_regist t amb off pin = chiaki_rpcrypt_init_regist t amb off pin'"
  let ?keys = "if chiaki_target_is_ps5 t then ps5_keys_0 else ps4_keys_0"
  define b where "b = map (\<lambda>i. ?keys ! (i * 0x20 + off)) [0..<16]"
  have l: "length b = 16" by (simp add: b_def)
  have "for_bytes 16 (\<lambda>i. rd8 ?keys (i * 0x20 + off)) = Some b"
    unfolding b_def using assms(2) by (intro for_bytes_Some) simp
  then have "chiaki_rpcrypt_init_regist t amb off p
      = ret_ok \<lparr>rp_target = t, rp_bright = xor_pin 0xc p b, rp_ambassador = amb\<rparr>" for p
    using assms by (simp add: chiaki_rpcrypt_init_regist_def CHIAKI_RPCRYPT_KEY_SIZE_def Let_def)
  with eq have "xor_pin 0xc pin b = xor_pin 0xc pin' b" by simp
  then show "pin = pin'" by (rule xor_pin_inj) (simp add: l)
qed simp

lemma regist_key_determines_pin_witness:
  "chiaki_rpcrypt_init_regist CHIAKI_TARGET_PS4_10 (replicate 16 3) 7 12345678
    \<noteq> chiaki_rpcrypt_init_regist CHIAKI_TARGET_PS4_10 (replicate 16 3) 7 12345679"
  using regist_key_determines_pin [of CHIAKI_TARGET_PS4_10 7 "replicate 16 3" 12345678 12345679]
  by (simp add: target_before_ps4_10_def)

subsection \<open>Encryption\<close>

lemma rpcrypt_decrypt_encrypt:
  assumes "rp_prims_ok P"
  shows "\<exists>c. chiaki_rpcrypt_encrypt P True rp counter d = ret_ok c \<and> length c = length d
    \<and> chiaki_rpcrypt_decrypt P True rp counter c = ret_ok d"
proof -
  obtain h where h: "rp_hmac P (rpcrypt_hmac_key rp) (rp_ambassador rp @ counter_bytes counter) = Some h" "length h = 32"
    using assms unfolding rp_prims_ok_def by blast
  obtain c where "rp_cfb P True (rp_bright rp) (take 16 h) d = Some c" "length c = length d"
    "rp_cfb P False (rp_bright rp) (take 16 h) c = Some d"
    using assms unfolding rp_prims_ok_def by blast
  then show ?thesis
    using h by (simp add: chiaki_rpcrypt_encrypt_def chiaki_rpcrypt_decrypt_def chiaki_rpcrypt_crypt_def
        chiaki_rpcrypt_generate_iv_def CHIAKI_RPCRYPT_KEY_SIZE_def)
qed

end
