(* ===== verification/TakionPacket.thy ===== *)
theory TakionPacket
  imports GKCrypt
begin

text \<open>
  The wire formats of \<^verbatim>\<open>lib/src/takion.c\<close>: where a datagram keeps its authentication code and key
  position, the message header, the audio/video packet headers of the protocol versions 7, 9 and 12,
  and the congestion report.

  A buffer is a list of bytes, the packet's \<open>data\<close> pointer is an offset into the datagram and
  \<open>data_size\<close> is the 64-bit \<open>size_t\<close> of the code, so that a subtraction below zero shows.
\<close>

subsection \<open>Constants\<close>

definition TAKION_MESSAGE_HEADER_SIZE :: nat where "TAKION_MESSAGE_HEADER_SIZE = 0x10"
definition TAKION_PACKET_BASE_TYPE_MASK :: u8 where "TAKION_PACKET_BASE_TYPE_MASK = 0xf"

definition TAKION_PACKET_TYPE_CONTROL :: u8 where "TAKION_PACKET_TYPE_CONTROL = 0"
definition TAKION_PACKET_TYPE_FEEDBACK_HISTORY :: u8 where "TAKION_PACKET_TYPE_FEEDBACK_HISTORY = 1"
definition TAKION_PACKET_TYPE_VIDEO :: u8 where "TAKION_PACKET_TYPE_VIDEO = 2"
definition TAKION_PACKET_TYPE_AUDIO :: u8 where "TAKION_PACKET_TYPE_AUDIO = 3"
definition TAKION_PACKET_TYPE_CONGESTION :: u8 where "TAKION_PACKET_TYPE_CONGESTION = 5"
definition TAKION_PACKET_TYPE_FEEDBACK_STATE :: u8 where "TAKION_PACKET_TYPE_FEEDBACK_STATE = 6"

definition TAKION_CHUNK_TYPE_DATA :: u8 where "TAKION_CHUNK_TYPE_DATA = 0"
definition TAKION_CHUNK_TYPE_INIT :: u8 where "TAKION_CHUNK_TYPE_INIT = 1"
definition TAKION_CHUNK_TYPE_INIT_ACK :: u8 where "TAKION_CHUNK_TYPE_INIT_ACK = 2"
definition TAKION_CHUNK_TYPE_DATA_ACK :: u8 where "TAKION_CHUNK_TYPE_DATA_ACK = 3"
definition TAKION_CHUNK_TYPE_COOKIE :: u8 where "TAKION_CHUNK_TYPE_COOKIE = 0xa"
definition TAKION_CHUNK_TYPE_COOKIE_ACK :: u8 where "TAKION_CHUNK_TYPE_COOKIE_ACK = 0xb"

definition TAKION_COOKIE_SIZE :: nat where "TAKION_COOKIE_SIZE = 0x20"

lemmas takion_type_defs = TAKION_PACKET_TYPE_CONTROL_def TAKION_PACKET_TYPE_FEEDBACK_HISTORY_def
  TAKION_PACKET_TYPE_VIDEO_def TAKION_PACKET_TYPE_AUDIO_def TAKION_PACKET_TYPE_CONGESTION_def
  TAKION_PACKET_TYPE_FEEDBACK_STATE_def TAKION_PACKET_BASE_TYPE_MASK_def

lemmas takion_chunk_defs = TAKION_CHUNK_TYPE_DATA_def TAKION_CHUNK_TYPE_INIT_def
  TAKION_CHUNK_TYPE_INIT_ACK_def TAKION_CHUNK_TYPE_DATA_ACK_def TAKION_CHUNK_TYPE_COOKIE_def
  TAKION_CHUNK_TYPE_COOKIE_ACK_def

subsection \<open>Authentication code and key position\<close>

text \<open>\<open>None\<close> is the result -1.\<close>

definition takion_packet_type_mac_offset :: "u8 \<Rightarrow> nat option" where
  "takion_packet_type_mac_offset type =
     (if type = TAKION_PACKET_TYPE_CONTROL then Some 5
      else if type = TAKION_PACKET_TYPE_VIDEO \<or> type = TAKION_PACKET_TYPE_AUDIO then Some 0xa
      else if type = TAKION_PACKET_TYPE_CONGESTION then Some 7
      else None)"

definition takion_packet_type_key_pos_offset :: "u8 \<Rightarrow> nat option" where
  "takion_packet_type_key_pos_offset type =
     (if type = TAKION_PACKET_TYPE_CONTROL then Some 0x9
      else if type = TAKION_PACKET_TYPE_VIDEO \<or> type = TAKION_PACKET_TYPE_AUDIO then Some 0xe
      else if type = TAKION_PACKET_TYPE_CONGESTION then Some 0xb
      else None)"

definition chiaki_takion_packet_read_key_pos :: "key_state \<Rightarrow> bytes \<Rightarrow> u64 result" where
  "chiaki_takion_packet_read_key_pos ks buf =
     (if length buf < 1 then ret_err CHIAKI_ERR_BUF_TOO_SMALL
      else case takion_packet_type_key_pos_offset (buf ! 0 AND TAKION_PACKET_BASE_TYPE_MASK) of
        None \<Rightarrow> ret_err CHIAKI_ERR_INVALID_DATA
      | Some off \<Rightarrow>
          if length buf < off + 4 then ret_err CHIAKI_ERR_BUF_TOO_SMALL
          else and_then (checked (rd32be buf off)) (\<lambda>low.
            ret_ok (snd (chiaki_key_state_request_pos ks low False))))"

record packet_mac =
  pm_crypt :: "gkcrypt option"
  pm_buf :: bytes
  pm_mac :: bytes
  pm_mac_old :: bytes

definition chiaki_takion_packet_mac :: "gk_prims \<Rightarrow> gkcrypt option \<Rightarrow> bytes \<Rightarrow> u64 \<Rightarrow> packet_mac result" where
  "chiaki_takion_packet_mac P crypt buf key_pos =
     (if length buf < 1 then ret_err CHIAKI_ERR_BUF_TOO_SMALL
      else let base_type = buf ! 0 AND TAKION_PACKET_BASE_TYPE_MASK in
      case (takion_packet_type_mac_offset base_type, takion_packet_type_key_pos_offset base_type) of
        (Some mac_off, Some kp_off) \<Rightarrow>
          if length buf < mac_off + CHIAKI_GKCRYPT_GMAC_SIZE \<or> length buf < kp_off + 4
          then ret_err CHIAKI_ERR_BUF_TOO_SMALL
          else let strip = (base_type = TAKION_PACKET_TYPE_CONTROL \<or> base_type = TAKION_PACKET_TYPE_CONGESTION)
          in and_then (checked (rd_slice buf mac_off CHIAKI_GKCRYPT_GMAC_SIZE)) (\<lambda>mac_old.
             and_then (checked (wr_slice buf mac_off (replicate CHIAKI_GKCRYPT_GMAC_SIZE 0))) (\<lambda>buf.
             and_then (case crypt of
                 None \<Rightarrow> ret_ok (None, buf)
               | Some gk \<Rightarrow>
                   and_then (checked (rd_slice buf kp_off 4)) (\<lambda>kp.
                   and_then (checked (if strip then wr_slice buf kp_off (replicate 4 0) else Some buf)) (\<lambda>buf.
                   and_then (chiaki_gkcrypt_gmac P gk key_pos buf) (\<lambda>(gk, mac).
                   and_then (checked (wr_slice buf mac_off mac)) (\<lambda>buf.
                   and_then (checked (if strip then wr_slice buf kp_off kp else Some buf)) (\<lambda>buf.
                     ret_ok (Some gk, buf)))))))
               (\<lambda>(crypt, buf).
             and_then (checked (rd_slice buf mac_off CHIAKI_GKCRYPT_GMAC_SIZE)) (\<lambda>mac.
               ret_ok \<lparr>pm_crypt = crypt, pm_buf = buf, pm_mac = mac, pm_mac_old = mac_old\<rparr>))))
      | _ \<Rightarrow> ret_err CHIAKI_ERR_INVALID_DATA)"

subsection \<open>Messages\<close>

definition takion_write_message_header :: "u32 \<Rightarrow> u64 \<Rightarrow> u8 \<Rightarrow> u8 \<Rightarrow> nat \<Rightarrow> bytes" where
  "takion_write_message_header tag key_pos chunk_type chunk_flags payload_data_size =
     be32 tag @ replicate CHIAKI_GKCRYPT_GMAC_SIZE 0 @ be32 (ucast key_pos)
       @ [chunk_type, chunk_flags] @ be16 (of_nat (payload_data_size + 4))"

record takion_message =
  msg_tag :: u32
  msg_key_pos :: u64
  msg_chunk_type :: u8
  msg_chunk_flags :: u8
  msg_payload_size :: u16
  msg_payload :: "bytes option"

text \<open>The key state is committed to as soon as the header is read, also when the message is then
  rejected.  A payload of size 0 is the null pointer.\<close>

definition takion_parse_message ::
    "key_state \<Rightarrow> u32 \<Rightarrow> bytes \<Rightarrow> (key_state \<times> (chiaki_error + takion_message)) option" where
  "takion_parse_message ks tag_local buf =
     (if length buf < TAKION_MESSAGE_HEADER_SIZE then Some (ks, Inl CHIAKI_ERR_INVALID_DATA)
      else do {
        tag \<leftarrow> rd32be buf 0;
        low \<leftarrow> rd32be buf 8;
        let (ks, key_pos) = chiaki_key_state_request_pos ks low True;
        chunk_type \<leftarrow> rd8 buf 0xc;
        chunk_flags \<leftarrow> rd8 buf 0xd;
        payload_size \<leftarrow> rd16be buf 0xe;
        if tag \<noteq> tag_local then Some (ks, Inl CHIAKI_ERR_INVALID_DATA)
        else if length buf \<noteq> unat payload_size + 0xc then Some (ks, Inl CHIAKI_ERR_INVALID_DATA)
        else let payload_size = payload_size - 4 in
          Some (ks, Inr \<lparr>msg_tag = tag, msg_key_pos = key_pos, msg_chunk_type = chunk_type,
            msg_chunk_flags = chunk_flags, msg_payload_size = payload_size,
            msg_payload = (if 0 < payload_size then Some (drop 0x10 buf) else None)\<rparr>) })"

text \<open>Messages the client sends during the handshake, header and payload.\<close>

record takion_payload_init =
  ini_tag :: u32
  ini_a_rwnd :: u32
  ini_outbound_streams :: u16
  ini_inbound_streams :: u16
  ini_initial_seq_num :: u32

definition takion_message_init :: "u32 \<Rightarrow> takion_payload_init \<Rightarrow> bytes" where
  "takion_message_init tag_remote p =
     TAKION_PACKET_TYPE_CONTROL # takion_write_message_header tag_remote 0 TAKION_CHUNK_TYPE_INIT 0 0x10
       @ be32 (ini_tag p) @ be32 (ini_a_rwnd p) @ be16 (ini_outbound_streams p)
       @ be16 (ini_inbound_streams p) @ be32 (ini_initial_seq_num p)"

definition takion_message_cookie :: "u32 \<Rightarrow> bytes \<Rightarrow> bytes option" where
  "takion_message_cookie tag_remote cookie = do {
     c \<leftarrow> rd_slice cookie 0 TAKION_COOKIE_SIZE;
     Some (TAKION_PACKET_TYPE_CONTROL
       # takion_write_message_header tag_remote 0 TAKION_CHUNK_TYPE_COOKIE 0 TAKION_COOKIE_SIZE @ c) }"

record congestion_packet =
  cg_word_0 :: u16
  cg_received :: u16
  cg_lost :: u16

definition chiaki_takion_format_congestion :: "congestion_packet \<Rightarrow> u64 \<Rightarrow> bytes" where
  "chiaki_takion_format_congestion p key_pos =
     [TAKION_PACKET_TYPE_CONGESTION] @ be16 (cg_word_0 p) @ be16 (cg_received p) @ be16 (cg_lost p)
       @ replicate 4 0 @ be32 (ucast key_pos)"

subsection \<open>Audio and video packets\<close>

record takion_av_packet =
  av_packet_index :: u16
  av_frame_index :: u16
  av_uses_nalu :: bool
  av_is_video :: bool
  av_is_haptics :: bool
  av_unit_index :: u16
  av_units_total :: u16
  av_units_fec :: u16
  av_codec :: u8
  av_word_at_0x18 :: u16
  av_adaptive_stream_index :: u8
  av_byte_at_0x2c :: u8
  av_key_pos :: u64
  av_data :: nat
  av_data_size :: u64

definition chiaki_takion_av_packet_audio_unit_size :: "takion_av_packet \<Rightarrow> u8" where
  "chiaki_takion_av_packet_audio_unit_size p = ucast (drop_bit 8 (av_units_fec p))"
definition chiaki_takion_av_packet_audio_source_units_count :: "takion_av_packet \<Rightarrow> u8" where
  "chiaki_takion_av_packet_audio_source_units_count p = ucast (av_units_fec p AND 0xf)"
definition chiaki_takion_av_packet_audio_fec_units_count :: "takion_av_packet \<Rightarrow> u8" where
  "chiaki_takion_av_packet_audio_fec_units_count p = ucast (drop_bit 4 (av_units_fec p) AND 0xf)"

definition CHIAKI_TAKION_V9_AV_HEADER_SIZE_VIDEO :: nat where "CHIAKI_TAKION_V9_AV_HEADER_SIZE_VIDEO = 0x17"
definition CHIAKI_TAKION_V9_AV_HEADER_SIZE_AUDIO :: nat where "CHIAKI_TAKION_V9_AV_HEADER_SIZE_AUDIO = 0x12"
definition CHIAKI_TAKION_V12_AV_HEADER_SIZE_VIDEO :: nat where "CHIAKI_TAKION_V12_AV_HEADER_SIZE_VIDEO = 0x17"
definition CHIAKI_TAKION_V12_AV_HEADER_SIZE_AUDIO :: nat where "CHIAKI_TAKION_V12_AV_HEADER_SIZE_AUDIO = 0x13"

definition av_units :: "bool \<Rightarrow> u32 \<Rightarrow> u16 \<times> u16 \<times> u16" where
  "av_units is_video dword_2 =
     (if is_video
      then (ucast (drop_bit 0x15 dword_2 AND 0x7ff), ucast ((drop_bit 0xa dword_2 AND 0x7ff) + 1),
            ucast (dword_2 AND 0x3ff))
      else (ucast (drop_bit 0x18 dword_2 AND 0xff), ucast ((drop_bit 0x10 dword_2 AND 0xff) + 1),
            ucast (dword_2 AND 0xffff)))"

definition av_header_size :: "bool \<Rightarrow> bool \<Rightarrow> nat" where
  "av_header_size v12 is_video =
     (if v12 then if is_video then CHIAKI_TAKION_V12_AV_HEADER_SIZE_VIDEO else CHIAKI_TAKION_V12_AV_HEADER_SIZE_AUDIO
      else if is_video then CHIAKI_TAKION_V9_AV_HEADER_SIZE_VIDEO else CHIAKI_TAKION_V9_AV_HEADER_SIZE_AUDIO)"

text \<open>How far \<open>av\<close> has advanced, from the byte after the type byte, when the data begins.\<close>

definition av_consumed :: "bool \<Rightarrow> bool \<Rightarrow> bool \<Rightarrow> nat" where
  "av_consumed v12 is_video nalu =
     0x11 + (if is_video then 3 else 1) + (if nalu then 3 else 0) + (if v12 \<and> \<not> is_video then 1 else 0)"

definition av_packet_parse ::
    "bool \<Rightarrow> key_state \<Rightarrow> bytes \<Rightarrow> (key_state \<times> (chiaki_error + takion_av_packet)) option" where
  "av_packet_parse v12 ks buf =
     (if length buf < 1 then Some (ks, Inl CHIAKI_ERR_BUF_TOO_SMALL)
      else let base_type = buf ! 0 AND TAKION_PACKET_BASE_TYPE_MASK in
      if base_type \<noteq> TAKION_PACKET_TYPE_VIDEO \<and> base_type \<noteq> TAKION_PACKET_TYPE_AUDIO
      then Some (ks, Inl CHIAKI_ERR_INVALID_DATA)
      else let is_video = (base_type = TAKION_PACKET_TYPE_VIDEO);
               nalu = (drop_bit 4 (buf ! 0) AND 1 \<noteq> 0);
               av_size = length buf - 1
      in if av_size < av_header_size v12 is_video + 1 then Some (ks, Inl CHIAKI_ERR_BUF_TOO_SMALL)
      else do {
        packet_index \<leftarrow> rd16be buf (1 + 0);
        frame_index \<leftarrow> rd16be buf (1 + 2);
        dword_2 \<leftarrow> rd32be buf (1 + 4);
        let (unit_index, total, fec) = av_units is_video dword_2;
        codec \<leftarrow> rd8 buf (1 + 8);
        low \<leftarrow> rd32be buf (1 + 0xd);
        let (ks, key_pos) = chiaki_key_state_request_pos ks low True;
        _ \<leftarrow> rd8 buf (1 + 0x11);
        word_at_0x18 \<leftarrow> (if is_video then rd16be buf (1 + 0x11) else Some 0);
        adaptive \<leftarrow> (if is_video then rd8 buf (1 + 0x13) else Some 0);
        byte_at_0x2c \<leftarrow> (if is_video then rd8 buf (1 + 0x14) else Some 0);
        haptics \<leftarrow> (if v12 \<and> \<not> is_video
          then map_option (\<lambda>b. b = 0x02) (rd8 buf (1 + 0x12 + (if nalu then 3 else 0))) else Some False);
        let consumed = av_consumed v12 is_video nalu;
        Some (ks, Inr \<lparr>av_packet_index = packet_index, av_frame_index = frame_index, av_uses_nalu = nalu,
          av_is_video = is_video, av_is_haptics = haptics, av_unit_index = unit_index, av_units_total = total,
          av_units_fec = fec, av_codec = codec, av_word_at_0x18 = word_at_0x18,
          av_adaptive_stream_index = drop_bit 5 adaptive, av_byte_at_0x2c = byte_at_0x2c,
          av_key_pos = key_pos, av_data = 1 + consumed,
          av_data_size = of_nat av_size - of_nat consumed\<rparr>) })"

definition chiaki_takion_v9_av_packet_parse ::
    "key_state \<Rightarrow> bytes \<Rightarrow> (key_state \<times> (chiaki_error + takion_av_packet)) option" where
  "chiaki_takion_v9_av_packet_parse = av_packet_parse False"

definition chiaki_takion_v12_av_packet_parse ::
    "key_state \<Rightarrow> bytes \<Rightarrow> (key_state \<times> (chiaki_error + takion_av_packet)) option" where
  "chiaki_takion_v12_av_packet_parse = av_packet_parse True"

subsection \<open>Version 7\<close>

definition CHIAKI_TAKION_V7_AV_HEADER_SIZE_BASE :: nat where "CHIAKI_TAKION_V7_AV_HEADER_SIZE_BASE = 0x12"
definition CHIAKI_TAKION_V7_AV_HEADER_SIZE_VIDEO_ADD :: nat where "CHIAKI_TAKION_V7_AV_HEADER_SIZE_VIDEO_ADD = 0x3"
definition CHIAKI_TAKION_V7_AV_HEADER_SIZE_NALU_INFO_STRUCTS_ADD :: nat where
  "CHIAKI_TAKION_V7_AV_HEADER_SIZE_NALU_INFO_STRUCTS_ADD = 0x3"

definition v7_header_size :: "bool \<Rightarrow> bool \<Rightarrow> nat" where
  "v7_header_size is_video nalu = CHIAKI_TAKION_V7_AV_HEADER_SIZE_BASE
     + (if is_video then CHIAKI_TAKION_V7_AV_HEADER_SIZE_VIDEO_ADD else 0)
     + (if nalu then CHIAKI_TAKION_V7_AV_HEADER_SIZE_NALU_INFO_STRUCTS_ADD else 0)"

text \<open>The key position is written in the byte order of the machine, little-endian here.\<close>

definition le32 :: "u32 \<Rightarrow> bytes" where
  "le32 w = [ucast w, ucast (drop_bit 8 w), ucast (drop_bit 16 w), ucast (drop_bit 24 w)]"

definition v7_dword_2 :: "takion_av_packet \<Rightarrow> u32" where
  "v7_dword_2 p = (ucast (av_units_fec p) AND 0x3ff)
     OR push_bit 0xa ((ucast (av_units_total p) - 1) AND 0x7ff)
     OR push_bit 0x15 (ucast (av_unit_index p) AND 0xffff)"

text \<open>The result is the header size, also when the buffer is too small, and the header bytes, which the
  code writes to the start of the buffer.\<close>

definition chiaki_takion_v7_av_packet_format_header ::
    "nat \<Rightarrow> takion_av_packet \<Rightarrow> nat \<times> (chiaki_error + bytes)" where
  "chiaki_takion_v7_av_packet_format_header buf_size p =
     (let header_size = v7_header_size (av_is_video p) (av_uses_nalu p) in
      (header_size,
       if buf_size < header_size then Inl CHIAKI_ERR_BUF_TOO_SMALL
       else Inr (
         [(if av_is_video p then TAKION_PACKET_TYPE_VIDEO else TAKION_PACKET_TYPE_AUDIO)
            OR (if av_uses_nalu p then 0x10 else 0)]
         @ be16 (av_packet_index p) @ be16 (av_frame_index p) @ be32 (v7_dword_2 p)
         @ [av_codec p AND 0xff] @ replicate 4 0 @ le32 (ucast (av_key_pos p))
         @ (if av_is_video p then be16 (av_word_at_0x18 p) @ [push_bit 5 (av_adaptive_stream_index p)] else [])
         @ (if av_uses_nalu p then [0, 0, 0] else []))))"

definition chiaki_takion_v7_av_packet_parse :: "bytes \<Rightarrow> takion_av_packet result" where
  "chiaki_takion_v7_av_packet_parse buf =
     (if length buf < 1 then ret_err CHIAKI_ERR_BUF_TOO_SMALL
      else let base_type = buf ! 0 AND TAKION_PACKET_BASE_TYPE_MASK in
      if base_type \<noteq> TAKION_PACKET_TYPE_VIDEO \<and> base_type \<noteq> TAKION_PACKET_TYPE_AUDIO
      then ret_err CHIAKI_ERR_INVALID_DATA
      else let is_video = (base_type = TAKION_PACKET_TYPE_VIDEO);
               nalu = (drop_bit 4 (buf ! 0) AND 1 \<noteq> 0);
               header_size = v7_header_size is_video nalu
      in if length buf < header_size then ret_err CHIAKI_ERR_BUF_TOO_SMALL
      else checked (do {
        packet_index \<leftarrow> rd16be buf 1;
        frame_index \<leftarrow> rd16be buf 3;
        dword_2 \<leftarrow> rd32be buf 5;
        let (unit_index, total, fec) = av_units True dword_2;
        codec \<leftarrow> rd8 buf 9;
        key_pos \<leftarrow> rd32be buf 0xe;
        word_at_0x18 \<leftarrow> (if is_video then rd16be buf 0x12 else Some 0);
        adaptive \<leftarrow> (if is_video then rd8 buf (0x12 + 2) else Some 0);
        let off = 0x12 + (if is_video then 3 else 0) + (if nalu then 3 else 0);
        Some \<lparr>av_packet_index = packet_index, av_frame_index = frame_index, av_uses_nalu = nalu,
          av_is_video = is_video, av_is_haptics = False, av_unit_index = unit_index, av_units_total = total,
          av_units_fec = fec, av_codec = codec, av_word_at_0x18 = word_at_0x18,
          av_adaptive_stream_index = drop_bit 5 adaptive, av_byte_at_0x2c = 0,
          av_key_pos = ucast key_pos, av_data = off,
          av_data_size = of_nat (length buf) - of_nat off\<rparr> }))"

end
