(* ===== verification/TakionPacketProps.thy ===== *)
theory TakionPacketProps
  imports TakionPacket GKCryptProps
begin

text \<open>
  What the wire formats of \<^verbatim>\<open>lib/src/takion.c\<close> guarantee: messages read back as written, a packet
  authenticated by one end verifies at the other, where the data of an audio/video packet lies, and
  what survives the version 7 header.
\<close>

subsection \<open>Messages\<close>

lemma parse_header:
  assumes "length payload + 4 < 2 ^ 16"
  shows "takion_parse_message ks tag (takion_write_message_header tag key_pos ty fl (length payload) @ payload)
    = (let (ks', pos) = chiaki_key_state_request_pos ks (ucast key_pos) True in
       Some (ks', Inr \<lparr>msg_tag = tag, msg_key_pos = pos, msg_chunk_type = ty, msg_chunk_flags = fl,
         msg_payload_size = of_nat (length payload),
         msg_payload = (if payload = [] then None else Some payload)\<rparr>))"
proof -
  define sz :: u16 where "sz = of_nat (length payload + 4)"
  define buf where "buf = takion_write_message_header tag key_pos ty fl (length payload) @ payload"
  have u: "unat (of_nat k :: u16) = k" if "k < 2 ^ 16" for k using that by (simp add: unat_of_nat)
  have sz: "unat sz = length payload + 4" unfolding sz_def by (rule u [OF assms])
  have n: "sz - 4 = of_nat (length payload)" by (simp add: sz_def)
  have "unat (of_nat (length payload) :: u16) = length payload" using assms by (intro u) simp
  then have pos: "0 < (of_nat (length payload) :: u16) \<longleftrightarrow> payload \<noteq> []"
    by (auto simp: word_less_nat_alt)
  have "buf = [] @ be32 tag @ (replicate 4 0 @ be32 (ucast key_pos) @ [ty, fl] @ be16 sz @ payload)"
    and "buf = (be32 tag @ replicate 4 0) @ be32 (ucast key_pos) @ ([ty, fl] @ be16 sz @ payload)"
    and "buf = (be32 tag @ replicate 4 0 @ be32 (ucast key_pos)) @ ty # fl # be16 sz @ payload"
    and "buf = (be32 tag @ replicate 4 0 @ be32 (ucast key_pos) @ [ty]) @ fl # be16 sz @ payload"
    and "buf = (be32 tag @ replicate 4 0 @ be32 (ucast key_pos) @ [ty, fl]) @ be16 sz @ payload"
    by (simp_all add: buf_def sz_def takion_write_message_header_def CHIAKI_GKCRYPT_GMAC_SIZE_def)
  note lay = this
  have rd: "rd32be buf 0 = Some tag" "rd32be buf 8 = Some (ucast key_pos)" "rd8 buf 0xc = Some ty"
    "rd8 buf 0xd = Some fl" "rd16be buf 0xe = Some sz"
    by (subst lay(1), rule rd32be_at, simp) (subst lay(2), rule rd32be_at, simp,
        subst lay(3), rule rd8_at, simp, subst lay(4), rule rd8_at, simp, subst lay(5), rule rd16be_at, simp)
  have "length buf = length payload + 16" "drop 0x10 buf = payload"
    by (simp_all add: buf_def takion_write_message_header_def CHIAKI_GKCRYPT_GMAC_SIZE_def)
  then show ?thesis
    unfolding buf_def [symmetric] using rd sz pos n
    by (simp add: takion_parse_message_def TAKION_MESSAGE_HEADER_SIZE_def Let_def split: prod.split)
qed

text \<open>Messages: a message written with a header for its payload is parsed back to the same tag,
  type, flags, payload and full 64-bit key position, whatever key position was seen before, as long as
  the two are less than 2^31 apart and the payload fits the 16-bit size; a message for another tag is
  rejected, and in both cases the key state advances.\<close>

theorem takion_message_roundtrip:
  assumes "length payload + 4 < 2 ^ 16"
    and "\<bar>int (unat key_pos) - int (unat (ks_prev ks))\<bar> < 2 ^ 31"
  shows "takion_parse_message ks tag (takion_write_message_header tag key_pos ty fl (length payload) @ payload)
      = Some (chiaki_key_state_commit ks key_pos,
          Inr \<lparr>msg_tag = tag, msg_key_pos = key_pos, msg_chunk_type = ty, msg_chunk_flags = fl,
            msg_payload_size = of_nat (length payload),
            msg_payload = (if payload = [] then None else Some payload)\<rparr>)"
proof -
  have "chiaki_key_state_request_pos ks (ucast key_pos) True = (chiaki_key_state_commit ks key_pos, key_pos)"
    using key_pos_high_recovers [OF assms(2)]
    by (simp add: chiaki_key_state_request_pos_def chiaki_key_state_commit_def Let_def key_pos_join)
  then show ?thesis unfolding parse_header [OF assms(1)] by simp
qed

lemma takion_message_roundtrip_witness:
  "takion_parse_message \<lparr>ks_prev = 0xfffffff0\<rparr> 77 (takion_write_message_header 77 0x100000010 3 1 (length [5 :: u8, 6]) @ [5, 6])
      = Some (\<lparr>ks_prev = 0x100000010\<rparr>,
          Inr \<lparr>msg_tag = 77, msg_key_pos = 0x100000010, msg_chunk_type = 3, msg_chunk_flags = 1,
            msg_payload_size = 2, msg_payload = Some [5, 6]\<rparr>)"
  using takion_message_roundtrip [of "[5, 6]" "0x100000010" "\<lparr>ks_prev = 0xfffffff0\<rparr>" 77 3 1]
  by (simp add: chiaki_key_state_commit_def)

subsection \<open>Authentication\<close>

lemma rd_slice_mid: "length A = m \<Longrightarrow> length M = n \<Longrightarrow> rd_slice (A @ M @ R) m n = Some M"
  by simp

lemma wr_slice_mid: "length A = m \<Longrightarrow> length X = length M \<Longrightarrow> wr_slice (A @ M @ R) m X = Some (A @ X @ R)"
  by simp

lemma split_mac:
  fixes buf :: bytes
  assumes "m + 8 \<le> length buf"
  obtains A M K R where "buf = A @ M @ K @ R" "length A = m" "length M = 4" "length K = 4"
proof
  show "buf = take m buf @ take 4 (drop m buf) @ take 4 (drop (m + 4) buf) @ drop (m + 8) buf"
    by (metis (no_types, lifting) add.assoc add.commute append_take_drop_id drop_drop numeral_Bit0)
qed (use assms in simp_all)

lemma packet_mac_layout:
  assumes buf: "buf = A @ M @ K @ R" "length A = m" "length M = 4" "length K = 4" "A \<noteq> []"
    and ty: "ty = A ! 0 AND TAKION_PACKET_BASE_TYPE_MASK"
    and off: "takion_packet_type_mac_offset ty = Some m" "takion_packet_type_key_pos_offset ty = Some (m + 4)"
    and gm: "\<And>b. \<exists>gk' mac. chiaki_gkcrypt_gmac P gk key_pos b = ret_ok (gk', mac) \<and> length mac = 4"
  obtains gk' mac where
    "chiaki_gkcrypt_gmac P gk key_pos (A @ replicate 4 0
        @ (if ty = TAKION_PACKET_TYPE_CONTROL \<or> ty = TAKION_PACKET_TYPE_CONGESTION then replicate 4 0 else K) @ R)
      = ret_ok (gk', mac)" "length mac = 4"
    "chiaki_takion_packet_mac P (Some gk) buf key_pos
      = ret_ok \<lparr>pm_crypt = Some gk', pm_buf = A @ mac @ K @ R, pm_mac = mac, pm_mac_old = M\<rparr>"
proof -
  let ?strip = "ty = TAKION_PACKET_TYPE_CONTROL \<or> ty = TAKION_PACKET_TYPE_CONGESTION"
  let ?K = "if ?strip then replicate 4 0 else K"
  obtain gk' mac where g: "chiaki_gkcrypt_gmac P gk key_pos (A @ replicate 4 0 @ ?K @ R) = ret_ok (gk', mac)"
    "length mac = 4"
    using gm by blast
  have b0: "buf ! 0 = A ! 0" using buf by (cases A) auto
  have l: "\<not> length buf < 1" "\<not> (length buf < m + 4 \<or> length buf < m + 4 + 4)" using buf by simp_all
  have s: "rd_slice buf m 4 = Some M" "wr_slice buf m (replicate 4 0) = Some (A @ replicate 4 0 @ K @ R)"
    unfolding buf(1) using buf(2-4) by (simp_all del: append_assoc add: append_assoc [symmetric])
  have k: "rd_slice (A @ X @ K @ R) (m + 4) 4 = Some K"
    "length K' = 4 \<Longrightarrow> wr_slice (A @ X @ K @ R) (m + 4) K' = Some (A @ X @ K' @ R)"
    "length K' = 4 \<Longrightarrow> wr_slice (A @ X @ K' @ R) (m + 4) K = Some (A @ X @ K @ R)"
    if "length X = 4" for X K'
    using rd_slice_mid [of "A @ X" "m + 4" K 4 R] wr_slice_mid [of "A @ X" "m + 4" K' K R]
      wr_slice_mid [of "A @ X" "m + 4" K K' R] buf(2,4) that by simp_all
  have w: "wr_slice (A @ X @ K' @ R) m mac = Some (A @ mac @ K' @ R)" if "length X = 4" for X K'
    using wr_slice_mid [of A m mac X "K' @ R"] that g(2) buf(2) by simp
  have r: "rd_slice (A @ mac @ K @ R) m 4 = Some mac"
    using rd_slice_mid [of A m mac 4 "K @ R"] g(2) buf(2) by simp
  have "chiaki_takion_packet_mac P (Some gk) buf key_pos
      = ret_ok \<lparr>pm_crypt = Some gk', pm_buf = A @ mac @ K @ R, pm_mac = mac, pm_mac_old = M\<rparr>"
    unfolding chiaki_takion_packet_mac_def Let_def b0 ty [symmetric] off CHIAKI_GKCRYPT_GMAC_SIZE_def
    using l s k g w r by (cases ?strip) (simp_all del: append_assoc)
  with that g show thesis by blast
qed

lemma gmac_total:
  assumes "gmac_inv P gk0 gk" "prims_sizes P" "length (gk_gmac_base gk0) = 16"
  shows "\<exists>gk' key. chiaki_gkcrypt_gmac P gk key_pos b
      = ret_ok (gk', gcm_tag P key (counter_add (gk_iv gk0) (key_pos div 0x10)) b)
    \<and> gmac_key_of P gk0 (gmac_key_index key_pos) = Some key \<and> gmac_inv P gk0 gk'"
proof -
  obtain gk' key where g: "gmac_select_key P gk key_pos = Some (gk', key)"
    "gmac_key_of P gk0 (gmac_key_index key_pos) = Some key" "gmac_inv P gk0 gk'"
    using gmac_select_total [OF assms] by blast
  have "gk_iv gk = gk_iv gk0" using assms(1) by (simp add: gmac_inv_def)
  then show ?thesis
    using g assms(2) by (simp add: chiaki_gkcrypt_gmac_def prims_sizes_def)
qed

lemma packet_mac_agrees:
  assumes "gmac_inv P gk0 gk" "gmac_inv P gk0 peer" "prims_sizes P" "length (gk_gmac_base gk0) = 16"
    and "takion_packet_type_mac_offset (buf ! 0 AND TAKION_PACKET_BASE_TYPE_MASK) = Some m" "m + 8 \<le> length buf"
  shows "\<exists>r r'. chiaki_takion_packet_mac P (Some gk) buf key_pos = ret_ok r
    \<and> chiaki_takion_packet_mac P (Some peer) (pm_buf r) key_pos = ret_ok r'
    \<and> pm_mac_old r' = pm_mac r \<and> pm_mac r' = pm_mac r \<and> pm_buf r' = pm_buf r
    \<and> (\<exists>gk' peer'. pm_crypt r = Some gk' \<and> pm_crypt r' = Some peer'
        \<and> gmac_inv P gk0 gk' \<and> gmac_inv P gk0 peer')"
proof -
  obtain A M K R where b: "buf = A @ M @ K @ R" "length A = m" "length M = 4" "length K = 4"
    using split_mac [OF assms(6)] by blast
  let ?ty = "A ! 0 AND TAKION_PACKET_BASE_TYPE_MASK"
  have m: "0 < m" using assms(5) by (auto simp: takion_packet_type_mac_offset_def split: if_splits)
  then have A: "A \<noteq> []" "buf ! 0 = A ! 0" using b by (auto simp: nth_append)
  have off: "takion_packet_type_mac_offset ?ty = Some m" "takion_packet_type_key_pos_offset ?ty = Some (m + 4)"
    using assms(5) unfolding A(2)
    by (auto simp: takion_packet_type_mac_offset_def takion_packet_type_key_pos_offset_def split: if_splits)
  have tot: "\<exists>gk' mac. chiaki_gkcrypt_gmac P g key_pos d = ret_ok (gk', mac) \<and> length mac = 4"
    if "gmac_inv P gk0 g" for g d
    using gmac_total [OF that assms(3,4), of key_pos d] assms(3) by (auto simp: prims_sizes_def)
  let ?in = "A @ replicate 4 0 @ (if ?ty = TAKION_PACKET_TYPE_CONTROL \<or> ?ty = TAKION_PACKET_TYPE_CONGESTION
      then replicate 4 0 else K) @ R"
  obtain gk' mac where s: "chiaki_gkcrypt_gmac P gk key_pos ?in = ret_ok (gk', mac)" "length mac = 4"
    "chiaki_takion_packet_mac P (Some gk) buf key_pos
      = ret_ok \<lparr>pm_crypt = Some gk', pm_buf = A @ mac @ K @ R, pm_mac = mac, pm_mac_old = M\<rparr>"
    by (rule packet_mac_layout [OF b A(1) refl off tot [OF assms(1)]])
  obtain peer' mac' where v: "chiaki_gkcrypt_gmac P peer key_pos ?in = ret_ok (peer', mac')" "length mac' = 4"
    "chiaki_takion_packet_mac P (Some peer) (A @ mac @ K @ R) key_pos
      = ret_ok \<lparr>pm_crypt = Some peer', pm_buf = A @ mac' @ K @ R, pm_mac = mac', pm_mac_old = mac\<rparr>"
    by (rule packet_mac_layout [OF refl b(2) s(2) b(4) A(1) refl off tot [OF assms(2)]])
  have "mac' = mac" "gmac_inv P gk0 gk'" "gmac_inv P gk0 peer'"
    using gmac_total [OF assms(1,3,4), of key_pos ?in] gmac_total [OF assms(2,3,4), of key_pos ?in] s(1) v(1)
    by auto
  with s(3) v(3) show ?thesis by simp
qed

text \<open>Authentication: a packet of an authenticated type that one end writes its code into verifies
  at the other end, whichever positions either end authenticated before: the code found in the packet
  equals the one recomputed, and the check leaves the packet as it was.\<close>

theorem takion_mac_verifies:
  assumes "gmac_inv P gk0 gk" "gmac_inv P gk0 peer" "prims_sizes P" "length (gk_gmac_base gk0) = 16"
    and "takion_packet_type_mac_offset (buf ! 0 AND TAKION_PACKET_BASE_TYPE_MASK) = Some m" "m + 8 \<le> length buf"
  shows "\<exists>r r'. chiaki_takion_packet_mac P (Some gk) buf key_pos = ret_ok r
    \<and> chiaki_takion_packet_mac P (Some peer) (pm_buf r) key_pos = ret_ok r'
    \<and> pm_mac_old r' = pm_mac r \<and> pm_mac r' = pm_mac r \<and> pm_buf r' = pm_buf r
    \<and> (\<exists>gk' peer'. pm_crypt r = Some gk' \<and> pm_crypt r' = Some peer'
        \<and> gmac_inv P gk0 gk' \<and> gmac_inv P gk0 peer')"
  using assms by (rule packet_mac_agrees)

lemma takion_mac_verifies_witness:
  "\<exists>gk0 r r'. toy_init = ret_ok gk0
    \<and> chiaki_takion_packet_mac toy_prims (Some gk0) (replicate 20 0) 7 = ret_ok r
    \<and> chiaki_takion_packet_mac toy_prims (Some gk0) (pm_buf r) 7 = ret_ok r' \<and> pm_mac r' = pm_mac_old r'"
proof -
  obtain gk0 where g: "toy_init = ret_ok gk0" "length (gk_gmac_base gk0) = 16" "gmac_inv toy_prims gk0 gk0"
    by (rule toy_init_ok)
  have "takion_packet_type_mac_offset (replicate 20 0 ! 0 AND TAKION_PACKET_BASE_TYPE_MASK) = Some 5"
    by (simp add: takion_packet_type_mac_offset_def takion_type_defs)
  from takion_mac_verifies [OF g(3,3) toy_prims_sizes g(2) this, of 7] g(1) show ?thesis by fastforce
qed

subsection \<open>Audio and video packets\<close>

definition audio_nalu :: "bytes \<Rightarrow> bool" where
  "audio_nalu buf \<longleftrightarrow> buf ! 0 AND TAKION_PACKET_BASE_TYPE_MASK = TAKION_PACKET_TYPE_AUDIO
     \<and> drop_bit 4 (buf ! 0) AND 1 \<noteq> 0"

lemmas av_size_defs = av_header_size_def av_consumed_def CHIAKI_TAKION_V9_AV_HEADER_SIZE_VIDEO_def
  CHIAKI_TAKION_V9_AV_HEADER_SIZE_AUDIO_def CHIAKI_TAKION_V12_AV_HEADER_SIZE_VIDEO_def
  CHIAKI_TAKION_V12_AV_HEADER_SIZE_AUDIO_def

definition av_parsed :: "bool \<Rightarrow> bytes \<Rightarrow> takion_av_packet \<Rightarrow> bool" where
  "av_parsed v12 buf p \<longleftrightarrow>
     (let is_video = (buf ! 0 AND TAKION_PACKET_BASE_TYPE_MASK = TAKION_PACKET_TYPE_VIDEO);
          nalu = (drop_bit 4 (buf ! 0) AND 1 \<noteq> 0)
      in av_data p = 1 + av_consumed v12 is_video nalu
         \<and> av_data_size p = of_nat (length buf - 1) - of_nat (av_consumed v12 is_video nalu)
         \<and> av_header_size v12 is_video + 2 \<le> length buf)"

lemma av_parse_Some:
  assumes "av_packet_parse v12 ks buf = Some (ks', Inr p)"
  shows "av_parsed v12 buf p
    \<and> (buf ! 0 AND TAKION_PACKET_BASE_TYPE_MASK = TAKION_PACKET_TYPE_VIDEO
       \<or> buf ! 0 AND TAKION_PACKET_BASE_TYPE_MASK = TAKION_PACKET_TYPE_AUDIO)
    \<and> (v12 \<and> audio_nalu buf \<longrightarrow> 23 \<le> length buf)"
  using assms
  by (auto simp: av_packet_parse_def av_parsed_def Let_def case_prod_unfold bind_eq_Some_conv audio_nalu_def
      takion_type_defs buf_simps split: if_splits)

lemma av_parse_None:
  assumes "av_packet_parse v12 ks buf = None"
  shows "v12 \<and> audio_nalu buf \<and> length buf \<in> {21, 22}"
proof -
  have r16: "rd16be buf i = None \<Longrightarrow> length buf < i + 2" for i
    by (rule ccontr) simp
  have r32: "rd32be buf i = None \<Longrightarrow> length buf < i + 4" for i
    by (rule ccontr) simp
  show ?thesis
    using assms
    by (auto simp: av_packet_parse_def Let_def bind_eq_None_conv audio_nalu_def takion_type_defs
        case_prod_unfold buf_simps av_size_defs split: if_splits dest!: r16 r32)
qed

text \<open>C13.  Bounds of audio and video packets, versions 9 and 12: the parser returns data that ends
  exactly where the datagram ends, except for an audio packet with the extra information structure
  that is too short for it, a case the size check does not cover: version 9 then returns a data
  pointer behind the datagram with a size near 2^64, version 12 reads the haptics byte outside the
  datagram.\<close>

theorem av_packet_bounds:
  assumes "length buf < 2 ^ 63"
  shows "case av_packet_parse v12 ks buf of
      None \<Rightarrow> v12 \<and> audio_nalu buf \<and> length buf \<in> {21, 22}
    | Some (ks', Inl e) \<Rightarrow> e = CHIAKI_ERR_BUF_TOO_SMALL \<or> e = CHIAKI_ERR_INVALID_DATA
    | Some (ks', Inr p) \<Rightarrow>
        if \<not> v12 \<and> audio_nalu buf \<and> length buf < 22
        then length buf < av_data p \<and> 2 ^ 64 - 2 \<le> unat (av_data_size p)
        else av_data p + unat (av_data_size p) = length buf"
proof (cases "av_packet_parse v12 ks buf")
  case None
  then show ?thesis using av_parse_None [OF None] by simp
next
  case (Some r)
  then obtain ks' s where r: "av_packet_parse v12 ks buf = Some (ks', s)" by (cases r) auto
  show ?thesis
  proof (cases s)
    case (Inl e)
    then have "e = CHIAKI_ERR_BUF_TOO_SMALL \<or> e = CHIAKI_ERR_INVALID_DATA"
      using r by (auto simp: av_packet_parse_def Let_def case_prod_unfold bind_eq_Some_conv split: if_splits)
    then show ?thesis using r Inl by simp
  next
    case (Inr p)
    note q = av_parse_Some [OF r [unfolded Inr]]
    have u: "unat (of_nat (length buf) :: u64) = length buf"
      using assms by (simp add: unat_of_nat)
    have sub: "unat (of_nat (length buf) - w :: u64)
        = (if unat w \<le> length buf then length buf - unat w else 2 ^ 64 + length buf - unat w)" for w
      using u by (auto simp: unat_sub_if')
    have "if \<not> v12 \<and> audio_nalu buf \<and> length buf < 22
        then length buf < av_data p \<and> 2 ^ 64 - 2 \<le> unat (av_data_size p)
        else av_data p + unat (av_data_size p) = length buf"
      using q by (auto simp: av_parsed_def Let_def sub av_size_defs audio_nalu_def takion_type_defs split: if_splits)
    then show ?thesis using r Inr by simp
  qed
qed

lemma av_packet_bounds_witness:
  "case av_packet_parse False \<lparr>ks_prev = 0\<rparr> (0x13 # replicate 19 0) of
     Some (ks', Inr p) \<Rightarrow> 20 < av_data p \<and> 2 ^ 64 - 2 \<le> unat (av_data_size p) | _ \<Rightarrow> False"
proof -
  let ?b = "0x13 # replicate 19 0 :: bytes"
  have "audio_nalu ?b" by (simp add: audio_nalu_def takion_type_defs)
  moreover have "\<exists>ks' p. av_packet_parse False \<lparr>ks_prev = 0\<rparr> ?b = Some (ks', Inr p)"
    by (simp add: av_packet_parse_def takion_type_defs av_size_defs Let_def case_prod_unfold)
  ultimately show ?thesis using av_packet_bounds [of ?b False "\<lparr>ks_prev = 0\<rparr>"] by auto
qed

subsection \<open>The version 7 header\<close>

definition byte_swap32 :: "u32 \<Rightarrow> u32" where
  "byte_swap32 w = of_be32 (ucast w) (ucast (drop_bit 8 w)) (ucast (drop_bit 16 w)) (ucast (drop_bit 24 w))"

lemma masks32: "(0x3ff :: u32) = mask 10" "(0x7ff :: u32) = mask 11" "(0xffff :: u32) = mask 16"
  "(0x3ff :: u16) = mask 10" "(0x7ff :: u16) = mask 11"
  by (simp_all add: mask_eq_exp_minus_1)

lemma dword_fields:
  fixes a b c :: u32
  defines "d \<equiv> (a AND mask 10) OR push_bit 10 (b AND mask 11) OR push_bit 21 (c AND mask 16)"
  shows "drop_bit 21 d AND mask 11 = c AND mask 11" "drop_bit 10 d AND mask 11 = b AND mask 11"
    "d AND mask 10 = a AND mask 10"
  unfolding d_def by (rule bit_word_eqI, auto simp: bit_simps)+

lemma v7_units:
  "av_units True (v7_dword_2 p)
    = (av_unit_index p AND 0x7ff, ((av_units_total p - 1) AND 0x7ff) + 1, av_units_fec p AND 0x3ff)"
proof -
  let ?b = "ucast (av_units_total p) - 1 :: u32"
  have "(ucast (ucast (av_units_total p) + (- 1) :: u32) :: u16) = av_units_total p + (- 1)"
  proof -
    have "(ucast (- 1 :: u32) :: u16) = - 1" by (rule bit_word_eqI) (simp add: bit_simps)
    moreover have "(ucast (ucast (av_units_total p) :: u32) :: u16) = av_units_total p"
      by (rule bit_word_eqI) (auto simp: bit_simps)
    ultimately show ?thesis by (subst ucast_down_add) simp_all
  qed
  then have b: "(ucast ?b :: u16) = av_units_total p - 1" by simp
  have m: "(ucast (x AND mask n :: u32) :: u16) = ucast x AND mask n" if "n \<le> 16" for x n
    using that by (intro bit_word_eqI) (auto simp: bit_simps)
  have id: "(ucast (ucast (x :: u16) :: u32) :: u16) = x" for x by (rule bit_word_eqI) (auto simp: bit_simps)
  have u: "(ucast ((x AND mask 11) + 1 :: u32) :: u16) = (ucast x AND mask 11) + 1" for x
    by (subst ucast_down_add) (simp_all add: m)
  show ?thesis
    unfolding av_units_def v7_dword_2_def masks32 dword_fields if_True u b
    by (simp add: m id)
qed

lemma le32_read: "length xs = n \<Longrightarrow> rd32be (xs @ le32 w @ ys) n = Some (byte_swap32 w)"
  by (auto simp: le32_def byte_swap32_def nth_append)

lemma v7_shift_adaptive: "drop_bit 5 (push_bit 5 x :: u8) = x AND 7"
proof -
  have "(7 :: u8) = mask 3" by (simp add: mask_eq_exp_minus_1)
  show ?thesis unfolding \<open>7 = mask 3\<close> by (rule bit_word_eqI) (auto simp: bit_simps)
qed

lemma v7_parse_parts:
  assumes h: "h = (if vid then 2 else 3) OR (if nalu then 0x10 else 0 :: u8)"
    and buf: "buf = [h] @ be16 pidx @ be16 fidx @ be32 dw @ [codec] @ replicate 4 0 @ le32 kp
      @ (if vid then be16 w18 @ [ad] else []) @ (if nalu then [0, 0, 0] else []) @ dat"
  shows "chiaki_takion_v7_av_packet_parse buf = (let (unit_index, total, fec) = av_units True dw in
    ret_ok \<lparr>av_packet_index = pidx, av_frame_index = fidx, av_uses_nalu = nalu, av_is_video = vid,
      av_is_haptics = False, av_unit_index = unit_index, av_units_total = total, av_units_fec = fec,
      av_codec = codec, av_word_at_0x18 = (if vid then w18 else 0),
      av_adaptive_stream_index = (if vid then drop_bit 5 ad else 0), av_byte_at_0x2c = 0,
      av_key_pos = ucast (byte_swap32 kp), av_data = v7_header_size vid nalu,
      av_data_size = of_nat (length dat)\<rparr>)"
proof -
  let ?tl = "(if vid then be16 w18 @ [ad] else []) @ (if nalu then [0, 0, 0] else []) @ dat"
  have l: "length (le32 kp) = 4" by (simp add: le32_def)
  have b0: "buf ! 0 = h" by (simp add: buf)
  have ty: "h AND TAKION_PACKET_BASE_TYPE_MASK = (if vid then TAKION_PACKET_TYPE_VIDEO else TAKION_PACKET_TYPE_AUDIO)"
    "(drop_bit 4 h AND 1 \<noteq> 0) = nalu" "TAKION_PACKET_TYPE_VIDEO \<noteq> TAKION_PACKET_TYPE_AUDIO"
    by (simp_all add: h takion_type_defs)
  have len: "length buf = v7_header_size vid nalu + length dat"
    by (simp add: buf l v7_header_size_def CHIAKI_TAKION_V7_AV_HEADER_SIZE_BASE_def
        CHIAKI_TAKION_V7_AV_HEADER_SIZE_VIDEO_ADD_def CHIAKI_TAKION_V7_AV_HEADER_SIZE_NALU_INFO_STRUCTS_ADD_def)
  have "buf = [h] @ be16 pidx @ (be16 fidx @ be32 dw @ [codec] @ replicate 4 0 @ le32 kp @ ?tl)"
    "buf = ([h] @ be16 pidx) @ be16 fidx @ (be32 dw @ [codec] @ replicate 4 0 @ le32 kp @ ?tl)"
    "buf = ([h] @ be16 pidx @ be16 fidx) @ be32 dw @ ([codec] @ replicate 4 0 @ le32 kp @ ?tl)"
    "buf = ([h] @ be16 pidx @ be16 fidx @ be32 dw) @ codec # (replicate 4 0 @ le32 kp @ ?tl)"
    "buf = ([h] @ be16 pidx @ be16 fidx @ be32 dw @ [codec] @ replicate 4 0) @ le32 kp @ ?tl"
    by (simp_all add: buf)
  note lay = this
  have "rd16be buf 1 = Some pidx" "rd16be buf 3 = Some fidx" "rd32be buf 5 = Some dw" "rd8 buf 9 = Some codec"
    "rd32be buf 0xe = Some (byte_swap32 kp)"
    by (subst lay(1), rule rd16be_at, simp) (subst lay(2), rule rd16be_at, simp,
      subst lay(3), rule rd32be_at, simp, subst lay(4), rule rd8_at, simp, subst lay(5), rule le32_read, simp)
  moreover have "rd16be buf 0x12 = Some w18" "rd8 buf 0x14 = Some ad" if vid
  proof -
    let ?pre = "[h] @ be16 pidx @ be16 fidx @ be32 dw @ [codec] @ replicate 4 0 @ le32 kp"
    have "buf = ?pre @ be16 w18 @ ([ad] @ (if nalu then [0, 0, 0] else []) @ dat)"
      "buf = (?pre @ be16 w18) @ ad # ((if nalu then [0, 0, 0] else []) @ dat)"
      using that by (simp_all add: buf)
    note lay = this
    show "rd16be buf 0x12 = Some w18" by (subst lay(1), rule rd16be_at, simp add: l)
    show "rd8 buf 0x14 = Some ad" by (subst lay(2), rule rd8_at, simp add: l)
  qed
  moreover have "\<not> length buf < 1" by (simp add: buf)
  moreover have off: "0x12 + (if vid then 3 else 0) + (if nalu then 3 else 0) = v7_header_size vid nalu"
    by (simp add: v7_header_size_def CHIAKI_TAKION_V7_AV_HEADER_SIZE_BASE_def
        CHIAKI_TAKION_V7_AV_HEADER_SIZE_VIDEO_ADD_def CHIAKI_TAKION_V7_AV_HEADER_SIZE_NALU_INFO_STRUCTS_ADD_def)
  ultimately show ?thesis
    unfolding chiaki_takion_v7_av_packet_parse_def Let_def b0 ty
    using ty(3) off [symmetric] by (cases vid; cases nalu) (simp_all add: len split: prod.split)
qed

text \<open>Version 7 headers: what the formatter writes, the parser reads back with the data behind it,
  except that the key position comes back as its low 32 bits with the bytes reversed, that the unit
  index loses all but 11 bits, and that the other fields are cut to the width of their bit fields.\<close>

theorem v7_header_roundtrip:
  assumes "v7_header_size (av_is_video p) (av_uses_nalu p) \<le> buf_size"
  shows "\<exists>hdr. chiaki_takion_v7_av_packet_format_header buf_size p
      = (v7_header_size (av_is_video p) (av_uses_nalu p), Inr hdr)
    \<and> length hdr = v7_header_size (av_is_video p) (av_uses_nalu p)
    \<and> chiaki_takion_v7_av_packet_parse (hdr @ dat) = ret_ok (p\<lparr>
        av_is_haptics := False, av_unit_index := av_unit_index p AND 0x7ff,
        av_units_total := ((av_units_total p - 1) AND 0x7ff) + 1, av_units_fec := av_units_fec p AND 0x3ff,
        av_word_at_0x18 := (if av_is_video p then av_word_at_0x18 p else 0),
        av_adaptive_stream_index := (if av_is_video p then av_adaptive_stream_index p AND 7 else 0),
        av_byte_at_0x2c := 0, av_key_pos := ucast (byte_swap32 (ucast (av_key_pos p))),
        av_data := v7_header_size (av_is_video p) (av_uses_nalu p), av_data_size := of_nat (length dat)\<rparr>)"
proof -
  let ?vid = "av_is_video p" and ?nalu = "av_uses_nalu p"
  define h :: u8 where "h = (if ?vid then 2 else 3) OR (if ?nalu then 0x10 else 0)"
  define hdr where "hdr = [h] @ be16 (av_packet_index p) @ be16 (av_frame_index p) @ be32 (v7_dword_2 p)
    @ [av_codec p] @ replicate 4 0 @ le32 (ucast (av_key_pos p))
    @ (if ?vid then be16 (av_word_at_0x18 p) @ [push_bit 5 (av_adaptive_stream_index p)] else [])
    @ (if ?nalu then [0, 0, 0] else [])"
  have m: "(0xff :: u8) = mask 8" by (simp add: mask_eq_exp_minus_1)
  have codec: "av_codec p AND 0xff = av_codec p" unfolding m by (rule bit_word_eqI) (auto simp: bit_simps)
  have "chiaki_takion_v7_av_packet_format_header buf_size p = (v7_header_size ?vid ?nalu, Inr hdr)"
    using assms unfolding chiaki_takion_v7_av_packet_format_header_def Let_def codec hdr_def h_def takion_type_defs
    by simp
  moreover have "length hdr = v7_header_size ?vid ?nalu"
    by (simp add: hdr_def le32_def v7_header_size_def CHIAKI_TAKION_V7_AV_HEADER_SIZE_BASE_def
        CHIAKI_TAKION_V7_AV_HEADER_SIZE_VIDEO_ADD_def CHIAKI_TAKION_V7_AV_HEADER_SIZE_NALU_INFO_STRUCTS_ADD_def)
  moreover have "hdr @ dat = [h] @ be16 (av_packet_index p) @ be16 (av_frame_index p) @ be32 (v7_dword_2 p)
    @ [av_codec p] @ replicate 4 0 @ le32 (ucast (av_key_pos p))
    @ (if ?vid then be16 (av_word_at_0x18 p) @ [push_bit 5 (av_adaptive_stream_index p)] else [])
    @ (if ?nalu then [0, 0, 0] else []) @ dat"
    by (simp add: hdr_def)
  note v7_parse_parts [OF h_def this]
  ultimately show ?thesis by (simp add: v7_units v7_shift_adaptive)
qed

lemma v7_header_roundtrip_witness:
  "let p = \<lparr>av_packet_index = 1, av_frame_index = 2, av_uses_nalu = False, av_is_video = True,
      av_is_haptics = False, av_unit_index = 0x805, av_units_total = 9, av_units_fec = 3, av_codec = 4,
      av_word_at_0x18 = 5, av_adaptive_stream_index = 6, av_byte_at_0x2c = 0, av_key_pos = 0x01020304,
      av_data = 0, av_data_size = 0\<rparr>
   in \<exists>hdr. chiaki_takion_v7_av_packet_format_header 100 p = (21, Inr hdr)
     \<and> chiaki_takion_v7_av_packet_parse (hdr @ [7])
       = ret_ok (p\<lparr>av_unit_index := 5, av_key_pos := 0x04030201, av_data := 21, av_data_size := 1\<rparr>)"
proof -
  define p where "p = \<lparr>av_packet_index = 1, av_frame_index = 2, av_uses_nalu = False, av_is_video = True,
      av_is_haptics = False, av_unit_index = 0x805, av_units_total = 9, av_units_fec = 3, av_codec = 4,
      av_word_at_0x18 = 5, av_adaptive_stream_index = 6, av_byte_at_0x2c = 0, av_key_pos = 0x01020304,
      av_data = 0, av_data_size = 0\<rparr>"
  have sz: "v7_header_size (av_is_video p) (av_uses_nalu p) = 21"
    by (simp add: p_def v7_header_size_def CHIAKI_TAKION_V7_AV_HEADER_SIZE_BASE_def
        CHIAKI_TAKION_V7_AV_HEADER_SIZE_VIDEO_ADD_def)
  have swap: "byte_swap32 0x01020304 = 0x04030201" by (simp add: byte_swap32_def of_be32_def)
  have "21 \<le> (100 :: nat)" by simp
  then show ?thesis
    using v7_header_roundtrip [of p 100 "[7]"] swap unfolding sz by (auto simp: p_def Let_def)
qed

end
