(* ===== verification/Controller.thy ===== *)
theory Controller
  imports Common
begin

text \<open>
  \<^verbatim>\<open>lib/src/controller.c\<close>: the state of a controller, its touch points, comparison and union.

  Motion values are C floats.  Their type is a type variable and the few operations the code uses are
  fields of \<open>float_ops\<close>: the two constants, and \<open>f_near a b\<close>, the test that neither
  \<open>a < b - 0.0000001f\<close> nor \<open>a > b + 0.0000001f\<close>.  Touch identifiers are \<open>int8_t\<close>, negative for a
  free slot.
\<close>

record 'f float_ops =
  f_zero :: 'f
  f_one :: 'f
  f_near :: "'f \<Rightarrow> 'f \<Rightarrow> bool"

record controller_touch =
  tc_x :: u16
  tc_y :: u16
  tc_id :: u8

record 'f motion =
  gyro_x :: 'f
  gyro_y :: 'f
  gyro_z :: 'f
  accel_x :: 'f
  accel_y :: 'f
  accel_z :: 'f
  orient_x :: 'f
  orient_y :: 'f
  orient_z :: 'f
  orient_w :: 'f

record 'f controller_state =
  cs_buttons :: u32
  cs_l2_state :: u8
  cs_r2_state :: u8
  cs_left_x :: u16
  cs_left_y :: u16
  cs_right_x :: u16
  cs_right_y :: u16
  cs_touch_id_next :: u8
  cs_touches :: "controller_touch list"
  cs_motion :: "'f motion"

definition CHIAKI_CONTROLLER_TOUCHES_MAX :: nat where "CHIAKI_CONTROLLER_TOUCHES_MAX = 2"
definition CHIAKI_CONTROLLER_BUTTONS_COUNT :: nat where "CHIAKI_CONTROLLER_BUTTONS_COUNT = 16"
definition TOUCH_ID_MASK :: u8 where "TOUCH_ID_MASK = 0x7f"

definition touch_down :: "controller_touch \<Rightarrow> bool" where
  "touch_down t = (0 \<le> sint (tc_id t))"

definition chiaki_controller_state_set_idle :: "'f float_ops \<Rightarrow> 'f controller_state" where
  "chiaki_controller_state_set_idle F =
     \<lparr>cs_buttons = 0, cs_l2_state = 0, cs_r2_state = 0, cs_left_x = 0, cs_left_y = 0, cs_right_x = 0,
      cs_right_y = 0, cs_touch_id_next = 0,
      cs_touches = replicate CHIAKI_CONTROLLER_TOUCHES_MAX \<lparr>tc_x = 0, tc_y = 0, tc_id = - 1\<rparr>,
      cs_motion = \<lparr>gyro_x = f_zero F, gyro_y = f_zero F, gyro_z = f_zero F,
        accel_x = f_zero F, accel_y = f_one F, accel_z = f_zero F,
        orient_x = f_zero F, orient_y = f_zero F, orient_z = f_zero F, orient_w = f_one F\<rparr>\<rparr>"

text \<open>The slots before the first free one are passed over; \<open>None\<close> when there is none.\<close>

fun start_touch_loop :: "u8 \<Rightarrow> u16 \<Rightarrow> u16 \<Rightarrow> controller_touch list \<Rightarrow> controller_touch list option" where
  "start_touch_loop tid x y [] = None"
| "start_touch_loop tid x y (t # ts) =
     (if \<not> touch_down t then Some (\<lparr>tc_x = x, tc_y = y, tc_id = tid\<rparr> # ts)
      else map_option ((#) t) (start_touch_loop tid x y ts))"

definition chiaki_controller_state_start_touch ::
    "'f controller_state \<Rightarrow> u16 \<Rightarrow> u16 \<Rightarrow> 'f controller_state \<times> u8" where
  "chiaki_controller_state_start_touch st x y =
     (case start_touch_loop (cs_touch_id_next st) x y (cs_touches st) of
        None \<Rightarrow> (st, - 1)
      | Some ts \<Rightarrow> (st\<lparr>cs_touches := ts, cs_touch_id_next := (cs_touch_id_next st + 1) AND TOUCH_ID_MASK\<rparr>,
                    cs_touch_id_next st))"

text \<open>A signed slot identifier is compared with an unsigned argument, both promoted to \<open>int\<close>.\<close>

definition touch_id_is :: "u8 \<Rightarrow> controller_touch \<Rightarrow> bool" where
  "touch_id_is tid t = (sint (tc_id t) = uint tid)"

fun update_first :: "('a \<Rightarrow> bool) \<Rightarrow> ('a \<Rightarrow> 'a) \<Rightarrow> 'a list \<Rightarrow> 'a list" where
  "update_first P f [] = []"
| "update_first P f (x # xs) = (if P x then f x # xs else x # update_first P f xs)"

definition chiaki_controller_state_stop_touch :: "'f controller_state \<Rightarrow> u8 \<Rightarrow> 'f controller_state" where
  "chiaki_controller_state_stop_touch st tid =
     st\<lparr>cs_touches := update_first (touch_id_is tid) (\<lambda>t. t\<lparr>tc_id := - 1\<rparr>) (cs_touches st)\<rparr>"

definition chiaki_controller_state_set_touch_pos ::
    "'f controller_state \<Rightarrow> u8 \<Rightarrow> u16 \<Rightarrow> u16 \<Rightarrow> 'f controller_state" where
  "chiaki_controller_state_set_touch_pos st tid x y =
     st\<lparr>cs_touches := update_first (touch_id_is (tid AND TOUCH_ID_MASK))
          (\<lambda>t. t\<lparr>tc_x := x, tc_y := y\<rparr>) (cs_touches st)\<rparr>"

definition motion_near :: "'f float_ops \<Rightarrow> 'f motion \<Rightarrow> 'f motion \<Rightarrow> bool" where
  "motion_near F a b \<longleftrightarrow>
     f_near F (gyro_x a) (gyro_x b) \<and> f_near F (gyro_y a) (gyro_y b) \<and> f_near F (gyro_z a) (gyro_z b)
     \<and> f_near F (accel_x a) (accel_x b) \<and> f_near F (accel_y a) (accel_y b) \<and> f_near F (accel_z a) (accel_z b)
     \<and> f_near F (orient_x a) (orient_x b) \<and> f_near F (orient_y a) (orient_y b)
     \<and> f_near F (orient_z a) (orient_z b) \<and> f_near F (orient_w a) (orient_w b)"

definition sticks_equal :: "'f controller_state \<Rightarrow> 'f controller_state \<Rightarrow> bool" where
  "sticks_equal a b \<longleftrightarrow> cs_left_x a = cs_left_x b \<and> cs_left_y a = cs_left_y b
     \<and> cs_right_x a = cs_right_x b \<and> cs_right_y a = cs_right_y b"

definition touch_equal :: "controller_touch \<Rightarrow> controller_touch \<Rightarrow> bool" where
  "touch_equal a b \<longleftrightarrow> tc_id a = tc_id b \<and> (touch_down a \<longrightarrow> tc_x a = tc_x b \<and> tc_y a = tc_y b)"

definition chiaki_controller_state_equals ::
    "'f float_ops \<Rightarrow> 'f controller_state \<Rightarrow> 'f controller_state \<Rightarrow> bool" where
  "chiaki_controller_state_equals F a b \<longleftrightarrow>
     cs_buttons a = cs_buttons b \<and> cs_l2_state a = cs_l2_state b \<and> cs_r2_state a = cs_r2_state b
     \<and> sticks_equal a b \<and> list_all2 touch_equal (cs_touches a) (cs_touches b)
     \<and> motion_near F (cs_motion a) (cs_motion b)"

definition max_abs :: "u16 \<Rightarrow> u16 \<Rightarrow> u16" where
  "max_abs a b = (if \<bar>sint b\<bar> < \<bar>sint a\<bar> then a else b)"

definition touch_or :: "controller_touch \<Rightarrow> controller_touch \<Rightarrow> controller_touch" where
  "touch_or a b = (if touch_down a then a else if touch_down b then b
                   else \<lparr>tc_x = 0, tc_y = 0, tc_id = - 1\<rparr>)"

definition motion_chooser :: "'f float_ops \<Rightarrow> 'f motion \<Rightarrow> bool" where
  "motion_chooser F a \<longleftrightarrow> \<not> f_near F (gyro_x a) (f_zero F) \<or> \<not> f_near F (gyro_y a) (f_zero F)
     \<or> \<not> f_near F (gyro_z a) (f_zero F) \<or> \<not> f_near F (accel_x a) (f_zero F)
     \<or> \<not> f_near F (accel_y a) (f_one F) \<or> \<not> f_near F (accel_z a) (f_zero F)"

definition chiaki_controller_state_or ::
    "'f float_ops \<Rightarrow> 'f controller_state \<Rightarrow> 'f controller_state \<Rightarrow> 'f controller_state" where
  "chiaki_controller_state_or F a b =
     \<lparr>cs_buttons = cs_buttons a OR cs_buttons b, cs_l2_state = max (cs_l2_state a) (cs_l2_state b),
      cs_r2_state = max (cs_r2_state a) (cs_r2_state b),
      cs_left_x = max_abs (cs_left_x a) (cs_left_x b), cs_left_y = max_abs (cs_left_y a) (cs_left_y b),
      cs_right_x = max_abs (cs_right_x a) (cs_right_x b), cs_right_y = max_abs (cs_right_y a) (cs_right_y b),
      cs_touch_id_next = 0, cs_touches = map2 touch_or (cs_touches a) (cs_touches b),
      cs_motion = (if motion_chooser F (cs_motion a) then cs_motion a else cs_motion b)\<rparr>"

end
