(* ===== verification/Feedback.thy ===== *)
theory Feedback
  imports Controller
begin

text \<open>
  \<^verbatim>\<open>lib/src/feedback.c\<close>: the wire format of the controller state, the events of the history, and the
  ring buffer that holds the latest ones, newest first.

  The conversion of motion values to integers is floating-point arithmetic: \<open>fb_quant\<close> holds the
  expressions of the code for a gyroscope value, an acceleration and the compressed orientation.
\<close>

record 'f fb_quant =
  q_gyro :: "'f \<Rightarrow> u16"
  q_accel :: "'f \<Rightarrow> u16"
  compress_quat :: "'f \<Rightarrow> 'f \<Rightarrow> 'f \<Rightarrow> 'f \<Rightarrow> u32"

record 'f feedback_state =
  fs_motion :: "'f motion"
  fs_left_x :: u16
  fs_left_y :: u16
  fs_right_x :: u16
  fs_right_y :: u16

definition CHIAKI_FEEDBACK_STATE_BUF_SIZE_MAX :: nat where "CHIAKI_FEEDBACK_STATE_BUF_SIZE_MAX = 0x1c"
definition CHIAKI_FEEDBACK_STATE_BUF_SIZE_V9 :: nat where "CHIAKI_FEEDBACK_STATE_BUF_SIZE_V9 = 0x19"
definition CHIAKI_FEEDBACK_STATE_BUF_SIZE_V12 :: nat where "CHIAKI_FEEDBACK_STATE_BUF_SIZE_V12 = 0x1c"
definition CHIAKI_HISTORY_EVENT_SIZE_MAX :: nat where "CHIAKI_HISTORY_EVENT_SIZE_MAX = 0x5"

definition le16 :: "u16 \<Rightarrow> bytes" where
  "le16 v = [ucast v, ucast (drop_bit 8 v)]"

text \<open>The bytes written at the start of the buffer.\<close>

definition chiaki_feedback_state_format_v9 :: "'f fb_quant \<Rightarrow> 'f feedback_state \<Rightarrow> bytes" where
  "chiaki_feedback_state_format_v9 Q st =
     (let m = fs_motion st;
          qc = compress_quat Q (orient_x m) (orient_y m) (orient_z m) (orient_w m)
      in [0xa0] @ le16 (q_gyro Q (gyro_x m)) @ le16 (q_gyro Q (gyro_y m)) @ le16 (q_gyro Q (gyro_z m))
         @ le16 (q_accel Q (accel_x m)) @ le16 (q_accel Q (accel_y m)) @ le16 (q_accel Q (accel_z m))
         @ [ucast qc, ucast (drop_bit 8 qc), ucast (drop_bit 0x10 qc), ucast (drop_bit 0x18 qc)]
         @ be16 (fs_left_x st) @ be16 (fs_left_y st) @ be16 (fs_right_x st) @ be16 (fs_right_y st))"

definition chiaki_feedback_state_format_v12 :: "'f fb_quant \<Rightarrow> 'f feedback_state \<Rightarrow> bytes" where
  "chiaki_feedback_state_format_v12 Q st = chiaki_feedback_state_format_v9 Q st @ [0x0, 0x0, 0x1]"

subsection \<open>Events\<close>

record history_event =
  he_buf :: bytes
  he_len :: nat

text \<open>Buttons are bits of a 64-bit number; those of the first group take a third byte for the state,
  those of the second fold it into the code.\<close>

definition three_byte_buttons :: "(u64 \<times> u8) list" where
  "three_byte_buttons =
     [(2 ^ 0, 0x88), (2 ^ 1, 0x89), (2 ^ 2, 0x8a), (2 ^ 3, 0x8b), (2 ^ 4, 0x82), (2 ^ 5, 0x83),
      (2 ^ 6, 0x80), (2 ^ 7, 0x81), (2 ^ 8, 0x84), (2 ^ 9, 0x85), (2 ^ 16, 0x86), (2 ^ 17, 0x87)]"

definition two_byte_buttons :: "(u64 \<times> u8 \<times> u8) list" where
  "two_byte_buttons =
     [(2 ^ 10, 0xaf, 0x8f), (2 ^ 11, 0xb0, 0x90), (2 ^ 12, 0xac, 0x8c), (2 ^ 13, 0xad, 0x8d),
      (2 ^ 14, 0xb1, 0x91), (2 ^ 15, 0xae, 0x8e)]"

definition chiaki_feedback_history_event_set_button ::
    "history_event \<Rightarrow> u64 \<Rightarrow> u8 \<Rightarrow> chiaki_error \<times> history_event" where
  "chiaki_feedback_history_event_set_button ev button state =
     (let ev = ev\<lparr>he_buf := (he_buf ev)[0 := 0x80], he_len := 2\<rparr> in
      case map_of three_byte_buttons button of
        Some c \<Rightarrow> (CHIAKI_ERR_SUCCESS, ev\<lparr>he_buf := (he_buf ev)[1 := c, 2 := state], he_len := 3\<rparr>)
      | None \<Rightarrow>
          (case map_of two_byte_buttons button of
             Some (down, up) \<Rightarrow>
               (CHIAKI_ERR_SUCCESS, ev\<lparr>he_buf := (he_buf ev)[1 := (if state \<noteq> 0 then down else up)]\<rparr>)
           | None \<Rightarrow> (CHIAKI_ERR_INVALID_DATA, ev)))"

definition chiaki_feedback_history_event_set_touchpad ::
    "bool \<Rightarrow> u8 \<Rightarrow> u16 \<Rightarrow> u16 \<Rightarrow> history_event" where
  "chiaki_feedback_history_event_set_touchpad down pointer_id x y =
     \<lparr>he_buf = [(if down then 0xd0 else 0xc0), pointer_id AND 0x7f, ucast (drop_bit 4 x),
        ucast (push_bit 4 (x AND 0xf)) OR ucast (drop_bit 8 y), ucast y],
      he_len = 5\<rparr>"

subsection \<open>The ring buffer\<close>

record history_buffer =
  hb_events :: "history_event list"
  hb_size :: nat
  hb_begin :: nat
  hb_len :: nat

definition blank_event :: history_event where
  "blank_event = \<lparr>he_buf = replicate CHIAKI_HISTORY_EVENT_SIZE_MAX 0, he_len = 0\<rparr>"

definition chiaki_feedback_history_buffer_init :: "bool \<Rightarrow> nat \<Rightarrow> chiaki_error + history_buffer" where
  "chiaki_feedback_history_buffer_init alloc sz =
     (if \<not> alloc then Inl CHIAKI_ERR_MEMORY
      else Inr \<lparr>hb_events = replicate sz blank_event, hb_size = sz, hb_begin = 0, hb_len = 0\<rparr>)"

text \<open>\<open>todo\<close> events remain, from index \<open>i\<close>; the output so far is \<open>out\<close>.\<close>

fun history_format_loop :: "history_buffer \<Rightarrow> nat \<Rightarrow> nat \<Rightarrow> nat \<Rightarrow> bytes \<Rightarrow> bytes result" where
  "history_format_loop hb size_max i 0 out = ret_ok out"
| "history_format_loop hb size_max i (Suc todo) out =
     (if hb_size hb = 0 then None
      else and_then (checked (rd8 (hb_events hb) ((hb_begin hb + i) mod hb_size hb))) (\<lambda>ev.
        if size_max < length out + he_len ev then ret_err CHIAKI_ERR_BUF_TOO_SMALL
        else and_then (checked (rd_slice (he_buf ev) 0 (he_len ev))) (\<lambda>b.
          history_format_loop hb size_max (i + 1) todo (out @ b))))"

definition chiaki_feedback_history_buffer_format :: "history_buffer \<Rightarrow> nat \<Rightarrow> bytes result" where
  "chiaki_feedback_history_buffer_format hb buf_size = history_format_loop hb buf_size 0 (hb_len hb) []"

definition chiaki_feedback_history_buffer_push :: "history_buffer \<Rightarrow> history_event \<Rightarrow> history_buffer option" where
  "chiaki_feedback_history_buffer_push hb ev =
     (if hb_size hb = 0 then None
      else let b = (hb_begin hb + hb_size hb - 1) mod hb_size hb;
               l = (if hb_size hb \<le> hb_len hb + 1 then hb_size hb else hb_len hb + 1)
      in do { es \<leftarrow> wr8 (hb_events hb) b ev;
              Some (hb\<lparr>hb_begin := b, hb_len := l, hb_events := es\<rparr>) })"

subsection \<open>The buffer is a bounded list, newest first\<close>

definition hb_ok :: "history_buffer \<Rightarrow> bool" where
  "hb_ok hb \<longleftrightarrow> 0 < hb_size hb \<and> length (hb_events hb) = hb_size hb \<and> hb_begin hb < hb_size hb
     \<and> hb_len hb \<le> hb_size hb"

definition hb_list :: "history_buffer \<Rightarrow> history_event list" where
  "hb_list hb = map (\<lambda>i. hb_events hb ! ((hb_begin hb + i) mod hb_size hb)) [0..<hb_len hb]"

definition he_ok :: "history_event \<Rightarrow> bool" where
  "he_ok ev \<longleftrightarrow> length (he_buf ev) = CHIAKI_HISTORY_EVENT_SIZE_MAX \<and> he_len ev \<le> CHIAKI_HISTORY_EVENT_SIZE_MAX"

definition he_bytes :: "history_event \<Rightarrow> bytes" where
  "he_bytes ev = take (he_len ev) (he_buf ev)"

lemma length_hb_list [simp]: "length (hb_list hb) = hb_len hb"
  by (simp add: hb_list_def)

lemma ring_back: "(b :: nat) < n \<Longrightarrow> ((b + n - 1) mod n + Suc i) mod n = (b + i) mod n"
proof -
  assume b: "b < n"
  have "((b + n - 1) mod n + Suc i) mod n = (b + n - 1 + Suc i) mod n" by (rule mod_add_left_eq)
  also have "b + n - 1 + Suc i = b + i + n" using b by simp
  finally show ?thesis by simp
qed

lemma ring_distinct: "(b :: nat) < n \<Longrightarrow> Suc i < n \<Longrightarrow> (b + i) mod n \<noteq> (b + n - 1) mod n"
proof
  assume b: "b < n" "Suc i < n" and e: "(b + i) mod n = (b + n - 1) mod n"
  have "(b + n - 1) - (b + i) = n - 1 - i" using b by simp
  moreover have "n dvd (b + n - 1) - (b + i)"
    using e b by (intro mod_eq_dvd_iff_nat [THEN iffD1]) simp_all
  ultimately show False using b by (auto dest: dvd_imp_le)
qed

lemma history_push_list:
  assumes "hb_ok hb"
  shows "\<exists>hb'. chiaki_feedback_history_buffer_push hb ev = Some hb' \<and> hb_ok hb' \<and> hb_size hb' = hb_size hb
    \<and> hb_list hb' = take (hb_size hb) (ev # hb_list hb)"
proof -
  let ?n = "hb_size hb" and ?b = "(hb_begin hb + hb_size hb - 1) mod hb_size hb"
  let ?l = "if ?n \<le> hb_len hb + 1 then ?n else hb_len hb + 1"
  let ?hb = "hb\<lparr>hb_begin := ?b, hb_len := ?l, hb_events := (hb_events hb)[?b := ev]\<rparr>"
  have ok: "0 < ?n" "length (hb_events hb) = ?n" "hb_begin hb < ?n" "hb_len hb \<le> ?n" "?b < ?n"
    using assms by (auto simp: hb_ok_def)
  have push: "chiaki_feedback_history_buffer_push hb ev = Some ?hb"
    using ok by (simp add: chiaki_feedback_history_buffer_push_def Let_def)
  have "hb_list ?hb = take ?n (ev # hb_list hb)"
  proof (rule nth_equalityI)
    show "length (hb_list ?hb) = length (take ?n (ev # hb_list hb))" using ok by auto
    fix i assume "i < length (hb_list ?hb)"
    then have i: "i < ?l" by simp
    show "hb_list ?hb ! i = take ?n (ev # hb_list hb) ! i"
    proof (cases i)
      case 0
      then show ?thesis using i ok by (simp add: hb_list_def)
    next
      case (Suc j)
      then have j: "Suc j < ?n" "j < hb_len hb" using i by (auto split: if_splits)
      then have "(?b + i) mod ?n = (hb_begin hb + j) mod ?n" unfolding Suc by (intro ring_back ok)
      moreover have "(hb_begin hb + j) mod ?n \<noteq> ?b" using ring_distinct [OF ok(3) j(1)] .
      ultimately show ?thesis using i j Suc ok by (simp add: hb_list_def)
    qed
  qed
  then show ?thesis using push ok by (auto simp: hb_ok_def)
qed

lemma history_format_loop_spec:
  assumes "hb_ok hb" "\<forall>ev \<in> set (hb_list hb). he_ok ev" "i + todo = hb_len hb"
  shows "history_format_loop hb m i todo out =
    (if length out + length (concat (map he_bytes (drop i (hb_list hb)))) \<le> m \<or> todo = 0
     then ret_ok (out @ concat (map he_bytes (drop i (hb_list hb))))
     else ret_err CHIAKI_ERR_BUF_TOO_SMALL)"
  using assms(3)
proof (induction todo arbitrary: i out)
  case 0
  then show ?case by simp
next
  case (Suc todo)
  let ?ev = "hb_list hb ! i"
  have i: "i < hb_len hb" using Suc.prems by simp
  have rd: "rd8 (hb_events hb) ((hb_begin hb + i) mod hb_size hb) = Some ?ev"
    using assms(1) i by (simp add: hb_ok_def hb_list_def)
  have ok: "he_ok ?ev" using assms(2) i by simp
  have dr: "drop i (hb_list hb) = ?ev # drop (Suc i) (hb_list hb)"
    using i by (simp add: Cons_nth_drop_Suc)
  have ev: "rd_slice (he_buf ?ev) 0 (he_len ?ev) = Some (he_bytes ?ev)" "length (he_bytes ?ev) = he_len ?ev"
    using ok by (simp_all add: he_ok_def he_bytes_def)
  show ?case
  proof (cases "m < length out + he_len ?ev")
    case True
    then show ?thesis using assms(1) rd ev dr by (simp add: hb_ok_def)
  next
    case False
    have "history_format_loop hb m i (Suc todo) out = history_format_loop hb m (i + 1) todo (out @ he_bytes ?ev)"
      using assms(1) rd ev False by (simp add: hb_ok_def)
    also have "\<dots> = (if length out + length (concat (map he_bytes (drop i (hb_list hb)))) \<le> m \<or> todo = 0
       then ret_ok (out @ concat (map he_bytes (drop i (hb_list hb)))) else ret_err CHIAKI_ERR_BUF_TOO_SMALL)"
      using Suc.IH [of "i + 1" "out @ he_bytes ?ev"] Suc.prems dr ev by (simp add: ac_simps)
    also have "\<dots> = (if length out + length (concat (map he_bytes (drop i (hb_list hb)))) \<le> m \<or> Suc todo = 0
       then ret_ok (out @ concat (map he_bytes (drop i (hb_list hb)))) else ret_err CHIAKI_ERR_BUF_TOO_SMALL)"
      using False ev dr Suc.prems by auto
    finally show ?thesis .
  qed
qed

lemma history_format_list:
  assumes "hb_ok hb" "\<forall>ev \<in> set (hb_list hb). he_ok ev"
  shows "chiaki_feedback_history_buffer_format hb m =
    (if length (concat (map he_bytes (hb_list hb))) \<le> m then ret_ok (concat (map he_bytes (hb_list hb)))
     else ret_err CHIAKI_ERR_BUF_TOO_SMALL)"
proof (cases "hb_len hb = 0")
  case True
  then have "hb_list hb = []" by (simp flip: length_0_conv)
  then show ?thesis using True by (simp add: chiaki_feedback_history_buffer_format_def)
next
  case False
  then show ?thesis
    using history_format_loop_spec [OF assms, of 0 "hb_len hb" m "[]"]
    by (simp add: chiaki_feedback_history_buffer_format_def)
qed

lemma set_button_ok:
  assumes "length (he_buf ev) = 5" "chiaki_feedback_history_event_set_button ev b st = (CHIAKI_ERR_SUCCESS, ev')"
  shows "he_ok ev'"
  using assms by (auto simp: chiaki_feedback_history_event_set_button_def he_ok_def
      CHIAKI_HISTORY_EVENT_SIZE_MAX_def Let_def split: option.splits prod.splits)

lemma set_touchpad_ok: "he_ok (chiaki_feedback_history_event_set_touchpad d p x y)"
  by (simp add: chiaki_feedback_history_event_set_touchpad_def he_ok_def CHIAKI_HISTORY_EVENT_SIZE_MAX_def)

end
