(* ===== verification/TakionSend.thy ===== *)
theory TakionSend
  imports TakionPacket Feedback SendBuffer ReorderQueue
begin

text \<open>
  The state of a Takion connection (\<^verbatim>\<open>lib/include/chiaki/takion.h\<close>, \<open>ChiakiTakion\<close>) and its sending
  operations (\<^verbatim>\<open>lib/src/takion.c\<close>): reservation of the key stream, authentication, data messages with
  their retransmission buffer, acknowledgements, congestion reports, feedback and microphone packets.

  The socket is the list \<open>tk_wire\<close> of the datagrams handed to it.  Heap buffers the code has released
  are listed in \<open>tk_freed\<close>, those it lost without releasing them in \<open>tk_leaked\<close>.  The outcomes of one
  operation's locks, allocations and socket call are the fields of \<open>send_env\<close>.  When a cryptographic
  primitive fails the model keeps the key cache as it was.  \<open>None\<close> is undefined behaviour.
\<close>

record data_entry =
  de_packet_buf :: bytes
  de_type_b :: u8
  de_payload :: bytes
  de_channel :: u16

record av_entry =
  ae_base_type :: u8
  ae_buf :: bytes
  ae_packet :: takion_av_packet

record takion =
  tk_version :: u8
  tk_disable_audio_video :: u8
  tk_enable_crypt :: bool
  tk_postponed :: "bytes list option"
  tk_gk_local :: "gkcrypt option"
  tk_key_pos_local :: u64
  tk_gk_remote :: "gkcrypt option"
  tk_data_queue :: "data_entry reorder_queue"
  tk_video_queue :: "av_entry reorder_queue"
  tk_video_initialized :: bool
  tk_head_wait_start_us :: i64
  tk_head_wait_seq_num :: u64
  tk_send_buffer :: "u32 send_buffer"
  tk_tag_local :: u32
  tk_tag_remote :: u32
  tk_seq_num_local :: u32
  tk_a_rwnd :: u32
  tk_key_state :: key_state
  tk_wire :: "bytes list"
  tk_freed :: "bytes list"
  tk_leaked :: "bytes list"

definition TAKION_A_RWND :: u32 where "TAKION_A_RWND = 0x19000"
definition TAKION_OUTBOUND_STREAMS :: u16 where "TAKION_OUTBOUND_STREAMS = 0x64"
definition TAKION_INBOUND_STREAMS :: u16 where "TAKION_INBOUND_STREAMS = 0x64"
definition CHIAKI_TAKION_CONGESTION_PACKET_SIZE :: nat where "CHIAKI_TAKION_CONGESTION_PACKET_SIZE = 0xf"

record send_env =
  se_advance_lock :: chiaki_error
  se_alloc :: bool
  se_seq_lock :: chiaki_error
  se_mac_lock :: chiaki_error
  se_key_stream_alloc :: bool
  se_sent :: bool
  se_push_lock :: chiaki_error
  se_now_ms :: u64

definition chiaki_takion_set_crypt :: "takion \<Rightarrow> gkcrypt option \<Rightarrow> gkcrypt option \<Rightarrow> takion" where
  "chiaki_takion_set_crypt tk gk_local gk_remote = tk\<lparr>tk_gk_local := gk_local, tk_gk_remote := gk_remote\<rparr>"

subsection \<open>Reserving the key stream\<close>

definition advance_size :: "u64 \<Rightarrow> u64" where
  "advance_size data_size = data_size + data_size mod 0x10"

definition chiaki_takion_crypt_advance_key_pos ::
    "chiaki_error \<Rightarrow> takion \<Rightarrow> u64 \<Rightarrow> takion \<times> (chiaki_error + u64)" where
  "chiaki_takion_crypt_advance_key_pos lk tk data_size =
     (let data_size = advance_size data_size in
      if lk \<noteq> CHIAKI_ERR_SUCCESS then (tk, Inl lk)
      else case tk_gk_local tk of
        None \<Rightarrow> (tk, Inr 0)
      | Some _ \<Rightarrow>
          let cur = tk_key_pos_local tk in
          if - 1 - cur < data_size then (tk, Inl CHIAKI_ERR_OVERFLOW)
          else (tk\<lparr>tk_key_pos_local := cur + data_size\<rparr>, Inr cur))"

subsection \<open>Datagrams\<close>

definition chiaki_takion_send_raw :: "bool \<Rightarrow> takion \<Rightarrow> bytes \<Rightarrow> chiaki_error \<times> takion" where
  "chiaki_takion_send_raw sent tk buf =
     (if sent then (CHIAKI_ERR_SUCCESS, tk\<lparr>tk_wire := tk_wire tk @ [buf]\<rparr>) else (CHIAKI_ERR_NETWORK, tk))"

text \<open>The buffer comes back with its authentication code filled in.\<close>

definition chiaki_takion_send ::
    "gk_prims \<Rightarrow> send_env \<Rightarrow> takion \<Rightarrow> bytes \<Rightarrow> u64 \<Rightarrow> (chiaki_error \<times> takion \<times> bytes) option" where
  "chiaki_takion_send P E tk buf key_pos =
     (if se_mac_lock E \<noteq> CHIAKI_ERR_SUCCESS then Some (se_mac_lock E, tk, buf)
      else case chiaki_takion_packet_mac P (tk_gk_local tk) buf key_pos of
        None \<Rightarrow> None
      | Some (Inl err) \<Rightarrow> Some (err, tk, buf)
      | Some (Inr m) \<Rightarrow>
          case chiaki_takion_send_raw (se_sent E) (tk\<lparr>tk_gk_local := pm_crypt m\<rparr>) (pm_buf m) of
            (err, tk) \<Rightarrow> Some (err, tk, pm_buf m))"

text \<open>\<open>pad\<close> is the zero bytes after the channel: three in \<open>send_message_data\<close>, two in
  \<open>send_message_data_cont\<close>, which differ in nothing else.\<close>

definition data_message :: "u32 \<Rightarrow> u64 \<Rightarrow> u8 \<Rightarrow> u32 \<Rightarrow> u16 \<Rightarrow> nat \<Rightarrow> bytes \<Rightarrow> bytes" where
  "data_message tag_remote key_pos chunk_flags seq_num channel pad buf =
     TAKION_PACKET_TYPE_CONTROL
       # takion_write_message_header tag_remote key_pos TAKION_CHUNK_TYPE_DATA chunk_flags (6 + pad + length buf)
       @ be32 seq_num @ be16 channel @ replicate pad 0 @ buf"

text \<open>The result of the push is ignored by the code; when its lock fails nobody owns the packet.\<close>

definition retransmit_push :: "send_env \<Rightarrow> takion \<Rightarrow> u32 \<Rightarrow> bytes \<Rightarrow> takion option" where
  "retransmit_push E tk seq_num packet_buf = do {
     r \<leftarrow> chiaki_takion_send_buffer_push (se_push_lock E) (se_now_ms E) (tk_send_buffer tk) seq_num packet_buf;
     Some (tk\<lparr>tk_send_buffer := pr_buffer r,
              tk_freed := tk_freed tk @ (if pr_freed r then [packet_buf] else []),
              tk_leaked := tk_leaked tk
                @ (if se_push_lock E \<noteq> CHIAKI_ERR_SUCCESS then [packet_buf] else [])\<rparr>) }"

definition send_message_data ::
    "nat \<Rightarrow> gk_prims \<Rightarrow> send_env \<Rightarrow> takion \<Rightarrow> u8 \<Rightarrow> u16 \<Rightarrow> bytes \<Rightarrow>
     (chiaki_error \<times> takion \<times> u32 option) option" where
  "send_message_data pad P E tk chunk_flags channel buf =
     (case chiaki_takion_crypt_advance_key_pos (se_advance_lock E) tk (of_nat (length buf)) of
        (tk, Inl err) \<Rightarrow> Some (err, tk, None)
      | (tk, Inr key_pos) \<Rightarrow>
          if \<not> se_alloc E then Some (CHIAKI_ERR_MEMORY, tk, None)
          else let seq_num = tk_seq_num_local tk;
                   packet_buf = data_message (tk_tag_remote tk) key_pos chunk_flags seq_num channel pad buf
          in if se_seq_lock E \<noteq> CHIAKI_ERR_SUCCESS
          then Some (se_seq_lock E, tk\<lparr>tk_leaked := tk_leaked tk @ [packet_buf]\<rparr>, None)
          else do {
            (err, tk, packet_buf) \<leftarrow> chiaki_takion_send P E (tk\<lparr>tk_seq_num_local := seq_num + 1\<rparr>) packet_buf key_pos;
            if err \<noteq> CHIAKI_ERR_SUCCESS
            then Some (err, tk\<lparr>tk_freed := tk_freed tk @ [packet_buf]\<rparr>, None)
            else do {
              tk \<leftarrow> retransmit_push E tk seq_num packet_buf;
              Some (CHIAKI_ERR_SUCCESS, tk, Some seq_num) } })"

definition chiaki_takion_send_message_data ::
    "gk_prims \<Rightarrow> send_env \<Rightarrow> takion \<Rightarrow> u8 \<Rightarrow> u16 \<Rightarrow> bytes \<Rightarrow> (chiaki_error \<times> takion \<times> u32 option) option" where
  "chiaki_takion_send_message_data = send_message_data 3"

definition chiaki_takion_send_message_data_cont ::
    "gk_prims \<Rightarrow> send_env \<Rightarrow> takion \<Rightarrow> u8 \<Rightarrow> u16 \<Rightarrow> bytes \<Rightarrow> (chiaki_error \<times> takion \<times> u32 option) option" where
  "chiaki_takion_send_message_data_cont = send_message_data 2"

definition data_ack_message :: "u32 \<Rightarrow> u64 \<Rightarrow> u32 \<Rightarrow> u32 \<Rightarrow> bytes" where
  "data_ack_message tag_remote key_pos seq_num a_rwnd =
     TAKION_PACKET_TYPE_CONTROL # takion_write_message_header tag_remote key_pos TAKION_CHUNK_TYPE_DATA_ACK 0 0xc
       @ be32 seq_num @ be32 a_rwnd @ be16 0 @ be16 0"

definition chiaki_takion_send_message_data_ack ::
    "gk_prims \<Rightarrow> send_env \<Rightarrow> takion \<Rightarrow> u32 \<Rightarrow> (chiaki_error \<times> takion) option" where
  "chiaki_takion_send_message_data_ack P E tk seq_num =
     (case chiaki_takion_crypt_advance_key_pos (se_advance_lock E) tk
             (of_nat (1 + TAKION_MESSAGE_HEADER_SIZE + 0xc)) of
        (tk, Inl err) \<Rightarrow> Some (err, tk)
      | (tk, Inr key_pos) \<Rightarrow> do {
          (err, tk, _) \<leftarrow> chiaki_takion_send P E tk
             (data_ack_message (tk_tag_remote tk) key_pos seq_num (tk_a_rwnd tk)) key_pos;
          Some (err, tk) })"

definition chiaki_takion_send_congestion ::
    "gk_prims \<Rightarrow> send_env \<Rightarrow> takion \<Rightarrow> congestion_packet \<Rightarrow> (chiaki_error \<times> takion) option" where
  "chiaki_takion_send_congestion P E tk packet =
     (case chiaki_takion_crypt_advance_key_pos (se_advance_lock E) tk
             (of_nat CHIAKI_TAKION_CONGESTION_PACKET_SIZE) of
        (tk, Inl err) \<Rightarrow> Some (err, tk)
      | (tk, Inr key_pos) \<Rightarrow> do {
          (err, tk, _) \<leftarrow> chiaki_takion_send P E tk (chiaki_takion_format_congestion packet key_pos) key_pos;
          Some (err, tk) })"

subsection \<open>Encrypted packets\<close>

text \<open>Encrypt from \<open>payload_off\<close> on, write the key position at \<open>key_pos_off\<close>, authenticate the whole
  into \<open>mac_off\<close>, send.  \<open>takion_send_feedback_packet\<close> and the microphone packets are this with
  different offsets; both use \<open>gkcrypt_local\<close> without looking whether it is null.\<close>

definition send_encrypted ::
    "nat \<Rightarrow> nat \<Rightarrow> nat \<Rightarrow> gk_prims \<Rightarrow> send_env \<Rightarrow> takion \<Rightarrow> bytes \<Rightarrow> (chiaki_error \<times> takion) option" where
  "send_encrypted payload_off key_pos_off mac_off P E tk buf =
     (if length buf < payload_off then None
      else if se_mac_lock E \<noteq> CHIAKI_ERR_SUCCESS then Some (se_mac_lock E, tk)
      else case chiaki_takion_crypt_advance_key_pos (se_advance_lock E) tk
                  (of_nat (length buf - payload_off + CHIAKI_GKCRYPT_BLOCK_SIZE)) of
        (tk, Inl err) \<Rightarrow> Some (err, tk)
      | (tk, Inr key_pos) \<Rightarrow>
          case tk_gk_local tk of
            None \<Rightarrow> None
          | Some gk \<Rightarrow>
              case and_then (chiaki_gkcrypt_encrypt P (se_key_stream_alloc E) gk
                               (key_pos + of_nat CHIAKI_GKCRYPT_BLOCK_SIZE) (drop payload_off buf)) (\<lambda>(gk, c).
                   and_then (checked (wr_slice buf payload_off c)) (\<lambda>buf.
                   and_then (checked (wr_slice buf key_pos_off (be32 (ucast key_pos)))) (\<lambda>buf.
                   and_then (chiaki_gkcrypt_gmac P gk key_pos buf) (\<lambda>(gk, mac).
                   and_then (checked (wr_slice buf mac_off mac)) (\<lambda>buf.
                     ret_ok (gk, buf)))))) of
                None \<Rightarrow> None
              | Some (Inl err) \<Rightarrow> Some (err, tk)
              | Some (Inr (gk, buf)) \<Rightarrow>
                  Some (CHIAKI_ERR_SUCCESS,
                    snd (chiaki_takion_send_raw (se_sent E) (tk\<lparr>tk_gk_local := Some gk\<rparr>) buf)))"

definition takion_send_feedback_packet ::
    "gk_prims \<Rightarrow> send_env \<Rightarrow> takion \<Rightarrow> bytes \<Rightarrow> (chiaki_error \<times> takion) option" where
  "takion_send_feedback_packet = send_encrypted 0xc 4 8"

definition feedback_header :: "u8 \<Rightarrow> u16 \<Rightarrow> bytes" where
  "feedback_header type seq_num = [type] @ be16 seq_num @ [0] @ replicate 4 0 @ replicate 4 0"

definition chiaki_takion_send_feedback_state ::
    "gk_prims \<Rightarrow> send_env \<Rightarrow> 'f fb_quant \<Rightarrow> takion \<Rightarrow> u16 \<Rightarrow> 'f feedback_state \<Rightarrow> (chiaki_error \<times> takion) option" where
  "chiaki_takion_send_feedback_state P E Q tk seq_num st =
     takion_send_feedback_packet P E tk (feedback_header TAKION_PACKET_TYPE_FEEDBACK_STATE seq_num
       @ (if tk_version tk \<le> 9 then chiaki_feedback_state_format_v9 Q st else chiaki_feedback_state_format_v12 Q st))"

definition chiaki_takion_send_feedback_history ::
    "gk_prims \<Rightarrow> send_env \<Rightarrow> takion \<Rightarrow> u16 \<Rightarrow> bytes \<Rightarrow> (chiaki_error \<times> takion) option" where
  "chiaki_takion_send_feedback_history P E tk seq_num payload =
     (if \<not> se_alloc E then Some (CHIAKI_ERR_MEMORY, tk)
      else takion_send_feedback_packet P E tk
             (feedback_header TAKION_PACKET_TYPE_FEEDBACK_HISTORY seq_num @ payload))"

definition chiaki_takion_send_mic_packet ::
    "gk_prims \<Rightarrow> send_env \<Rightarrow> takion \<Rightarrow> bool \<Rightarrow> bytes \<Rightarrow> (chiaki_error \<times> takion) option" where
  "chiaki_takion_send_mic_packet P E tk ps5 buf = send_encrypted (19 + (if ps5 then 1 else 0)) 14 10 P E tk buf"

definition takion_send_message_init :: "bool \<Rightarrow> takion \<Rightarrow> takion_payload_init \<Rightarrow> chiaki_error \<times> takion" where
  "takion_send_message_init sent tk p =
     chiaki_takion_send_raw sent tk (takion_message_init (tk_tag_remote tk) p)"

definition takion_send_message_cookie :: "bool \<Rightarrow> takion \<Rightarrow> bytes \<Rightarrow> (chiaki_error \<times> takion) option" where
  "takion_send_message_cookie sent tk cookie = do {
     m \<leftarrow> takion_message_cookie (tk_tag_remote tk) cookie;
     Some (chiaki_takion_send_raw sent tk m) }"

end
