(* ===== verification/TakionRecv.thy ===== *)
theory TakionRecv
  imports TakionSend
begin

text \<open>
  The receiving side of \<^verbatim>\<open>lib/src/takion.c\<close>: the check of the authentication code, packets postponed until
  there is a key, data messages through the reorder queue, acknowledgements, video packets through their
  queue with its timeout, and the rounds of the Takion thread.

  The user's callback is the parameter \<open>cb\<close>, a function on the state because it may send messages and
  set the keys; \<open>None\<close> is a null pointer.  The loops that run it are partial functions: \<open>None\<close> is
  undefined behaviour, a failed assertion or a loop that does not end.
\<close>

datatype takion_event =
    Ev_Connected
  | Ev_Disconnect
  | Ev_Data u8 bytes
  | Ev_Data_Ack u32
  | Ev_AV takion_av_packet bytes

type_synonym takion_callback = "(takion_event \<Rightarrow> takion \<Rightarrow> takion) option"

definition emit :: "takion_callback \<Rightarrow> takion_event \<Rightarrow> takion \<Rightarrow> takion" where
  "emit cb ev tk = (case cb of None \<Rightarrow> tk | Some f \<Rightarrow> f ev tk)"

definition free_buf :: "bytes \<Rightarrow> takion \<Rightarrow> takion" where
  "free_buf b tk = tk\<lparr>tk_freed := tk_freed tk @ [b]\<rparr>"

definition leak_buf :: "bytes \<Rightarrow> takion \<Rightarrow> takion" where
  "leak_buf b tk = tk\<lparr>tk_leaked := tk_leaked tk @ [b]\<rparr>"

definition TAKION_REORDER_QUEUE_SIZE_EXP :: nat where "TAKION_REORDER_QUEUE_SIZE_EXP = 4"
definition TAKION_AV_VIDEO_REORDER_QUEUE_SIZE_EXP :: nat where "TAKION_AV_VIDEO_REORDER_QUEUE_SIZE_EXP = 6"
definition TAKION_AV_REORDER_TIMEOUT_US :: i64 where "TAKION_AV_REORDER_TIMEOUT_US = 16000"
definition TAKION_SEND_BUFFER_SIZE :: nat where "TAKION_SEND_BUFFER_SIZE = 16"
definition TAKION_POSTPONE_PACKETS_SIZE :: nat where "TAKION_POSTPONE_PACKETS_SIZE = 32"

definition CHIAKI_AUDIO_DISABLED :: u8 where "CHIAKI_AUDIO_DISABLED = 1"
definition CHIAKI_VIDEO_DISABLED :: u8 where "CHIAKI_VIDEO_DISABLED = 2"

definition data_types :: "u8 list" where "data_types = [0, 7, 11, 9]"

record recv_env =
  re_send :: send_env
  re_entry_alloc :: bool
  re_postpone_alloc :: bool
  re_queue_alloc :: bool
  re_ack_lock :: chiaki_error
  re_now_us :: i64

subsection \<open>Authentication\<close>

text \<open>The packet comes back with the code that was computed in place of the one it carried.\<close>

definition takion_handle_packet_mac ::
    "gk_prims \<Rightarrow> takion \<Rightarrow> bytes \<Rightarrow> (chiaki_error \<times> takion \<times> bytes) option" where
  "takion_handle_packet_mac P tk buf =
     (case tk_gk_remote tk of
        None \<Rightarrow> Some (CHIAKI_ERR_SUCCESS, tk, buf)
      | Some gk \<Rightarrow>
          case chiaki_takion_packet_read_key_pos (tk_key_state tk) buf of
            None \<Rightarrow> None
          | Some (Inl err) \<Rightarrow> Some (err, tk, buf)
          | Some (Inr key_pos) \<Rightarrow>
              case chiaki_takion_packet_mac P (Some gk) buf key_pos of
                None \<Rightarrow> None
              | Some (Inl err) \<Rightarrow> Some (err, tk, buf)
              | Some (Inr m) \<Rightarrow>
                  let tk = tk\<lparr>tk_gk_remote := pm_crypt m\<rparr> in
                  if pm_mac m \<noteq> pm_mac_old m then Some (CHIAKI_ERR_INVALID_MAC, tk, pm_buf m)
                  else Some (CHIAKI_ERR_SUCCESS,
                         tk\<lparr>tk_key_state := chiaki_key_state_commit (tk_key_state tk) key_pos\<rparr>, pm_buf m))"

definition takion_postpone_packet :: "bool \<Rightarrow> takion \<Rightarrow> bytes \<Rightarrow> takion" where
  "takion_postpone_packet alloc tk buf =
     (if tk_postponed tk = None \<and> \<not> alloc then leak_buf buf tk
      else let ps = (case tk_postponed tk of None \<Rightarrow> [] | Some ps \<Rightarrow> ps);
               tk = tk\<lparr>tk_postponed := Some ps\<rparr>
      in if TAKION_POSTPONE_PACKETS_SIZE \<le> length ps then leak_buf buf tk
      else tk\<lparr>tk_postponed := Some (ps @ [buf])\<rparr>)"

subsection \<open>Data messages\<close>

definition deliver_data :: "takion_callback \<Rightarrow> data_entry \<Rightarrow> takion \<Rightarrow> takion" where
  "deliver_data cb e tk =
     (if length (de_payload e) < 9 \<or> de_payload e ! 8 \<notin> set data_types then tk
      else emit cb (Ev_Data (de_payload e ! 8) (drop 9 (de_payload e))) tk)"

text \<open>The result is the number of the last entry pulled, if any.\<close>

partial_function (option) flush_data_loop ::
    "takion_callback \<Rightarrow> u64 option \<Rightarrow> takion \<Rightarrow> (u64 option \<times> takion) option" where
  "flush_data_loop cb last_seq tk = do {
     (q, pulled) \<leftarrow> chiaki_reorder_queue_pull (tk_data_queue tk);
     let tk = tk\<lparr>tk_data_queue := q\<rparr>;
     (case pulled of
        None \<Rightarrow> Some (last_seq, tk)
      | Some (seq, None) \<Rightarrow> None
      | Some (seq, Some e) \<Rightarrow>
          flush_data_loop cb (Some seq) (free_buf (de_packet_buf e) (deliver_data cb e tk))) }"

definition takion_flush_data_queue ::
    "gk_prims \<Rightarrow> send_env \<Rightarrow> takion_callback \<Rightarrow> takion \<Rightarrow> takion option" where
  "takion_flush_data_queue P E cb tk = do {
     (last_seq, tk) \<leftarrow> flush_data_loop cb None tk;
     (case last_seq of
        None \<Rightarrow> Some tk
      | Some seq \<Rightarrow> map_option snd (chiaki_takion_send_message_data_ack P E tk (ucast seq))) }"

text \<open>The drop callback frees the packets the queue gives up.\<close>

definition data_drops :: "data_entry drops \<Rightarrow> takion \<Rightarrow> takion option" where
  "data_drops ds tk =
     (if None \<in> snd ` set ds then None
      else Some (tk\<lparr>tk_freed := tk_freed tk @ map (\<lambda>d. de_packet_buf (the (snd d))) ds\<rparr>))"

definition takion_handle_packet_message_data ::
    "gk_prims \<Rightarrow> recv_env \<Rightarrow> takion_callback \<Rightarrow> takion \<Rightarrow> bytes \<Rightarrow> u8 \<Rightarrow> bytes \<Rightarrow> takion option" where
  "takion_handle_packet_message_data P E cb tk packet_buf type_b payload =
     (if length payload < 9 then Some (leak_buf packet_buf tk)
      else if \<not> re_entry_alloc E then Some (leak_buf packet_buf tk)
      else do {
        channel \<leftarrow> rd16be payload 4;
        seq_num \<leftarrow> rd32be payload 0;
        (q, ds) \<leftarrow> chiaki_reorder_queue_push (tk_data_queue tk) (ucast seq_num)
          (Some \<lparr>de_packet_buf = packet_buf, de_type_b = type_b, de_payload = payload, de_channel = channel\<rparr>);
        tk \<leftarrow> data_drops ds (tk\<lparr>tk_data_queue := q\<rparr>);
        takion_flush_data_queue P (re_send E) cb tk })"

text \<open>The callback is not compared with null here.\<close>

fun emit_acks :: "takion_callback \<Rightarrow> u32 list \<Rightarrow> takion \<Rightarrow> takion option" where
  "emit_acks cb [] tk = Some tk"
| "emit_acks cb (s # ss) tk = (case cb of None \<Rightarrow> None | Some f \<Rightarrow> emit_acks cb ss (f (Ev_Data_Ack s) tk))"

definition takion_handle_packet_message_data_ack ::
    "recv_env \<Rightarrow> takion_callback \<Rightarrow> takion \<Rightarrow> bytes \<Rightarrow> takion option" where
  "takion_handle_packet_message_data_ack E cb tk payload =
     (if length payload \<noteq> 0xc then Some tk
      else do {
        cumulative_seq_num \<leftarrow> rd32be payload 0;
        gap_ack_blocks_count \<leftarrow> rd16be payload 8;
        if length payload \<noteq> unat gap_ack_blocks_count * 4 + 0xc then Some tk
        else do {
          r \<leftarrow> chiaki_takion_send_buffer_ack (re_ack_lock E) (Some TAKION_SEND_BUFFER_SIZE)
                 (tk_send_buffer tk) cumulative_seq_num;
          emit_acks cb (ar_acked r)
            (tk\<lparr>tk_send_buffer := ar_buffer r, tk_freed := tk_freed tk @ ar_freed r\<rparr>) } })"

definition takion_handle_packet_message ::
    "gk_prims \<Rightarrow> recv_env \<Rightarrow> takion_callback \<Rightarrow> takion \<Rightarrow> bytes \<Rightarrow> takion option" where
  "takion_handle_packet_message P E cb tk buf = do {
     (ks, r) \<leftarrow> takion_parse_message (tk_key_state tk) (tk_tag_local tk) (drop 1 buf);
     let tk = tk\<lparr>tk_key_state := ks\<rparr>;
     (case r of
        Inl err \<Rightarrow> Some (free_buf buf tk)
      | Inr msg \<Rightarrow>
          let payload = (case msg_payload msg of None \<Rightarrow> [] | Some b \<Rightarrow> b) in
          if msg_chunk_type msg = TAKION_CHUNK_TYPE_DATA
          then takion_handle_packet_message_data P E cb tk buf (msg_chunk_flags msg) payload
          else if msg_chunk_type msg = TAKION_CHUNK_TYPE_DATA_ACK
          then map_option (free_buf buf) (takion_handle_packet_message_data_ack E cb tk payload)
          else Some (free_buf buf tk)) }"

subsection \<open>The video queue\<close>

text \<open>Pull and dispatch every entry in order; the flag is \<open>made_progress\<close>.\<close>

partial_function (option) av_pull_loop ::
    "takion_callback \<Rightarrow> bool \<Rightarrow> takion \<Rightarrow> (bool \<times> takion) option" where
  "av_pull_loop cb made_progress tk = do {
     (q, pulled) \<leftarrow> chiaki_reorder_queue_pull (tk_video_queue tk);
     let tk = tk\<lparr>tk_video_queue := q\<rparr>;
     (case pulled of
        None \<Rightarrow> Some (made_progress, tk)
      | Some (seq, None) \<Rightarrow> None
      | Some (seq, Some e) \<Rightarrow>
          av_pull_loop cb True (free_buf (ae_buf e) (emit cb (Ev_AV (ae_packet e) (ae_buf e)) tk))) }"

text \<open>The distance from the head to the first entry that is there.\<close>

partial_function (option) av_skip_loop :: "av_entry reorder_queue \<Rightarrow> u64 \<Rightarrow> u64 option" where
  "av_skip_loop q skipped =
     (if skipped < rq_count q then do {
        r \<leftarrow> chiaki_reorder_queue_peek q skipped;
        (case r of Some _ \<Rightarrow> Some skipped | None \<Rightarrow> av_skip_loop q (skipped + 1)) }
      else Some skipped)"

definition set_head_wait :: "i64 \<Rightarrow> takion \<Rightarrow> takion" where
  "set_head_wait now tk =
     tk\<lparr>tk_head_wait_start_us := now, tk_head_wait_seq_num := rq_begin (tk_video_queue tk)\<rparr>"

text \<open>What the code does with a missing head: give up for now, with the state to return, or skip.\<close>

definition av_head_wait :: "i64 \<Rightarrow> takion \<Rightarrow> bool \<times> takion" where
  "av_head_wait now tk =
     (let q = tk_video_queue tk; start = tk_head_wait_start_us tk; seq = tk_head_wait_seq_num tk in
      if start \<noteq> 0 \<and> rq_begin q \<noteq> seq \<and> \<not> seq_num_gt q (rq_begin q) seq then (True, set_head_wait now tk)
      else if start = 0 then (True, set_head_wait now tk)
      else let tk = (if rq_begin q \<noteq> seq then tk\<lparr>tk_head_wait_seq_num := rq_begin q\<rparr> else tk) in
        (now - start \<le>s TAKION_AV_REORDER_TIMEOUT_US, tk))"

definition av_skip_to :: "u64 \<Rightarrow> takion \<Rightarrow> takion" where
  "av_skip_to skipped tk =
     (let q = tk_video_queue tk in
      tk\<lparr>tk_video_queue := q\<lparr>rq_begin := seq_num_add q (rq_begin q) skipped, rq_count := rq_count q - skipped\<rparr>,
         tk_head_wait_start_us := 0\<rparr>)"

definition av_pulled :: "bool \<times> takion \<Rightarrow> takion" where
  "av_pulled r = (if fst r then (snd r)\<lparr>tk_head_wait_start_us := 0\<rparr> else snd r)"

partial_function (option) av_flush_loop :: "takion_callback \<Rightarrow> i64 \<Rightarrow> takion \<Rightarrow> takion option" where
  "av_flush_loop cb now tk = do {
     r \<leftarrow> av_pull_loop cb False tk;
     if chiaki_reorder_queue_count (tk_video_queue (av_pulled r)) = 0 then Some (av_pulled r)
     else if fst (av_head_wait now (av_pulled r)) then Some (snd (av_head_wait now (av_pulled r)))
     else do {
       skipped \<leftarrow> av_skip_loop (tk_video_queue (av_pulled r)) 0;
       if rq_count (tk_video_queue (av_pulled r)) \<le> skipped then Some (snd (av_head_wait now (av_pulled r)))
       else av_flush_loop cb now (av_skip_to skipped (snd (av_head_wait now (av_pulled r)))) } }"

definition takion_av_queue_flush_with_timeout :: "takion_callback \<Rightarrow> i64 \<Rightarrow> takion \<Rightarrow> takion option" where
  "takion_av_queue_flush_with_timeout = av_flush_loop"

definition takion_av_queues_flush_with_timeout :: "takion_callback \<Rightarrow> i64 \<Rightarrow> takion \<Rightarrow> takion option" where
  "takion_av_queues_flush_with_timeout cb now tk =
     (if tk_video_initialized tk then takion_av_queue_flush_with_timeout cb now tk else Some tk)"

definition takion_av_queues_next_timeout_ms :: "i64 \<Rightarrow> takion \<Rightarrow> u64" where
  "takion_av_queues_next_timeout_ms now tk =
     (let start = tk_head_wait_start_us tk in
      if start = 0 then - 1
      else let remaining_us = TAKION_AV_REORDER_TIMEOUT_US - (now - start) in
        if remaining_us \<le>s 0 then 0 else (remaining_us + 999) div 1000)"

definition av_drops :: "av_entry drops \<Rightarrow> takion \<Rightarrow> takion option" where
  "av_drops ds tk =
     (if None \<in> snd ` set ds then None
      else Some (tk\<lparr>tk_freed := tk_freed tk @ map (\<lambda>d. ae_buf (the (snd d))) ds\<rparr>))"

definition takion_av_packet_parse ::
    "u8 \<Rightarrow> key_state \<Rightarrow> bytes \<Rightarrow> (key_state \<times> (chiaki_error + takion_av_packet)) option" where
  "takion_av_packet_parse version ks buf =
     (if version = 7 then map_option (\<lambda>r. (ks, r)) (chiaki_takion_v7_av_packet_parse buf)
      else if version = 9 then chiaki_takion_v9_av_packet_parse ks buf
      else if version = 12 then chiaki_takion_v12_av_packet_parse ks buf
      else None)"

definition video_queue_begin :: "takion_av_packet \<Rightarrow> u16" where
  "video_queue_begin p =
     (if 0 < av_unit_index p then av_packet_index p - av_unit_index p else av_packet_index p)"

text \<open>The queue is created with the first video packet; \<open>None\<close> when that fails.\<close>

definition video_queue_open :: "bool \<Rightarrow> takion_av_packet \<Rightarrow> takion \<Rightarrow> takion option" where
  "video_queue_open alloc p tk =
     (if tk_video_initialized tk then Some tk
      else case chiaki_reorder_queue_init_16 alloc TAKION_AV_VIDEO_REORDER_QUEUE_SIZE_EXP (video_queue_begin p) of
        (err, q) \<Rightarrow>
          if err \<noteq> CHIAKI_ERR_SUCCESS then None
          else Some (tk\<lparr>
            tk_video_queue := chiaki_reorder_queue_set_drop_cb
              (chiaki_reorder_queue_set_drop_strategy q CHIAKI_REORDER_QUEUE_DROP_STRATEGY_BEGIN) True,
            tk_video_initialized := True, tk_head_wait_start_us := 0,
            tk_head_wait_seq_num := ucast (video_queue_begin p)\<rparr>))"

definition takion_handle_packet_av ::
    "recv_env \<Rightarrow> takion_callback \<Rightarrow> takion \<Rightarrow> u8 \<Rightarrow> bytes \<Rightarrow> takion option" where
  "takion_handle_packet_av E cb tk base_type buf =
     (if base_type \<noteq> TAKION_PACKET_TYPE_VIDEO \<and> base_type \<noteq> TAKION_PACKET_TYPE_AUDIO then None
      else if tk_disable_audio_video tk AND CHIAKI_VIDEO_DISABLED \<noteq> 0 \<and> base_type = TAKION_PACKET_TYPE_VIDEO
      then Some (free_buf buf tk)
      else do {
        (ks, r) \<leftarrow> takion_av_packet_parse (tk_version tk) (tk_key_state tk) buf;
        let tk = tk\<lparr>tk_key_state := ks\<rparr>;
        (case r of
           Inl err \<Rightarrow> Some (free_buf buf tk)
         | Inr p \<Rightarrow>
             if tk_disable_audio_video tk AND CHIAKI_AUDIO_DISABLED \<noteq> 0 \<and> base_type = TAKION_PACKET_TYPE_AUDIO
                \<and> \<not> av_is_haptics p
             then Some (free_buf buf tk)
             else if base_type \<noteq> TAKION_PACKET_TYPE_VIDEO
             then Some (free_buf buf (emit cb (Ev_AV p buf) tk))
             else case video_queue_open (re_queue_alloc E) p tk of
               None \<Rightarrow> Some (free_buf buf (emit cb (Ev_AV p buf) tk))
             | Some tk \<Rightarrow>
                 if \<not> re_entry_alloc E then Some (free_buf buf tk)
                 else do {
                   (q, ds) \<leftarrow> chiaki_reorder_queue_push (tk_video_queue tk) (ucast (av_packet_index p))
                     (Some \<lparr>ae_base_type = base_type, ae_buf = buf, ae_packet = p\<rparr>);
                   tk \<leftarrow> av_drops ds (tk\<lparr>tk_video_queue := q\<rparr>);
                   takion_av_queue_flush_with_timeout cb (re_now_us E) tk }) })"

subsection \<open>Packets and the thread\<close>

definition takion_handle_packet ::
    "gk_prims \<Rightarrow> recv_env \<Rightarrow> takion_callback \<Rightarrow> takion \<Rightarrow> bytes \<Rightarrow> takion option" where
  "takion_handle_packet P E cb tk buf =
     (if buf = [] then None
      else let base_type = buf ! 0 AND TAKION_PACKET_BASE_TYPE_MASK in do {
        (err, tk, buf) \<leftarrow> takion_handle_packet_mac P tk buf;
        if err \<noteq> CHIAKI_ERR_SUCCESS then Some (free_buf buf tk)
        else if base_type = TAKION_PACKET_TYPE_CONTROL then takion_handle_packet_message P E cb tk buf
        else if base_type = TAKION_PACKET_TYPE_VIDEO \<or> base_type = TAKION_PACKET_TYPE_AUDIO
        then if tk_enable_crypt tk \<and> tk_gk_remote tk = None
             then Some (takion_postpone_packet (re_postpone_alloc E) tk buf)
             else takion_handle_packet_av E cb tk base_type buf
        else Some (free_buf buf tk) })"

text \<open>When the key appears the thread looks at every packet waiting in the data queue.  It passes a null
  pointer for the sequence number, which \<open>chiaki_reorder_queue_peek\<close> writes through whenever there is
  a packet, so the re-check is defined only when none is waiting, and then there is nothing to check.\<close>

fun recheck_loop :: "data_entry reorder_queue \<Rightarrow> nat \<Rightarrow> nat \<Rightarrow> unit option" where
  "recheck_loop q i 0 = Some ()"
| "recheck_loop q i (Suc n) = do {
     r \<leftarrow> chiaki_reorder_queue_peek q (of_nat i);
     (case r of Some _ \<Rightarrow> None | None \<Rightarrow> recheck_loop q (Suc i) n) }"

definition crypt_recheck :: "takion \<Rightarrow> bool \<Rightarrow> bool option" where
  "crypt_recheck tk crypt_available =
     (if tk_enable_crypt tk \<and> \<not> crypt_available \<and> tk_gk_remote tk \<noteq> None
      then map_option (\<lambda>_. True)
             (recheck_loop (tk_data_queue tk) 0 (unat (chiaki_reorder_queue_count (tk_data_queue tk))))
      else Some crypt_available)"

text \<open>The packets postponed are those in the array when the loop begins: with the key there, handling a
  packet postpones nothing unless the callback takes the key away again.\<close>

fun handle_all ::
    "gk_prims \<Rightarrow> (nat \<Rightarrow> recv_env) \<Rightarrow> takion_callback \<Rightarrow> nat \<Rightarrow> takion \<Rightarrow> bytes list \<Rightarrow> takion option" where
  "handle_all P Es cb i tk [] = Some tk"
| "handle_all P Es cb i tk (b # bs) = do {
     tk \<leftarrow> takion_handle_packet P (Es i) cb tk b; handle_all P Es cb (Suc i) tk bs }"

definition flush_postponed ::
    "gk_prims \<Rightarrow> (nat \<Rightarrow> recv_env) \<Rightarrow> takion_callback \<Rightarrow> takion \<Rightarrow> takion option" where
  "flush_postponed P Es cb tk =
     (case tk_postponed tk of
        None \<Rightarrow> Some tk
      | Some ps \<Rightarrow>
          if tk_gk_remote tk = None then Some tk
          else map_option (\<lambda>tk. tk\<lparr>tk_postponed := None\<rparr>) (handle_all P Es cb 0 tk ps))"

text \<open>One round: whether the thread goes on, whether it has seen the key, and the state.  \<open>rx\<close> is what
  \<open>takion_recv\<close> gives, at most 1500 bytes.\<close>

definition takion_thread_round ::
    "gk_prims \<Rightarrow> (nat \<Rightarrow> recv_env) \<Rightarrow> takion_callback \<Rightarrow> bool \<Rightarrow> bool \<Rightarrow> chiaki_error + bytes \<Rightarrow> recv_env \<Rightarrow>
     bool \<Rightarrow> takion \<Rightarrow> (bool \<times> bool \<times> takion) option" where
  "takion_thread_round P Es cb alloc realloc rx E crypt_available tk = do {
     crypt_available \<leftarrow> crypt_recheck tk crypt_available;
     tk \<leftarrow> flush_postponed P Es cb tk;
     if \<not> alloc then Some (False, crypt_available, tk)
     else if takion_av_queues_next_timeout_ms (re_now_us E) tk = 0
     then do { tk \<leftarrow> takion_av_queues_flush_with_timeout cb (re_now_us E) tk; Some (True, crypt_available, tk) }
     else (case rx of
       Inl err \<Rightarrow>
         if err = CHIAKI_ERR_TIMEOUT
         then do { tk \<leftarrow> takion_av_queues_flush_with_timeout cb (re_now_us E) tk;
                   Some (True, crypt_available, tk) }
         else Some (False, crypt_available, tk)
     | Inr b \<Rightarrow>
         if \<not> realloc then Some (True, crypt_available, free_buf b tk)
         else do { tk \<leftarrow> takion_handle_packet P E cb tk b; Some (True, crypt_available, tk) }) }"

text \<open>What the thread does when its loop ends: the buffers of the send buffer and of the queues are
  freed, the callback is told.\<close>

definition takion_thread_finish :: "takion_callback \<Rightarrow> takion \<Rightarrow> takion option" where
  "takion_thread_finish cb tk = do {
     sent \<leftarrow> send_buffer_fini (tk_send_buffer tk);
     av \<leftarrow> (if tk_video_initialized tk then chiaki_reorder_queue_fini (tk_video_queue tk) else Some []);
     tk \<leftarrow> av_drops av (tk\<lparr>tk_freed := tk_freed tk @ sent, tk_video_initialized := False\<rparr>);
     data \<leftarrow> chiaki_reorder_queue_fini (tk_data_queue tk);
     tk \<leftarrow> data_drops data tk;
     Some (emit cb Ev_Disconnect tk) }"

end
