(* ===== verification/TakionSendProps.thy ===== *)
theory TakionSendProps
  imports TakionSend TakionPacketProps ReorderQueueRun
begin

text \<open>
  Key positions are reserved in increasing order, and from eight bytes on no two packets share the
  initialisation vector of their authentication codes; shorter messages can.
\<close>

text \<open>The positions handed out by a sequence of reservations; failed ones hand out none.\<close>

fun reservations :: "takion \<Rightarrow> u64 list \<Rightarrow> u64 list" where
  "reservations tk [] = []"
| "reservations tk (n # ns) =
     (case chiaki_takion_crypt_advance_key_pos CHIAKI_ERR_SUCCESS tk n of
        (tk, Inl err) \<Rightarrow> reservations tk ns
      | (tk, Inr key_pos) \<Rightarrow> key_pos # reservations tk ns)"

definition gmac_iv :: "gkcrypt \<Rightarrow> u64 \<Rightarrow> bytes" where
  "gmac_iv gk key_pos = counter_add (gk_iv gk) (key_pos div 0x10)"

lemma advance_size_nat:
  assumes "n < 2 ^ 63"
  shows "unat (advance_size n) = unat n + unat n mod 16"
proof -
  have n: "unat n < 2 ^ 63" using assms by (simp add: word_less_nat_alt)
  have "unat n mod 16 \<le> 15" by simp
  then show ?thesis using n by (simp add: advance_size_def unat_plus_if' unat_mod_distrib)
qed

lemma advance_ok:
  assumes "tk_gk_local tk = Some gk" "n < 2 ^ 63"
  shows "chiaki_takion_crypt_advance_key_pos CHIAKI_ERR_SUCCESS tk n = (tk, Inl CHIAKI_ERR_OVERFLOW)
    \<or> (chiaki_takion_crypt_advance_key_pos CHIAKI_ERR_SUCCESS tk n
         = (tk\<lparr>tk_key_pos_local := tk_key_pos_local tk + advance_size n\<rparr>, Inr (tk_key_pos_local tk))
       \<and> unat (tk_key_pos_local tk + advance_size n)
           = unat (tk_key_pos_local tk) + unat n + unat n mod 16)"
proof (cases "- 1 - tk_key_pos_local tk < advance_size n")
  case False
  have "unat (- 1 - tk_key_pos_local tk) = 2 ^ 64 - 1 - unat (tk_key_pos_local tk)"
    by (rule unat_max_minus)
  then have "unat (advance_size n) \<le> 2 ^ 64 - 1 - unat (tk_key_pos_local tk)"
    using False by (simp add: not_less word_le_nat_alt)
  then have "unat (tk_key_pos_local tk) + unat (advance_size n) < 2 ^ 64"
    using unat64_less [of "tk_key_pos_local tk"] by simp
  then show ?thesis using False assms advance_size_nat [OF assms(2)]
    by (simp add: chiaki_takion_crypt_advance_key_pos_def Let_def unat_plus_if')
qed (use assms in \<open>simp add: chiaki_takion_crypt_advance_key_pos_def Let_def\<close>)

lemma reservations_from:
  assumes "tk_gk_local tk = Some gk" "\<forall>n \<in> set ns. n < 2 ^ 63"
  shows "\<forall>k \<in> set (reservations tk ns). unat (tk_key_pos_local tk) \<le> unat k"
  using assms
proof (induction ns arbitrary: tk)
  case (Cons n ns)
  from advance_ok [OF Cons.prems(1), of n] Cons.prems(2)
  consider "chiaki_takion_crypt_advance_key_pos CHIAKI_ERR_SUCCESS tk n = (tk, Inl CHIAKI_ERR_OVERFLOW)"
    | "chiaki_takion_crypt_advance_key_pos CHIAKI_ERR_SUCCESS tk n
         = (tk\<lparr>tk_key_pos_local := tk_key_pos_local tk + advance_size n\<rparr>, Inr (tk_key_pos_local tk))"
      "unat (tk_key_pos_local tk + advance_size n) = unat (tk_key_pos_local tk) + unat n + unat n mod 16"
    by auto
  then show ?case
  proof cases
    case 1
    then show ?thesis using Cons by simp
  next
    case 2
    have "\<forall>k \<in> set (reservations (tk\<lparr>tk_key_pos_local := tk_key_pos_local tk + advance_size n\<rparr>) ns).
        unat (tk_key_pos_local tk + advance_size n) \<le> unat k"
      using Cons.IH [of "tk\<lparr>tk_key_pos_local := tk_key_pos_local tk + advance_size n\<rparr>"] Cons.prems by simp
    then show ?thesis using 2 by fastforce
  qed
qed simp

lemma block_grows: "8 \<le> (n :: nat) \<Longrightarrow> k div 16 < (k + n + n mod 16) div 16"
proof -
  assume n: "8 \<le> n"
  have "16 \<le> n + n mod 16"
  proof (cases "n < 16")
    case True
    then show ?thesis using n by simp
  qed simp
  then have "(k + 16) div 16 \<le> (k + n + n mod 16) div 16" by (intro div_le_mono) simp
  then show ?thesis by simp
qed

lemma reservations_blocks:
  assumes "tk_gk_local tk = Some gk" "\<forall>n \<in> set ns. 8 \<le> n \<and> n < 2 ^ 63"
  shows "sorted_wrt (\<lambda>a b. unat a div 16 < unat b div 16) (reservations tk ns)"
  using assms
proof (induction ns arbitrary: tk)
  case (Cons n ns)
  from advance_ok [OF Cons.prems(1), of n] Cons.prems(2)
  consider "chiaki_takion_crypt_advance_key_pos CHIAKI_ERR_SUCCESS tk n = (tk, Inl CHIAKI_ERR_OVERFLOW)"
    | "chiaki_takion_crypt_advance_key_pos CHIAKI_ERR_SUCCESS tk n
         = (tk\<lparr>tk_key_pos_local := tk_key_pos_local tk + advance_size n\<rparr>, Inr (tk_key_pos_local tk))"
      "unat (tk_key_pos_local tk + advance_size n) = unat (tk_key_pos_local tk) + unat n + unat n mod 16"
    by auto
  then show ?case
  proof cases
    case 1
    then show ?thesis using Cons by simp
  next
    case 2
    let ?tk = "tk\<lparr>tk_key_pos_local := tk_key_pos_local tk + advance_size n\<rparr>"
    have n: "8 \<le> unat n" using Cons.prems(2) by (simp add: word_le_nat_alt)
    have from_here: "\<forall>k \<in> set (reservations ?tk ns). unat (tk_key_pos_local ?tk) \<le> unat k"
      by (rule reservations_from) (use Cons.prems in auto)
    have "unat (tk_key_pos_local tk) div 16 < unat k div 16" if "k \<in> set (reservations ?tk ns)" for k
    proof -
      have "unat (tk_key_pos_local tk) div 16 < (unat (tk_key_pos_local tk) + unat n + unat n mod 16) div 16"
        using n by (rule block_grows)
      also have "\<dots> \<le> unat k div 16" using from_here that 2(2) by (intro div_le_mono) simp
      finally show ?thesis .
    qed
    then show ?thesis using 2 Cons.IH [of ?tk] Cons.prems by simp
  qed
qed simp

lemma gmac_iv_inj:
  assumes "length (gk_iv gk) = 16" "unat a div 16 < unat b div 16"
  shows "gmac_iv gk a \<noteq> gmac_iv gk b"
proof
  assume e: "gmac_iv gk a = gmac_iv gk b"
  have v: "le_value (gmac_iv gk k) = (le_value (gk_iv gk) + unat k div 16) mod 256 ^ 16" for k
  proof -
    have d: "unat (k div 0x10) = unat k div 16" by (simp add: unat_div_distrib)
    have "unat k div 16 < 2 ^ 60" using unat64_less [of k] by (intro less_mult_imp_div_less) simp
    then have "unat (k div 0x10) \<le> 2 ^ 64 - 256" unfolding d by simp
    from counter_add_value [OF this, of "gk_iv gk"] show ?thesis
      by (simp add: gmac_iv_def assms(1) d)
  qed
  have "unat k div 16 < 256 ^ 16" for k :: u64
    using unat64_less [of k] by (intro less_mult_imp_div_less) simp
  then have "unat a div 16 = unat b div 16"
    using e v [of a] v [of b] mod_add_inj [of "unat a div 16" "256 ^ 16" "unat b div 16" "le_value (gk_iv gk)"] assms(2)
    by simp
  then show False using assms(2) by simp
qed

lemma small_reservations:
  assumes gk: "tk_gk_local tk = Some gk" and small: "n < 8" "n' < 8" "tk_key_pos_local tk \<le> 0xa000"
  shows "reservations tk [n, n'] = [tk_key_pos_local tk, tk_key_pos_local tk + 2 * n]"
    and "unat (tk_key_pos_local tk + 2 * n) = unat (tk_key_pos_local tk) + 2 * unat n"
proof -
  let ?k = "tk_key_pos_local tk" and ?tk = "tk\<lparr>tk_key_pos_local := tk_key_pos_local tk + 2 * n\<rparr>"
  have u: "unat n < 8" "unat n' < 8" "unat ?k \<le> 0xa000"
    using small by (simp_all add: word_less_nat_alt word_le_nat_alt)
  have "n < 2 ^ 63" "n' < 2 ^ 63" using u by (simp_all add: word_less_nat_alt)
  have adv: "advance_size m = 2 * m" if "unat m < 8" for m
    by (rule unat_inj) (use that advance_size_nat [of m] in
        \<open>simp add: word_less_nat_alt unat_word_ariths\<close>)
  have u2: "unat (2 * n) = 2 * unat n" "unat (2 * n') = 2 * unat n'" using u by (simp_all add: unat_word_ariths)
  show s: "unat (?k + 2 * n) = unat ?k + 2 * unat n" using u u2 by (simp add: unat_plus_if')
  have room: "\<not> (- 1 - k < 2 * m)" if "unat k \<le> 0xb000" "unat m < 8" for k m :: u64
  proof -
    have "unat (2 * m) = 2 * unat m" using that by (simp add: unat_word_ariths)
    moreover have "unat (- 1 - k) = 2 ^ 64 - 1 - unat k"
      by (rule unat_max_minus)
    ultimately show ?thesis using that by (simp add: word_less_nat_alt)
  qed
  have "chiaki_takion_crypt_advance_key_pos CHIAKI_ERR_SUCCESS tk n = (?tk, Inr ?k)"
    using room [of ?k n] u gk adv [OF u(1)] by (simp add: chiaki_takion_crypt_advance_key_pos_def Let_def)
  moreover have "chiaki_takion_crypt_advance_key_pos CHIAKI_ERR_SUCCESS ?tk n'
      = (?tk\<lparr>tk_key_pos_local := ?k + 2 * n + 2 * n'\<rparr>, Inr (?k + 2 * n))"
    using room [of "?k + 2 * n" n'] u s gk adv [OF u(2)]
    by (simp add: chiaki_takion_crypt_advance_key_pos_def Let_def)
  ultimately show "reservations tk [n, n'] = [?k, ?k + 2 * n]" by simp
qed

lemma gmac_key_index_first: "unat k \<le> 44000 \<Longrightarrow> gmac_key_index k = 0"
proof -
  assume k: "unat k \<le> 44000"
  have "unat (if 0 < k then k - 1 else 0) < 45000"
    using k by (cases "0 < k") (simp_all add: unat_sub_if' word_less_nat_alt)
  then show ?thesis
    by (intro unat_inj) (simp add: gmac_key_index_def unat_div_distrib CHIAKI_GKCRYPT_GMAC_KEY_REFRESH_KEY_POS_def)
qed

text \<open>C15. Reserving the key stream: positions are handed out in strictly increasing order of their 16-byte
  blocks, so the initialisation vectors of the authentication codes are all different, as long as every
  reservation is of at least eight bytes (and fewer than \<open>2 ^ 63\<close>).  But if the key position is a multiple
  of 16 and at most \<open>0xa000\<close> (so that the first message starts a block, and no change of the
  authentication key, every 45000 bytes, falls between the two), then two successive messages of fewer
  than eight bytes each are authenticated with the same initialisation vector under the same key.\<close>

theorem takion_gmac_iv_unique:
  assumes gk: "tk_gk_local tk = Some gk" "length (gk_iv gk) = 16"
  shows "((\<forall>n \<in> set ns. 8 \<le> n \<and> n < 2 ^ 63) \<longrightarrow> distinct (map (gmac_iv gk) (reservations tk ns)))
    \<and> (n < 8 \<and> n' < 8 \<and> unat (tk_key_pos_local tk) mod 16 = 0 \<and> tk_key_pos_local tk \<le> 0xa000 \<longrightarrow>
        (\<exists>a b. reservations tk [n, n'] = [a, b] \<and> gmac_iv gk a = gmac_iv gk b
           \<and> gmac_key_index a = gmac_key_index b))"
proof (intro conjI impI)
  assume "\<forall>n \<in> set ns. 8 \<le> n \<and> n < 2 ^ 63"
  from reservations_blocks [OF gk(1) this]
  have "sorted_wrt (\<lambda>a b. gmac_iv gk a \<noteq> gmac_iv gk b) (reservations tk ns)"
    by (rule sorted_wrt_mono_rel [rotated]) (rule gmac_iv_inj [OF gk(2)])
  then show "distinct (map (gmac_iv gk) (reservations tk ns))"
    by (simp add: distinct_conv_nth sorted_wrt_iff_nth_less) (metis nat_neq_iff)
next
  let ?k = "tk_key_pos_local tk"
  assume h: "n < 8 \<and> n' < 8 \<and> unat ?k mod 16 = 0 \<and> ?k \<le> 0xa000"
  then have small: "n < 8" "n' < 8" "?k \<le> 0xa000" by simp_all
  have u: "unat n < 8" "unat ?k \<le> 0xa000" "unat ?k mod 16 = 0"
    using h by (simp_all add: word_less_nat_alt word_le_nat_alt)
  have s: "unat (?k + 2 * n) = unat ?k + 2 * unat n" by (rule small_reservations [OF gk(1) small])
  have "(unat ?k + 2 * unat n) div 16 = unat ?k div 16" using u by (simp add: div_add1_eq)
  then have "(?k + 2 * n) div 0x10 = ?k div 0x10"
    by (intro unat_inj) (simp add: unat_div_distrib s)
  then have iv: "gmac_iv gk ?k = gmac_iv gk (?k + 2 * n)" by (simp add: gmac_iv_def)
  have key: "gmac_key_index ?k = gmac_key_index (?k + 2 * n)"
    using gmac_key_index_first [of ?k] gmac_key_index_first [of "?k + 2 * n"] u s by simp
  show "\<exists>a b. reservations tk [n, n'] = [a, b] \<and> gmac_iv gk a = gmac_iv gk b \<and> gmac_key_index a = gmac_key_index b"
    using small_reservations(1) [OF gk(1) small] iv key by blast
qed

text \<open>A connection state for examples: given keys, fresh queues, tags 1 and 2.\<close>

definition example_takion :: "gkcrypt option \<Rightarrow> gkcrypt option \<Rightarrow> u32 \<Rightarrow> u32 \<Rightarrow> takion" where
  "example_takion gk_local gk_remote tag_local tag_remote =
     \<lparr>tk_version = 12, tk_disable_audio_video = 0, tk_enable_crypt = True, tk_postponed = None,
      tk_gk_local = gk_local, tk_key_pos_local = 0, tk_gk_remote = gk_remote,
      tk_data_queue = snd (chiaki_reorder_queue_init_32 True 4 7),
      tk_video_queue = snd (chiaki_reorder_queue_init_16 True 6 0), tk_video_initialized = False,
      tk_head_wait_start_us = 0, tk_head_wait_seq_num = 0,
      tk_send_buffer = \<lparr>sb_packets = [], sb_count = 0, sb_should_stop = False, sb_attached = True\<rparr>,
      tk_tag_local = tag_local, tk_tag_remote = tag_remote, tk_seq_num_local = 7, tk_a_rwnd = TAKION_A_RWND,
      tk_key_state = \<lparr>ks_prev = 0\<rparr>, tk_wire = [], tk_freed = [], tk_leaked = []\<rparr>"

lemma example_takion_sel [simp]:
  "tk_gk_local (example_takion gl gr a b) = gl" "tk_gk_remote (example_takion gl gr a b) = gr"
  "tk_key_pos_local (example_takion gl gr a b) = 0" "tk_tag_local (example_takion gl gr a b) = a"
  "tk_tag_remote (example_takion gl gr a b) = b" "tk_seq_num_local (example_takion gl gr a b) = 7"
  "ks_prev (tk_key_state (example_takion gl gr a b)) = 0"
  by (simp_all add: example_takion_def)

lemma takion_gmac_iv_unique_witness:
  "\<exists>gk a b. toy_init = ret_ok gk
    \<and> distinct (map (gmac_iv gk) (reservations (example_takion (Some gk) None 1 2) [8, 29, 15]))
    \<and> reservations (example_takion (Some gk) None 1 2) [2, 3] = [a, b] \<and> gmac_iv gk a = gmac_iv gk b"
proof -
  obtain gk where g: "toy_init = ret_ok gk" "gmac_inv toy_prims gk gk" by (rule toy_init_ok)
  have iv: "length (gk_iv gk) = 16"
    using g(1) by (auto simp: toy_init_def chiaki_gkcrypt_init_def Let_def buf_simps gkcrypt_gen_key_iv_def
        CHIAKI_GKCRYPT_BLOCK_SIZE_def split: if_splits)
  show ?thesis
    using takion_gmac_iv_unique [of "example_takion (Some gk) None 1 2" gk "[8, 29, 15]" 2 3] g(1) iv by auto
qed

end
