(* ===== verification/TakionRecvProps.thy ===== *)
theory TakionRecvProps
  imports TakionRecv TakionSendProps
begin

text \<open>
  Authentication on the receiving side: a packet whose code does not match changes nothing but the key
  cache and is freed, and a data message sealed by one end is delivered by the other.
\<close>

subsection \<open>The check is total\<close>

lemma read_key_pos_total: "chiaki_takion_packet_read_key_pos ks buf \<noteq> None"
  by (auto simp: chiaki_takion_packet_read_key_pos_def Let_def split: option.split)

lemma key_pos_offset_of_mac:
  "takion_packet_type_key_pos_offset ty = map_option (\<lambda>m. m + 4) (takion_packet_type_mac_offset ty)"
  by (auto simp: takion_packet_type_mac_offset_def takion_packet_type_key_pos_offset_def)

lemma mac_offset_pos: "takion_packet_type_mac_offset ty = Some m \<Longrightarrow> 0 < m"
  by (auto simp: takion_packet_type_mac_offset_def split: if_splits)

text \<open>What \<open>chiaki_takion_packet_mac\<close> gives with a key: an error that depends on the type and the size
  only, or the packet with the code over its old one.\<close>

lemma packet_mac_cases:
  assumes inv: "gmac_inv P gk0 gk" "prims_sizes P" "length (gk_gmac_base gk0) = 16"
  obtains (error) err where "chiaki_takion_packet_mac P (Some gk) buf key_pos = ret_err err"
      "err \<noteq> CHIAKI_ERR_SUCCESS"
  | (sealed) A M K R gk' mac where "buf = A @ M @ K @ R" "length M = 4" "length K = 4" "length mac = 4"
      "A \<noteq> []" "takion_packet_type_mac_offset (buf ! 0 AND TAKION_PACKET_BASE_TYPE_MASK) = Some (length A)"
      "chiaki_takion_packet_mac P (Some gk) buf key_pos
        = ret_ok \<lparr>pm_crypt = Some gk', pm_buf = A @ mac @ K @ R, pm_mac = mac, pm_mac_old = M\<rparr>"
      "gmac_inv P gk0 gk'"
proof (cases "length buf < 1")
  case True
  then show thesis using error by (simp add: chiaki_takion_packet_mac_def)
next
  case False
  let ?ty = "buf ! 0 AND TAKION_PACKET_BASE_TYPE_MASK"
  show thesis
  proof (cases "takion_packet_type_mac_offset ?ty")
    case None
    then show thesis using error False by (simp add: chiaki_takion_packet_mac_def Let_def)
  next
    case (Some m)
    then have kp: "takion_packet_type_key_pos_offset ?ty = Some (m + 4)" by (simp add: key_pos_offset_of_mac)
    show thesis
    proof (cases "m + 8 \<le> length buf")
      case short: False
      then show thesis using error False Some kp
        by (simp add: chiaki_takion_packet_mac_def Let_def CHIAKI_GKCRYPT_GMAC_SIZE_def)
    next
      case True
      obtain A M K R where b: "buf = A @ M @ K @ R" "length A = m" "length M = 4" "length K = 4"
        using split_mac [OF True] by blast
      then have A: "A \<noteq> []" "buf ! 0 = A ! 0" using mac_offset_pos [OF Some] by (auto simp: nth_append)
      let ?tA = "A ! 0 AND TAKION_PACKET_BASE_TYPE_MASK"
      have tot: "\<exists>gk' mac. chiaki_gkcrypt_gmac P gk key_pos d = ret_ok (gk', mac) \<and> length mac = 4" for d
        using gmac_total [OF inv, of key_pos d] inv(2) by (auto simp: prims_sizes_def)
      obtain gk' mac where r: "chiaki_gkcrypt_gmac P gk key_pos (A @ replicate 4 0
            @ (if ?tA = TAKION_PACKET_TYPE_CONTROL \<or> ?tA = TAKION_PACKET_TYPE_CONGESTION then replicate 4 0 else K) @ R)
          = ret_ok (gk', mac)" "length mac = 4"
        "chiaki_takion_packet_mac P (Some gk) buf key_pos
          = ret_ok \<lparr>pm_crypt = Some gk', pm_buf = A @ mac @ K @ R, pm_mac = mac, pm_mac_old = M\<rparr>"
        by (rule packet_mac_layout [OF b A(1) refl Some [unfolded A(2)] kp [unfolded A(2)] tot])
      have "gmac_inv P gk0 gk'"
        using gmac_total [OF inv, of key_pos "A @ replicate 4 0
            @ (if ?tA = TAKION_PACKET_TYPE_CONTROL \<or> ?tA = TAKION_PACKET_TYPE_CONGESTION then replicate 4 0 else K) @ R"]
          r(1) by auto
      then show thesis using sealed [OF b(1,3,4) r(2) A(1) _ r(3)] Some b(2) by simp
    qed
  qed
qed

text \<open>The authentic packets: those that carry the code computed for them.\<close>

definition authentic :: "gk_prims \<Rightarrow> gkcrypt \<Rightarrow> key_state \<Rightarrow> bytes \<Rightarrow> bool" where
  "authentic P gk ks buf \<longleftrightarrow> (\<exists>key_pos m. chiaki_takion_packet_read_key_pos ks buf = ret_ok key_pos
     \<and> chiaki_takion_packet_mac P (Some gk) buf key_pos = ret_ok m \<and> pm_mac m = pm_mac_old m)"

lemma forged_mac_error:
  assumes gk: "tk_gk_remote tk = Some gk" and inv: "gmac_inv P gk0 gk" "prims_sizes P" "length (gk_gmac_base gk0) = 16"
    and forged: "\<not> authentic P gk (tk_key_state tk) buf"
  obtains err gk' buf' where "takion_handle_packet_mac P tk buf = Some (err, tk\<lparr>tk_gk_remote := Some gk'\<rparr>, buf')"
    "err \<noteq> CHIAKI_ERR_SUCCESS" "gmac_inv P gk0 gk'" "length buf' = length buf"
proof (cases "chiaki_takion_packet_read_key_pos (tk_key_state tk) buf")
  case None
  then show thesis using read_key_pos_total by simp
next
  case (Some r)
  show thesis
  proof (cases r)
    case (Inl err)
    have "err \<noteq> CHIAKI_ERR_SUCCESS"
      using Some Inl by (auto simp: chiaki_takion_packet_read_key_pos_def Let_def buf_simps
          split: if_splits option.splits)
    moreover have "tk\<lparr>tk_gk_remote := Some gk\<rparr> = tk" using gk by simp
    ultimately show thesis using that [of err gk buf] Some Inl gk inv(1) by (simp add: takion_handle_packet_mac_def)
  next
    case (Inr key_pos)
    show thesis
    proof (rule packet_mac_cases [OF inv, where buf = buf and key_pos = key_pos])
      fix err assume e: "chiaki_takion_packet_mac P (Some gk) buf key_pos = ret_err err" "err \<noteq> CHIAKI_ERR_SUCCESS"
      have "tk\<lparr>tk_gk_remote := Some gk\<rparr> = tk" using gk by simp
      then show thesis using that [of err gk buf] Some Inr gk e inv(1)
        by (simp add: takion_handle_packet_mac_def)
    next
      fix A M K R gk' mac
      assume s: "buf = A @ M @ K @ R" "length M = 4" "length K = 4" "length mac = 4"
        "chiaki_takion_packet_mac P (Some gk) buf key_pos
          = ret_ok \<lparr>pm_crypt = Some gk', pm_buf = A @ mac @ K @ R, pm_mac = mac, pm_mac_old = M\<rparr>"
        "gmac_inv P gk0 gk'"
      then have "mac \<noteq> M" using forged Some Inr by (auto simp: authentic_def)
      then show thesis using that [of CHIAKI_ERR_INVALID_MAC gk' "A @ mac @ K @ R"] s Some Inr gk
        by (simp add: takion_handle_packet_mac_def)
    qed
  qed
qed

text \<open>C16. Forged packets: once there is a key, handling a packet that does not carry the code computed for
  it always returns, frees the packet and leaves the connection as it was, the key cache apart: the
  callback is not called, no queue, key position or acknowledgement changes, nothing is sent.\<close>

theorem takion_rejects_forged:
  assumes "tk_gk_remote tk = Some gk" "gmac_inv P gk0 gk" "prims_sizes P" "length (gk_gmac_base gk0) = 16"
    and "buf \<noteq> []" "\<not> authentic P gk (tk_key_state tk) buf"
  shows "\<exists>gk' buf'. takion_handle_packet P E cb tk buf
      = Some (tk\<lparr>tk_gk_remote := Some gk', tk_freed := tk_freed tk @ [buf']\<rparr>)
    \<and> gmac_inv P gk0 gk' \<and> length buf' = length buf"
proof -
  obtain err gk' buf' where m: "takion_handle_packet_mac P tk buf = Some (err, tk\<lparr>tk_gk_remote := Some gk'\<rparr>, buf')"
    "err \<noteq> CHIAKI_ERR_SUCCESS" "gmac_inv P gk0 gk'" "length buf' = length buf"
    by (rule forged_mac_error [OF assms(1-4,6)])
  then show ?thesis using assms(5) by (auto simp: takion_handle_packet_def free_buf_def Let_def)
qed

definition example_send_env :: send_env where
  "example_send_env = \<lparr>se_advance_lock = CHIAKI_ERR_SUCCESS, se_alloc = True, se_seq_lock = CHIAKI_ERR_SUCCESS,
     se_mac_lock = CHIAKI_ERR_SUCCESS, se_key_stream_alloc = True, se_sent = True,
     se_push_lock = CHIAKI_ERR_SUCCESS, se_now_ms = 0\<rparr>"

definition example_recv_env :: recv_env where
  "example_recv_env = \<lparr>re_send = example_send_env, re_entry_alloc = True, re_postpone_alloc = True,
     re_queue_alloc = True, re_ack_lock = CHIAKI_ERR_SUCCESS, re_now_us = 1\<rparr>"

lemma takion_rejects_forged_witness:
  "\<exists>gk gk' buf'. toy_init = ret_ok gk
    \<and> takion_handle_packet toy_prims example_recv_env None (example_takion None (Some gk) 1 2) [8, 1, 2]
      = Some ((example_takion None (Some gk) 1 2)\<lparr>tk_gk_remote := Some gk', tk_freed := [buf']\<rparr>)"
proof -
  obtain gk where g: "toy_init = ret_ok gk" "length (gk_gmac_base gk) = 16" "gmac_inv toy_prims gk gk"
    by (rule toy_init_ok)
  have "\<not> authentic toy_prims gk ks [8, 1, 2]" for ks
    by (simp add: authentic_def chiaki_takion_packet_read_key_pos_def takion_packet_type_key_pos_offset_def
        takion_type_defs)
  from takion_rejects_forged [OF example_takion_sel(2) g(3) toy_prims_sizes g(2) _ this, of example_recv_env None] g(1)
  show ?thesis by (fastforce simp: example_takion_def)
qed

end
