(* ===== verification/TakionDelivery.thy ===== *)
theory TakionDelivery
  imports TakionRecvProps
begin

text \<open>
  From one end to the other: a data message that one connection seals and sends is accepted by a
  connection with the same key, and the callback of the receiver gets exactly the bytes that were sent.
\<close>

subsection \<open>Sending\<close>

definition send_succeeds :: "send_env \<Rightarrow> bool" where
  "send_succeeds E \<longleftrightarrow> se_advance_lock E = CHIAKI_ERR_SUCCESS \<and> se_alloc E \<and> se_seq_lock E = CHIAKI_ERR_SUCCESS
     \<and> se_mac_lock E = CHIAKI_ERR_SUCCESS \<and> se_sent E"

lemma advance_any:
  assumes "tk_gk_local tk = Some gk" "n < 2 ^ 60" "unat (tk_key_pos_local tk) + n + 15 < 2 ^ 64"
  shows "chiaki_takion_crypt_advance_key_pos CHIAKI_ERR_SUCCESS tk (of_nat n)
    = (tk\<lparr>tk_key_pos_local := tk_key_pos_local tk + advance_size (of_nat n)\<rparr>, Inr (tk_key_pos_local tk))"
proof -
  have n: "unat (of_nat n :: u64) = n" using assms(2) by (simp add: unat_of_nat)
  have "(of_nat n :: u64) < 2 ^ 63" using n assms(2) by (simp add: word_less_nat_alt)
  then have "unat (advance_size (of_nat n)) = n + n mod 16" using advance_size_nat [of "of_nat n"] n by simp
  moreover have "n mod 16 \<le> 15" by simp
  ultimately have "\<not> (- 1 - tk_key_pos_local tk < advance_size (of_nat n))"
    using assms(3) unat_max_minus [of "tk_key_pos_local tk"] by (simp add: word_less_nat_alt)
  then show ?thesis using assms(1) by (simp add: chiaki_takion_crypt_advance_key_pos_def Let_def)
qed

text \<open>A sealed message: the type byte and tag, the code, the low half of the key position, the rest.\<close>

definition sealed_message :: "u32 \<Rightarrow> bytes \<Rightarrow> u64 \<Rightarrow> u8 \<Rightarrow> u8 \<Rightarrow> bytes \<Rightarrow> bytes" where
  "sealed_message tag mac key_pos ty fl payload =
     (TAKION_PACKET_TYPE_CONTROL # be32 tag) @ mac @ be32 (ucast key_pos)
       @ ([ty, fl] @ be16 (of_nat (length payload + 4)) @ payload)"

lemma unsealed_message:
  "TAKION_PACKET_TYPE_CONTROL # takion_write_message_header tag key_pos ty fl (length payload) @ payload
    = sealed_message tag (replicate 4 0) key_pos ty fl payload"
  by (simp add: sealed_message_def takion_write_message_header_def CHIAKI_GKCRYPT_GMAC_SIZE_def)

lemma sealed_message_type:
  "sealed_message tag mac kp ty fl pl ! 0 AND TAKION_PACKET_BASE_TYPE_MASK = TAKION_PACKET_TYPE_CONTROL"
  by (simp add: sealed_message_def takion_type_defs)

lemma control_mac_offset: "takion_packet_type_mac_offset TAKION_PACKET_TYPE_CONTROL = Some 5"
  by (simp add: takion_packet_type_mac_offset_def)

text \<open>Both ends compute the same code, whatever the code field holds.\<close>

lemma seal_agrees:
  assumes inv: "gmac_inv P gk0 gk" "gmac_inv P gk0 peer" "prims_sizes P" "length (gk_gmac_base gk0) = 16"
  obtains mac gk' peer' where "length mac = 4" "gmac_inv P gk0 gk'" "gmac_inv P gk0 peer'"
    "chiaki_takion_packet_mac P (Some gk) (sealed_message tag (replicate 4 0) kp ty fl pl) kp
      = ret_ok \<lparr>pm_crypt = Some gk', pm_buf = sealed_message tag mac kp ty fl pl, pm_mac = mac,
          pm_mac_old = replicate 4 0\<rparr>"
    "chiaki_takion_packet_mac P (Some peer) (sealed_message tag mac kp ty fl pl) kp
      = ret_ok \<lparr>pm_crypt = Some peer', pm_buf = sealed_message tag mac kp ty fl pl, pm_mac = mac, pm_mac_old = mac\<rparr>"
proof -
  let ?A = "TAKION_PACKET_TYPE_CONTROL # be32 tag" and ?K = "be32 (ucast kp)"
  let ?R = "[ty, fl] @ be16 (of_nat (length pl + 4)) @ pl"
  let ?in = "?A @ replicate 4 0 @ replicate 4 0 @ ?R"
  have s: "sealed_message tag m kp ty fl pl = ?A @ m @ ?K @ ?R" for m by (simp add: sealed_message_def)
  have ty: "TAKION_PACKET_TYPE_CONTROL = ?A ! 0 AND TAKION_PACKET_BASE_TYPE_MASK" by (simp add: takion_type_defs)
  have off: "takion_packet_type_mac_offset TAKION_PACKET_TYPE_CONTROL = Some 5"
    "takion_packet_type_key_pos_offset TAKION_PACKET_TYPE_CONTROL = Some (5 + 4)"
    by (simp_all add: key_pos_offset_of_mac control_mac_offset)
  have tot: "\<exists>gk' mac. chiaki_gkcrypt_gmac P g kp d = ret_ok (gk', mac) \<and> length mac = 4"
    if "gmac_inv P gk0 g" for g d
    using gmac_total [OF that inv(3,4), of kp d] inv(3) by (auto simp: prims_sizes_def)
  obtain gk' mac where m: "chiaki_gkcrypt_gmac P gk kp ?in = ret_ok (gk', mac)" "length mac = 4"
    "chiaki_takion_packet_mac P (Some gk) (?A @ replicate 4 0 @ ?K @ ?R) kp
      = ret_ok \<lparr>pm_crypt = Some gk', pm_buf = ?A @ mac @ ?K @ ?R, pm_mac = mac, pm_mac_old = replicate 4 0\<rparr>"
    by (rule packet_mac_layout [OF refl _ _ _ _ ty off tot [OF inv(1)], of "replicate 4 0" ?K ?R]) simp_all
  obtain peer' mac' where v: "chiaki_gkcrypt_gmac P peer kp ?in = ret_ok (peer', mac')" "length mac' = 4"
    "chiaki_takion_packet_mac P (Some peer) (?A @ mac @ ?K @ ?R) kp
      = ret_ok \<lparr>pm_crypt = Some peer', pm_buf = ?A @ mac' @ ?K @ ?R, pm_mac = mac', pm_mac_old = mac\<rparr>"
    by (rule packet_mac_layout [OF refl _ m(2) _ _ ty off tot [OF inv(2)], of ?K ?R]) simp_all
  have "mac' = mac" "gmac_inv P gk0 gk'" "gmac_inv P gk0 peer'"
    using gmac_total [OF inv(1,3,4), of kp ?in] gmac_total [OF inv(2,3,4), of kp ?in] m(1) v(1) by auto
  then show thesis using that [of mac gk' peer'] m v unfolding s by simp
qed

lemma data_message_sealed:
  "data_message tag kp fl seq ch pad buf
    = sealed_message tag (replicate 4 0) kp TAKION_CHUNK_TYPE_DATA fl (be32 seq @ be16 ch @ replicate pad 0 @ buf)"
  using unsealed_message [of tag kp TAKION_CHUNK_TYPE_DATA fl "be32 seq @ be16 ch @ replicate pad 0 @ buf"]
  by (simp add: data_message_def add.assoc)

subsection \<open>Receiving\<close>

lemma sealed_key_pos:
  assumes "length mac = 4" "\<bar>int (unat kp) - int (unat (ks_prev ks))\<bar> < 2 ^ 31"
  shows "chiaki_takion_packet_read_key_pos ks (sealed_message tag mac kp ty fl pl) = ret_ok kp"
proof -
  let ?b = "sealed_message tag mac kp ty fl pl"
  have "?b = (TAKION_PACKET_TYPE_CONTROL # be32 tag @ mac) @ be32 (ucast kp)
      @ ([ty, fl] @ be16 (of_nat (length pl + 4)) @ pl)" by (simp add: sealed_message_def)
  moreover have "length (TAKION_PACKET_TYPE_CONTROL # be32 tag @ mac) = 9" using assms(1) by simp
  ultimately have "rd32be ?b 9 = Some (ucast kp)" using rd32be_at by metis
  moreover have "\<not> length ?b < 13" "?b \<noteq> []" using assms(1) by (simp_all add: sealed_message_def)
  ultimately show ?thesis using key_pos_recover [OF assms(2), of False]
    by (simp add: chiaki_takion_packet_read_key_pos_def sealed_message_type key_pos_offset_of_mac
        control_mac_offset not_less)
qed

lemma sealed_parse:
  assumes "length mac = 4" "length pl + 4 < 2 ^ 16" "\<bar>int (unat kp) - int (unat (ks_prev ks))\<bar> < 2 ^ 31" "pl \<noteq> []"
  shows "takion_parse_message ks tag (drop 1 (sealed_message tag mac kp ty fl pl))
    = Some (chiaki_key_state_commit ks kp, Inr \<lparr>msg_tag = tag, msg_key_pos = kp, msg_chunk_type = ty,
        msg_chunk_flags = fl, msg_payload_size = of_nat (length pl), msg_payload = Some pl\<rparr>)"
proof -
  define sz :: u16 where "sz = of_nat (length pl + 4)"
  define b where "b = be32 tag @ mac @ be32 (ucast kp) @ [ty, fl] @ be16 sz @ pl"
  have d: "drop 1 (sealed_message tag mac kp ty fl pl) = b" by (simp add: sealed_message_def b_def sz_def)
  have un: "unat (of_nat k :: u16) = k" if "k < 2 ^ 16" for k using that by (simp add: unat_of_nat)
  have u: "unat sz = length pl + 4" unfolding sz_def by (rule un [OF assms(2)])
  have "unat (of_nat (length pl) :: u16) = length pl" using assms(2) by (intro un) simp
  then have pos: "0 < (of_nat (length pl) :: u16)" using assms(4) by (simp add: word_less_nat_alt)
  have "b = [] @ be32 tag @ (mac @ be32 (ucast kp) @ [ty, fl] @ be16 sz @ pl)"
    and "b = (be32 tag @ mac) @ be32 (ucast kp) @ ([ty, fl] @ be16 sz @ pl)"
    and "b = (be32 tag @ mac @ be32 (ucast kp)) @ ty # fl # be16 sz @ pl"
    and "b = (be32 tag @ mac @ be32 (ucast kp) @ [ty]) @ fl # be16 sz @ pl"
    and "b = (be32 tag @ mac @ be32 (ucast kp) @ [ty, fl]) @ be16 sz @ pl"
    by (simp_all add: b_def)
  note lay = this
  have rd: "rd32be b 0 = Some tag" "rd32be b 8 = Some (ucast kp)" "rd8 b 0xc = Some ty" "rd8 b 0xd = Some fl"
    "rd16be b 0xe = Some sz"
    by (subst lay(1), rule rd32be_at, simp) (subst lay(2), rule rd32be_at, simp add: assms(1),
        subst lay(3), rule rd8_at, simp add: assms(1), subst lay(4), rule rd8_at, simp add: assms(1),
        subst lay(5), rule rd16be_at, simp add: assms(1))
  have l: "length b = length pl + 16" "drop 0x10 b = pl" using assms(1) by (simp_all add: b_def)
  have n: "sz - 4 = of_nat (length pl)" by (simp add: sz_def)
  have k: "chiaki_key_state_request_pos ks (ucast kp) True = (chiaki_key_state_commit ks kp, kp)"
    using key_pos_recover [OF assms(3), of True] by simp
  show ?thesis unfolding d using rd l u n pos k
    by (simp add: takion_parse_message_def TAKION_MESSAGE_HEADER_SIZE_def)
qed

lemma sealed_mac_accepted:
  assumes keys: "tk_gk_remote rx = Some peer" "gmac_inv P gk0 gk" "gmac_inv P gk0 peer" "prims_sizes P"
      "length (gk_gmac_base gk0) = 16"
    and near: "\<bar>int (unat kp) - int (unat (ks_prev (tk_key_state rx)))\<bar> < 2 ^ 31"
  obtains mac gk' peer' where "length mac = 4"
    "chiaki_takion_packet_mac P (Some gk) (sealed_message tag (replicate 4 0) kp ty fl pl) kp
      = ret_ok \<lparr>pm_crypt = Some gk', pm_buf = sealed_message tag mac kp ty fl pl, pm_mac = mac,
          pm_mac_old = replicate 4 0\<rparr>"
    "takion_handle_packet_mac P rx (sealed_message tag mac kp ty fl pl)
      = Some (CHIAKI_ERR_SUCCESS, rx\<lparr>tk_gk_remote := Some peer',
          tk_key_state := chiaki_key_state_commit (tk_key_state rx) kp\<rparr>, sealed_message tag mac kp ty fl pl)"
proof -
  obtain mac gk' peer' where s: "length mac = 4"
    "chiaki_takion_packet_mac P (Some gk) (sealed_message tag (replicate 4 0) kp ty fl pl) kp
      = ret_ok \<lparr>pm_crypt = Some gk', pm_buf = sealed_message tag mac kp ty fl pl, pm_mac = mac,
          pm_mac_old = replicate 4 0\<rparr>"
    "chiaki_takion_packet_mac P (Some peer) (sealed_message tag mac kp ty fl pl) kp
      = ret_ok \<lparr>pm_crypt = Some peer', pm_buf = sealed_message tag mac kp ty fl pl, pm_mac = mac, pm_mac_old = mac\<rparr>"
    by (rule seal_agrees [OF keys(2-5)])
  moreover have "takion_handle_packet_mac P rx (sealed_message tag mac kp ty fl pl)
      = Some (CHIAKI_ERR_SUCCESS, rx\<lparr>tk_gk_remote := Some peer',
          tk_key_state := chiaki_key_state_commit (tk_key_state rx) kp\<rparr>, sealed_message tag mac kp ty fl pl)"
    using s keys(1) sealed_key_pos [OF s(1) near] by (simp add: takion_handle_packet_mac_def)
  ultimately show thesis using that by blast
qed

text \<open>Into an empty data queue and out again.\<close>

lemma push_pull_next:
  assumes q: "rq32 q" "rq_window q = (b, [])" and b: "unat b < 2 ^ 32"
  obtains q1 q2 where "chiaki_reorder_queue_push q b (Some e) = Some (q1, [])"
    "chiaki_reorder_queue_pull q1 = Some (q2, Some (b, Some e))"
    "chiaki_reorder_queue_pull q2 = Some (q2, None)" "rq32 q2" "rq_window q2 = (win_add 32 b 1, [])"
proof -
  have w: "win_push 32 (2 ^ size_exp q) (rq_strategy q) (b, []) b (Some e) = ((b, [Some (Some e)]), [])"
    by (simp add: win_push_def sdist_def space_def Let_def)
  obtain q1 where q1: "chiaki_reorder_queue_push q b (Some e) = Some (q1, [])" "rq32 q1"
      "rq_window q1 = (b, [Some (Some e)])"
    using rq32_push_ok [OF q(1) b, of "Some e"] unfolding q(2) w by auto
  obtain q2 where q2: "chiaki_reorder_queue_pull q1 = Some (q2, Some (b, Some e))" "rq32 q2"
      "rq_window q2 = (win_add 32 b 1, [])"
    using rq32_pull_ok [OF q1(2)] unfolding q1(3) by auto
  have "rq_count q2 = 0" using q2(3) by (simp add: rq_window_def unat_eq_zero)
  then have "chiaki_reorder_queue_pull q2 = Some (q2, None)" by (simp add: chiaki_reorder_queue_pull_def)
  then show thesis using that q1(1) q2 by blast
qed

lemma same_data_queue: "tk_data_queue tk = q \<Longrightarrow> tk\<lparr>tk_data_queue := q\<rparr> = tk"
  by auto

lemma flush_one:
  assumes "chiaki_reorder_queue_pull (tk_data_queue tk) = Some (q2, Some (s, Some e))"
    and "chiaki_reorder_queue_pull q2 = Some (q2, None)"
    and "tk_data_queue (free_buf (de_packet_buf e) (deliver_data cb e (tk\<lparr>tk_data_queue := q2\<rparr>))) = q2"
  shows "flush_data_loop cb None tk
    = Some (Some s, free_buf (de_packet_buf e) (deliver_data cb e (tk\<lparr>tk_data_queue := q2\<rparr>)))"
proof -
  let ?tk = "free_buf (de_packet_buf e) (deliver_data cb e (tk\<lparr>tk_data_queue := q2\<rparr>))"
  have "?tk\<lparr>tk_data_queue := q2\<rparr> = ?tk" using assms(3) by (rule same_data_queue)
  then have "flush_data_loop cb (Some s) ?tk = Some (Some s, ?tk)"
    using assms(2,3) by (subst flush_data_loop.simps) simp
  then show ?thesis using assms(1) by (subst flush_data_loop.simps) simp
qed

text \<open>C17. End to end: when two connections share a key, the receiver expects the next sequence number and
  the key position is near the last one it saw, a data message sent by one is on the wire as one datagram
  that the other accepts; its callback is given exactly the bytes sent, as protocol-buffer data, the
  datagram is freed and the message acknowledged.\<close>

theorem takion_message_delivered:
  assumes keys: "tk_gk_local tx = Some gk" "tk_gk_remote rx = Some peer" "gmac_inv P gk0 gk" "gmac_inv P gk0 peer"
      "prims_sizes P" "length (gk_gmac_base gk0) = 16"
    and tags: "tk_tag_remote tx = tk_tag_local rx"
    and env: "send_succeeds E" "sb_count (tk_send_buffer tx) \<le> length (sb_packets (tk_send_buffer tx))"
      "se_push_lock E = CHIAKI_ERR_SUCCESS" "re_entry_alloc R"
    and pos: "unat (tk_key_pos_local tx) + length buf + 15 < 2 ^ 64" "length buf + 13 < 2 ^ 16"
      "\<bar>int (unat (tk_key_pos_local tx)) - int (unat (ks_prev (tk_key_state rx)))\<bar> < 2 ^ 31"
    and queue: "rq32 (tk_data_queue rx)" "rq_window (tk_data_queue rx) = (ucast (tk_seq_num_local tx), [])"
    and callback: "\<And>ev tk. tk_data_queue (f ev tk) = tk_data_queue tk"
  shows "\<exists>tx' packet rx'.
      chiaki_takion_send_message_data P E tx 1 ch buf = Some (CHIAKI_ERR_SUCCESS, tx', Some (tk_seq_num_local tx))
    \<and> tk_wire tx' = tk_wire tx @ [packet]
    \<and> takion_handle_packet P R (Some f) rx packet
        = map_option snd (chiaki_takion_send_message_data_ack P (re_send R)
            (free_buf packet (f (Ev_Data 0 buf) rx')) (tk_seq_num_local tx))
    \<and> tk_key_state rx' = \<lparr>ks_prev = tk_key_pos_local tx\<rparr>
    \<and> rq_window (tk_data_queue rx') = (win_add 32 (ucast (tk_seq_num_local tx)) 1, [])"
proof -
  let ?kp = "tk_key_pos_local tx" and ?seq = "tk_seq_num_local tx" and ?tag = "tk_tag_local rx"
  let ?pl = "be32 ?seq @ be16 ch @ replicate 3 0 @ buf"
  obtain mac gk' peer' where m: "length mac = 4"
    "chiaki_takion_packet_mac P (Some gk) (sealed_message ?tag (replicate 4 0) ?kp TAKION_CHUNK_TYPE_DATA 1 ?pl) ?kp
      = ret_ok \<lparr>pm_crypt = Some gk', pm_buf = sealed_message ?tag mac ?kp TAKION_CHUNK_TYPE_DATA 1 ?pl,
          pm_mac = mac, pm_mac_old = replicate 4 0\<rparr>"
    "takion_handle_packet_mac P rx (sealed_message ?tag mac ?kp TAKION_CHUNK_TYPE_DATA 1 ?pl)
      = Some (CHIAKI_ERR_SUCCESS, rx\<lparr>tk_gk_remote := Some peer',
          tk_key_state := chiaki_key_state_commit (tk_key_state rx) ?kp\<rparr>,
          sealed_message ?tag mac ?kp TAKION_CHUNK_TYPE_DATA 1 ?pl)"
    by (rule sealed_mac_accepted [OF keys(2-6) pos(3)])
  define packet where "packet = sealed_message ?tag mac ?kp TAKION_CHUNK_TYPE_DATA 1 ?pl"
  have E: "se_advance_lock E = CHIAKI_ERR_SUCCESS" "se_alloc E" "se_seq_lock E = CHIAKI_ERR_SUCCESS"
    "se_mac_lock E = CHIAKI_ERR_SUCCESS" "se_sent E" using env(1) by (simp_all add: send_succeeds_def)
  have adv: "chiaki_takion_crypt_advance_key_pos CHIAKI_ERR_SUCCESS tx (of_nat (length buf))
      = (tx\<lparr>tk_key_pos_local := ?kp + advance_size (of_nat (length buf))\<rparr>, Inr ?kp)"
    by (rule advance_any [OF keys(1) _ pos(1)]) (use pos(2) in simp)
  have sent: "\<exists>tx'. chiaki_takion_send_message_data P E tx 1 ch buf = Some (CHIAKI_ERR_SUCCESS, tx', Some ?seq)
      \<and> tk_wire tx' = tk_wire tx @ [packet]"
    using E keys(1) m(2) tags env(3)
    by (simp add: chiaki_takion_send_message_data_def send_message_data_def adv Let_def data_message_sealed
        chiaki_takion_send_def chiaki_takion_send_raw_def retransmit_push_def packet_def
        chiaki_takion_send_buffer_push_def send_buffer_push_live [OF env(2)])
  have b: "unat (ucast ?seq :: u64) < 2 ^ 32"
    using unsigned_less [of ?seq, where 'a = nat] by (simp add: unat_ucast_up)
  define e where "e = \<lparr>de_packet_buf = packet, de_type_b = 1, de_payload = ?pl, de_channel = ch\<rparr>"
  obtain q1 q2 where q: "chiaki_reorder_queue_push (tk_data_queue rx) (ucast ?seq) (Some e) = Some (q1, [])"
    "chiaki_reorder_queue_pull q1 = Some (q2, Some (ucast ?seq, Some e))"
    "chiaki_reorder_queue_pull q2 = Some (q2, None)" "rq_window q2 = (win_add 32 (ucast ?seq) 1, [])"
    by (rule push_pull_next [OF queue b])
  let ?rx1 = "rx\<lparr>tk_gk_remote := Some peer', tk_key_state := chiaki_key_state_commit (tk_key_state rx) ?kp\<rparr>"
  let ?rx2 = "?rx1\<lparr>tk_data_queue := q2\<rparr>"
  have near: "\<bar>int (unat ?kp) - int (unat (ks_prev (chiaki_key_state_commit (tk_key_state rx) ?kp)))\<bar> < 2 ^ 31"
    by (simp add: chiaki_key_state_commit_def)
  have parse: "takion_parse_message (tk_key_state ?rx1) (tk_tag_local ?rx1) (drop 1 packet)
      = Some (tk_key_state ?rx1, Inr \<lparr>msg_tag = ?tag, msg_key_pos = ?kp,
          msg_chunk_type = TAKION_CHUNK_TYPE_DATA, msg_chunk_flags = 1, msg_payload_size = of_nat (length ?pl),
          msg_payload = Some ?pl\<rparr>)"
    using sealed_parse [OF m(1) _ near, of ?pl ?tag TAKION_CHUNK_TYPE_DATA 1] pos(2)
    by (simp add: packet_def chiaki_key_state_commit_def)
  have lay: "?pl = [] @ be32 ?seq @ (be16 ch @ replicate 3 0 @ buf)" "?pl = be32 ?seq @ be16 ch @ (replicate 3 0 @ buf)"
    by simp_all
  have rd: "rd32be ?pl 0 = Some ?seq" "rd16be ?pl 4 = Some ch"
    by (subst lay(1), rule rd32be_at, simp) (rule rd16be_at, simp)
  have pl8: "?pl ! 8 = 0" "drop 9 ?pl = buf" "\<not> length ?pl < 9"
    by (simp_all add: be32_def be16_def numeral_3_eq_3)
  have deliver: "deliver_data (Some f) e ?rx2 = f (Ev_Data 0 buf) ?rx2"
    using pl8 by (simp add: deliver_data_def e_def emit_def data_types_def)
  have loop: "flush_data_loop (Some f) None (?rx1\<lparr>tk_data_queue := q1\<rparr>)
      = Some (Some (ucast ?seq), free_buf packet (f (Ev_Data 0 buf) ?rx2))"
    using flush_one [of "?rx1\<lparr>tk_data_queue := q1\<rparr>" q2 "ucast ?seq" e "Some f"] q(2,3) deliver callback
    by (simp add: e_def free_buf_def)
  have ucast2: "ucast (ucast ?seq :: u64) = ?seq" by (simp add: ucast_down_ucast_id is_down)
  have data: "takion_handle_packet_message_data P R (Some f) ?rx1 packet 1 ?pl
      = map_option snd (chiaki_takion_send_message_data_ack P (re_send R)
          (free_buf packet (f (Ev_Data 0 buf) ?rx2)) ?seq)"
    using rd pl8(3) env(4) q(1) loop ucast2
    by (simp add: takion_handle_packet_message_data_def takion_flush_data_queue_def data_drops_def e_def)
  have "takion_handle_packet P R (Some f) rx packet
      = takion_handle_packet_message P R (Some f) ?rx1 packet"
    using m(3) sealed_message_type [of ?tag mac ?kp TAKION_CHUNK_TYPE_DATA 1 ?pl]
    by (simp add: takion_handle_packet_def packet_def Let_def) (simp add: sealed_message_def)
  also have "\<dots> = takion_handle_packet_message_data P R (Some f) ?rx1 packet 1 ?pl"
    unfolding takion_handle_packet_message_def parse by simp
  finally have "takion_handle_packet P R (Some f) rx packet
      = map_option snd (chiaki_takion_send_message_data_ack P (re_send R)
          (free_buf packet (f (Ev_Data 0 buf) ?rx2)) ?seq)"
    unfolding data .
  moreover have "tk_key_state ?rx2 = \<lparr>ks_prev = ?kp\<rparr>" by (simp add: chiaki_key_state_commit_def)
  moreover have "rq_window (tk_data_queue ?rx2) = (win_add 32 (ucast ?seq) 1, [])" using q(4) by simp
  ultimately show ?thesis using sent by blast
qed

lemma example_data_queue:
  "rq32 (tk_data_queue (example_takion gl gr a b))" "rq_window (tk_data_queue (example_takion gl gr a b)) = (7, [])"
  using rq32_init [OF _ _ prod.collapse [symmetric], of 4 7] by (simp_all add: example_takion_def)

lemma takion_message_delivered_witness:
  "\<exists>gk tx' packet rx'. toy_init = ret_ok gk
    \<and> chiaki_takion_send_message_data toy_prims example_send_env (example_takion (Some gk) None 1 2) 1 5 [8, 6]
        = Some (CHIAKI_ERR_SUCCESS, tx', Some 7)
    \<and> takion_handle_packet toy_prims example_recv_env (Some (\<lambda>ev tk. tk)) (example_takion None (Some gk) 2 1) packet
        = map_option snd (chiaki_takion_send_message_data_ack toy_prims example_send_env (free_buf packet rx') 7)"
proof -
  obtain gk where g: "toy_init = ret_ok gk" "length (gk_gmac_base gk) = 16" "gmac_inv toy_prims gk gk"
    by (rule toy_init_ok)
  have sb: "sb_count (tk_send_buffer (example_takion (Some gk) None 1 2))
      \<le> length (sb_packets (tk_send_buffer (example_takion (Some gk) None 1 2)))"
    by (simp add: example_takion_def)
  show ?thesis
    using takion_message_delivered [of "example_takion (Some gk) None 1 2" gk "example_takion None (Some gk) 2 1" gk
        toy_prims gk example_send_env example_recv_env "[8, 6]" "\<lambda>ev tk. tk" 5, OF _ _ g(3,3) toy_prims_sizes g(2) _ _ sb]
      g(1) example_data_queue [of None "Some gk" 2 1]
    by (auto simp: send_succeeds_def example_send_env_def example_recv_env_def)
qed

end
