(* ===== verification/TakionOwnership.thy ===== *)
theory TakionOwnership
  imports TakionDelivery SendBufferRun
begin

text \<open>
  Who owns the buffer of a datagram.  \<open>takion_handle_packet_message\<close> takes the buffer over; whatever the
  message is, the buffer is afterwards freed, waiting in the data queue, or lost in one of two known
  cases, and so is every buffer that was in the data queue or in the send buffer before.
\<close>

definition held_entries :: "takion \<Rightarrow> data_entry drops" where
  "held_entries tk = win_occupied 32 (rq_begin (tk_data_queue tk)) 0 (snd (rq_window (tk_data_queue tk)))"

definition entry_buf :: "u64 \<times> data_entry option \<Rightarrow> bytes" where
  "entry_buf d = de_packet_buf (the (snd d))"

text \<open>Every buffer the connection has taken over: freed, lost, waiting to be delivered, waiting for an
  acknowledgement.\<close>

definition accounted :: "takion \<Rightarrow> bytes multiset" where
  "accounted tk = mset (tk_freed tk) + mset (tk_leaked tk) + mset (map entry_buf (held_entries tk))
     + mset (sb_bufs (tk_send_buffer tk))"

definition conn_ok :: "gk_prims \<Rightarrow> gkcrypt \<Rightarrow> takion \<Rightarrow> bool" where
  "conn_ok P gk0 tk \<longleftrightarrow> rq32 (tk_data_queue tk) \<and> rq_drop_cb (tk_data_queue tk)
     \<and> (\<forall>d \<in> set (held_entries tk). snd d \<noteq> None) \<and> sb_ok (tk_send_buffer tk)
     \<and> (\<forall>gk. tk_gk_local tk = Some gk \<longrightarrow> gmac_inv P gk0 gk)"

text \<open>What the callback must leave alone.\<close>

definition cb_keeps :: "gk_prims \<Rightarrow> gkcrypt \<Rightarrow> (takion_event \<Rightarrow> takion \<Rightarrow> takion) \<Rightarrow> bool" where
  "cb_keeps P gk0 f \<longleftrightarrow> (\<forall>ev tk.
      tk_data_queue (f ev tk) = tk_data_queue tk \<and> tk_send_buffer (f ev tk) = tk_send_buffer tk
    \<and> tk_freed (f ev tk) = tk_freed tk \<and> tk_leaked (f ev tk) = tk_leaked tk
    \<and> ((\<forall>gk. tk_gk_local tk = Some gk \<longrightarrow> gmac_inv P gk0 gk) \<longrightarrow>
        (\<forall>gk. tk_gk_local (f ev tk) = Some gk \<longrightarrow> gmac_inv P gk0 gk)))"

text \<open>The state apart from the buffers the flush moves.\<close>

lemma emit_conn:
  assumes "cb_keeps P gk0 f" "conn_ok P gk0 tk"
  shows "conn_ok P gk0 (f ev tk)" "held_entries (f ev tk) = held_entries tk" "accounted (f ev tk) = accounted tk"
    "tk_leaked (f ev tk) = tk_leaked tk" "tk_data_queue (f ev tk) = tk_data_queue tk"
proof -
  have q: "tk_data_queue (f ev tk) = tk_data_queue tk" "tk_send_buffer (f ev tk) = tk_send_buffer tk"
    "tk_freed (f ev tk) = tk_freed tk" "tk_leaked (f ev tk) = tk_leaked tk"
    using assms(1) by (simp_all add: cb_keeps_def)
  then show h: "held_entries (f ev tk) = held_entries tk" by (simp add: held_entries_def)
  have "\<forall>gk. tk_gk_local tk = Some gk \<longrightarrow> gmac_inv P gk0 gk" using assms(2) by (simp add: conn_ok_def)
  then have "\<forall>gk. tk_gk_local (f ev tk) = Some gk \<longrightarrow> gmac_inv P gk0 gk"
    using assms(1) unfolding cb_keeps_def by blast
  then show "conn_ok P gk0 (f ev tk)" using assms(2) q h by (simp add: conn_ok_def)
  show "accounted (f ev tk) = accounted tk" by (simp add: accounted_def q h)
  show "tk_leaked (f ev tk) = tk_leaked tk" "tk_data_queue (f ev tk) = tk_data_queue tk" by (fact q)+
qed

lemma deliver_conn:
  assumes "\<And>f. cb = Some f \<Longrightarrow> cb_keeps P gk0 f" "conn_ok P gk0 tk"
  shows "conn_ok P gk0 (deliver_data cb e tk) \<and> held_entries (deliver_data cb e tk) = held_entries tk
    \<and> accounted (deliver_data cb e tk) = accounted tk \<and> tk_leaked (deliver_data cb e tk) = tk_leaked tk
    \<and> tk_data_queue (deliver_data cb e tk) = tk_data_queue tk"
  using assms by (cases cb) (auto simp: deliver_data_def emit_def dest: emit_conn [OF assms(1)])

lemma free_conn:
  "conn_ok P gk0 (free_buf b tk) = conn_ok P gk0 tk" "accounted (free_buf b tk) = add_mset b (accounted tk)"
  "tk_leaked (free_buf b tk) = tk_leaked tk" "tk_data_queue (free_buf b tk) = tk_data_queue tk"
  "tk_leaked (leak_buf b tk) = tk_leaked tk @ [b]" "conn_ok P gk0 (leak_buf b tk) = conn_ok P gk0 tk" "accounted (leak_buf b tk) = add_mset b (accounted tk)"
  by (simp_all add: free_buf_def leak_buf_def conn_ok_def accounted_def held_entries_def)

subsection \<open>Flushing\<close>

text \<open>One pull: the queue gives its head and keeps the rest.\<close>

lemma pull_conn:
  assumes "conn_ok P gk0 tk"
  obtains (none) q where "chiaki_reorder_queue_pull (tk_data_queue tk) = Some (q, None)"
      "conn_ok P gk0 (tk\<lparr>tk_data_queue := q\<rparr>)" "held_entries (tk\<lparr>tk_data_queue := q\<rparr>) = held_entries tk"
      "rq_window q = rq_window (tk_data_queue tk)" "snd (win_pull 32 (rq_window q)) = None"
  | (some) q s e where "chiaki_reorder_queue_pull (tk_data_queue tk) = Some (q, Some (s, Some e))"
      "conn_ok P gk0 (tk\<lparr>tk_data_queue := q\<rparr>)"
      "mset (held_entries tk) = add_mset (s, Some e) (mset (held_entries (tk\<lparr>tk_data_queue := q\<rparr>)))"
      "length (snd (rq_window (tk_data_queue tk))) = Suc (length (snd (rq_window q)))"
proof -
  let ?q = "tk_data_queue tk"
  have ok: "rq32 ?q" "rq_drop_cb ?q" "\<forall>d \<in> set (held_entries tk). snd d \<noteq> None"
    using assms by (simp_all add: conn_ok_def)
  obtain q where q: "chiaki_reorder_queue_pull ?q = Some (q, snd (win_pull 32 (rq_window ?q)))" "rq32 q"
      "rq_same_config ?q q" "rq_window q = fst (win_pull 32 (rq_window ?q))"
    using rq32_pull_ok [OF ok(1)] by blast
  have b: "unat (fst (rq_window ?q)) < space 32" using ok(1) by (simp add: rq32_def rq_inv_def)
  have c: "mset (held_entries tk) = mset (held_entries (tk\<lparr>tk_data_queue := q\<rparr>))
      + mset (case snd (win_pull 32 (rq_window ?q)) of None \<Rightarrow> [] | Some x \<Rightarrow> [x])"
    using seq32.win_pull_conserves [OF b] q(4) by (simp add: held_entries_def flip: fst_window)
  then have "set (held_entries (tk\<lparr>tk_data_queue := q\<rparr>)) \<subseteq> set (held_entries tk)"
    by (metis UnCI set_mset_mset set_mset_union subsetI)
  then have ok': "conn_ok P gk0 (tk\<lparr>tk_data_queue := q\<rparr>)"
    using assms q(2,3) unfolding conn_ok_def by (auto simp: rq_same_config_def)
  show thesis
  proof (cases "(32 :: nat, rq_window ?q)" rule: win_pull.cases [case_names head nothing missing])
    case (head bits b u xs)
    then have r: "snd (win_pull 32 (rq_window ?q)) = Some (b, u)" by simp
    then have "(b, u) \<in> set (held_entries tk)" using c by (metis option.simps(5) set_mset_mset union_iff list.set_intros(1))
    then obtain e where "u = Some e" using ok(3) by fastforce
    then show thesis using some [of q b e] q r c ok' head by (simp del: length_window)
  next
    case (nothing bits b)
    then show thesis using none [of q] q c ok' by (simp add: held_entries_def)
  next
    case (missing bits b xs)
    then show thesis using none [of q] q c ok' by (simp add: held_entries_def) (metis fst_window snd_conv)
  qed
qed

lemma pulled_accounted:
  assumes "mset (held_entries tk) = add_mset (s, Some e) (mset (held_entries (tk\<lparr>tk_data_queue := q\<rparr>)))"
  shows "accounted tk = add_mset (de_packet_buf e) (accounted (tk\<lparr>tk_data_queue := q\<rparr>))"
proof -
  have "mset (map entry_buf (held_entries tk))
      = add_mset (de_packet_buf e) (mset (map entry_buf (held_entries (tk\<lparr>tk_data_queue := q\<rparr>))))"
    by (simp only: mset_map assms) (simp add: entry_buf_def)
  then show ?thesis by (simp add: accounted_def)
qed

lemma flush_loop_conn:
  assumes "\<And>f. cb = Some f \<Longrightarrow> cb_keeps P gk0 f" "conn_ok P gk0 tk"
  shows "\<exists>last tk'. flush_data_loop cb l tk = Some (last, tk') \<and> conn_ok P gk0 tk' \<and> accounted tk' = accounted tk
    \<and> tk_leaked tk' = tk_leaked tk \<and> snd (win_pull 32 (rq_window (tk_data_queue tk'))) = None"
  using assms(2)
proof (induction "length (snd (rq_window (tk_data_queue tk)))" arbitrary: l tk rule: less_induct)
  case less
  show ?case
  proof (rule pull_conn [OF less.prems])
    fix q assume q: "chiaki_reorder_queue_pull (tk_data_queue tk) = Some (q, None)"
      "conn_ok P gk0 (tk\<lparr>tk_data_queue := q\<rparr>)" "held_entries (tk\<lparr>tk_data_queue := q\<rparr>) = held_entries tk"
      "snd (win_pull 32 (rq_window q)) = None"
    then show ?case by (subst flush_data_loop.simps) (simp add: accounted_def)
  next
    fix q s e assume q: "chiaki_reorder_queue_pull (tk_data_queue tk) = Some (q, Some (s, Some e))"
      "conn_ok P gk0 (tk\<lparr>tk_data_queue := q\<rparr>)"
      "mset (held_entries tk) = add_mset (s, Some e) (mset (held_entries (tk\<lparr>tk_data_queue := q\<rparr>)))"
      "length (snd (rq_window (tk_data_queue tk))) = Suc (length (snd (rq_window q)))"
    let ?tk = "free_buf (de_packet_buf e) (deliver_data cb e (tk\<lparr>tk_data_queue := q\<rparr>))"
    note d = deliver_conn [where cb = cb and e = e, OF assms(1) q(2)]
    have "length (snd (rq_window (tk_data_queue ?tk))) < length (snd (rq_window (tk_data_queue tk)))"
      using d q(4) by (simp add: free_conn)
    moreover have "conn_ok P gk0 ?tk" using d by (simp add: free_conn)
    moreover have "accounted ?tk = accounted tk"
      using d pulled_accounted [OF q(3)] by (simp add: free_conn)
    moreover have "tk_leaked ?tk = tk_leaked tk" using d by (simp add: free_conn)
    ultimately show ?case using less.hyps [of ?tk "Some s"] q(1) by (subst flush_data_loop.simps) simp
  qed
qed

subsection \<open>Acknowledging\<close>

lemma sealed_or_error:
  assumes "\<And>gk. tk_gk_local tk = Some gk \<Longrightarrow> gmac_inv P gk0 gk" "prims_sizes P" "length (gk_gmac_base gk0) = 16"
  shows "(\<exists>err. chiaki_takion_packet_mac P (tk_gk_local tk) buf kp = ret_err err)
    \<or> (\<exists>m. chiaki_takion_packet_mac P (tk_gk_local tk) buf kp = ret_ok m
         \<and> (\<forall>gk. pm_crypt m = Some gk \<longrightarrow> gmac_inv P gk0 gk))"
proof (cases "tk_gk_local tk")
  case None
  then show ?thesis
    by (auto simp: chiaki_takion_packet_mac_def Let_def key_pos_offset_of_mac buf_simps CHIAKI_GKCRYPT_GMAC_SIZE_def
        split: option.split)
next
  case (Some gk)
  show ?thesis unfolding Some
    by (rule packet_mac_cases [OF assms(1) [OF Some] assms(2,3), where buf = buf and key_pos = kp]) auto
qed

lemma ack_conn:
  assumes ok: "conn_ok P gk0 tk" and keys: "prims_sizes P" "length (gk_gmac_base gk0) = 16"
  obtains tk' where "map_option snd (chiaki_takion_send_message_data_ack P E tk s) = Some tk'" "conn_ok P gk0 tk'"
    "accounted tk' = accounted tk" "tk_leaked tk' = tk_leaked tk" "tk_data_queue tk' = tk_data_queue tk"
proof -
  obtain tk1 r where adv: "chiaki_takion_crypt_advance_key_pos (se_advance_lock E) tk
        (of_nat (1 + TAKION_MESSAGE_HEADER_SIZE + 0xc)) = (tk1, r)" by force
  then have "tk1 = tk \<or> (\<exists>k. tk1 = tk\<lparr>tk_key_pos_local := k\<rparr>)"
    by (auto simp: chiaki_takion_crypt_advance_key_pos_def Let_def split: if_splits option.splits)
  then have tk1: "conn_ok P gk0 tk1" "accounted tk1 = accounted tk" "tk_leaked tk1 = tk_leaked tk"
      "tk_data_queue tk1 = tk_data_queue tk"
    using ok by (auto simp: conn_ok_def accounted_def held_entries_def)
  show thesis
  proof (cases r)
    case (Inl err)
    then show thesis using that [of tk1] tk1 adv by (simp add: chiaki_takion_send_message_data_ack_def)
  next
    case (Inr key_pos)
    let ?m = "data_ack_message (tk_tag_remote tk1) key_pos s (tk_a_rwnd tk1)"
    have "\<exists>err tk' b. chiaki_takion_send P E tk1 ?m key_pos = Some (err, tk', b) \<and> conn_ok P gk0 tk'
        \<and> accounted tk' = accounted tk1 \<and> tk_leaked tk' = tk_leaked tk1 \<and> tk_data_queue tk' = tk_data_queue tk1"
      using sealed_or_error [of tk1 P gk0 ?m key_pos] tk1(1) keys
      by (auto simp: chiaki_takion_send_def chiaki_takion_send_raw_def conn_ok_def accounted_def held_entries_def)
    then show thesis using that tk1 adv Inr by (auto simp: chiaki_takion_send_message_data_ack_def)
  qed
qed

lemma flush_conn:
  assumes "\<And>f. cb = Some f \<Longrightarrow> cb_keeps P gk0 f" "conn_ok P gk0 tk" "prims_sizes P" "length (gk_gmac_base gk0) = 16"
  obtains tk' where "takion_flush_data_queue P E cb tk = Some tk'" "conn_ok P gk0 tk'" "accounted tk' = accounted tk"
    "tk_leaked tk' = tk_leaked tk" "snd (win_pull 32 (rq_window (tk_data_queue tk'))) = None"
proof -
  obtain l t where t: "flush_data_loop cb None tk = Some (l, t)" "conn_ok P gk0 t" "accounted t = accounted tk"
    "tk_leaked t = tk_leaked tk" "snd (win_pull 32 (rq_window (tk_data_queue t))) = None"
    using flush_loop_conn [OF assms(1,2), where cb = cb and l = None] by blast
  show thesis
  proof (cases l)
    case None
    then show thesis using that t by (simp add: takion_flush_data_queue_def)
  next
    case (Some s)
    obtain tk' where "map_option snd (chiaki_takion_send_message_data_ack P E t (ucast s)) = Some tk'" "conn_ok P gk0 tk'"
      "accounted tk' = accounted t" "tk_leaked tk' = tk_leaked t" "tk_data_queue tk' = tk_data_queue t"
      by (rule ack_conn [OF t(2) assms(3,4)])
    then show thesis using that [of tk'] t Some by (simp add: takion_flush_data_queue_def)
  qed
qed

subsection \<open>Messages\<close>

lemma push_conn:
  fixes e :: data_entry
  assumes ok: "conn_ok P gk0 tk" and s: "unat s < 2 ^ 32"
  obtains q ds tk' where "chiaki_reorder_queue_push (tk_data_queue tk) s (Some e) = Some (q, ds)"
    "data_drops ds (tk\<lparr>tk_data_queue := q\<rparr>) = Some tk'" "conn_ok P gk0 tk'"
    "accounted tk' = add_mset (de_packet_buf e) (accounted tk)" "tk_leaked tk' = tk_leaked tk"
proof -
  let ?q = "tk_data_queue tk"
  let ?w = "win_push 32 (2 ^ size_exp ?q) (rq_strategy ?q) (rq_window ?q) s (Some e)"
  have h: "rq32 ?q" "rq_drop_cb ?q" "\<forall>d \<in> set (held_entries tk). snd d \<noteq> None" using ok by (simp_all add: conn_ok_def)
  obtain q where q: "chiaki_reorder_queue_push ?q s (Some e) = Some (q, snd ?w)" "rq32 q" "rq_same_config ?q q"
      "rq_window q = fst ?w"
    using rq32_push_ok [OF h(1) s, of "Some e"] h(2) by auto
  let ?t = "tk\<lparr>tk_data_queue := q\<rparr>"
  have c: "add_mset (s, Some e) (mset (held_entries tk)) = mset (held_entries ?t) + mset (snd ?w)"
    using seq32.win_push_conserves [of s "Some e" "rq_window ?q" "2 ^ size_exp ?q" "rq_strategy ?q"] s q(4)
    by (simp add: held_entries_def space_def flip: fst_window)
  have "set (held_entries ?t) \<union> set (snd ?w) = insert (s, Some e) (set (held_entries tk))"
    using arg_cong [OF c, of set_mset] by simp
  then have some: "\<forall>d \<in> set (held_entries ?t). snd d \<noteq> None" "\<forall>d \<in> set (snd ?w). snd d \<noteq> None"
    using h(3) by (metis UnCI insertE option.distinct(1) snd_conv)+
  define tk' where "tk' = ?t\<lparr>tk_freed := tk_freed tk @ map entry_buf (snd ?w)\<rparr>"
  have d: "data_drops (snd ?w) ?t = Some tk'"
    using some(2) by (force simp: data_drops_def tk'_def entry_buf_def)
  have "mset (map entry_buf (held_entries ?t)) + mset (map entry_buf (snd ?w))
      = add_mset (de_packet_buf e) (mset (map entry_buf (held_entries tk)))"
    using arg_cong [OF c, of "image_mset entry_buf"] by (simp add: entry_buf_def)
  then have a: "accounted tk' = add_mset (de_packet_buf e) (accounted tk)"
    by (simp add: accounted_def tk'_def held_entries_def add_ac)
  have "conn_ok P gk0 tk'"
    using ok q(2,3) some(1) by (auto simp: conn_ok_def tk'_def held_entries_def rq_same_config_def)
  then show thesis using that [OF q(1) d] a by (simp add: tk'_def)
qed

lemma data_conn:
  assumes "\<And>f. cb = Some f \<Longrightarrow> cb_keeps P gk0 f" "conn_ok P gk0 tk" "prims_sizes P" "length (gk_gmac_base gk0) = 16"
  obtains tk' where "takion_handle_packet_message_data P E cb tk b ty pl = Some tk'" "conn_ok P gk0 tk'"
    "accounted tk' = add_mset b (accounted tk)"
    "tk_leaked tk' = tk_leaked tk @ (if length pl < 9 \<or> \<not> re_entry_alloc E then [b] else [])"
proof (cases "length pl < 9 \<or> \<not> re_entry_alloc E")
  case True
  then have "takion_handle_packet_message_data P E cb tk b ty pl = Some (leak_buf b tk)"
    by (auto simp: takion_handle_packet_message_data_def)
  then show thesis using that assms(2) True by (simp add: free_conn)
next
  case False
  then have rd: "rd16be pl 4 \<noteq> None" "rd32be pl 0 \<noteq> None" by (simp_all add: buf_simps)
  then obtain ch seq where r: "rd16be pl 4 = Some ch" "rd32be pl 0 = Some seq" by blast
  have s: "unat (ucast seq :: u64) < 2 ^ 32"
    using unsigned_less [of seq, where 'a = nat] by (simp add: unat_ucast_up)
  obtain q ds t where t: "chiaki_reorder_queue_push (tk_data_queue tk) (ucast seq)
        (Some \<lparr>de_packet_buf = b, de_type_b = ty, de_payload = pl, de_channel = ch\<rparr>) = Some (q, ds)"
      "data_drops ds (tk\<lparr>tk_data_queue := q\<rparr>) = Some t" "conn_ok P gk0 t"
      "accounted t = add_mset b (accounted tk)" "tk_leaked t = tk_leaked tk"
    by (rule push_conn [OF assms(2) s, where e = "\<lparr>de_packet_buf = b, de_type_b = ty, de_payload = pl, de_channel = ch\<rparr>"])
      simp
  obtain tk' where "takion_flush_data_queue P (re_send E) cb t = Some tk'" "conn_ok P gk0 tk'" "accounted tk' = accounted t"
      "tk_leaked tk' = tk_leaked t"
    by (rule flush_conn [OF assms(1) t(3) assms(3,4), where E = "re_send E"])
  then show thesis using that [of tk'] r t False by (simp add: takion_handle_packet_message_data_def)
qed

lemma acks_conn:
  assumes f: "cb_keeps P gk0 f" and ok: "conn_ok P gk0 tk"
  obtains tk' where "takion_handle_packet_message_data_ack E (Some f) tk pl = Some tk'" "conn_ok P gk0 tk'"
    "accounted tk' = accounted tk" "tk_leaked tk' = tk_leaked tk"
proof -
  have emits: "\<exists>t'. emit_acks (Some f) ss t = Some t' \<and> conn_ok P gk0 t' \<and> accounted t' = accounted t
      \<and> tk_leaked t' = tk_leaked t" if "conn_ok P gk0 t" for ss t
    using that
  proof (induction ss arbitrary: t)
    case (Cons s ss)
    show ?case using Cons.IH [OF emit_conn(1) [OF f Cons.prems]] emit_conn(3,4) [OF f Cons.prems] by simp
  qed simp
  have sb: "sb_ok (tk_send_buffer tk)" using ok by (simp add: conn_ok_def)
  have acked: "\<exists>r. chiaki_takion_send_buffer_ack (re_ack_lock E) (Some TAKION_SEND_BUFFER_SIZE) (tk_send_buffer tk) s = Some r
      \<and> sb_ok (ar_buffer r) \<and> mset (sb_bufs (ar_buffer r)) + mset (ar_freed r) = mset (sb_bufs (tk_send_buffer tk))" for s
  proof (cases "re_ack_lock E = CHIAKI_ERR_SUCCESS")
    case True
    obtain sb' where a: "send_buffer_ack CHIAKI_ERR_SUCCESS (Some TAKION_SEND_BUFFER_SIZE) (tk_send_buffer tk) s
        = Some \<lparr>ar_err = CHIAKI_ERR_SUCCESS, ar_buffer = sb',
            ar_acked = (if Some TAKION_SEND_BUFFER_SIZE = None then []
              else map sp_seq_num (filter (seq_acked s) (sb_live (tk_send_buffer tk)))),
            ar_freed = map sp_buf (filter (seq_acked s) (sb_live (tk_send_buffer tk)))\<rparr>"
      "sb_live sb' = filter (\<lambda>p. \<not> seq_acked s p) (sb_live (tk_send_buffer tk))" "sb_ok sb'"
      by (rule sb_ok_ack [OF sb, of "Some TAKION_SEND_BUFFER_SIZE" s])
        (auto simp: TAKION_SEND_BUFFER_SIZE_def RESEND_ACKED_SIZE_def)
    then show ?thesis using True mset_filter_bufs [of sp_buf "seq_acked s" "sb_live (tk_send_buffer tk)"]
      by (simp add: chiaki_takion_send_buffer_ack_def sb_bufs_def add.commute)
  qed (use sb in \<open>simp add: chiaki_takion_send_buffer_ack_def send_buffer_ack_def\<close>)
  show thesis
  proof (cases "length pl = 0xc \<and> length pl = unat (of_be16 (pl ! 8) (pl ! 9)) * 4 + 0xc")
    case False
    then show thesis using that [of tk] ok by (simp add: takion_handle_packet_message_data_ack_def buf_simps)
  next
    case True
    define s where "s = of_be32 (pl ! 0) (pl ! 1) (pl ! 2) (pl ! 3)"
    obtain r where r: "chiaki_takion_send_buffer_ack (re_ack_lock E) (Some TAKION_SEND_BUFFER_SIZE) (tk_send_buffer tk) s = Some r"
      "sb_ok (ar_buffer r)" "mset (sb_bufs (ar_buffer r)) + mset (ar_freed r) = mset (sb_bufs (tk_send_buffer tk))"
      using acked by blast
    let ?t = "tk\<lparr>tk_send_buffer := ar_buffer r, tk_freed := tk_freed tk @ ar_freed r\<rparr>"
    have "conn_ok P gk0 ?t" using ok r(2) by (simp add: conn_ok_def held_entries_def)
    moreover have "accounted ?t = accounted tk" by (simp add: accounted_def held_entries_def r(3) [symmetric] add_ac)
    moreover have "takion_handle_packet_message_data_ack E (Some f) tk pl = emit_acks (Some f) (ar_acked r) ?t"
      using True r(1) by (simp add: takion_handle_packet_message_data_ack_def buf_simps s_def numeral_eq_Suc)
    ultimately show thesis using that emits [of ?t "ar_acked r"] by fastforce
  qed
qed

text \<open>The two cases in which the code returns without freeing the datagram or passing it on.\<close>

definition message_lost :: "recv_env \<Rightarrow> takion_message \<Rightarrow> bool" where
  "message_lost E msg \<longleftrightarrow> msg_chunk_type msg = TAKION_CHUNK_TYPE_DATA
     \<and> (length (case msg_payload msg of None \<Rightarrow> [] | Some b \<Rightarrow> b) < 9 \<or> \<not> re_entry_alloc E)"

lemma parse_message_total: "takion_parse_message ks tag buf \<noteq> None"
  by (auto simp: takion_parse_message_def buf_simps TAKION_MESSAGE_HEADER_SIZE_def Let_def case_prod_unfold)

text \<open>C19. Ownership: handling a control message always returns, and accounts for every buffer: those freed,
  lost, waiting in the data queue and waiting in the send buffer are, as a multiset, those of before and
  the message's own.  The message's buffer is lost exactly when it is a data message that is too short
  or whose entry cannot be allocated; nothing else ever is.\<close>

theorem takion_message_ownership:
  assumes f: "cb_keeps P gk0 f" and ok: "conn_ok P gk0 tk" and keys: "prims_sizes P" "length (gk_gmac_base gk0) = 16"
  shows "\<exists>ks r tk'. takion_parse_message (tk_key_state tk) (tk_tag_local tk) (drop 1 buf) = Some (ks, r)
    \<and> takion_handle_packet_message P E (Some f) tk buf = Some tk'
    \<and> conn_ok P gk0 tk' \<and> accounted tk' = add_mset buf (accounted tk)
    \<and> tk_leaked tk' = tk_leaked tk @ (case r of Inl _ \<Rightarrow> [] | Inr msg \<Rightarrow> if message_lost E msg then [buf] else [])"
proof -
  obtain ks r where p: "takion_parse_message (tk_key_state tk) (tk_tag_local tk) (drop 1 buf) = Some (ks, r)"
    using parse_message_total [of "tk_key_state tk" "tk_tag_local tk" "drop 1 buf"] by (metis not_None_eq old.prod.exhaust)
  let ?t = "tk\<lparr>tk_key_state := ks\<rparr>"
  have t: "conn_ok P gk0 ?t" "accounted ?t = accounted tk"
    using ok by (simp_all add: conn_ok_def accounted_def held_entries_def)
  show ?thesis
  proof (cases r)
    case (Inl err)
    then show ?thesis using p t by (simp add: takion_handle_packet_message_def free_conn)
  next
    case (Inr msg)
    let ?pl = "case msg_payload msg of None \<Rightarrow> [] | Some b \<Rightarrow> b"
    obtain d where d: "takion_handle_packet_message_data P E (Some f) ?t buf (msg_chunk_flags msg) ?pl = Some d"
      "conn_ok P gk0 d" "accounted d = add_mset buf (accounted ?t)"
      "tk_leaked d = tk_leaked ?t @ (if length ?pl < 9 \<or> \<not> re_entry_alloc E then [buf] else [])"
      by (rule data_conn [where cb = "Some f", OF _ t(1) keys]) (use f in auto)
    obtain a where a: "takion_handle_packet_message_data_ack E (Some f) ?t ?pl = Some a" "conn_ok P gk0 a"
      "accounted a = accounted ?t" "tk_leaked a = tk_leaked ?t"
      by (rule acks_conn [OF f t(1)])
    show ?thesis
      using p Inr t d a
      by (cases "msg_chunk_type msg = TAKION_CHUNK_TYPE_DATA"; cases "msg_chunk_type msg = TAKION_CHUNK_TYPE_DATA_ACK")
        (simp_all add: takion_handle_packet_message_def message_lost_def free_conn)
  qed
qed

definition owning_example :: "gkcrypt \<Rightarrow> takion" where
  "owning_example gk = (example_takion None (Some gk) 2 1)\<lparr>tk_data_queue :=
     chiaki_reorder_queue_set_drop_cb (tk_data_queue (example_takion None (Some gk) 2 1)) True\<rparr>"

lemma owning_example_ok: "conn_ok P gk0 (owning_example gk)"
proof -
  note q = example_data_queue [of None "Some gk" 2 1]
  have "rq32 (tk_data_queue (owning_example gk))" "rq_window (tk_data_queue (owning_example gk)) = (7, [])"
    using q by (simp_all add: owning_example_def chiaki_reorder_queue_set_drop_cb_def rq32_def rq_inv_def rq_uses_def
        rq_window_def rq_pos_def)
  then show ?thesis
    by (simp add: conn_ok_def held_entries_def)
      (simp add: owning_example_def chiaki_reorder_queue_set_drop_cb_def example_takion_def sb_ok_def sb_live_def)
qed

lemma takion_message_ownership_witness:
  "\<exists>gk ks r tk'. toy_init = ret_ok gk
    \<and> takion_parse_message (tk_key_state (owning_example gk)) (tk_tag_local (owning_example gk))
        (drop 1 [0, 0,0,0,2, 0,0,0,0, 0,0,0,0, 0,1, 0,8, 0,0,0,9]) = Some (ks, r)
    \<and> takion_handle_packet_message toy_prims example_recv_env (Some (\<lambda>ev tk. tk)) (owning_example gk)
        [0, 0,0,0,2, 0,0,0,0, 0,0,0,0, 0,1, 0,8, 0,0,0,9] = Some tk'
    \<and> accounted tk' = add_mset [0, 0,0,0,2, 0,0,0,0, 0,0,0,0, 0,1, 0,8, 0,0,0,9] (accounted (owning_example gk))"
proof -
  obtain gk where g: "toy_init = ret_ok gk" "length (gk_gmac_base gk) = 16" "gmac_inv toy_prims gk gk"
    by (rule toy_init_ok)
  have "cb_keeps toy_prims gk (\<lambda>ev tk. tk)" by (simp add: cb_keeps_def)
  from takion_message_ownership [OF this owning_example_ok toy_prims_sizes g(2)] g(1) show ?thesis by blast
qed

end
