(* ===== verification/VideoFlush.thy ===== *)
theory VideoFlush
  imports TakionRecvProps
begin

text \<open>
  The video queue with its timeout (\<open>takion_av_queue_flush_with_timeout\<close>): the loops return, and they
  return only when nothing more can be delivered now.
\<close>

text \<open>A video queue as it is created and kept: the ring has its size, the window fits, entries are there.\<close>

definition vq_ok :: "av_entry reorder_queue \<Rightarrow> bool" where
  "vq_ok q \<longleftrightarrow> length (slots q) = 2 ^ size_exp q \<and> size_exp q \<le> 16 \<and> seq_num_add q = seq_num_16_add
     \<and> rq_count q \<le> chiaki_reorder_queue_size q \<and> (\<forall>e \<in> set (slots q). e_set e \<longrightarrow> e_user e \<noteq> None)"

definition head_missing :: "av_entry reorder_queue \<Rightarrow> bool" where
  "head_missing q \<longleftrightarrow> rq_count q \<noteq> 0 \<and> (\<exists>e. rq_entry q (rq_begin q) = Some e \<and> \<not> e_set e)"

definition window_empty :: "av_entry reorder_queue \<Rightarrow> bool" where
  "window_empty q \<longleftrightarrow> (\<forall>i < rq_count q. chiaki_reorder_queue_peek q i = Some None)"

text \<open>The callback may do anything but touch the video queue and its wait.\<close>

definition cb_keeps_video :: "takion_callback \<Rightarrow> bool" where
  "cb_keeps_video cb \<longleftrightarrow> (\<forall>f ev tk. cb = Some f \<longrightarrow> tk_video_queue (f ev tk) = tk_video_queue tk
     \<and> tk_head_wait_start_us (f ev tk) = tk_head_wait_start_us tk
     \<and> tk_head_wait_seq_num (f ev tk) = tk_head_wait_seq_num tk)"

lemma mask_idx: "unat (s AND (2 ^ k - 1) :: u64) = unat s mod 2 ^ k"
  by (metis mask_eq_exp_minus_1 of_nat_unat take_bit_eq_mask take_bit_eq_mod unsigned_take_bit_eq)

lemma entry_total:
  assumes "vq_ok q"
  obtains e where "rq_entry q s = Some e" "e \<in> set (slots q)"
proof -
  have "rq_idx q s < length (slots q)" using assms by (simp add: rq_idx_def vq_ok_def mask_idx)
  then show thesis using that by (simp add: rq_entry_def)
qed

lemma add_zero_entry: "vq_ok q \<Longrightarrow> rq_entry q (seq_num_add q b 0) = rq_entry q b"
proof -
  assume q: "vq_ok q"
  have "unat (ucast (ucast b :: u16) :: u64) = unat b mod 2 ^ 16"
    by (simp add: unsigned_ucast_eq take_bit_eq_mod unat_mod_distrib)
  moreover have "(2 :: nat) ^ size_exp q dvd 2 ^ 16" using q by (intro le_imp_power_dvd) (simp add: vq_ok_def)
  ultimately show ?thesis using q
    by (simp add: rq_entry_def rq_idx_def mask_idx vq_ok_def seq_num_16_add_def mod_mod_cancel)
qed

lemma vq_pull:
  assumes q: "vq_ok q"
  obtains (stuck) "chiaki_reorder_queue_pull q = Some (q, None)" "rq_count q = 0 \<or> head_missing q"
  | (pulled) q' s e where "chiaki_reorder_queue_pull q = Some (q', Some (s, Some e))" "vq_ok q'"
      "unat (rq_count q') < unat (rq_count q)"
proof (cases "rq_count q = 0")
  case True
  then show thesis using stuck by (simp add: chiaki_reorder_queue_pull_def)
next
  case False
  obtain e where e: "rq_entry q (rq_begin q) = Some e" "e \<in> set (slots q)" by (rule entry_total [OF q])
  show thesis
  proof (cases "e_set e")
    case unset: False
    then show thesis using stuck e(1) q False
      by (simp add: chiaki_reorder_queue_pull_def vq_ok_def head_missing_def)
  next
    case True
    then obtain u where u: "e_user e = Some u" using q e(2) by (auto simp: vq_ok_def)
    let ?q = "q\<lparr>rq_begin := seq_num_add q (rq_begin q) 1, rq_count := rq_count q - 1\<rparr>"
    have less: "unat (rq_count q - 1) < unat (rq_count q)"
      using False by (simp add: unat_minus_one unat_gt_0)
    then have "vq_ok ?q" using q by (simp add: vq_ok_def word_le_nat_alt chiaki_reorder_queue_size_def)
    moreover have "chiaki_reorder_queue_pull q = Some (?q, Some (rq_begin q, Some u))"
      using True e(1) u q False by (simp add: chiaki_reorder_queue_pull_def vq_ok_def)
    ultimately show thesis using pulled [of ?q "rq_begin q" u] less by simp
  qed
qed

lemma emit_keeps:
  assumes "cb_keeps_video cb"
  shows "tk_video_queue (free_buf b (emit cb ev tk)) = tk_video_queue tk"
    "tk_head_wait_start_us (free_buf b (emit cb ev tk)) = tk_head_wait_start_us tk"
    "tk_head_wait_seq_num (free_buf b (emit cb ev tk)) = tk_head_wait_seq_num tk"
  using assms by (auto simp: free_buf_def emit_def cb_keeps_video_def split: option.split)

lemma same_video_queue: "tk_video_queue tk = q \<Longrightarrow> tk\<lparr>tk_video_queue := q\<rparr> = tk"
  by auto

lemma av_pull_loop_returns:
  assumes "vq_ok (tk_video_queue tk)" "cb_keeps_video cb"
  shows "\<exists>made tk'. av_pull_loop cb m tk = Some (made, tk') \<and> vq_ok (tk_video_queue tk')
    \<and> (rq_count (tk_video_queue tk') = 0 \<or> head_missing (tk_video_queue tk'))
    \<and> tk_head_wait_start_us tk' = tk_head_wait_start_us tk
    \<and> unat (rq_count (tk_video_queue tk')) \<le> unat (rq_count (tk_video_queue tk))"
  using assms(1)
proof (induction "unat (rq_count (tk_video_queue tk))" arbitrary: tk m rule: less_induct)
  case less
  show ?case
  proof (rule vq_pull [OF less.prems])
    assume p: "chiaki_reorder_queue_pull (tk_video_queue tk) = Some (tk_video_queue tk, None)"
      "rq_count (tk_video_queue tk) = 0 \<or> head_missing (tk_video_queue tk)"
    then have "av_pull_loop cb m tk = Some (m, tk)"
      by (subst av_pull_loop.simps) (simp add: same_video_queue)
    then show ?thesis using p less.prems by auto
  next
    fix q' s e
    assume p: "chiaki_reorder_queue_pull (tk_video_queue tk) = Some (q', Some (s, Some e))" "vq_ok q'"
      "unat (rq_count q') < unat (rq_count (tk_video_queue tk))"
    let ?tk = "free_buf (ae_buf e) (emit cb (Ev_AV (ae_packet e) (ae_buf e)) (tk\<lparr>tk_video_queue := q'\<rparr>))"
    note keep = emit_keeps [OF assms(2), of "ae_buf e" "Ev_AV (ae_packet e) (ae_buf e)" "tk\<lparr>tk_video_queue := q'\<rparr>"]
    have step: "av_pull_loop cb m tk = av_pull_loop cb True ?tk"
      using p(1) by (subst av_pull_loop.simps) simp
    from less.hyps [of ?tk True] obtain made tk' where "av_pull_loop cb True ?tk = Some (made, tk')"
      "vq_ok (tk_video_queue tk')" "rq_count (tk_video_queue tk') = 0 \<or> head_missing (tk_video_queue tk')"
      "tk_head_wait_start_us tk' = tk_head_wait_start_us tk"
      "unat (rq_count (tk_video_queue tk')) \<le> unat (rq_count q')"
      using keep p(2,3) by auto
    then show ?thesis using step p(3) by auto
  qed
qed

lemma av_skip_loop_returns:
  assumes "vq_ok q" "k \<le> rq_count q"
    and "\<forall>i < k. chiaki_reorder_queue_peek q i = Some None"
  shows "\<exists>s. av_skip_loop q k = Some s \<and> k \<le> s \<and> s \<le> rq_count q
    \<and> (s = rq_count q \<longrightarrow> window_empty q) \<and> (s < rq_count q \<longrightarrow> chiaki_reorder_queue_peek q s \<noteq> Some None)"
  using assms(2,3)
proof (induction "unat (rq_count q) - unat k" arbitrary: k rule: less_induct)
  case less
  show ?case
  proof (cases "k < rq_count q")
    case False
    then have "k = rq_count q" using less.prems(1) by simp
    then show ?thesis using less.prems(2) by (subst av_skip_loop.simps) (simp add: window_empty_def)
  next
    case True
    obtain e where e: "rq_entry q (seq_num_add q (rq_begin q) k) = Some e" by (rule entry_total [OF assms(1)])
    show ?thesis
    proof (cases "e_set e")
      case set: True
      then show ?thesis using True e
        by (subst av_skip_loop.simps) (auto simp: chiaki_reorder_queue_peek_def not_le)
    next
      case unset: False
      have p: "chiaki_reorder_queue_peek q k = Some None"
        using True e unset by (simp add: chiaki_reorder_queue_peek_def not_le)
      have k: "unat (k + 1) = Suc (unat k)" "unat k < unat (rq_count q)"
        using True unat64_less [of "rq_count q"] by (auto simp: word_less_nat_alt unat_plus_if')
      have k1: "k + 1 \<le> rq_count q" using k by (simp add: word_le_nat_alt)
      have pk: "\<forall>i < k + 1. chiaki_reorder_queue_peek q i = Some None"
      proof (intro allI impI)
        fix i assume "i < k + 1"
        then have "i < k \<or> i = k" using k(1) unat_inj [of i k] by (auto simp: word_less_nat_alt less_Suc_eq)
        then show "chiaki_reorder_queue_peek q i = Some None" using less.prems(2) p by auto
      qed
      have dec: "unat (rq_count q) - unat (k + 1) < unat (rq_count q) - unat k" using k by simp
      obtain s where "av_skip_loop q (k + 1) = Some s" "k + 1 \<le> s" "s \<le> rq_count q"
        "s = rq_count q \<longrightarrow> window_empty q" "s < rq_count q \<longrightarrow> chiaki_reorder_queue_peek q s \<noteq> Some None"
        using less.hyps [OF dec k1 pk] by blast
      moreover have "av_skip_loop q k = av_skip_loop q (k + 1)"
        using True p by (subst av_skip_loop.simps) simp
      moreover have "k \<le> s" using \<open>k + 1 \<le> s\<close> k(1) by (simp add: word_le_nat_alt)
      ultimately show ?thesis by auto
    qed
  qed
qed

text \<open>What is left when a flush returns: an empty queue, or a missing head with the wait running and not yet
  over (or, if the window held nothing at all, no packet to skip to).\<close>

definition settled :: "i64 \<Rightarrow> takion \<Rightarrow> bool" where
  "settled now tk \<longleftrightarrow> rq_count (tk_video_queue tk) = 0
     \<or> head_missing (tk_video_queue tk) \<and> tk_head_wait_start_us tk \<noteq> 0
       \<and> (now - tk_head_wait_start_us tk \<le>s TAKION_AV_REORDER_TIMEOUT_US \<or> window_empty (tk_video_queue tk))"

lemma av_head_wait_video: "tk_video_queue (snd (av_head_wait now tk)) = tk_video_queue tk"
  by (simp add: av_head_wait_def set_head_wait_def Let_def)

lemma av_head_wait_stop:
  assumes "fst (av_head_wait now tk)" "now \<noteq> 0"
  shows "tk_head_wait_start_us (snd (av_head_wait now tk)) \<noteq> 0
    \<and> now - tk_head_wait_start_us (snd (av_head_wait now tk)) \<le>s TAKION_AV_REORDER_TIMEOUT_US"
proof -
  have "(0 :: i64) \<le>s TAKION_AV_REORDER_TIMEOUT_US" by (simp add: TAKION_AV_REORDER_TIMEOUT_US_def word_sle_eq)
  then show ?thesis using assms
    by (auto simp: av_head_wait_def set_head_wait_def Let_def split: if_splits)
qed

lemma av_head_wait_skip:
  "\<not> fst (av_head_wait now tk) \<Longrightarrow> tk_head_wait_start_us (snd (av_head_wait now tk)) \<noteq> 0"
  by (auto simp: av_head_wait_def set_head_wait_def Let_def split: if_splits)

lemma skip_vq_ok: "vq_ok q \<Longrightarrow> s \<le> rq_count q \<Longrightarrow>
  vq_ok (q\<lparr>rq_begin := b, rq_count := rq_count q - s\<rparr>) \<and> unat (rq_count q - s) = unat (rq_count q) - unat s"
proof -
  assume q: "vq_ok q" "s \<le> rq_count q"
  then have u: "unat (rq_count q - s) = unat (rq_count q) - unat s"
    by (simp add: unat_sub_if' word_le_nat_alt)
  have "unat (rq_count q) \<le> unat (2 ^ size_exp q :: u64)"
    using q by (simp add: vq_ok_def chiaki_reorder_queue_size_def word_le_nat_alt)
  then have "unat (rq_count q) - unat s \<le> unat (2 ^ size_exp q :: u64)" by linarith
  then show ?thesis using q u by (simp add: vq_ok_def chiaki_reorder_queue_size_def word_le_nat_alt)
qed

lemma av_flush_loop_settles:
  assumes "vq_ok (tk_video_queue tk)" "cb_keeps_video cb" "now \<noteq> 0"
  shows "\<exists>tk'. av_flush_loop cb now tk = Some tk' \<and> vq_ok (tk_video_queue tk') \<and> settled now tk'"
  using assms(1)
proof (induction "unat (rq_count (tk_video_queue tk))" arbitrary: tk rule: less_induct)
  case less
  obtain made t1 where t1: "av_pull_loop cb False tk = Some (made, t1)" "vq_ok (tk_video_queue t1)"
    "rq_count (tk_video_queue t1) = 0 \<or> head_missing (tk_video_queue t1)"
    "unat (rq_count (tk_video_queue t1)) \<le> unat (rq_count (tk_video_queue tk))"
    using av_pull_loop_returns [OF less.prems assms(2), of False] by blast
  define t2 where "t2 = av_pulled (made, t1)"
  have q2: "tk_video_queue t2 = tk_video_queue t1" by (simp add: t2_def av_pulled_def)
  let ?q = "tk_video_queue t2"
  note unfold = av_flush_loop.simps [of cb now tk]
  show ?case
  proof (cases "rq_count ?q = 0")
    case True
    then have "av_flush_loop cb now tk = Some t2"
      by (simp add: unfold t1(1) t2_def [symmetric] chiaki_reorder_queue_count_def)
    then show ?thesis using True t1(2) q2 by (auto simp: settled_def)
  next
    case False
    then have miss: "head_missing ?q" using t1(3) q2 by simp
    show ?thesis
    proof (cases "fst (av_head_wait now t2)")
      case True
      have "av_flush_loop cb now tk = Some (snd (av_head_wait now t2))"
        using False True by (simp add: unfold t1(1) t2_def [symmetric] chiaki_reorder_queue_count_def)
      then show ?thesis using miss t1(2) q2 av_head_wait_stop [OF True assms(3)]
        by (auto simp: settled_def av_head_wait_video)
    next
      case go_on: False
      obtain s where s: "av_skip_loop ?q 0 = Some s" "s \<le> rq_count ?q"
        "s = rq_count ?q \<longrightarrow> window_empty ?q" "s < rq_count ?q \<longrightarrow> chiaki_reorder_queue_peek ?q s \<noteq> Some None"
        using av_skip_loop_returns [of ?q 0] t1(2) q2 by auto
      show ?thesis
      proof (cases "s = rq_count ?q")
        case True
        then have "av_flush_loop cb now tk = Some (snd (av_head_wait now t2))"
          using False go_on s(1) by (simp add: unfold t1(1) t2_def [symmetric] chiaki_reorder_queue_count_def)
        then show ?thesis using miss t1(2) q2 s(3) True av_head_wait_skip [OF go_on]
          by (auto simp: settled_def av_head_wait_video)
      next
        case skip: False
        then have less_s: "s < rq_count ?q" using s(2) by simp
        obtain e where e: "rq_entry ?q (rq_begin ?q) = Some e" "\<not> e_set e" using miss by (auto simp: head_missing_def)
        have "chiaki_reorder_queue_peek ?q 0 = Some None"
          using e add_zero_entry [of ?q "rq_begin ?q"] t1(2) q2 False
          by (simp add: chiaki_reorder_queue_peek_def)
        then have "s \<noteq> 0" using s(4) less_s by auto
        let ?t3 = "av_skip_to s (snd (av_head_wait now t2))"
        have q3: "tk_video_queue ?t3 = ?q\<lparr>rq_begin := seq_num_add ?q (rq_begin ?q) s, rq_count := rq_count ?q - s\<rparr>"
          by (simp add: av_skip_to_def Let_def av_head_wait_video)
        have v3: "vq_ok (tk_video_queue ?t3)"
          and c3: "unat (rq_count (tk_video_queue ?t3)) = unat (rq_count ?q) - unat s"
          using skip_vq_ok [of ?q s "seq_num_add ?q (rq_begin ?q) s"] t1(2) q2 s(2) unfolding q3 by simp_all
        have "0 < unat s" using \<open>s \<noteq> 0\<close> by (simp add: unat_gt_0)
        moreover have "unat s < unat (rq_count ?q)" using less_s by (simp add: word_less_nat_alt)
        ultimately have "unat (rq_count (tk_video_queue ?t3)) < unat (rq_count (tk_video_queue tk))"
          using c3 t1(4) q2 by simp
        then obtain tk' where "av_flush_loop cb now ?t3 = Some tk'" "vq_ok (tk_video_queue tk')" "settled now tk'"
          using less.hyps [of ?t3] v3 by blast
        moreover have "av_flush_loop cb now tk = av_flush_loop cb now ?t3"
          using False go_on s(1) not_le [THEN iffD2, OF less_s]
          by (simp add: unfold t1(1) t2_def [symmetric] chiaki_reorder_queue_count_def)
        ultimately show ?thesis by auto
      qed
    qed
  qed
qed

text \<open>C18. The video queue: flushing always returns, whatever packets and gaps the queue holds and whatever
  the callback does to the rest of the connection; the queue stays well formed, and it returns only when it is
  empty or its head is missing and has been waited for no longer than the timeout of 16 ms, so no packet
  that is there is held back behind a gap for longer.\<close>

theorem video_flush_settles:
  assumes "vq_ok (tk_video_queue tk)" "cb_keeps_video cb" "now \<noteq> 0"
  shows "\<exists>tk'. takion_av_queue_flush_with_timeout cb now tk = Some tk' \<and> vq_ok (tk_video_queue tk')
    \<and> settled now tk'"
  unfolding takion_av_queue_flush_with_timeout_def using assms by (rule av_flush_loop_settles)

text \<open>A queue of 64 whose head is missing and whose second packet is there.\<close>

definition gap_queue :: "av_entry \<Rightarrow> av_entry reorder_queue" where
  "gap_queue e = (snd (chiaki_reorder_queue_init_16 True 6 0))\<lparr>
     slots := (replicate 64 \<lparr>e_user = None, e_set = False\<rparr>)[1 := \<lparr>e_user = Some e, e_set = True\<rparr>], rq_count := 2\<rparr>"

lemma gap_queue_ok: "vq_ok (gap_queue e)"
  by (auto simp: vq_ok_def gap_queue_def chiaki_reorder_queue_init_16_def chiaki_reorder_queue_init_def
      chiaki_reorder_queue_size_def dest!: set_update_subset_insert [THEN subsetD])

lemma video_flush_settles_witness:
  "\<forall>e. \<exists>tk'. takion_av_queue_flush_with_timeout None 5
      ((example_takion None None 1 2)\<lparr>tk_video_queue := gap_queue e\<rparr>) = Some tk' \<and> settled 5 tk'"
proof
  fix e
  show "\<exists>tk'. takion_av_queue_flush_with_timeout None 5
      ((example_takion None None 1 2)\<lparr>tk_video_queue := gap_queue e\<rparr>) = Some tk' \<and> settled 5 tk'"
    using video_flush_settles [of "(example_takion None None 1 2)\<lparr>tk_video_queue := gap_queue e\<rparr>" None 5]
    by (auto simp: gap_queue_ok cb_keeps_video_def)
qed

end
