(* ===== verification/TakionConnect.thy ===== *)
theory TakionConnect
  imports TakionRecv
begin

text \<open>
  Setting up a Takion connection (\<^verbatim>\<open>lib/src/takion.c\<close>): \<open>takion_recv\<close>, the handshake of the thread with
  its retries, and \<open>chiaki_takion_connect\<close> with its cleanup labels (the branch for Linux) and
  \<open>chiaki_takion_close\<close>.

  A receive is a value \<open>chiaki_error + bytes\<close>, what the wait and the socket give; a local array that is
  received into starts with indeterminate bytes, the parameter \<open>junk\<close>.
\<close>

definition MAX_CONNECT_RESEND_TRIES :: nat where "MAX_CONNECT_RESEND_TRIES = 3"

definition handshake_message_size :: nat where "handshake_message_size = 1 + TAKION_MESSAGE_HEADER_SIZE"
definition init_ack_size :: nat where "init_ack_size = 1 + TAKION_MESSAGE_HEADER_SIZE + 0x10 + TAKION_COOKIE_SIZE"

text \<open>The wait, then \<open>recv\<close> into at most \<open>n\<close> bytes: the rest of a longer datagram is discarded.\<close>

datatype recv_outcome = Rx_Select chiaki_error | Rx_Failed | Rx_Bytes bytes

definition takion_recv :: "nat \<Rightarrow> recv_outcome \<Rightarrow> chiaki_error + bytes" where
  "takion_recv n rx = (case rx of
     Rx_Select err \<Rightarrow> (if err = CHIAKI_ERR_SUCCESS then Inl CHIAKI_ERR_NETWORK else Inl err)
   | Rx_Failed \<Rightarrow> Inl CHIAKI_ERR_NETWORK
   | Rx_Bytes b \<Rightarrow> if take n b = [] then Inl CHIAKI_ERR_NETWORK else Inr (take n b))"

record takion_payload_init_ack =
  ack_tag :: u32
  ack_a_rwnd :: u32
  ack_outbound_streams :: u16
  ack_inbound_streams :: u16
  ack_initial_seq_num :: u32
  ack_cookie :: bytes

definition read_init_ack :: "bytes \<Rightarrow> takion_payload_init_ack option" where
  "read_init_ack pl = do {
     tag \<leftarrow> rd32be pl 0;
     a_rwnd \<leftarrow> rd32be pl 4;
     outbound \<leftarrow> rd16be pl 8;
     inbound \<leftarrow> rd16be pl 0xa;
     seq \<leftarrow> rd32be pl 0xc;
     cookie \<leftarrow> rd_slice pl 0x10 TAKION_COOKIE_SIZE;
     Some \<lparr>ack_tag = tag, ack_a_rwnd = a_rwnd, ack_outbound_streams = outbound,
       ack_inbound_streams = inbound, ack_initial_seq_num = seq, ack_cookie = cookie\<rparr> }"

definition takion_recv_message_init_ack ::
    "recv_outcome \<Rightarrow> takion \<Rightarrow> (takion \<times> (chiaki_error + takion_payload_init_ack)) option" where
  "takion_recv_message_init_ack rx tk =
     (case takion_recv init_ack_size rx of
        Inl err \<Rightarrow> Some (tk, Inl err)
      | Inr message \<Rightarrow>
          if length message < init_ack_size then Some (tk, Inl CHIAKI_ERR_INVALID_RESPONSE)
          else if message ! 0 \<noteq> TAKION_PACKET_TYPE_CONTROL then Some (tk, Inl CHIAKI_ERR_INVALID_RESPONSE)
          else do {
            (ks, r) \<leftarrow> takion_parse_message (tk_key_state tk) (tk_tag_local tk) (drop 1 message);
            let tk = tk\<lparr>tk_key_state := ks\<rparr>;
            (case r of
               Inl err \<Rightarrow> Some (tk, Inl CHIAKI_ERR_INVALID_RESPONSE)
             | Inr msg \<Rightarrow>
                 if msg_chunk_type msg \<noteq> TAKION_CHUNK_TYPE_INIT_ACK \<or> msg_chunk_flags msg \<noteq> 0
                 then Some (tk, Inl CHIAKI_ERR_INVALID_RESPONSE)
                 else if unat (msg_payload_size msg) \<noteq> 0x10 + TAKION_COOKIE_SIZE then None
                 else case msg_payload msg of
                   None \<Rightarrow> None
                 | Some pl \<Rightarrow> map_option (\<lambda>a. (tk, Inr a)) (read_init_ack pl)) })"

text \<open>A second INIT_ACK, for an INIT sent again, may come first; its chunk type is looked at in the array
  before the number of bytes received is.  The second receive is limited to the size of the first.\<close>

definition cookie_ack_bytes ::
    "bytes \<Rightarrow> recv_outcome \<Rightarrow> recv_outcome \<Rightarrow> (chiaki_error + bytes) option" where
  "cookie_ack_bytes junk rx rx2 =
     (case takion_recv handshake_message_size rx of
        Inl err \<Rightarrow> Some (Inl err)
      | Inr m \<Rightarrow> do {
          t \<leftarrow> rd8 (m @ drop (length m) junk) 0xd;
          Some (if t = TAKION_CHUNK_TYPE_INIT_ACK then takion_recv (length m) rx2 else Inr m) })"

definition takion_recv_message_cookie_ack ::
    "bytes \<Rightarrow> recv_outcome \<Rightarrow> recv_outcome \<Rightarrow> takion \<Rightarrow> (chiaki_error \<times> takion) option" where
  "takion_recv_message_cookie_ack junk rx rx2 tk = do {
     r \<leftarrow> cookie_ack_bytes junk rx rx2;
     (case r of
        Inl err \<Rightarrow> Some (err, tk)
      | Inr message \<Rightarrow>
          if length message < handshake_message_size then Some (CHIAKI_ERR_INVALID_RESPONSE, tk)
          else if message ! 0 \<noteq> TAKION_PACKET_TYPE_CONTROL then Some (CHIAKI_ERR_INVALID_RESPONSE, tk)
          else do {
            (ks, r) \<leftarrow> takion_parse_message (tk_key_state tk) (tk_tag_local tk) (drop 1 message);
            let tk = tk\<lparr>tk_key_state := ks\<rparr>;
            (case r of
               Inl err \<Rightarrow> Some (CHIAKI_ERR_INVALID_RESPONSE, tk)
             | Inr msg \<Rightarrow>
                 if msg_chunk_type msg \<noteq> TAKION_CHUNK_TYPE_COOKIE_ACK \<or> msg_chunk_flags msg \<noteq> 0
                 then Some (CHIAKI_ERR_INVALID_RESPONSE, tk)
                 else if msg_payload_size msg \<noteq> 0 then None
                 else Some (CHIAKI_ERR_SUCCESS, tk)) }) }"

subsection \<open>The handshake\<close>

text \<open>What the network does in each attempt.\<close>

record handshake_env =
  he_init_sent :: "nat \<Rightarrow> bool"
  he_init_rx :: "nat \<Rightarrow> recv_outcome"
  he_cookie_sent :: "nat \<Rightarrow> bool"
  he_cookie_rx :: "nat \<Rightarrow> recv_outcome"
  he_cookie_rx2 :: "nat \<Rightarrow> recv_outcome"
  he_junk :: "nat \<Rightarrow> bytes"

text \<open>\<open>todo\<close> attempts remain, the next is number \<open>tries\<close>; \<open>err\<close> is the result of the last one.  A failed
  send ends the handshake at once.\<close>

fun init_tries ::
    "handshake_env \<Rightarrow> takion_payload_init \<Rightarrow> nat \<Rightarrow> nat \<Rightarrow> chiaki_error \<Rightarrow> takion \<Rightarrow>
     (takion \<times> (chiaki_error + takion_payload_init_ack)) option" where
  "init_tries H p tries 0 err tk = Some (tk, Inl err)"
| "init_tries H p tries (Suc todo) err tk =
     (case takion_send_message_init (he_init_sent H tries) tk p of
        (err, tk) \<Rightarrow>
          if err \<noteq> CHIAKI_ERR_SUCCESS then Some (tk, Inl err)
          else do {
            (tk, r) \<leftarrow> takion_recv_message_init_ack (he_init_rx H tries) tk;
            (case r of
               Inr a \<Rightarrow> Some (tk, Inr a)
             | Inl err \<Rightarrow> init_tries H p (Suc tries) todo err tk) })"

fun cookie_tries ::
    "handshake_env \<Rightarrow> bytes \<Rightarrow> nat \<Rightarrow> nat \<Rightarrow> chiaki_error \<Rightarrow> takion \<Rightarrow> (chiaki_error \<times> takion) option" where
  "cookie_tries H cookie tries 0 err tk = Some (err, tk)"
| "cookie_tries H cookie tries (Suc todo) err tk = do {
     (err, tk) \<leftarrow> takion_send_message_cookie (he_cookie_sent H tries) tk cookie;
     if err \<noteq> CHIAKI_ERR_SUCCESS then Some (err, tk)
     else do {
       (err, tk) \<leftarrow> takion_recv_message_cookie_ack (he_junk H tries) (he_cookie_rx H tries)
                     (he_cookie_rx2 H tries) tk;
       if err = CHIAKI_ERR_SUCCESS then Some (err, tk)
       else cookie_tries H cookie (Suc tries) todo err tk } }"

definition streams_ok :: "takion_payload_init_ack \<Rightarrow> bool" where
  "streams_ok a \<longleftrightarrow> ack_outbound_streams a \<noteq> 0 \<and> ack_inbound_streams a \<noteq> 0
     \<and> ack_outbound_streams a \<le> TAKION_INBOUND_STREAMS \<and> TAKION_OUTBOUND_STREAMS \<le> ack_inbound_streams a"

definition init_payload :: "takion \<Rightarrow> takion_payload_init" where
  "init_payload tk = \<lparr>ini_tag = tk_tag_local tk, ini_a_rwnd = TAKION_A_RWND,
     ini_outbound_streams = TAKION_OUTBOUND_STREAMS, ini_inbound_streams = TAKION_INBOUND_STREAMS,
     ini_initial_seq_num = tk_seq_num_local tk\<rparr>"

text \<open>The last component is the remote's initial sequence number, for which the code takes its tag.\<close>

definition takion_handshake ::
    "handshake_env \<Rightarrow> takion \<Rightarrow> (chiaki_error \<times> takion \<times> u32 option) option" where
  "takion_handshake H tk = do {
     (tk, r) \<leftarrow> init_tries H (init_payload tk) 0 MAX_CONNECT_RESEND_TRIES CHIAKI_ERR_SUCCESS tk;
     (case r of
        Inl err \<Rightarrow> Some (err, tk, None)
      | Inr a \<Rightarrow>
          if ack_tag a = 0 then Some (CHIAKI_ERR_INVALID_RESPONSE, tk, None)
          else let tk = tk\<lparr>tk_tag_remote := ack_tag a\<rparr> in
          if \<not> streams_ok a then Some (CHIAKI_ERR_INVALID_RESPONSE, tk, Some (ack_tag a))
          else do {
            (err, tk) \<leftarrow> cookie_tries H (ack_cookie a) 0 MAX_CONNECT_RESEND_TRIES CHIAKI_ERR_SUCCESS tk;
            Some (err, tk, Some (ack_tag a)) }) }"

text \<open>The thread up to its loop: handshake, queue and send buffer.  On failure it tells the callback; when
  only the send buffer fails the data queue is freed first (\<open>chiaki_reorder_queue_fini\<close>, no packets).\<close>

definition takion_thread_start ::
    "handshake_env \<Rightarrow> bool \<Rightarrow> (chiaki_error + u32 send_buffer) \<Rightarrow> takion_callback \<Rightarrow> takion \<Rightarrow>
     (bool \<times> takion) option" where
  "takion_thread_start H queue_alloc sb cb tk =
     (let tk = tk\<lparr>tk_video_initialized := False, tk_head_wait_start_us := 0, tk_head_wait_seq_num := 0\<rparr> in do {
        (err, tk, seq) \<leftarrow> takion_handshake H tk;
        if err \<noteq> CHIAKI_ERR_SUCCESS then Some (False, emit cb Ev_Disconnect tk)
        else case seq of
          None \<Rightarrow> None
        | Some seq \<Rightarrow>
            case chiaki_reorder_queue_init_32 queue_alloc TAKION_REORDER_QUEUE_SIZE_EXP seq of
              (err, q) \<Rightarrow>
                if err \<noteq> CHIAKI_ERR_SUCCESS then Some (False, emit cb Ev_Disconnect tk)
                else let tk = tk\<lparr>tk_data_queue := chiaki_reorder_queue_set_drop_cb q True\<rparr> in
                case sb of
                  Inl err \<Rightarrow> Some (False, emit cb Ev_Disconnect tk)
                | Inr sb \<Rightarrow> Some (True, emit cb Ev_Connected (tk\<lparr>tk_send_buffer := sb\<rparr>)) })"

subsection \<open>Connecting\<close>

text \<open>The outcomes of the calls of \<open>chiaki_takion_connect\<close>; \<open>ce_extra\<close> is what the draining of a socket
  handed in gives, \<open>ce_dontfrag\<close> whether the socket option for fragmentation could be set, \<open>ce_connect\<close>
  the value of \<open>connect\<close>.\<close>

record connect_env =
  ce_gkcrypt_mutex :: chiaki_error
  ce_seq_num_mutex :: chiaki_error
  ce_stop_pipe :: chiaki_error
  ce_sock_given :: bool
  ce_extra :: chiaki_error
  ce_socket :: bool
  ce_rcvbuf :: bool
  ce_dontfrag :: bool
  ce_connect :: int
  ce_thread :: chiaki_error

text \<open>What the connection holds, in the order it was made.  Releasing what is not held, which would
  finalise a lock or a pipe that does not exist or join a thread that never ran, is \<open>None\<close>.\<close>

datatype takion_resource = Tr_Gkcrypt_Mutex | Tr_Seq_Num_Mutex | Tr_Stop_Pipe | Tr_Sock | Tr_Thread

definition release :: "takion_resource \<Rightarrow> takion_resource list \<Rightarrow> takion_resource list option" where
  "release r held = (if r \<in> set held then Some (remove1 r held) else None)"

text \<open>The cleanup labels, last one first: each falls through to the one below it in the code.\<close>

definition error_gkcrypt_local_mutex ::
    "chiaki_error \<Rightarrow> takion_resource list \<Rightarrow> (chiaki_error \<times> takion_resource list) option" where
  "error_gkcrypt_local_mutex ret held = do {
     held \<leftarrow> release Tr_Gkcrypt_Mutex held;
     Some (ret, held) }"

definition error_seq_num_local_mutex ::
    "chiaki_error \<Rightarrow> takion_resource list \<Rightarrow> (chiaki_error \<times> takion_resource list) option" where
  "error_seq_num_local_mutex ret held = do {
     held \<leftarrow> release Tr_Seq_Num_Mutex held;
     error_gkcrypt_local_mutex ret held }"

definition error_pipe ::
    "chiaki_error \<Rightarrow> takion_resource list \<Rightarrow> (chiaki_error \<times> takion_resource list) option" where
  "error_pipe ret held = do {
     held \<leftarrow> release Tr_Stop_Pipe held;
     error_seq_num_local_mutex ret held }"

definition error_sock ::
    "chiaki_error \<Rightarrow> takion_resource list \<Rightarrow> (chiaki_error \<times> takion_resource list) option" where
  "error_sock ret held = do {
     held \<leftarrow> (if Tr_Sock \<in> set held then release Tr_Sock held else Some held);
     error_pipe ret held }"

text \<open>The end of the function: the result of making the thread is not looked at.\<close>

definition takion_connect_thread ::
    "connect_env \<Rightarrow> takion_resource list \<Rightarrow> (chiaki_error \<times> takion_resource list) option" where
  "takion_connect_thread C held =
     Some (CHIAKI_ERR_SUCCESS, held @ (if ce_thread C = CHIAKI_ERR_SUCCESS then [Tr_Thread] else []))"

text \<open>The two variables \<open>ret\<close> and \<open>err\<close> are kept apart: a label returns \<open>ret\<close>, which is still
  \<open>CHIAKI_ERR_SUCCESS\<close> where the code jumps after assigning \<open>err\<close> only.\<close>

definition chiaki_takion_connect ::
    "u8 \<Rightarrow> connect_env \<Rightarrow> (chiaki_error \<times> takion_resource list) option" where
  "chiaki_takion_connect version C =
     (if version \<noteq> 7 \<and> version \<noteq> 9 \<and> version \<noteq> 12 then Some (CHIAKI_ERR_INVALID_DATA, [])
      else let ret = ce_gkcrypt_mutex C in
      if ret \<noteq> CHIAKI_ERR_SUCCESS then Some (ret, [])
      else let held = [Tr_Gkcrypt_Mutex]; ret = ce_seq_num_mutex C in
      if ret \<noteq> CHIAKI_ERR_SUCCESS then error_gkcrypt_local_mutex ret held
      else let held = held @ [Tr_Seq_Num_Mutex]; err = ce_stop_pipe C in
      if err \<noteq> CHIAKI_ERR_SUCCESS then error_seq_num_local_mutex ret held
      else let held = held @ [Tr_Stop_Pipe] in
      if ce_sock_given C then
        let held = held @ [Tr_Sock]; err = ce_extra C in
        if err \<noteq> CHIAKI_ERR_SUCCESS \<and> err \<noteq> CHIAKI_ERR_TIMEOUT then error_sock ret held
        else if \<not> ce_rcvbuf C then error_sock CHIAKI_ERR_NETWORK held
        else if \<not> ce_dontfrag C then error_sock CHIAKI_ERR_NETWORK held
        else takion_connect_thread C held
      else if \<not> ce_socket C then error_pipe CHIAKI_ERR_NETWORK held
      else let held = held @ [Tr_Sock] in
        if \<not> ce_rcvbuf C then error_sock CHIAKI_ERR_NETWORK held
        else if \<not> ce_dontfrag C then error_sock CHIAKI_ERR_NETWORK held
        else if ce_connect C < 0 then error_sock CHIAKI_ERR_NETWORK held
        else if ce_connect C \<noteq> 0 then error_sock err held
        else takion_connect_thread C held)"

text \<open>Closing: the thread closes the socket itself, if the connection owns it.\<close>

definition chiaki_takion_close :: "takion_resource list \<Rightarrow> takion_resource list option" where
  "chiaki_takion_close held = do {
     held \<leftarrow> release Tr_Thread held;
     held \<leftarrow> release Tr_Stop_Pipe held;
     held \<leftarrow> release Tr_Seq_Num_Mutex held;
     release Tr_Gkcrypt_Mutex held }"

text \<open>The state of a connection when its thread starts.\<close>

definition takion_initial ::
    "u8 \<Rightarrow> u8 \<Rightarrow> bool \<Rightarrow> u32 \<Rightarrow> key_state \<Rightarrow> data_entry reorder_queue \<Rightarrow> av_entry reorder_queue \<Rightarrow>
     u32 send_buffer \<Rightarrow> takion" where
  "takion_initial version disable_audio_video enable_crypt random ks dq vq sb =
     \<lparr>tk_version = version, tk_disable_audio_video = disable_audio_video, tk_enable_crypt = enable_crypt,
      tk_postponed = None, tk_gk_local = None, tk_key_pos_local = 0, tk_gk_remote = None,
      tk_data_queue = dq, tk_video_queue = vq, tk_video_initialized = False, tk_head_wait_start_us = 0,
      tk_head_wait_seq_num = 0, tk_send_buffer = sb, tk_tag_local = random, tk_tag_remote = 0,
      tk_seq_num_local = random, tk_a_rwnd = TAKION_A_RWND, tk_key_state = ks, tk_wire = [], tk_freed = [],
      tk_leaked = []\<rparr>"

text \<open>Draining a socket that was used before: at most until the clock passes \<open>expired\<close>.  Each step is
  the clock, the result of the wait and whether \<open>recv\<close> succeeds; \<open>None\<close> when the script ends first.\<close>

fun takion_read_extra_sock_messages :: "u64 \<Rightarrow> (u64 \<times> chiaki_error \<times> bool) list \<Rightarrow> chiaki_error option" where
  "takion_read_extra_sock_messages expired [] = None"
| "takion_read_extra_sock_messages expired ((now, sel, ok) # steps) =
     (if expired < now then Some CHIAKI_ERR_TIMEOUT
      else if sel \<noteq> CHIAKI_ERR_SUCCESS then Some sel
      else if \<not> ok then Some CHIAKI_ERR_NETWORK
      else takion_read_extra_sock_messages expired steps)"

end
