(* ===== verification/TakionConnectProps.thy ===== *)
theory TakionConnectProps
  imports TakionConnect TakionRecvProps
begin

text \<open>
  The handshake always ends, within its bounds and with its assertions satisfied, and what its success
  means; what \<open>chiaki_takion_connect\<close> leaves behind on each of its exits.
\<close>

subsection \<open>Messages of the handshake\<close>

lemma takion_recv_size: "takion_recv n rx = Inr m \<Longrightarrow> length m \<le> n \<and> m \<noteq> []"
  by (auto simp: takion_recv_def split: recv_outcome.splits if_splits)

text \<open>A parsed message is as long as its header says.\<close>

lemma parsed_payload:
  assumes "takion_parse_message ks tag buf = Some (ks', Inr msg)"
  shows "unat (msg_payload_size msg + 4) + 0xc = length buf"
    "msg_payload msg = (if msg_payload_size msg = 0 then None else Some (drop 0x10 buf))"
  using assms
  by (auto simp: takion_parse_message_def TAKION_MESSAGE_HEADER_SIZE_def Let_def case_prod_unfold buf_simps word_gt_0
      split: if_splits)

lemma parsed_size:
  assumes "takion_parse_message ks tag buf = Some (ks', Inr msg)" "length buf = n + 0x10" "n < 2 ^ 15"
  shows "unat (msg_payload_size msg) = n"
proof -
  have u: "unat (msg_payload_size msg + 4) = n + 4" using parsed_payload(1) [OF assms(1)] assms(2) by simp
  have "msg_payload_size msg = (msg_payload_size msg + 4) - 4" by simp
  also have "unat \<dots> = unat (msg_payload_size msg + 4) - 4" using u by (subst unat_sub) (simp_all add: word_le_nat_alt)
  finally show ?thesis using u by simp
qed

lemma parse_returns: "\<exists>ks r. takion_parse_message ks0 tag buf = Some (ks, r)"
  by (auto simp: takion_parse_message_def buf_simps TAKION_MESSAGE_HEADER_SIZE_def Let_def case_prod_unfold)

lemma read_init_ack_returns:
  "length pl = 0x10 + TAKION_COOKIE_SIZE \<Longrightarrow> \<exists>a. read_init_ack pl = Some a \<and> length (ack_cookie a) = TAKION_COOKIE_SIZE"
  by (auto simp: read_init_ack_def buf_simps TAKION_COOKIE_SIZE_def)

lemma init_ack_returns:
  "\<exists>ks r. takion_recv_message_init_ack rx tk = Some (tk\<lparr>tk_key_state := ks\<rparr>, r)
    \<and> r \<noteq> Inl CHIAKI_ERR_SUCCESS \<and> (\<forall>a. r = Inr a \<longrightarrow> length (ack_cookie a) = TAKION_COOKIE_SIZE)"
proof (cases "takion_recv init_ack_size rx")
  case (Inl err)
  have "err \<noteq> CHIAKI_ERR_SUCCESS" using Inl by (auto simp: takion_recv_def split: recv_outcome.splits if_splits)
  then show ?thesis using Inl by (intro exI [of _ "tk_key_state tk"] exI [of _ "Inl err"])
      (simp add: takion_recv_message_init_ack_def)
next
  case (Inr m)
  show ?thesis
  proof (cases "length m < init_ack_size \<or> m ! 0 \<noteq> TAKION_PACKET_TYPE_CONTROL")
    case True
    then have "takion_recv_message_init_ack rx tk = Some (tk, Inl CHIAKI_ERR_INVALID_RESPONSE)"
      using Inr by (auto simp: takion_recv_message_init_ack_def)
    then show ?thesis by (intro exI [of _ "tk_key_state tk"] exI [of _ "Inl CHIAKI_ERR_INVALID_RESPONSE"]) simp
  next
    case False
    then have "length m = init_ack_size" using takion_recv_size [OF Inr] by simp
    then have l: "length (drop 1 m) = (0x10 + TAKION_COOKIE_SIZE) + 0x10"
      by (simp add: init_ack_size_def TAKION_MESSAGE_HEADER_SIZE_def)
    obtain ks r where p: "takion_parse_message (tk_key_state tk) (tk_tag_local tk) (drop 1 m) = Some (ks, r)"
      using parse_returns by blast
    show ?thesis
    proof (cases r)
      case (Inl e)
      then show ?thesis using Inr False p
        by (intro exI [of _ ks] exI [of _ "Inl CHIAKI_ERR_INVALID_RESPONSE"]) (simp add: takion_recv_message_init_ack_def)
    next
      case (Inr msg)
      have s: "unat (msg_payload_size msg) = 0x10 + TAKION_COOKIE_SIZE"
        by (rule parsed_size [OF p [unfolded Inr] l]) (simp add: TAKION_COOKIE_SIZE_def)
      then have "msg_payload_size msg \<noteq> 0" by (auto simp: TAKION_COOKIE_SIZE_def)
      then have pl: "msg_payload msg = Some (drop 0x10 (drop 1 m))"
        using parsed_payload(2) [OF p [unfolded Inr]] by simp
      have "length (drop 0x10 (drop 1 m)) = 0x10 + TAKION_COOKIE_SIZE"
        using l by (subst length_drop) simp
      from read_init_ack_returns [OF this]
      obtain a where a: "read_init_ack (drop 0x10 (drop 1 m)) = Some a" "length (ack_cookie a) = TAKION_COOKIE_SIZE"
        by blast
      define r' where "r' = (if msg_chunk_type msg \<noteq> TAKION_CHUNK_TYPE_INIT_ACK \<or> msg_chunk_flags msg \<noteq> 0
        then Inl CHIAKI_ERR_INVALID_RESPONSE else Inr a)"
      have "takion_recv_message_init_ack rx tk = Some (tk\<lparr>tk_key_state := ks\<rparr>, r')"
        using \<open>takion_recv init_ack_size rx = Inr m\<close> False p Inr s pl a
        by (simp add: takion_recv_message_init_ack_def r'_def)
      then show ?thesis using a(2) by (intro exI [of _ ks] exI [of _ r']) (auto simp: r'_def)
    qed
  qed
qed

lemma cookie_ack_returns:
  assumes "length junk = handshake_message_size"
  shows "\<exists>ks err. takion_recv_message_cookie_ack junk rx rx2 tk = Some (err, tk\<lparr>tk_key_state := ks\<rparr>)"
proof -
  obtain r where r: "cookie_ack_bytes junk rx rx2 = Some r" "\<And>m. r = Inr m \<Longrightarrow> length m \<le> handshake_message_size"
  proof (cases "takion_recv handshake_message_size rx")
    case (Inl err)
    then show thesis using that [of "Inl err"] by (simp add: cookie_ack_bytes_def)
  next
    case (Inr m)
    have m: "length m \<le> handshake_message_size" using takion_recv_size [OF Inr] by simp
    then have "0xd < length (m @ drop (length m) junk)"
      using assms by (simp add: handshake_message_size_def TAKION_MESSAGE_HEADER_SIZE_def)
    then obtain t where t: "rd8 (m @ drop (length m) junk) 0xd = Some t" by (auto simp: rd8_in)
    define r where "r = (if t = TAKION_CHUNK_TYPE_INIT_ACK then takion_recv (length m) rx2 else Inr m)"
    have "length k \<le> handshake_message_size" if "r = Inr k" for k
      using that m takion_recv_size [of "length m" rx2 k] by (auto simp: r_def split: if_splits)
    then show thesis using that [of r] Inr t by (simp add: cookie_ack_bytes_def r_def)
  qed
  show ?thesis
  proof (cases r)
    case (Inl err)
    then show ?thesis using r(1) by (intro exI [of _ "tk_key_state tk"] exI [of _ err])
        (simp add: takion_recv_message_cookie_ack_def)
  next
    case (Inr m)
    show ?thesis
    proof (cases "length m < handshake_message_size \<or> m ! 0 \<noteq> TAKION_PACKET_TYPE_CONTROL")
      case True
      then have "takion_recv_message_cookie_ack junk rx rx2 tk = Some (CHIAKI_ERR_INVALID_RESPONSE, tk)"
        using r(1) Inr by (auto simp: takion_recv_message_cookie_ack_def)
      then show ?thesis by (intro exI [of _ "tk_key_state tk"] exI [of _ CHIAKI_ERR_INVALID_RESPONSE]) simp
    next
      case False
      obtain ks p where p: "takion_parse_message (tk_key_state tk) (tk_tag_local tk) (drop 1 m) = Some (ks, p)"
        using parse_returns by blast
      have l: "length (drop 1 m) = 0 + 0x10"
        using False r(2) [OF Inr] by (simp add: handshake_message_size_def TAKION_MESSAGE_HEADER_SIZE_def)
      have z: "msg_payload_size msg = 0" if "p = Inr msg" for msg
        using parsed_size [OF p [unfolded that] l] by (simp add: unat_eq_zero)
      define err where "err = (case p of Inl _ \<Rightarrow> CHIAKI_ERR_INVALID_RESPONSE
        | Inr msg \<Rightarrow> if msg_chunk_type msg \<noteq> TAKION_CHUNK_TYPE_COOKIE_ACK \<or> msg_chunk_flags msg \<noteq> 0
            then CHIAKI_ERR_INVALID_RESPONSE else CHIAKI_ERR_SUCCESS)"
      have "takion_recv_message_cookie_ack junk rx rx2 tk = Some (err, tk\<lparr>tk_key_state := ks\<rparr>)"
        using False r(1) Inr p z by (cases p) (simp_all add: takion_recv_message_cookie_ack_def err_def)
      then show ?thesis by blast
    qed
  qed
qed

subsection \<open>The tries\<close>

abbreviation sent_more :: "key_state \<Rightarrow> nat \<Rightarrow> bytes \<Rightarrow> takion \<Rightarrow> takion" where
  "sent_more ks i m tk \<equiv> tk\<lparr>tk_key_state := ks, tk_wire := tk_wire tk @ replicate i m\<rparr>"

lemma init_tries_returns:
  "\<exists>i ks r. init_tries H p tries todo err tk
      = Some (sent_more ks i (takion_message_init (tk_tag_remote tk) p) tk, r)
    \<and> i \<le> todo \<and> (r = Inl CHIAKI_ERR_SUCCESS \<longrightarrow> err = CHIAKI_ERR_SUCCESS \<and> todo = 0)
    \<and> (\<forall>a. r = Inr a \<longrightarrow> 0 < i \<and> length (ack_cookie a) = TAKION_COOKIE_SIZE)"
proof (induction H p tries todo err tk rule: init_tries.induct)
  case (1 H p tries err tk)
  then show ?case by (intro exI [of _ 0] exI [of _ "tk_key_state tk"] exI [of _ "Inl err"]) simp
next
  case (2 H p tries todo err tk)
  let ?m = "takion_message_init (tk_tag_remote tk) p"
  show ?case
  proof (cases "he_init_sent H tries")
    case False
    then show ?thesis
      by (intro exI [of _ 0] exI [of _ "tk_key_state tk"] exI [of _ "Inl CHIAKI_ERR_NETWORK"])
        (simp add: takion_send_message_init_def chiaki_takion_send_raw_def)
  next
    case True
    let ?t = "tk\<lparr>tk_wire := tk_wire tk @ [?m]\<rparr>"
    have s: "takion_send_message_init (he_init_sent H tries) tk p = (CHIAKI_ERR_SUCCESS, ?t)"
      using True by (simp add: takion_send_message_init_def chiaki_takion_send_raw_def)
    obtain ks r where r: "takion_recv_message_init_ack (he_init_rx H tries) ?t = Some (?t\<lparr>tk_key_state := ks\<rparr>, r)"
      "r \<noteq> Inl CHIAKI_ERR_SUCCESS" "\<forall>a. r = Inr a \<longrightarrow> length (ack_cookie a) = TAKION_COOKIE_SIZE"
      using init_ack_returns by blast
    show ?thesis
    proof (cases r)
      case (Inr a)
      then show ?thesis using s r by (intro exI [of _ 1] exI [of _ ks] exI [of _ "Inr a"]) simp
    next
      case (Inl e)
      obtain i ks' r' where "init_tries H p (Suc tries) todo e (?t\<lparr>tk_key_state := ks\<rparr>)
          = Some (sent_more ks' i ?m (?t\<lparr>tk_key_state := ks\<rparr>), r')" "i \<le> todo"
        "r' = Inl CHIAKI_ERR_SUCCESS \<longrightarrow> e = CHIAKI_ERR_SUCCESS \<and> todo = 0"
        "\<forall>a. r' = Inr a \<longrightarrow> 0 < i \<and> length (ack_cookie a) = TAKION_COOKIE_SIZE"
        using 2 [OF s [symmetric] _ r(1) refl, of e] Inl by auto
      then show ?thesis using s r(1,2) Inl by (intro exI [of _ "Suc i"] exI [of _ ks'] exI [of _ r']) simp
    qed
  qed
qed

lemma cookie_tries_returns:
  assumes "\<And>i. length (he_junk H i) = handshake_message_size" "length cookie = TAKION_COOKIE_SIZE"
  shows "\<exists>i ks m e. takion_message_cookie (tk_tag_remote tk) cookie = Some m
    \<and> cookie_tries H cookie tries todo err tk = Some (e, sent_more ks i m tk)
    \<and> i \<le> todo \<and> (e = CHIAKI_ERR_SUCCESS \<and> 0 < todo \<longrightarrow> 0 < i)"
  using assms
proof (induction H cookie tries todo err tk rule: cookie_tries.induct)
  case (1 H cookie tries err tk)
  then obtain m where "takion_message_cookie (tk_tag_remote tk) cookie = Some m"
    by (simp add: takion_message_cookie_def buf_simps)
  then show ?case by (intro exI [of _ 0] exI [of _ "tk_key_state tk"] exI [of _ m] exI [of _ err]) simp
next
  case (2 H cookie tries todo err tk)
  then obtain m where m: "takion_message_cookie (tk_tag_remote tk) cookie = Some m"
    by (simp add: takion_message_cookie_def buf_simps)
  show ?case
  proof (cases "he_cookie_sent H tries")
    case False
    then show ?thesis using m
      by (intro exI [of _ 0] exI [of _ "tk_key_state tk"] exI [of _ m] exI [of _ CHIAKI_ERR_NETWORK])
        (simp add: takion_send_message_cookie_def chiaki_takion_send_raw_def)
  next
    case True
    let ?t = "tk\<lparr>tk_wire := tk_wire tk @ [m]\<rparr>"
    have s: "takion_send_message_cookie (he_cookie_sent H tries) tk cookie = Some (CHIAKI_ERR_SUCCESS, ?t)"
      using True m by (simp add: takion_send_message_cookie_def chiaki_takion_send_raw_def)
    obtain ks e where r: "takion_recv_message_cookie_ack (he_junk H tries) (he_cookie_rx H tries) (he_cookie_rx2 H tries) ?t
        = Some (e, ?t\<lparr>tk_key_state := ks\<rparr>)"
      using cookie_ack_returns [OF 2(2)] by blast
    show ?thesis
    proof (cases "e = CHIAKI_ERR_SUCCESS")
      case True
      then show ?thesis using s r m by (intro exI [of _ 1] exI [of _ ks] exI [of _ m] exI [of _ e]) simp
    next
      case False
      obtain i ks' e' where "cookie_tries H cookie (Suc tries) todo e (?t\<lparr>tk_key_state := ks\<rparr>)
          = Some (e', sent_more ks' i m (?t\<lparr>tk_key_state := ks\<rparr>))" "i \<le> todo"
        using 2(1) [OF s refl _ r refl False 2(2,3)] m by auto
      then show ?thesis using s r m False
        by (intro exI [of _ "Suc i"] exI [of _ ks'] exI [of _ m] exI [of _ e']) simp
    qed
  qed
qed

text \<open>C20. The handshake is bounded: whatever the network answers, none of its assertions fails and it returns
  after at most three INIT messages followed by at most three COOKIE messages, and nothing else is sent.
  It succeeds only with both acknowledged, by a peer whose tag is not zero and whose stream counts fit;
  the tag becomes the remote tag and the first sequence number expected.\<close>

theorem takion_handshake_bounded:
  assumes "\<And>i. length (he_junk H i) = handshake_message_size"
  shows "\<exists>i c ks m tag err seq. takion_handshake H tk = Some (err, tk\<lparr>tk_key_state := ks, tk_tag_remote := tag,
        tk_wire := tk_wire tk @ replicate i (takion_message_init (tk_tag_remote tk) (init_payload tk))
          @ replicate c m\<rparr>, seq)
    \<and> i \<le> 3 \<and> c \<le> 3 \<and> (0 < c \<longrightarrow> (\<exists>cookie. takion_message_cookie tag cookie = Some m))
    \<and> (err = CHIAKI_ERR_SUCCESS \<longrightarrow> 0 < i \<and> 0 < c \<and> tag \<noteq> 0 \<and> seq = Some tag
        \<and> (\<exists>tk' a. init_tries H (init_payload tk) 0 3 CHIAKI_ERR_SUCCESS tk = Some (tk', Inr a)
              \<and> ack_tag a = tag \<and> streams_ok a))"
proof -
  let ?init = "takion_message_init (tk_tag_remote tk) (init_payload tk)"
  obtain i ks r where r: "init_tries H (init_payload tk) 0 3 CHIAKI_ERR_SUCCESS tk = Some (sent_more ks i ?init tk, r)"
    "i \<le> 3" "r \<noteq> Inl CHIAKI_ERR_SUCCESS" "\<forall>a. r = Inr a \<longrightarrow> 0 < i \<and> length (ack_cookie a) = TAKION_COOKIE_SIZE"
    using init_tries_returns [of H "init_payload tk" 0 3 CHIAKI_ERR_SUCCESS tk] by fastforce
  show ?thesis
  proof (cases "\<exists>a. r = Inr a \<and> ack_tag a \<noteq> 0 \<and> streams_ok a")
    case False
    define out where "out = (case r of Inl err \<Rightarrow> (err, tk_tag_remote tk, None)
      | Inr a \<Rightarrow> if ack_tag a = 0 then (CHIAKI_ERR_INVALID_RESPONSE, tk_tag_remote tk, None)
          else (CHIAKI_ERR_INVALID_RESPONSE, ack_tag a, Some (ack_tag a)))"
    have "takion_handshake H tk = Some (fst out,
        tk\<lparr>tk_key_state := ks, tk_tag_remote := fst (snd out), tk_wire := tk_wire tk @ replicate i ?init\<rparr>, snd (snd out))"
      using r(1) False by (cases r) (auto simp: takion_handshake_def MAX_CONNECT_RESEND_TRIES_def Let_def out_def)
    moreover have "fst out \<noteq> CHIAKI_ERR_SUCCESS" using r(3) by (cases r) (simp_all add: out_def)
    ultimately obtain tag err seq where "takion_handshake H tk
        = Some (err, tk\<lparr>tk_key_state := ks, tk_tag_remote := tag, tk_wire := tk_wire tk @ replicate i ?init\<rparr>, seq)"
      "err \<noteq> CHIAKI_ERR_SUCCESS" by blast
    then show ?thesis using r(2)
      by (intro exI [of _ i] exI [of _ 0] exI [of _ ks] exI [of _ "[]"] exI [of _ tag] exI [of _ err] exI [of _ seq]) simp
  next
    case True
    then obtain a where a: "r = Inr a" "ack_tag a \<noteq> 0" "streams_ok a" by blast
    let ?t = "(sent_more ks i ?init tk)\<lparr>tk_tag_remote := ack_tag a\<rparr>"
    have cookie: "length (ack_cookie a) = TAKION_COOKIE_SIZE" "0 < i" using r(4) a(1) by simp_all
    obtain c ks' m e where c: "takion_message_cookie (tk_tag_remote ?t) (ack_cookie a) = Some m"
      "cookie_tries H (ack_cookie a) 0 3 CHIAKI_ERR_SUCCESS ?t = Some (e, sent_more ks' c m ?t)"
      "c \<le> 3" "e = CHIAKI_ERR_SUCCESS \<and> 0 < (3::nat) \<longrightarrow> 0 < c"
      using cookie_tries_returns [OF assms cookie(1), where tk = ?t and tries = 0 and todo = 3 and err = CHIAKI_ERR_SUCCESS]
      by blast
    have "takion_handshake H tk = Some (e, sent_more ks' c m ?t, Some (ack_tag a))"
      using r(1) a c(2) by (simp add: takion_handshake_def MAX_CONNECT_RESEND_TRIES_def Let_def)
    then show ?thesis using r(1,2) a c cookie(2)
      by (intro exI [of _ i] exI [of _ c] exI [of _ ks'] exI [of _ m] exI [of _ "ack_tag a"] exI [of _ e]
          exI [of _ "Some (ack_tag a)"]) auto
  qed
qed

text \<open>A network that answers nothing.\<close>

definition silent_network :: handshake_env where
  "silent_network = \<lparr>he_init_sent = (\<lambda>_. True), he_init_rx = (\<lambda>_. Rx_Select CHIAKI_ERR_TIMEOUT),
     he_cookie_sent = (\<lambda>_. True), he_cookie_rx = (\<lambda>_. Rx_Failed), he_cookie_rx2 = (\<lambda>_. Rx_Failed),
     he_junk = (\<lambda>_. replicate handshake_message_size 0)\<rparr>"

lemma takion_handshake_bounded_witness:
  "\<exists>i c m tk' err seq. takion_handshake silent_network (example_takion None None 1 0) = Some (err, tk', seq)
    \<and> tk_wire tk' = replicate i (takion_message_init 0 (init_payload (example_takion None None 1 0))) @ replicate c m
    \<and> i \<le> 3 \<and> c \<le> 3"
proof -
  have "length (he_junk silent_network i) = handshake_message_size" for i by (simp add: silent_network_def)
  from takion_handshake_bounded [OF this, of "example_takion None None 1 0"] show ?thesis
    by (fastforce simp: example_takion_def)
qed

subsection \<open>Connecting\<close>

definition version_ok :: "u8 \<Rightarrow> bool" where
  "version_ok v \<longleftrightarrow> v = 7 \<or> v = 9 \<or> v = 12"

definition connection_parts :: "takion_resource list" where
  "connection_parts = [Tr_Gkcrypt_Mutex, Tr_Seq_Num_Mutex, Tr_Stop_Pipe, Tr_Sock]"

lemmas connect_labels = error_sock_def error_pipe_def error_seq_num_local_mutex_def
  error_gkcrypt_local_mutex_def release_def

lemma takion_cleanup_labels:
  "error_gkcrypt_local_mutex ret [Tr_Gkcrypt_Mutex] = Some (ret, [])"
  "error_seq_num_local_mutex ret [Tr_Gkcrypt_Mutex, Tr_Seq_Num_Mutex] = Some (ret, [])"
  "error_pipe ret [Tr_Gkcrypt_Mutex, Tr_Seq_Num_Mutex, Tr_Stop_Pipe] = Some (ret, [])"
  "error_sock ret [Tr_Gkcrypt_Mutex, Tr_Seq_Num_Mutex, Tr_Stop_Pipe, Tr_Sock] = Some (ret, [])"
  by (simp_all add: connect_labels)

lemma takion_close_parts:
  "chiaki_takion_close (connection_parts @ [Tr_Thread]) = Some [Tr_Sock]"
  "chiaki_takion_close connection_parts = None" "chiaki_takion_close [] = None"
  by (simp_all add: chiaki_takion_close_def connection_parts_def release_def)

text \<open>The calls that fail without \<open>ret\<close> being assigned.\<close>

definition fails_silently :: "connect_env \<Rightarrow> bool" where
  "fails_silently C \<longleftrightarrow> ce_gkcrypt_mutex C = CHIAKI_ERR_SUCCESS \<and> ce_seq_num_mutex C = CHIAKI_ERR_SUCCESS
     \<and> (ce_stop_pipe C \<noteq> CHIAKI_ERR_SUCCESS
        \<or> ce_sock_given C \<and> ce_extra C \<notin> {CHIAKI_ERR_SUCCESS, CHIAKI_ERR_TIMEOUT}
        \<or> \<not> ce_sock_given C \<and> ce_socket C \<and> ce_rcvbuf C \<and> ce_dontfrag C \<and> 0 < ce_connect C)"

text \<open>C21. The exits of connecting, for every outcome of every call.  Each cleanup label releases only what
  is held when the code jumps to it, and all of it: on an error nothing is left, and otherwise the two
  locks, the stop pipe and the socket exist, and the thread if it could be made.  But the call also reports
  success with nothing set up at all when the stop pipe cannot be made or a socket handed in cannot be
  drained, and with everything but the thread when that cannot be made; \<open>chiaki_takion_close\<close> then joins
  or finalises what does not exist, while after a real success it leaves only the socket, which is the
  thread's to close.\<close>

theorem takion_connect_exits:
  assumes "version_ok v"
  shows "\<exists>err held. chiaki_takion_connect v C = Some (err, held)
    \<and> (err \<noteq> CHIAKI_ERR_SUCCESS \<longrightarrow> held = [])
    \<and> (err = CHIAKI_ERR_SUCCESS \<and> held = [] \<longleftrightarrow> fails_silently C)
    \<and> (held \<noteq> [] \<longrightarrow> held = connection_parts @ (if ce_thread C = CHIAKI_ERR_SUCCESS then [Tr_Thread] else []))
    \<and> (err = CHIAKI_ERR_SUCCESS \<longrightarrow>
        chiaki_takion_close held = (if Tr_Thread \<in> set held then Some [Tr_Sock] else None))"
proof -
  note close = takion_close_parts [unfolded connection_parts_def, simplified]
  have v: "\<not> (v \<noteq> 7 \<and> v \<noteq> 9 \<and> v \<noteq> 12)" using assms by (auto simp: version_ok_def)
  show ?thesis
    unfolding chiaki_takion_connect_def if_not_P [OF v] Let_def takion_connect_thread_def
    by (auto simp: takion_cleanup_labels fails_silently_def connection_parts_def close)
qed

lemma takion_connect_exits_witness:
  "let C = \<lparr>ce_gkcrypt_mutex = CHIAKI_ERR_SUCCESS, ce_seq_num_mutex = CHIAKI_ERR_SUCCESS,
       ce_stop_pipe = CHIAKI_ERR_MEMORY, ce_sock_given = False, ce_extra = CHIAKI_ERR_SUCCESS, ce_socket = True,
       ce_rcvbuf = True, ce_dontfrag = True, ce_connect = 0, ce_thread = CHIAKI_ERR_SUCCESS\<rparr>
   in chiaki_takion_connect 12 C = Some (CHIAKI_ERR_SUCCESS, []) \<and> chiaki_takion_close [] = None"
proof -
  let ?C = "\<lparr>ce_gkcrypt_mutex = CHIAKI_ERR_SUCCESS, ce_seq_num_mutex = CHIAKI_ERR_SUCCESS,
       ce_stop_pipe = CHIAKI_ERR_MEMORY, ce_sock_given = False, ce_extra = CHIAKI_ERR_SUCCESS, ce_socket = True,
       ce_rcvbuf = True, ce_dontfrag = True, ce_connect = 0, ce_thread = CHIAKI_ERR_SUCCESS\<rparr>"
  have "fails_silently ?C" "version_ok 12" by (simp_all add: fails_silently_def version_ok_def)
  then show ?thesis
    unfolding Let_def using takion_connect_exits [of 12 ?C] by auto
qed

end
