(* ===== verification/FeedbackSender.thy ===== *)
theory FeedbackSender
  imports Feedback
begin

text \<open>
  \<^verbatim>\<open>lib/src/feedbacksender.c\<close>: every change of the controller state is recorded as history events,
  formatted into a packet and queued; a thread sends the queued packets and the state.

  The thread drops its lock while it sends; its round is therefore two operations, \<open>pick\<close> under the
  first lock and \<open>commit\<close> under the second, and other calls may come between.  What it hands to Takion
  is the result of \<open>pick\<close>.  A freshly declared event has indeterminate bytes; only the bytes a setter
  writes are ever read, so \<open>blank_event\<close> stands for it.
\<close>

definition FEEDBACK_STATE_TIMEOUT_MAX_MS :: u64 where "FEEDBACK_STATE_TIMEOUT_MAX_MS = 200"
definition FEEDBACK_HISTORY_BUFFER_SIZE :: nat where "FEEDBACK_HISTORY_BUFFER_SIZE = 0x10"
definition FEEDBACK_HISTORY_RESEND_EVENT_COUNT :: nat where "FEEDBACK_HISTORY_RESEND_EVENT_COUNT = 0x4"
definition CHIAKI_FEEDBACK_HISTORY_PACKET_BUF_SIZE :: nat where "CHIAKI_FEEDBACK_HISTORY_PACKET_BUF_SIZE = 0x300"
definition CHIAKI_FEEDBACK_HISTORY_PACKET_QUEUE_SIZE :: nat where "CHIAKI_FEEDBACK_HISTORY_PACKET_QUEUE_SIZE = 0x40"

lemmas fb_const_defs = FEEDBACK_HISTORY_BUFFER_SIZE_def FEEDBACK_HISTORY_RESEND_EVENT_COUNT_def
  CHIAKI_FEEDBACK_HISTORY_PACKET_BUF_SIZE_def CHIAKI_FEEDBACK_HISTORY_PACKET_QUEUE_SIZE_def

record 'f feedback_sender =
  fb_state_seq_num :: u16
  fb_history_seq_num :: u16
  fb_history_buf :: history_buffer
  fb_packets :: "bytes list"
  fb_packet_sizes :: "nat list"
  fb_packet_begin :: nat
  fb_packet_len :: nat
  fb_should_stop :: bool
  fb_state_prev :: "'f controller_state"
  fb_state_history_prev :: "'f controller_state"
  fb_state :: "'f controller_state"
  fb_state_changed :: bool
  fb_history_dirty :: bool

text \<open>The arrays of packets are part of the structure; their initial bytes are arbitrary.\<close>

definition chiaki_feedback_sender_init ::
    "'f float_ops \<Rightarrow> bool \<Rightarrow> chiaki_error \<Rightarrow> chiaki_error \<Rightarrow> chiaki_error \<Rightarrow> bytes list \<Rightarrow> nat list \<Rightarrow>
     chiaki_error + 'f feedback_sender" where
  "chiaki_feedback_sender_init F alloc mutex cond thread packets sizes =
     (case chiaki_feedback_history_buffer_init alloc FEEDBACK_HISTORY_BUFFER_SIZE of
        Inl err \<Rightarrow> Inl err
      | Inr hb \<Rightarrow>
          if mutex \<noteq> CHIAKI_ERR_SUCCESS then Inl mutex
          else if cond \<noteq> CHIAKI_ERR_SUCCESS then Inl cond
          else if thread \<noteq> CHIAKI_ERR_SUCCESS then Inl thread
          else Inr \<lparr>fb_state_seq_num = 0, fb_history_seq_num = 0, fb_history_buf = hb,
                 fb_packets = packets, fb_packet_sizes = sizes, fb_packet_begin = 0, fb_packet_len = 0,
                 fb_should_stop = False, fb_state_prev = chiaki_controller_state_set_idle F,
                 fb_state_history_prev = chiaki_controller_state_set_idle F,
                 fb_state = chiaki_controller_state_set_idle F, fb_state_changed = False,
                 fb_history_dirty = False\<rparr>)"

subsection \<open>Recording\<close>

definition touch_event :: "controller_touch \<Rightarrow> controller_touch \<Rightarrow> history_event option" where
  "touch_event prev now =
     (if tc_id prev \<noteq> tc_id now \<and> touch_down prev
      then Some (chiaki_feedback_history_event_set_touchpad False (tc_id prev) (tc_x prev) (tc_y prev))
      else if touch_down now \<and> (tc_id prev \<noteq> tc_id now \<or> tc_x prev \<noteq> tc_x now \<or> tc_y prev \<noteq> tc_y now)
      then Some (chiaki_feedback_history_event_set_touchpad True (tc_id now) (tc_x now) (tc_y now))
      else None)"

definition set_button_event :: "u64 \<Rightarrow> u8 \<Rightarrow> history_event option" where
  "set_button_event button state =
     (case chiaki_feedback_history_event_set_button blank_event button state of
        (err, ev) \<Rightarrow> if err = CHIAKI_ERR_SUCCESS then Some ev else None)"

definition button_event :: "u32 \<Rightarrow> u32 \<Rightarrow> nat \<Rightarrow> history_event option" where
  "button_event buttons_prev buttons_now i =
     (let button_id = push_bit i 1 :: u64;
          prev = ((ucast buttons_prev :: u64) AND button_id \<noteq> 0);
          now = ((ucast buttons_now :: u64) AND button_id \<noteq> 0)
      in if prev \<noteq> now then set_button_event button_id (if now then 0xff else 0) else None)"

definition trigger_event :: "u64 \<Rightarrow> u8 \<Rightarrow> u8 \<Rightarrow> history_event option" where
  "trigger_event button prev now = (if prev \<noteq> now then set_button_event button now else None)"

text \<open>The events of a change, in the order in which they are pushed.\<close>

definition history_events :: "'f controller_state \<Rightarrow> 'f controller_state \<Rightarrow> history_event list" where
  "history_events prev now = List.map_filter (\<lambda>x. x) (
     map2 touch_event (cs_touches prev) (cs_touches now)
     @ map (button_event (cs_buttons prev) (cs_buttons now)) [0..<CHIAKI_CONTROLLER_BUTTONS_COUNT]
     @ [trigger_event (2 ^ 16) (cs_l2_state prev) (cs_l2_state now),
        trigger_event (2 ^ 17) (cs_r2_state prev) (cs_r2_state now)])"

fun push_events :: "history_buffer \<Rightarrow> history_event list \<Rightarrow> history_buffer option" where
  "push_events hb [] = Some hb"
| "push_events hb (ev # evs) = do { hb \<leftarrow> chiaki_feedback_history_buffer_push hb ev; push_events hb evs }"

definition feedback_sender_record_history ::
    "'f feedback_sender \<Rightarrow> 'f controller_state \<Rightarrow> 'f controller_state \<Rightarrow> 'f feedback_sender option" where
  "feedback_sender_record_history fs prev now =
     (let evs = history_events prev now in do {
        hb \<leftarrow> push_events (fb_history_buf fs) evs;
        Some (fs\<lparr>fb_history_buf := hb, fb_history_dirty := (fb_history_dirty fs \<or> evs \<noteq> [])\<rparr>) })"

definition feedback_sender_flush_history_locked :: "'f feedback_sender \<Rightarrow> 'f feedback_sender option" where
  "feedback_sender_flush_history_locked fs =
     (if \<not> fb_history_dirty fs then Some fs
      else let packet_index = (fb_packet_begin fs + fb_packet_len fs) mod CHIAKI_FEEDBACK_HISTORY_PACKET_QUEUE_SIZE
      in case chiaki_feedback_history_buffer_format (fb_history_buf fs) CHIAKI_FEEDBACK_HISTORY_PACKET_BUF_SIZE of
           None \<Rightarrow> None
         | Some (Inl err) \<Rightarrow> Some fs
         | Some (Inr b) \<Rightarrow> do {
             p \<leftarrow> rd8 (fb_packets fs) packet_index;
             p \<leftarrow> wr_slice p 0 b;
             packets \<leftarrow> wr8 (fb_packets fs) packet_index p;
             let fs = fs\<lparr>fb_packets := packets\<rparr>;
             fs \<leftarrow> (if fb_packet_len fs < CHIAKI_FEEDBACK_HISTORY_PACKET_QUEUE_SIZE
               then do {
                 sizes \<leftarrow> wr8 (fb_packet_sizes fs) packet_index (length b);
                 Some (fs\<lparr>fb_packet_sizes := sizes, fb_packet_len := fb_packet_len fs + 1\<rparr>) }
               else do {
                 sizes \<leftarrow> wr8 (fb_packet_sizes fs) (fb_packet_begin fs) (length b);
                 src \<leftarrow> rd8 packets packet_index;
                 src \<leftarrow> rd_slice src 0 (length b);
                 dst \<leftarrow> rd8 packets (fb_packet_begin fs);
                 dst \<leftarrow> wr_slice dst 0 src;
                 packets \<leftarrow> wr8 packets (fb_packet_begin fs) dst;
                 Some (fs\<lparr>fb_packet_sizes := sizes, fb_packets := packets,
                          fb_packet_begin := (fb_packet_begin fs + 1)
                            mod CHIAKI_FEEDBACK_HISTORY_PACKET_QUEUE_SIZE\<rparr>) });
             let hb = fb_history_buf fs;
             Some (fs\<lparr>fb_history_buf := (if FEEDBACK_HISTORY_RESEND_EVENT_COUNT < hb_len hb
                        then hb\<lparr>hb_len := FEEDBACK_HISTORY_RESEND_EVENT_COUNT\<rparr> else hb),
                      fb_history_dirty := False\<rparr>) })"

text \<open>The flag of the result is whether the condition variable is signalled.\<close>

definition chiaki_feedback_sender_set_controller_state ::
    "chiaki_error \<Rightarrow> 'f float_ops \<Rightarrow> 'f feedback_sender \<Rightarrow> 'f controller_state \<Rightarrow>
     (chiaki_error \<times> bool \<times> 'f feedback_sender) option" where
  "chiaki_feedback_sender_set_controller_state lk F fs state =
     (if lk \<noteq> CHIAKI_ERR_SUCCESS then Some (lk, False, fs)
      else if chiaki_controller_state_equals F (fb_state fs) state then Some (CHIAKI_ERR_SUCCESS, False, fs)
      else do {
        let fs = fs\<lparr>fb_state := state\<rparr>;
        fs \<leftarrow> feedback_sender_record_history fs (fb_state_history_prev fs) (fb_state fs);
        fs \<leftarrow> feedback_sender_flush_history_locked fs;
        Some (CHIAKI_ERR_SUCCESS, True,
              fs\<lparr>fb_state_history_prev := fb_state fs, fb_state_changed := True\<rparr>) })"

subsection \<open>The thread\<close>

definition controller_state_equals_for_feedback_state ::
    "'f float_ops \<Rightarrow> 'f controller_state \<Rightarrow> 'f controller_state \<Rightarrow> bool" where
  "controller_state_equals_for_feedback_state F a b \<longleftrightarrow>
     sticks_equal a b \<and> motion_near F (cs_motion a) (cs_motion b)"

definition feedback_next_timeout :: "u64 \<Rightarrow> u64 \<Rightarrow> u64" where
  "feedback_next_timeout now_ms last_ms =
     (if now_ms - last_ms < FEEDBACK_STATE_TIMEOUT_MAX_MS
      then FEEDBACK_STATE_TIMEOUT_MAX_MS - (now_ms - last_ms) else FEEDBACK_STATE_TIMEOUT_MAX_MS)"

definition state_cond_check :: "'f feedback_sender \<Rightarrow> bool" where
  "state_cond_check fs = (fb_should_stop fs \<or> fb_state_changed fs)"

definition feedback_state_of :: "'f controller_state \<Rightarrow> 'f feedback_state" where
  "feedback_state_of st = \<lparr>fs_motion = cs_motion st, fs_left_x = cs_left_x st, fs_left_y = cs_left_y st,
     fs_right_x = cs_right_x st, fs_right_y = cs_right_y st\<rparr>"

record 'f feedback_pick =
  pk_go_on :: bool
  pk_sender :: "'f feedback_sender"
  pk_state_now :: "'f controller_state"
  pk_state :: "(u16 \<times> 'f feedback_state) option"
  pk_history :: "(u16 \<times> bytes) option"

text \<open>A round starts with a timed wait, which drops the lock, if \<open>history_packet_len\<close> is 0 at that time;
  otherwise the thread does not wait.  \<open>wait\<close> is what the wait returned, \<open>None\<close> when there was none; \<open>fs\<close> is
  the sender found after it, in which packets may have been queued meanwhile.\<close>

definition wait_failed :: "chiaki_error option \<Rightarrow> bool" where
  "wait_failed wait = (case wait of None \<Rightarrow> False
     | Some err \<Rightarrow> err \<noteq> CHIAKI_ERR_SUCCESS \<and> err \<noteq> CHIAKI_ERR_TIMEOUT)"

definition feedback_sender_pick ::
    "'f float_ops \<Rightarrow> chiaki_error option \<Rightarrow> u64 \<Rightarrow> u64 \<Rightarrow> 'f feedback_sender \<Rightarrow> 'f feedback_pick option" where
  "feedback_sender_pick F wait now_ms last_ms fs =
     (if wait_failed wait \<or> fb_should_stop fs
      then Some \<lparr>pk_go_on = False, pk_sender = fs, pk_state_now = fb_state fs, pk_state = None, pk_history = None\<rparr>
      else
        let state_now = fb_state fs;
            send_state = (if fb_state_changed fs
              then \<not> controller_state_equals_for_feedback_state F state_now (fb_state_prev fs)
              else FEEDBACK_STATE_TIMEOUT_MAX_MS \<le> now_ms - last_ms);
            fs = fs\<lparr>fb_state_changed := False\<rparr>
        in do {
          (fs, hist) \<leftarrow> (if 0 < fb_packet_len fs then do {
              n \<leftarrow> rd8 (fb_packet_sizes fs) (fb_packet_begin fs);
              p \<leftarrow> rd8 (fb_packets fs) (fb_packet_begin fs);
              b \<leftarrow> rd_slice p 0 n;
              _ \<leftarrow> wr_slice (replicate CHIAKI_FEEDBACK_HISTORY_PACKET_BUF_SIZE (0 :: u8)) 0 b;
              Some (fs\<lparr>fb_packet_begin := (fb_packet_begin fs + 1) mod CHIAKI_FEEDBACK_HISTORY_PACKET_QUEUE_SIZE,
                       fb_packet_len := fb_packet_len fs - 1,
                       fb_history_seq_num := fb_history_seq_num fs + 1\<rparr>,
                    Some (fb_history_seq_num fs, b)) }
            else Some (fs, None));
          Some \<lparr>pk_go_on = True,
            pk_sender = (if send_state then fs\<lparr>fb_state_seq_num := fb_state_seq_num fs + 1\<rparr> else fs),
            pk_state_now = state_now,
            pk_state = (if send_state then Some (fb_state_seq_num fs, feedback_state_of state_now) else None),
            pk_history = hist\<rparr> })"

text \<open>After the sends: the state sent is remembered; the second component is the time of the last one.\<close>

definition feedback_sender_commit ::
    "chiaki_error \<Rightarrow> u64 \<Rightarrow> u64 \<Rightarrow> 'f controller_state \<Rightarrow> bool \<Rightarrow> 'f feedback_sender \<Rightarrow>
     ('f feedback_sender \<times> u64) option" where
  "feedback_sender_commit lk now_ms last_ms state_now sent fs =
     (if lk \<noteq> CHIAKI_ERR_SUCCESS then None
      else if sent then Some (fs\<lparr>fb_state_prev := state_now\<rparr>, now_ms) else Some (fs, last_ms))"

definition chiaki_feedback_sender_fini :: "'f feedback_sender \<Rightarrow> 'f feedback_sender \<times> history_event list" where
  "chiaki_feedback_sender_fini fs = (fs\<lparr>fb_should_stop := True\<rparr>, hb_events (fb_history_buf fs))"

end
