(* ===== verification/FeedbackSenderProps.thy ===== *)
theory FeedbackSenderProps
  imports FeedbackSender
begin

text \<open>
  The feedback sender refines a queue of packets: every change of the controller that makes events
  appends one packet holding the new events and up to four earlier ones, newest first, dropping the
  oldest packet when 64 are waiting; the thread sends the packets in order, numbered from zero.
\<close>

subsection \<open>The packet queue\<close>

definition fs_queue :: "'f feedback_sender \<Rightarrow> bytes list" where
  "fs_queue fs = map (\<lambda>i. take (fb_packet_sizes fs ! ((fb_packet_begin fs + i) mod 64))
                        (fb_packets fs ! ((fb_packet_begin fs + i) mod 64))) [0..<fb_packet_len fs]"

definition fs_inv :: "'f feedback_sender \<Rightarrow> bool" where
  "fs_inv fs \<longleftrightarrow> hb_ok (fb_history_buf fs) \<and> hb_size (fb_history_buf fs) = FEEDBACK_HISTORY_BUFFER_SIZE
     \<and> hb_len (fb_history_buf fs) \<le> FEEDBACK_HISTORY_RESEND_EVENT_COUNT
     \<and> (\<forall>ev \<in> set (hb_list (fb_history_buf fs)). he_ok ev)
     \<and> \<not> fb_history_dirty fs
     \<and> length (fb_packets fs) = 64 \<and> (\<forall>p \<in> set (fb_packets fs). length p = 0x300)
     \<and> length (fb_packet_sizes fs) = 64 \<and> fb_packet_begin fs < 64 \<and> fb_packet_len fs \<le> 64
     \<and> (\<forall>i < fb_packet_len fs. fb_packet_sizes fs ! ((fb_packet_begin fs + i) mod 64) \<le> 0x300)"

lemma fs_invI:
  assumes "hb_ok hb \<and> hb_size hb = FEEDBACK_HISTORY_BUFFER_SIZE
      \<and> hb_len hb \<le> FEEDBACK_HISTORY_RESEND_EVENT_COUNT \<and> (\<forall>ev \<in> set (hb_list hb). he_ok ev)"
    and "fb_history_buf fs = hb" "\<not> fb_history_dirty fs" "length (fb_packets fs) = 64"
    and "\<forall>p \<in> set (fb_packets fs). length p = 0x300"
    and "length (fb_packet_sizes fs) = 64" "fb_packet_begin fs < 64" "fb_packet_len fs \<le> 64"
    and "\<forall>i < fb_packet_len fs. fb_packet_sizes fs ! ((fb_packet_begin fs + i) mod 64) \<le> 0x300"
  shows "fs_inv fs"
  using assms unfolding fs_inv_def by blast

lemma length_fs_queue [simp]: "length (fs_queue fs) = fb_packet_len fs"
  by (simp add: fs_queue_def)

lemma ring_ne: "(b :: nat) < n \<Longrightarrow> i < l \<Longrightarrow> l < n \<Longrightarrow> (b + i) mod n \<noteq> (b + l) mod n"
proof
  assume b: "b < n" "i < l" "l < n" and e: "(b + i) mod n = (b + l) mod n"
  have "n dvd (b + l) - (b + i)"
    using e b by (intro mod_eq_dvd_iff_nat [THEN iffD1]) simp_all
  then show False using b by (auto dest: dvd_imp_le)
qed

text \<open>What flushing does to the queue: append, or rotate when it is full.\<close>

definition queue_add :: "bytes list \<Rightarrow> bytes \<Rightarrow> bytes list" where
  "queue_add q p = (if length q < CHIAKI_FEEDBACK_HISTORY_PACKET_QUEUE_SIZE then q @ [p] else tl q @ [p])"

lemma queue_append:
  assumes "length ps = (64 :: nat)" "length ss = 64" "b < 64" "l < 64" "length p = n" "n \<le> length old"
    "fb_packets fs = ps[(b + l) mod 64 := p @ drop n old]" "fb_packet_sizes fs = ss[(b + l) mod 64 := n]"
    "fb_packet_begin fs = b" "fb_packet_len fs = Suc l"
  shows "fs_queue fs = map (\<lambda>i. take (ss ! ((b + i) mod 64)) (ps ! ((b + i) mod 64))) [0..<l] @ [p]"
proof -
  have "(b + l) mod 64 \<noteq> (b + i) mod 64" if "i < l" for i using ring_ne [OF assms(3) that assms(4)] by simp
  then show ?thesis using assms by (simp add: fs_queue_def)
qed

lemma queue_rotate:
  assumes "length ps = (64 :: nat)" "length ss = 64" "b < 64" "length p = n" "n \<le> length old"
    "fb_packets fs = ps[b := p @ drop n old]" "fb_packet_sizes fs = ss[b := n]"
    "fb_packet_begin fs = (b + 1) mod 64" "fb_packet_len fs = 64"
  shows "fs_queue fs = tl (map (\<lambda>i. take (ss ! ((b + i) mod 64)) (ps ! ((b + i) mod 64))) [0..<64]) @ [p]"
proof (rule nth_equalityI)
  fix i assume "i < length (fs_queue fs)"
  then have i: "i < 64" using assms(9) by simp
  have e: "((b + 1) mod 64 + i) mod 64 = (b + Suc i) mod 64" by (simp add: mod_add_left_eq)
  show "fs_queue fs ! i = (tl (map (\<lambda>i. take (ss ! ((b + i) mod 64)) (ps ! ((b + i) mod 64))) [0..<64]) @ [p]) ! i"
  proof (cases "i < 63")
    case True
    have "(b + 0) mod 64 \<noteq> (b + Suc i) mod 64" by (rule ring_ne) (use assms(3) True in simp_all)
    then have "(b + Suc i) mod 64 \<noteq> b" using assms(3) by simp
    then show ?thesis using assms True i unfolding fs_queue_def assms(6-9)
      by (simp add: nth_append nth_tl e [simplified])
  next
    case False
    then have "i = 63" using i by simp
    moreover have "((b + 1) mod 64 + 63) mod 64 = (b + 1 + 63) mod 64" by (rule mod_add_left_eq)
    then have "((b + 1) mod 64 + 63) mod 64 = b" using assms(3) by simp
    ultimately show ?thesis using assms i unfolding fs_queue_def assms(6-9)
      by (simp add: nth_append)
  qed
qed (use assms in simp)

subsection \<open>Recording and flushing\<close>

lemma set_filter_Some: "set (List.map_filter (\<lambda>x. x) xs) = {y. Some y \<in> set xs}"
  by (force simp: map_filter_def)

lemma history_events_ok: "\<forall>ev \<in> set (history_events prev now). he_ok ev"
proof -
  have "he_ok ev" if "set_button_event b s = Some ev" for b s ev
    using that set_button_ok [of blank_event b s]
    by (auto simp: set_button_event_def blank_event_def CHIAKI_HISTORY_EVENT_SIZE_MAX_def
        split: prod.splits if_splits)
  moreover have "he_ok ev" if "touch_event a b = Some ev" for a b ev
    using that by (auto simp: touch_event_def set_touchpad_ok split: if_splits)
  ultimately show ?thesis
    by (auto simp: history_events_def set_filter_Some button_event_def trigger_event_def Let_def split: if_splits)
qed

lemma push_events_list:
  "hb_ok hb \<Longrightarrow> \<exists>hb'. push_events hb evs = Some hb' \<and> hb_ok hb' \<and> hb_size hb' = hb_size hb
     \<and> hb_list hb' = take (hb_size hb) (rev evs @ hb_list hb)"
proof (induction evs arbitrary: hb)
  case Nil
  then have "length (hb_list hb) \<le> hb_size hb" by (simp add: hb_ok_def)
  then show ?case using Nil by simp
next
  case (Cons ev evs)
  obtain h1 where h1: "chiaki_feedback_history_buffer_push hb ev = Some h1" "hb_ok h1"
      "hb_size h1 = hb_size hb" "hb_list h1 = take (hb_size hb) (ev # hb_list hb)"
    using history_push_list [OF Cons.prems] by blast
  have tk: "take n (xs @ take n ys) = take n (xs @ ys)" for n and xs ys :: "history_event list"
    by (simp add: min_def)
  show ?case using Cons.IH [OF h1(2)] h1 tk [of "hb_size hb" "rev evs" "ev # hb_list hb"] by auto
qed

text \<open>The packet of a change: new events and the four before them, newest first, at most 16 in all.\<close>

definition packet_events :: "history_event list \<Rightarrow> history_event list \<Rightarrow> history_event list" where
  "packet_events recent evs = take FEEDBACK_HISTORY_BUFFER_SIZE (rev evs @ recent)"

definition events_packet :: "history_event list \<Rightarrow> bytes" where
  "events_packet evs = concat (map he_bytes evs)"

lemma events_packet_length: "\<forall>ev \<in> set evs. he_ok ev \<Longrightarrow> length (events_packet evs) \<le> 5 * length evs"
  by (induction evs) (auto simp: events_packet_def he_ok_def he_bytes_def CHIAKI_HISTORY_EVENT_SIZE_MAX_def)

lemma hb_list_cut:
  "n \<le> hb_len hb \<Longrightarrow> hb_list (hb\<lparr>hb_len := n\<rparr>) = take n (hb_list hb)"
  by (simp add: hb_list_def take_map)

definition fs_recent :: "'f feedback_sender \<Rightarrow> history_event list" where
  "fs_recent fs = hb_list (fb_history_buf fs)"

lemma flush_dirty:
  assumes "hb_ok (fb_history_buf fs)" "hb_size (fb_history_buf fs) = FEEDBACK_HISTORY_BUFFER_SIZE"
    and "\<forall>ev \<in> set (fs_recent fs). he_ok ev" and dirty: "fb_history_dirty fs"
    and pk: "length (fb_packets fs) = 64" "\<forall>p \<in> set (fb_packets fs). length p = 0x300"
      "length (fb_packet_sizes fs) = 64" "fb_packet_begin fs < 64" "fb_packet_len fs \<le> 64"
      "\<forall>i < fb_packet_len fs. fb_packet_sizes fs ! ((fb_packet_begin fs + i) mod 64) \<le> 0x300"
  shows "\<exists>fs'. feedback_sender_flush_history_locked fs = Some fs' \<and> fs_inv fs'
    \<and> fs_queue fs' = queue_add (fs_queue fs) (events_packet (fs_recent fs))
    \<and> fs_recent fs' = take FEEDBACK_HISTORY_RESEND_EVENT_COUNT (fs_recent fs)
    \<and> fb_state fs' = fb_state fs \<and> fb_state_history_prev fs' = fb_state_history_prev fs
    \<and> fb_state_changed fs' = fb_state_changed fs \<and> fb_should_stop fs' = fb_should_stop fs
    \<and> fb_history_seq_num fs' = fb_history_seq_num fs \<and> fb_state_seq_num fs' = fb_state_seq_num fs
    \<and> fb_state_prev fs' = fb_state_prev fs"
proof -
  let ?hb = "fb_history_buf fs" and ?b = "fb_packet_begin fs" and ?l = "fb_packet_len fs"
  let ?p = "events_packet (fs_recent fs)" and ?i = "(fb_packet_begin fs + fb_packet_len fs) mod 64"
  define hb' where "hb' = (if FEEDBACK_HISTORY_RESEND_EVENT_COUNT < hb_len ?hb
                then ?hb\<lparr>hb_len := FEEDBACK_HISTORY_RESEND_EVENT_COUNT\<rparr> else ?hb)"
  have "length (fs_recent fs) \<le> 16"
    using assms(1,2) by (simp add: fs_recent_def hb_ok_def FEEDBACK_HISTORY_BUFFER_SIZE_def)
  then have len: "length ?p \<le> 0x300" using events_packet_length [OF assms(3)] by simp
  have fmt: "chiaki_feedback_history_buffer_format ?hb CHIAKI_FEEDBACK_HISTORY_PACKET_BUF_SIZE = ret_ok ?p"
    using history_format_list [OF assms(1), of CHIAKI_FEEDBACK_HISTORY_PACKET_BUF_SIZE] assms(3) len
    by (simp add: events_packet_def fs_recent_def CHIAKI_FEEDBACK_HISTORY_PACKET_BUF_SIZE_def)
  have i: "?i < 64" by simp
  have old: "length (fb_packets fs ! j) = 0x300" if "j < 64" for j using pk that by simp
  have recent: "hb_list hb' = take FEEDBACK_HISTORY_RESEND_EVENT_COUNT (fs_recent fs)"
    by (auto simp: hb'_def hb_list_cut fs_recent_def)
  have inv_hb: "hb_ok hb' \<and> hb_size hb' = FEEDBACK_HISTORY_BUFFER_SIZE
      \<and> hb_len hb' \<le> FEEDBACK_HISTORY_RESEND_EVENT_COUNT \<and> (\<forall>ev \<in> set (hb_list hb'). he_ok ev)"
    using assms(1-3) unfolding recent by (auto simp: hb'_def hb_ok_def dest: in_set_takeD)
  show ?thesis
  proof (cases "?l < 64")
    case True
    let ?fs = "fs\<lparr>fb_packets := (fb_packets fs)[?i := ?p @ drop (length ?p) (fb_packets fs ! ?i)],
      fb_packet_sizes := (fb_packet_sizes fs)[?i := length ?p], fb_packet_len := ?l + 1,
      fb_history_buf := hb', fb_history_dirty := False\<rparr>"
    have run: "feedback_sender_flush_history_locked fs = Some ?fs"
      using dirty pk fmt i len old [OF i] True
      by (simp add: feedback_sender_flush_history_locked_def Let_def hb'_def CHIAKI_FEEDBACK_HISTORY_PACKET_QUEUE_SIZE_def)
    have q: "fs_queue ?fs = fs_queue fs @ [?p]"
      unfolding fs_queue_def [of fs]
      by (rule queue_append) (use pk True old [OF i] len in simp_all)
    have ne: "?i \<noteq> (?b + j) mod 64" if "j < ?l" for j using ring_ne [OF pk(4) that True] by simp
    have pks: "\<forall>p \<in> set (fb_packets ?fs). length p = 0x300"
      using pk(2) len old [OF i] by (auto dest!: set_update_subset_insert [THEN subsetD])
    have sizes: "\<forall>j < fb_packet_len ?fs. fb_packet_sizes ?fs ! ((fb_packet_begin ?fs + j) mod 64) \<le> 0x300"
      using pk(3,6) len by (auto simp: less_Suc_eq nth_list_update_neq [OF ne])
    have l: "?l \<le> 63" using True by simp
    have "fs_inv ?fs"
      by (rule fs_invI [OF inv_hb _ _ _ pks _ _ _ sizes]) (simp_all add: pk(1,3,4) l)
    then show ?thesis using run q recent True
      by (simp add: queue_add_def CHIAKI_FEEDBACK_HISTORY_PACKET_QUEUE_SIZE_def fs_recent_def)
  next
    case False
    then have l: "?l = 64" and ib: "?i = ?b" using pk by simp_all
    let ?p' = "?p @ drop (length ?p) (fb_packets fs ! ?b)"
    let ?fs = "fs\<lparr>fb_packets := (fb_packets fs)[?b := ?p'],
      fb_packet_sizes := (fb_packet_sizes fs)[?b := length ?p], fb_packet_begin := (?b + 1) mod 64,
      fb_history_buf := hb', fb_history_dirty := False\<rparr>"
    have run: "feedback_sender_flush_history_locked fs = Some ?fs"
      using dirty pk fmt len old [OF pk(4)] l
      by (simp add: feedback_sender_flush_history_locked_def Let_def hb'_def CHIAKI_FEEDBACK_HISTORY_PACKET_QUEUE_SIZE_def)
    have q: "fs_queue ?fs = tl (fs_queue fs) @ [?p]"
      unfolding fs_queue_def [of fs] l
      by (rule queue_rotate) (use pk l old [OF pk(4)] len in simp_all)
    have sz: "fb_packet_sizes fs ! j \<le> 0x300" if "j < 64" for j
    proof -
      have "(?b + (j + 64 - ?b) mod 64) mod 64 = (?b + (j + 64 - ?b)) mod 64" by (rule mod_add_right_eq)
      also have "\<dots> = j" using pk(4) that by simp
      finally show ?thesis using pk(6) l by (metis mod_less_divisor zero_less_numeral)
    qed
    have pks: "\<forall>p \<in> set (fb_packets ?fs). length p = 0x300"
      using pk(2) len old [OF pk(4)] by (auto dest!: set_update_subset_insert [THEN subsetD])
    have sizes: "fb_packet_sizes ?fs ! j \<le> 0x300" if "j < 64" for j
      using that pk(3,4) len sz by (simp add: nth_list_update)
    have "fs_inv ?fs"
      by (rule fs_invI [OF inv_hb _ _ _ pks]) (simp_all add: pk(1,3) l sizes [simplified])
    then show ?thesis using run q recent l
      by (simp add: queue_add_def CHIAKI_FEEDBACK_HISTORY_PACKET_QUEUE_SIZE_def fs_recent_def)
  qed
qed

subsection \<open>Runs\<close>

text \<open>The calls a run is made of: the setter, and the two halves of a round of the thread.\<close>

datatype 'f fb_call =
    Fb_Set chiaki_error "'f controller_state"
  | Fb_Pick "chiaki_error option" u64 u64
  | Fb_Commit u64 u64 "'f controller_state" bool

definition fb_step ::
    "'f float_ops \<Rightarrow> 'f feedback_sender \<Rightarrow> 'f fb_call \<Rightarrow> ('f feedback_sender \<times> (u16 \<times> bytes) list) option" where
  "fb_step F fs call = (case call of
     Fb_Set lk st \<Rightarrow> map_option (\<lambda>r. (snd (snd r), [])) (chiaki_feedback_sender_set_controller_state lk F fs st)
   | Fb_Pick wait now_ms last_ms \<Rightarrow> map_option (\<lambda>pk. (pk_sender pk, case pk_history pk of None \<Rightarrow> [] | Some h \<Rightarrow> [h]))
                               (feedback_sender_pick F wait now_ms last_ms fs)
   | Fb_Commit now_ms last_ms st sent \<Rightarrow> map_option (\<lambda>r. (fst r, []))
                               (feedback_sender_commit CHIAKI_ERR_SUCCESS now_ms last_ms st sent fs))"

fun fb_run ::
    "'f float_ops \<Rightarrow> 'f feedback_sender \<Rightarrow> 'f fb_call list \<Rightarrow> ('f feedback_sender \<times> (u16 \<times> bytes) list) option" where
  "fb_run F fs [] = Some (fs, [])"
| "fb_run F fs (c # cs) = do { (fs, out) \<leftarrow> fb_step F fs c; (fs, out') \<leftarrow> fb_run F fs cs; Some (fs, out @ out') }"

record 'f fb_spec =
  sp_queue :: "bytes list"
  sp_recent :: "history_event list"
  sp_state :: "'f controller_state"
  sp_sent :: nat

definition spec_step :: "'f float_ops \<Rightarrow> 'f fb_spec \<Rightarrow> 'f fb_call \<Rightarrow> 'f fb_spec \<times> (u16 \<times> bytes) list" where
  "spec_step F sp call = (case call of
     Fb_Set lk st \<Rightarrow>
       (if lk \<noteq> CHIAKI_ERR_SUCCESS \<or> chiaki_controller_state_equals F (sp_state sp) st then (sp, [])
        else let evs = packet_events (sp_recent sp) (history_events (sp_state sp) st)
        in (if history_events (sp_state sp) st = [] then (sp\<lparr>sp_state := st\<rparr>, [])
            else (sp\<lparr>sp_state := st, sp_queue := queue_add (sp_queue sp) (events_packet evs),
                     sp_recent := take FEEDBACK_HISTORY_RESEND_EVENT_COUNT evs\<rparr>, [])))
   | Fb_Pick wait now_ms last_ms \<Rightarrow>
       (if wait_failed wait then (sp, [])
        else case sp_queue sp of
          [] \<Rightarrow> (sp, [])
        | p # q \<Rightarrow> (sp\<lparr>sp_queue := q, sp_sent := sp_sent sp + 1\<rparr>, [(of_nat (sp_sent sp), p)]))
   | Fb_Commit now_ms last_ms st sent \<Rightarrow> (sp, []))"

fun spec_run :: "'f float_ops \<Rightarrow> 'f fb_spec \<Rightarrow> 'f fb_call list \<Rightarrow> 'f fb_spec \<times> (u16 \<times> bytes) list" where
  "spec_run F sp [] = (sp, [])"
| "spec_run F sp (c # cs) =
     (case spec_step F sp c of (sp, out) \<Rightarrow> case spec_run F sp cs of (sp, out') \<Rightarrow> (sp, out @ out'))"

text \<open>The simulation relation.\<close>

definition fs_sim :: "'f feedback_sender \<Rightarrow> 'f fb_spec \<Rightarrow> bool" where
  "fs_sim fs sp \<longleftrightarrow> fs_inv fs \<and> sp_queue sp = fs_queue fs \<and> sp_recent sp = fs_recent fs
     \<and> sp_state sp = fb_state fs \<and> fb_state_history_prev fs = fb_state fs
     \<and> fb_history_seq_num fs = of_nat (sp_sent sp) \<and> \<not> fb_should_stop fs"

lemma fs_inv_cong:
  "fb_history_buf fs' = fb_history_buf fs \<Longrightarrow> fb_history_dirty fs' = fb_history_dirty fs \<Longrightarrow>
   fb_packets fs' = fb_packets fs \<Longrightarrow> fb_packet_sizes fs' = fb_packet_sizes fs \<Longrightarrow>
   fb_packet_begin fs' = fb_packet_begin fs \<Longrightarrow> fb_packet_len fs' = fb_packet_len fs \<Longrightarrow>
   fs_inv fs' = fs_inv fs \<and> fs_queue fs' = fs_queue fs \<and> fs_recent fs' = fs_recent fs"
  by (simp add: fs_inv_def fs_queue_def fs_recent_def)

lemma fs_sim_cong:
  "fb_history_buf fs' = fb_history_buf fs \<Longrightarrow> fb_history_dirty fs' = fb_history_dirty fs \<Longrightarrow>
   fb_packets fs' = fb_packets fs \<Longrightarrow> fb_packet_sizes fs' = fb_packet_sizes fs \<Longrightarrow>
   fb_packet_begin fs' = fb_packet_begin fs \<Longrightarrow> fb_packet_len fs' = fb_packet_len fs \<Longrightarrow>
   fb_state fs' = fb_state fs \<Longrightarrow> fb_state_history_prev fs' = fb_state_history_prev fs \<Longrightarrow>
   fb_history_seq_num fs' = fb_history_seq_num fs \<Longrightarrow> fb_should_stop fs' = fb_should_stop fs \<Longrightarrow>
   fs_sim fs' sp = fs_sim fs sp"
  unfolding fs_sim_def fs_inv_def fs_queue_def fs_recent_def by simp

lemma set_state_sim:
  assumes sim: "fs_sim fs sp" and lk: "lk = CHIAKI_ERR_SUCCESS"
    and ne: "\<not> chiaki_controller_state_equals F (fb_state fs) st"
  shows "\<exists>fs'. chiaki_feedback_sender_set_controller_state lk F fs st = Some (CHIAKI_ERR_SUCCESS, True, fs')
    \<and> fs_sim fs' (fst (spec_step F sp (Fb_Set lk st)))"
proof -
  let ?evs = "history_events (fb_state fs) st"
  let ?hb = "fb_history_buf fs"
  have inv: "fs_inv fs" and sp: "sp_queue sp = fs_queue fs" "sp_recent sp = fs_recent fs"
      "sp_state sp = fb_state fs" "fb_state_history_prev fs = fb_state fs"
      "fb_history_seq_num fs = of_nat (sp_sent sp)" "\<not> fb_should_stop fs"
    using sim by (simp_all add: fs_sim_def)
  have hb_inv: "hb_ok ?hb" "hb_size ?hb = FEEDBACK_HISTORY_BUFFER_SIZE" "\<forall>ev \<in> set (hb_list ?hb). he_ok ev"
    using inv by (simp_all add: fs_inv_def)
  obtain hb where hb: "push_events ?hb ?evs = Some hb" "hb_ok hb"
      "hb_size hb = FEEDBACK_HISTORY_BUFFER_SIZE" "hb_list hb = packet_events (fs_recent fs) ?evs"
    using push_events_list [OF hb_inv(1), of ?evs] hb_inv by (auto simp: packet_events_def fs_recent_def)
  define f1 where "f1 = fs\<lparr>fb_state := st, fb_history_buf := hb, fb_history_dirty := (?evs \<noteq> [])\<rparr>"
  have dirty: "\<not> fb_history_dirty fs" using inv by (simp add: fs_inv_def)
  have run: "chiaki_feedback_sender_set_controller_state lk F fs st =
      map_option (\<lambda>f. (CHIAKI_ERR_SUCCESS, True, f\<lparr>fb_state_history_prev := fb_state f, fb_state_changed := True\<rparr>))
        (feedback_sender_flush_history_locked f1)"
    using lk ne hb sp(4) dirty
    by (simp add: chiaki_feedback_sender_set_controller_state_def feedback_sender_record_history_def
        f1_def Let_def map_conv_bind_option comp_def)
  show ?thesis
  proof (cases "?evs = []")
    case True
    then have f1: "f1 = fs\<lparr>fb_state := st\<rparr>" using hb(1) dirty by (simp add: f1_def)
    have "feedback_sender_flush_history_locked f1 = Some f1"
      using dirty by (simp add: f1 feedback_sender_flush_history_locked_def)
    moreover have "fs_sim (f1\<lparr>fb_state_history_prev := fb_state f1, fb_state_changed := True\<rparr>)
        (sp\<lparr>sp_state := st\<rparr>)"
      using inv sp by (simp add: f1 fs_sim_def fs_inv_def fs_queue_def fs_recent_def)
    ultimately show ?thesis using run lk ne True sp by (simp add: spec_step_def)
  next
    case False
    have pk: "length (fb_packets f1) = 64" "\<forall>p \<in> set (fb_packets f1). length p = 0x300"
      "length (fb_packet_sizes f1) = 64" "fb_packet_begin f1 < 64" "fb_packet_len f1 \<le> 64"
      "\<forall>i < fb_packet_len f1. fb_packet_sizes f1 ! ((fb_packet_begin f1 + i) mod 64) \<le> 0x300"
      using inv by (simp_all add: fs_inv_def f1_def)
    have r1: "fs_recent f1 = packet_events (fs_recent fs) ?evs" using hb by (simp add: fs_recent_def f1_def)
    have ok1: "\<forall>ev \<in> set (fs_recent f1). he_ok ev"
      using history_events_ok [of "fb_state fs" st] hb_inv(3) unfolding r1
      by (auto simp: packet_events_def fs_recent_def dest!: in_set_takeD)
    have q1: "fs_queue f1 = fs_queue fs" by (simp add: fs_queue_def f1_def)
    obtain f2 where f2: "feedback_sender_flush_history_locked f1 = Some f2" "fs_inv f2"
        "fs_queue f2 = queue_add (fs_queue f1) (events_packet (fs_recent f1))"
        "fs_recent f2 = take FEEDBACK_HISTORY_RESEND_EVENT_COUNT (fs_recent f1)"
        "fb_state f2 = st" "fb_history_seq_num f2 = of_nat (sp_sent sp)" "\<not> fb_should_stop f2"
      using flush_dirty [OF _ _ ok1 _ pk] hb(2,3) False sp(5,6) by (auto simp: f1_def)
    let ?f3 = "f2\<lparr>fb_state_history_prev := fb_state f2, fb_state_changed := True\<rparr>"
    have "fs_inv ?f3 \<and> fs_queue ?f3 = fs_queue f2 \<and> fs_recent ?f3 = fs_recent f2"
      using fs_inv_cong [of ?f3 f2] f2(2) by simp
    then show ?thesis using run lk ne False sp f2 r1 q1
      by (simp add: spec_step_def fs_sim_def Let_def)
  qed
qed

lemma fs_queue_Cons:
  assumes "0 < fb_packet_len fs" "fb_packet_begin fs < 64"
  shows "fs_queue fs = take (fb_packet_sizes fs ! fb_packet_begin fs) (fb_packets fs ! fb_packet_begin fs)
    # fs_queue (fs\<lparr>fb_packet_begin := (fb_packet_begin fs + 1) mod 64, fb_packet_len := fb_packet_len fs - 1\<rparr>)"
proof -
  have e: "((fb_packet_begin fs + 1) mod 64 + i) mod 64 = (fb_packet_begin fs + Suc i) mod 64" for i
    using mod_add_left_eq [of "fb_packet_begin fs + 1" 64 i] by simp
  have "[0..<fb_packet_len fs] = 0 # map Suc [0..<fb_packet_len fs - 1]"
    using assms(1) by (simp add: map_Suc_upt upt_conv_Cons)
  then show ?thesis using assms e unfolding fs_queue_def by simp
qed

lemma pick_sim:
  assumes sim: "fs_sim fs sp"
  shows "\<exists>r. fb_step F fs (Fb_Pick wait now_ms last_ms) = Some r
    \<and> fs_sim (fst r) (fst (spec_step F sp (Fb_Pick wait now_ms last_ms)))
    \<and> snd r = snd (spec_step F sp (Fb_Pick wait now_ms last_ms))"
proof -
  have inv: "fs_inv fs" and sp: "sp_queue sp = fs_queue fs" "sp_recent sp = fs_recent fs"
      "sp_state sp = fb_state fs" "fb_state_history_prev fs = fb_state fs"
      "fb_history_seq_num fs = of_nat (sp_sent sp)" "\<not> fb_should_stop fs"
    using sim by (simp_all add: fs_sim_def)
  show ?thesis
  proof (cases "wait_failed wait \<or> \<not> 0 < fb_packet_len fs")
    case True
    have s1: "fs_sim (fs\<lparr>fb_state_changed := False\<rparr>) sp = fs_sim fs sp"
      by (rule fs_sim_cong) simp_all
    have s2: "fs_sim (fs\<lparr>fb_state_changed := False, fb_state_seq_num := fb_state_seq_num fs + 1\<rparr>) sp
        = fs_sim fs sp"
      by (rule fs_sim_cong) simp_all
    note s = s1 [THEN iffD2, OF sim] s2 [THEN iffD2, OF sim]
    have "\<exists>pk. feedback_sender_pick F wait now_ms last_ms fs = Some pk \<and> pk_history pk = None
        \<and> fs_sim (pk_sender pk) sp"
      using True sp(6) s sim unfolding feedback_sender_pick_def Let_def
      by (cases "wait_failed wait") (auto split: if_splits)
    moreover have "fs_queue fs = []" if "\<not> wait_failed wait"
      using True that by (simp flip: length_0_conv)
    then have "spec_step F sp (Fb_Pick wait now_ms last_ms) = (sp, [])"
      using sp(1) by (auto simp: spec_step_def)
    ultimately show ?thesis by (auto simp: fb_step_def)
  next
    case nw: False
    then have True: "0 < fb_packet_len fs" and nf: "\<not> wait_failed wait" by simp_all
    let ?b = "fb_packet_begin fs"
    let ?fs = "fs\<lparr>fb_packet_begin := (?b + 1) mod 64, fb_packet_len := fb_packet_len fs - 1\<rparr>"
    let ?p = "take (fb_packet_sizes fs ! ?b) (fb_packets fs ! ?b)"
    have b: "?b < 64" "length (fb_packets fs) = 64" "length (fb_packet_sizes fs) = 64"
        "length (fb_packets fs ! ?b) = 0x300" "fb_packet_len fs \<le> 64"
      using inv by (auto simp: fs_inv_def)
    have "fb_packet_sizes fs ! ((?b + 0) mod 64) \<le> 0x300" using inv True unfolding fs_inv_def by blast
    then have n: "fb_packet_sizes fs ! ?b \<le> 0x300" using b(1) by simp
    have q: "fs_queue fs = ?p # fs_queue ?fs" using fs_queue_Cons [OF True b(1)] .
    have inv': "fs_inv ?fs"
    proof -
      have "fb_packet_sizes fs ! (((?b + 1) mod 64 + i) mod 64) \<le> 0x300" if "i < fb_packet_len fs - 1" for i
      proof -
        have "((?b + 1) mod 64 + i) mod 64 = (?b + Suc i) mod 64"
          using mod_add_left_eq [of "?b + 1" 64 i] by simp
        then show ?thesis using inv that unfolding fs_inv_def by (metis less_diff_conv Suc_eq_plus1)
      qed
      then show ?thesis using inv b(5) by (simp add: fs_inv_def le_diff_conv)
    qed
    let ?sp = "sp\<lparr>sp_queue := fs_queue ?fs, sp_sent := sp_sent sp + 1\<rparr>"
    have s1: "fs_sim (fs\<lparr>fb_state_changed := False,
        fb_packet_begin := (?b + 1) mod 64, fb_packet_len := fb_packet_len fs - 1, fb_history_seq_num := fb_history_seq_num fs + 1\<rparr>) ?sp"
      using inv' sp by (simp add: fs_sim_def fs_inv_def fs_queue_def fs_recent_def)
    have "fs_sim (fs\<lparr>fb_state_changed := False,
        fb_packet_begin := (?b + 1) mod 64, fb_packet_len := fb_packet_len fs - 1, fb_history_seq_num := fb_history_seq_num fs + 1,
        fb_state_seq_num := fb_state_seq_num fs + 1\<rparr>) ?sp
      = fs_sim (fs\<lparr>fb_state_changed := False,
        fb_packet_begin := (?b + 1) mod 64, fb_packet_len := fb_packet_len fs - 1, fb_history_seq_num := fb_history_seq_num fs + 1\<rparr>) ?sp"
      by (rule fs_sim_cong) simp_all
    note s2 = this [THEN iffD2, OF s1]
    have sz: "wr_slice (replicate CHIAKI_FEEDBACK_HISTORY_PACKET_BUF_SIZE (0 :: u8)) 0 ?p \<noteq> None"
      using n b by (simp add: CHIAKI_FEEDBACK_HISTORY_PACKET_BUF_SIZE_def)
    then obtain z where "wr_slice (replicate CHIAKI_FEEDBACK_HISTORY_PACKET_BUF_SIZE (0 :: u8)) 0 ?p = Some z"
      by blast
    then have "\<exists>pk. feedback_sender_pick F wait now_ms last_ms fs = Some pk
        \<and> pk_history pk = Some (of_nat (sp_sent sp), ?p) \<and> fs_sim (pk_sender pk) ?sp"
      using True sp(5,6) b n s1 s2
      by (simp add: feedback_sender_pick_def Let_def nf CHIAKI_FEEDBACK_HISTORY_PACKET_QUEUE_SIZE_def)
    then show ?thesis using q sp(1) nf by (auto simp: fb_step_def spec_step_def)
  qed
qed

lemma set_step_silent: "snd (spec_step F sp (Fb_Set lk st)) = []"
  by (simp add: spec_step_def Let_def)

lemma fb_step_sim:
  assumes "fs_sim fs sp"
  shows "\<exists>r. fb_step F fs c = Some r \<and> fs_sim (fst r) (fst (spec_step F sp c)) \<and> snd r = snd (spec_step F sp c)"
proof (cases c)
  case (Fb_Set lk st)
  show ?thesis
  proof (cases "lk \<noteq> CHIAKI_ERR_SUCCESS \<or> chiaki_controller_state_equals F (fb_state fs) st")
    case True
    then have "chiaki_feedback_sender_set_controller_state lk F fs st = Some (lk, False, fs)"
      by (auto simp: chiaki_feedback_sender_set_controller_state_def)
    then show ?thesis using Fb_Set True assms
      by (simp add: fb_step_def spec_step_def fs_sim_def)
  next
    case False
    then have "lk = CHIAKI_ERR_SUCCESS" "\<not> chiaki_controller_state_equals F (fb_state fs) st" by simp_all
    from set_state_sim [OF assms this] obtain fs' where
      "chiaki_feedback_sender_set_controller_state lk F fs st = Some (CHIAKI_ERR_SUCCESS, True, fs')"
      "fs_sim fs' (fst (spec_step F sp (Fb_Set lk st)))" by blast
    then show ?thesis using Fb_Set by (simp add: fb_step_def set_step_silent)
  qed
next
  case (Fb_Pick wait now_ms last_ms)
  then show ?thesis using pick_sim [OF assms] by simp
next
  case (Fb_Commit now_ms last_ms st sent)
  have "fs_sim (fs\<lparr>fb_state_prev := st\<rparr>) sp = fs_sim fs sp"
    by (rule fs_sim_cong) simp_all
  then show ?thesis using Fb_Commit assms by (simp add: fb_step_def spec_step_def feedback_sender_commit_def)
qed

lemma fb_run_sim:
  "fs_sim fs sp \<Longrightarrow> \<exists>r. fb_run F fs cs = Some r \<and> fs_sim (fst r) (fst (spec_run F sp cs))
     \<and> snd r = snd (spec_run F sp cs)"
proof (induction cs arbitrary: fs sp)
  case (Cons c cs)
  obtain fs1 out where s: "fb_step F fs c = Some (fs1, out)" "fs_sim fs1 (fst (spec_step F sp c))"
      "out = snd (spec_step F sp c)"
    using fb_step_sim [OF Cons.prems, of F c] by auto
  obtain fs2 out2 where r: "fb_run F fs1 cs = Some (fs2, out2)"
      "fs_sim fs2 (fst (spec_run F (fst (spec_step F sp c)) cs))"
      "out2 = snd (spec_run F (fst (spec_step F sp c)) cs)"
    using Cons.IH [OF s(2)] by (metis prod.collapse)
  show ?case using s r by (simp add: case_prod_unfold)
qed simp

definition sp_init :: "'f float_ops \<Rightarrow> 'f fb_spec" where
  "sp_init F = \<lparr>sp_queue = [], sp_recent = [], sp_state = chiaki_controller_state_set_idle F, sp_sent = 0\<rparr>"

lemma fs_init_sim:
  assumes "chiaki_feedback_sender_init F a m c t packets sizes = Inr fs"
    "length packets = 64" "\<forall>p \<in> set packets. length p = 0x300" "length sizes = 64"
  shows "fs_sim fs (sp_init F)"
  using assms
  by (auto simp: chiaki_feedback_sender_init_def chiaki_feedback_history_buffer_init_def fs_sim_def fs_inv_def
      hb_ok_def sp_init_def fs_queue_def fs_recent_def hb_list_def FEEDBACK_HISTORY_BUFFER_SIZE_def
      split: if_splits)

text \<open>C14. Feedback history refines a bounded queue: from a fresh sender, whatever the interleaving of
  state changes with the two halves of the thread's rounds, no array is left and the packets handed to
  Takion are those of the abstract queue: per change one packet with its events, newest first, followed
  by up to four earlier ones (sixteen in all), first in first out, the oldest dropped when 64 wait,
  numbered from zero modulo 2^16.  A round whose wait fails sends nothing.\<close>

theorem feedback_history_refines:
  assumes "chiaki_feedback_sender_init F a m c t packets sizes = Inr fs"
    and "length packets = CHIAKI_FEEDBACK_HISTORY_PACKET_QUEUE_SIZE"
    and "\<forall>p \<in> set packets. length p = CHIAKI_FEEDBACK_HISTORY_PACKET_BUF_SIZE"
    and "length sizes = CHIAKI_FEEDBACK_HISTORY_PACKET_QUEUE_SIZE"
  shows "\<exists>fs'. fb_run F fs calls = Some (fs', snd (spec_run F (sp_init F) calls))
    \<and> fs_queue fs' = sp_queue (fst (spec_run F (sp_init F) calls))
    \<and> fb_history_seq_num fs' = of_nat (sp_sent (fst (spec_run F (sp_init F) calls)))"
proof -
  have "fs_sim fs (sp_init F)"
    using fs_init_sim [OF assms(1)] assms(2-4)
    by (simp add: CHIAKI_FEEDBACK_HISTORY_PACKET_QUEUE_SIZE_def CHIAKI_FEEDBACK_HISTORY_PACKET_BUF_SIZE_def)
  from fb_run_sim [OF this, of F calls] show ?thesis
    by (auto simp: fs_sim_def)
qed

definition unit_floats :: "unit float_ops" where
  "unit_floats = \<lparr>f_zero = (), f_one = (), f_near = (\<lambda>_ _. True)\<rparr>"

lemma feedback_history_refines_witness:
  "\<exists>fs fs'. chiaki_feedback_sender_init unit_floats True CHIAKI_ERR_SUCCESS CHIAKI_ERR_SUCCESS
       CHIAKI_ERR_SUCCESS (replicate 64 (replicate 0x300 0)) (replicate 64 0) = Inr fs
     \<and> fb_run unit_floats fs
         [Fb_Set CHIAKI_ERR_SUCCESS ((chiaki_controller_state_set_idle unit_floats)\<lparr>cs_buttons := 1\<rparr>),
          Fb_Pick (Some CHIAKI_ERR_SUCCESS) 0 0] = Some (fs', [(0, [0x80, 0x88, 0xff])])"
proof -
  let ?calls = "[Fb_Set CHIAKI_ERR_SUCCESS ((chiaki_controller_state_set_idle unit_floats)\<lparr>cs_buttons := 1\<rparr>),
          Fb_Pick (Some CHIAKI_ERR_SUCCESS) 0 0]"
  obtain fs where fs: "chiaki_feedback_sender_init unit_floats True CHIAKI_ERR_SUCCESS CHIAKI_ERR_SUCCESS
       CHIAKI_ERR_SUCCESS (replicate 64 (replicate 0x300 0)) (replicate 64 0) = Inr fs"
    by (simp add: chiaki_feedback_sender_init_def chiaki_feedback_history_buffer_init_def)
  have "snd (spec_run unit_floats (sp_init unit_floats) ?calls) = [(0, [0x80, 0x88, 0xff])]"
    by code_simp
  then show ?thesis
    using feedback_history_refines [OF fs, of ?calls] fs
    by (auto simp: CHIAKI_FEEDBACK_HISTORY_PACKET_QUEUE_SIZE_def CHIAKI_FEEDBACK_HISTORY_PACKET_BUF_SIZE_def)
qed

text \<open>When a slot goes from one touch to another in one update, only the release of the old one is
  recorded: the new touch is announced when it moves.\<close>

lemma touch_swap_loses_down:
  assumes "touch_down a" "tc_id a \<noteq> tc_id b"
  shows "touch_event a b = Some (chiaki_feedback_history_event_set_touchpad False (tc_id a) (tc_x a) (tc_y a))"
    and "touch_event b b = None"
  using assms by (simp_all add: touch_event_def)

end
