(* ===== verification/FrameProcessor.thy ===== *)
theory FrameProcessor
  imports TakionPacket Stats
begin

text \<open>
  \<^verbatim>\<open>lib/src/fec.c\<close> and \<^verbatim>\<open>lib/src/frameprocessor.c\<close>: collecting the units of a video frame, restoring the
  lost ones by forward error correction, putting the frame together.

  The code of the erasure code (\<open>jerasure\<close>, a library outside the repository) is the parameter \<open>decode\<close>:
  from the numbers of data and coding units, the indices erased, the two lists of units and their size it
  gives whether it succeeded and the two lists again.  \<open>frame_buf\<close> is the heap block with its padding,
  \<open>None\<close> the null pointer; \<open>data\<close> is the memory from \<open>packet->data\<close> to the end of the datagram.
\<close>

subsection \<open>Forward error correction\<close>

type_synonym fec_decode = "nat \<Rightarrow> nat \<Rightarrow> nat list \<Rightarrow> bytes list \<Rightarrow> bytes list \<Rightarrow> nat \<Rightarrow> bool \<times> bytes list \<times> bytes list"
type_synonym fec_encode = "nat \<Rightarrow> nat \<Rightarrow> bytes list \<Rightarrow> nat \<Rightarrow> bytes list"

record fec_env =
  fe_matrix :: bool
  fe_erasures :: bool
  fe_data :: bool
  fe_coding :: bool

fun rd_units :: "bytes \<Rightarrow> nat \<Rightarrow> nat \<Rightarrow> nat list \<Rightarrow> bytes list option" where
  "rd_units buf stride sz [] = Some []"
| "rd_units buf stride sz (i # is) = do {
     u \<leftarrow> rd_slice buf (stride * i) sz; us \<leftarrow> rd_units buf stride sz is; Some (u # us) }"

fun wr_units :: "bytes \<Rightarrow> nat \<Rightarrow> nat list \<Rightarrow> bytes list \<Rightarrow> bytes option" where
  "wr_units buf stride (i # is) (u # us) = do { buf \<leftarrow> wr_slice buf (stride * i) u; wr_units buf stride is us }"
| "wr_units buf stride is us = Some buf"

definition chiaki_fec_decode ::
    "fec_decode \<Rightarrow> fec_env \<Rightarrow> bytes \<Rightarrow> nat \<Rightarrow> nat \<Rightarrow> nat \<Rightarrow> nat \<Rightarrow> nat list \<Rightarrow> (chiaki_error \<times> bytes) option" where
  "chiaki_fec_decode decode E frame_buf unit_size stride k m erasures =
     (if stride < unit_size then Some (CHIAKI_ERR_INVALID_DATA, frame_buf)
      else if \<not> fe_matrix E \<or> \<not> fe_erasures E \<or> \<not> fe_data E \<or> \<not> fe_coding E
      then Some (CHIAKI_ERR_MEMORY, frame_buf)
      else do {
        data \<leftarrow> rd_units frame_buf stride unit_size [0..<k];
        coding \<leftarrow> rd_units frame_buf stride unit_size [k..<k + m];
        (case decode k m erasures data coding unit_size of (ok, data, coding) \<Rightarrow> do {
           frame_buf \<leftarrow> wr_units frame_buf stride [0..<k] data;
           frame_buf \<leftarrow> wr_units frame_buf stride [k..<k + m] coding;
           Some (if ok then CHIAKI_ERR_SUCCESS else CHIAKI_ERR_FEC_FAILED, frame_buf) }) })"

text \<open>The encoder reads the data units at multiples of \<open>stride\<close> but writes the coding units after
  \<open>k * unit_size\<close> bytes; and when the memory for a coding unit is refused it reports success.\<close>

definition chiaki_fec_encode ::
    "fec_encode \<Rightarrow> fec_env \<Rightarrow> bool \<Rightarrow> bytes \<Rightarrow> nat \<Rightarrow> nat \<Rightarrow> nat \<Rightarrow> nat \<Rightarrow> (chiaki_error \<times> bytes) option" where
  "chiaki_fec_encode encode E units_alloc frame_buf unit_size stride k m =
     (if stride < unit_size then Some (CHIAKI_ERR_INVALID_DATA, frame_buf)
      else if \<not> fe_matrix E \<or> \<not> fe_data E \<or> \<not> fe_coding E then Some (CHIAKI_ERR_MEMORY, frame_buf)
      else if \<not> units_alloc then Some (CHIAKI_ERR_SUCCESS, frame_buf)
      else do {
        data \<leftarrow> rd_units frame_buf stride unit_size [0..<k];
        frame_buf \<leftarrow> wr_units frame_buf unit_size [k..<k + m] (encode k m data unit_size);
        Some (CHIAKI_ERR_SUCCESS, frame_buf) })"

subsection \<open>State\<close>

record stream_stats =
  ss_frames :: u64
  ss_bytes :: u64

definition chiaki_stream_stats_reset :: "stream_stats \<Rightarrow> stream_stats" where
  "chiaki_stream_stats_reset st = st\<lparr>ss_frames := 0, ss_bytes := 0\<rparr>"

definition chiaki_stream_stats_frame :: "stream_stats \<Rightarrow> u64 \<Rightarrow> stream_stats" where
  "chiaki_stream_stats_frame st sz = st\<lparr>ss_frames := ss_frames st + 1, ss_bytes := ss_bytes st + sz\<rparr>"

definition chiaki_stream_stats_bitrate :: "stream_stats \<Rightarrow> u64 \<Rightarrow> u64" where
  "chiaki_stream_stats_bitrate st framerate =
     (if ss_frames st = 0 then 0 else (ss_bytes st * 8 * framerate) div ss_frames st)"

definition UNIT_SLOTS_MAX :: nat where "UNIT_SLOTS_MAX = 512"
definition CHIAKI_VIDEO_BUFFER_PADDING_SIZE :: nat where "CHIAKI_VIDEO_BUFFER_PADDING_SIZE = 64"

record frame_processor =
  fp_frame_buf :: "bytes option"
  fp_frame_buf_size :: nat
  fp_buf_size_per_unit :: u64
  fp_buf_stride_per_unit :: u64
  fp_units_source_expected :: u32
  fp_units_fec_expected :: u32
  fp_units_source_received :: u32
  fp_units_fec_received :: u32
  fp_unit_slots :: "u64 list option"
  fp_unit_slots_size :: nat
  fp_flushed :: bool
  fp_stream_stats :: stream_stats

definition chiaki_frame_processor_init :: frame_processor where
  "chiaki_frame_processor_init =
     \<lparr>fp_frame_buf = None, fp_frame_buf_size = 0, fp_buf_size_per_unit = 0, fp_buf_stride_per_unit = 0,
      fp_units_source_expected = 0, fp_units_fec_expected = 0, fp_units_source_received = 0,
      fp_units_fec_received = 0, fp_unit_slots = None, fp_unit_slots_size = 0, fp_flushed = True,
      fp_stream_stats = chiaki_stream_stats_reset \<lparr>ss_frames = 0, ss_bytes = 0\<rparr>\<rparr>"

text \<open>Whether \<open>malloc\<close> and \<open>realloc\<close> succeed for the slots and for the frame.\<close>

record alloc_env =
  al_slots :: bool
  al_frame :: bool

subsection \<open>A new frame\<close>

text \<open>The size of a unit: a source unit of a video frame says in its first two bytes by how much it is
  shorter than the others.\<close>

definition alloc_unit_size :: "takion_av_packet \<Rightarrow> u32 \<Rightarrow> bytes \<Rightarrow> u64 result" where
  "alloc_unit_size p source_expected data =
     (if av_is_video p \<and> ucast (av_unit_index p) < source_expected
      then if av_data_size p < 2 then ret_err CHIAKI_ERR_BUF_TOO_SMALL
        else and_then (checked (rd16be data 0)) (\<lambda>ext. ret_ok (av_data_size p + ucast ext))
      else ret_ok (av_data_size p))"

definition alloc_slots :: "alloc_env \<Rightarrow> nat \<Rightarrow> frame_processor \<Rightarrow> chiaki_error \<times> frame_processor" where
  "alloc_slots A required fp =
     (if UNIT_SLOTS_MAX < required then (CHIAKI_ERR_INVALID_DATA, fp)
      else if required \<noteq> fp_unit_slots_size fp \<and> \<not> al_slots A
      then (CHIAKI_ERR_MEMORY, fp\<lparr>fp_unit_slots := None, fp_unit_slots_size := 0\<rparr>)
      else (CHIAKI_ERR_SUCCESS,
            fp\<lparr>fp_unit_slots := Some (replicate required 0), fp_unit_slots_size := required\<rparr>))"

definition alloc_buffer :: "alloc_env \<Rightarrow> frame_processor \<Rightarrow> (chiaki_error \<times> frame_processor) option" where
  "alloc_buffer A fp =
     (let stride = unat (fp_buf_stride_per_unit fp); required = fp_unit_slots_size fp * stride in
      if stride = 0 then None
      else if (2 ^ 64 - 1) div stride < fp_unit_slots_size fp then Some (CHIAKI_ERR_OVERFLOW, fp)
      else if fp_frame_buf_size fp < required
      then if \<not> al_frame A then Some (CHIAKI_ERR_MEMORY, fp\<lparr>fp_frame_buf := None, fp_frame_buf_size := 0\<rparr>)
        else Some (CHIAKI_ERR_SUCCESS, fp\<lparr>fp_frame_buf_size := required,
          fp_frame_buf := Some (replicate (required + CHIAKI_VIDEO_BUFFER_PADDING_SIZE) 0)\<rparr>)
      else case fp_frame_buf fp of
        None \<Rightarrow> None
      | Some b \<Rightarrow> do {
          b \<leftarrow> wr_slice b 0 (replicate (required + CHIAKI_VIDEO_BUFFER_PADDING_SIZE) 0);
          Some (CHIAKI_ERR_SUCCESS, fp\<lparr>fp_frame_buf := Some b\<rparr>) })"

definition chiaki_frame_processor_alloc_frame ::
    "alloc_env \<Rightarrow> takion_av_packet \<Rightarrow> bytes \<Rightarrow> frame_processor \<Rightarrow> (chiaki_error \<times> frame_processor) option" where
  "chiaki_frame_processor_alloc_frame A p data fp =
     (if av_units_total p < av_units_fec p then Some (CHIAKI_ERR_INVALID_DATA, fp)
      else let source = ucast (av_units_total p) - ucast (av_units_fec p);
               fec = (if av_units_fec p < 1 then 1 else ucast (av_units_fec p));
               fp = fp\<lparr>fp_flushed := False, fp_units_source_expected := source, fp_units_fec_expected := fec,
                       fp_buf_size_per_unit := av_data_size p\<rparr>
      in case alloc_unit_size p source data of
        None \<Rightarrow> None
      | Some (Inl err) \<Rightarrow> Some (err, fp)
      | Some (Inr sz) \<Rightarrow>
          let fp = fp\<lparr>fp_buf_size_per_unit := sz, fp_buf_stride_per_unit := ((sz + 0xf) div 0x10) * 0x10\<rparr> in
          if sz = 0 then Some (CHIAKI_ERR_BUF_TOO_SMALL, fp)
          else case alloc_slots A (unat (source + fec))
                      (fp\<lparr>fp_units_source_received := 0, fp_units_fec_received := 0\<rparr>) of
            (err, fp) \<Rightarrow> if err \<noteq> CHIAKI_ERR_SUCCESS then Some (err, fp) else alloc_buffer A fp)"

subsection \<open>Units\<close>

definition chiaki_frame_processor_put_unit ::
    "takion_av_packet \<Rightarrow> bytes \<Rightarrow> frame_processor \<Rightarrow> (chiaki_error \<times> frame_processor) option" where
  "chiaki_frame_processor_put_unit p data fp =
     (let i = unat (av_unit_index p) in
      if av_units_total p \<le> av_unit_index p then Some (CHIAKI_ERR_INVALID_DATA, fp)
      else if fp_unit_slots_size fp \<le> i then Some (CHIAKI_ERR_INVALID_DATA, fp)
      else if av_data_size p = 0 then Some (CHIAKI_ERR_INVALID_DATA, fp)
      else if fp_buf_size_per_unit fp < av_data_size p then Some (CHIAKI_ERR_INVALID_DATA, fp)
      else do {
        slots \<leftarrow> fp_unit_slots fp;
        sz \<leftarrow> rd8 slots i;
        if sz \<noteq> 0 then Some (CHIAKI_ERR_INVALID_DATA, fp)
        else do {
          slots \<leftarrow> wr8 slots i (av_data_size p);
          let fp = fp\<lparr>fp_unit_slots := Some slots\<rparr>;
          fp \<leftarrow> (if fp_flushed fp then Some fp
                 else do {
                   b \<leftarrow> fp_frame_buf fp;
                   u \<leftarrow> rd_slice data 0 (unat (av_data_size p));
                   b \<leftarrow> wr_slice b (i * unat (fp_buf_stride_per_unit fp)) u;
                   Some (fp\<lparr>fp_frame_buf := Some b\<rparr>) });
          Some (CHIAKI_ERR_SUCCESS,
            if ucast (av_unit_index p) < fp_units_source_expected fp
            then fp\<lparr>fp_units_source_received := fp_units_source_received fp + 1\<rparr>
            else fp\<lparr>fp_units_fec_received := fp_units_fec_received fp + 1\<rparr>) } })"

definition chiaki_frame_processor_report_packet_stats :: "frame_processor \<Rightarrow> packet_stats \<Rightarrow> packet_stats" where
  "chiaki_frame_processor_report_packet_stats fp st =
     (let received = ucast (fp_units_source_received fp + fp_units_fec_received fp);
          expected = ucast (fp_units_source_expected fp + fp_units_fec_expected fp) :: u64
      in chiaki_packet_stats_push_generation st received (expected - received))"

definition chiaki_frame_processor_flush_possible :: "frame_processor \<Rightarrow> bool" where
  "chiaki_frame_processor_flush_possible fp \<longleftrightarrow>
     fp_units_source_expected fp \<le> fp_units_source_received fp + fp_units_fec_received fp"

subsection \<open>Flushing\<close>

text \<open>The indices of the empty slots; \<open>None\<close> when a slot outside the array is looked at.\<close>

fun empty_slots :: "u64 list \<Rightarrow> nat list \<Rightarrow> nat list option" where
  "empty_slots slots [] = Some []"
| "empty_slots slots (i # is) = do {
     sz \<leftarrow> rd8 slots i; es \<leftarrow> empty_slots slots is; Some (if sz = 0 then i # es else es) }"

fun restore_sizes :: "bytes \<Rightarrow> nat \<Rightarrow> u64 \<Rightarrow> nat list \<Rightarrow> u64 list \<Rightarrow> u64 list option" where
  "restore_sizes buf stride unit_size [] slots = Some slots"
| "restore_sizes buf stride unit_size (i # is) slots = do {
     padding \<leftarrow> rd16be buf (stride * i);
     slots \<leftarrow> (if unit_size \<le> ucast padding then Some slots else wr8 slots i (unit_size - ucast padding));
     restore_sizes buf stride unit_size is slots }"

text \<open>The two assertions on the number of empty slots make one test here.\<close>

definition chiaki_frame_processor_fec ::
    "fec_decode \<Rightarrow> fec_env \<Rightarrow> bool \<Rightarrow> frame_processor \<Rightarrow> (chiaki_error \<times> frame_processor) option" where
  "chiaki_frame_processor_fec decode E alloc fp =
     (let source = fp_units_source_expected fp; fec = fp_units_fec_expected fp;
          erasures_count = source + fec - (fp_units_source_received fp + fp_units_fec_received fp) in
      if \<not> alloc then Some (CHIAKI_ERR_MEMORY, fp)
      else do {
        slots \<leftarrow> (if source + fec = 0 then Some [] else fp_unit_slots fp);
        erasures \<leftarrow> empty_slots slots [0..<unat (source + fec)];
        if length erasures \<noteq> unat erasures_count then None
        else do {
          b \<leftarrow> fp_frame_buf fp;
          (err, b) \<leftarrow> chiaki_fec_decode decode E b (unat (fp_buf_size_per_unit fp))
                       (unat (fp_buf_stride_per_unit fp)) (unat source) (unat fec) erasures;
          let fp = fp\<lparr>fp_frame_buf := Some b\<rparr>;
          if err \<noteq> CHIAKI_ERR_SUCCESS then Some (CHIAKI_ERR_FEC_FAILED, fp)
          else do {
            slots \<leftarrow> restore_sizes b (unat (fp_buf_stride_per_unit fp)) (fp_buf_size_per_unit fp)
                      [0..<unat source] slots;
            Some (CHIAKI_ERR_SUCCESS, fp\<lparr>fp_unit_slots := Some slots\<rparr>) } } })"

text \<open>The units are moved to the front one after the other, without their first two bytes.\<close>

fun compact_units :: "nat \<Rightarrow> u64 list \<Rightarrow> nat list \<Rightarrow> bytes \<Rightarrow> nat \<Rightarrow> (bytes \<times> nat) option" where
  "compact_units stride slots [] buf cur = Some (buf, cur)"
| "compact_units stride slots (i # is) buf cur = do {
     sz \<leftarrow> rd8 slots i;
     if sz < 2 then compact_units stride slots is buf cur
     else do {
       part \<leftarrow> rd_slice buf (i * stride + 2) (unat sz - 2);
       buf \<leftarrow> wr_slice buf cur part;
       compact_units stride slots is buf (cur + (unat sz - 2)) } }"

datatype flush_result =
    CHIAKI_FRAME_PROCESSOR_FLUSH_RESULT_SUCCESS
  | CHIAKI_FRAME_PROCESSOR_FLUSH_RESULT_FEC_SUCCESS
  | CHIAKI_FRAME_PROCESSOR_FLUSH_RESULT_FEC_FAILED
  | CHIAKI_FRAME_PROCESSOR_FLUSH_RESULT_FAILED

text \<open>The frame is the first \<open>frame_size\<close> bytes of the buffer.\<close>

definition chiaki_frame_processor_flush ::
    "fec_decode \<Rightarrow> fec_env \<Rightarrow> bool \<Rightarrow> frame_processor \<Rightarrow> (flush_result \<times> bytes \<times> frame_processor) option" where
  "chiaki_frame_processor_flush decode E alloc fp =
     (if fp_units_source_expected fp = 0 \<or> fp_flushed fp
      then Some (CHIAKI_FRAME_PROCESSOR_FLUSH_RESULT_FAILED, [], fp)
      else do {
        (result, fp) \<leftarrow>
          (if fp_units_source_received fp < fp_units_source_expected fp
           then do {
             (err, fp) \<leftarrow> chiaki_frame_processor_fec decode E alloc fp;
             Some (if err = CHIAKI_ERR_SUCCESS then CHIAKI_FRAME_PROCESSOR_FLUSH_RESULT_FEC_SUCCESS
                   else CHIAKI_FRAME_PROCESSOR_FLUSH_RESULT_FEC_FAILED, fp) }
           else Some (CHIAKI_FRAME_PROCESSOR_FLUSH_RESULT_SUCCESS, fp));
        slots \<leftarrow> fp_unit_slots fp;
        b \<leftarrow> fp_frame_buf fp;
        (b, cur) \<leftarrow> compact_units (unat (fp_buf_stride_per_unit fp)) slots
                      [0..<unat (fp_units_source_expected fp)] b 0;
        Some (result, take cur b,
          fp\<lparr>fp_frame_buf := Some b,
             fp_stream_stats := chiaki_stream_stats_frame (fp_stream_stats fp) (of_nat cur)\<rparr>) })"

end
