(* ===== verification/FrameProcessorProps.thy ===== *)
theory FrameProcessorProps
  imports FrameProcessor
begin

text \<open>
  A frame sent as data units and coding units comes back whole from any sufficient subset of them, in any
  order, given that the erasure code restores what it promises to; and the path in which a refused frame
  leaves sizes behind that no longer fit the buffers.
\<close>

subsection \<open>Slices\<close>

lemma nth_wr_slice:
  assumes "wr_slice b off xs = Some b'" "m < length b"
  shows "b' ! m = (if off \<le> m \<and> m < off + length xs then xs ! (m - off) else b ! m)"
proof -
  have b': "b' = take off b @ xs @ drop (off + length xs) b" "off + length xs \<le> length b"
    using assms(1) by (auto simp: wr_slice_def split: if_splits)
  consider "m < off" | "off \<le> m" "m < off + length xs" "m - off < length xs"
    | "off + length xs \<le> m" "\<not> m - off < length xs" by linarith
  then show ?thesis by cases (use b' assms(2) in \<open>simp_all add: nth_append\<close>)
qed

lemma rd_wr_other:
  assumes w: "wr_slice b off xs = Some b'" and d: "off + length xs \<le> off' \<or> off' + n \<le> off"
  shows "rd_slice b' off' n = rd_slice b off' n"
proof (cases "off' + n \<le> length b")
  case True
  have l: "length b' = length b" using w by (rule wr_slice_length)
  have "take n (drop off' b') = take n (drop off' b)"
  proof (rule nth_equalityI)
    fix t assume "t < length (take n (drop off' b'))"
    then have t: "t < n" "off' + t < length b" using True by (simp_all add: l)
    then have "b' ! (off' + t) = b ! (off' + t)" using d by (subst nth_wr_slice [OF w]) auto
    then show "take n (drop off' b') ! t = take n (drop off' b) ! t" using t True l by simp
  qed (simp add: l)
  then show ?thesis by (simp add: rd_slice_def l)
qed (simp add: rd_slice_def wr_slice_length [OF w])

lemma rd_wr_inside:
  assumes "wr_slice b off xs = Some b'" "rd_slice b off n = Some c" "length xs \<le> n"
  shows "rd_slice b' off n = Some (xs @ drop (length xs) c)"
proof -
  have b': "b' = take off b @ xs @ drop (off + length xs) b" "off + length xs \<le> length b"
    using assms(1) by (auto simp: wr_slice_def split: if_splits)
  have c: "off + n \<le> length b" "c = take n (drop off b)" using assms(2) by (auto simp: rd_slice_def split: if_splits)
  then show ?thesis using b' assms(3) wr_slice_length [OF assms(1)]
    by (simp add: rd_slice_def drop_take add.commute)
qed

lemma rd_slice_prefix:
  "rd_slice b off n = Some c \<Longrightarrow> i + l \<le> n \<Longrightarrow> rd_slice b (off + i) l = Some (take l (drop i c))"
  by (auto simp: rd_slice_def drop_take add.commute min_def split: if_splits)

text \<open>The units lie at multiples of the stride \<open>R\<close>; they are \<open>U\<close> bytes, \<open>U \<le> R\<close>.\<close>

lemma cells_apart:
  fixes R :: nat
  assumes "U \<le> R" "i \<noteq> j"
  shows "R * j + U \<le> R * i \<or> R * i + U \<le> R * j"
proof -
  consider "Suc j \<le> i" | "Suc i \<le> j" using assms(2) by linarith
  then show ?thesis
  proof cases
    case 1
    then have "R * Suc j \<le> R * i" by (rule mult_le_mono2)
    then show ?thesis using assms(1) by simp
  next
    case 2
    then have "R * Suc i \<le> R * j" by (rule mult_le_mono2)
    then show ?thesis using assms(1) by simp
  qed
qed

lemma rd_units_cells:
  "(\<And>i. i \<in> set is \<Longrightarrow> rd_slice b (R * i) U = Some (f i)) \<Longrightarrow> rd_units b R U is = Some (map f is)"
  by (induction "is") simp_all

lemma wr_units_cells:
  assumes "U \<le> R" "distinct is" "length us = length is" "\<And>u. u \<in> set us \<Longrightarrow> length u = U"
    and "\<And>i. i \<in> set is \<Longrightarrow> R * i + U \<le> length b"
  shows "\<exists>b'. wr_units b R is us = Some b' \<and> length b' = length b
    \<and> (\<forall>t < length is. rd_slice b' (R * (is ! t)) U = Some (us ! t))
    \<and> (\<forall>j. j \<notin> set is \<longrightarrow> rd_slice b' (R * j) U = rd_slice b (R * j) U)"
  using assms(2-)
proof (induction "is" arbitrary: us b)
  case Nil
  then show ?case by simp
next
  case (Cons i "is")
  then obtain u us' where us: "us = u # us'" by (cases us) auto
  then have u: "length u = U" "R * i + U \<le> length b" using Cons.prems by auto
  then obtain b1 where b1: "wr_slice b (R * i) u = Some b1" by simp
  have l: "length b1 = length b" using b1 by (rule wr_slice_length)
  have hyps: "distinct is" "length us' = length is" "\<And>u. u \<in> set us' \<Longrightarrow> length u = U"
    "\<And>i. i \<in> set is \<Longrightarrow> R * i + U \<le> length b1"
    using Cons.prems us l by auto
  obtain b' where b': "wr_units b1 R is us' = Some b'" "length b' = length b1"
    "\<forall>t < length is. rd_slice b' (R * (is ! t)) U = Some (us' ! t)"
    "\<forall>j. j \<notin> set is \<longrightarrow> rd_slice b' (R * j) U = rd_slice b1 (R * j) U"
    using Cons.IH [OF hyps] by blast
  have here: "rd_slice b1 (R * i) U = Some u" using rd_slice_wr_slice [OF b1] u(1) by simp
  have other: "rd_slice b1 (R * j) U = rd_slice b (R * j) U" if "j \<noteq> i" for j
    using rd_wr_other [OF b1, of "R * j" U] cells_apart [OF assms(1) that] u(1) by auto
  have "rd_slice b' (R * ((i # is) ! t)) U = Some ((u # us') ! t)" if "t < length (i # is)" for t
    using that b'(3,4) here Cons.prems(1) by (cases t) auto
  then show ?case using b1 b' l other us by auto
qed

subsection \<open>Putting the frame together\<close>

lemma compact_units_concat:
  assumes "\<And>i. i < length ps \<Longrightarrow> length (ps ! i) + 2 \<le> U" "U \<le> R"
    and "\<And>i. i < length ps \<Longrightarrow> \<exists>z. rd_slice b (R * i) U = Some z \<and> take (length (ps ! i)) (drop 2 z) = ps ! i"
    and "length ps \<le> length slots" "\<And>i. i < length ps \<Longrightarrow> unat (slots ! i) = length (ps ! i) + 2"
  shows "n \<le> length ps \<Longrightarrow> cur = length (concat (take n ps)) \<Longrightarrow> take cur b = concat (take n ps) \<Longrightarrow>
    (\<And>i. n \<le> i \<Longrightarrow> i < length ps \<Longrightarrow>
       \<exists>z. rd_slice b (R * i) U = Some z \<and> take (length (ps ! i)) (drop 2 z) = ps ! i) \<Longrightarrow>
    cur \<le> R * n \<Longrightarrow>
    \<exists>b'. compact_units R slots [n..<length ps] b cur = Some (b', length (concat ps)) \<and> length b' = length b
      \<and> take (length (concat ps)) b' = concat ps"
proof (induction "length ps - n" arbitrary: n b cur)
  case 0
  then show ?case by simp
next
  case (Suc d)
  then have n: "n < length ps" by simp
  then have step: "[n..<length ps] = n # [Suc n..<length ps]" by (simp add: upt_conv_Cons)
  let ?p = "ps ! n"
  have sl: "rd8 slots n = Some (slots ! n)" "unat (slots ! n) = length ?p + 2" "\<not> slots ! n < 2"
    using n assms(4,5) by (auto simp: word_less_nat_alt)
  obtain z where z: "rd_slice b (R * n) U = Some z" "take (length ?p) (drop 2 z) = ?p" using Suc.prems(4) n by blast
  have part: "rd_slice b (n * R + 2) (length ?p) = Some ?p"
    using rd_slice_prefix [OF z(1), of 2 "length ?p"] assms(1) [OF n] z(2) by (simp add: mult.commute add.commute)
  then have room: "cur + length ?p \<le> length b"
    using Suc.prems(5) by (auto simp: rd_slice_def mult.commute split: if_splits)
  then obtain b1 where b1: "wr_slice b cur ?p = Some b1" by simp
  have b1': "b1 = take cur b @ ?p @ drop (cur + length ?p) b" using b1 room by simp
  have t: "concat (take (Suc n) ps) = concat (take n ps) @ ?p" using n by (simp add: take_Suc_conv_app_nth)
  have "length (take cur b) = cur" using room by simp
  then have front: "take (cur + length ?p) b1 = concat (take (Suc n) ps)"
    using b1' Suc.prems(3) t by simp
  have le: "cur + length ?p \<le> R * Suc n" using Suc.prems(5) assms(1) [OF n] assms(2) by simp
  have later: "\<exists>z. rd_slice b1 (R * i) U = Some z \<and> take (length (ps ! i)) (drop 2 z) = ps ! i"
    if "Suc n \<le> i" "i < length ps" for i
  proof -
    have "R * Suc n \<le> R * i" using that(1) by (rule mult_le_mono2)
    then have "rd_slice b1 (R * i) U = rd_slice b (R * i) U" using le by (intro rd_wr_other [OF b1]) linarith
    then show ?thesis using Suc.prems(4) [of i] that by simp
  qed
  have dn: "d = length ps - Suc n" and cn: "cur + length ?p = length (concat (take (Suc n) ps))"
    using Suc.hyps(2) Suc.prems(2) by (simp_all add: t)
  obtain b' where "compact_units R slots [Suc n..<length ps] b1 (cur + length ?p) = Some (b', length (concat ps))"
      "length b' = length b1" "take (length (concat ps)) b' = concat ps"
    using Suc.hyps(1) [of "Suc n" "cur + length ?p" b1, OF dn _ cn front later le] n by auto
  moreover have "length b1 = length b" using b1 by (rule wr_slice_length)
  ultimately show ?case using sl part b1 by (simp add: step)
qed

subsection \<open>A frame and its units\<close>

definition source_unit :: "nat \<Rightarrow> bytes \<Rightarrow> bytes" where
  "source_unit U p = be16 (of_nat (U - 2 - length p)) @ p"

definition frame_units :: "nat \<Rightarrow> bytes list \<Rightarrow> bytes list \<Rightarrow> bytes list" where
  "frame_units U ps cs = map (source_unit U) ps @ cs"

definition padded :: "nat \<Rightarrow> bytes \<Rightarrow> bytes" where
  "padded U u = u @ replicate (U - length u) 0"

definition unit_packet :: "takion_av_packet \<Rightarrow> nat \<Rightarrow> bytes list \<Rightarrow> bytes list \<Rightarrow> nat \<Rightarrow> takion_av_packet" where
  "unit_packet p0 U ps cs i = p0\<lparr>av_is_video := True, av_unit_index := of_nat i,
     av_units_total := of_nat (length ps + length cs), av_units_fec := of_nat (length cs),
     av_data_size := of_nat (length (frame_units U ps cs ! i))\<rparr>"

definition frame_ok :: "nat \<Rightarrow> bytes list \<Rightarrow> bytes list \<Rightarrow> bool" where
  "frame_ok U ps cs \<longleftrightarrow> ps \<noteq> [] \<and> cs \<noteq> [] \<and> length ps + length cs \<le> UNIT_SLOTS_MAX \<and> 2 \<le> U \<and> U < 2 ^ 16
     \<and> (\<forall>p \<in> set ps. 2 + length p \<le> U) \<and> (\<forall>c \<in> set cs. length c = U)"

definition unit_stride :: "nat \<Rightarrow> nat" where
  "unit_stride U = (U + 15) div 16 * 16"

lemma stride_bounds: "U \<le> unit_stride U" "unit_stride U \<le> U + 15"
  unfolding unit_stride_def by presburger+

lemma unat_of_small: "n < 2 ^ LENGTH('a) \<Longrightarrow> unat (of_nat n :: 'a::len word) = n"
  by (simp add: unat_of_nat)

lemma frame_unit_length:
  assumes "frame_ok U ps cs" "i < length ps + length cs"
  shows "2 \<le> length (frame_units U ps cs ! i)" "length (frame_units U ps cs ! i) \<le> U"
    "i < length ps \<Longrightarrow> length (frame_units U ps cs ! i) = length (ps ! i) + 2"
    "\<not> i < length ps \<Longrightarrow> length (frame_units U ps cs ! i) = U"
  using assms by (auto simp: frame_ok_def frame_units_def source_unit_def nth_append)

text \<open>What the heap blocks of a frame processor are, whatever happened before.\<close>

definition fp_ok :: "frame_processor \<Rightarrow> bool" where
  "fp_ok fp \<longleftrightarrow> (case fp_frame_buf fp of None \<Rightarrow> fp_frame_buf_size fp = 0
     | Some b \<Rightarrow> length b = fp_frame_buf_size fp + CHIAKI_VIDEO_BUFFER_PADDING_SIZE)"

text \<open>The units \<open>S\<close> of the frame have arrived.\<close>

definition collecting :: "nat \<Rightarrow> bytes list \<Rightarrow> bytes list \<Rightarrow> nat set \<Rightarrow> frame_processor \<Rightarrow> bool" where
  "collecting U ps cs S fp \<longleftrightarrow> \<not> fp_flushed fp
     \<and> fp_units_source_expected fp = of_nat (length ps) \<and> fp_units_fec_expected fp = of_nat (length cs)
     \<and> fp_buf_size_per_unit fp = of_nat U \<and> fp_buf_stride_per_unit fp = of_nat (unit_stride U)
     \<and> fp_unit_slots_size fp = length ps + length cs
     \<and> fp_unit_slots fp = Some (map (\<lambda>i. if i \<in> S then of_nat (length (frame_units U ps cs ! i)) else 0)
          [0..<length ps + length cs])
     \<and> (\<exists>b. fp_frame_buf fp = Some b \<and> (\<forall>i < length ps + length cs. rd_slice b (unit_stride U * i) U
          = Some (if i \<in> S then padded U (frame_units U ps cs ! i) else replicate U 0)))
     \<and> fp_units_source_received fp = of_nat (card (S \<inter> {..<length ps}))
     \<and> fp_units_fec_received fp = of_nat (card (S \<inter> {length ps..<length ps + length cs}))"

lemma rd_zeros: "off + n \<le> l \<Longrightarrow> rd_slice (replicate l 0 @ rest) off n = Some (replicate n 0)"
  by (simp add: rd_slice_def)

lemma alloc_buffer_zero:
  assumes "fp_ok fp" "al_frame A" "fp_unit_slots_size fp = n" "fp_buf_stride_per_unit fp = of_nat R" "0 < R"
    "R < 2 ^ 17" "0 < n" "n \<le> UNIT_SLOTS_MAX"
  obtains b sz where "alloc_buffer A fp = Some (CHIAKI_ERR_SUCCESS, fp\<lparr>fp_frame_buf_size := sz, fp_frame_buf := Some b\<rparr>)"
    "\<And>i U. i < n \<Longrightarrow> U \<le> R \<Longrightarrow> rd_slice b (R * i) U = Some (replicate U 0)"
    "length b = sz + CHIAKI_VIDEO_BUFFER_PADDING_SIZE"
proof -
  have R: "unat (of_nat R :: u64) = R" using assms(6) by (intro unat_of_small) simp
  have "(2 ^ 64 - 1) div 2 ^ 17 \<le> (2 ^ 64 - 1 :: nat) div R" using assms(5,6) by (intro div_le_mono2) simp_all
  then have ov: "\<not> (2 ^ 64 - 1) div R < n" using assms(8) by (simp add: UNIT_SLOTS_MAX_def)
  have zero: "rd_slice (replicate (n * R + CHIAKI_VIDEO_BUFFER_PADDING_SIZE) 0 @ rest) (R * i) U = Some (replicate U 0)"
    if "i < n" "U \<le> R" for i U rest
  proof (rule rd_zeros)
    have "R * Suc i \<le> R * n" using that(1) by (intro mult_le_mono2) simp
    then show "R * i + U \<le> n * R + CHIAKI_VIDEO_BUFFER_PADDING_SIZE" using that(2) by (simp add: mult.commute)
  qed
  show thesis
  proof (cases "fp_frame_buf_size fp < n * R")
    case True
    then show thesis
      by (intro that [of "replicate (n * R + CHIAKI_VIDEO_BUFFER_PADDING_SIZE) 0" "n * R"])
        (use zero [of _ _ "[]"] assms R ov in \<open>simp_all add: alloc_buffer_def Let_def\<close>)
  next
    case False
    then have "0 < fp_frame_buf_size fp" using assms(5,7) by (metis bot_nat_0.not_eq_extremum mult_eq_0_iff)
    then obtain b where b: "fp_frame_buf fp = Some b" "length b = fp_frame_buf_size fp + CHIAKI_VIDEO_BUFFER_PADDING_SIZE"
      using assms(1) by (auto simp: fp_ok_def split: option.splits)
    let ?b = "replicate (n * R + CHIAKI_VIDEO_BUFFER_PADDING_SIZE) 0 @ drop (n * R + CHIAKI_VIDEO_BUFFER_PADDING_SIZE) b"
    have "alloc_buffer A fp = Some (CHIAKI_ERR_SUCCESS, fp\<lparr>fp_frame_buf := Some ?b\<rparr>)"
      using False b assms(3-5) R ov by (simp add: alloc_buffer_def Let_def)
    moreover have "fp\<lparr>fp_frame_buf_size := fp_frame_buf_size fp, fp_frame_buf := Some ?b\<rparr> = fp\<lparr>fp_frame_buf := Some ?b\<rparr>"
      by simp
    ultimately show thesis using that [of ?b "fp_frame_buf_size fp"] zero False b(2) by auto
  qed
qed

lemma alloc_collecting:
  assumes ok: "frame_ok U ps cs" and fp: "fp_ok fp" and A: "al_slots A" "al_frame A" and i: "i < length ps + length cs"
  obtains fp' where "chiaki_frame_processor_alloc_frame A (unit_packet p0 U ps cs i) (frame_units U ps cs ! i @ rest) fp
      = Some (CHIAKI_ERR_SUCCESS, fp')" "collecting U ps cs {} fp'"
proof -
  let ?k = "length ps" and ?m = "length cs" and ?u = "frame_units U ps cs ! i" and ?R = "unit_stride U"
  let ?p = "unit_packet p0 U ps cs i"
  have n: "0 < ?k" "0 < ?m" "?k + ?m \<le> 512" "2 \<le> U" "U < 2 ^ 16"
    using ok by (simp_all add: frame_ok_def UNIT_SLOTS_MAX_def)
  have un: "unat (of_nat ?k :: u32) = ?k" "unat (of_nat ?m :: u32) = ?m" "unat (of_nat (?k + ?m) :: u16) = ?k + ?m"
    "unat (of_nat ?m :: u16) = ?m" "unat (of_nat i :: u16) = i" "unat (of_nat (?k + ?m) :: u32) = ?k + ?m"
    "unat (of_nat U :: u64) = U" "unat (of_nat ?R :: u64) = ?R"
    using n i stride_bounds [of U] by (auto intro!: unat_of_small simp del: of_nat_add)
  have src: "(ucast (of_nat (?k + ?m) :: u16) - ucast (of_nat ?m :: u16) :: u32) = of_nat ?k"
    using un n by (intro unat_inj) (simp add: unat_sub_if' unat_ucast_up)
  have fec: "(ucast (of_nat ?m :: u16) :: u32) = of_nat ?m" "\<not> (of_nat ?m :: u16) < 1"
    using un n by (auto intro!: unat_inj simp: unat_ucast_up word_less_nat_alt)
  have le: "\<not> (of_nat (?k + ?m) :: u16) < of_nat ?m" using un by (simp add: word_less_nat_alt)
  have idx: "(ucast (of_nat i :: u16) :: u32) < of_nat ?k \<longleftrightarrow> i < ?k" using un by (simp add: word_less_nat_alt unat_ucast_up)
  note lu = frame_unit_length [OF ok i]
  have ul: "unat (of_nat (length ?u) :: u64) = length ?u" using lu(2) n(5) by (intro unat_of_small) simp
  have size: "alloc_unit_size ?p (of_nat ?k) (?u @ rest) = ret_ok (of_nat U)"
  proof (cases "i < ?k")
    case True
    have u: "?u = be16 (of_nat (U - 2 - length (ps ! i))) @ ps ! i"
      using True by (simp add: frame_units_def source_unit_def nth_append)
    have le2: "2 + length (ps ! i) \<le> U" using ok True by (auto simp: frame_ok_def)
    have rd: "rd16be (?u @ rest) 0 = Some (of_nat (U - 2 - length (ps ! i)))"
      unfolding u using rd16be_at [of "[]" 0 _ "ps ! i @ rest"] by simp
    have x: "unat (of_nat (U - 2 - length (ps ! i)) :: u16) = U - 2 - length (ps ! i)"
      using n(5) by (intro unat_of_small) simp
    have "(of_nat (length ?u) + ucast (of_nat (U - 2 - length (ps ! i)) :: u16) :: u64) = of_nat U"
    proof (rule unat_inj)
      let ?x = "of_nat (U - 2 - length (ps ! i)) :: u16"
      have "unat (ucast ?x :: u64) = U - 2 - length (ps ! i)"
        by (rule trans [OF unat_ucast_up x]) simp
      then have "unat (of_nat (length ?u) :: u64) + unat (ucast ?x :: u64) = U"
        using le2 lu(3) [OF True] ul by linarith
      moreover from this have "unat (of_nat (length ?u) :: u64) + unat (ucast ?x :: u64) < 2 ^ LENGTH(64)"
        using n(5) by simp
      ultimately show "unat (of_nat (length ?u) + ucast ?x :: u64) = unat (of_nat U :: u64)"
        using un(7) unat_add_lem [THEN iffD1] by metis
    qed
    then show ?thesis using True rd lu(1) ul idx
      by (simp add: alloc_unit_size_def unit_packet_def word_less_nat_alt)
  next
    case False
    then show ?thesis using lu(4) idx by (simp add: alloc_unit_size_def unit_packet_def)
  qed
  have stride: "((of_nat U + 0xf) div 0x10) * 0x10 = (of_nat ?R :: u64)"
  proof (rule unat_inj)
    have a: "unat (of_nat U + 0xf :: u64) = U + 15" using n(5) un(7) by (simp add: unat_plus_if')
    have "unat (((of_nat U + 0xf) div 0x10) * 0x10 :: u64) = (U + 15) div 16 * 16"
      using n(5) a by (subst unat_mult_lem [THEN iffD1]) (simp_all add: unat_div_distrib)
    then show "unat (((of_nat U + 0xf) div 0x10) * 0x10 :: u64) = unat (of_nat ?R :: u64)"
      using un(8) by (simp add: unit_stride_def)
  qed
  have U0: "(of_nat U :: u64) \<noteq> 0" using un(7) n(4) by auto
  define fp1 where "fp1 = fp\<lparr>fp_flushed := False, fp_units_source_expected := of_nat ?k,
    fp_units_fec_expected := of_nat ?m, fp_buf_size_per_unit := of_nat U, fp_buf_stride_per_unit := of_nat ?R,
    fp_units_source_received := 0, fp_units_fec_received := 0, fp_unit_slots := Some (replicate (?k + ?m) 0),
    fp_unit_slots_size := ?k + ?m\<rparr>"
  have s: "fp_ok fp1" "fp_unit_slots_size fp1 = ?k + ?m" "fp_buf_stride_per_unit fp1 = of_nat ?R"
    using fp by (cases "fp_frame_buf fp"; simp add: fp_ok_def fp1_def)+
  have r: "0 < ?R" "?R < 2 ^ 17" "0 < ?k + ?m" "?k + ?m \<le> UNIT_SLOTS_MAX"
    using stride_bounds [of U] n by (simp_all add: UNIT_SLOTS_MAX_def)
  obtain b sz where b: "alloc_buffer A fp1 = Some (CHIAKI_ERR_SUCCESS, fp1\<lparr>fp_frame_buf_size := sz, fp_frame_buf := Some b\<rparr>)"
    "\<And>i U'. i < ?k + ?m \<Longrightarrow> U' \<le> ?R \<Longrightarrow> rd_slice b (?R * i) U' = Some (replicate U' 0)"
    by (rule alloc_buffer_zero [OF s(1) A(2) s(2,3) r]) blast
  have slots: "alloc_slots A (unat (of_nat ?k + of_nat ?m :: u32)) (fp\<lparr>fp_flushed := False,
      fp_units_source_expected := of_nat ?k, fp_units_fec_expected := of_nat ?m, fp_buf_size_per_unit := of_nat U,
      fp_buf_stride_per_unit := of_nat ?R, fp_units_source_received := 0, fp_units_fec_received := 0\<rparr>)
      = (CHIAKI_ERR_SUCCESS, fp1)"
    using A(1) n un(6) by (simp add: alloc_slots_def fp1_def UNIT_SLOTS_MAX_def)
  have "chiaki_frame_processor_alloc_frame A ?p (?u @ rest) fp = alloc_buffer A fp1"
    using size stride slots U0 le src fec
    by (simp add: chiaki_frame_processor_alloc_frame_def Let_def unit_packet_def) 
  moreover have "collecting U ps cs {} (fp1\<lparr>fp_frame_buf_size := sz, fp_frame_buf := Some b\<rparr>)"
    using b(2) stride_bounds(1) [of U] by (simp add: collecting_def fp1_def map_replicate_const)
  ultimately show thesis using that b(1) by simp
qed

lemma put_collecting:
  assumes ok: "frame_ok U ps cs" and c: "collecting U ps cs S fp" and i: "i < length ps + length cs" "i \<notin> S"
    and S: "finite S"
  obtains fp' where "chiaki_frame_processor_put_unit (unit_packet p0 U ps cs i) (frame_units U ps cs ! i @ rest) fp
      = Some (CHIAKI_ERR_SUCCESS, fp')" "collecting U ps cs (insert i S) fp'"
proof -
  let ?k = "length ps" and ?m = "length cs" and ?u = "frame_units U ps cs ! i" and ?R = "unit_stride U"
  let ?slots = "map (\<lambda>i. if i \<in> S then of_nat (length (frame_units U ps cs ! i)) else 0) [0..<?k + ?m] :: u64 list"
  have n: "?k + ?m \<le> 512" "U < 2 ^ 16" using ok by (simp_all add: frame_ok_def UNIT_SLOTS_MAX_def)
  note lu = frame_unit_length [OF ok i(1)]
  have un: "unat (of_nat i :: u16) = i" "unat (of_nat ?k :: u32) = ?k" "unat (of_nat U :: u64) = U"
    "unat (of_nat ?R :: u64) = ?R" "unat (of_nat (length ?u) :: u64) = length ?u" "unat (of_nat (?k + ?m) :: u16) = ?k + ?m"
    using n i lu(2) stride_bounds [of U] by (auto intro!: unat_of_small simp del: of_nat_add)
  obtain b where b: "fp_frame_buf fp = Some b" "\<And>i. i < ?k + ?m \<Longrightarrow> rd_slice b (?R * i) U
          = Some (if i \<in> S then padded U (frame_units U ps cs ! i) else replicate U 0)"
    using c by (auto simp: collecting_def)
  have fp: "\<not> fp_flushed fp" "fp_units_source_expected fp = of_nat ?k" "fp_buf_size_per_unit fp = of_nat U"
    "fp_buf_stride_per_unit fp = of_nat ?R" "fp_unit_slots_size fp = ?k + ?m" "fp_unit_slots fp = Some ?slots"
    using c by (simp_all add: collecting_def)
  have here: "rd_slice b (?R * i) U = Some (replicate U 0)" using b(2) [OF i(1)] i(2) by simp
  then have room: "i * ?R + length ?u \<le> length b" using lu(2) by (auto simp: rd_slice_def mult.commute split: if_splits)
  define b' where "b' = take (i * ?R) b @ ?u @ drop (i * ?R + length ?u) b"
  have w: "wr_slice b (i * ?R) ?u = Some b'" using room by (simp add: b'_def)
  have cell: "rd_slice b' (?R * j) U = Some (if j \<in> insert i S then padded U (frame_units U ps cs ! j) else replicate U 0)"
    if "j < ?k + ?m" for j
  proof (cases "j = i")
    case True
    then show ?thesis using rd_wr_inside [OF w _ lu(2)] here by (simp add: padded_def mult.commute)
  next
    case False
    have "rd_slice b' (?R * j) U = rd_slice b (?R * j) U"
      using cells_apart [OF stride_bounds(1) False, of U] lu(2) by (intro rd_wr_other [OF w]) (auto simp: mult.commute)
    then show ?thesis using b(2) [OF that] False by simp
  qed
  have slots: "?slots[i := of_nat (length ?u)]
      = map (\<lambda>j. if j \<in> insert i S then of_nat (length (frame_units U ps cs ! j)) else 0) [0..<?k + ?m]"
    using i(1) by (intro nth_equalityI) (auto simp: nth_list_update)
  have idx: "(ucast (of_nat i :: u16) :: u32) < of_nat ?k \<longleftrightarrow> i < ?k"
    using un by (simp add: word_less_nat_alt unat_ucast_up)
  let ?fp = "fp\<lparr>fp_unit_slots := Some (?slots[i := of_nat (length ?u)]), fp_frame_buf := Some b'\<rparr>"
  define fp' where "fp' = (if i < ?k then ?fp\<lparr>fp_units_source_received := fp_units_source_received fp + 1\<rparr>
      else ?fp\<lparr>fp_units_fec_received := fp_units_fec_received fp + 1\<rparr>)"
  have le: "\<not> (of_nat (?k + ?m) :: u16) \<le> of_nat i" "(of_nat (length ?u) :: u64) \<noteq> 0"
    "\<not> (of_nat U :: u64) < of_nat (length ?u)"
    using un lu(1,2) i(1) by (auto simp: word_le_nat_alt word_less_nat_alt simp del: of_nat_add)
  have "chiaki_frame_processor_put_unit (unit_packet p0 U ps cs i) (?u @ rest) fp = Some (CHIAKI_ERR_SUCCESS, fp')"
    using fp b(1) w un i le idx room
    by (simp add: chiaki_frame_processor_put_unit_def Let_def unit_packet_def fp'_def del: of_nat_add)
  moreover have "collecting U ps cs (insert i S) fp'"
  proof -
    have "card (insert i S \<inter> {..<?k}) = card (S \<inter> {..<?k}) + (if i < ?k then 1 else 0)"
      "card (insert i S \<inter> {?k..<?k + ?m}) = card (S \<inter> {?k..<?k + ?m}) + (if i < ?k then 0 else 1)"
      using i S by simp_all
    then show ?thesis using c cell by (simp add: collecting_def fp'_def slots)
  qed
  ultimately show thesis by (rule that)
qed

subsection \<open>Receiving a frame\<close>

text \<open>The units \<open>is\<close> arrive one after the other; \<open>rest\<close> is what follows the unit in its datagram.\<close>

fun put_units ::
    "takion_av_packet \<Rightarrow> nat \<Rightarrow> bytes list \<Rightarrow> bytes list \<Rightarrow> nat list \<Rightarrow> frame_processor \<Rightarrow> frame_processor option" where
  "put_units p0 U ps cs [] fp = Some fp"
| "put_units p0 U ps cs (i # is) fp = do {
     (err, fp) \<leftarrow> chiaki_frame_processor_put_unit (unit_packet p0 U ps cs i) (frame_units U ps cs ! i) fp;
     put_units p0 U ps cs is fp }"

lemma put_units_collecting:
  assumes "frame_ok U ps cs"
  shows "collecting U ps cs S fp \<Longrightarrow> distinct is \<Longrightarrow> set is \<inter> S = {} \<Longrightarrow> finite S \<Longrightarrow>
    set is \<subseteq> {..<length ps + length cs} \<Longrightarrow>
    \<exists>fp'. put_units p0 U ps cs is fp = Some fp' \<and> collecting U ps cs (S \<union> set is) fp'"
proof (induction "is" arbitrary: S fp)
  case Nil
  then show ?case by simp
next
  case (Cons i "is")
  have i: "i < length ps + length cs" "i \<notin> S" using Cons.prems by auto
  obtain fp1 where fp1: "chiaki_frame_processor_put_unit (unit_packet p0 U ps cs i) (frame_units U ps cs ! i @ []) fp
      = Some (CHIAKI_ERR_SUCCESS, fp1)" "collecting U ps cs (insert i S) fp1"
    by (rule put_collecting [OF assms Cons.prems(1) i Cons.prems(4)])
  have "set is \<inter> insert i S = {}" "finite (insert i S)" using Cons.prems by auto
  then show ?case using Cons.IH [OF fp1(2)] Cons.prems fp1(1) by simp
qed

text \<open>What \<open>jerasure\<close> promises: a codeword with at most as many units erased as it has coding units comes
  back, whatever bytes are in the place of those.\<close>

definition fec_recovers :: "fec_decode \<Rightarrow> nat \<Rightarrow> bytes list \<Rightarrow> bytes list \<Rightarrow> bool" where
  "fec_recovers decode U data coding \<longleftrightarrow> (\<forall>E d c.
     distinct E \<and> set E \<subseteq> {..<length data + length coding} \<and> length E \<le> length coding
     \<and> length d = length data \<and> length c = length coding
     \<and> (\<forall>x \<in> set d \<union> set c. length x = U)
     \<and> (\<forall>i < length data. i \<notin> set E \<longrightarrow> d ! i = data ! i)
     \<and> (\<forall>i < length coding. length data + i \<notin> set E \<longrightarrow> c ! i = coding ! i)
     \<longrightarrow> decode (length data) (length coding) E d c U = (True, data, coding))"

definition fec_works :: "fec_env \<Rightarrow> bool" where
  "fec_works E \<longleftrightarrow> fe_matrix E \<and> fe_erasures E \<and> fe_data E \<and> fe_coding E"

lemma empty_slots_filter:
  "(\<And>i. i \<in> set is \<Longrightarrow> i < length slots) \<Longrightarrow> empty_slots slots is = Some (filter (\<lambda>i. slots ! i = 0) is)"
  by (induction "is") simp_all

lemma rd16be_slice: "rd_slice b off n = Some c \<Longrightarrow> 2 \<le> n \<Longrightarrow> rd16be b off = rd16be c 0"
  by (auto simp: rd_slice_def split: if_splits)

lemma restore_sizes_all:
  assumes "\<And>i. i \<in> set is \<Longrightarrow> rd16be b (R * i) = Some (pad i)" "\<And>i. i \<in> set is \<Longrightarrow> ucast (pad i) < sz"
  shows "(\<And>i. i \<in> set is \<Longrightarrow> i < length slots) \<Longrightarrow> \<exists>slots'. restore_sizes b R sz is slots = Some slots'
    \<and> length slots' = length slots \<and> (\<forall>i < length slots. slots' ! i = (if i \<in> set is then sz - ucast (pad i) else slots ! i))"
  using assms
proof (induction "is" arbitrary: slots)
  case Nil
  then show ?case by simp
next
  case (Cons i "is")
  let ?s = "slots[i := sz - ucast (pad i)]"
  have i: "i < length slots" using Cons.prems(1) by simp
  have "\<exists>slots'. restore_sizes b R sz is ?s = Some slots'
      \<and> length slots' = length ?s \<and> (\<forall>j < length ?s. slots' ! j = (if j \<in> set is then sz - ucast (pad j) else ?s ! j))"
    by (rule Cons.IH) (use Cons.prems in auto)
  moreover have "rd16be b (R * i) = Some (pad i)" "\<not> sz \<le> ucast (pad i)" using Cons.prems(2,3) [of i] by auto
  ultimately show ?case using i by auto
qed

lemma pad_value:
  assumes "2 + length p \<le> U" "U < 2 ^ 16"
  shows "ucast (of_nat (U - 2 - length p) :: u16) < (of_nat U :: u64)"
    "unat ((of_nat U :: u64) - ucast (of_nat (U - 2 - length p) :: u16)) = length p + 2"
proof -
  have "unat (of_nat (U - 2 - length p) :: u16) = U - 2 - length p" using assms by (intro unat_of_small) simp
  then have x: "unat (ucast (of_nat (U - 2 - length p) :: u16) :: u64) = U - 2 - length p"
    using unat_ucast_up [of "of_nat (U - 2 - length p) :: u16", where 'b = 64] by simp
  have U: "unat (of_nat U :: u64) = U" using assms(2) by (intro unat_of_small) simp
  show lt: "ucast (of_nat (U - 2 - length p) :: u16) < (of_nat U :: u64)"
    using x U assms(1) by (simp add: word_less_nat_alt)
  have "unat ((of_nat U :: u64) - ucast (of_nat (U - 2 - length p) :: u16)) = U - (U - 2 - length p)"
    using unat_sub [of "ucast (of_nat (U - 2 - length p) :: u16)" "of_nat U :: u64"] lt x U by simp
  then show "unat ((of_nat U :: u64) - ucast (of_nat (U - 2 - length p) :: u16)) = length p + 2" using assms(1) by simp
qed

subsection \<open>Flushing\<close>

abbreviation data_words :: "nat \<Rightarrow> bytes list \<Rightarrow> bytes list" where
  "data_words U ps \<equiv> map (\<lambda>p. padded U (source_unit U p)) ps"

lemma data_word:
  assumes "2 + length p \<le> U"
  shows "length (padded U (source_unit U p)) = U"
    "rd16be (padded U (source_unit U p)) 0 = Some (of_nat (U - 2 - length p))"
    "take (length p) (drop 2 (padded U (source_unit U p))) = p"
proof -
  have e: "padded U (source_unit U p)
      = [] @ be16 (of_nat (U - 2 - length p)) @ (p @ replicate (U - length (source_unit U p)) 0)"
    by (simp add: padded_def source_unit_def)
  show "length (padded U (source_unit U p)) = U" using assms by (simp add: padded_def source_unit_def)
  show "rd16be (padded U (source_unit U p)) 0 = Some (of_nat (U - 2 - length p))"
    unfolding e by (rule rd16be_at) simp
  show "take (length p) (drop 2 (padded U (source_unit U p))) = p" unfolding e by simp
qed

text \<open>The frame of a state in which the data units are in place.\<close>

lemma compact_frame:
  assumes ok: "frame_ok U ps cs" and slots: "length slots = length ps + length cs"
    and sz: "\<And>i. i < length ps \<Longrightarrow> unat (slots ! i) = length (ps ! i) + 2"
    and cell: "\<And>i. i < length ps \<Longrightarrow> rd_slice b (unit_stride U * i) U = Some (padded U (source_unit U (ps ! i)))"
  obtains b' where "compact_units (unit_stride U) slots [0..<length ps] b 0 = Some (b', length (concat ps))"
    "take (length (concat ps)) b' = concat ps"
proof -
  have p: "length (ps ! i) + 2 \<le> U" if "i < length ps" for i using ok that by (auto simp: frame_ok_def add.commute)
  have z: "\<exists>z. rd_slice b (unit_stride U * i) U = Some z \<and> take (length (ps ! i)) (drop 2 z) = ps ! i"
    if "i < length ps" for i
    using cell [OF that] data_word(3) [of "ps ! i" U] p [OF that] by simp
  show thesis
    using compact_units_concat [where slots = slots and n = 0 and cur = 0, OF p stride_bounds(1) z _ sz] z slots that
    by auto
qed

lemma fec_restores:
  assumes ok: "frame_ok U ps cs" and c: "collecting U ps cs S fp"
    and S: "S \<subseteq> {..<length ps + length cs}" "length ps \<le> card S"
    and fec: "fec_recovers decode U (data_words U ps) cs" "fec_works E"
  obtains fp' b slots where "chiaki_frame_processor_fec decode E True fp = Some (CHIAKI_ERR_SUCCESS, fp')"
    "fp_frame_buf fp' = Some b" "fp_unit_slots fp' = Some slots" "length slots = length ps + length cs"
    "\<And>i. i < length ps \<Longrightarrow> unat (slots ! i) = length (ps ! i) + 2"
    "\<And>i. i < length ps \<Longrightarrow> rd_slice b (unit_stride U * i) U = Some (padded U (source_unit U (ps ! i)))"
    "fp_units_source_expected fp' = fp_units_source_expected fp"
    "fp_buf_stride_per_unit fp' = fp_buf_stride_per_unit fp"
proof -
  let ?k = "length ps" and ?m = "length cs" and ?R = "unit_stride U"
  let ?slots = "map (\<lambda>i. if i \<in> S then of_nat (length (frame_units U ps cs ! i)) else 0) [0..<?k + ?m] :: u64 list"
  let ?cell = "\<lambda>i. if i \<in> S then padded U (frame_units U ps cs ! i) else replicate U 0"
  have n: "?k + ?m \<le> 512" "U < 2 ^ 16" "2 \<le> U" "\<And>i. i < ?k \<Longrightarrow> 2 + length (ps ! i) \<le> U" "\<And>x. x \<in> set cs \<Longrightarrow> length x = U"
    using ok by (auto simp: frame_ok_def UNIT_SLOTS_MAX_def)
  obtain b where b: "fp_frame_buf fp = Some b" "\<And>i. i < ?k + ?m \<Longrightarrow> rd_slice b (?R * i) U = Some (?cell i)"
    using c by (auto simp: collecting_def)
  have fp: "fp_units_source_expected fp = of_nat ?k" "fp_units_fec_expected fp = of_nat ?m"
    "fp_buf_size_per_unit fp = of_nat U" "fp_buf_stride_per_unit fp = of_nat ?R" "fp_unit_slots fp = Some ?slots"
    "fp_units_source_received fp + fp_units_fec_received fp = of_nat (card S)"
  proof -
    have eq: "S = (S \<inter> {..<?k}) \<union> (S \<inter> {?k..<?k + ?m})" using S(1) by auto
    have "card ((S \<inter> {..<?k}) \<union> (S \<inter> {?k..<?k + ?m})) = card (S \<inter> {..<?k}) + card (S \<inter> {?k..<?k + ?m})"
      by (rule card_Un_disjoint) auto
    then have "card S = card (S \<inter> {..<?k}) + card (S \<inter> {?k..<?k + ?m})" by (simp only: eq [symmetric])
    then show "fp_units_source_received fp + fp_units_fec_received fp = of_nat (card S)"
      using c by (simp add: collecting_def)
  qed (use c in \<open>simp_all add: collecting_def\<close>)
  have cardS: "card S \<le> ?k + ?m" using card_mono [OF _ S(1)] by simp
  have un: "unat (of_nat ?k :: u32) = ?k" "unat (of_nat ?m :: u32) = ?m" "unat (of_nat (?k + ?m) :: u32) = ?k + ?m"
    "unat (of_nat U :: u64) = U" "unat (of_nat ?R :: u64) = ?R" "unat (of_nat (card S) :: u32) = card S"
    using n cardS stride_bounds [of U] by (auto intro!: unat_of_small simp del: of_nat_add)
  let ?er = "filter (\<lambda>i. i \<notin> S) [0..<?k + ?m]"
  have lu: "length (frame_units U ps cs ! i) \<noteq> 0" "length (frame_units U ps cs ! i) < 2 ^ 64" if "i < ?k + ?m" for i
    using frame_unit_length(1,2) [OF ok that] n(2) by auto
  have "filter (\<lambda>i. ?slots ! i = 0) [0..<?k + ?m] = ?er"
  proof (rule filter_cong [OF refl])
    fix i assume "i \<in> set [0..<?k + ?m]"
    then have i: "i < ?k + ?m" by simp
    have "unat (of_nat (length (frame_units U ps cs ! i)) :: u64) = length (frame_units U ps cs ! i)"
      using lu(2) [OF i] by (intro unat_of_small) simp
    then have "(of_nat (length (frame_units U ps cs ! i)) :: u64) \<noteq> 0" using lu(1) [OF i] by (metis unat_0)
    then show "(?slots ! i = 0) = (i \<notin> S)" using i by simp
  qed
  then have er: "empty_slots ?slots [0..<?k + ?m] = Some ?er"
    using empty_slots_filter [of "[0..<?k + ?m]" ?slots] by simp
  have ler: "length ?er = ?k + ?m - card S"
  proof -
    have "length ?er = card (set ?er)" by (rule distinct_card [symmetric]) simp
    also have "set ?er = {..<?k + ?m} - S" by auto
    also have "card \<dots> = ?k + ?m - card S" using S(1) by (simp add: card_Diff_subset finite_subset)
    finally show ?thesis .
  qed
  have cnt: "unat (of_nat ?k + of_nat ?m - of_nat (card S) :: u32) = ?k + ?m - card S"
  proof -
    have "unat (of_nat (?k + ?m) - of_nat (card S) :: u32) = ?k + ?m - card S"
      using un(3,6) cardS by (subst unat_sub) (simp_all add: word_le_nat_alt del: of_nat_add)
    then show ?thesis by simp
  qed
  let ?d = "map ?cell [0..<?k]" and ?c = "map ?cell [?k..<?k + ?m]"
  have rd: "rd_units b ?R U [0..<?k] = Some ?d" "rd_units b ?R U [?k..<?k + ?m] = Some ?c"
    by (rule rd_units_cells, use b(2) in simp)+
  have unit: "padded U (frame_units U ps cs ! i) = (if i < ?k then padded U (source_unit U (ps ! i)) else cs ! (i - ?k))"
    if "i < ?k + ?m" for i
    using that n(5) by (auto simp: frame_units_def nth_append padded_def)
  have words: "\<forall>x \<in> set ?d \<union> set ?c. length x = U"
    using unit n(5) data_word(1) n(4) by (auto simp: less_diff_conv2)
  have dec: "decode ?k ?m ?er ?d ?c U = (True, data_words U ps, cs)"
  proof -
    have "set ?er \<subseteq> {..<?k + ?m}" "length ?er \<le> ?m" using ler S(2) by auto
    moreover have "?d ! i = data_words U ps ! i" if "i < ?k" "i \<notin> set ?er" for i using that unit [of i] by simp
    moreover have "?c ! i = cs ! i" if "i < ?m" "?k + i \<notin> set ?er" for i using that unit [of "?k + i"] by simp
    ultimately show ?thesis
      using fec(1) [unfolded fec_recovers_def, rule_format, of ?er ?d ?c] words by simp
  qed
  have bounds: "?R * i + U \<le> length b" if "i < ?k + ?m" for i
    using b(2) [OF that] by (auto simp: rd_slice_def split: if_splits)
  obtain b1 where b1: "wr_units b ?R [0..<?k] (data_words U ps) = Some b1" "length b1 = length b"
    "\<forall>t < length [0..<?k]. rd_slice b1 (?R * ([0..<?k] ! t)) U = Some (data_words U ps ! t)"
  proof -
    have dl: "length u = U" if "u \<in> set (data_words U ps)" for u
      using that data_word(1) n(4) by (auto simp: in_set_conv_nth)
    have "\<exists>b'. wr_units b ?R [0..<?k] (data_words U ps) = Some b' \<and> length b' = length b
        \<and> (\<forall>t < length [0..<?k]. rd_slice b' (?R * ([0..<?k] ! t)) U = Some (data_words U ps ! t))
        \<and> (\<forall>j. j \<notin> set [0..<?k] \<longrightarrow> rd_slice b' (?R * j) U = rd_slice b (?R * j) U)"
      by (rule wr_units_cells [OF stride_bounds(1) distinct_upt _ dl]) (use bounds in simp_all)
    then show thesis using that by blast
  qed
  obtain b2 where b2: "wr_units b1 ?R [?k..<?k + ?m] cs = Some b2"
    "\<forall>j. j \<notin> set [?k..<?k + ?m] \<longrightarrow> rd_slice b2 (?R * j) U = rd_slice b1 (?R * j) U"
  proof -
    have "\<exists>b'. wr_units b1 ?R [?k..<?k + ?m] cs = Some b' \<and> length b' = length b1
        \<and> (\<forall>t < length [?k..<?k + ?m]. rd_slice b' (?R * ([?k..<?k + ?m] ! t)) U = Some (cs ! t))
        \<and> (\<forall>j. j \<notin> set [?k..<?k + ?m] \<longrightarrow> rd_slice b' (?R * j) U = rd_slice b1 (?R * j) U)"
      by (rule wr_units_cells [OF stride_bounds(1) distinct_upt _ n(5)]) (use bounds b1(2) in simp_all)
    then show thesis using that by blast
  qed
  have data: "rd_slice b2 (?R * i) U = Some (padded U (source_unit U (ps ! i)))" if "i < ?k" for i
    using b2(2) b1(3) that by simp
  have fd: "chiaki_fec_decode decode E b U ?R ?k ?m ?er = Some (CHIAKI_ERR_SUCCESS, b2)"
    using stride_bounds(1) [of U] fec(2) rd dec b1(1) b2(1)
    by (simp add: chiaki_fec_decode_def fec_works_def not_less)
  let ?pad = "\<lambda>i. of_nat (U - 2 - length (ps ! i)) :: u16"
  have "rd16be b2 (?R * i) = Some (?pad i)" if "i < ?k" for i
    using rd16be_slice [OF data [OF that] n(3)] data_word(2) [OF n(4) [OF that]] by simp
  moreover have "ucast (?pad i) < (of_nat U :: u64)" if "i < ?k" for i by (rule pad_value(1) [OF n(4) [OF that] n(2)])
  ultimately obtain slots where sl: "restore_sizes b2 ?R (of_nat U) [0..<?k] ?slots = Some slots"
    "length slots = ?k + ?m" "\<And>i. i < ?k \<Longrightarrow> slots ! i = of_nat U - ucast (?pad i)"
    using restore_sizes_all [of "[0..<?k]" b2 ?R ?pad "of_nat U" ?slots] by auto
  have szs: "unat (slots ! i) = length (ps ! i) + 2" if "i < ?k" for i
    using sl(3) [OF that] pad_value(2) [OF n(4) [OF that] n(2)] by simp
  let ?fp = "fp\<lparr>fp_frame_buf := Some b2, fp_unit_slots := Some slots\<rparr>"
  have "?k + ?m \<noteq> 0" using ok by (simp add: frame_ok_def)
  then have nz: "(of_nat ?k + of_nat ?m :: u32) \<noteq> 0" "unat (of_nat ?k + of_nat ?m :: u32) = ?k + ?m"
    using un(3) by (auto simp: unat_eq_0 [symmetric])
  have "chiaki_frame_processor_fec decode E True fp = Some (CHIAKI_ERR_SUCCESS, ?fp)"
    using fp b(1) er ler cnt fd sl(1) un nz
    by (simp add: chiaki_frame_processor_fec_def Let_def)
  then show thesis by (rule that) (use sl(2) szs data in simp_all)
qed

text \<open>C22. A frame survives the loss of units: when a frame cut into data units of at most \<open>U\<close> bytes, together
  with the coding units of an erasure code, is received by a frame processor in any state, in any order
  and with no more units missing than there are coding units, the frame is allocated, every unit that
  arrives is taken, a flush becomes possible, and it gives exactly the payloads in their order.\<close>

theorem frame_units_recovered:
  assumes ok: "frame_ok U ps cs" and fp: "fp_ok fp" and A: "al_slots A" "al_frame A"
    and fec: "fec_recovers decode U (data_words U ps) cs" "fec_works E"
    and arr: "is \<noteq> []" "distinct is" "set is \<subseteq> {..<length ps + length cs}" "length ps \<le> length is"
  shows "\<exists>fp1 fp2 result fp3.
      chiaki_frame_processor_alloc_frame A (unit_packet p0 U ps cs (hd is)) (frame_units U ps cs ! hd is) fp
        = Some (CHIAKI_ERR_SUCCESS, fp1)
    \<and> put_units p0 U ps cs is fp1 = Some fp2 \<and> chiaki_frame_processor_flush_possible fp2
    \<and> chiaki_frame_processor_flush decode E True fp2 = Some (result, concat ps, fp3)
    \<and> result = (if {..<length ps} \<subseteq> set is then CHIAKI_FRAME_PROCESSOR_FLUSH_RESULT_SUCCESS
        else CHIAKI_FRAME_PROCESSOR_FLUSH_RESULT_FEC_SUCCESS)"
proof -
  let ?k = "length ps" and ?m = "length cs" and ?R = "unit_stride U"
  have "hd is \<in> set is" using arr(1) by simp
  then have hd: "hd is < ?k + ?m" using arr(3) by blast
  obtain fp1 where fp1: "chiaki_frame_processor_alloc_frame A (unit_packet p0 U ps cs (hd is))
        (frame_units U ps cs ! hd is @ []) fp = Some (CHIAKI_ERR_SUCCESS, fp1)" "collecting U ps cs {} fp1"
    by (rule alloc_collecting [OF ok fp A hd])
  obtain fp2 where fp2: "put_units p0 U ps cs is fp1 = Some fp2" "collecting U ps cs (set is) fp2"
    using put_units_collecting [OF ok fp1(2) arr(2) _ _ arr(3), of p0] by auto
  have n: "?k + ?m \<le> 512" "U < 2 ^ 16" "0 < ?k" using ok by (simp_all add: frame_ok_def UNIT_SLOTS_MAX_def)
  have card: "?k \<le> card (set is)" using distinct_card [OF arr(2)] arr(4) by simp
  let ?a = "card (set is \<inter> {..<?k})" and ?b = "card (set is \<inter> {?k..<?k + ?m})"
  have eq: "set is = (set is \<inter> {..<?k}) \<union> (set is \<inter> {?k..<?k + ?m})" using arr(3) by auto
  have "card ((set is \<inter> {..<?k}) \<union> (set is \<inter> {?k..<?k + ?m})) = ?a + ?b" by (rule card_Un_disjoint) auto
  then have ab: "card (set is) = ?a + ?b" by (simp only: eq [symmetric])
  have le: "?a \<le> ?k" "?b \<le> ?m"
    using card_mono [of "{..<?k}" "set is \<inter> {..<?k}"] card_mono [of "{?k..<?k + ?m}" "set is \<inter> {?k..<?k + ?m}"] by auto
  have un: "unat (of_nat ?k :: u32) = ?k" "unat (of_nat ?a :: u32) = ?a" "unat (of_nat (?a + ?b) :: u32) = ?a + ?b"
    "unat (of_nat ?R :: u64) = ?R"
    using n le stride_bounds [of U] by (auto intro!: unat_of_small simp del: of_nat_add)
  have st: "\<not> fp_flushed fp2" "fp_units_source_expected fp2 = of_nat ?k" "fp_units_source_received fp2 = of_nat ?a"
    "fp_units_source_received fp2 + fp_units_fec_received fp2 = of_nat (?a + ?b)" "fp_buf_stride_per_unit fp2 = of_nat ?R"
    using fp2(2) by (simp_all add: collecting_def)
  have possible: "chiaki_frame_processor_flush_possible fp2"
    unfolding chiaki_frame_processor_flush_possible_def st(2,4) word_le_nat_alt un(1,3) using card ab by simp
  have full: "?a = ?k \<longleftrightarrow> {..<?k} \<subseteq> set is"
  proof
    assume "?a = ?k"
    then have "set is \<inter> {..<?k} = {..<?k}" by (intro card_subset_eq) auto
    then show "{..<?k} \<subseteq> set is" by blast
  qed (simp add: Int_absorb1)
  have lt: "fp_units_source_received fp2 < fp_units_source_expected fp2 \<longleftrightarrow> ?a < ?k"
    using st(2,3) un by (simp add: word_less_nat_alt)
  have k0: "fp_units_source_expected fp2 \<noteq> 0" using st(2) un(1) n(3) by auto
  have "\<exists>fp3. chiaki_frame_processor_flush decode E True fp2 = Some (if {..<?k} \<subseteq> set is
      then CHIAKI_FRAME_PROCESSOR_FLUSH_RESULT_SUCCESS else CHIAKI_FRAME_PROCESSOR_FLUSH_RESULT_FEC_SUCCESS, concat ps, fp3)"
  proof (cases "?a = ?k")
    case True
    let ?slots = "map (\<lambda>i. if i \<in> set is then of_nat (length (frame_units U ps cs ! i)) else 0) [0..<?k + ?m] :: u64 list"
    obtain b where b: "fp_frame_buf fp2 = Some b" "fp_unit_slots fp2 = Some ?slots"
      "\<And>i. i < ?k + ?m \<Longrightarrow> rd_slice b (?R * i) U
          = Some (if i \<in> set is then padded U (frame_units U ps cs ! i) else replicate U 0)"
      using fp2(2) by (auto simp: collecting_def)
    have "unat (?slots ! i) = length (ps ! i) + 2" if "i < ?k" for i
    proof -
      have "i \<in> set is" using full True that by auto
      moreover have "length (frame_units U ps cs ! i) = length (ps ! i) + 2" "length (frame_units U ps cs ! i) \<le> U"
        using frame_unit_length(2,3) [OF ok, of i] that by auto
      ultimately show ?thesis using that n(2) unat_of_small [of "length (frame_units U ps cs ! i)", where 'a = 64] by simp
    qed
    moreover have "rd_slice b (?R * i) U = Some (padded U (source_unit U (ps ! i)))" if "i < ?k" for i
    proof -
      have "i \<in> set is" using full True that by auto
      then show ?thesis using b(3) [of i] that by (simp add: frame_units_def nth_append)
    qed
    ultimately obtain b' where "compact_units ?R ?slots [0..<?k] b 0 = Some (b', length (concat ps))"
      "take (length (concat ps)) b' = concat ps"
      using compact_frame [OF ok, of ?slots b] by auto
    then show ?thesis using True full st(1,5) k0 lt un(1,4) b(1,2)
      by (simp add: chiaki_frame_processor_flush_def st(2))
  next
    case False
    then have less: "?a < ?k" using le(1) by simp
    obtain fp' b slots where r: "chiaki_frame_processor_fec decode E True fp2 = Some (CHIAKI_ERR_SUCCESS, fp')"
      "fp_frame_buf fp' = Some b" "fp_unit_slots fp' = Some slots" "length slots = ?k + ?m"
      "\<And>i. i < ?k \<Longrightarrow> unat (slots ! i) = length (ps ! i) + 2"
      "\<And>i. i < ?k \<Longrightarrow> rd_slice b (?R * i) U = Some (padded U (source_unit U (ps ! i)))"
      "fp_units_source_expected fp' = of_nat ?k" "fp_buf_stride_per_unit fp' = of_nat ?R"
      using fec_restores [OF ok fp2(2) arr(3) card fec] st(2,5) by metis
    obtain b' where "compact_units ?R slots [0..<?k] b 0 = Some (b', length (concat ps))"
      "take (length (concat ps)) b' = concat ps"
      by (rule compact_frame [OF ok r(4) r(5,6)])
    then show ?thesis using False full st(1) k0 lt less un(1,4) r
      by (simp add: chiaki_frame_processor_flush_def)
  qed
  then show ?thesis using fp1(1) fp2(1) possible by auto
qed

text \<open>The repetition code: one data unit and one copy of it.\<close>

definition repetition_code :: fec_decode where
  "repetition_code k m E d c U = (if 0 \<in> set E then (True, c, c) else (True, d, d))"

lemma repetition_code_recovers: "fec_recovers repetition_code U [x] [x]"
  unfolding fec_recovers_def
proof (intro allI impI)
  fix E :: "nat list" and d c :: "bytes list"
  assume h: "distinct E \<and> set E \<subseteq> {..<length [x] + length [x]} \<and> length E \<le> length [x]
     \<and> length d = length [x] \<and> length c = length [x] \<and> (\<forall>y \<in> set d \<union> set c. length y = U)
     \<and> (\<forall>i < length [x]. i \<notin> set E \<longrightarrow> d ! i = [x] ! i)
     \<and> (\<forall>i < length [x]. length [x] + i \<notin> set E \<longrightarrow> c ! i = [x] ! i)"
  then obtain y z where dc: "d = [y]" "c = [z]" by (auto simp: length_Suc_conv)
  show "repetition_code (length [x]) (length [x]) E d c U = (True, [x], [x])"
  proof (cases "0 \<in> set E")
    case True
    then have "set E = {0}" using h by (cases E) auto
    then show ?thesis using h dc by (simp add: repetition_code_def)
  next
    case False
    then show ?thesis using h dc by (simp add: repetition_code_def)
  qed
qed

definition blank_packet :: takion_av_packet where
  "blank_packet = \<lparr>av_packet_index = 0, av_frame_index = 0, av_uses_nalu = False, av_is_video = True,
     av_is_haptics = False, av_unit_index = 0, av_units_total = 0, av_units_fec = 0, av_codec = 0,
     av_word_at_0x18 = 0, av_adaptive_stream_index = 0, av_byte_at_0x2c = 0, av_key_pos = 0, av_data = 0,
     av_data_size = 0\<rparr>"

text \<open>Only the copy arrives.\<close>

lemma frame_units_recovered_witness:
  "\<exists>fp1 fp2 result fp3.
      chiaki_frame_processor_alloc_frame \<lparr>al_slots = True, al_frame = True\<rparr>
        (unit_packet blank_packet 4 [[1, 2]] [[0, 0, 1, 2]] 1) [0, 0, 1, 2] chiaki_frame_processor_init
        = Some (CHIAKI_ERR_SUCCESS, fp1)
    \<and> put_units blank_packet 4 [[1, 2]] [[0, 0, 1, 2]] [1] fp1 = Some fp2
    \<and> chiaki_frame_processor_flush_possible fp2
    \<and> chiaki_frame_processor_flush repetition_code
        \<lparr>fe_matrix = True, fe_erasures = True, fe_data = True, fe_coding = True\<rparr> True fp2 = Some (result, [1, 2], fp3)
    \<and> result = CHIAKI_FRAME_PROCESSOR_FLUSH_RESULT_FEC_SUCCESS"
proof -
  have u: "source_unit 4 [1, 2] = [0, 0, 1, 2]" by (simp add: source_unit_def be16_def)
  have ok: "frame_ok 4 [[1, 2]] [[0, 0, 1, 2]]" by (simp add: frame_ok_def UNIT_SLOTS_MAX_def)
  have fp: "fp_ok chiaki_frame_processor_init" by (simp add: fp_ok_def chiaki_frame_processor_init_def)
  have "fec_recovers repetition_code 4 (data_words 4 [[1, 2]]) [[0, 0, 1, 2]]"
    using repetition_code_recovers [of 4 "[0, 0, 1, 2]"] by (simp add: u padded_def)
  note recovered = frame_units_recovered [OF ok fp _ _ this, of "\<lparr>al_slots = True, al_frame = True\<rparr>"
      "\<lparr>fe_matrix = True, fe_erasures = True, fe_data = True, fe_coding = True\<rparr>" "[1]" blank_packet]
  have "\<not> {..<Suc 0} \<subseteq> {Suc 0}" by auto
  then show ?thesis using recovered by (simp add: fec_works_def frame_units_def)
qed

subsection \<open>A frame that is refused\<close>

text \<open>C23. A refused frame can overrun the buffer: when a packet announces more units than \<open>UNIT_SLOTS_MAX\<close>,
  the frame is refused, but the size of its units is kept, the buffers of the frame before are not replaced
  and the slots not emptied.  If the unit in the same packet is longer than the whole old buffer (and
  shorter than 64 KiB, at least two bytes, with the length the packet states), its index is below the
  number of units announced and within the old slots, and that old slot is free, then \<open>put_unit\<close> accepts
  it and writes it past the end of the old buffer.\<close>

theorem refused_frame_overruns:
  assumes old: "fp_unit_slots fp = Some slots" "fp_unit_slots_size fp = length slots" "fp_frame_buf fp = Some b"
    and slot: "unat (av_unit_index p) < length slots" "slots ! unat (av_unit_index p) = 0"
    and pkt: "UNIT_SLOTS_MAX < unat (av_units_total p)" "av_units_fec p \<le> av_units_total p"
      "av_unit_index p < av_units_total p" "length b < length data" "length data < 2 ^ 16"
      "av_data_size p = of_nat (length data)" "2 \<le> length data"
  shows "\<exists>fp'. chiaki_frame_processor_alloc_frame A p data fp = Some (CHIAKI_ERR_INVALID_DATA, fp')
    \<and> chiaki_frame_processor_put_unit p data fp' = None"
proof -
  let ?src = "ucast (av_units_total p) - ucast (av_units_fec p) :: u32"
  let ?fec = "if av_units_fec p < 1 then 1 else ucast (av_units_fec p) :: u32"
  have up: "unat (ucast x :: u32) = unat x" for x :: u16 by (simp add: unat_ucast_up)
  have lt: "unat x < 2 ^ 16" for x :: u16 using unsigned_less [of x, where 'a = nat] by simp
  have src: "unat ?src = unat (av_units_total p) - unat (av_units_fec p)"
    using pkt(2) up by (subst unat_sub) (simp_all add: word_le_nat_alt)
  have fec: "unat ?fec = (if av_units_fec p < 1 then 1 else unat (av_units_fec p))" by (simp add: up)
  have "unat ?src + unat ?fec < 2 ^ LENGTH(32)" using src fec lt [of "av_units_total p"] lt [of "av_units_fec p"] by auto
  then have sum: "unat (?src + ?fec) = unat ?src + unat ?fec" by (simp only: unat_add_lem [THEN iffD1])
  have many: "UNIT_SLOTS_MAX < unat (?src + ?fec)"
    unfolding sum src fec using pkt(1,2) by (auto simp: word_le_nat_alt)
  have dl: "unat (of_nat (length data) :: u64) = length data" using pkt(5) by (intro unat_of_small) simp
  have d2: "\<not> av_data_size p < 2" using pkt(6,7) dl by (simp add: word_less_nat_alt)
  obtain sz where sz: "alloc_unit_size p ?src data = ret_ok sz" "av_data_size p \<le> sz" "sz \<noteq> 0"
  proof (cases "av_is_video p \<and> ucast (av_unit_index p) < ?src")
    case True
    let ?ext = "ucast (of_be16 (data ! 0) (data ! 1)) :: u64"
    have "unat ?ext < 2 ^ 16" using lt [of "of_be16 (data ! 0) (data ! 1)"] by (simp add: unat_ucast_up)
    then have "unat (av_data_size p) + unat ?ext < 2 ^ LENGTH(64)" using pkt(5,6) dl by simp
    then have "unat (av_data_size p + ?ext) = length data + unat ?ext"
      using unat_add_lem [of "av_data_size p" ?ext] pkt(6) dl by simp
    moreover from this have "av_data_size p + ?ext \<noteq> 0" using pkt(7) by (metis add_is_0 not_numeral_le_zero unat_0)
    ultimately show thesis using that [of "av_data_size p + ?ext"] True d2 pkt(6,7) dl
      by (auto simp: alloc_unit_size_def word_le_nat_alt)
  next
    case False
    moreover have "av_data_size p \<noteq> 0" using d2 by auto
    ultimately show thesis using that [of "av_data_size p"] by (auto simp: alloc_unit_size_def)
  qed
  let ?fp = "fp\<lparr>fp_flushed := False, fp_units_source_expected := ?src, fp_units_fec_expected := ?fec,
    fp_buf_size_per_unit := sz, fp_buf_stride_per_unit := ((sz + 0xf) div 0x10) * 0x10,
    fp_units_source_received := 0, fp_units_fec_received := 0\<rparr>"
  have "chiaki_frame_processor_alloc_frame A p data fp = Some (CHIAKI_ERR_INVALID_DATA, ?fp)"
    using pkt(2) sz(1,3) many
    by (simp add: chiaki_frame_processor_alloc_frame_def Let_def alloc_slots_def not_less [symmetric])
  moreover have "\<not> sz < av_data_size p" "\<not> av_units_total p \<le> av_unit_index p" "av_data_size p \<noteq> 0"
    using sz(2) pkt(3) d2 by (auto simp: not_less not_le)
  then have "chiaki_frame_processor_put_unit p data ?fp = None"
    using old slot pkt(4,6) dl
    by (simp add: chiaki_frame_processor_put_unit_def Let_def wr_slice_def)
  ultimately show ?thesis by blast
qed

lemma refused_frame_overruns_witness:
  "\<exists>fp'. chiaki_frame_processor_alloc_frame \<lparr>al_slots = True, al_frame = True\<rparr>
        (blank_packet\<lparr>av_units_total := 600, av_data_size := 100\<rparr>) (replicate 100 1)
        (chiaki_frame_processor_init\<lparr>fp_unit_slots := Some [0, 2], fp_unit_slots_size := 2,
           fp_frame_buf := Some (replicate 96 0), fp_frame_buf_size := 32\<rparr>) = Some (CHIAKI_ERR_INVALID_DATA, fp')
    \<and> chiaki_frame_processor_put_unit (blank_packet\<lparr>av_units_total := 600, av_data_size := 100\<rparr>) (replicate 100 1) fp'
        = None"
  by (rule refused_frame_overruns [of _ "[0, 2]" "replicate 96 0"])
    (simp_all add: chiaki_frame_processor_init_def blank_packet_def UNIT_SLOTS_MAX_def)

end
