(* ===== verification/AudioReceiver.thy ===== *)
theory AudioReceiver
  imports TakionSend Stats
begin

text \<open>
  \<^verbatim>\<open>lib/src/audioreceiver.c\<close>: audio and haptics packets are cut into frames, haptics frames go to their sink
  at once, audio frames through a jitter buffer of eight slots.

  The calls of the sinks are the list \<open>au_out\<close>; whether the session has an audio and a haptics sink are
  fields of \<open>audio_env\<close>, with the outcomes of the locks, numbered by the rounds of the loop, and of
  allocations.  A concealed frame is delivered as a null pointer.  Buffers nobody frees are \<open>au_leaked\<close>.
\<close>

definition CHIAKI_AUDIO_JITTER_PREFILL :: nat where "CHIAKI_AUDIO_JITTER_PREFILL = 3"
definition CHIAKI_AUDIO_JITTER_BUFFER_SIZE :: nat where "CHIAKI_AUDIO_JITTER_BUFFER_SIZE = 8"

datatype audio_out = Out_Header audio_header | Out_Audio "bytes option" | Out_Haptics bytes

record audio_slot =
  js_occupied :: bool
  js_frame_index :: u16
  js_buf :: "bytes option"

record audio_receiver =
  au_frame_index_prev :: u16
  au_next_frame_index :: u16
  au_next_frame_index_valid :: bool
  au_playback_started :: bool
  au_frame_index_startup :: bool
  au_packet_stats :: "packet_stats option"
  au_jitter_buffer :: "audio_slot list"
  au_jitter_buffer_count :: nat
  au_out :: "audio_out list"
  au_leaked :: "bytes list"

record audio_env =
  av_lock :: "nat \<Rightarrow> chiaki_error"
  av_unlock :: "nat \<Rightarrow> chiaki_error"
  av_alloc :: bool
  av_audio_cb :: bool
  av_haptics_cb :: bool
  av_header_cb :: bool

definition empty_slot :: audio_slot where
  "empty_slot = \<lparr>js_occupied = False, js_frame_index = 0, js_buf = None\<rparr>"

definition chiaki_audio_receiver_init :: "chiaki_error \<Rightarrow> packet_stats option \<Rightarrow> chiaki_error + audio_receiver" where
  "chiaki_audio_receiver_init mutex st =
     (if mutex \<noteq> CHIAKI_ERR_SUCCESS then Inl mutex
      else Inr \<lparr>au_frame_index_prev = 0, au_next_frame_index = 0, au_next_frame_index_valid = False,
        au_playback_started = False, au_frame_index_startup = True, au_packet_stats = st,
        au_jitter_buffer = replicate CHIAKI_AUDIO_JITTER_BUFFER_SIZE empty_slot, au_jitter_buffer_count = 0,
        au_out = [], au_leaked = []\<rparr>)"

definition chiaki_audio_receiver_clear_jitter_buffer :: "audio_receiver \<Rightarrow> audio_receiver" where
  "chiaki_audio_receiver_clear_jitter_buffer r =
     r\<lparr>au_jitter_buffer := map (\<lambda>s. s\<lparr>js_buf := None, js_occupied := False\<rparr>) (au_jitter_buffer r),
       au_jitter_buffer_count := 0\<rparr>"

definition chiaki_audio_receiver_stream_info :: "audio_env \<Rightarrow> audio_header \<Rightarrow> audio_receiver \<Rightarrow> audio_receiver" where
  "chiaki_audio_receiver_stream_info E h r =
     (if av_lock E 0 \<noteq> CHIAKI_ERR_SUCCESS then r
      else let r = chiaki_audio_receiver_clear_jitter_buffer (r\<lparr>au_frame_index_prev := 0, au_next_frame_index := 0,
             au_next_frame_index_valid := False, au_playback_started := False, au_frame_index_startup := True\<rparr>)
      in if av_header_cb E then r\<lparr>au_out := au_out r @ [Out_Header h]\<rparr> else r)"

subsection \<open>The jitter buffer\<close>

definition chiaki_audio_receiver_find_audio_slot :: "audio_receiver \<Rightarrow> u16 \<Rightarrow> nat option" where
  "chiaki_audio_receiver_find_audio_slot r idx =
     List.find (\<lambda>i. js_occupied (au_jitter_buffer r ! i) \<and> js_frame_index (au_jitter_buffer r ! i) = idx)
       [0..<CHIAKI_AUDIO_JITTER_BUFFER_SIZE]"

definition pick_slot :: "(u16 \<Rightarrow> u16 \<Rightarrow> bool) \<Rightarrow> audio_receiver \<Rightarrow> nat option" where
  "pick_slot before r =
     foldl (\<lambda>acc i.
         if \<not> js_occupied (au_jitter_buffer r ! i) then acc
         else case acc of
           None \<Rightarrow> Some i
         | Some j \<Rightarrow> if before (js_frame_index (au_jitter_buffer r ! i)) (js_frame_index (au_jitter_buffer r ! j))
             then Some i else acc)
       None [0..<CHIAKI_AUDIO_JITTER_BUFFER_SIZE]"

definition chiaki_audio_receiver_find_oldest_audio_slot :: "audio_receiver \<Rightarrow> nat option" where
  "chiaki_audio_receiver_find_oldest_audio_slot = pick_slot chiaki_seq_num_lt"

definition chiaki_audio_receiver_find_newest_audio_slot :: "audio_receiver \<Rightarrow> nat option" where
  "chiaki_audio_receiver_find_newest_audio_slot = pick_slot chiaki_seq_num_gt"

definition empty_jitter_slot :: "nat \<Rightarrow> audio_receiver \<Rightarrow> audio_receiver" where
  "empty_jitter_slot i r =
     r\<lparr>au_jitter_buffer := (au_jitter_buffer r)[i := (au_jitter_buffer r ! i)\<lparr>js_buf := None, js_occupied := False\<rparr>],
       au_jitter_buffer_count := au_jitter_buffer_count r - 1\<rparr>"

text \<open>The slot a new frame goes to, after the newest frame was given up if the buffer was full of newer ones.\<close>

definition audio_free_slot :: "audio_receiver \<Rightarrow> u16 \<Rightarrow> (nat \<times> audio_receiver) option" where
  "audio_free_slot r idx =
     (case List.find (\<lambda>i. \<not> js_occupied (au_jitter_buffer r ! i)) [0..<CHIAKI_AUDIO_JITTER_BUFFER_SIZE] of
        Some i \<Rightarrow> Some (i, r)
      | None \<Rightarrow>
          case chiaki_audio_receiver_find_newest_audio_slot r of
            None \<Rightarrow> None
          | Some newest \<Rightarrow>
              if \<not> chiaki_seq_num_lt idx (js_frame_index (au_jitter_buffer r ! newest)) then None
              else Some (newest, empty_jitter_slot newest r))"

definition chiaki_audio_receiver_store_audio_frame_locked ::
    "bool \<Rightarrow> audio_receiver \<Rightarrow> u16 \<Rightarrow> bytes \<Rightarrow> bool \<times> audio_receiver" where
  "chiaki_audio_receiver_store_audio_frame_locked alloc r idx buf =
     (if chiaki_audio_receiver_find_audio_slot r idx \<noteq> None then (False, r)
      else case audio_free_slot r idx of
        None \<Rightarrow> (False, r)
      | Some (i, r) \<Rightarrow>
          if buf \<noteq> [] \<and> \<not> alloc then (False, r)
          else (True, r\<lparr>
            au_jitter_buffer := (au_jitter_buffer r)[i := \<lparr>js_occupied = True, js_frame_index = idx,
              js_buf = (if buf = [] then None else Some buf)\<rparr>],
            au_jitter_buffer_count := au_jitter_buffer_count r + 1\<rparr>))"

subsection \<open>Playing\<close>

definition audio_start :: "audio_receiver \<Rightarrow> audio_receiver" where
  "audio_start r =
     (if \<not> au_playback_started r \<and> CHIAKI_AUDIO_JITTER_PREFILL \<le> au_jitter_buffer_count r
      then case chiaki_audio_receiver_find_oldest_audio_slot r of
        None \<Rightarrow> r
      | Some oldest \<Rightarrow> r\<lparr>au_next_frame_index := js_frame_index (au_jitter_buffer r ! oldest),
          au_next_frame_index_valid := True, au_playback_started := True\<rparr>
      else r)"

definition can_conceal_loss :: "audio_receiver \<Rightarrow> bool" where
  "can_conceal_loss r =
     (let oldest = chiaki_audio_receiver_find_oldest_audio_slot r;
          newest = chiaki_audio_receiver_find_newest_audio_slot r;
          newer_audio_buffered = (case oldest of None \<Rightarrow> False | Some old \<Rightarrow>
            chiaki_seq_num_gt (js_frame_index (au_jitter_buffer r ! old)) (au_next_frame_index r))
      in newer_audio_buffered \<and> (case newest of None \<Rightarrow> False | Some n \<Rightarrow>
           CHIAKI_AUDIO_JITTER_PREFILL \<le> au_jitter_buffer_count r \<longrightarrow>
             chiaki_seq_num_gt (js_frame_index (au_jitter_buffer r ! n))
               (au_next_frame_index r + of_nat CHIAKI_AUDIO_JITTER_PREFILL - 1)))"

definition audio_advance :: "audio_receiver \<Rightarrow> audio_receiver" where
  "audio_advance r =
     r\<lparr>au_frame_index_prev := au_next_frame_index r, au_next_frame_index := au_next_frame_index r + 1\<rparr>"

text \<open>What the sink is to be given in this round, if anything.\<close>

definition audio_play :: "audio_receiver \<Rightarrow> bytes option option \<times> audio_receiver" where
  "audio_play r =
     (let r = audio_start r in
      if au_playback_started r \<and> au_next_frame_index_valid r
      then case chiaki_audio_receiver_find_audio_slot r (au_next_frame_index r) of
        Some slot \<Rightarrow> (Some (js_buf (au_jitter_buffer r ! slot)), audio_advance (empty_jitter_slot slot r))
      | None \<Rightarrow>
          if 0 < au_jitter_buffer_count r \<and> can_conceal_loss r then (Some None, audio_advance r) else (None, r)
      else (None, r))"

definition audio_leak :: "bytes option \<Rightarrow> audio_receiver \<Rightarrow> audio_receiver" where
  "audio_leak b r = r\<lparr>au_leaked := au_leaked r @ (case b of None \<Rightarrow> [] | Some b \<Rightarrow> [b])\<rparr>"

definition audio_emit :: "bytes option \<Rightarrow> audio_receiver \<Rightarrow> audio_receiver" where
  "audio_emit b r = r\<lparr>au_out := au_out r @ [Out_Audio b]\<rparr>"

text \<open>Round \<open>n\<close>, with the lock held.\<close>

partial_function (option) audio_play_loop :: "audio_env \<Rightarrow> nat \<Rightarrow> audio_receiver \<Rightarrow> audio_receiver option" where
  "audio_play_loop E n r =
     (if fst (audio_play r) = None then Some (snd (audio_play r))
      else if av_unlock E n \<noteq> CHIAKI_ERR_SUCCESS then Some (snd (audio_play r))
      else if \<not> av_audio_cb E then Some (audio_leak (the (fst (audio_play r))) (snd (audio_play r)))
      else if av_lock E (n + 1) \<noteq> CHIAKI_ERR_SUCCESS
      then Some (audio_emit (the (fst (audio_play r))) (snd (audio_play r)))
      else audio_play_loop E (n + 1) (audio_emit (the (fst (audio_play r))) (snd (audio_play r))))"

definition chiaki_audio_receiver_frame ::
    "audio_env \<Rightarrow> audio_receiver \<Rightarrow> u16 \<Rightarrow> bool \<Rightarrow> bytes \<Rightarrow> audio_receiver option" where
  "chiaki_audio_receiver_frame E r idx is_haptics buf =
     (if av_lock E 0 \<noteq> CHIAKI_ERR_SUCCESS then Some r
      else if is_haptics
      then if chiaki_seq_num_gt idx (au_frame_index_prev r)
        then let r = r\<lparr>au_frame_index_prev := idx\<rparr> in
          Some (if av_unlock E 0 = CHIAKI_ERR_SUCCESS \<and> av_haptics_cb E
                then r\<lparr>au_out := au_out r @ [Out_Haptics buf]\<rparr> else r)
        else Some r
      else if au_next_frame_index_valid r \<and> chiaki_seq_num_lt idx (au_next_frame_index r) then Some r
      else let (stored, r) = chiaki_audio_receiver_store_audio_frame_locked (av_alloc E) r idx buf in
        if \<not> stored then Some r else audio_play_loop E 0 r)"

subsection \<open>Packets\<close>

definition audio_unit_index :: "audio_receiver \<Rightarrow> u16 \<Rightarrow> nat \<Rightarrow> nat \<Rightarrow> nat \<Rightarrow> u16 option" where
  "audio_unit_index r frame_index source fec i =
     (if i < source then Some (frame_index + of_nat i)
      else if au_frame_index_startup r \<and> unat frame_index + (i - source) < fec + 1 then None
      else Some (frame_index - of_nat fec + of_nat (i - source)))"

fun audio_units ::
    "audio_env \<Rightarrow> takion_av_packet \<Rightarrow> bytes \<Rightarrow> nat \<Rightarrow> nat \<Rightarrow> nat \<Rightarrow> nat list \<Rightarrow> audio_receiver \<Rightarrow> audio_receiver option" where
  "audio_units E p data source fec unit_size [] r = Some r"
| "audio_units E p data source fec unit_size (i # is) r =
     (case audio_unit_index r (av_frame_index p) source fec i of
        None \<Rightarrow> audio_units E p data source fec unit_size is r
      | Some idx \<Rightarrow> do {
          buf \<leftarrow> rd_slice data (unit_size * i) unit_size;
          r \<leftarrow> chiaki_audio_receiver_frame E r idx (av_is_haptics p) buf;
          audio_units E p data source fec unit_size is r })"

text \<open>\<open>data\<close> is the memory from \<open>packet->data\<close> to the end of the datagram.\<close>

definition chiaki_audio_receiver_av_packet ::
    "audio_env \<Rightarrow> takion_av_packet \<Rightarrow> bytes \<Rightarrow> audio_receiver \<Rightarrow> audio_receiver option" where
  "chiaki_audio_receiver_av_packet E p data r =
     (let source = unat (chiaki_takion_av_packet_audio_source_units_count p);
          fec = unat (chiaki_takion_av_packet_audio_fec_units_count p);
          unit_size = unat (chiaki_takion_av_packet_audio_unit_size p) in
      if av_codec p \<noteq> 5 then Some r
      else if av_data_size p = 0 then Some r
      else if fec + source \<noteq> unat (av_units_total p) then Some r
      else if unat (av_data_size p) \<noteq> unit_size * unat (av_units_total p) then Some r
      else do {
        r \<leftarrow> audio_units E p data source fec unit_size [0..<source + fec]
              (if 2 ^ 15 < av_frame_index p then r\<lparr>au_frame_index_startup := False\<rparr> else r);
        Some (case au_packet_stats r of
          None \<Rightarrow> r
        | Some st \<Rightarrow> r\<lparr>au_packet_stats := Some (chiaki_packet_stats_push_seq st (av_frame_index p))\<rparr>) })"

end
