(* ===== verification/AudioReceiverProps.thy ===== *)
theory AudioReceiverProps
  imports AudioReceiver
begin

text \<open>
  The jitter buffer as a partial map from frame numbers to frames, and what a frame that arrives makes the
  receiver play: a run of consecutive frame numbers, each with what the buffer holds for it.
\<close>

definition jitter_entries :: "audio_receiver \<Rightarrow> nat set" where
  "jitter_entries r = {i. i < CHIAKI_AUDIO_JITTER_BUFFER_SIZE \<and> js_occupied (au_jitter_buffer r ! i)}"

definition au_ok :: "audio_receiver \<Rightarrow> bool" where
  "au_ok r \<longleftrightarrow> length (au_jitter_buffer r) = CHIAKI_AUDIO_JITTER_BUFFER_SIZE
     \<and> inj_on (\<lambda>i. js_frame_index (au_jitter_buffer r ! i)) (jitter_entries r)
     \<and> au_jitter_buffer_count r = card (jitter_entries r)"

definition jb :: "audio_receiver \<Rightarrow> u16 \<rightharpoonup> bytes option" where
  "jb r x = map_option (\<lambda>i. js_buf (au_jitter_buffer r ! i)) (chiaki_audio_receiver_find_audio_slot r x)"

definition played :: "(u16 \<rightharpoonup> bytes option) \<Rightarrow> u16 \<Rightarrow> bytes option" where
  "played m x = (case m x of None \<Rightarrow> None | Some b \<Rightarrow> b)"

lemma finite_entries [simp]: "finite (jitter_entries r)"
  by (simp add: jitter_entries_def)

lemma find_slot_Some:
  "chiaki_audio_receiver_find_audio_slot r x = Some i \<Longrightarrow>
     i \<in> jitter_entries r \<and> js_frame_index (au_jitter_buffer r ! i) = x"
  by (auto simp: chiaki_audio_receiver_find_audio_slot_def jitter_entries_def find_Some_iff)

lemma find_slot_None:
  "chiaki_audio_receiver_find_audio_slot r x = None \<longleftrightarrow>
     (\<forall>i \<in> jitter_entries r. js_frame_index (au_jitter_buffer r ! i) \<noteq> x)"
  by (auto simp: chiaki_audio_receiver_find_audio_slot_def jitter_entries_def find_None_iff)

lemma find_slot_eq:
  assumes "au_ok r" "i \<in> jitter_entries r"
  shows "chiaki_audio_receiver_find_audio_slot r (js_frame_index (au_jitter_buffer r ! i)) = Some i"
proof (cases "chiaki_audio_receiver_find_audio_slot r (js_frame_index (au_jitter_buffer r ! i))")
  case None
  then show ?thesis using assms(2) find_slot_None by blast
next
  case (Some j)
  then show ?thesis using find_slot_Some [OF Some] assms by (simp add: au_ok_def inj_on_def)
qed

lemma jb_entry: "au_ok r \<Longrightarrow> i \<in> jitter_entries r \<Longrightarrow>
    jb r (js_frame_index (au_jitter_buffer r ! i)) = Some (js_buf (au_jitter_buffer r ! i))"
  by (simp add: jb_def find_slot_eq)

lemma jb_None: "jb r x = None \<longleftrightarrow> (\<forall>i \<in> jitter_entries r. js_frame_index (au_jitter_buffer r ! i) \<noteq> x)"
  by (simp add: jb_def find_slot_None)

lemma dom_jb: "dom (jb r) = (\<lambda>i. js_frame_index (au_jitter_buffer r ! i)) ` jitter_entries r"
  using jb_None [of r] by (auto simp: dom_def)

text \<open>Two receivers with the same entries have the same map.\<close>

lemma jb_eqI:
  assumes "au_ok r" "\<And>x. (m x = None \<longleftrightarrow> (\<forall>i \<in> jitter_entries r. js_frame_index (au_jitter_buffer r ! i) \<noteq> x))"
    and "\<And>i. i \<in> jitter_entries r \<Longrightarrow> m (js_frame_index (au_jitter_buffer r ! i)) = Some (js_buf (au_jitter_buffer r ! i))"
  shows "jb r = m"
proof
  fix x
  show "jb r x = m x"
  proof (cases "m x")
    case None
    then show ?thesis using assms(2) jb_None by metis
  next
    case (Some y)
    then have "\<not> (\<forall>i \<in> jitter_entries r. js_frame_index (au_jitter_buffer r ! i) \<noteq> x)" using assms(2) [of x] by simp
    then obtain i where "i \<in> jitter_entries r" "js_frame_index (au_jitter_buffer r ! i) = x" by blast
    then show ?thesis using assms(3) jb_entry [OF assms(1)] by metis
  qed
qed

lemma empty_jitter_slot_ok:
  assumes ok: "au_ok r" and i: "i \<in> jitter_entries r"
  shows "au_ok (empty_jitter_slot i r)" "jb (empty_jitter_slot i r) = (jb r)(js_frame_index (au_jitter_buffer r ! i) := None)"
    "jitter_entries (empty_jitter_slot i r) = jitter_entries r - {i}"
proof -
  let ?r = "empty_jitter_slot i r"
  have l: "i < length (au_jitter_buffer r)" "length (au_jitter_buffer r) = CHIAKI_AUDIO_JITTER_BUFFER_SIZE"
    using ok i by (simp_all add: au_ok_def jitter_entries_def)
  show e: "jitter_entries ?r = jitter_entries r - {i}"
    using l by (auto simp: jitter_entries_def empty_jitter_slot_def nth_list_update split: if_splits)
  have same: "au_jitter_buffer ?r ! j = au_jitter_buffer r ! j" if "j \<in> jitter_entries ?r" for j
    using that e by (auto simp: empty_jitter_slot_def)
  have inj: "inj_on (\<lambda>i. js_frame_index (au_jitter_buffer r ! i)) (jitter_entries r)" using ok by (simp add: au_ok_def)
  have "inj_on (\<lambda>i. js_frame_index (au_jitter_buffer ?r ! i)) (jitter_entries ?r)"
    using inj same unfolding e inj_on_def by auto
  moreover have "length (au_jitter_buffer ?r) = CHIAKI_AUDIO_JITTER_BUFFER_SIZE"
    "au_jitter_buffer_count ?r = card (jitter_entries ?r)"
    using ok i l by (simp_all add: au_ok_def e) (simp_all add: empty_jitter_slot_def)
  ultimately show ok': "au_ok ?r" by (simp add: au_ok_def)
  show "jb ?r = (jb r)(js_frame_index (au_jitter_buffer r ! i) := None)"
  proof (rule jb_eqI [OF ok'])
    fix j assume j: "j \<in> jitter_entries ?r"
    then have "js_frame_index (au_jitter_buffer r ! j) \<noteq> js_frame_index (au_jitter_buffer r ! i)"
      using inj i e by (auto simp: inj_on_def)
    then show "((jb r)(js_frame_index (au_jitter_buffer r ! i) := None)) (js_frame_index (au_jitter_buffer ?r ! j))
        = Some (js_buf (au_jitter_buffer ?r ! j))"
      using j e jb_entry [OF ok] same by simp
  next
    fix x
    show "((jb r)(js_frame_index (au_jitter_buffer r ! i) := None)) x = None \<longleftrightarrow>
        (\<forall>j \<in> jitter_entries ?r. js_frame_index (au_jitter_buffer ?r ! j) \<noteq> x)"
      using jb_None [of r x] same inj i unfolding e by (auto simp: inj_on_def)
  qed
qed

subsection \<open>One round\<close>

lemma audio_start_same:
  "au_jitter_buffer (audio_start r) = au_jitter_buffer r" "au_jitter_buffer_count (audio_start r) = au_jitter_buffer_count r"
  "au_out (audio_start r) = au_out r" "au_leaked (audio_start r) = au_leaked r"
  by (auto simp: audio_start_def split: option.split)

lemma same_entries:
  assumes "au_jitter_buffer s = au_jitter_buffer r"
  shows "jitter_entries s = jitter_entries r" "jb s = jb r"
    "chiaki_audio_receiver_find_audio_slot s = chiaki_audio_receiver_find_audio_slot r"
    "au_jitter_buffer_count s = au_jitter_buffer_count r \<Longrightarrow> au_ok s = au_ok r"
proof -
  show f: "chiaki_audio_receiver_find_audio_slot s = chiaki_audio_receiver_find_audio_slot r"
    by (simp add: fun_eq_iff chiaki_audio_receiver_find_audio_slot_def assms)
  show e: "jitter_entries s = jitter_entries r" by (simp add: jitter_entries_def assms)
  show "jb s = jb r" by (simp add: fun_eq_iff jb_def assms f)
  show "au_ok s = au_ok r" if "au_jitter_buffer_count s = au_jitter_buffer_count r" using that by (simp add: au_ok_def assms e)
qed

lemma audio_play_some:
  assumes ok: "au_ok r" and p: "audio_play r = (Some b, r')"
  shows "au_ok r' \<and> au_playback_started r' \<and> au_next_frame_index_valid r'
    \<and> au_playback_started (audio_start r) \<and> au_next_frame_index_valid (audio_start r)
    \<and> au_next_frame_index r' = au_next_frame_index (audio_start r) + 1
    \<and> b = played (jb r) (au_next_frame_index (audio_start r))
    \<and> jb r' = (jb r)(au_next_frame_index (audio_start r) := None) \<and> dom (jb r) \<noteq> {}
    \<and> au_out r' = au_out r \<and> au_leaked r' = au_leaked r"
proof -
  let ?s = "audio_start r"
  note st = audio_start_same [of r]
  note same = same_entries [OF st(1)]
  have oks: "au_ok ?s" using same(4) st(2) ok by simp
  have start: "au_playback_started ?s \<and> au_next_frame_index_valid ?s"
    using p by (auto simp: audio_play_def Let_def split: if_splits option.splits)
  show ?thesis
  proof (cases "chiaki_audio_receiver_find_audio_slot ?s (au_next_frame_index ?s)")
    case (Some i)
    have i: "i \<in> jitter_entries ?s" "js_frame_index (au_jitter_buffer ?s ! i) = au_next_frame_index ?s"
      using find_slot_Some [OF Some] by simp_all
    note e = empty_jitter_slot_ok [OF oks i(1)]
    have r': "b = js_buf (au_jitter_buffer ?s ! i)" "r' = audio_advance (empty_jitter_slot i ?s)"
      using p start Some by (auto simp: audio_play_def Let_def)
    have adv: "au_jitter_buffer (audio_advance t) = au_jitter_buffer t" for t by (simp add: audio_advance_def)
    have "jb r' = (jb r)(au_next_frame_index ?s := None)" "au_ok r'"
      using same_entries [OF adv] e i(2) same(2) by (simp_all add: r' audio_advance_def)
    moreover have "jb r (au_next_frame_index ?s) = Some b" using jb_entry [OF oks i(1)] i(2) same(2) r'(1) by simp
    ultimately show ?thesis
      using start st by (auto simp: r'(2) audio_advance_def empty_jitter_slot_def played_def)
  next
    case None
    have r': "b = None" "r' = audio_advance ?s" "0 < au_jitter_buffer_count ?s"
      using p start None by (auto simp: audio_play_def Let_def split: if_splits)
    have adv: "au_jitter_buffer (audio_advance t) = au_jitter_buffer t" for t by (simp add: audio_advance_def)
    have n: "jb r (au_next_frame_index ?s) = None" using None same(2,3) by (simp add: jb_def)
    have c: "au_jitter_buffer_count (audio_advance ?s) = au_jitter_buffer_count ?s" by (simp add: audio_advance_def)
    have "jb r' = jb r" "au_ok r'" unfolding r'(2)
      using same_entries(2) [OF adv, of ?s] same_entries(4) [OF adv c] oks same(2) by simp_all
    moreover have "jitter_entries ?s \<noteq> {}"
    proof
      assume "jitter_entries ?s = {}"
      then show False using r'(3) oks by (simp add: au_ok_def)
    qed
    then have "dom (jb r) \<noteq> {}" using same(1) by (simp add: dom_jb)
    moreover have "(jb r)(au_next_frame_index ?s := None) = jb r" using n by (simp add: fun_upd_idem)
    moreover have "au_next_frame_index (audio_advance ?s) = au_next_frame_index ?s + 1"
      "au_playback_started (audio_advance ?s) = au_playback_started ?s"
      "au_next_frame_index_valid (audio_advance ?s) = au_next_frame_index_valid ?s"
      "au_out (audio_advance ?s) = au_out ?s" "au_leaked (audio_advance ?s) = au_leaked ?s"
      by (simp_all add: audio_advance_def)
    moreover have "b = played (jb r) (au_next_frame_index ?s)" using r'(1) n by (simp add: played_def)
    ultimately show ?thesis using start st(3,4) unfolding r'(2) by simp
  qed
qed

subsection \<open>The rounds\<close>

text \<open>How far ahead of \<open>x\<close> the buffer reaches: every round brings it nearer.\<close>

definition far :: "(u16 \<rightharpoonup> 'a) \<Rightarrow> u16 \<Rightarrow> nat" where
  "far m x = Max (insert 0 ((\<lambda>y. Suc (unat (y - x))) ` dom m))"

lemma finite_dom16 [simp]: "finite (dom (m :: u16 \<rightharpoonup> 'a))"
  by (rule finite_subset [OF subset_UNIV]) simp

lemma far_le: "far m x \<le> 2 ^ 16"
proof -
  have "Suc (unat (y - x)) \<le> 2 ^ 16" for y using unsigned_less [of "y - x", where 'a = nat] by simp
  then show ?thesis unfolding far_def by (intro Max.boundedI) auto
qed

lemma far_step:
  assumes "dom m \<noteq> {}"
  shows "far (m(x := None)) (x + 1) < far m x"
proof -
  have in_far: "Suc (unat (y - x)) \<le> far m x" if "y \<in> dom m" for y
    unfolding far_def using that by (intro Max_ge) auto
  have "Suc (unat (y - (x + 1))) < far m x" if "y \<in> dom m" "y \<noteq> x" for y
  proof -
    have z: "y - x \<noteq> 0" using that(2) by simp
    then have "0 < unat (y - x)" by (simp add: unat_gt_0)
    moreover have "unat (y - (x + 1)) = unat (y - x) - 1"
      using unat_minus_one [OF z] by (simp only: diff_diff_add)
    ultimately have "Suc (unat (y - (x + 1))) = unat (y - x)" by simp
    then show ?thesis using in_far [OF that(1)] by simp
  qed
  moreover have "0 < far m x" using assms in_far by fastforce
  ultimately show ?thesis
    unfolding far_def [of "m(x := None)"] by (subst Max_less_iff) auto
qed

definition audio_env_ok :: "audio_env \<Rightarrow> bool" where
  "audio_env_ok E \<longleftrightarrow> (\<forall>n. av_lock E n = CHIAKI_ERR_SUCCESS) \<and> (\<forall>n. av_unlock E n = CHIAKI_ERR_SUCCESS) \<and> av_audio_cb E"

text \<open>What is left after \<open>n\<close> frames from \<open>x\<close> on were played.\<close>

definition rest_after :: "(u16 \<rightharpoonup> bytes option) \<Rightarrow> u16 \<Rightarrow> nat \<Rightarrow> u16 \<rightharpoonup> bytes option" where
  "rest_after m x n = (\<lambda>y. if \<exists>i < n. y = x + of_nat i then None else m y)"

definition frames_from :: "(u16 \<rightharpoonup> bytes option) \<Rightarrow> u16 \<Rightarrow> nat \<Rightarrow> audio_out list" where
  "frames_from m x n = map (\<lambda>i. Out_Audio (played m (x + of_nat i))) [0..<n]"

lemma rest_after_Suc: "rest_after (m(x := None)) (x + 1) n = rest_after m x (Suc n)"
proof
  fix y
  have "(\<exists>i < Suc n. y = x + of_nat i) \<longleftrightarrow> y = x \<or> (\<exists>i < n. y = x + 1 + of_nat i)"
  proof
    assume "\<exists>i < Suc n. y = x + of_nat i"
    then obtain i where "i < Suc n" "y = x + of_nat i" by blast
    then show "y = x \<or> (\<exists>i < n. y = x + 1 + of_nat i)" by (cases i) (auto simp: add.assoc)
  next
    assume "y = x \<or> (\<exists>i < n. y = x + 1 + of_nat i)"
    then show "\<exists>i < Suc n. y = x + of_nat i"
    proof
      assume "\<exists>i < n. y = x + 1 + of_nat i"
      then obtain i where "i < n" "y = x + 1 + of_nat i" by blast
      then show ?thesis by (intro exI [of _ "Suc i"]) simp
    qed (intro exI [of _ 0], simp)
  qed
  then show "rest_after (m(x := None)) (x + 1) n y = rest_after m x (Suc n) y" by (auto simp: rest_after_def)
qed

lemma frames_from_Suc:
  assumes "n < 2 ^ 16"
  shows "Out_Audio (played m x) # frames_from (m(x := None)) (x + 1) n = frames_from m x (Suc n)"
proof -
  have ne: "x + 1 + of_nat i \<noteq> x" if "i < n" for i
  proof -
    have "unat (of_nat (Suc i) :: u16) = Suc i" using that assms by (simp only: unat_of_nat) simp
    then have "(of_nat (Suc i) :: u16) \<noteq> 0" by (metis nat.distinct(1) unat_0)
    then show ?thesis by (simp add: add.assoc)
  qed
  have "map (\<lambda>i. Out_Audio (played (m(x := None)) (x + 1 + of_nat i))) [0..<n]
      = map (\<lambda>i. Out_Audio (played m (x + of_nat (Suc i)))) [0..<n]"
    using ne by (intro map_cong) (auto simp: played_def add.assoc)
  also have "\<dots> = map (\<lambda>i. Out_Audio (played m (x + of_nat i))) (map Suc [0..<n])" by (simp only: map_map o_def)
  finally show ?thesis unfolding frames_from_def map_Suc_upt by (simp add: upt_conv_Cons del: upt_Suc)
qed

lemma audio_emit_same:
  "au_jitter_buffer (audio_emit b r) = au_jitter_buffer r" "au_jitter_buffer_count (audio_emit b r) = au_jitter_buffer_count r"
  "au_out (audio_emit b r) = au_out r @ [Out_Audio b]" "au_leaked (audio_emit b r) = au_leaked r"
  "au_next_frame_index (audio_emit b r) = au_next_frame_index r"
  "au_playback_started (audio_emit b r) = au_playback_started r"
  "au_next_frame_index_valid (audio_emit b r) = au_next_frame_index_valid r"
  by (simp_all add: audio_emit_def)

lemma play_loop_runs:
  assumes E: "audio_env_ok E" and "au_ok r"
  shows "\<exists>n r'. audio_play_loop E j r = Some r' \<and> au_ok r' \<and> n \<le> far (jb r) (au_next_frame_index (audio_start r))
    \<and> au_out r' = au_out r @ frames_from (jb r) (au_next_frame_index (audio_start r)) n
    \<and> jb r' = rest_after (jb r) (au_next_frame_index (audio_start r)) n \<and> au_leaked r' = au_leaked r
    \<and> au_next_frame_index r' = au_next_frame_index (audio_start r) + of_nat n"
  using assms(2)
proof (induction "far (jb r) (au_next_frame_index (audio_start r))" arbitrary: j r rule: less_induct)
  case less
  let ?x = "au_next_frame_index (audio_start r)"
  note st = audio_start_same [of r]
  show ?case
  proof (cases "fst (audio_play r)")
    case None
    have "snd (audio_play r) = audio_start r"
      using None by (auto simp: audio_play_def Let_def split: option.splits if_splits)
    then have l: "audio_play_loop E j r = Some (audio_start r)" using None by (subst audio_play_loop.simps) simp
    show ?thesis
      using l less.prems same_entries(2,4) [OF st(1)] st
      by (intro exI [of _ 0] exI [of _ "audio_start r"]) (simp add: frames_from_def rest_after_def)
  next
    case (Some b)
    then obtain r1 where p: "audio_play r = (Some b, r1)" by (metis prod.collapse)
    note s = audio_play_some [OF less.prems p]
    let ?r2 = "audio_emit b r1"
    note em = audio_emit_same [of b r1]
    have ok2: "au_ok ?r2" and jb2: "jb ?r2 = (jb r)(?x := None)"
      using s same_entries(2,4) [OF em(1)] em(2) by simp_all
    have start2: "audio_start ?r2 = ?r2" using s em(6) by (simp add: audio_start_def)
    have next2: "au_next_frame_index (audio_start ?r2) = ?x + 1" using s em(5) start2 by simp
    have smaller: "far (jb ?r2) (au_next_frame_index (audio_start ?r2)) < far (jb r) ?x"
      unfolding jb2 next2 using s by (intro far_step) simp
    have step: "audio_play_loop E j r = audio_play_loop E (j + 1) ?r2"
      using E p by (subst audio_play_loop.simps) (simp add: audio_env_ok_def)
    obtain n r' where r': "audio_play_loop E (j + 1) ?r2 = Some r'" "au_ok r'" "n \<le> far (jb ?r2) (?x + 1)"
      "au_out r' = au_out ?r2 @ frames_from (jb ?r2) (?x + 1) n" "jb r' = rest_after (jb ?r2) (?x + 1) n"
      "au_leaked r' = au_leaked ?r2" "au_next_frame_index r' = ?x + 1 + of_nat n"
      using less.hyps [OF smaller ok2, of "j + 1"] unfolding next2 by blast
    have n: "Suc n \<le> far (jb r) ?x" using r'(3) smaller next2 by simp
    then have small: "n < 2 ^ 16" using far_le [of "jb r" ?x] by linarith
    have "au_out r' = au_out r @ frames_from (jb r) ?x (Suc n)"
      using r'(4) s em(3) frames_from_Suc [OF small, of "jb r" ?x] jb2 by simp
    moreover have "jb r' = rest_after (jb r) ?x (Suc n)" using r'(5) rest_after_Suc [of "jb r" ?x n] jb2 by simp
    moreover have "au_leaked r' = au_leaked r" using r'(6) s em(4) by simp
    moreover have "au_next_frame_index r' = ?x + of_nat (Suc n)" using r'(7) by (simp add: add.assoc)
    ultimately show ?thesis using step r'(1,2) n by (intro exI [of _ "Suc n"] exI [of _ r']) simp
  qed
qed

subsection \<open>Storing a frame\<close>

definition stored_frame :: "bytes \<Rightarrow> bytes option" where
  "stored_frame buf = (if buf = [] then None else Some buf)"

definition fill_slot :: "nat \<Rightarrow> u16 \<Rightarrow> bytes \<Rightarrow> audio_receiver \<Rightarrow> audio_receiver" where
  "fill_slot i idx buf r = r\<lparr>
     au_jitter_buffer := (au_jitter_buffer r)[i := \<lparr>js_occupied = True, js_frame_index = idx, js_buf = stored_frame buf\<rparr>],
     au_jitter_buffer_count := au_jitter_buffer_count r + 1\<rparr>"

lemma fill_slot_ok:
  assumes ok: "au_ok r" and i: "i < CHIAKI_AUDIO_JITTER_BUFFER_SIZE" "i \<notin> jitter_entries r" and new: "jb r idx = None"
  shows "au_ok (fill_slot i idx buf r)" "jb (fill_slot i idx buf r) = (jb r)(idx \<mapsto> stored_frame buf)"
proof -
  let ?r = "fill_slot i idx buf r"
  have l: "i < length (au_jitter_buffer r)" "length (au_jitter_buffer r) = CHIAKI_AUDIO_JITTER_BUFFER_SIZE"
    using ok i by (simp_all add: au_ok_def)
  have here: "au_jitter_buffer ?r ! i = \<lparr>js_occupied = True, js_frame_index = idx, js_buf = stored_frame buf\<rparr>"
    using l by (simp add: fill_slot_def)
  have other: "au_jitter_buffer ?r ! j = au_jitter_buffer r ! j" if "j \<noteq> i" for j using that by (simp add: fill_slot_def)
  have e: "jitter_entries ?r = insert i (jitter_entries r)"
    using l here other i by (auto simp: jitter_entries_def) (metis other)+
  have free: "js_frame_index (au_jitter_buffer r ! j) \<noteq> idx" if "j \<in> jitter_entries r" for j
    using new that by (simp add: jb_None)
  have old: "au_jitter_buffer ?r ! j = au_jitter_buffer r ! j" if "j \<in> jitter_entries r" for j
    using other i(2) that by metis
  have "inj_on (\<lambda>i. js_frame_index (au_jitter_buffer ?r ! i)) (insert i (jitter_entries r))"
    using ok free old here unfolding au_ok_def inj_on_def by (metis audio_slot.select_convs(2) insert_iff)
  moreover have "length (au_jitter_buffer ?r) = CHIAKI_AUDIO_JITTER_BUFFER_SIZE"
    "au_jitter_buffer_count ?r = card (insert i (jitter_entries r))"
    using ok i(2) by (simp_all add: au_ok_def fill_slot_def)
  ultimately show ok': "au_ok ?r" by (simp add: au_ok_def e)
  show "jb ?r = (jb r)(idx \<mapsto> stored_frame buf)"
  proof (rule jb_eqI [OF ok'])
    fix j assume "j \<in> jitter_entries ?r"
    then consider "j = i" | "j \<in> jitter_entries r" using e by auto
    then show "((jb r)(idx \<mapsto> stored_frame buf)) (js_frame_index (au_jitter_buffer ?r ! j)) = Some (js_buf (au_jitter_buffer ?r ! j))"
      by cases (use here free old jb_entry [OF ok] in simp_all)
  next
    fix x
    show "((jb r)(idx \<mapsto> stored_frame buf)) x = None \<longleftrightarrow>
        (\<forall>j \<in> jitter_entries ?r. js_frame_index (au_jitter_buffer ?r ! j) \<noteq> x)"
      using jb_None [of r x] here old unfolding e by (cases "x = idx") auto
  qed
qed

lemma pick_slot_entry:
  assumes "pick_slot before r = Some j"
  shows "j \<in> jitter_entries r"
proof -
  have "foldl (\<lambda>acc i. if \<not> js_occupied (au_jitter_buffer r ! i) then acc
         else case acc of None \<Rightarrow> Some i
         | Some j \<Rightarrow> if before (js_frame_index (au_jitter_buffer r ! i)) (js_frame_index (au_jitter_buffer r ! j))
             then Some i else acc) acc is = Some j \<Longrightarrow>
      set is \<subseteq> {..<CHIAKI_AUDIO_JITTER_BUFFER_SIZE} \<Longrightarrow> (\<And>k. acc = Some k \<Longrightarrow> k \<in> jitter_entries r) \<Longrightarrow>
      j \<in> jitter_entries r" for acc "is"
  proof (induction "is" arbitrary: acc)
    case (Cons i "is")
    show ?case
      by (rule Cons.IH [OF Cons.prems(1) [unfolded foldl_Cons]])
        (use Cons.prems(2,3) in \<open>auto simp: jitter_entries_def split: if_splits option.splits\<close>)
  qed simp
  from this [of None "[0..<CHIAKI_AUDIO_JITTER_BUFFER_SIZE]"] show ?thesis
    using assms by (simp add: pick_slot_def lessThan_atLeast0)
qed

text \<open>What storing does to the buffer: nothing, a new entry, or the newest entry gives way.\<close>

definition store_outcome :: "(u16 \<rightharpoonup> bytes option) \<Rightarrow> u16 \<Rightarrow> bytes \<Rightarrow> (u16 \<rightharpoonup> bytes option) \<Rightarrow> bool" where
  "store_outcome m idx buf m' \<longleftrightarrow> m' = m \<or> m idx = None \<and> m' = m(idx \<mapsto> stored_frame buf)
     \<or> (\<exists>z. z \<in> dom m \<and> chiaki_seq_num_lt idx z \<and> (m' = m(z := None) \<or> m' = m(z := None, idx \<mapsto> stored_frame buf)))"

lemma store_ok:
  assumes ok: "au_ok r" and st: "chiaki_audio_receiver_store_audio_frame_locked alloc r idx buf = (stored, r')"
  shows "au_ok r' \<and> store_outcome (jb r) idx buf (jb r') \<and> au_out r' = au_out r \<and> au_leaked r' = au_leaked r
    \<and> au_next_frame_index r' = au_next_frame_index r \<and> au_playback_started r' = au_playback_started r
    \<and> au_next_frame_index_valid r' = au_next_frame_index_valid r"
proof (cases "chiaki_audio_receiver_find_audio_slot r idx")
  case (Some i)
  then show ?thesis using st ok by (simp add: chiaki_audio_receiver_store_audio_frame_locked_def store_outcome_def)
next
  case None
  then have new: "jb r idx = None" by (simp add: jb_def)
  show ?thesis
  proof (cases "List.find (\<lambda>i. \<not> js_occupied (au_jitter_buffer r ! i)) [0..<CHIAKI_AUDIO_JITTER_BUFFER_SIZE]")
    case (Some i)
    then have i: "i < CHIAKI_AUDIO_JITTER_BUFFER_SIZE" "i \<notin> jitter_entries r"
      by (auto simp: find_Some_iff jitter_entries_def)
    have "r' = (if buf \<noteq> [] \<and> \<not> alloc then r else fill_slot i idx buf r)"
      using st None Some by (auto simp: chiaki_audio_receiver_store_audio_frame_locked_def audio_free_slot_def
          fill_slot_def stored_frame_def split: if_splits)
    then show ?thesis using fill_slot_ok [OF ok i new, of buf] ok new
      by (auto simp: store_outcome_def) (auto simp: fill_slot_def)
  next
    case full: None
    show ?thesis
    proof (cases "audio_free_slot r idx")
      case None
      then show ?thesis using st ok \<open>chiaki_audio_receiver_find_audio_slot r idx = None\<close>
        by (simp add: chiaki_audio_receiver_store_audio_frame_locked_def store_outcome_def)
    next
      case (Some f)
      then obtain n where n: "chiaki_audio_receiver_find_newest_audio_slot r = Some n"
        "chiaki_seq_num_lt idx (js_frame_index (au_jitter_buffer r ! n))" "f = (n, empty_jitter_slot n r)"
        using full by (auto simp: audio_free_slot_def split: option.splits if_splits)
      have e: "n \<in> jitter_entries r" using n(1) pick_slot_entry by (simp add: chiaki_audio_receiver_find_newest_audio_slot_def)
      let ?z = "js_frame_index (au_jitter_buffer r ! n)" and ?r = "empty_jitter_slot n r"
      note r1 = empty_jitter_slot_ok [OF ok e]
      have i: "n < CHIAKI_AUDIO_JITTER_BUFFER_SIZE" "n \<notin> jitter_entries ?r" using e r1(3) by (auto simp: jitter_entries_def)
      have "jb ?r idx = None" using new r1(2) by simp
      note r2 = fill_slot_ok [OF r1(1) i this, of buf]
      have z: "?z \<in> dom (jb r)" using jb_entry [OF ok e] by blast
      have "r' = (if buf \<noteq> [] \<and> \<not> alloc then ?r else fill_slot n idx buf ?r)"
        using st \<open>chiaki_audio_receiver_find_audio_slot r idx = None\<close> Some n(3)
        by (auto simp: chiaki_audio_receiver_store_audio_frame_locked_def fill_slot_def stored_frame_def split: if_splits)
      then show ?thesis using r1(1,2) r2 z n(2)
        by (auto simp: store_outcome_def) (auto simp: fill_slot_def empty_jitter_slot_def)
    qed
  qed
qed

text \<open>C24. Audio is played in order: a frame that arrives is dropped as late, stored, or stored in place of the
  newest one waiting; then the receiver plays, and stops after finitely many frames, a run of consecutive
  frame numbers that starts at the next one due, each with exactly the bytes waiting for that number and
  silence for a number that is not there; what was played leaves the buffer and nothing is leaked.\<close>

theorem audio_plays_in_order:
  assumes "audio_env_ok E" "au_ok r"
  shows "\<exists>m x n r'. chiaki_audio_receiver_frame E r idx False buf = Some r' \<and> au_ok r'
    \<and> store_outcome (jb r) idx buf m \<and> n \<le> 2 ^ 16
    \<and> au_out r' = au_out r @ frames_from m x n \<and> jb r' = rest_after m x n \<and> au_leaked r' = au_leaked r
    \<and> (au_playback_started r \<longrightarrow> x = au_next_frame_index r \<and> au_next_frame_index r' = x + of_nat n)"
proof (cases "au_next_frame_index_valid r \<and> chiaki_seq_num_lt idx (au_next_frame_index r)")
  case True
  then have "chiaki_audio_receiver_frame E r idx False buf = Some r"
    using assms(1) by (simp add: chiaki_audio_receiver_frame_def audio_env_ok_def)
  then show ?thesis using assms(2)
    by (intro exI [of _ "jb r"] exI [of _ "au_next_frame_index r"] exI [of _ 0] exI [of _ r])
      (simp add: store_outcome_def frames_from_def rest_after_def)
next
  case False
  obtain stored r1 where st: "chiaki_audio_receiver_store_audio_frame_locked (av_alloc E) r idx buf = (stored, r1)" by force
  note s = store_ok [OF assms(2) st]
  show ?thesis
  proof (cases stored)
    case True
    obtain n r' where r': "audio_play_loop E 0 r1 = Some r'" "au_ok r'" "n \<le> far (jb r1) (au_next_frame_index (audio_start r1))"
      "au_out r' = au_out r1 @ frames_from (jb r1) (au_next_frame_index (audio_start r1)) n"
      "jb r' = rest_after (jb r1) (au_next_frame_index (audio_start r1)) n" "au_leaked r' = au_leaked r1"
      "au_next_frame_index r' = au_next_frame_index (audio_start r1) + of_nat n"
      using play_loop_runs [OF assms(1)] s by metis
    have "chiaki_audio_receiver_frame E r idx False buf = Some r'"
      using assms(1) st True r'(1) by (simp add: chiaki_audio_receiver_frame_def audio_env_ok_def False del: de_Morgan_conj)
    moreover have "au_playback_started r \<longrightarrow> au_next_frame_index (audio_start r1) = au_next_frame_index r"
      using s by (simp add: audio_start_def)
    ultimately show ?thesis using r' s far_le [of "jb r1" "au_next_frame_index (audio_start r1)"]
      by (intro exI [of _ "jb r1"] exI [of _ "au_next_frame_index (audio_start r1)"] exI [of _ n] exI [of _ r']) simp
  next
    case stay: False
    then have "chiaki_audio_receiver_frame E r idx False buf = Some r1"
      using assms(1) st by (simp add: chiaki_audio_receiver_frame_def audio_env_ok_def False del: de_Morgan_conj)
    then show ?thesis using s
      by (intro exI [of _ "jb r1"] exI [of _ "au_next_frame_index r"] exI [of _ 0] exI [of _ r1])
        (simp add: frames_from_def rest_after_def)
  qed
qed

text \<open>Frames 0 and 1 wait and 65535 is due: its arrival releases the three of them.\<close>

definition audio_demo_env :: audio_env where
  "audio_demo_env = \<lparr>av_lock = \<lambda>_. CHIAKI_ERR_SUCCESS, av_unlock = \<lambda>_. CHIAKI_ERR_SUCCESS, av_alloc = True,
     av_audio_cb = True, av_haptics_cb = True, av_header_cb = True\<rparr>"

definition audio_demo :: audio_receiver where
  "audio_demo = \<lparr>au_frame_index_prev = 65534, au_next_frame_index = 65535, au_next_frame_index_valid = True,
     au_playback_started = True, au_frame_index_startup = False, au_packet_stats = None,
     au_jitter_buffer = \<lparr>js_occupied = True, js_frame_index = 0, js_buf = Some [8]\<rparr>
       # \<lparr>js_occupied = True, js_frame_index = 1, js_buf = Some [9]\<rparr> # replicate 6 empty_slot,
     au_jitter_buffer_count = 2, au_out = [], au_leaked = []\<rparr>"

lemma audio_demo_ok: "au_ok audio_demo"
proof -
  have "jitter_entries audio_demo = {0, 1}"
    by (auto simp: jitter_entries_def audio_demo_def empty_slot_def CHIAKI_AUDIO_JITTER_BUFFER_SIZE_def
        nth_Cons' split: if_splits)
  then show ?thesis
    by (simp add: au_ok_def audio_demo_def CHIAKI_AUDIO_JITTER_BUFFER_SIZE_def)
qed

theorem audio_plays_in_order_witness:
  "\<exists>m x n r'. chiaki_audio_receiver_frame audio_demo_env audio_demo 65535 False [7] = Some r' \<and> au_ok r'
    \<and> store_outcome (jb audio_demo) 65535 [7] m \<and> n \<le> 2 ^ 16
    \<and> au_out r' = au_out audio_demo @ frames_from m x n \<and> jb r' = rest_after m x n \<and> au_leaked r' = au_leaked audio_demo
    \<and> (au_playback_started audio_demo \<longrightarrow> x = au_next_frame_index audio_demo \<and> au_next_frame_index r' = x + of_nat n)"
  by (rule audio_plays_in_order [OF _ audio_demo_ok]) (simp add: audio_env_ok_def audio_demo_env_def)

end
