(* ===== verification/AudioSender.thy ===== *)
theory AudioSender
  imports AudioReceiver
begin

text \<open>
  \<^verbatim>\<open>lib/src/audiosender.c\<close>: microphone frames of 40 bytes are sent three units to a packet.

  \<open>as_packets\<close> lists the packets handed to \<open>chiaki_takion_send_mic_packet\<close>, whose own model is in
  \<open>TakionSend\<close>: the sender only logs what that call returns, so its state does not depend on it.
\<close>

record audio_sender =
  as_ps5 :: bool
  as_framea :: "bytes option"
  as_frameb :: "bytes option"
  as_frame_index :: u16
  as_packets :: "bytes list"

definition buf_size_per_unit :: nat where "buf_size_per_unit = 40"

definition chiaki_audio_sender_init :: "bool \<Rightarrow> bool \<Rightarrow> chiaki_error \<Rightarrow> bool \<Rightarrow> chiaki_error + audio_sender" where
  "chiaki_audio_sender_init frame_buf_alloc packet_buf_alloc mutex ps5 =
     (if \<not> frame_buf_alloc then Inl CHIAKI_ERR_MEMORY
      else if \<not> packet_buf_alloc then Inl CHIAKI_ERR_MEMORY
      else if mutex \<noteq> CHIAKI_ERR_SUCCESS then Inl mutex
      else Inr \<lparr>as_ps5 = ps5, as_framea = None, as_frameb = None, as_frame_index = 0, as_packets = []\<rparr>)"

definition mic_units_number :: u32 where
  "mic_units_number =
     (let unit_index = 0; units_in_frame_total = 3; units_in_frame_fec_raw = 10273 in
      (units_in_frame_fec_raw AND 0xffff) OR push_bit 0x10 ((units_in_frame_total - 1) AND 0xff)
        OR push_bit 0x18 (unit_index AND 0xff))"

definition mic_packet :: "bool \<Rightarrow> u16 \<Rightarrow> bytes \<Rightarrow> bytes" where
  "mic_packet ps5 frame_index frame_buf =
     [3] @ be16 frame_index @ be16 (frame_index + 1) @ be32 mic_units_number @ [5] @ be32 0 @ be32 0 @ [0]
       @ (if ps5 then [0] else []) @ frame_buf"

definition chiaki_audio_sender_frame :: "chiaki_error \<Rightarrow> audio_sender \<Rightarrow> bytes \<Rightarrow> audio_sender" where
  "chiaki_audio_sender_frame lk s buf =
     (if lk \<noteq> CHIAKI_ERR_SUCCESS then s
      else s\<lparr>as_packets := as_packets s @ [buf],
        as_frame_index := (if as_frame_index s = - 1 then 0 else as_frame_index s + 1)\<rparr>)"

text \<open>The frame buffer is filled with \<open>frameb\<close>, \<open>framea\<close> and the new frame; then the new frame is copied over
  the first unit.\<close>

definition chiaki_audio_sender_opus_data ::
    "bool \<Rightarrow> chiaki_error \<Rightarrow> audio_sender \<Rightarrow> bytes \<Rightarrow> audio_sender option" where
  "chiaki_audio_sender_opus_data alloc lk s opus =
     (if length opus \<noteq> buf_size_per_unit then Some s
      else case as_frameb s of
        None \<Rightarrow> Some (if alloc then s\<lparr>as_frameb := Some opus\<rparr> else s)
      | Some frameb \<Rightarrow>
      case as_framea s of
        None \<Rightarrow> Some (if alloc then s\<lparr>as_framea := Some opus\<rparr> else s)
      | Some framea \<Rightarrow> do {
          frame_buf \<leftarrow> wr_slice (frameb @ framea @ opus) 0 opus;
          Some (chiaki_audio_sender_frame lk (s\<lparr>as_framea := Some opus, as_frameb := Some opus\<rparr>)
            (mic_packet (as_ps5 s) (as_frame_index s) frame_buf)) })"

text \<open>The packets of one call on the wire.\<close>

fun send_mic_packets :: "gk_prims \<Rightarrow> send_env \<Rightarrow> bool \<Rightarrow> bytes list \<Rightarrow> takion \<Rightarrow> takion option" where
  "send_mic_packets P E ps5 [] tk = Some tk"
| "send_mic_packets P E ps5 (p # ps) tk = do {
     (err, tk) \<leftarrow> chiaki_takion_send_mic_packet P E tk ps5 p;
     send_mic_packets P E ps5 ps tk }"

definition audio_sender_send ::
    "gk_prims \<Rightarrow> send_env \<Rightarrow> bool \<Rightarrow> chiaki_error \<Rightarrow> audio_sender \<Rightarrow> takion \<Rightarrow> bytes \<Rightarrow> (audio_sender \<times> takion) option" where
  "audio_sender_send P E alloc lk s tk opus = do {
     s' \<leftarrow> chiaki_audio_sender_opus_data alloc lk s opus;
     tk \<leftarrow> send_mic_packets P E (as_ps5 s) (drop (length (as_packets s)) (as_packets s')) tk;
     Some (s', tk) }"

subsection \<open>What is sent\<close>

fun opus_run :: "audio_sender \<Rightarrow> bytes list \<Rightarrow> audio_sender option" where
  "opus_run s [] = Some s"
| "opus_run s (f # fs) = do {
     s \<leftarrow> chiaki_audio_sender_opus_data True CHIAKI_ERR_SUCCESS s f;
     opus_run s fs }"

definition mic_sent :: "bool \<Rightarrow> bytes list \<Rightarrow> nat \<Rightarrow> bytes" where
  "mic_sent ps5 fs k = mic_packet ps5 (of_nat k) (fs ! (k + 2) @ fs ! (k + 1) @ fs ! (k + 2))"

definition as_inv :: "bool \<Rightarrow> bytes list \<Rightarrow> audio_sender \<Rightarrow> bool" where
  "as_inv ps5 fs s \<longleftrightarrow> as_ps5 s = ps5 \<and> (\<forall>f \<in> set fs. length f = buf_size_per_unit)
     \<and> as_packets s = map (mic_sent ps5 fs) [0..<length fs - 2] \<and> as_frame_index s = of_nat (length fs - 2)
     \<and> as_frameb s = (if fs = [] then None else Some (if length fs \<le> 2 then fs ! 0 else last fs))
     \<and> as_framea s = (if length fs < 2 then None else Some (last fs))"

lemma wrap_u16: "(if w = - 1 then 0 else w + 1) = (w + 1 :: u16)"
  by simp

lemma mic_sent_append:
  "k < length fs - 2 \<Longrightarrow> mic_sent ps5 (fs @ [f]) k = mic_sent ps5 fs k"
  by (simp add: mic_sent_def nth_append less_diff_conv)

lemma opus_step:
  assumes inv: "as_inv ps5 fs s"
  shows "\<exists>s'. chiaki_audio_sender_opus_data True CHIAKI_ERR_SUCCESS s f = Some s'
    \<and> as_inv ps5 (if length f = buf_size_per_unit then fs @ [f] else fs) s'"
proof (cases "length f = buf_size_per_unit \<and> 2 \<le> length fs")
  case False
  then consider "length f \<noteq> buf_size_per_unit" | "length f = buf_size_per_unit" "fs = []"
    | g where "length f = buf_size_per_unit" "fs = [g]"
    by (cases "length f = buf_size_per_unit"; cases fs) (auto simp: not_less_eq_eq)
  then show ?thesis
    by cases (use inv in \<open>simp_all add: as_inv_def chiaki_audio_sender_opus_data_def\<close>)
next
  case True
  then obtain b where b: "as_framea s = Some (last fs)" "as_frameb s = Some b" "length b = buf_size_per_unit"
    using inv by (cases fs) (auto simp: as_inv_def split: if_splits)
  have fs: "fs \<noteq> []" "length (last fs) = buf_size_per_unit"
  proof -
    show ne: "fs \<noteq> []" using True by auto
    show "length (last fs) = buf_size_per_unit" using inv last_in_set [OF ne] by (simp add: as_inv_def)
  qed
  let ?s = "s\<lparr>as_framea := Some f, as_frameb := Some f, as_frame_index := as_frame_index s + 1,
    as_packets := as_packets s @ [mic_packet ps5 (as_frame_index s) (f @ last fs @ f)]\<rparr>"
  have "chiaki_audio_sender_opus_data True CHIAKI_ERR_SUCCESS s f = Some ?s"
    using True b fs inv
    by (simp add: chiaki_audio_sender_opus_data_def chiaki_audio_sender_frame_def as_inv_def del: of_nat_diff split: if_splits)
  moreover have "as_inv ps5 (fs @ [f]) ?s"
  proof -
    have n: "length (fs @ [f]) - 2 = Suc (length fs - 2)" using True by (cases fs) auto
    have n': "length fs - Suc 0 = Suc (length fs - 2)" using n by simp
    have l: "[0..<length fs - Suc 0] = [0..<length fs - 2] @ [length fs - 2]"
      by (simp only: n' upt_Suc) simp
    have "mic_sent ps5 (fs @ [f]) (length fs - 2) = mic_packet ps5 (of_nat (length fs - 2)) (f @ last fs @ f)"
      using True fs by (simp add: mic_sent_def nth_append last_conv_nth Suc_diff_Suc numeral_2_eq_2)
    moreover have "of_nat (length fs - 2) + 1 = (of_nat (length (fs @ [f]) - 2) :: u16)"
      by (simp only: n) simp
    ultimately show ?thesis using inv True fs
      by (simp add: as_inv_def l mic_sent_append del: of_nat_diff)
  qed
  ultimately show ?thesis using True by auto
qed

lemma opus_run_inv:
  "as_inv ps5 gs s \<Longrightarrow> \<exists>s'. opus_run s fs = Some s'
     \<and> as_inv ps5 (gs @ filter (\<lambda>f. length f = buf_size_per_unit) fs) s'"
proof (induction fs arbitrary: s gs)
  case (Cons f fs)
  then show ?case using opus_step [of ps5 gs s f] by (cases "length f = buf_size_per_unit") force+
qed simp

lemma mic_units:
  "chiaki_takion_av_packet_audio_source_units_count p = 1" "chiaki_takion_av_packet_audio_fec_units_count p = 2"
  "chiaki_takion_av_packet_audio_unit_size p = 40"
  if "av_units_fec p = ucast (mic_units_number AND 0xffff)"
  using that by (simp_all add: chiaki_takion_av_packet_audio_source_units_count_def
      chiaki_takion_av_packet_audio_fec_units_count_def chiaki_takion_av_packet_audio_unit_size_def mic_units_number_def)

lemma mic_unit_slices:
  assumes "length a = 40" "length b = 40" "length c = 40"
    "av_units_fec p = ucast (mic_units_number AND 0xffff)" "\<not> au_frame_index_startup r"
  shows "let source = unat (chiaki_takion_av_packet_audio_source_units_count p);
             fec = unat (chiaki_takion_av_packet_audio_fec_units_count p);
             unit_size = unat (chiaki_takion_av_packet_audio_unit_size p);
             frame_index = of_nat (k + 1) in
         unit_size * (source + fec) = length (a @ b @ c)
         \<and> audio_unit_index r frame_index source fec 0 = Some (of_nat (k + 1))
         \<and> rd_slice (a @ b @ c) 0 unit_size = Some a
         \<and> audio_unit_index r frame_index source fec 1 = Some (of_nat k - 1)
         \<and> rd_slice (a @ b @ c) unit_size unit_size = Some b
         \<and> audio_unit_index r frame_index source fec 2 = Some (of_nat k)
         \<and> rd_slice (a @ b @ c) (2 * unit_size) unit_size = Some c"
  using assms by (simp add: mic_units Let_def audio_unit_index_def)

text \<open>C25. What the microphone sends: of the frames the encoder gives, those of 40 bytes from the third on go out,
  one packet each, numbered in order; and read by the receiver's own rules, where the packet's later units
  repeat the two frames before its own, each repeated unit carries the frame after the one it is numbered as.\<close>

theorem mic_redundancy_shifted:
  assumes "chiaki_audio_sender_init True True CHIAKI_ERR_SUCCESS ps5 = Inr s" "fs = filter (\<lambda>f. length f = buf_size_per_unit) all"
  shows "\<exists>s'. opus_run s all = Some s' \<and> length (as_packets s') = length fs - 2
    \<and> (\<forall>k < length fs - 2. \<exists>buf. as_packets s' ! k = mic_packet ps5 (of_nat k) buf
        \<and> (\<forall>p r. av_units_fec p = ucast (mic_units_number AND 0xffff) \<longrightarrow> \<not> au_frame_index_startup r \<longrightarrow>
            (let source = unat (chiaki_takion_av_packet_audio_source_units_count p);
                 fec = unat (chiaki_takion_av_packet_audio_fec_units_count p);
                 unit_size = unat (chiaki_takion_av_packet_audio_unit_size p);
                 frame_index = of_nat (k + 1) in
             unit_size * (source + fec) = length buf
             \<and> audio_unit_index r frame_index source fec 0 = Some (of_nat (k + 1))
             \<and> rd_slice buf 0 unit_size = Some (fs ! (k + 2))
             \<and> audio_unit_index r frame_index source fec 1 = Some (of_nat k - 1)
             \<and> rd_slice buf unit_size unit_size = Some (fs ! (k + 1))
             \<and> audio_unit_index r frame_index source fec 2 = Some (of_nat k)
             \<and> rd_slice buf (2 * unit_size) unit_size = Some (fs ! (k + 2)))))"
proof -
  have s: "as_inv ps5 [] s" using assms(1) by (auto simp: chiaki_audio_sender_init_def as_inv_def)
  obtain s' where s': "opus_run s all = Some s'" "as_inv ps5 fs s'"
    using opus_run_inv [OF s, of all] assms(2) by auto
  have len: "length (fs ! j) = 40" if "j < length fs" for j
    using s'(2) that by (auto simp: as_inv_def buf_size_per_unit_def)
  show ?thesis
  proof (intro exI [of _ s'] conjI allI impI)
    show "opus_run s all = Some s'" by (rule s')
    show "length (as_packets s') = length fs - 2" using s'(2) by (simp add: as_inv_def)
    fix k assume k: "k < length fs - 2"
    then have l: "length (fs ! (k + 1)) = 40" "length (fs ! (k + 2)) = 40" using len by auto
    show "\<exists>buf. as_packets s' ! k = mic_packet ps5 (of_nat k) buf
        \<and> (\<forall>p r. av_units_fec p = ucast (mic_units_number AND 0xffff) \<longrightarrow> \<not> au_frame_index_startup r \<longrightarrow>
            (let source = unat (chiaki_takion_av_packet_audio_source_units_count p);
                 fec = unat (chiaki_takion_av_packet_audio_fec_units_count p);
                 unit_size = unat (chiaki_takion_av_packet_audio_unit_size p);
                 frame_index = of_nat (k + 1) in
             unit_size * (source + fec) = length buf
             \<and> audio_unit_index r frame_index source fec 0 = Some (of_nat (k + 1))
             \<and> rd_slice buf 0 unit_size = Some (fs ! (k + 2))
             \<and> audio_unit_index r frame_index source fec 1 = Some (of_nat k - 1)
             \<and> rd_slice buf unit_size unit_size = Some (fs ! (k + 1))
             \<and> audio_unit_index r frame_index source fec 2 = Some (of_nat k)
             \<and> rd_slice buf (2 * unit_size) unit_size = Some (fs ! (k + 2))))"
      using k s'(2) mic_unit_slices [OF l(2) l(1) l(2)]
      by (intro exI [of _ "fs ! (k + 2) @ fs ! (k + 1) @ fs ! (k + 2)"]) (simp add: as_inv_def mic_sent_def)
  qed
qed

theorem mic_redundancy_shifted_witness:
  "\<exists>s'. opus_run \<lparr>as_ps5 = True, as_framea = None, as_frameb = None, as_frame_index = 0, as_packets = []\<rparr>
      [replicate 40 1, replicate 40 2, [9], replicate 40 3] = Some s' \<and> length (as_packets s') = 1"
  using mic_redundancy_shifted [of True _ _ "[replicate 40 1, replicate 40 2, [9], replicate 40 3]", OF _ refl]
  by (simp add: chiaki_audio_sender_init_def buf_size_per_unit_def) blast

end
