(* ===== verification/Bitstream.thy ===== *)
theory Bitstream
  imports Common
begin

text \<open>
  The bit reader of \<^verbatim>\<open>lib/src/vl_rbsp.h\<close> and the parser of H.264 and H.265 headers in
  \<^verbatim>\<open>lib/src/bitstream.c\<close>.

  The reader keeps up to 63 bits of look-ahead in the top of a 64-bit word.  Pointers into the input are
  offsets, and \<open>vl_align\<close> is the address of the input modulo 4.  The assertions of the header are there
  in a debug build only: \<open>dbg\<close> says whether they are checked.  \<open>None\<close> is a failed assertion, an access
  outside the input, a shift by the width of its operand, or a loop that does not end.
\<close>

record vlc =
  vl_buffer :: u64
  vl_invalid :: int
  vl_data :: nat
  vl_end :: nat
  vl_bytes_left :: nat
  vl_mem :: bytes
  vl_align :: nat

definition shl64 :: "u64 \<Rightarrow> int \<Rightarrow> u64 option" where
  "shl64 x n = (if 0 \<le> n \<and> n < 64 then Some (push_bit (nat n) x) else None)"

definition shr64 :: "u64 \<Rightarrow> int \<Rightarrow> u64 option" where
  "shr64 x n = (if 0 \<le> n \<and> n < 64 then Some (drop_bit (nat n) x) else None)"

definition vl_assert :: "bool \<Rightarrow> bool \<Rightarrow> unit option" where
  "vl_assert dbg c = (if dbg \<and> \<not> c then None else Some ())"

definition vl_load_byte :: "vlc \<Rightarrow> vlc option" where
  "vl_load_byte v = do {
     b \<leftarrow> rd8 (vl_mem v) (vl_data v);
     x \<leftarrow> shl64 (ucast b) (24 + vl_invalid v);
     Some (v\<lparr>vl_buffer := vl_buffer v OR x, vl_data := vl_data v + 1, vl_invalid := vl_invalid v - 8\<rparr>) }"

partial_function (option) vl_vlc_align_data_ptr :: "vlc \<Rightarrow> vlc option" where
  "vl_vlc_align_data_ptr v =
     (if vl_data v \<noteq> vl_end v \<and> (vl_align v + vl_data v) mod 4 \<noteq> 0
      then do { v \<leftarrow> vl_load_byte v; vl_vlc_align_data_ptr v } else Some v)"

partial_function (option) vl_load_rest :: "vlc \<Rightarrow> vlc option" where
  "vl_load_rest v =
     (if vl_data v < vl_end v then do { v \<leftarrow> vl_load_byte v; vl_load_rest v } else Some v)"

definition vl_vlc_fillbits :: "vlc \<Rightarrow> vlc option" where
  "vl_vlc_fillbits v =
     (if vl_invalid v \<le> 0 then Some v
      else if vl_end v = vl_data v then Some v
      else if 4 \<le> vl_end v - vl_data v then do {
        value \<leftarrow> rd32be (vl_mem v) (vl_data v);
        x \<leftarrow> shl64 (ucast value) (vl_invalid v);
        Some (v\<lparr>vl_buffer := vl_buffer v OR x, vl_data := vl_data v + 4, vl_invalid := vl_invalid v - 32\<rparr>) }
      else vl_load_rest v)"

definition vl_vlc_init :: "nat \<Rightarrow> bytes \<Rightarrow> nat \<Rightarrow> vlc option" where
  "vl_vlc_init align input sz = do {
     v \<leftarrow> vl_vlc_align_data_ptr \<lparr>vl_buffer = 0, vl_invalid = 32, vl_data = 0, vl_end = sz, vl_bytes_left = sz,
            vl_mem = input, vl_align = align\<rparr>;
     vl_vlc_fillbits v }"

definition vl_vlc_valid_bits :: "vlc \<Rightarrow> u32" where
  "vl_vlc_valid_bits v = word_of_int (32 - vl_invalid v)"

definition vl_vlc_bits_left :: "vlc \<Rightarrow> u32" where
  "vl_vlc_bits_left v =
     word_of_int ((int (vl_end v) - int (vl_data v) + int (vl_bytes_left v)) * 8) + vl_vlc_valid_bits v"

definition vl_vlc_peekbits :: "bool \<Rightarrow> vlc \<Rightarrow> u32 \<Rightarrow> u32 option" where
  "vl_vlc_peekbits dbg v num_bits = do {
     _ \<leftarrow> vl_assert dbg (num_bits \<le> vl_vlc_valid_bits v \<or> vl_end v \<le> vl_data v);
     x \<leftarrow> shr64 (vl_buffer v) (uint (64 - num_bits));
     Some (ucast x) }"

definition vl_vlc_eatbits :: "bool \<Rightarrow> vlc \<Rightarrow> u32 \<Rightarrow> vlc option" where
  "vl_vlc_eatbits dbg v num_bits = do {
     _ \<leftarrow> vl_assert dbg (num_bits \<le> vl_vlc_valid_bits v);
     x \<leftarrow> shl64 (vl_buffer v) (uint num_bits);
     Some (v\<lparr>vl_buffer := x, vl_invalid := vl_invalid v + uint num_bits\<rparr>) }"

definition vl_vlc_get_uimsbf :: "bool \<Rightarrow> vlc \<Rightarrow> u32 \<Rightarrow> (u32 \<times> vlc) option" where
  "vl_vlc_get_uimsbf dbg v num_bits = do {
     _ \<leftarrow> vl_assert dbg (num_bits \<le> vl_vlc_valid_bits v);
     value \<leftarrow> shr64 (vl_buffer v) (uint (64 - num_bits));
     v \<leftarrow> vl_vlc_eatbits dbg v num_bits;
     Some (ucast value, v) }"

subsection \<open>Searching and limiting\<close>

text \<open>The first loop of \<open>vl_vlc_search_byte\<close>; the sum tells whether the search is over.\<close>

partial_function (option) search_buffer :: "bool \<Rightarrow> vlc \<Rightarrow> u32 \<Rightarrow> u8 \<Rightarrow> ((bool \<times> vlc) + (u32 \<times> vlc)) option" where
  "search_buffer dbg v num_bits value =
     (if 0 < vl_vlc_valid_bits v then do {
        x \<leftarrow> vl_vlc_peekbits dbg v 8;
        if x = ucast value then do { v \<leftarrow> vl_vlc_fillbits v; Some (Inl (True, v)) }
        else do {
          v \<leftarrow> vl_vlc_eatbits dbg v 8;
          if num_bits \<noteq> - 1
          then if num_bits - 8 = 0 then Some (Inl (False, v)) else search_buffer dbg v (num_bits - 8) value
          else search_buffer dbg v num_bits value } }
      else Some (Inr (num_bits, v)))"

partial_function (option) search_data :: "vlc \<Rightarrow> u32 \<Rightarrow> u8 \<Rightarrow> (bool \<times> vlc) option" where
  "search_data v num_bits value =
     (if vl_data v = vl_end v then Some (False, v)
      else do {
        b \<leftarrow> rd8 (vl_mem v) (vl_data v);
        if b = value then do { v \<leftarrow> vl_vlc_align_data_ptr v; v \<leftarrow> vl_vlc_fillbits v; Some (True, v) }
        else let v = v\<lparr>vl_data := vl_data v + 1\<rparr> in
          if num_bits \<noteq> - 1
          then if num_bits - 8 = 0 then do { v \<leftarrow> vl_vlc_align_data_ptr v; Some (False, v) }
               else search_data v (num_bits - 8) value
          else search_data v num_bits value })"

definition vl_vlc_search_byte :: "bool \<Rightarrow> vlc \<Rightarrow> u32 \<Rightarrow> u8 \<Rightarrow> (bool \<times> vlc) option" where
  "vl_vlc_search_byte dbg v num_bits value = do {
     _ \<leftarrow> vl_assert dbg (vl_vlc_valid_bits v mod 8 = 0);
     _ \<leftarrow> vl_assert dbg (num_bits = - 1 \<or> num_bits mod 8 = 0);
     r \<leftarrow> search_buffer dbg v num_bits value;
     (case r of Inl r \<Rightarrow> Some r | Inr (num_bits, v) \<Rightarrow> search_data v num_bits value) }"

definition vl_vlc_removebits :: "vlc \<Rightarrow> u32 \<Rightarrow> u32 \<Rightarrow> vlc option" where
  "vl_vlc_removebits v pos num_bits = do {
     m \<leftarrow> shr64 (- 1) (uint (pos + num_bits));
     lo \<leftarrow> shl64 (vl_buffer v AND m) (uint num_bits);
     h \<leftarrow> shl64 (- 1) (uint (64 - pos));
     Some (v\<lparr>vl_buffer := lo OR (vl_buffer v AND h), vl_invalid := vl_invalid v + uint num_bits\<rparr>) }"

definition vl_vlc_limit :: "bool \<Rightarrow> vlc \<Rightarrow> u32 \<Rightarrow> vlc option" where
  "vl_vlc_limit dbg v bits_left = do {
     _ \<leftarrow> vl_assert dbg (bits_left \<le> vl_vlc_bits_left v);
     v \<leftarrow> vl_vlc_fillbits v;
     if bits_left < vl_vlc_valid_bits v then do {
       let inv = 32 - uint bits_left;
       m \<leftarrow> shl64 (- 1) (inv + 32);
       Some (v\<lparr>vl_invalid := inv, vl_buffer := vl_buffer v AND m, vl_end := vl_data v, vl_bytes_left := 0\<rparr>) }
     else do {
       _ \<leftarrow> vl_assert dbg ((bits_left - vl_vlc_valid_bits v) mod 8 = 0);
       let left = unat ((bits_left - vl_vlc_valid_bits v) div 8);
       Some (if left < vl_end v - vl_data v
             then v\<lparr>vl_end := vl_data v + left, vl_bytes_left := 0\<rparr>
             else v\<lparr>vl_bytes_left := left - (vl_end v - vl_data v)\<rparr>) } }"

subsection \<open>NAL units\<close>

record rbsp =
  rb_nal :: vlc
  rb_escaped :: u32
  rb_removed :: u32

text \<open>The end of the NAL unit: \<open>nal\<close> runs ahead to the next start code, where \<open>r\<close> is limited.\<close>

partial_function (option) rbsp_find_end :: "bool \<Rightarrow> u32 \<Rightarrow> u32 \<Rightarrow> vlc \<Rightarrow> vlc \<Rightarrow> vlc option" where
  "rbsp_find_end dbg num_bits bits_left nal r = do {
     (found, nal) \<leftarrow> vl_vlc_search_byte dbg nal num_bits 0;
     if \<not> found then Some r
     else do {
       a \<leftarrow> vl_vlc_peekbits dbg nal 24;
       b \<leftarrow> vl_vlc_peekbits dbg nal 32;
       if a = 1 \<or> b = 1 then vl_vlc_limit dbg r (bits_left - vl_vlc_bits_left nal)
       else do { nal \<leftarrow> vl_vlc_eatbits dbg nal 8; rbsp_find_end dbg num_bits bits_left nal r } } }"

partial_function (option) init_escapes :: "bool \<Rightarrow> u32 \<Rightarrow> u32 \<Rightarrow> vlc \<Rightarrow> vlc option" where
  "init_escapes dbg valid i v =
     (if i \<le> valid then do {
        x \<leftarrow> vl_vlc_peekbits dbg v i;
        if x AND 0xffffff = 3 then do { v \<leftarrow> vl_vlc_removebits v (i - 8) 8; init_escapes dbg valid (i + 16) v }
        else init_escapes dbg valid (i + 8) v }
      else Some v)"

definition vl_rbsp_init :: "bool \<Rightarrow> vlc \<Rightarrow> u32 \<Rightarrow> rbsp option" where
  "vl_rbsp_init dbg nal num_bits = do {
     v \<leftarrow> rbsp_find_end dbg num_bits (vl_vlc_bits_left nal) nal nal;
     v \<leftarrow> init_escapes dbg (vl_vlc_valid_bits v) 24 v;
     let valid = vl_vlc_valid_bits v;
     Some \<lparr>rb_nal = v, rb_escaped = (if 16 \<le> valid then 16 else if 8 \<le> valid then 8 else 0), rb_removed = 0\<rparr> }"

partial_function (option) fill_escapes :: "bool \<Rightarrow> u32 \<Rightarrow> u32 \<Rightarrow> rbsp \<Rightarrow> rbsp option" where
  "fill_escapes dbg bits i r =
     (if i \<le> bits then do {
        x \<leftarrow> vl_vlc_peekbits dbg (rb_nal r) i;
        if x AND 0xffffff = 3 then do {
          v \<leftarrow> vl_vlc_removebits (rb_nal r) (i - 8) 8;
          fill_escapes dbg (bits - 8) (i + 16)
            (r\<lparr>rb_nal := v, rb_escaped := bits - i, rb_removed := rb_removed r + 8\<rparr>) }
        else fill_escapes dbg bits (i + 8) r }
      else Some r)"

definition vl_rbsp_fillbits :: "bool \<Rightarrow> rbsp \<Rightarrow> rbsp option" where
  "vl_rbsp_fillbits dbg r =
     (let valid = vl_vlc_valid_bits (rb_nal r) in
      if 32 \<le> valid then Some r
      else do {
        v \<leftarrow> vl_vlc_fillbits (rb_nal r);
        if vl_vlc_bits_left v < 24 then Some (r\<lparr>rb_nal := v\<rparr>)
        else fill_escapes dbg (vl_vlc_valid_bits v) (valid - rb_escaped r + 24) (r\<lparr>rb_nal := v, rb_escaped := 16\<rparr>) })"

definition vl_rbsp_u :: "bool \<Rightarrow> rbsp \<Rightarrow> u32 \<Rightarrow> (u32 \<times> rbsp) option" where
  "vl_rbsp_u dbg r n =
     (if n = 0 then Some (0, r)
      else do {
        r \<leftarrow> vl_rbsp_fillbits dbg r;
        r \<leftarrow> (if 16 < n then vl_rbsp_fillbits dbg r else Some r);
        (x, v) \<leftarrow> vl_vlc_get_uimsbf dbg (rb_nal r) n;
        Some (x, r\<lparr>rb_nal := v\<rparr>) })"

text \<open>The leading zeros of an Exp-Golomb code; the buffer is not filled here.\<close>

partial_function (option) rbsp_zeros :: "bool \<Rightarrow> u32 \<Rightarrow> vlc \<Rightarrow> (u32 \<times> vlc) option" where
  "rbsp_zeros dbg bits v = do {
     (x, v) \<leftarrow> vl_vlc_get_uimsbf dbg v 1;
     if x \<noteq> 0 then Some (bits, v) else rbsp_zeros dbg (bits + 1) v }"

definition vl_rbsp_ue :: "bool \<Rightarrow> rbsp \<Rightarrow> (u32 \<times> rbsp) option" where
  "vl_rbsp_ue dbg r = do {
     r \<leftarrow> vl_rbsp_fillbits dbg r;
     (bits, v) \<leftarrow> rbsp_zeros dbg 0 (rb_nal r);
     (x, r) \<leftarrow> vl_rbsp_u dbg (r\<lparr>rb_nal := v\<rparr>) bits;
     if bits < 32 then Some (push_bit (unat bits) 1 - 1 + x, r) else None }"

subsection \<open>Headers of H.264 and H.265\<close>

text \<open>The two parameters the structure keeps share their storage in a union of 32-bit numbers.\<close>

record bitstream =
  bs_codec :: chiaki_codec
  bs_log2_minus4 :: u32

datatype bitstream_slice_type =
  CHIAKI_BITSTREAM_SLICE_UNKNOWN | CHIAKI_BITSTREAM_SLICE_I | CHIAKI_BITSTREAM_SLICE_P

record bitstream_slice =
  sl_type :: bitstream_slice_type
  sl_reference_frame :: u32

text \<open>At most \<open>n\<close> rounds are left, \<open>64 - i\<close> in the code.\<close>

fun skip_startcode_loop :: "bool \<Rightarrow> nat \<Rightarrow> vlc \<Rightarrow> vlc option" where
  "skip_startcode_loop dbg 0 v = Some v"
| "skip_startcode_loop dbg (Suc n) v =
     (if vl_vlc_bits_left v < 32 then Some v
      else do {
        x \<leftarrow> vl_vlc_peekbits dbg v 32;
        if x = 1 then Some v
        else do { v \<leftarrow> vl_vlc_eatbits dbg v 8; v \<leftarrow> vl_vlc_fillbits v; skip_startcode_loop dbg n v } })"

definition skip_startcode :: "bool \<Rightarrow> vlc \<Rightarrow> (bool \<times> vlc) option" where
  "skip_startcode dbg v = do {
     v \<leftarrow> vl_vlc_fillbits v;
     v \<leftarrow> skip_startcode_loop dbg 64 v;
     x \<leftarrow> vl_vlc_peekbits dbg v 32;
     if x \<noteq> 1 then Some (False, v)
     else do { v \<leftarrow> vl_vlc_eatbits dbg v 32; v \<leftarrow> vl_vlc_fillbits v; Some (True, v) } }"

text \<open>Reading fields whose values the code ignores: \<open>Inl n\<close> is \<open>vl_rbsp_u\<close> of \<open>n\<close> bits, \<open>Inr ()\<close> is
  \<open>vl_rbsp_ue\<close>.\<close>

fun rbsp_skip :: "bool \<Rightarrow> (u32 + unit) list \<Rightarrow> rbsp \<Rightarrow> rbsp option" where
  "rbsp_skip dbg [] r = Some r"
| "rbsp_skip dbg (Inl n # fs) r = do { (x, r) \<leftarrow> vl_rbsp_u dbg r n; rbsp_skip dbg fs r }"
| "rbsp_skip dbg (Inr _ # fs) r = do { (x, r) \<leftarrow> vl_rbsp_ue dbg r; rbsp_skip dbg fs r }"

definition h264_nal :: "bool \<Rightarrow> vlc \<Rightarrow> (u32 \<times> vlc) option" where
  "h264_nal dbg v = do {
     v \<leftarrow> vl_vlc_eatbits dbg v 1;
     v \<leftarrow> vl_vlc_eatbits dbg v 2;
     vl_vlc_get_uimsbf dbg v 5 }"

definition h265_nal :: "bool \<Rightarrow> vlc \<Rightarrow> (u32 \<times> vlc) option" where
  "h265_nal dbg v = do {
     v \<leftarrow> vl_vlc_eatbits dbg v 1;
     (t, v) \<leftarrow> vl_vlc_get_uimsbf dbg v 6;
     v \<leftarrow> vl_vlc_eatbits dbg v 6;
     v \<leftarrow> vl_vlc_eatbits dbg v 3;
     Some (t, v) }"

definition h264_chroma_profile :: "u32 \<Rightarrow> bool" where
  "h264_chroma_profile p \<longleftrightarrow> p \<in> {100, 110, 122, 244, 44, 83, 86, 118, 128, 138, 139, 134, 135}"

text \<open>The results: the flag the code returns, with the bitstream or slice it leaves.\<close>

definition header_h264 :: "bool \<Rightarrow> nat \<Rightarrow> bitstream \<Rightarrow> bytes \<Rightarrow> (bool \<times> bitstream) option" where
  "header_h264 dbg align bs data = do {
     v \<leftarrow> vl_vlc_init align data (length data);
     (found, v) \<leftarrow> skip_startcode dbg v;
     if \<not> found then Some (False, bs)
     else do {
       (nal_unit_type, v) \<leftarrow> h264_nal dbg v;
       if nal_unit_type \<noteq> 7 then Some (False, bs)
       else do {
         r \<leftarrow> vl_rbsp_init dbg v (- 1);
         (profile_idc, r) \<leftarrow> vl_rbsp_u dbg r 8;
         r \<leftarrow> rbsp_skip dbg [Inl 6, Inl 2, Inl 8, Inr ()] r;
         (scaling, r) \<leftarrow> (if h264_chroma_profile profile_idc
           then do {
             (chroma, r) \<leftarrow> vl_rbsp_ue dbg r;
             r \<leftarrow> (if chroma = 3 then rbsp_skip dbg [Inl 1] r else Some r);
             r \<leftarrow> rbsp_skip dbg [Inr (), Inr (), Inl 1] r;
             (x, r) \<leftarrow> vl_rbsp_u dbg r 1;
             Some (x \<noteq> 0, r) }
           else Some (False, r));
         if scaling then Some (False, bs)
         else do {
           (x, r) \<leftarrow> vl_rbsp_ue dbg r;
           Some (x \<le> 12, bs\<lparr>bs_log2_minus4 := x\<rparr>) } } } }"

text \<open>Video parameter sets are skipped, however many there are.\<close>

partial_function (option) h265_sps_start :: "bool \<Rightarrow> vlc \<Rightarrow> vlc option option" where
  "h265_sps_start dbg v = do {
     (found, v) \<leftarrow> skip_startcode dbg v;
     if \<not> found then Some None
     else do {
       (t, v) \<leftarrow> h265_nal dbg v;
       if t = 32 then h265_sps_start dbg v
       else if t \<noteq> 33 then Some None
       else Some (Some v) } }"

definition header_h265 :: "bool \<Rightarrow> nat \<Rightarrow> bitstream \<Rightarrow> bytes \<Rightarrow> (bool \<times> bitstream) option" where
  "header_h265 dbg align bs data = do {
     v \<leftarrow> vl_vlc_init align data (length data);
     s \<leftarrow> h265_sps_start dbg v;
     (case s of None \<Rightarrow> Some (False, bs)
      | Some v \<Rightarrow> do {
         r \<leftarrow> vl_rbsp_init dbg v (- 1);
         r \<leftarrow> rbsp_skip dbg [Inl 4, Inl 3, Inl 1, Inl 2, Inl 1, Inl 5, Inl 32, Inl 1, Inl 1, Inl 1, Inl 1,
                Inl 32, Inl 11, Inl 1, Inl 8, Inr ()] r;
         (chroma, r) \<leftarrow> vl_rbsp_ue dbg r;
         r \<leftarrow> (if chroma = 3 then rbsp_skip dbg [Inl 1] r else Some r);
         r \<leftarrow> rbsp_skip dbg [Inr (), Inr ()] r;
         (window, r) \<leftarrow> vl_rbsp_u dbg r 1;
         r \<leftarrow> (if window \<noteq> 0 then rbsp_skip dbg [Inr (), Inr (), Inr (), Inr ()] r else Some r);
         r \<leftarrow> rbsp_skip dbg [Inr (), Inr ()] r;
         (x, r) \<leftarrow> vl_rbsp_ue dbg r;
         Some (x \<le> 12, bs\<lparr>bs_log2_minus4 := x\<rparr>) }) }"

definition h264_slice_type :: "u32 \<Rightarrow> bitstream_slice_type" where
  "h264_slice_type x =
     (if x = 0 \<or> x = 5 then CHIAKI_BITSTREAM_SLICE_P
      else if x = 2 \<or> x = 7 then CHIAKI_BITSTREAM_SLICE_I else CHIAKI_BITSTREAM_SLICE_UNKNOWN)"

definition h265_slice_type :: "u32 \<Rightarrow> bitstream_slice_type" where
  "h265_slice_type x =
     (if x = 1 then CHIAKI_BITSTREAM_SLICE_P
      else if x = 2 then CHIAKI_BITSTREAM_SLICE_I else CHIAKI_BITSTREAM_SLICE_UNKNOWN)"

text \<open>The modification of the reference list, \<open>n\<close> rounds left.\<close>

fun h264_ref_list :: "bool \<Rightarrow> nat \<Rightarrow> u32 \<Rightarrow> rbsp \<Rightarrow> bitstream_slice \<Rightarrow> (bool \<times> bitstream_slice) option" where
  "h264_ref_list dbg 0 idc r s = Some (False, s)"
| "h264_ref_list dbg (Suc n) idc r s =
     (if idc = 3 then Some (True, s)
      else if 3 < idc then Some (False, s)
      else do {
        (x, r) \<leftarrow> vl_rbsp_ue dbg r;
        let s = (if idc = 0 then s\<lparr>sl_reference_frame := x\<rparr> else s);
        (idc, r) \<leftarrow> vl_rbsp_ue dbg r;
        h264_ref_list dbg n idc r s })"

definition slice_h264 :: "bool \<Rightarrow> nat \<Rightarrow> bitstream \<Rightarrow> bytes \<Rightarrow> bitstream_slice \<Rightarrow> (bool \<times> bitstream_slice) option" where
  "slice_h264 dbg align bs data s = do {
     v \<leftarrow> vl_vlc_init align data (length data);
     (found, v) \<leftarrow> skip_startcode dbg v;
     if \<not> found then Some (False, s)
     else do {
       (nal_unit_type, v) \<leftarrow> h264_nal dbg v;
       if nal_unit_type \<noteq> 1 \<and> nal_unit_type \<noteq> 5 then Some (False, s)
       else do {
         r \<leftarrow> vl_rbsp_init dbg v (- 1);
         (_, r) \<leftarrow> vl_rbsp_ue dbg r;
         (t, r) \<leftarrow> vl_rbsp_ue dbg r;
         let s = s\<lparr>sl_type := h264_slice_type t\<rparr>;
         if nal_unit_type \<noteq> 1 then Some (True, s)
         else do {
           let s = s\<lparr>sl_reference_frame := 0\<rparr>;
           r \<leftarrow> rbsp_skip dbg [Inr (), Inl (bs_log2_minus4 bs + 4)] r;
           (x, r) \<leftarrow> vl_rbsp_u dbg r 1;
           r \<leftarrow> (if x \<noteq> 0 then do {
                   (y, r) \<leftarrow> vl_rbsp_u dbg r 1;
                   if y \<noteq> 0 then rbsp_skip dbg [Inr ()] r else Some r }
                 else Some r);
           (x, r) \<leftarrow> vl_rbsp_u dbg r 1;
           if x = 0 then Some (True, s)
           else do { (idc, r) \<leftarrow> vl_rbsp_ue dbg r; h264_ref_list dbg 3 idc r s } } } } }"

text \<open>The pictures before the current one: the first that is used is the reference.\<close>

fun h265_negative_pics :: "bool \<Rightarrow> nat \<Rightarrow> nat \<Rightarrow> rbsp \<Rightarrow> u32 \<Rightarrow> u32 option" where
  "h265_negative_pics dbg i 0 r ref = Some ref"
| "h265_negative_pics dbg i (Suc n) r ref = do {
     (_, r) \<leftarrow> vl_rbsp_ue dbg r;
     (used, r) \<leftarrow> vl_rbsp_u dbg r 1;
     if used \<noteq> 0 then Some (of_nat i) else h265_negative_pics dbg (Suc i) n r ref }"

definition slice_h265 :: "bool \<Rightarrow> nat \<Rightarrow> bitstream \<Rightarrow> bytes \<Rightarrow> bitstream_slice \<Rightarrow> (bool \<times> bitstream_slice) option" where
  "slice_h265 dbg align bs data s = do {
     v \<leftarrow> vl_vlc_init align data (length data);
     (found, v) \<leftarrow> skip_startcode dbg v;
     if \<not> found then Some (False, s)
     else do {
       (nal_unit_type, v) \<leftarrow> h265_nal dbg v;
       if nal_unit_type \<noteq> 1 \<and> nal_unit_type \<noteq> 20 then Some (False, s)
       else do {
         r \<leftarrow> vl_rbsp_init dbg v (- 1);
         (first, r) \<leftarrow> vl_rbsp_u dbg r 1;
         r \<leftarrow> (if nal_unit_type = 20 then rbsp_skip dbg [Inl 1] r else Some r);
         r \<leftarrow> rbsp_skip dbg (if first = 0 then [Inr (), Inr ()] else [Inr ()]) r;
         (t, r) \<leftarrow> vl_rbsp_ue dbg r;
         let s = s\<lparr>sl_type := h265_slice_type t\<rparr>;
         if nal_unit_type \<noteq> 1 then Some (True, s)
         else do {
           let s = s\<lparr>sl_reference_frame := 0xff\<rparr>;
           r \<leftarrow> rbsp_skip dbg [Inl (bs_log2_minus4 bs + 4)] r;
           (sps, r) \<leftarrow> vl_rbsp_u dbg r 1;
           if sps \<noteq> 0 then Some (True, s)
           else do {
             (num_negative_pics, r) \<leftarrow> vl_rbsp_ue dbg r;
             if 16 < num_negative_pics then Some (False, s)
             else do {
               (_, r) \<leftarrow> vl_rbsp_ue dbg r;
               ref \<leftarrow> h265_negative_pics dbg 0 (unat num_negative_pics) r (sl_reference_frame s);
               Some (True, s\<lparr>sl_reference_frame := ref\<rparr>) } } } } } }"

text \<open>The flag is written into the input, in the eight bytes before the reader's position.\<close>

definition set_used_bit :: "vlc \<Rightarrow> bool \<Rightarrow> vlc option" where
  "set_used_bit v b =
     (if vl_data v < 8 then None
      else do {
        h \<leftarrow> rd32be (vl_mem v) (vl_data v - 8);
        lo \<leftarrow> rd32be (vl_mem v) (vl_data v - 4);
        mask \<leftarrow> shl64 1 (64 - 1 - (64 - (32 - vl_invalid v)));
        let buffer = ucast lo OR push_bit 32 (ucast h);
        let buffer = (if b then buffer OR mask else buffer AND NOT mask);
        mem \<leftarrow> wr_slice (vl_mem v) (vl_data v - 8) (be32 (ucast (drop_bit 32 buffer)));
        mem \<leftarrow> wr_slice mem (vl_data v - 4) (be32 (ucast (buffer AND 0xffffffff)));
        Some (v\<lparr>vl_mem := mem\<rparr>) })"

fun h265_set_used :: "bool \<Rightarrow> nat \<Rightarrow> nat \<Rightarrow> u32 \<Rightarrow> rbsp \<Rightarrow> (bool \<times> bytes) option" where
  "h265_set_used dbg i 0 reference_frame r = Some (False, vl_mem (rb_nal r))"
| "h265_set_used dbg i (Suc n) reference_frame r = do {
     (_, r) \<leftarrow> vl_rbsp_ue dbg r;
     v \<leftarrow> set_used_bit (rb_nal r) (of_nat i = reference_frame);
     if of_nat i = reference_frame then Some (True, vl_mem v)
     else do {
       (_, r) \<leftarrow> vl_rbsp_u dbg (r\<lparr>rb_nal := v\<rparr>) 1;
       h265_set_used dbg (Suc i) n reference_frame r } }"

text \<open>The result is the flag and the input as it is left.\<close>

definition slice_set_reference_frame_h265 :: "bool \<Rightarrow> nat \<Rightarrow> bitstream \<Rightarrow> bytes \<Rightarrow> u32 \<Rightarrow> (bool \<times> bytes) option" where
  "slice_set_reference_frame_h265 dbg align bs data reference_frame = do {
     v \<leftarrow> vl_vlc_init align data (length data);
     (found, v) \<leftarrow> skip_startcode dbg v;
     if \<not> found then Some (False, data)
     else do {
       (nal_unit_type, v) \<leftarrow> h265_nal dbg v;
       if nal_unit_type \<noteq> 1 then Some (False, data)
       else do {
         r \<leftarrow> vl_rbsp_init dbg v (- 1);
         (first, r) \<leftarrow> vl_rbsp_u dbg r 1;
         r \<leftarrow> rbsp_skip dbg (if first = 0 then [Inr (), Inr ()] else [Inr ()]) r;
         (t, r) \<leftarrow> vl_rbsp_ue dbg r;
         if t \<noteq> 1 then Some (False, data)
         else do {
           r \<leftarrow> rbsp_skip dbg [Inl (bs_log2_minus4 bs + 4)] r;
           (sps, r) \<leftarrow> vl_rbsp_u dbg r 1;
           if sps \<noteq> 0 then Some (False, data)
           else do {
             (num_negative_pics, r) \<leftarrow> vl_rbsp_ue dbg r;
             if 16 < num_negative_pics then Some (False, data)
             else do {
               (_, r) \<leftarrow> vl_rbsp_ue dbg r;
               h265_set_used dbg 0 (unat num_negative_pics) reference_frame r } } } } } }"

definition chiaki_bitstream_init :: "u32 \<Rightarrow> chiaki_codec \<Rightarrow> bitstream" where
  "chiaki_bitstream_init old codec = \<lparr>bs_codec = codec, bs_log2_minus4 = old\<rparr>"

definition chiaki_bitstream_header :: "bool \<Rightarrow> nat \<Rightarrow> bitstream \<Rightarrow> bytes \<Rightarrow> (bool \<times> bitstream) option" where
  "chiaki_bitstream_header dbg align bs data =
     (let bs' = bs\<lparr>bs_log2_minus4 := 0\<rparr> in
      if bs_codec bs = CHIAKI_CODEC_H264 then header_h264 dbg align bs' data else header_h265 dbg align bs' data)"

definition chiaki_bitstream_slice ::
    "bool \<Rightarrow> nat \<Rightarrow> bitstream \<Rightarrow> bytes \<Rightarrow> bitstream_slice \<Rightarrow> (bool \<times> bitstream_slice) option" where
  "chiaki_bitstream_slice dbg align bs data s =
     (if bs_codec bs = CHIAKI_CODEC_H264 then slice_h264 dbg align bs data s else slice_h265 dbg align bs data s)"

definition chiaki_bitstream_slice_set_reference_frame ::
    "bool \<Rightarrow> nat \<Rightarrow> bitstream \<Rightarrow> bytes \<Rightarrow> u32 \<Rightarrow> (bool \<times> bytes) option" where
  "chiaki_bitstream_slice_set_reference_frame dbg align bs data reference_frame =
     (if bs_codec bs = CHIAKI_CODEC_H264 then Some (False, data)
      else slice_set_reference_frame_h265 dbg align bs data reference_frame)"

end
