(* ===== verification/BitstreamProps.thy ===== *)
theory BitstreamProps
  imports Bitstream
begin

text \<open>
  The bit reader as a list of bits: what is in the look-ahead word, then the bytes not yet loaded.
  Filling keeps the list, reading takes from its front.  The fields of a unit are read so as long as no
  emulation prevention byte (0, 0, 3) has come into the look-ahead and the search for it has two bytes to
  look back on, which fields of up to 16 bits and Exp-Golomb codes of up to 15 leading zeros keep.
\<close>

subsection \<open>Bits\<close>

definition word_bits :: "nat \<Rightarrow> 'a::len word \<Rightarrow> bool list" where
  "word_bits n w = map (\<lambda>i. bit w (n - 1 - i)) [0..<n]"

definition bits_of :: "bytes \<Rightarrow> bool list" where
  "bits_of bs = concat (map (word_bits 8) bs)"

text \<open>The number the first of the bits is the most significant of.\<close>

definition bits_num :: "bool list \<Rightarrow> nat" where
  "bits_num bs = horner_sum of_bool 2 (rev bs)"

definition buf_bits :: "vlc \<Rightarrow> bool list" where
  "buf_bits v = map (\<lambda>i. bit (vl_buffer v) (63 - i)) [0..<nat (32 - vl_invalid v)]"

definition vl_bits :: "vlc \<Rightarrow> bool list" where
  "vl_bits v = buf_bits v @ bits_of (take (vl_end v - vl_data v) (drop (vl_data v) (vl_mem v)))"

definition vl_ok :: "vlc \<Rightarrow> bool" where
  "vl_ok v \<longleftrightarrow> - 32 < vl_invalid v \<and> vl_invalid v \<le> 32 \<and> vl_data v \<le> vl_end v \<and> vl_end v \<le> length (vl_mem v)
     \<and> (\<forall>i < nat (32 + vl_invalid v). \<not> bit (vl_buffer v) i)"

definition vl_same :: "vlc \<Rightarrow> vlc \<Rightarrow> bool" where
  "vl_same v v' \<longleftrightarrow> vl_end v' = vl_end v \<and> vl_mem v' = vl_mem v \<and> vl_align v' = vl_align v
     \<and> vl_bytes_left v' = vl_bytes_left v"

lemma vl_same_refl [simp]: "vl_same v v"
  by (simp add: vl_same_def)

lemma vl_same_trans: "vl_same a b \<Longrightarrow> vl_same b c \<Longrightarrow> vl_same a c"
  by (simp add: vl_same_def)

lemma length_word_bits [simp]: "length (word_bits n w) = n"
  by (simp add: word_bits_def)

lemma nth_word_bits [simp]: "i < n \<Longrightarrow> word_bits n w ! i = bit w (n - 1 - i)"
  by (simp add: word_bits_def)

lemma bits_of_simps [simp]: "bits_of [] = []" "bits_of (b # bs) = word_bits 8 b @ bits_of bs"
  by (simp_all add: bits_of_def)

lemma bits_of_append [simp]: "bits_of (as @ bs) = bits_of as @ bits_of bs"
  by (simp add: bits_of_def)

lemma length_bits_of [simp]: "length (bits_of bs) = 8 * length bs"
  by (induction bs) simp_all

lemma length_buf_bits [simp]: "length (buf_bits v) = nat (32 - vl_invalid v)"
  by (simp add: buf_bits_def)

lemma nth_buf_bits [simp]: "i < nat (32 - vl_invalid v) \<Longrightarrow> buf_bits v ! i = bit (vl_buffer v) (63 - i)"
  by (simp add: buf_bits_def)

lemma length_vl_bits: "vl_ok v \<Longrightarrow> length (vl_bits v) = nat (32 - vl_invalid v) + 8 * (vl_end v - vl_data v)"
  by (auto simp: vl_bits_def vl_ok_def min_def)

lemma bit_u8_high [simp]: "8 \<le> n \<Longrightarrow> \<not> bit (a :: u8) n"
  by (auto dest: bit_imp_le_length)

lemma word_bits_be32: "word_bits 32 (of_be32 a b c d) = bits_of [a, b, c, d]"
proof (rule nth_equalityI)
  fix i assume "i < length (word_bits 32 (of_be32 a b c d))"
  then have "i < 32" by simp
  then consider j where "i = j" "j < 8" | j where "i = 8 + j" "j < 8" | j where "i = 16 + j" "j < 8"
    | j where "i = 24 + j" "j < 8"
    using that [of i] that(2) [of "i - 8"] that(3) [of "i - 16"] that(4) [of "i - 24"] by linarith
  then show "word_bits 32 (of_be32 a b c d) ! i = bits_of [a, b, c, d] ! i"
  proof cases
    case (1 j)
    then have "31 - j - 24 = 7 - j" "\<not> 31 - j < 24" "31 - j < 32" "7 - j < 32" by auto
    then show ?thesis using 1 by (simp add: of_be32_def bit_simps nth_append)
  next
    case (2 j)
    then have "\<not> 24 \<le> 23 - j" "16 \<le> 23 - j" "23 - j < 32" "7 - j < 32" by auto
    then show ?thesis using 2 by (simp add: of_be32_def bit_simps nth_append)
  next
    case (3 j)
    then have "\<not> 16 \<le> 15 - j" "8 \<le> 15 - j" "15 - j < 32" "7 - j < 32" by auto
    then show ?thesis using 3 by (simp add: of_be32_def bit_simps nth_append)
  next
    case (4 j)
    then have "\<not> 8 \<le> 7 - j" "7 - j < 32" "7 - j < 32" by auto
    then show ?thesis using 4 by (simp add: of_be32_def bit_simps nth_append)
  qed
qed simp

text \<open>Loading \<open>k\<close> bits behind the valid ones.\<close>

lemma load_bits:
  fixes x :: "'a::len word"
  assumes ok: "vl_ok v" and k: "int k \<le> 32 + vl_invalid v" "k \<le> LENGTH('a)" "0 < k"
    and x: "\<And>i. k \<le> i \<Longrightarrow> \<not> bit x i" and sh: "sh = 32 + vl_invalid v - int k"
  shows "shl64 (ucast x) sh = Some (push_bit (nat sh) (ucast x))"
    "buf_bits (v\<lparr>vl_buffer := vl_buffer v OR push_bit (nat sh) (ucast x), vl_invalid := vl_invalid v - int k\<rparr>)
      = buf_bits v @ word_bits k x"
    "\<forall>i < nat (32 + (vl_invalid v - int k)). \<not> bit (vl_buffer v OR push_bit (nat sh) (ucast x)) i"
proof -
  have inv: "- 32 < vl_invalid v" "vl_invalid v \<le> 32" and low: "\<And>i. i < nat (32 + vl_invalid v) \<Longrightarrow> \<not> bit (vl_buffer v) i"
    using ok by (simp_all add: vl_ok_def)
  show "shl64 (ucast x) sh = Some (push_bit (nat sh) (ucast x))"
    using inv k sh by (simp add: shl64_def)
  show "\<forall>i < nat (32 + (vl_invalid v - int k)). \<not> bit (vl_buffer v OR push_bit (nat sh) (ucast x)) i"
    using low sh k by (auto simp: bit_simps)
  show "buf_bits (v\<lparr>vl_buffer := vl_buffer v OR push_bit (nat sh) (ucast x), vl_invalid := vl_invalid v - int k\<rparr>)
      = buf_bits v @ word_bits k x" (is "buf_bits ?v = _")
  proof (rule nth_equalityI)
    show "length (buf_bits ?v) = length (buf_bits v @ word_bits k x)" using inv k by simp
    fix i assume i: "i < length (buf_bits ?v)"
    let ?n = "nat (32 - vl_invalid v)"
    have n: "?n \<le> 63" "?n + nat (32 + vl_invalid v) = 64" using inv by auto
    have i': "i < ?n + k" using i inv k by simp
    have shn: "nat sh + k = nat (32 + vl_invalid v)" using sh k inv by auto
    show "buf_bits ?v ! i = (buf_bits v @ word_bits k x) ! i"
    proof (cases "i < ?n")
      case True
      then have "63 - i - nat sh \<ge> k" using n shn by linarith
      then show ?thesis using True i i' n x by (simp add: nth_append bit_simps)
    next
      case False
      then have a: "\<not> bit (vl_buffer v) (63 - i)" using low n by simp
      have b: "63 - i - nat sh = k - 1 - (i - ?n)" "nat sh \<le> 63 - i" using False i' n shn by linarith+
      have "i - ?n < k" "63 - i < 64" "k - 1 - (i - ?n) < 64" using False i' n k(1) by linarith+
      then show ?thesis using False i a b by (simp add: nth_append bit_simps del: diff_diff_left diff_diff_eq)
    qed
  qed
qed

lemma load_byte_ok:
  assumes ok: "vl_ok v" and more: "vl_data v < vl_end v" and room: "- 24 < vl_invalid v"
  shows "\<exists>v'. vl_load_byte v = Some v' \<and> vl_ok v' \<and> vl_bits v' = vl_bits v \<and> vl_same v v'
    \<and> vl_invalid v' = vl_invalid v - 8 \<and> vl_data v' = vl_data v + 1"
proof -
  let ?b = "vl_mem v ! vl_data v" and ?sh = "24 + vl_invalid v"
  let ?v = "v\<lparr>vl_buffer := vl_buffer v OR push_bit (nat ?sh) (ucast ?b), vl_invalid := vl_invalid v - 8\<rparr>"
  have len: "vl_data v < length (vl_mem v)" "vl_end v \<le> length (vl_mem v)" using ok more by (simp_all add: vl_ok_def)
  have pre: "int 8 \<le> 32 + vl_invalid v" "8 \<le> LENGTH(8)" "0 < (8::nat)" "\<And>i. 8 \<le> i \<Longrightarrow> \<not> bit ?b i"
    "?sh = 32 + vl_invalid v - int 8"
    using room by simp_all
  note l = load_bits [OF ok pre, unfolded of_nat_numeral]
  have rest: "take (vl_end v - vl_data v) (drop (vl_data v) (vl_mem v))
      = ?b # take (vl_end v - (vl_data v + 1)) (drop (vl_data v + 1) (vl_mem v))"
  proof -
    have "drop (vl_data v) (vl_mem v) = ?b # drop (vl_data v + 1) (vl_mem v)"
      using len by (simp add: Cons_nth_drop_Suc)
    moreover have "vl_end v - vl_data v = Suc (vl_end v - (vl_data v + 1))" using more by simp
    ultimately show ?thesis by (simp only: take_Suc_Cons)
  qed
  have "buf_bits (?v\<lparr>vl_data := vl_data v + 1\<rparr>) = buf_bits ?v" by (simp add: buf_bits_def)
  then have bits: "vl_bits (?v\<lparr>vl_data := vl_data v + 1\<rparr>) = vl_bits v"
    using l(2) by (simp add: vl_bits_def rest)
  have ok': "vl_ok (?v\<lparr>vl_data := vl_data v + 1\<rparr>)"
    using ok more room l(3) by (simp add: vl_ok_def)
  show ?thesis
    using bits ok' l(1) len
    by (intro exI [of _ "?v\<lparr>vl_data := vl_data v + 1\<rparr>"]) (simp add: vl_load_byte_def vl_same_def)
qed

subsection \<open>Filling\<close>

text \<open>\<open>v'\<close> is \<open>v\<close> after loading.\<close>

definition loaded :: "vlc \<Rightarrow> vlc \<Rightarrow> bool" where
  "loaded v v' \<longleftrightarrow> vl_ok v' \<and> vl_bits v' = vl_bits v \<and> vl_same v v' \<and> vl_data v \<le> vl_data v' \<and> vl_invalid v' \<le> vl_invalid v"

lemma loaded_refl: "vl_ok v \<Longrightarrow> loaded v v"
  by (simp add: loaded_def)

lemma loaded_trans: "loaded a b \<Longrightarrow> loaded b c \<Longrightarrow> loaded a c"
  by (auto simp: loaded_def intro: vl_same_trans)

lemma load_byte_loaded:
  assumes "vl_ok v" "vl_data v < vl_end v" "- 24 < vl_invalid v"
  shows "\<exists>v'. vl_load_byte v = Some v' \<and> loaded v v' \<and> vl_invalid v' = vl_invalid v - 8 \<and> vl_data v' = vl_data v + 1"
  using load_byte_ok [OF assms] by (auto simp: loaded_def)

lemma load_rest_ok:
  "vl_ok v \<Longrightarrow> 8 * int (vl_end v - vl_data v) < vl_invalid v + 32 \<Longrightarrow>
     \<exists>v'. vl_load_rest v = Some v' \<and> loaded v v' \<and> vl_data v' = vl_end v'"
proof (induction "vl_end v - vl_data v" arbitrary: v)
  case 0
  then show ?case by (subst vl_load_rest.simps) (auto simp: loaded_refl vl_ok_def)
next
  case (Suc k)
  then have more: "vl_data v < vl_end v" "- 24 < vl_invalid v" by (auto simp: vl_ok_def)
  obtain w where w: "vl_load_byte v = Some w" "loaded v w" "vl_invalid w = vl_invalid v - 8" "vl_data w = vl_data v + 1"
    using load_byte_loaded [OF Suc.prems(1) more] by blast
  have e: "vl_end w = vl_end v" "vl_ok w" using w(2) by (simp_all add: loaded_def vl_same_def)
  have "k = vl_end w - vl_data w" "8 * int (vl_end w - vl_data w) < vl_invalid w + 32"
    using Suc.hyps(2) Suc.prems(2) e w(3,4) by auto
  from Suc.hyps(1) [OF this(1) e(2) this(2)] obtain v' where
    "vl_load_rest w = Some v'" "loaded w v'" "vl_data v' = vl_end v'" by blast
  then show ?case using w loaded_trans more by (subst vl_load_rest.simps) auto
qed

lemma align4:
  fixes x :: nat
  shows "0 = (4 - x mod 4) mod 4 \<Longrightarrow> x mod 4 = 0"
    "Suc k = (4 - x mod 4) mod 4 \<Longrightarrow> x mod 4 \<noteq> 0 \<and> k = (4 - (x + 1) mod 4) mod 4"
proof -
  have "x mod 4 < 4" by simp
  then consider "x mod 4 = 0" | "x mod 4 = 1" | "x mod 4 = 2" | "x mod 4 = 3" by linarith
  note cases = this
  show "0 = (4 - x mod 4) mod 4 \<Longrightarrow> x mod 4 = 0" by (cases rule: cases) simp_all
  show "Suc k = (4 - x mod 4) mod 4 \<Longrightarrow> x mod 4 \<noteq> 0 \<and> k = (4 - (x + 1) mod 4) mod 4"
    by (cases rule: cases) (simp_all add: mod_Suc)
qed

lemma align_ok:
  "vl_ok v \<Longrightarrow> 8 * int ((4 - (vl_align v + vl_data v) mod 4) mod 4) < vl_invalid v + 32 \<Longrightarrow>
     \<exists>v'. vl_vlc_align_data_ptr v = Some v' \<and> loaded v v'
       \<and> vl_invalid v' + 8 * int ((4 - (vl_align v + vl_data v) mod 4) mod 4) \<ge> vl_invalid v"
proof (induction "(4 - (vl_align v + vl_data v) mod 4) mod 4" arbitrary: v)
  case 0
  have "(vl_align v + vl_data v) mod 4 = 0" by (rule align4(1) [OF 0(1)])
  then have "vl_vlc_align_data_ptr v = Some v" by (subst vl_vlc_align_data_ptr.simps) simp
  then show ?case using loaded_refl [OF 0(2)] by (intro exI [of _ v]) simp
next
  case (Suc k)
  show ?case
  proof (cases "vl_data v = vl_end v")
    case True
    then have "vl_vlc_align_data_ptr v = Some v" by (subst vl_vlc_align_data_ptr.simps) simp
    then show ?thesis using loaded_refl [OF Suc.prems(1)] by (intro exI [of _ v]) simp
  next
    case False
    then have more: "vl_data v < vl_end v" "- 24 < vl_invalid v"
      using Suc.prems Suc.hyps(2) by (auto simp: vl_ok_def)
    obtain w where w: "vl_load_byte v = Some w" "loaded v w" "vl_invalid w = vl_invalid v - 8" "vl_data w = vl_data v + 1"
      using load_byte_loaded [OF Suc.prems(1) more] by blast
    have e: "vl_end w = vl_end v" "vl_align w = vl_align v" "vl_ok w" using w(2) by (simp_all add: loaded_def vl_same_def)
    note m4 = align4(2) [OF Suc.hyps(2)]
    have m: "(vl_align v + vl_data v) mod 4 \<noteq> 0" using m4 ..
    have k: "k = (4 - (vl_align w + vl_data w) mod 4) mod 4" using m4 unfolding e w(4) by (simp only: add.assoc)
    then have "8 * int ((4 - (vl_align w + vl_data w) mod 4) mod 4) < vl_invalid w + 32"
      using Suc.hyps(2) Suc.prems(2) w(3) by auto
    from Suc.hyps(1) [OF k e(3) this] obtain v' where v': "vl_vlc_align_data_ptr w = Some v'" "loaded w v'"
      "vl_invalid v' + 8 * int ((4 - (vl_align w + vl_data w) mod 4) mod 4) \<ge> vl_invalid w" by blast
    have "vl_vlc_align_data_ptr v = Some v'"
      using w(1) v'(1) m False by (subst vl_vlc_align_data_ptr.simps) simp
    moreover have "vl_invalid v' + 8 * int ((4 - (vl_align v + vl_data v) mod 4) mod 4) \<ge> vl_invalid v"
      using v'(3) w(3) k Suc.hyps(2) by linarith
    ultimately show ?thesis using loaded_trans [OF w(2) v'(2)] by blast
  qed
qed

lemma fillbits_ok:
  assumes ok: "vl_ok v"
  shows "\<exists>v'. vl_vlc_fillbits v = Some v' \<and> loaded v v' \<and> (vl_invalid v' \<le> 0 \<or> vl_data v' = vl_end v')"
proof -
  consider "vl_invalid v \<le> 0" | "0 < vl_invalid v" "vl_end v = vl_data v"
    | "0 < vl_invalid v" "4 \<le> vl_end v - vl_data v" | "0 < vl_invalid v" "vl_end v \<noteq> vl_data v" "vl_end v - vl_data v < 4"
    by linarith
  then show ?thesis
  proof cases
    case 3
    let ?w = "of_be32 (vl_mem v ! vl_data v) (vl_mem v ! (vl_data v + 1)) (vl_mem v ! (vl_data v + 2)) (vl_mem v ! (vl_data v + 3))"
    have len: "vl_data v + 3 < length (vl_mem v)" "vl_end v \<le> length (vl_mem v)" using ok 3 by (auto simp: vl_ok_def)
    have pre: "int 32 \<le> 32 + vl_invalid v" "32 \<le> LENGTH(32)" "0 < (32::nat)" "\<And>i. 32 \<le> i \<Longrightarrow> \<not> bit ?w i"
      "vl_invalid v = 32 + vl_invalid v - int 32"
      using 3 by (auto dest: bit_imp_le_length)
    note l = load_bits [OF ok pre, unfolded of_nat_numeral]
    let ?v = "v\<lparr>vl_buffer := vl_buffer v OR push_bit (nat (vl_invalid v)) (ucast ?w), vl_invalid := vl_invalid v - 32\<rparr>"
    let ?v' = "?v\<lparr>vl_data := vl_data v + 4\<rparr>"
    have e: "vl_end v - vl_data v = Suc (Suc (Suc (Suc (vl_end v - (vl_data v + 4)))))" using 3 by simp
    note c = Cons_nth_drop_Suc [symmetric, of _ "vl_mem v"]
    have "drop (vl_data v) (vl_mem v) = vl_mem v ! vl_data v # vl_mem v ! (vl_data v + 1) # vl_mem v ! (vl_data v + 2)
        # vl_mem v ! (vl_data v + 3) # drop (vl_data v + 4) (vl_mem v)"
      using c [of "vl_data v"] c [of "vl_data v + 1"] c [of "vl_data v + 2"] c [of "vl_data v + 3"] len
      by (simp add: numeral_eq_Suc)
    then have rest: "take (vl_end v - vl_data v) (drop (vl_data v) (vl_mem v)) =
        vl_mem v ! vl_data v # vl_mem v ! (vl_data v + 1) # vl_mem v ! (vl_data v + 2) # vl_mem v ! (vl_data v + 3)
        # take (vl_end v - (vl_data v + 4)) (drop (vl_data v + 4) (vl_mem v))"
      by (simp only: e take_Suc_Cons)
    have "buf_bits ?v' = buf_bits ?v" by (simp add: buf_bits_def)
    then have bits: "vl_bits ?v' = vl_bits v" using l(2) by (simp add: vl_bits_def rest word_bits_be32)
    have "vl_ok ?v'" using ok 3 l(3) by (simp add: vl_ok_def)
    moreover have "vl_vlc_fillbits v = Some ?v'" using l(1) len 3 by (simp add: vl_vlc_fillbits_def rd32be_def)
    ultimately show ?thesis using bits ok by (intro exI [of _ ?v']) (simp add: loaded_def vl_same_def vl_ok_def)
  next
    case 4
    then have "8 * int (vl_end v - vl_data v) < vl_invalid v + 32" by auto
    from load_rest_ok [OF ok this] show ?thesis using 4 by (auto simp: vl_vlc_fillbits_def)
  qed (auto simp: vl_vlc_fillbits_def loaded_refl ok)
qed

lemma vl_init_ok:
  "\<exists>v. vl_vlc_init align input (length input) = Some v \<and> vl_ok v \<and> vl_bits v = bits_of input
     \<and> vl_end v = length input \<and> vl_mem v = input \<and> vl_bytes_left v = length input"
proof -
  let ?v = "\<lparr>vl_buffer = 0, vl_invalid = 32, vl_data = 0, vl_end = length input, vl_bytes_left = length input,
            vl_mem = input, vl_align = align\<rparr>"
  have v: "vl_ok ?v" "vl_bits ?v = bits_of input" by (simp_all add: vl_ok_def vl_bits_def buf_bits_def)
  have "8 * int ((4 - (vl_align ?v + vl_data ?v) mod 4) mod 4) < vl_invalid ?v + 32" by simp
  then obtain w where w: "vl_vlc_align_data_ptr ?v = Some w" "loaded ?v w" using align_ok [OF v(1)] by blast
  then have ok: "vl_ok w" by (simp add: loaded_def)
  obtain v' where "vl_vlc_fillbits w = Some v'" "loaded w v'" using fillbits_ok [OF ok] by blast
  then show ?thesis using w v(2) by (auto simp: vl_vlc_init_def loaded_def vl_same_def)
qed

subsection \<open>Reading\<close>

lemma valid_bits_nat:
  assumes "vl_ok v" shows "unat (vl_vlc_valid_bits v) = length (buf_bits v)"
proof -
  let ?n = "nat (32 - vl_invalid v)"
  have n: "?n < 2 ^ 32" "32 - vl_invalid v = int ?n" using assms by (auto simp: vl_ok_def)
  have "vl_vlc_valid_bits v = of_nat ?n" unfolding vl_vlc_valid_bits_def by (subst n(2)) (rule of_int_of_nat_eq)
  then show ?thesis using n(1) by (simp only: unat_of_nat length_buf_bits) simp
qed

lemma minus_from_64:
  assumes "unat (n :: u32) \<le> 64" shows "uint (64 - n) = 64 - int (unat n)"
proof -
  have "unat (64 - n) = 64 - unat n" using assms by (subst unat_sub) (simp_all add: word_le_nat_alt)
  then have "int (unat (64 - n)) = 64 - int (unat n)" using assms by (simp only: of_nat_diff of_nat_numeral)
  then show ?thesis by (simp only: uint_nat)
qed

lemma valid_le_bits: "length (buf_bits v) \<le> length (vl_bits v)"
  by (simp add: vl_bits_def)

lemma bits_num_word: "bits_num (word_bits n w) = take_bit n (unat w)"
proof -
  have "rev (word_bits n w) = map (bit (unat w)) [0..<n]"
    by (rule nth_equalityI) (simp_all add: rev_nth word_bits_def bit_unsigned_iff bit_imp_le_length)
  then show ?thesis by (simp add: bits_num_def horner_sum_bit_eq_take_bit)
qed

lemma take_buf_bits: "n \<le> length (buf_bits v) \<Longrightarrow> n \<le> 64 \<Longrightarrow>
    take n (vl_bits v) = word_bits n (drop_bit (64 - n) (vl_buffer v))"
  by (rule nth_equalityI) (auto simp: vl_bits_def nth_append bit_simps)

lemma eatbits_ok:
  assumes ok: "vl_ok v" and n: "unat n \<le> length (buf_bits v)"
  shows "\<exists>v'. vl_vlc_eatbits dbg v n = Some v' \<and> vl_ok v' \<and> vl_bits v' = drop (unat n) (vl_bits v) \<and> vl_same v v'
    \<and> vl_data v' = vl_data v \<and> vl_invalid v' = vl_invalid v + int (unat n)"
proof -
  let ?v = "v\<lparr>vl_buffer := push_bit (unat n) (vl_buffer v), vl_invalid := vl_invalid v + int (unat n)\<rparr>"
  have inv: "- 32 < vl_invalid v" "vl_invalid v \<le> 32" and low: "\<And>i. i < nat (32 + vl_invalid v) \<Longrightarrow> \<not> bit (vl_buffer v) i"
    using ok by (simp_all add: vl_ok_def)
  have "int (unat n) \<le> 32 - vl_invalid v" using n inv by (simp only: length_buf_bits le_nat_iff)
  then have n': "unat n < 64" "int (unat n) \<le> 32 - vl_invalid v" using inv by linarith+
  have "buf_bits ?v = drop (unat n) (buf_bits v)"
  proof (rule nth_equalityI)
    show "length (buf_bits ?v) = length (drop (unat n) (buf_bits v))" using n' by (simp del: of_nat_unat)
    fix i assume "i < length (buf_bits ?v)"
    then have i: "i + unat n < nat (32 - vl_invalid v)" using n' by (simp del: of_nat_unat)
    then have "unat n \<le> 63 - i" "63 - i - unat n = 63 - (unat n + i)" "63 - i < 64" using inv by linarith+
    then show "buf_bits ?v ! i = drop (unat n) (buf_bits v) ! i"
      using i n' by (simp add: bit_simps add.commute del: of_nat_unat)
  qed
  then have bits: "vl_bits ?v = drop (unat n) (vl_bits v)" using n by (simp add: vl_bits_def)
  have "\<forall>i < nat (32 + (vl_invalid v + int (unat n))). \<not> bit (push_bit (unat n) (vl_buffer v)) i"
    using low by (auto simp: bit_simps simp del: of_nat_unat)
  then have ok': "vl_ok ?v" using ok n' by (simp add: vl_ok_def del: of_nat_unat)
  have e: "vl_vlc_eatbits dbg v n = Some ?v"
  proof -
    have u: "uint n = int (unat n)" by simp
    show ?thesis using n n' valid_bits_nat [OF ok]
      unfolding vl_vlc_eatbits_def shl64_def u by (simp add: vl_assert_def word_le_nat_alt del: of_nat_unat)
  qed
  show ?thesis using e ok' bits by (intro exI [of _ ?v]) (simp add: vl_same_def)
qed

lemma get_ok:
  assumes ok: "vl_ok v" and n: "unat n \<le> length (buf_bits v)" "0 < unat n" "unat n \<le> 32"
  shows "\<exists>x v'. vl_vlc_get_uimsbf dbg v n = Some (x, v') \<and> unat x = bits_num (take (unat n) (vl_bits v)) \<and> vl_ok v'
    \<and> vl_bits v' = drop (unat n) (vl_bits v) \<and> vl_same v v' \<and> vl_data v' = vl_data v
    \<and> vl_invalid v' = vl_invalid v + int (unat n)"
proof -
  obtain v' where v': "vl_vlc_eatbits dbg v n = Some v'" "vl_ok v'" "vl_bits v' = drop (unat n) (vl_bits v)" "vl_same v v'"
    "vl_data v' = vl_data v" "vl_invalid v' = vl_invalid v + int (unat n)"
    using eatbits_ok [OF ok n(1)] by blast
  let ?x = "drop_bit (64 - unat n) (vl_buffer v)"
  have u: "uint (64 - n) = 64 - int (unat n)" using n by (intro minus_from_64) simp
  have sh: "shr64 (vl_buffer v) (uint (64 - n)) = Some ?x"
    unfolding u shr64_def using n by (simp add: nat_diff_distrib del: of_nat_unat)
  have fits: "take_bit (unat n) (unat ?x) = unat ?x"
    by (rule bit_eqI) (use n in \<open>auto simp: bit_simps dest: bit_imp_le_length\<close>)
  then have small: "unat ?x < 2 ^ unat n" by (metis take_bit_nat_less_exp)
  then have "unat (ucast ?x :: u32) = unat ?x"
  proof -
    have "(2 :: nat) ^ unat n \<le> 2 ^ 32" using n by (intro power_increasing) simp_all
    then have "unat ?x < 2 ^ 32" using small by (rule order_less_le_trans [rotated])
    then show ?thesis by (simp add: unsigned_ucast_eq take_bit_nat_eq_self_iff)
  qed
  moreover have "take (unat n) (vl_bits v) = word_bits (unat n) ?x" using take_buf_bits n by simp
  ultimately have x: "unat (ucast ?x :: u32) = bits_num (take (unat n) (vl_bits v))" by (simp add: bits_num_word fits)
  have "vl_vlc_get_uimsbf dbg v n = Some (ucast ?x, v')"
    using n valid_bits_nat [OF ok] sh v'(1)
    by (simp add: vl_vlc_get_uimsbf_def vl_assert_def word_le_nat_alt)
  then show ?thesis using v' x by blast
qed

lemma peek_ok:
  assumes ok: "vl_ok v" and n: "0 < unat n" "unat n < 64"
    and enough: "unat n \<le> length (buf_bits v) \<or> vl_data v = vl_end v"
  shows "\<exists>x. vl_vlc_peekbits dbg v n = Some x
    \<and> (\<forall>j. bit x j \<longleftrightarrow> j < 32 \<and> j < unat n \<and> unat n - 1 - j < length (vl_bits v) \<and> vl_bits v ! (unat n - 1 - j))"
proof -
  let ?x = "drop_bit (64 - unat n) (vl_buffer v)"
  have inv: "- 32 < vl_invalid v" "vl_invalid v \<le> 32" and low: "\<And>i. i < nat (32 + vl_invalid v) \<Longrightarrow> \<not> bit (vl_buffer v) i"
    using ok by (simp_all add: vl_ok_def)
  have u: "uint (64 - n) = 64 - int (unat n)" using n by (intro minus_from_64) simp
  have sh: "shr64 (vl_buffer v) (uint (64 - n)) = Some ?x"
    unfolding u shr64_def using n by (simp add: nat_diff_distrib del: of_nat_unat)
  have p: "vl_vlc_peekbits dbg v n = Some (ucast ?x)"
    using enough valid_bits_nat [OF ok] sh ok
    by (auto simp add: vl_vlc_peekbits_def vl_assert_def word_le_nat_alt)
  have "bit (ucast ?x :: u32) j \<longleftrightarrow> j < 32 \<and> j < unat n \<and> unat n - 1 - j < length (vl_bits v) \<and> vl_bits v ! (unat n - 1 - j)" for j
  proof (cases "j < 32 \<and> j < unat n")
    case True
    then have j: "64 - unat n + j = 63 - (unat n - 1 - j)" "64 - unat n + j < 64" using n by auto
    show ?thesis
    proof (cases "unat n - 1 - j < length (buf_bits v)")
      case in_buf: True
      then show ?thesis using True j by (simp add: bit_simps vl_bits_def nth_append)
    next
      case False
      then have "\<not> unat n \<le> length (buf_bits v)" using n by linarith
      then have "vl_data v = vl_end v" using enough by blast
      then have "vl_bits v = buf_bits v" by (simp add: vl_bits_def)
      moreover have "64 - unat n + j < nat (32 + vl_invalid v)" using False n True inv by auto
      ultimately show ?thesis using False low True j by (simp add: bit_simps)
    qed
  next
    case False
    then show ?thesis using n by (auto simp: bit_simps dest: bit_imp_le_length)
  qed
  then show ?thesis using p by blast
qed

lemma eat_m:
  assumes "vl_ok v" "unat n = m" "m \<le> length (buf_bits v)"
  obtains v' where "vl_vlc_eatbits dbg v n = Some v'" "vl_ok v'" "vl_bits v' = drop m (vl_bits v)" "vl_same v v'"
    "length (buf_bits v') = length (buf_bits v) - m"
proof -
  obtain v' where v': "vl_vlc_eatbits dbg v n = Some v'" "vl_ok v'" "vl_bits v' = drop m (vl_bits v)" "vl_same v v'"
    "vl_data v' = vl_data v" using eatbits_ok [of v n dbg] assms by auto
  have "length (buf_bits v') = length (buf_bits v) - m"
    using length_vl_bits [OF v'(2)] length_vl_bits [OF assms(1)] v' assms(3) by (auto simp: vl_same_def) linarith
  then show thesis using v' that by blast
qed

lemma get_m:
  assumes "vl_ok v" "unat n = m" "m \<le> length (buf_bits v)" "0 < m" "m \<le> 32"
  obtains x v' where "vl_vlc_get_uimsbf dbg v n = Some (x, v')" "unat x = bits_num (take m (vl_bits v))" "vl_ok v'"
    "vl_bits v' = drop m (vl_bits v)" "vl_same v v'" "length (buf_bits v') = length (buf_bits v) - m"
proof -
  obtain x v' where v': "vl_vlc_get_uimsbf dbg v n = Some (x, v')" "unat x = bits_num (take m (vl_bits v))" "vl_ok v'"
    "vl_bits v' = drop m (vl_bits v)" "vl_same v v'" "vl_data v' = vl_data v" using get_ok [of v n dbg] assms by auto
  have "length (buf_bits v') = length (buf_bits v) - m"
    using length_vl_bits [OF v'(3)] length_vl_bits [OF assms(1)] v' assms(3) by (auto simp: vl_same_def) linarith
  then show thesis using v' that by blast
qed

subsection \<open>Fields of a NAL unit without emulation prevention\<close>

text \<open>No emulation prevention byte: the bytes 0, 0 and 3 do not follow each other.\<close>

definition no_escape :: "bytes \<Rightarrow> bool" where
  "no_escape bs \<longleftrightarrow> (\<forall>i. i + 2 < length bs \<longrightarrow> \<not> (bs ! i = 0 \<and> bs ! (i + 1) = 0 \<and> bs ! (i + 2) = 3))"

text \<open>There is none in what the reader has loaded when it stands \<open>k\<close> bits into \<open>bs\<close>.\<close>

definition clear_at :: "bytes \<Rightarrow> nat \<Rightarrow> bool" where
  "clear_at bs k \<longleftrightarrow> no_escape (take (k div 8 + 8) bs)"

lemma clear_at_le: "clear_at bs k \<Longrightarrow> j \<le> k \<Longrightarrow> clear_at bs j"
proof -
  assume c: "clear_at bs k" and "j \<le> k"
  then have "j div 8 + 8 \<le> k div 8 + 8" by (simp add: div_le_mono)
  then show "clear_at bs j" using c unfolding clear_at_def no_escape_def by auto
qed

text \<open>\<open>r\<close> stands \<open>k\<close> bits into the bytes \<open>bs\<close>.\<close>

definition rb_plain :: "rbsp \<Rightarrow> bytes \<Rightarrow> nat \<Rightarrow> bool" where
  "rb_plain r bs k \<longleftrightarrow> vl_ok (rb_nal r) \<and> vl_bits (rb_nal r) = drop k (bits_of bs) \<and> k \<le> 8 * length bs
     \<and> rb_escaped r \<in> {0, 8, 16}"

text \<open>With 16 bits looked ahead the search for emulation prevention bytes sees the two bytes before each byte
  it judges; with fewer it would take any byte 3 for one.\<close>

definition ready :: "rbsp \<Rightarrow> bool" where
  "ready r \<longleftrightarrow> rb_escaped r = 16 \<and> 16 \<le> length (buf_bits (rb_nal r)) \<or> vl_data (rb_nal r) = vl_end (rb_nal r)"

definition u_bits :: "nat \<Rightarrow> bool list \<Rightarrow> (nat \<times> bool list) option" where
  "u_bits n bs = (if n \<le> length bs then Some (bits_num (take n bs), drop n bs) else None)"

definition ue_bits :: "bool list \<Rightarrow> (nat \<times> bool list) option" where
  "ue_bits bs = (let k = length (takeWhile Not bs) in
     if k < 16 \<and> 2 * k + 1 \<le> length bs
     then Some (2 ^ k - 1 + bits_num (take k (drop (k + 1) bs)), drop (2 * k + 1) bs) else None)"

lemma nth_bits_of: "q < length bs \<Longrightarrow> k < 8 \<Longrightarrow> bits_of bs ! (8 * q + k) = bit (bs ! q) (7 - k)"
proof (induction bs arbitrary: q)
  case (Cons b bs)
  then show ?case by (cases q) (simp_all add: nth_append)
qed simp

text \<open>A peek of \<open>i\<close> bits ends with three whole bytes of the input when \<open>i\<close> bits on there is a byte boundary.\<close>

lemma window_byte:
  assumes bits: "vl_bits v = drop k (bits_of bs)" and i: "24 \<le> i" "i < 64" "(i + k) mod 8 = 0" "i \<le> length (vl_bits v)"
    and x: "\<And>j. bit (x :: u32) j \<longleftrightarrow> j < 32 \<and> j < i \<and> i - 1 - j < length (vl_bits v) \<and> vl_bits v ! (i - 1 - j)"
    and three: "x AND 0xffffff = 3"
  shows "\<not> clear_at bs k"
proof -
  obtain m' where m': "i + k = 8 * m'" using i(3) by (auto simp: mod_eq_0_iff_dvd elim: dvdE)
  define m where "m = m' - 3"
  have "3 \<le> m'" using m' i(1) by linarith
  then have m: "i + k = 8 * (m + 3)" using m' unfolding m_def by simp
  have len: "m + 2 < length bs" using i m bits by auto
  have "8 * (m + 3) \<le> 63 + k" using i(2) m by simp
  then have near: "m + 2 < k div 8 + 8" by presburger
  have m24: "(0xffffff :: u32) = mask 24" and m2: "(3 :: u32) = mask 2" "(3 :: u8) = mask 2"
    by (simp_all add: mask_eq_exp_minus_1)
  have b: "bit (bs ! (m + q)) j \<longleftrightarrow> q = 2 \<and> j < 2" if "q < 3" "j < 8" for q j
  proof -
    let ?j = "8 * (2 - q) + j"
    have j: "?j < 24" "?j < 32" "?j < i" using that i(1) by linarith+
    have idx: "k + (i - 1 - ?j) = 8 * (m + q) + (7 - j)" using that m i(1) by auto
    have "bit x ?j \<longleftrightarrow> bits_of bs ! (k + (i - 1 - ?j))"
      using x [of ?j] j i bits by (auto simp: less_diff_conv)
    also have "\<dots> = bit (bs ! (m + q)) (7 - (7 - j))"
      unfolding idx by (rule nth_bits_of) (use that len in linarith)+
    also have "7 - (7 - j) = j" using that by simp
    finally have "bit (bs ! (m + q)) j = bit (x AND 0xffffff) ?j" using j by (simp add: m24 bit_simps)
    then show ?thesis unfolding three m2 using j that by (auto simp: bit_simps)
  qed
  have "bs ! m = 0" "bs ! (m + 1) = 0" "bs ! (m + 2) = 3"
    using b [of 0] b [of 1] b [of 2] by (auto intro!: bit_word_eqI simp: m2 bit_simps)
  then show ?thesis using len near by (auto simp: clear_at_def no_escape_def intro!: exI [of _ m])
qed

lemma peek_plain:
  assumes "rb_plain r bs k" "clear_at bs k" "24 \<le> unat i" "unat i \<le> length (buf_bits (rb_nal r))" "(unat i + k) mod 8 = 0"
  shows "\<exists>x. vl_vlc_peekbits dbg (rb_nal r) i = Some x \<and> x AND 0xffffff \<noteq> 3"
proof -
  have ok: "vl_ok (rb_nal r)" using assms(1) by (simp add: rb_plain_def)
  then have "length (buf_bits (rb_nal r)) < 64" by (auto simp: vl_ok_def)
  then have i64: "unat i < 64" using assms(4) by linarith
  then obtain x where x: "vl_vlc_peekbits dbg (rb_nal r) i = Some x"
    "\<And>j. bit x j \<longleftrightarrow> j < 32 \<and> j < unat i \<and> unat i - 1 - j < length (vl_bits (rb_nal r)) \<and> vl_bits (rb_nal r) ! (unat i - 1 - j)"
    using peek_ok [OF ok, of i dbg] assms(3,4) by auto
  have "x AND 0xffffff \<noteq> 3"
  proof
    assume "x AND 0xffffff = 3"
    from window_byte [OF _ assms(3) i64 assms(5) _ x(2) this] show False
      using assms(1,2,4) valid_le_bits [of "rb_nal r"] by (auto simp: rb_plain_def)
  qed
  then show ?thesis using x(1) by blast
qed

lemma u32_add_small: "unat (i :: u32) < 2 ^ 31 \<Longrightarrow> n < 2 ^ 31 \<Longrightarrow> unat (i + of_nat n) = unat i + n"
  by (subst unat_add_lem [THEN iffD1]) (simp_all add: unat_of_nat)

lemma fill_escapes_plain:
  assumes "rb_plain r bs k" "clear_at bs k" "unat b \<le> length (buf_bits (rb_nal r))"
  shows "24 \<le> unat i \<Longrightarrow> unat i < 2 ^ 30 \<Longrightarrow> (unat i + k) mod 8 = 0 \<Longrightarrow> fill_escapes dbg b i r = Some r"
proof (induction "64 - unat i" arbitrary: i rule: less_induct)
  case less
  show ?case
  proof (cases "i \<le> b")
    case False
    then show ?thesis by (subst fill_escapes.simps) simp
  next
    case True
    then have le: "unat i \<le> length (buf_bits (rb_nal r))" using assms(3) by (simp add: word_le_nat_alt)
    have "length (buf_bits (rb_nal r)) < 64" using assms(1) by (auto simp: rb_plain_def vl_ok_def)
    then have lt: "unat i < 64" using le by simp
    have i8: "unat (i + 8) = unat i + 8" using u32_add_small [of i 8] less.prems(2) by simp
    have "(unat (i + 8) + k) mod 8 = 0" using less.prems(3) unfolding i8 by presburger
    then have "fill_escapes dbg b (i + 8) r = Some r"
      using less.hyps [of "i + 8"] less.prems lt i8 by simp
    then show ?thesis
      using peek_plain [OF assms(1,2) less.prems(1) le less.prems(3), of dbg] True
      by (subst fill_escapes.simps) auto
  qed
qed

lemma init_escapes_plain:
  assumes "rb_plain r bs k" "clear_at bs k" "unat b \<le> length (buf_bits (rb_nal r))"
  shows "24 \<le> unat i \<Longrightarrow> unat i < 2 ^ 30 \<Longrightarrow> (unat i + k) mod 8 = 0 \<Longrightarrow> init_escapes dbg b i (rb_nal r) = Some (rb_nal r)"
proof (induction "64 - unat i" arbitrary: i rule: less_induct)
  case less
  show ?case
  proof (cases "i \<le> b")
    case False
    then show ?thesis by (subst init_escapes.simps) simp
  next
    case True
    then have le: "unat i \<le> length (buf_bits (rb_nal r))" using assms(3) by (simp add: word_le_nat_alt)
    have "length (buf_bits (rb_nal r)) < 64" using assms(1) by (auto simp: rb_plain_def vl_ok_def)
    then have lt: "unat i < 64" using le by simp
    have i8: "unat (i + 8) = unat i + 8" using u32_add_small [of i 8] less.prems(2) by simp
    have "(unat (i + 8) + k) mod 8 = 0" using less.prems(3) unfolding i8 by presburger
    then have "init_escapes dbg b (i + 8) (rb_nal r) = Some (rb_nal r)"
      using less.hyps [of "i + 8"] less.prems lt i8 by simp
    then show ?thesis
      using peek_plain [OF assms(1,2) less.prems(1) le less.prems(3), of dbg] True
      by (subst init_escapes.simps) auto
  qed
qed

text \<open>What an operation on \<open>r\<close> gives back.\<close>

definition same_nal :: "rbsp \<Rightarrow> rbsp \<Rightarrow> bool" where
  "same_nal r r' \<longleftrightarrow> vl_same (rb_nal r) (rb_nal r')"

lemma bits_mod8: "rb_plain r bs k \<Longrightarrow> (length (buf_bits (rb_nal r)) + k) mod 8 = 0"
proof -
  assume r: "rb_plain r bs k"
  then have ok: "vl_ok (rb_nal r)" and k: "k \<le> 8 * length bs" by (auto simp: rb_plain_def)
  have "length (buf_bits (rb_nal r)) + 8 * (vl_end (rb_nal r) - vl_data (rb_nal r)) = 8 * length bs - k"
    using r length_vl_bits [OF ok] by (simp add: rb_plain_def)
  then have "length (buf_bits (rb_nal r)) + k + 8 * (vl_end (rb_nal r) - vl_data (rb_nal r)) = 8 * length bs"
    using k by simp
  then show ?thesis by presburger
qed

text \<open>The look-ahead is all there is.\<close>

lemma dry_iff: "vl_ok v \<Longrightarrow> buf_bits v = vl_bits v \<longleftrightarrow> vl_data v = vl_end v"
proof
  assume v: "vl_ok v" "buf_bits v = vl_bits v"
  then have "length (buf_bits v) = length (vl_bits v)" by simp
  then show "vl_data v = vl_end v" using length_vl_bits [OF v(1)] v(1) by (simp add: vl_ok_def)
qed (simp add: vl_bits_def)

lemma rbsp_fill_plain:
  assumes r: "rb_plain r bs k" "ready r" "clear_at bs k"
  shows "\<exists>r'. vl_rbsp_fillbits dbg r = Some r' \<and> rb_plain r' bs k \<and> same_nal r r'
    \<and> (rb_escaped r' = 16 \<and> 32 \<le> length (buf_bits (rb_nal r')) \<or> vl_data (rb_nal r') = vl_end (rb_nal r'))"
proof -
  let ?valid = "vl_vlc_valid_bits (rb_nal r)"
  have ok: "vl_ok (rb_nal r)" using r by (simp add: rb_plain_def)
  note vb = valid_bits_nat [OF ok]
  show ?thesis
  proof (cases "32 \<le> ?valid")
    case True
    then have "32 \<le> length (buf_bits (rb_nal r))" using vb by (simp add: word_le_nat_alt)
    then show ?thesis using r True
      by (intro exI [of _ r]) (auto simp: vl_rbsp_fillbits_def same_nal_def Let_def ready_def simp del: length_buf_bits)
  next
    case False
    then have small: "length (buf_bits (rb_nal r)) < 32" using vb by (simp add: word_le_nat_alt)
    obtain v where v: "vl_vlc_fillbits (rb_nal r) = Some v" "loaded (rb_nal r) v"
      "vl_invalid v \<le> 0 \<or> vl_data v = vl_end v" using fillbits_ok [OF ok] by blast
    have v': "vl_ok v" "vl_bits v = vl_bits (rb_nal r)" "vl_same (rb_nal r) v" using v(2) by (simp_all add: loaded_def)
    have dry: "v = rb_nal r" if "vl_data (rb_nal r) = vl_end (rb_nal r)"
      using v(1) that by (simp add: vl_vlc_fillbits_def split: if_splits)
    have full: "rb_escaped r = 16 \<and> 32 \<le> length (buf_bits v) \<or> vl_data v = vl_end v"
      using v(3) dry r(2) by (auto simp: ready_def)
    show ?thesis
    proof (cases "vl_vlc_bits_left v < 24")
      case True
      then have "vl_rbsp_fillbits dbg r = Some (r\<lparr>rb_nal := v\<rparr>)" using False v(1) by (simp add: vl_rbsp_fillbits_def Let_def)
      then show ?thesis using r(1) v' full
        by (intro exI [of _ "r\<lparr>rb_nal := v\<rparr>"]) (simp add: rb_plain_def same_nal_def del: length_buf_bits)
    next
      case enough: False
      let ?r = "r\<lparr>rb_nal := v, rb_escaped := 16\<rparr>" and ?i = "?valid - rb_escaped r + 24"
      have r': "rb_plain ?r bs k" using r(1) v' by (simp add: rb_plain_def)
      obtain e where e: "e \<in> {8, 16, 24}" "24 - rb_escaped r = of_nat e"
        using that [of 24] that [of 16] that [of 8] r(1) by (auto simp: rb_plain_def)
      have ie: "?i = ?valid + of_nat e" unfolding e(2) [symmetric] by (simp add: algebra_simps)
      have i: "unat ?i = length (buf_bits (rb_nal r)) + e"
        unfolding ie using vb small e(1) by (subst u32_add_small) auto
      have m8: "(unat ?i + k) mod 8 = 0" using bits_mod8 [OF r(1)] e(1) unfolding i
        by (elim insertE emptyE; hypsubst; presburger)
      have "fill_escapes dbg (vl_vlc_valid_bits v) ?i ?r = Some ?r"
      proof (cases "vl_data (rb_nal r) = vl_end (rb_nal r)")
        case True
        have "\<not> ?i \<le> vl_vlc_valid_bits v"
          unfolding word_le_nat_alt i dry [OF True] vb using e(1) by auto
        then show ?thesis by (subst fill_escapes.simps) simp
      next
        case False
        then have "24 \<le> unat ?i" "unat ?i < 2 ^ 30" using e(1) small r(2) unfolding i
          by (auto simp: ready_def simp del: length_buf_bits)
        then show ?thesis using m8 r(3)
          by (intro fill_escapes_plain [OF r']) (simp_all add: valid_bits_nat v')
      qed
      then have "vl_rbsp_fillbits dbg r = Some ?r" using False enough v(1) by (simp add: vl_rbsp_fillbits_def Let_def)
      then show ?thesis using r' v' full by (intro exI [of _ ?r]) (auto simp: same_nal_def simp del: length_buf_bits)
    qed
  qed
qed

lemma plain_get:
  assumes r: "rb_plain r bs k" and n: "0 < unat n" "unat n \<le> 32" "unat n \<le> length (buf_bits (rb_nal r))"
  shows "\<exists>x v. vl_vlc_get_uimsbf dbg (rb_nal r) n = Some (x, v) \<and> unat x = bits_num (take (unat n) (vl_bits (rb_nal r)))
    \<and> rb_plain (r\<lparr>rb_nal := v\<rparr>) bs (k + unat n) \<and> same_nal r (r\<lparr>rb_nal := v\<rparr>)
    \<and> length (buf_bits (rb_nal r)) = length (buf_bits v) + unat n \<and> vl_data v = vl_data (rb_nal r)"
proof -
  obtain x v where g: "vl_vlc_get_uimsbf dbg (rb_nal r) n = Some (x, v)"
    "unat x = bits_num (take (unat n) (vl_bits (rb_nal r)))" "vl_ok v" "vl_bits v = drop (unat n) (vl_bits (rb_nal r))"
    "vl_same (rb_nal r) v" "vl_data v = vl_data (rb_nal r)" "vl_invalid v = vl_invalid (rb_nal r) + int (unat n)"
    using get_ok [of "rb_nal r" n dbg] r n by (auto simp: rb_plain_def)
  have "unat n \<le> length (vl_bits (rb_nal r))" using n(3) valid_le_bits order_trans by blast
  then have "rb_plain (r\<lparr>rb_nal := v\<rparr>) bs (k + unat n)"
    using r g by (auto simp: rb_plain_def add.commute)
  moreover have "length (buf_bits (rb_nal r)) = length (buf_bits v) + unat n"
    using g(7) n(3) g(3) by (auto simp: vl_ok_def simp del: of_nat_unat)
  ultimately show ?thesis using g(1,2,5,6)
    by (intro exI [of _ x] exI [of _ v]) (simp add: same_nal_def del: length_buf_bits)
qed

lemma rbsp_u_plain:
  assumes r: "rb_plain r bs k" "ready r" "clear_at bs k"
    and s: "u_bits (unat n) (vl_bits (rb_nal r)) = Some (x, rest)" and n: "unat n \<le> 16"
  shows "\<exists>y r'. vl_rbsp_u dbg r n = Some (y, r') \<and> unat y = x \<and> rb_plain r' bs (k + unat n) \<and> ready r'
    \<and> vl_bits (rb_nal r') = rest \<and> same_nal r r' \<and> (n = 0 \<longrightarrow> r' = r)
    \<and> (n = 0 \<or> 32 \<le> length (buf_bits (rb_nal r')) + unat n \<or> vl_data (rb_nal r') = vl_end (rb_nal r'))"
proof (cases "n = 0")
  case True
  then show ?thesis using r s by (auto simp: vl_rbsp_u_def u_bits_def bits_num_def same_nal_def)
next
  case False
  have x: "x = bits_num (take (unat n) (vl_bits (rb_nal r)))" "rest = drop (unat n) (vl_bits (rb_nal r))"
    "unat n \<le> length (vl_bits (rb_nal r))" using s by (auto simp: u_bits_def split: if_splits)
  obtain b where b: "vl_rbsp_fillbits dbg r = Some b" "rb_plain b bs k" "same_nal r b"
    "rb_escaped b = 16 \<and> 32 \<le> length (buf_bits (rb_nal b)) \<or> vl_data (rb_nal b) = vl_end (rb_nal b)"
    using rbsp_fill_plain [OF r] by blast
  have e: "vl_bits (rb_nal b) = vl_bits (rb_nal r)" using r b(2) by (simp add: rb_plain_def)
  have "vl_ok (rb_nal b)" using b(2) by (simp add: rb_plain_def)
  note dry = dry_iff [OF this]
  have "unat n \<le> length (buf_bits (rb_nal b))"
  proof (cases "vl_data (rb_nal b) = vl_end (rb_nal b)")
    case True
    then show ?thesis using dry x(3) e by metis
  next
    case False
    then show ?thesis using b(4) n by linarith
  qed
  moreover have "0 < unat n" using False by (simp add: unat_gt_0)
  moreover have "unat n \<le> 32" using n by linarith
  ultimately obtain y v where y: "vl_vlc_get_uimsbf dbg (rb_nal b) n = Some (y, v)"
    "unat y = bits_num (take (unat n) (vl_bits (rb_nal b)))"
    "rb_plain (b\<lparr>rb_nal := v\<rparr>) bs (k + unat n)" "same_nal b (b\<lparr>rb_nal := v\<rparr>)"
    "length (buf_bits (rb_nal b)) = length (buf_bits v) + unat n" "vl_data v = vl_data (rb_nal b)"
    using plain_get [OF b(2)] by blast
  have look: "rb_escaped b = 16 \<and> 32 \<le> length (buf_bits v) + unat n \<or> vl_data v = vl_end v"
    using b(4) y(4,5,6) by (simp add: same_nal_def vl_same_def del: length_buf_bits)
  then have rdy: "ready (b\<lparr>rb_nal := v\<rparr>)" using n unfolding ready_def by (auto simp del: length_buf_bits)
  have "vl_bits v = rest" using y(3) x(2) r by (simp add: rb_plain_def add.commute)
  moreover have "\<not> 16 < n" using n by (simp add: word_less_nat_alt)
  then have "vl_rbsp_u dbg r n = Some (y, b\<lparr>rb_nal := v\<rparr>)"
    using False b(1) y(1) by (simp add: vl_rbsp_u_def)
  moreover have "same_nal r (b\<lparr>rb_nal := v\<rparr>)" using y(4) b(3) by (auto simp: same_nal_def intro: vl_same_trans)
  ultimately show ?thesis using y x e look rdy False
    by (intro exI [of _ y] exI [of _ "b\<lparr>rb_nal := v\<rparr>"]) (auto simp del: length_buf_bits)
qed

lemma bits_num_less: "bits_num bs < 2 ^ length bs"
proof -
  have "bits_num bs = horner_sum of_bool 2 (rev bs)" by (simp add: bits_num_def)
  also have "\<dots> < 2 ^ length (rev bs)" by (rule horner_sum_of_bool_2_less)
  finally show ?thesis by simp
qed

lemma bits_num_one [simp]: "bits_num [b] = of_bool b"
  by (simp add: bits_num_def)

lemma get_bit:
  assumes "rb_plain r bs k" "0 < length (buf_bits (rb_nal r))"
  shows "\<exists>x v. vl_vlc_get_uimsbf dbg (rb_nal r) 1 = Some (x, v) \<and> unat x = bits_num (take 1 (vl_bits (rb_nal r)))
    \<and> rb_plain (r\<lparr>rb_nal := v\<rparr>) bs (k + 1) \<and> same_nal r (r\<lparr>rb_nal := v\<rparr>)
    \<and> length (buf_bits (rb_nal r)) = length (buf_bits v) + 1 \<and> vl_data v = vl_data (rb_nal r)"
proof -
  have "unat (1 :: u32) \<le> length (buf_bits (rb_nal r))" using assms(2) by (simp only: unsigned_1)
  from plain_get [OF assms(1) _ _ this, of dbg] show ?thesis by (simp del: length_buf_bits)
qed

lemma rbsp_zeros_plain:
  "rb_plain r bs k \<Longrightarrow> vl_bits (rb_nal r) = replicate j False @ True # rest \<Longrightarrow> j < length (buf_bits (rb_nal r)) \<Longrightarrow>
     \<exists>v. rbsp_zeros dbg b (rb_nal r) = Some (b + of_nat j, v) \<and> rb_plain (r\<lparr>rb_nal := v\<rparr>) bs (k + j + 1)
       \<and> same_nal r (r\<lparr>rb_nal := v\<rparr>) \<and> length (buf_bits (rb_nal r)) = length (buf_bits v) + j + 1
       \<and> vl_data v = vl_data (rb_nal r)"
proof (induction j arbitrary: r k b)
  case 0
  then obtain x v where g: "vl_vlc_get_uimsbf dbg (rb_nal r) 1 = Some (x, v)"
    "unat x = bits_num (take 1 (vl_bits (rb_nal r)))" "rb_plain (r\<lparr>rb_nal := v\<rparr>) bs (k + 1)" "same_nal r (r\<lparr>rb_nal := v\<rparr>)"
    "length (buf_bits (rb_nal r)) = length (buf_bits v) + 1" "vl_data v = vl_data (rb_nal r)"
    using get_bit [OF 0(1), of dbg] by blast
  have "x \<noteq> 0" using g(2) 0(2) by auto
  then have "rbsp_zeros dbg b (rb_nal r) = Some (b, v)" using g(1) by (subst rbsp_zeros.simps) simp
  then show ?case using g by (intro exI [of _ v]) (simp del: length_buf_bits)
next
  case (Suc j)
  have "0 < length (buf_bits (rb_nal r))" using Suc.prems(3) by linarith
  then obtain x v where g: "vl_vlc_get_uimsbf dbg (rb_nal r) 1 = Some (x, v)"
    "unat x = bits_num (take 1 (vl_bits (rb_nal r)))" "rb_plain (r\<lparr>rb_nal := v\<rparr>) bs (k + 1)" "same_nal r (r\<lparr>rb_nal := v\<rparr>)"
    "length (buf_bits (rb_nal r)) = length (buf_bits v) + 1" "vl_data v = vl_data (rb_nal r)"
    using get_bit [OF Suc.prems(1), of dbg] by blast
  let ?r = "r\<lparr>rb_nal := v\<rparr>"
  have bits: "vl_bits (rb_nal ?r) = drop 1 (vl_bits (rb_nal r))"
    using g(3) Suc.prems(1) by (simp add: rb_plain_def add.commute)
  have "vl_bits (rb_nal ?r) = replicate j False @ True # rest" "j < length (buf_bits (rb_nal ?r))"
    using bits Suc.prems(2,3) g(5) by (simp_all del: length_buf_bits)
  from Suc.IH [OF g(3) this, of "b + 1"] obtain w where
    w: "rbsp_zeros dbg (b + 1) (rb_nal ?r) = Some (b + 1 + of_nat j, w)" "rb_plain (?r\<lparr>rb_nal := w\<rparr>) bs (k + 1 + j + 1)"
    "same_nal ?r (?r\<lparr>rb_nal := w\<rparr>)" "length (buf_bits (rb_nal ?r)) = length (buf_bits w) + j + 1"
    "vl_data w = vl_data (rb_nal ?r)" by blast
  have "x = 0" using g(2) Suc.prems(2) by (simp add: word_unat_eq_iff)
  then have "rbsp_zeros dbg b (rb_nal r) = Some (b + of_nat (Suc j), w)"
    using g(1) w(1) by (subst rbsp_zeros.simps) (simp add: algebra_simps)
  moreover have "same_nal r (r\<lparr>rb_nal := w\<rparr>)" using g(4) w(3) by (auto simp: same_nal_def intro: vl_same_trans)
  ultimately show ?case using g(5,6) w(2,4,5) by (intro exI [of _ w]) (simp add: add.assoc del: length_buf_bits)
qed

lemma leading_zeros:
  assumes "length (takeWhile Not bs) < length bs"
  shows "bs = replicate (length (takeWhile Not bs)) False @ True # drop (length (takeWhile Not bs) + 1) bs"
proof -
  let ?k = "length (takeWhile Not bs)"
  have "takeWhile Not bs = replicate ?k False"
    by (intro replicate_eqI) (auto dest: set_takeWhileD)
  moreover have "dropWhile Not bs = True # drop (?k + 1) bs"
    using assms nth_length_takeWhile [of Not bs] by (simp add: dropWhile_eq_drop Cons_nth_drop_Suc [symmetric])
  ultimately show ?thesis using takeWhile_dropWhile_id [of Not bs] by metis
qed

lemma rbsp_ue_plain:
  assumes r: "rb_plain r bs k" "ready r" and s: "ue_bits (vl_bits (rb_nal r)) = Some (x, rest)"
    and clear: "clear_at bs h" "8 * length bs \<le> h + length rest"
  shows "\<exists>y r' k'. vl_rbsp_ue dbg r = Some (y, r') \<and> unat y = x \<and> rb_plain r' bs k' \<and> ready r' \<and> k < k'
    \<and> vl_bits (rb_nal r') = rest \<and> same_nal r r'
    \<and> (0 < length (buf_bits (rb_nal r')) \<and> 32 \<le> length (buf_bits (rb_nal r')) + k' \<or> vl_data (rb_nal r') = vl_end (rb_nal r'))"
proof -
  let ?bits = "vl_bits (rb_nal r)" and ?z = "length (takeWhile Not (vl_bits (rb_nal r)))"
  have z: "?z < 16" "2 * ?z + 1 \<le> length ?bits" and x: "x = 2 ^ ?z - 1 + bits_num (take ?z (drop (?z + 1) ?bits))"
    and rest: "rest = drop (2 * ?z + 1) ?bits"
    using s by (auto simp: ue_bits_def Let_def split: if_splits)
  have "length ?bits = 8 * length bs - k" "k \<le> 8 * length bs" using r(1) by (simp_all add: rb_plain_def)
  then have "k + (?z + 1) \<le> h" using clear(2) z(2) unfolding rest by simp
  then have c: "clear_at bs k" "clear_at bs (k + ?z + 1)" using clear_at_le [OF clear(1)] by auto
  obtain a where a: "vl_rbsp_fillbits dbg r = Some a" "rb_plain a bs k" "same_nal r a"
    "rb_escaped a = 16 \<and> 32 \<le> length (buf_bits (rb_nal a)) \<or> vl_data (rb_nal a) = vl_end (rb_nal a)"
    using rbsp_fill_plain [OF r c(1)] by blast
  have ab: "vl_bits (rb_nal a) = ?bits" using r a(2) by (simp add: rb_plain_def)
  have "vl_ok (rb_nal a)" using a(2) by (simp add: rb_plain_def)
  note dry = dry_iff [OF this]
  have "?z < length (buf_bits (rb_nal a))"
  proof (cases "vl_data (rb_nal a) = vl_end (rb_nal a)")
    case True
    then have "length (buf_bits (rb_nal a)) = length ?bits" using dry ab by metis
    then show ?thesis using z(2) by linarith
  next
    case False
    then show ?thesis using a(4) z(1) by linarith
  qed
  then obtain v where v: "rbsp_zeros dbg 0 (rb_nal a) = Some (0 + of_nat ?z, v)"
    "rb_plain (a\<lparr>rb_nal := v\<rparr>) bs (k + ?z + 1)" "same_nal a (a\<lparr>rb_nal := v\<rparr>)"
    "length (buf_bits (rb_nal a)) = length (buf_bits v) + ?z + 1" "vl_data v = vl_data (rb_nal a)"
    using rbsp_zeros_plain [OF a(2), of ?z "drop (?z + 1) ?bits" dbg 0] leading_zeros [of ?bits] z(2) ab by auto
  let ?n = "of_nat ?z :: u32"
  have n: "unat ?n = ?z" using z(1) by (simp add: unat_of_nat)
  have vb: "vl_bits v = drop (?z + 1) ?bits" using v(2) r by (simp add: rb_plain_def add.commute)
  have "u_bits (unat ?n) (vl_bits (rb_nal (a\<lparr>rb_nal := v\<rparr>))) = Some (bits_num (take ?z (drop (?z + 1) ?bits)), rest)"
    using z(2) by (simp add: u_bits_def n vb rest mult_2)
  moreover have "ready (a\<lparr>rb_nal := v\<rparr>)"
    using a(4) v(3,4,5) z(1) by (auto simp: ready_def same_nal_def vl_same_def simp del: length_buf_bits)
  ultimately obtain y r' where
    y: "vl_rbsp_u dbg (a\<lparr>rb_nal := v\<rparr>) ?n = Some (y, r')" "unat y = bits_num (take ?z (drop (?z + 1) ?bits))"
    "rb_plain r' bs (k + ?z + 1 + ?z)" "vl_bits (rb_nal r') = rest" "same_nal (a\<lparr>rb_nal := v\<rparr>) r'"
    "?n = 0 \<longrightarrow> r' = a\<lparr>rb_nal := v\<rparr>"
    "?n = 0 \<or> 32 \<le> length (buf_bits (rb_nal r')) + ?z \<or> vl_data (rb_nal r') = vl_end (rb_nal r')" "ready r'"
    using rbsp_u_plain [OF v(2) _ c(2), of ?n _ rest dbg] n z(1) by (auto simp del: length_buf_bits)
  have look: "0 < length (buf_bits (rb_nal r')) \<and> 32 \<le> length (buf_bits (rb_nal r')) + (k + ?z + 1 + ?z)
      \<or> vl_data (rb_nal r') = vl_end (rb_nal r')"
  proof (cases "?n = 0")
    case True
    then have "?z = 0" using n by simp
    then have "length (buf_bits (rb_nal a)) = length (buf_bits v) + 1" using v(4) by simp
    moreover have "vl_data v = vl_end v" if "vl_data (rb_nal a) = vl_end (rb_nal a)"
      using that v(3,5) by (simp add: same_nal_def vl_same_def)
    ultimately show ?thesis using a(4) True y(6) by (auto simp del: length_buf_bits)
  next
    case False
    then show ?thesis using y(7) z(1) by auto
  qed
  have "vl_rbsp_ue dbg r = Some (push_bit ?z 1 - 1 + y, r')"
    using a(1) v(1) y(1) z(1) n by (simp add: vl_rbsp_ue_def word_less_nat_alt)
  moreover have "unat (push_bit ?z 1 - 1 + y) = x"
  proof -
    have p: "push_bit ?z (1 :: u32) = of_nat (2 ^ ?z)" by (simp add: push_bit_eq_mult)
    have "(2 :: nat) ^ ?z \<le> 2 ^ 31" using z(1) by (intro power_increasing) simp_all
    moreover have "unat y < 2 ^ ?z" using y(2) bits_num_less [of "take ?z (drop (?z + 1) ?bits)"] z(2)
      by (auto intro: less_le_trans)
    moreover have e: "push_bit ?z 1 - 1 + y = of_nat (2 ^ ?z - 1 + unat y)" unfolding p
    proof -
      obtain m where m: "2 ^ ?z = Suc m" by (metis not0_implies_Suc power_not_zero zero_neq_numeral)
      show "of_nat (2 ^ ?z) - 1 + y = of_nat (2 ^ ?z - 1 + unat y)" by (simp only: m) simp
    qed
    ultimately have small: "2 ^ ?z - 1 + unat y < 2 ^ LENGTH(32)" by simp
    show ?thesis unfolding e x y(2) [symmetric] by (simp only: unat_of_nat mod_less [OF small])
  qed
  moreover have "same_nal r r'" using y(5) a(3) v(3) by (auto simp: same_nal_def intro: vl_same_trans)
  ultimately show ?thesis using y(3,4,8) look
    by (intro exI [of _ "push_bit ?z 1 - 1 + y"] exI [of _ r'] exI [of _ "k + ?z + 1 + ?z"]) (simp del: length_buf_bits)
qed

subsection \<open>The beginning and the end of a NAL unit\<close>

definition byte_state :: "vlc \<Rightarrow> bytes \<Rightarrow> bool" where
  "byte_state v cs \<longleftrightarrow> vl_ok v \<and> vl_bits v = bits_of cs"

definition full :: "vlc \<Rightarrow> bool" where
  "full v \<longleftrightarrow> 32 \<le> length (buf_bits v) \<or> buf_bits v = vl_bits v"

definition no_start :: "bytes \<Rightarrow> bool" where
  "no_start bs \<longleftrightarrow> (\<forall>i. i + 2 < length bs \<longrightarrow> \<not> (bs ! i = 0 \<and> bs ! (i + 1) = 0 \<and> bs ! (i + 2) = 1))"

lemma no_start_Cons: "no_start (b # bs) \<Longrightarrow> no_start bs"
  unfolding no_start_def by (metis Suc_mono add_Suc length_Cons nth_Cons_Suc)

definition later :: "bytes \<Rightarrow> bytes \<Rightarrow> bool" where
  "later cs cs' \<longleftrightarrow> (no_start cs \<longrightarrow> no_start cs') \<and> length cs' \<le> length cs"

lemma later_refl [simp]: "later cs cs"
  by (simp add: later_def)

lemma later_Cons: "later cs cs' \<Longrightarrow> later (c # cs) cs'"
  using no_start_Cons [of c cs] by (auto simp: later_def)

lemma bits_of_inj: "bits_of as = bits_of bs \<Longrightarrow> as = bs"
proof (induction as arbitrary: bs)
  case Nil
  then show ?case by (cases bs) (auto dest: arg_cong [of _ _ length])
next
  case (Cons a as)
  then obtain b bs' where bs: "bs = b # bs'" by (cases bs) (auto dest: arg_cong [of _ _ length])
  have e: "word_bits 8 a = word_bits 8 b" "bits_of as = bits_of bs'" using Cons.prems bs by simp_all
  have "bit a j = bit b j" if "j < 8" for j
    using arg_cong [OF e(1), of "\<lambda>l. l ! (7 - j)"] that by simp
  then have "a = b" by (intro bit_word_eqI) simp
  then show ?case using Cons.IH [OF e(2)] bs by simp
qed

lemma byte_state_valid:
  assumes "byte_state v cs" shows "length (buf_bits v) mod 8 = 0" "cs = [] \<Longrightarrow> length (buf_bits v) = 0"
    "length (buf_bits v) \<le> 8 * length cs"
proof -
  have "length (buf_bits v) + 8 * (vl_end v - vl_data v) = 8 * length cs"
    using assms length_vl_bits [of v] by (simp add: byte_state_def)
  then show "length (buf_bits v) mod 8 = 0" "cs = [] \<Longrightarrow> length (buf_bits v) = 0" "length (buf_bits v) \<le> 8 * length cs"
    by (presburger, simp_all)
qed

lemma fill_byte_state:
  assumes "byte_state v cs" shows "\<exists>v'. vl_vlc_fillbits v = Some v' \<and> byte_state v' cs \<and> full v' \<and> vl_same v v'"
  using fillbits_ok [of v] assms by (auto simp: byte_state_def loaded_def full_def vl_bits_def)

lemma full_bits: "byte_state v cs \<Longrightarrow> full v \<Longrightarrow> 32 \<le> length (buf_bits v) \<or> length (buf_bits v) = 8 * length cs"
  unfolding full_def byte_state_def by (metis length_bits_of)

lemma eat_byte:
  assumes "byte_state v (c # cs)" "0 < length (buf_bits v)"
  shows "\<exists>v'. vl_vlc_eatbits dbg v 8 = Some v' \<and> byte_state v' cs \<and> vl_same v v'
    \<and> length (buf_bits v') = length (buf_bits v) - 8"
proof -
  have "8 \<le> length (buf_bits v)" using byte_state_valid(1) [OF assms(1)] assms(2) by presburger
  then obtain v' where "vl_vlc_eatbits dbg v 8 = Some v'" "vl_ok v'" "vl_bits v' = drop 8 (vl_bits v)" "vl_same v v'"
    "vl_invalid v' = vl_invalid v + 8"
    using eatbits_ok [of v 8 dbg] assms(1) by (auto simp: byte_state_def)
  then show ?thesis using assms(1) by (auto simp: byte_state_def)
qed

lemma peek_byte:
  assumes v: "byte_state v (c # cs)" "0 < length (buf_bits v)"
  shows "vl_vlc_peekbits dbg v 8 = Some (ucast c)"
proof -
  have "8 \<le> length (buf_bits v)" using byte_state_valid(1) [OF v(1)] v(2) by presburger
  then obtain x where x: "vl_vlc_peekbits dbg v 8 = Some x"
    "\<And>j. bit x j \<longleftrightarrow> j < 32 \<and> j < 8 \<and> 7 - j < length (vl_bits v) \<and> vl_bits v ! (7 - j)"
    using peek_ok [of v 8 dbg] v(1) by (auto simp: byte_state_def)
  have bits: "vl_bits v = word_bits 8 c @ bits_of cs" using v(1) by (simp add: byte_state_def)
  have "bit x j \<longleftrightarrow> bit c j" for j
  proof (cases "j < 8")
    case True
    then have "7 - j < 8" "7 - (7 - j) = j" by simp_all
    then show ?thesis using x(2) [of j] True by (simp add: bits nth_append)
  qed (use x(2) [of j] in simp)
  then have "x = ucast c" by (intro bit_word_eqI) (auto simp: bit_simps dest: bit_imp_le_length)
  then show ?thesis using x(1) by simp
qed

lemma search_buffer_ok:
  "byte_state v cs \<Longrightarrow>
    (\<exists>v' cs'. search_buffer dbg v (- 1) 0 = Some (Inl (True, v')) \<and> byte_state v' cs' \<and> full v' \<and> cs' \<noteq> []
        \<and> later cs cs')
    \<or> (\<exists>v' cs'. search_buffer dbg v (- 1) 0 = Some (Inr (- 1, v')) \<and> byte_state v' cs' \<and> length (buf_bits v') = 0
        \<and> later cs cs')"
proof (induction cs arbitrary: v)
  case Nil
  then have "length (buf_bits v) = 0" using byte_state_valid(2) by blast
  moreover from this have "search_buffer dbg v (- 1) 0 = Some (Inr (- 1, v))"
    using Nil valid_bits_nat [of v] by (subst search_buffer.simps) (simp add: byte_state_def word_less_nat_alt)
  ultimately show ?case using Nil later_refl by blast
next
  case (Cons c cs)
  have vb: "unat (vl_vlc_valid_bits v) = length (buf_bits v)" using Cons.prems valid_bits_nat by (simp add: byte_state_def)
  show ?case
  proof (cases "0 < length (buf_bits v)")
    case False
    then have "search_buffer dbg v (- 1) 0 = Some (Inr (- 1, v))"
      using vb by (subst search_buffer.simps) (simp add: word_less_nat_alt)
    then show ?thesis using Cons.prems False by auto
  next
    case True
    then have pos: "0 < vl_vlc_valid_bits v" using vb by (simp add: word_less_nat_alt)
    note peek = peek_byte [OF Cons.prems True, of dbg]
    show ?thesis
    proof (cases "c = 0")
      case zero: True
      obtain v' where "vl_vlc_fillbits v = Some v'" "byte_state v' (c # cs)" "full v'"
        using fill_byte_state [OF Cons.prems] by blast
      moreover from this have "search_buffer dbg v (- 1) 0 = Some (Inl (True, v'))"
        using pos peek zero by (subst search_buffer.simps) simp
      ultimately show ?thesis by auto
    next
      case False
      then have c: "ucast c \<noteq> (0 :: u32)" by (simp add: word_unat_eq_iff unat_ucast_up)
      obtain w where w: "vl_vlc_eatbits dbg v 8 = Some w" "byte_state w cs" using eat_byte [OF Cons.prems True] by blast
      have "search_buffer dbg v (- 1) 0 = search_buffer dbg w (- 1) 0"
        using pos peek c w(1) by (subst search_buffer.simps) simp
      then show ?thesis using Cons.IH [OF w(2)] later_Cons by metis
    qed
  qed
qed

lemma search_data_ok:
  "byte_state v cs \<Longrightarrow> length (buf_bits v) = 0 \<Longrightarrow>
    \<exists>found v' cs'. search_data v (- 1) 0 = Some (found, v')
      \<and> (found \<longrightarrow> byte_state v' cs' \<and> full v' \<and> cs' \<noteq> [] \<and> later cs cs')"
proof (induction cs arbitrary: v)
  case Nil
  then have "vl_data v = vl_end v" using length_vl_bits [of v] by (auto simp: byte_state_def vl_ok_def)
  then show ?case by (subst search_data.simps) auto
next
  case (Cons c cs)
  have inv: "vl_invalid v = 32" and ok: "vl_ok v" using Cons.prems by (auto simp: byte_state_def vl_ok_def)
  have more: "vl_data v < vl_end v" "vl_end v \<le> length (vl_mem v)"
    using length_vl_bits [OF ok] Cons.prems ok by (auto simp: byte_state_def vl_ok_def)
  have "bits_of (c # cs) = bits_of (take (vl_end v - vl_data v) (drop (vl_data v) (vl_mem v)))"
    using Cons.prems by (simp add: byte_state_def vl_bits_def flip: length_greater_0_conv del: length_buf_bits)
  then have mem: "take (vl_end v - vl_data v) (drop (vl_data v) (vl_mem v)) = c # cs" by (metis bits_of_inj)
  have b: "vl_mem v ! vl_data v = c" using arg_cong [OF mem, of "\<lambda>l. l ! 0"] more by simp
  have rd: "rd8 (vl_mem v) (vl_data v) = Some c" "vl_data v \<noteq> vl_end v" using b more by simp_all
  show ?case
  proof (cases "c = 0")
    case True
    obtain w where w: "vl_vlc_align_data_ptr v = Some w" "loaded v w"
    proof -
      have "8 * int ((4 - (vl_align v + vl_data v) mod 4) mod 4) < vl_invalid v + 32" using inv by simp
      from align_ok [OF ok this] that show ?thesis by blast
    qed
    then have "byte_state w (c # cs)" using Cons.prems by (simp add: byte_state_def loaded_def)
    then obtain v' where "vl_vlc_fillbits w = Some v'" "byte_state v' (c # cs)" "full v'" using fill_byte_state by blast
    moreover from this have "search_data v (- 1) 0 = Some (True, v')"
      using w(1) rd True by (subst search_data.simps) simp
    ultimately show ?thesis by (intro exI [of _ True] exI [of _ v'] exI [of _ "c # cs"]) simp
  next
    case False
    let ?v = "v\<lparr>vl_data := vl_data v + 1\<rparr>"
    have "take (vl_end v - (vl_data v + 1)) (drop (vl_data v + 1) (vl_mem v)) = cs"
      using arg_cong [OF mem, of "drop 1"] by (simp add: drop_take)
    then have "byte_state ?v cs" using ok more Cons.prems(2) by (simp add: byte_state_def vl_ok_def vl_bits_def buf_bits_def)
    moreover have "length (buf_bits ?v) = 0" using inv by simp
    moreover have "search_data v (- 1) 0 = search_data ?v (- 1) 0"
      using rd False by (subst search_data.simps) simp
    ultimately show ?thesis using Cons.IH [of ?v] later_Cons by metis
  qed
qed

lemma search_byte_ok:
  assumes v: "byte_state v cs"
  shows "\<exists>found v' cs'. vl_vlc_search_byte dbg v (- 1) 0 = Some (found, v')
    \<and> (found \<longrightarrow> byte_state v' cs' \<and> full v' \<and> cs' \<noteq> [] \<and> later cs cs')"
proof -
  have "unat (vl_vlc_valid_bits v mod 8) = 0"
    using v byte_state_valid(1) [OF v] valid_bits_nat [of v] by (simp add: byte_state_def unat_mod)
  then have m: "vl_vlc_valid_bits v mod 8 = 0" by (simp add: word_unat_eq_iff)
  from search_buffer_ok [OF v, of dbg] show ?thesis
  proof (elim disjE exE conjE)
    fix v' cs'
    assume "search_buffer dbg v (- 1) 0 = Some (Inl (True, v'))" "byte_state v' cs'" "full v'" "cs' \<noteq> []" "later cs cs'"
    then show ?thesis using m
      by (intro exI [of _ True] exI [of _ v'] exI [of _ cs']) (simp add: vl_vlc_search_byte_def vl_assert_def)
  next
    fix w ds
    assume w: "search_buffer dbg v (- 1) 0 = Some (Inr (- 1, w))" "byte_state w ds" "length (buf_bits w) = 0" "later cs ds"
    obtain found v' cs' where d: "search_data w (- 1) 0 = Some (found, v')"
      "found \<longrightarrow> byte_state v' cs' \<and> full v' \<and> cs' \<noteq> [] \<and> later ds cs'"
      using search_data_ok [OF w(2,3)] by blast
    have "later cs cs'" if found using d(2) w(4) that by (auto simp: later_def)
    then show ?thesis using m w(1) d
      by (intro exI [of _ found] exI [of _ v'] exI [of _ cs']) (simp add: vl_vlc_search_byte_def vl_assert_def)
  qed
qed

text \<open>A peek of three or four bytes is 1 only at a start code.\<close>

lemma peek_no_start:
  assumes v: "byte_state v cs" "full v" and ns: "no_start cs" and n: "n = 24 \<or> n = 32"
  shows "\<exists>x. vl_vlc_peekbits dbg v n = Some x \<and> x \<noteq> 1"
proof -
  have ok: "vl_ok v" and bits: "vl_bits v = bits_of cs" using v by (simp_all add: byte_state_def)
  have un: "0 < unat n" "unat n < 64" "unat n \<le> 32" "unat n = 24 \<or> unat n = 32" using n by auto
  have "unat n \<le> length (buf_bits v) \<or> vl_data v = vl_end v"
  proof (cases "32 \<le> length (buf_bits v)")
    case False
    then have "length (buf_bits v) = length (vl_bits v)" using v(2) by (simp add: full_def del: length_buf_bits)
    then show ?thesis using length_vl_bits [OF ok] ok by (simp add: vl_ok_def)
  qed (use un(3) in linarith)
  then obtain x where x: "vl_vlc_peekbits dbg v n = Some x"
    "\<And>j. bit x j \<longleftrightarrow> j < 32 \<and> j < unat n \<and> unat n - 1 - j < length (vl_bits v) \<and> vl_bits v ! (unat n - 1 - j)"
    using peek_ok [OF ok un(1,2), of dbg] by blast
  have "x \<noteq> 1"
  proof
    assume one: "x = 1"
    define m where "m = unat n div 8 - 3"
    have um: "unat n = 8 * (m + 3)" using un(4) by (auto simp: m_def)
    have len: "m + 2 < length cs" using x(2) [of 0] one um bits by auto
    have b: "bit (cs ! (m + i)) j \<longleftrightarrow> i = 2 \<and> j = 0" if "i < 3" "j < 8" for i j
    proof -
      let ?j = "8 * (2 - i) + j"
      have e: "unat n - 1 - ?j = 8 * (m + i) + (7 - j)" using that um by auto
      have "?j < 24" using that by auto
      moreover have "8 * (m + i) + (7 - j) < length (bits_of cs)" using that len by auto
      ultimately have "bit x ?j \<longleftrightarrow> bits_of cs ! (8 * (m + i) + (7 - j))"
        using x(2) [of ?j] um unfolding bits e by auto
      also have "\<dots> = bit (cs ! (m + i)) (7 - (7 - j))" using that len by (intro nth_bits_of) auto
      finally show ?thesis using that one by (auto simp: bit_1_iff)
    qed
    have "cs ! m = 0" "cs ! (m + 1) = 0" "cs ! (m + 2) = 1"
      using b [of 0] b [of 1] b [of 2] by (auto intro!: bit_word_eqI simp: bit_1_iff)
    then show False using ns len by (auto simp: no_start_def)
  qed
  then show ?thesis using x(1) by blast
qed

lemma find_end_ok:
  "byte_state v cs \<Longrightarrow> no_start cs \<Longrightarrow> rbsp_find_end dbg (- 1) left v r = Some r"
proof (induction "length cs" arbitrary: v cs rule: less_induct)
  case less
  obtain found v' cs' where s: "vl_vlc_search_byte dbg v (- 1) 0 = Some (found, v')"
    "found \<longrightarrow> byte_state v' cs' \<and> full v' \<and> cs' \<noteq> [] \<and> later cs cs'" using search_byte_ok [OF less.prems(1)] by blast
  show ?case
  proof (cases found)
    case False
    then show ?thesis using s(1) by (subst rbsp_find_end.simps) simp
  next
    case True
    then obtain c ds where cs': "byte_state v' (c # ds)" "full v'" "later cs (c # ds)" using s(2) by (cases cs') auto
    have ns: "no_start (c # ds)" "length ds < length cs" using cs'(3) less.prems(2) by (auto simp: later_def)
    note peek = peek_no_start [OF cs'(1,2) ns(1)]
    obtain a where p: "vl_vlc_peekbits dbg v' 24 = Some a" "a \<noteq> 1" using peek [of 24 dbg] by auto
    obtain b where q: "vl_vlc_peekbits dbg v' 32 = Some b" "b \<noteq> 1" using peek [of 32 dbg] by auto
    have "0 < length (buf_bits v')" using full_bits [OF cs'(1,2)] by auto
    then obtain w where w: "vl_vlc_eatbits dbg v' 8 = Some w" "byte_state w ds" using eat_byte [OF cs'(1)] by blast
    have "rbsp_find_end dbg (- 1) left w r = Some r" using less.hyps [OF ns(2) w(2)] no_start_Cons [OF ns(1)] by blast
    then show ?thesis using s(1) True p q w(1) by (subst rbsp_find_end.simps) simp
  qed
qed

lemma rbsp_init_plain:
  assumes v: "byte_state v cs" "16 \<le> length (buf_bits v) \<or> vl_data v = vl_end v" and ns: "no_start cs" "clear_at cs 0"
  shows "\<exists>r. vl_rbsp_init dbg v (- 1) = Some r \<and> rb_plain r cs 0 \<and> ready r \<and> vl_same v (rb_nal r)"
proof -
  let ?valid = "vl_vlc_valid_bits v"
  let ?r = "\<lparr>rb_nal = v, rb_escaped = (if 16 \<le> ?valid then 16 else if 8 \<le> ?valid then 8 else 0), rb_removed = 0\<rparr>"
  have r: "rb_plain ?r cs 0" using v(1) by (simp add: rb_plain_def byte_state_def)
  have rdy: "ready ?r" using v valid_bits_nat [of v]
    by (auto simp: ready_def byte_state_def word_le_nat_alt simp del: length_buf_bits)
  have "init_escapes dbg ?valid 24 v = Some v"
    using init_escapes_plain [OF r ns(2), of ?valid 24 dbg] v(1) by (simp add: byte_state_def valid_bits_nat)
  then have "vl_rbsp_init dbg v (- 1) = Some ?r"
    using find_end_ok [OF v(1) ns(1)] by (simp add: vl_rbsp_init_def Let_def)
  then show ?thesis using r rdy by (intro exI [of _ ?r]) simp
qed

definition START_CODE :: bytes where "START_CODE = [0, 0, 0, 1]"

lemma start_code_bits: "bits_of START_CODE = word_bits 32 (1 :: u32)"
proof -
  have "of_be32 0 0 0 1 = 1" by (simp add: of_be32_def)
  then show ?thesis unfolding START_CODE_def by (simp only: word_bits_be32 [symmetric])
qed

lemma skip_startcode_ok:
  "\<exists>v v'. vl_vlc_init align (START_CODE @ nal) (length (START_CODE @ nal)) = Some v \<and> skip_startcode dbg v = Some (True, v')
    \<and> byte_state v' nal \<and> full v' \<and> vl_mem v' = START_CODE @ nal \<and> vl_end v' = length (START_CODE @ nal)"
proof -
  let ?input = "START_CODE @ nal"
  obtain v where v: "vl_vlc_init align ?input (length ?input) = Some v" "byte_state v ?input"
    "vl_mem v = ?input" "vl_end v = length ?input"
    using vl_init_ok [of align ?input] by (auto simp: byte_state_def)
  obtain w where w: "vl_vlc_fillbits v = Some w" "byte_state w ?input" "full w" "vl_same v w"
    using fill_byte_state [OF v(2)] by blast
  have bits: "vl_bits w = word_bits 32 (1 :: u32) @ bits_of nal" using w(2) by (simp add: byte_state_def start_code_bits)
  have len: "32 \<le> length (buf_bits w)" using full_bits [OF w(2,3)] by (auto simp: START_CODE_def)
  obtain x where x: "vl_vlc_peekbits dbg w 32 = Some x"
    "\<And>j. bit x j \<longleftrightarrow> j < 32 \<and> j < 32 \<and> 31 - j < length (vl_bits w) \<and> vl_bits w ! (31 - j)"
    using peek_ok [of w 32 dbg] w(2) len by (auto simp: byte_state_def)
  have "bit x j \<longleftrightarrow> bit (1 :: u32) j" if "j < 32" for j
  proof -
    have "31 - j < 32" "31 - (31 - j) = j" using that by simp_all
    then show ?thesis using x(2) [of j] that unfolding bits by (simp add: nth_append)
  qed
  then have "x = 1" by (intro bit_word_eqI) simp
  then have loop: "skip_startcode_loop dbg 64 w = Some w" using x(1) by (simp add: numeral_eq_Suc)
  obtain a where a: "vl_vlc_eatbits dbg w 32 = Some a" "vl_ok a" "vl_bits a = drop 32 (vl_bits w)" "vl_same w a"
    using eatbits_ok [of w 32 dbg] w(2) len by (auto simp: byte_state_def)
  have "byte_state a nal" using a bits by (simp add: byte_state_def)
  then obtain b where b: "vl_vlc_fillbits a = Some b" "byte_state b nal" "full b" "vl_same a b"
    using fill_byte_state by blast
  have "skip_startcode dbg v = Some (True, b)"
    using w(1) loop x(1) \<open>x = 1\<close> a(1) b(1) by (simp add: skip_startcode_def)
  then show ?thesis using v b w(4) a(4) by (auto simp: vl_same_def)
qed

lemma h265_nal_ok:
  assumes v: "byte_state v nal" "full v" and len: "2 \<le> length nal"
  shows "\<exists>t v'. h265_nal dbg v = Some (t, v') \<and> unat t = bits_num (take 6 (drop 1 (bits_of nal)))
    \<and> byte_state v' (drop 2 nal) \<and> (16 \<le> length (buf_bits v') \<or> vl_data v' = vl_end v') \<and> vl_same v v'"
proof -
  have ok: "vl_ok v" and bits: "vl_bits v = bits_of nal" using v by (simp_all add: byte_state_def)
  have l: "16 \<le> length (buf_bits v)" using full_bits [OF v] len by auto
  have un: "unat (1 :: u32) = 1" "unat (6 :: u32) = 6" "unat (3 :: u32) = 3" by simp_all
  have "1 \<le> length (buf_bits v)" using l by linarith
  then obtain a where a: "vl_vlc_eatbits dbg v 1 = Some a" "vl_ok a" "vl_bits a = drop 1 (vl_bits v)" "vl_same v a"
    "length (buf_bits a) = length (buf_bits v) - 1" by (rule eat_m [OF ok un(1)])
  have "6 \<le> length (buf_bits a)" using l a(5) by linarith
  then obtain t b where b: "vl_vlc_get_uimsbf dbg a 6 = Some (t, b)" "unat t = bits_num (take 6 (vl_bits a))" "vl_ok b"
    "vl_bits b = drop 6 (vl_bits a)" "vl_same a b" "length (buf_bits b) = length (buf_bits a) - 6"
    by (rule get_m [OF a(2) un(2)]) simp_all
  have "6 \<le> length (buf_bits b)" using l a(5) b(6) by linarith
  then obtain c where c: "vl_vlc_eatbits dbg b 6 = Some c" "vl_ok c" "vl_bits c = drop 6 (vl_bits b)" "vl_same b c"
    "length (buf_bits c) = length (buf_bits b) - 6" by (rule eat_m [OF b(3) un(2)])
  have "3 \<le> length (buf_bits c)" using l a(5) b(6) c(5) by linarith
  then obtain d where d: "vl_vlc_eatbits dbg c 3 = Some d" "vl_ok d" "vl_bits d = drop 3 (vl_bits c)" "vl_same c d"
    "length (buf_bits d) = length (buf_bits c) - 3"
    by (rule eat_m [OF c(2) un(3)])
  obtain x y zs where nal: "nal = x # y # zs" using len by (cases nal rule: remdups_adj.cases) auto
  have "byte_state d (drop 2 nal)" using a b c d bits by (simp add: byte_state_def nal)
  moreover have "h265_nal dbg v = Some (t, d)" using a(1) b(1) c(1) d(1) by (simp add: h265_nal_def)
  moreover have "vl_same v d" using a(4) b(5) c(4) d(4) by (simp add: vl_same_def)
  moreover have "16 \<le> length (buf_bits d) \<or> vl_data d = vl_end d"
  proof (cases "32 \<le> length (buf_bits v)")
    case True
    then show ?thesis using a(5) b(6) c(5) d(5) by linarith
  next
    case False
    then have "length (buf_bits v) = 8 * length nal" using full_bits [OF v] by blast
    then have "length (buf_bits d) = 8 * length nal - 16" using a(5) b(6) c(5) d(5) by linarith
    moreover have "length (vl_bits d) = 8 * length nal - 16" using a(3) b(4) c(3) d(3) bits by simp
    ultimately show ?thesis using length_vl_bits [OF d(2)] d(2) by (simp add: vl_ok_def)
  qed
  ultimately show ?thesis using a(3) b(2) bits by (intro exI [of _ t] exI [of _ d]) simp
qed

end
