(* ===== verification/BitstreamSlice.thy ===== *)
theory BitstreamSlice
  imports BitstreamProps
begin

text \<open>
  The H.265 slice header as a parser on a list of bits, the refinement of it by the code, and the patching
  of the reference frame in place.
\<close>

subsection \<open>The parser on bits\<close>

definition read_u :: "u32 \<Rightarrow> bool list \<Rightarrow> (u32 \<times> bool list) option" where
  "read_u n bs = map_option (\<lambda>(x, rest). (of_nat x, rest)) (u_bits (unat n) bs)"

definition read_ue :: "bool list \<Rightarrow> (u32 \<times> bool list) option" where
  "read_ue bs = map_option (\<lambda>(x, rest). (of_nat x, rest)) (ue_bits bs)"

fun skip_fields :: "(u32 + unit) list \<Rightarrow> bool list \<Rightarrow> bool list option" where
  "skip_fields [] b = Some b"
| "skip_fields (Inl n # fs) b = do { (x, b) \<leftarrow> read_u n b; skip_fields fs b }"
| "skip_fields (Inr _ # fs) b = do { (x, b) \<leftarrow> read_ue b; skip_fields fs b }"

fun negative_pics_bits :: "nat \<Rightarrow> nat \<Rightarrow> bool list \<Rightarrow> u32 \<Rightarrow> u32 option" where
  "negative_pics_bits i 0 b ref = Some ref"
| "negative_pics_bits i (Suc n) b ref = do {
     (_, b) \<leftarrow> read_ue b;
     (used, b) \<leftarrow> read_u 1 b;
     if used \<noteq> 0 then Some (of_nat i) else negative_pics_bits (Suc i) n b ref }"

definition nal_type_bits :: "bytes \<Rightarrow> nat" where
  "nal_type_bits nal = bits_num (take 6 (drop 1 (bits_of nal)))"

text \<open>\<open>nal_unit_type\<close> and the bits behind the two bytes of the NAL header.\<close>

definition slice_bits :: "u32 \<Rightarrow> nat \<Rightarrow> bool list \<Rightarrow> bitstream_slice \<Rightarrow> (bool \<times> bitstream_slice) option" where
  "slice_bits log2_minus4 nal_unit_type b s =
     (if nal_unit_type \<noteq> 1 \<and> nal_unit_type \<noteq> 20 then Some (False, s)
      else do {
        (first, b) \<leftarrow> read_u 1 b;
        b \<leftarrow> (if nal_unit_type = 20 then skip_fields [Inl 1] b else Some b);
        b \<leftarrow> skip_fields (if first = 0 then [Inr (), Inr ()] else [Inr ()]) b;
        (t, b) \<leftarrow> read_ue b;
        let s = s\<lparr>sl_type := h265_slice_type t\<rparr>;
        if nal_unit_type \<noteq> 1 then Some (True, s)
        else do {
          let s = s\<lparr>sl_reference_frame := 0xff\<rparr>;
          b \<leftarrow> skip_fields [Inl (log2_minus4 + 4)] b;
          (sps, b) \<leftarrow> read_u 1 b;
          if sps \<noteq> 0 then Some (True, s)
          else do {
            (num_negative_pics, b) \<leftarrow> read_ue b;
            if 16 < num_negative_pics then Some (False, s)
            else do {
              (_, b) \<leftarrow> read_ue b;
              ref \<leftarrow> negative_pics_bits 0 (unat num_negative_pics) b (sl_reference_frame s);
              Some (True, s\<lparr>sl_reference_frame := ref\<rparr>) } } } })"

subsection \<open>Refinement, one step at a time\<close>

definition refines :: "'c option \<Rightarrow> 'a option \<Rightarrow> ('c \<Rightarrow> 'a \<Rightarrow> bool) \<Rightarrow> bool" where
  "refines c a R \<longleftrightarrow> (\<forall>x. a = Some x \<longrightarrow> (\<exists>y. c = Some y \<and> R y x))"

lemma refines_Some [intro]: "R y x \<Longrightarrow> refines (Some y) (Some x) R"
  by (simp add: refines_def)

lemma refines_self [simp]: "refines (Some x) (Some x) (=)"
  by (simp add: refines_def)

lemma refines_None [simp]: "refines c None R"
  by (simp add: refines_def)

lemma refines_bind:
  assumes "refines c a R" "\<And>y x. R y x \<Longrightarrow> refines (f y) (g x) S"
  shows "refines (Option.bind c f) (Option.bind a g) S"
  using assms unfolding refines_def by (fastforce simp: bind_eq_Some_conv)

text \<open>\<open>r\<close> has the bits \<open>b\<close> of the header and behind them the bits \<open>t\<close> of the payload \<open>bs\<close> to read, in the
  buffer \<open>mem\<close>.\<close>

definition reads :: "bytes \<Rightarrow> bool list \<Rightarrow> bytes \<Rightarrow> rbsp \<Rightarrow> bool list \<Rightarrow> bool" where
  "reads bs t mem r b \<longleftrightarrow> (\<exists>k. rb_plain r bs k) \<and> ready r \<and> clear_at bs (8 * length bs - length t)
     \<and> vl_bits (rb_nal r) = b @ t \<and> vl_mem (rb_nal r) = mem \<and> vl_end (rb_nal r) = length mem"

definition field :: "bytes \<Rightarrow> bool list \<Rightarrow> bytes \<Rightarrow> u32 \<times> rbsp \<Rightarrow> u32 \<times> bool list \<Rightarrow> bool" where
  "field bs t mem y x \<longleftrightarrow> fst y = fst x \<and> reads bs t mem (snd y) (snd x)"

lemma reads_clear: "reads bs t mem r b \<Longrightarrow> rb_plain r bs k \<Longrightarrow> clear_at bs k"
proof -
  assume r: "reads bs t mem r b" "rb_plain r bs k"
  have "length (b @ t) = 8 * length bs - k" "k \<le> 8 * length bs" using r by (simp_all add: reads_def rb_plain_def)
  then have "k \<le> 8 * length bs - length t" by simp
  then show ?thesis using clear_at_le r(1) by (auto simp: reads_def)
qed

lemma u_bits_more: "u_bits n b = Some (x, rest) \<Longrightarrow> u_bits n (b @ t) = Some (x, rest @ t)"
  by (auto simp: u_bits_def split: if_splits)

lemma refines_field:
  assumes "refines c a (field bs t mem)" "\<And>x r b. reads bs t mem r b \<Longrightarrow> refines (f (x, r)) (g (x, b)) S"
  shows "refines (Option.bind c f) (Option.bind a g) S"
  by (rule refines_bind [OF assms(1)]) (use assms(2) in \<open>auto simp: field_def\<close>)

lemma refines_u: "reads bs t mem r b \<Longrightarrow> unat n \<le> 16 \<Longrightarrow> refines (vl_rbsp_u dbg r n) (read_u n b) (field bs t mem)"
  unfolding refines_def
proof (intro allI impI)
  fix x assume r: "reads bs t mem r b" "unat n \<le> 16" "read_u n b = Some x"
  then obtain k m rest where k: "rb_plain r bs k" "u_bits (unat n) (vl_bits (rb_nal r)) = Some (m, rest @ t)" "x = (of_nat m, rest)"
    by (auto simp: reads_def read_u_def dest: u_bits_more [of _ _ _ _ t])
  have "ready r" using r(1) by (simp add: reads_def)
  then obtain y r' where "vl_rbsp_u dbg r n = Some (y, r')" "unat y = m" "rb_plain r' bs (k + unat n)" "ready r'"
    "vl_bits (rb_nal r') = rest @ t" "same_nal r r'"
    using rbsp_u_plain [OF k(1) _ reads_clear [OF r(1) k(1)] k(2) r(2)] by blast
  then show "\<exists>y. vl_rbsp_u dbg r n = Some y \<and> field bs t mem y x"
    using k(3) r(1) by (auto simp: field_def reads_def same_nal_def vl_same_def)
qed

lemma zeros_then_one: "takeWhile Not (replicate k False @ True # w) = replicate k False"
  by (induction k) simp_all

lemma ue_bits_more:
  assumes "ue_bits b = Some (x, rest)" shows "ue_bits (b @ t) = Some (x, rest @ t)"
proof -
  let ?k = "length (takeWhile Not b)"
  have k: "?k < 16" "2 * ?k + 1 \<le> length b" using assms by (auto simp: ue_bits_def Let_def split: if_splits)
  have "b = replicate ?k False @ True # drop (?k + 1) b" using k(2) by (intro leading_zeros) simp
  then have "takeWhile Not (b @ t) = replicate ?k False" by (metis append.assoc append_Cons zeros_then_one)
  then have "length (takeWhile Not (b @ t)) = ?k" by simp
  then show ?thesis using assms k by (auto simp: ue_bits_def Let_def)
qed

lemma ue_step:
  assumes r: "reads bs t mem r b" "read_ue b = Some (x, rest)"
  obtains r' k' where "vl_rbsp_ue dbg r = Some (x, r')" "rb_plain r' bs k'" "reads bs t mem r' rest"
    "same_nal r r'"
    "0 < length (buf_bits (rb_nal r')) \<and> 32 \<le> length (buf_bits (rb_nal r')) + k' \<or> vl_data (rb_nal r') = vl_end (rb_nal r')"
proof -
  obtain k m where k: "rb_plain r bs k" "ue_bits (vl_bits (rb_nal r)) = Some (m, rest @ t)" "x = of_nat m"
    using r by (auto simp: reads_def read_ue_def dest: ue_bits_more [of _ _ _ t])
  have rdy: "ready r" and clear: "clear_at bs (8 * length bs - length t)" using r(1) by (simp_all add: reads_def)
  have "8 * length bs \<le> 8 * length bs - length t + length (rest @ t)" by simp
  then obtain y r' k' where y: "vl_rbsp_ue dbg r = Some (y, r')" "unat y = m" "rb_plain r' bs k'" "ready r'"
    "vl_bits (rb_nal r') = rest @ t" "same_nal r r'"
    "0 < length (buf_bits (rb_nal r')) \<and> 32 \<le> length (buf_bits (rb_nal r')) + k' \<or> vl_data (rb_nal r') = vl_end (rb_nal r')"
    using rbsp_ue_plain [OF k(1) rdy k(2) clear] by blast
  moreover have "reads bs t mem r' rest" using y r(1) by (auto simp: reads_def same_nal_def vl_same_def)
  ultimately show thesis using that k(3) by auto
qed

lemma refines_ue: "reads bs t mem r b \<Longrightarrow> refines (vl_rbsp_ue dbg r) (read_ue b) (field bs t mem)"
  unfolding refines_def
proof (intro allI impI)
  fix x assume r: "reads bs t mem r b" "read_ue b = Some x"
  obtain y rest where x: "x = (y, rest)" by (cases x)
  show "\<exists>y. vl_rbsp_ue dbg r = Some y \<and> field bs t mem y x"
    using r x by (auto simp: field_def elim!: ue_step [of bs t mem r b y rest dbg])
qed

lemma refines_skip:
  "reads bs t mem r b \<Longrightarrow> (\<And>n. Inl n \<in> set fs \<Longrightarrow> unat n \<le> 16) \<Longrightarrow> refines (rbsp_skip dbg fs r) (skip_fields fs b) (reads bs t mem)"
proof (induction fs arbitrary: r b)
  case Nil
  then show ?case by auto
next
  case (Cons f fs)
  then show ?case
    by (cases f) (auto intro!: refines_field [OF refines_u] refines_field [OF refines_ue])
qed

lemma refines_negative_pics:
  "reads bs t mem r b \<Longrightarrow> refines (h265_negative_pics dbg i n r ref) (negative_pics_bits i n b ref) (=)"
proof (induction n arbitrary: r b i)
  case (Suc n)
  show ?case unfolding h265_negative_pics.simps negative_pics_bits.simps
    by (rule refines_field [OF refines_ue [OF Suc.prems]])
      (auto intro!: refines_field [OF refines_u] Suc.IH)
qed auto

text \<open>What the code does before the payload of a unit, the header \<open>h\<close> of the slice and what follows it.\<close>

lemma slice_start:
  assumes len: "length nh = 2" and plain: "no_start (h @ rest)" "no_escape (h @ take 8 rest)"
  obtains v v' t w r where "vl_vlc_init align (START_CODE @ nh @ h @ rest) (length (START_CODE @ nh @ h @ rest)) = Some v"
    "skip_startcode dbg v = Some (True, v')" "h265_nal dbg v' = Some (t, w)" "vl_rbsp_init dbg w (- 1) = Some r"
    "t = 1 \<longleftrightarrow> nal_type_bits nh = 1" "t = 20 \<longleftrightarrow> nal_type_bits nh = 20"
    "reads (h @ rest) (bits_of rest) (START_CODE @ nh @ h @ rest) r (bits_of h)"
proof -
  let ?nal = "nh @ h @ rest"
  have nal: "2 \<le> length ?nal" "drop 2 ?nal = h @ rest" using len by simp_all
  obtain v v' where v: "vl_vlc_init align (START_CODE @ ?nal) (length (START_CODE @ ?nal)) = Some v"
    "skip_startcode dbg v = Some (True, v')" "byte_state v' ?nal" "full v'"
    "vl_mem v' = START_CODE @ ?nal" "vl_end v' = length (START_CODE @ ?nal)" using skip_startcode_ok by blast
  obtain t w where w: "h265_nal dbg v' = Some (t, w)" "unat t = bits_num (take 6 (drop 1 (bits_of ?nal)))"
    "byte_state w (h @ rest)" "16 \<le> length (buf_bits w) \<or> vl_data w = vl_end w" "vl_same v' w"
    using h265_nal_ok [OF v(3,4) nal(1), unfolded nal(2)] by blast
  have type: "unat t = nal_type_bits nh" using w(2) len by (simp add: nal_type_bits_def)
  have clear: "clear_at (h @ rest) (8 * length h)" using plain(2) by (simp add: clear_at_def)
  obtain r where r: "vl_rbsp_init dbg w (- 1) = Some r" "rb_plain r (h @ rest) 0" "ready r" "vl_same w (rb_nal r)"
    using rbsp_init_plain [OF w(3,4) plain(1) clear_at_le [OF clear]] by blast
  have "reads (h @ rest) (bits_of rest) (START_CODE @ ?nal) r (bits_of h)"
    using r(2,3,4) w(5) v(5,6) exI [of "rb_plain r (h @ rest)" 0] clear
    by (simp add: reads_def vl_same_def) (simp add: rb_plain_def)
  moreover have "t = 1 \<longleftrightarrow> nal_type_bits nh = 1" "t = 20 \<longleftrightarrow> nal_type_bits nh = 20"
    using type by (auto simp: word_unat_eq_iff)
  ultimately show thesis using that v w r by blast
qed

lemma log2_fits: "x \<le> 12 \<Longrightarrow> unat (x + 4 :: u32) \<le> 16"
  using u32_add_small [of x 4] by (simp add: word_le_nat_alt)

lemma slice_h265_spec:
  assumes len: "length nh = 2" and plain: "no_start (h @ rest)" "no_escape (h @ take 8 rest)"
    and log2: "bs_log2_minus4 bs \<le> 12"
    and spec: "slice_bits (bs_log2_minus4 bs) (nal_type_bits nh) (bits_of h) s = Some res"
  shows "slice_h265 dbg align bs (START_CODE @ nh @ h @ rest) s = Some res"
proof -
  let ?nal = "nh @ h @ rest"
  obtain v v' t w r where st: "vl_vlc_init align (START_CODE @ ?nal) (length (START_CODE @ ?nal)) = Some v"
    "skip_startcode dbg v = Some (True, v')" "h265_nal dbg v' = Some (t, w)" "vl_rbsp_init dbg w (- 1) = Some r"
    "t = 1 \<longleftrightarrow> nal_type_bits nh = 1" "t = 20 \<longleftrightarrow> nal_type_bits nh = 20"
    "reads (h @ rest) (bits_of rest) (START_CODE @ ?nal) r (bits_of h)"
    using slice_start [OF len plain] by blast
  have "refines (slice_h265 dbg align bs (START_CODE @ ?nal) s)
      (slice_bits (bs_log2_minus4 bs) (nal_type_bits nh) (bits_of h) s) (=)"
    unfolding slice_h265_def slice_bits_def Let_def
    using st(1-4,7) log2_fits [OF log2]
    by (auto simp: st(5,6) split: if_splits intro!: refines_field [OF refines_u] refines_field [OF refines_ue]
        refines_bind [OF refines_skip] refines_bind [OF refines_negative_pics])
  then show ?thesis using spec by (auto simp: refines_def)
qed

text \<open>C26. The H.265 slice parser computes the plain reading of the slice header: a unit of two bytes of NAL
  header \<open>nh\<close>, of the bytes \<open>h\<close> the slice header lies in and of any bytes after them gives, whatever the
  alignment of its buffer and with or without assertions, what the parser on the list of the bits of \<open>h\<close>
  returns.  The conditions: no further start code follows in the buffer; the bytes 0, 0 and 3 do not follow
  each other in \<open>h\<close> and the eight bytes behind it, which is how far the code looks ahead (there is no
  condition on the rest); the order count has at most 16 bits; and the bits of \<open>h\<close> suffice, where the
  parser on bits takes an Exp-Golomb code with at most 15 leading zeros.\<close>

theorem slice_h265_refines:
  assumes len: "length nh = 2" and plain: "no_start (h @ rest)" "no_escape (h @ take 8 rest)"
    and log2: "bs_log2_minus4 bs \<le> 12"
    and spec: "slice_bits (bs_log2_minus4 bs) (nal_type_bits nh) (bits_of h) s = Some res"
  shows "slice_h265 dbg align bs (START_CODE @ nh @ h @ rest) s = Some res"
  by (rule slice_h265_spec [OF assms])

lemma no_start_simps:
  "no_start []" "no_start [a]" "no_start [a, b]"
  "no_start (a # b # c # bs) \<longleftrightarrow> \<not> (a = 0 \<and> b = 0 \<and> c = 1) \<and> no_start (b # c # bs)"
proof -
  show "no_start (a # b # c # bs) \<longleftrightarrow> \<not> (a = 0 \<and> b = 0 \<and> c = 1) \<and> no_start (b # c # bs)" (is "?l = ?r")
  proof
    assume l: ?l
    have "\<not> ((b # c # bs) ! i = 0 \<and> (b # c # bs) ! (i + 1) = 0 \<and> (b # c # bs) ! (i + 2) = 1)"
      if "i + 2 < length (b # c # bs)" for i
      using l [unfolded no_start_def, rule_format, of "Suc i"] that by simp
    then show ?r using l [unfolded no_start_def, rule_format, of 0] by (simp add: no_start_def)
  next
    assume r: ?r
    show ?l unfolding no_start_def
    proof (intro allI impI)
      fix i assume "i + 2 < length (a # b # c # bs)"
      then show "\<not> ((a # b # c # bs) ! i = 0 \<and> (a # b # c # bs) ! (i + 1) = 0 \<and> (a # b # c # bs) ! (i + 2) = 1)"
        using r unfolding no_start_def by (cases i) auto
    qed
  qed
qed (simp_all add: no_start_def)

lemma no_escape_simps:
  "no_escape []" "no_escape [a]" "no_escape [a, b]"
  "no_escape (a # b # c # bs) \<longleftrightarrow> \<not> (a = 0 \<and> b = 0 \<and> c = 3) \<and> no_escape (b # c # bs)"
proof -
  show "no_escape (a # b # c # bs) \<longleftrightarrow> \<not> (a = 0 \<and> b = 0 \<and> c = 3) \<and> no_escape (b # c # bs)" (is "?l = ?r")
  proof
    assume l: ?l
    have "\<not> ((b # c # bs) ! i = 0 \<and> (b # c # bs) ! (i + 1) = 0 \<and> (b # c # bs) ! (i + 2) = 3)"
      if "i + 2 < length (b # c # bs)" for i
      using l [unfolded no_escape_def, rule_format, of "Suc i"] that by simp
    then show ?r using l [unfolded no_escape_def, rule_format, of 0] by (simp add: no_escape_def)
  next
    assume r: ?r
    show ?l unfolding no_escape_def
    proof (intro allI impI)
      fix i assume "i + 2 < length (a # b # c # bs)"
      then show "\<not> ((a # b # c # bs) ! i = 0 \<and> (a # b # c # bs) ! (i + 1) = 0 \<and> (a # b # c # bs) ! (i + 2) = 3)"
        using r unfolding no_escape_def by (cases i) auto
    qed
  qed
qed (simp_all add: no_escape_def)

text \<open>The first bytes of a P slice of the unit tests: the NAL header and the header of the slice.\<close>

definition test_nal_header :: bytes where
  "test_nal_header = [0x02, 0x01]"

definition test_p_header :: bytes where
  "test_p_header = [0xd2, 0x85, 0x7a, 0xaa, 0xa6, 0x08, 0x60, 0x13, 0x55, 0x17]"

lemma test_p_header_ok: "length test_nal_header = 2" "nal_type_bits test_nal_header = 1"
  "2 \<le> length test_p_header" "no_start test_p_header" "no_escape test_p_header"
proof -
  show "no_start test_p_header" by (simp add: test_p_header_def no_start_simps)
  show "no_escape test_p_header" by (simp add: test_p_header_def no_escape_simps)
qed (simp add: test_p_header_def test_nal_header_def | code_simp)+

text \<open>Slice data with bytes 3 and, further behind, an emulation prevention byte.\<close>

definition test_slice_data :: bytes where
  "test_slice_data = [3, 0, 3, 5, 7, 9, 11, 13, 0, 0, 3, 0]"

lemma test_slice_data_ok: "no_start (test_p_header @ test_slice_data)" "no_escape (test_p_header @ take 8 test_slice_data)"
  by (simp_all add: test_p_header_def test_slice_data_def no_start_simps no_escape_simps)

lemma test_p_slice_bits:
  "slice_bits 0 1 (bits_of test_p_header) \<lparr>sl_type = CHIAKI_BITSTREAM_SLICE_I, sl_reference_frame = 7\<rparr>
     = Some (True, \<lparr>sl_type = CHIAKI_BITSTREAM_SLICE_P, sl_reference_frame = 0\<rparr>)"
  by code_simp

lemma slice_h265_refines_witness:
  "slice_h265 True 3 \<lparr>bs_codec = CHIAKI_CODEC_H265, bs_log2_minus4 = 0\<rparr>
     (START_CODE @ test_nal_header @ test_p_header @ test_slice_data)
     \<lparr>sl_type = CHIAKI_BITSTREAM_SLICE_I, sl_reference_frame = 7\<rparr>
   = Some (True, \<lparr>sl_type = CHIAKI_BITSTREAM_SLICE_P, sl_reference_frame = 0\<rparr>)"
  by (rule slice_h265_refines) (simp_all add: test_p_header_ok test_slice_data_ok test_p_slice_bits [simplified])

subsection \<open>Patching the reference frame\<close>

text \<open>The header of a P slice up to the list of pictures before it: the number of them.\<close>

definition slice_prefix :: "u32 \<Rightarrow> bool list \<Rightarrow> (u32 \<times> bool list) option" where
  "slice_prefix log2_minus4 b = do {
     (first, b) \<leftarrow> read_u 1 b;
     b \<leftarrow> skip_fields (if first = 0 then [Inr (), Inr ()] else [Inr ()]) b;
     (t, b) \<leftarrow> read_ue b;
     if t \<noteq> 1 then None
     else do {
       b \<leftarrow> skip_fields [Inl (log2_minus4 + 4)] b;
       (sps, b) \<leftarrow> read_u 1 b;
       if sps \<noteq> 0 then None
       else do {
         (num_negative_pics, b) \<leftarrow> read_ue b;
         if 16 < num_negative_pics then None
         else do { (_, b) \<leftarrow> read_ue b; Some (num_negative_pics, b) } } } }"

text \<open>The flags of the pictures, up to the one wanted, are set to false, its own to true.\<close>

fun set_used_bits :: "nat \<Rightarrow> nat \<Rightarrow> u32 \<Rightarrow> bool list \<Rightarrow> (bool \<times> bool list) option" where
  "set_used_bits i 0 ref b = Some (False, b)"
| "set_used_bits i (Suc n) ref b = do {
     (_, b') \<leftarrow> read_ue b;
     (case b' of [] \<Rightarrow> None
      | _ # rest \<Rightarrow>
          let front = take (length b - length b') b in
          if of_nat i = ref then Some (True, front @ True # rest)
          else do { (f, rest) \<leftarrow> set_used_bits (Suc i) n ref rest; Some (f, front @ False # rest) }) }"

definition set_reference_bits :: "u32 \<Rightarrow> u32 \<Rightarrow> bool list \<Rightarrow> (bool \<times> bool list) option" where
  "set_reference_bits log2_minus4 ref b = do {
     (n, b') \<leftarrow> slice_prefix log2_minus4 b;
     (f, b2) \<leftarrow> set_used_bits 0 (unat n) ref b';
     Some (f, take (length b - length b') b @ b2) }"

text \<open>A parser reads a front of its input and does not look at the rest.\<close>

definition local_parser :: "(bool list \<Rightarrow> ('a \<times> bool list) option) \<Rightarrow> bool" where
  "local_parser p \<longleftrightarrow> (\<forall>b x b'. p b = Some (x, b') \<longrightarrow>
     (\<exists>front. b = front @ b' \<and> (\<forall>z. p (front @ z) = Some (x, z))))"

lemma local_parserE:
  assumes "local_parser p" "p b = Some (x, b')"
  obtains front where "b = front @ b'" "\<And>z. p (front @ z) = Some (x, z)"
  using assms unfolding local_parser_def by blast

lemma local_read_u: "local_parser (read_u n)"
  unfolding local_parser_def
proof (intro allI impI)
  fix b x b' assume "read_u n b = Some (x, b')"
  then have "unat n \<le> length b" "b' = drop (unat n) b" "x = of_nat (bits_num (take (unat n) b))"
    by (auto simp: read_u_def u_bits_def split: if_splits)
  then show "\<exists>front. b = front @ b' \<and> (\<forall>z. read_u n (front @ z) = Some (x, z))"
    by (intro exI [of _ "take (unat n) b"]) (simp add: read_u_def u_bits_def)
qed

lemma local_read_ue: "local_parser read_ue"
  unfolding local_parser_def
proof (intro allI impI)
  fix b x b' assume r: "read_ue b = Some (x, b')"
  let ?k = "length (takeWhile Not b)"
  have k: "?k < 16" "2 * ?k + 1 \<le> length b" "b' = drop (2 * ?k + 1) b"
    "x = of_nat (2 ^ ?k - 1 + bits_num (take ?k (drop (?k + 1) b)))"
    using r by (auto simp: read_ue_def ue_bits_def Let_def split: if_splits)
  let ?front = "take (2 * ?k + 1) b"
  have lz: "b = replicate ?k False @ True # drop (?k + 1) b" using k(2) by (intro leading_zeros) simp
  have front: "?front = replicate ?k False @ True # take ?k (drop (?k + 1) b)"
    using arg_cong [OF lz, of "take (2 * ?k + 1)"] by (simp add: take_drop)
  have "read_ue (?front @ z) = Some (x, z)" for z
  proof -
    have "takeWhile Not (?front @ z) = replicate ?k False" unfolding front by (simp add: zeros_then_one)
    then have t: "length (takeWhile Not (?front @ z)) = ?k" by simp
    have "take ?k (drop (?k + 1) (?front @ z)) = take ?k (drop (?k + 1) b)"
      using k(2) unfolding front by simp
    moreover have "drop (2 * ?k + 1) (?front @ z) = z" using k(2) by simp
    ultimately show ?thesis using k(1,2,4) unfolding read_ue_def ue_bits_def Let_def t by simp
  qed
  then show "\<exists>front. b = front @ b' \<and> (\<forall>z. read_ue (front @ z) = Some (x, z))"
    using k(3) by (intro exI [of _ ?front]) simp
qed

lemma local_None [simp]: "local_parser (\<lambda>b. None)"
  by (simp add: local_parser_def)

lemma local_Some [simp]: "local_parser (\<lambda>b. Some (x, b))"
  by (simp add: local_parser_def)

lemma local_bind:
  assumes p: "local_parser p" and q: "\<And>x. local_parser (q x)"
  shows "local_parser (\<lambda>b. Option.bind (p b) (\<lambda>(x, b). q x b))"
  unfolding local_parser_def
proof (intro allI impI)
  fix b y b2 assume "Option.bind (p b) (\<lambda>(x, b). q x b) = Some (y, b2)"
  then obtain x b1 where pq: "p b = Some (x, b1)" "q x b1 = Some (y, b2)" by (auto simp: bind_eq_Some_conv)
  obtain f g where f: "b = f @ b1" "\<And>z. p (f @ z) = Some (x, z)" and g: "b1 = g @ b2" "\<And>z. q x (g @ z) = Some (y, z)"
    using local_parserE [OF p pq(1)] local_parserE [OF q pq(2)] by metis
  show "\<exists>front. b = front @ b2 \<and> (\<forall>z. Option.bind (p (front @ z)) (\<lambda>(x, b). q x b) = Some (y, z))"
    using f g by (intro exI [of _ "f @ g"]) simp
qed

lemma local_skip:
  assumes "\<And>b. local_parser q"
  shows "local_parser (\<lambda>b. Option.bind (skip_fields fs b) q)"
  using assms
proof (induction fs)
  case (Cons f fs)
  then show ?case
    by (cases f) (auto intro!: local_bind [of "read_u _" "\<lambda>_ b. Option.bind (skip_fields fs b) q", unfolded split_def]
        local_bind [of read_ue "\<lambda>_ b. Option.bind (skip_fields fs b) q", unfolded split_def] local_read_u local_read_ue simp: split_def)
qed simp

lemma local_if: "local_parser p \<Longrightarrow> local_parser q \<Longrightarrow> local_parser (\<lambda>b. if c then p b else q b)"
  by (cases c) simp_all

lemma local_slice_prefix: "local_parser (slice_prefix log2)"
  unfolding slice_prefix_def
  by (intro local_bind local_skip local_if local_read_u local_read_ue local_None local_Some)

lemma set_used_reads_back:
  "set_used_bits i n ref b = Some (True, b2) \<Longrightarrow> negative_pics_bits i n b2 x = Some ref"
proof (induction i n ref b arbitrary: b2 rule: set_used_bits.induct)
  case (2 i n ref b)
  obtain y c rest where r: "read_ue b = Some (y, c # rest)"
  proof -
    obtain y b' where r: "read_ue b = Some (y, b')" using 2(2) by (auto simp: bind_eq_Some_conv)
    then have "b' \<noteq> []" using 2(2) by auto
    then show ?thesis using that r by (cases b') auto
  qed
  obtain front where front: "b = front @ c # rest" "\<And>z. read_ue (front @ z) = Some (y, z)"
    using local_parserE [OF local_read_ue r] by metis
  have one: "read_u 1 (d # rest') = Some (of_bool d, rest')" for d rest' by (simp add: read_u_def u_bits_def)
  have t: "take (length b - length (c # rest)) b = front" using front(1) by simp
  show ?case
  proof (cases "of_nat i = ref")
    case True
    then have "b2 = front @ True # rest" using 2(2) r t by simp
    then show ?thesis using front(2) one True by simp
  next
    case False
    then obtain w where w: "set_used_bits (Suc i) n ref rest = Some (True, w)" "b2 = front @ False # w"
      using 2(2) r t by (auto simp: bind_eq_Some_conv)
    have "negative_pics_bits (Suc i) n w x = Some ref" using 2(1) [OF r _ refl _ False w(1)] r by simp
    then show ?thesis using front(2) one w(2) by simp
  qed
qed simp

lemma slice_bits_prefix:
  assumes "slice_prefix log2 b = Some (n, b')"
  shows "slice_bits log2 1 b s = do {
    ref \<leftarrow> negative_pics_bits 0 (unat n) b' 0xff;
    Some (True, s\<lparr>sl_type := CHIAKI_BITSTREAM_SLICE_P, sl_reference_frame := ref\<rparr>) }"
  using assms unfolding slice_prefix_def slice_bits_def Let_def
  by (auto simp: bind_eq_Some_conv h265_slice_type_def split: if_splits)

lemma bits_of_be32: "bits_of (be32 w) = word_bits 32 w"
  unfolding be32_def by (simp only: word_bits_be32 [symmetric] of_be32_be32)

lemma word_bits_join: "word_bits 64 (ucast (lo :: u32) OR push_bit 32 (ucast (h :: u32)) :: u64) = word_bits 32 h @ word_bits 32 lo"
proof (rule nth_equalityI)
  fix i assume "i < length (word_bits 64 (ucast lo OR push_bit 32 (ucast h) :: u64))"
  then have i: "i < 64" by simp
  show "word_bits 64 (ucast lo OR push_bit 32 (ucast h) :: u64) ! i = (word_bits 32 h @ word_bits 32 lo) ! i"
  proof (cases "i < 32")
    case True
    then have "63 - i - 32 = 31 - i" "32 \<le> 63 - i" "63 - i < 64" "31 - i < 64" "\<not> bit lo (63 - i)" by (auto dest: bit_imp_le_length)
    then show ?thesis using True by (simp add: nth_append bit_simps)
  next
    case False
    then have "63 - i = 31 - (i - 32)" "\<not> 32 \<le> 63 - i" "63 - i < 64" "i - 32 < 32" using i by auto
    then show ?thesis using False i by (simp add: nth_append bit_simps)
  qed
qed simp

lemma word_bits_split:
  "bits_of (be32 (ucast (drop_bit 32 X)) @ be32 (ucast (X AND 0xffffffff))) = word_bits 64 (X :: u64)"
proof -
  have m: "(0xffffffff :: u64) = mask 32" by (simp add: mask_eq_exp_minus_1)
  have "ucast (ucast (X AND 0xffffffff) :: u32) OR push_bit 32 (ucast (ucast (drop_bit 32 X) :: u32)) = X"
    unfolding m by (rule bit_word_eqI) (auto simp: bit_simps)
  then show ?thesis using word_bits_join [of "ucast (X AND 0xffffffff)" "ucast (drop_bit 32 X)"]
    by (simp add: bits_of_be32)
qed

lemma word_bits_update:
  assumes "n < 64"
  shows "(word_bits 64 X)[63 - n := b] =
    word_bits 64 (if b then X OR push_bit n 1 else X AND NOT (push_bit n 1) :: u64)"
proof (rule nth_equalityI)
  fix i assume "i < length ((word_bits 64 X)[63 - n := b])"
  then have i: "i < 64" by simp
  have "63 - n = i \<longleftrightarrow> n = 63 - i" "63 - i < 64" using i assms by auto
  then show "(word_bits 64 X)[63 - n := b] ! i =
      word_bits 64 (if b then X OR push_bit n 1 else X AND NOT (push_bit n 1) :: u64) ! i"
    using i by (auto simp: nth_list_update bit_simps bit_1_iff)
qed simp

lemma set_used_bit_ok:
  assumes ok: "vl_ok v" and d: "8 \<le> vl_data v" and n: "0 < length (buf_bits v)"
  shows "\<exists>mem'. set_used_bit v b = Some (v\<lparr>vl_mem := mem'\<rparr>) \<and> length mem' = length (vl_mem v)
    \<and> bits_of mem' = (bits_of (vl_mem v))[8 * vl_data v - length (buf_bits v) := b]
    \<and> drop (vl_data v) mem' = drop (vl_data v) (vl_mem v)"
proof -
  let ?m = "vl_mem v" and ?d = "vl_data v"
  define k where "k = length (buf_bits v) - 1"
  have k: "k < 64" "int k = 31 - vl_invalid v" "length (buf_bits v) = Suc k"
    using ok n by (auto simp: k_def vl_ok_def)
  have len: "?d \<le> length ?m" using ok by (simp add: vl_ok_def)
  define a where "a i = ?m ! (?d - 8 + i)" for i
  have "length (take 8 (drop (?d - 8) ?m)) = 8" using d len by simp
  then have eight: "take 8 (drop (?d - 8) ?m) = [a 0, a 1, a 2, a 3, a 4, a 5, a 6, a 7]"
  proof -
    have "take 8 (drop (?d - 8) ?m) = map a [0..<8]"
      using d len by (intro nth_equalityI) (simp_all add: a_def)
    then show ?thesis by (simp add: upt_conv_Cons numeral_eq_Suc)
  qed
  have mem: "?m = take (?d - 8) ?m @ [a 0, a 1, a 2, a 3, a 4, a 5, a 6, a 7] @ drop ?d ?m"
  proof -
    have "drop 8 (drop (?d - 8) ?m) = drop ?d ?m" using d by simp
    then show ?thesis using eight append_take_drop_id [of "?d - 8" ?m] append_take_drop_id [of 8 "drop (?d - 8) ?m"] by metis
  qed
  let ?h = "of_be32 (a 0) (a 1) (a 2) (a 3)" and ?l = "of_be32 (a 4) (a 5) (a 6) (a 7)"
  have rd: "rd32be ?m (?d - 8) = Some ?h" "rd32be ?m (?d - 4) = Some ?l"
  proof -
    have "?d - 8 + 4 = ?d - 4" "?d - 8 + 5 = ?d - 4 + 1" "?d - 8 + 6 = ?d - 4 + 2" "?d - 8 + 7 = ?d - 4 + 3" using d by auto
    then show "rd32be ?m (?d - 8) = Some ?h" "rd32be ?m (?d - 4) = Some ?l"
      using d len unfolding a_def by (simp_all add: rd32be_def)
  qed
  let ?X = "ucast ?l OR push_bit 32 (ucast ?h) :: u64"
  let ?Y = "if b then ?X OR push_bit k 1 else ?X AND NOT (push_bit k 1)"
  let ?hi = "be32 (ucast (drop_bit 32 ?Y))" and ?lo = "be32 (ucast (?Y AND 0xffffffff))"
  let ?mem = "take (?d - 8) ?m @ ?hi @ ?lo @ drop ?d ?m"
  have X: "word_bits 64 ?X = bits_of [a 0, a 1, a 2, a 3, a 4, a 5, a 6, a 7]"
    unfolding word_bits_join word_bits_be32 by simp
  have sh: "shl64 1 (64 - 1 - (64 - (32 - vl_invalid v))) = Some (push_bit k 1)"
    using k(1) k(2) [symmetric] by (simp add: shl64_def)
  have wr: "wr_slice ?m (?d - 8) ?hi = Some (take (?d - 8) ?m @ ?hi @ drop (?d - 4) ?m)"
    using d len by (subst wr_slice_in) auto
  have wr2: "wr_slice (take (?d - 8) ?m @ ?hi @ drop (?d - 4) ?m) (?d - 4) ?lo = Some ?mem"
    using d len by (subst wr_slice_in) auto
  have s: "set_used_bit v b = Some (v\<lparr>vl_mem := ?mem\<rparr>)"
  proof -
    have "\<not> ?d < 8" using d by simp
    then show ?thesis unfolding set_used_bit_def Let_def by (simp only: rd sh wr wr2 if_False bind.bind_lunit)
  qed
  have "bits_of ?mem = bits_of (take (?d - 8) ?m) @ word_bits 64 ?Y @ bits_of (drop ?d ?m)"
    using word_bits_split [of ?Y] by simp
  also have "word_bits 64 ?Y = (word_bits 64 ?X)[63 - k := b]" by (rule word_bits_update [OF k(1), symmetric])
  also have "bits_of (take (?d - 8) ?m) @ (word_bits 64 ?X)[63 - k := b] @ bits_of (drop ?d ?m)
      = (bits_of (take (?d - 8) ?m) @ word_bits 64 ?X @ bits_of (drop ?d ?m))[8 * ?d - Suc k := b]"
  proof -
    have "8 * ?d - Suc k = length (bits_of (take (?d - 8) ?m)) + (63 - k)" using d len k(1) by simp
    moreover have "63 - k < length (word_bits 64 ?X)" by simp
    ultimately show ?thesis by (simp add: list_update_append)
  qed
  also have "bits_of (take (?d - 8) ?m) @ word_bits 64 ?X @ bits_of (drop ?d ?m) = bits_of ?m"
    using arg_cong [OF mem, of bits_of] by (simp only: X bits_of_append)
  finally have bits: "bits_of ?mem = (bits_of ?m)[8 * ?d - length (buf_bits v) := b]" using k(3) by simp
  have "length ?mem = length ?m" "drop ?d ?mem = drop ?d ?m" using d len by simp_all
  then show ?thesis using s bits by blast
qed

lemma mem_changed:
  assumes "reads bs t mem r b" "length mem' = length mem" "drop (vl_data (rb_nal r)) mem' = drop (vl_data (rb_nal r)) mem"
  shows "reads bs t mem' (r\<lparr>rb_nal := (rb_nal r)\<lparr>vl_mem := mem'\<rparr>\<rparr>) b"
  using assms by (auto simp: reads_def rb_plain_def ready_def vl_ok_def vl_bits_def buf_bits_def) metis+

lemma set_used_loop:
  "reads bs t mem r b \<Longrightarrow> length mem = 6 + length bs \<Longrightarrow> 2 \<le> length bs \<Longrightarrow>
   bits_of mem = pre @ b @ t \<Longrightarrow> set_used_bits i n ref b = Some (f, b2) \<Longrightarrow>
     \<exists>mem'. h265_set_used dbg i n ref r = Some (f, mem') \<and> length mem' = length mem \<and> bits_of mem' = pre @ b2 @ t"
proof (induction n arbitrary: i r b mem pre b2 f)
  case 0
  then show ?case by (simp add: reads_def)
next
  case (Suc n)
  obtain y c rest where ue: "read_ue b = Some (y, c # rest)"
  proof -
    obtain y b' where r: "read_ue b = Some (y, b')" using Suc.prems(5) by (auto simp: bind_eq_Some_conv)
    then have "b' \<noteq> []" using Suc.prems(5) by auto
    then show ?thesis using that r by (cases b') auto
  qed
  obtain front where front: "b = front @ c # rest" using local_parserE [OF local_read_ue ue] by metis
  then have t: "take (length b - length (c # rest)) b = front" by simp
  obtain r' k' where z: "vl_rbsp_ue dbg r = Some (y, r')" "rb_plain r' bs k'" "reads bs t mem r' (c # rest)"
    "0 < length (buf_bits (rb_nal r')) \<and> 32 \<le> length (buf_bits (rb_nal r')) + k' \<or> vl_data (rb_nal r') = vl_end (rb_nal r')"
    by (rule ue_step [OF Suc.prems(1) ue])
  let ?v = "rb_nal r'" and ?N = "length mem" and ?b = "(c # rest) @ t"
  have v: "vl_ok ?v" "vl_mem ?v = mem" "vl_end ?v = ?N" "vl_bits ?v = ?b" using z(3) by (auto simp: reads_def rb_plain_def)
  have kk: "length ?b = 8 * length bs - k'" "k' \<le> 8 * length bs"
    using z(2) v(4) by (simp_all add: rb_plain_def)
  have L: "length (buf_bits ?v) + 8 * (?N - vl_data ?v) = length ?b"
    using length_vl_bits [OF v(1)] by (simp add: v(3,4))
  have de: "vl_data ?v \<le> ?N" using v by (simp add: vl_ok_def)
  have pos: "8 * vl_data ?v = 48 + k' + length (buf_bits ?v)" using L kk de Suc.prems(2) by linarith
  have "0 < length ?b" by simp
  then have d8: "8 \<le> vl_data ?v" "0 < length (buf_bits ?v)"
    using z(4) pos v(3) Suc.prems(2,3) L by (auto simp del: length_buf_bits)
  have idx: "8 * vl_data ?v - length (buf_bits ?v) = 8 * ?N - length ?b" using pos kk Suc.prems(2) by linarith
  obtain mem1 where m1: "set_used_bit ?v (of_nat i = ref) = Some (?v\<lparr>vl_mem := mem1\<rparr>)" "length mem1 = ?N"
    "bits_of mem1 = (bits_of mem)[8 * ?N - length ?b := (of_nat i = ref)]"
    "drop (vl_data ?v) mem1 = drop (vl_data ?v) mem"
    using set_used_bit_ok [OF v(1) d8, of "of_nat i = ref"] unfolding v(2) idx by blast
  have all: "bits_of mem = (pre @ front) @ c # rest @ t" using Suc.prems(4) front by simp
  have upd: "bits_of mem1 = (pre @ front @ [of_nat i = ref]) @ rest @ t"
  proof -
    have "8 * ?N = length (bits_of mem)" by (rule length_bits_of [symmetric])
    then have "8 * ?N - length ?b = length (pre @ front)" unfolding all by simp
    then show ?thesis unfolding m1(3) all by (simp add: list_update_append)
  qed
  show ?case
  proof (cases "of_nat i = ref")
    case True
    then have "b2 = front @ True # rest" "f = True" using Suc.prems(5) ue t by simp_all
    moreover have "h265_set_used dbg i (Suc n) ref r = Some (True, mem1)" using z(1) m1(1) True by simp
    ultimately show ?thesis using upd True m1(2) by simp
  next
    case False
    then obtain w where w: "set_used_bits (Suc i) n ref rest = Some (f, w)" "b2 = front @ False # w"
      using Suc.prems(5) ue t by (auto simp: bind_eq_Some_conv)
    let ?r = "r'\<lparr>rb_nal := ?v\<lparr>vl_mem := mem1\<rparr>\<rparr>"
    have rd1: "reads bs t mem1 ?r (c # rest)" by (rule mem_changed [OF z(3) m1(2,4)])
    have "read_u 1 (c # rest) = Some (of_bool c, rest)" by (simp add: read_u_def u_bits_def)
    then obtain q where q: "vl_rbsp_u dbg ?r 1 = Some q" "field bs t mem1 q (of_bool c, rest)"
      using refines_u [OF rd1, of 1 dbg] by (auto simp: refines_def)
    then have rd2: "reads bs t mem1 (snd q) rest" by (simp add: field_def)
    from Suc.IH [OF rd2 _ Suc.prems(3) upd w(1)] m1(2) Suc.prems(2) obtain mem' where
      mem': "h265_set_used dbg (Suc i) n ref (snd q) = Some (f, mem')" "length mem' = length mem1"
      "bits_of mem' = (pre @ front @ [of_nat i = ref]) @ w @ t" by auto
    have "h265_set_used dbg i (Suc n) ref r = Some (f, mem')"
      using z(1) m1(1) False q(1) mem'(1) by (simp add: split_def)
    then show ?thesis using mem'(2,3) m1(2) w(2) False by simp
  qed
qed

text \<open>The code up to the list of pictures.\<close>

lemma set_reference_h265_core:
  assumes len: "length nh = 2" "2 \<le> length (h @ rest)" and plain: "no_start (h @ rest)" "no_escape (h @ take 8 rest)"
    and type: "nal_type_bits nh = 1" and log2: "bs_log2_minus4 bs \<le> 12"
    and pre: "slice_prefix (bs_log2_minus4 bs) (bits_of h) = Some (n, b')" "bits_of h = front @ b'"
    and set: "set_used_bits 0 (unat n) ref b' = Some (f, b2)"
  shows "\<exists>mem'. slice_set_reference_frame_h265 dbg align bs (START_CODE @ nh @ h @ rest) ref = Some (f, mem')
    \<and> length mem' = length (START_CODE @ nh @ h @ rest)
    \<and> bits_of mem' = (bits_of (START_CODE @ nh) @ front) @ b2 @ bits_of rest"
proof -
  let ?mem = "START_CODE @ nh @ h @ rest" and ?bs = "h @ rest" and ?t = "bits_of rest"
  obtain v v' t w r where st: "vl_vlc_init align ?mem (length ?mem) = Some v"
    "skip_startcode dbg v = Some (True, v')" "h265_nal dbg v' = Some (t, w)" "vl_rbsp_init dbg w (- 1) = Some r"
    "t = 1 \<longleftrightarrow> nal_type_bits nh = 1" "t = 20 \<longleftrightarrow> nal_type_bits nh = 20"
    "reads ?bs ?t ?mem r (bits_of h)"
    using slice_start [OF len(1) plain] by blast
  have at: "bits_of ?mem = (bits_of (START_CODE @ nh) @ front) @ b' @ ?t" by (simp add: pre(2))
  define R where "R = (\<lambda>(g :: bool, m) (g', b). g = g' \<and> length m = length ?mem
    \<and> bits_of m = (bits_of (START_CODE @ nh) @ front) @ (b :: bool list) @ ?t)"
  have loop: "reads ?bs ?t ?mem q b' \<Longrightarrow> refines (h265_set_used dbg 0 (unat n) ref q) (set_used_bits 0 (unat n) ref b') R" for q
    using set_used_loop [of ?bs ?t ?mem q b' "bits_of (START_CODE @ nh) @ front" 0 "unat n" ref f b2 dbg] len at set
    by (auto simp: refines_def R_def START_CODE_def)
  have "refines (slice_set_reference_frame_h265 dbg align bs ?mem ref)
      (do { (m, b) \<leftarrow> slice_prefix (bs_log2_minus4 bs) (bits_of h); if m = n \<and> b = b' then set_used_bits 0 (unat n) ref b' else None }) R"
    unfolding slice_set_reference_frame_h265_def slice_prefix_def Let_def
    using st(1-4,7) st(5) type log2_fits [OF log2] loop
    by (auto split: if_splits intro!: refines_field [OF refines_u] refines_field [OF refines_ue]
        refines_bind [OF refines_skip])
  then show ?thesis using pre(1) set by (simp add: refines_def R_def)
qed

lemma word_bits_inject: "word_bits 8 (a :: u8) = word_bits 8 b \<longleftrightarrow> a = b"
proof
  assume "word_bits 8 a = word_bits 8 b"
  then have "bits_num (word_bits 8 a) = bits_num (word_bits 8 b)" by simp
  then show "a = b" by (simp add: bits_num_word word_unat_eq_iff take_bit_nat_eq_self unsigned_less [of _, where 'b = 8, simplified])
qed simp

lemma bits_of_inject: "bits_of as = bits_of bs \<longleftrightarrow> as = bs"
proof
  show "bits_of as = bits_of bs \<Longrightarrow> as = bs"
  proof (induction as arbitrary: bs)
    case Nil
    then show ?case by (cases bs) (auto simp: word_bits_def)
  next
    case (Cons a as)
    have "length (bits_of (a # as)) = length (bits_of bs)" using Cons.prems by (rule arg_cong)
    then have "bs \<noteq> []" unfolding length_bits_of by auto
    then obtain b bs' where bs: "bs = b # bs'" by (cases bs) auto
    then have "word_bits 8 a = word_bits 8 b \<and> bits_of as = bits_of bs'"
      using Cons.prems append_eq_append_conv [of "word_bits 8 a" "word_bits 8 b"] by simp
    then show ?case using Cons.IH bs by (simp add: word_bits_inject)
  qed
qed simp

lemma slice_bits_patched:
  assumes "set_reference_bits log2 ref b = Some (True, b2)"
  shows "slice_bits log2 1 b2 s = Some (True, s\<lparr>sl_type := CHIAKI_BITSTREAM_SLICE_P, sl_reference_frame := ref\<rparr>)"
proof -
  obtain n b' c where b: "slice_prefix log2 b = Some (n, b')" "set_used_bits 0 (unat n) ref b' = Some (True, c)"
    "b2 = take (length b - length b') b @ c"
    using assms by (auto simp: set_reference_bits_def bind_eq_Some_conv)
  obtain front where front: "b = front @ b'" "\<And>z. slice_prefix log2 (front @ z) = Some (n, z)"
    using local_parserE [OF local_slice_prefix b(1)] by metis
  then have "slice_prefix log2 b2 = Some (n, c)" using b(3) by simp
  from slice_bits_prefix [OF this, of s] show ?thesis by (simp add: set_used_reads_back [OF b(2)])
qed

text \<open>The patched bits are whole bytes again, in the place of the header.\<close>

lemma patched_bytes:
  assumes "bits_of mem' = bits_of p @ b @ bits_of q" "length b = 8 * n"
  obtains h where "mem' = p @ h @ q" "bits_of h = b"
proof -
  let ?h = "take n (drop (length p) mem')" and ?q = "drop (length p + n) mem'"
  have "length (bits_of mem') = length (bits_of p @ b @ bits_of q)" using assms(1) by (rule arg_cong)
  then have len: "length mem' = length p + n + length q" using assms(2) by simp
  have mem: "mem' = take (length p) mem' @ ?h @ ?q" by (metis add.commute append_take_drop_id drop_drop)
  have e: "bits_of (take (length p) mem') @ bits_of ?h @ bits_of ?q = bits_of p @ b @ bits_of q"
    unfolding assms(1) [symmetric] by (subst (4) mem) simp
  then have "bits_of (take (length p) mem') = bits_of p \<and> bits_of ?h = b \<and> bits_of ?q = bits_of q"
    using len assms(2) by (simp add: append_eq_append_conv)
  then show thesis using that [of ?h] mem by (metis bits_of_inject)
qed

lemma reference_frame_patch:
  assumes len: "length nh = 2" "2 \<le> length (h @ rest)" and plain: "no_start (h @ rest)" "no_escape (h @ take 8 rest)"
    and type: "nal_type_bits nh = 1" and log2: "bs_log2_minus4 bs \<le> 12"
    and set: "set_reference_bits (bs_log2_minus4 bs) ref (bits_of h) = Some (f, b2)"
  shows "\<exists>h'. slice_set_reference_frame_h265 dbg align bs (START_CODE @ nh @ h @ rest) ref
      = Some (f, START_CODE @ nh @ h' @ rest) \<and> bits_of h' = b2"
proof -
  let ?mem = "START_CODE @ nh @ h @ rest"
  obtain n b' c where b: "slice_prefix (bs_log2_minus4 bs) (bits_of h) = Some (n, b')"
    "set_used_bits 0 (unat n) ref b' = Some (f, c)" "b2 = take (length (bits_of h) - length b') (bits_of h) @ c"
    using set by (auto simp: set_reference_bits_def bind_eq_Some_conv simp del: length_bits_of)
  obtain front where front: "bits_of h = front @ b'" using local_parserE [OF local_slice_prefix b(1)] by metis
  obtain mem' where mem': "slice_set_reference_frame_h265 dbg align bs ?mem ref = Some (f, mem')"
    "length mem' = length ?mem" "bits_of mem' = (bits_of (START_CODE @ nh) @ front) @ c @ bits_of rest"
    using set_reference_h265_core [OF len plain type log2 b(1) front b(2)] by blast
  have b2: "b2 = front @ c" using b(3) unfolding front by simp
  have all: "bits_of mem' = bits_of (START_CODE @ nh) @ b2 @ bits_of rest" using mem'(3) b2 by simp
  have "length (bits_of mem') = 8 * length ?mem" by (simp only: length_bits_of mem'(2))
  then have "length b2 = 8 * length h" unfolding all by simp
  then obtain h' where "mem' = (START_CODE @ nh) @ h' @ rest" "bits_of h' = b2" by (rule patched_bytes [OF all])
  then show ?thesis using mem'(1) by simp
qed

text \<open>C27. Patching and parsing agree.  Take a P slice in a unit of type 1 that carries its list of pictures
  itself, under the conditions of C26 on its unit: the slice header lies in the bytes \<open>h\<close>, no start code
  follows, 0, 0 and 3 do not follow each other in \<open>h\<close> and the eight bytes behind it, the order count has at
  most 16 bits, Exp-Golomb codes have at most 15 leading zeros.  When the bits of \<open>h\<close>
  list the picture asked for, the code sets the flags of the pictures in place and leaves every other bit of
  the buffer as it was.  If setting the flags has made neither a start code nor the bytes 0, 0 and 3 there,
  the parser reads from the patched buffer a P slice with the picture asked for.\<close>

theorem reference_frame_patched:
  assumes len: "length nh = 2" "2 \<le> length (h @ rest)" and plain: "no_start (h @ rest)" "no_escape (h @ take 8 rest)"
    and type: "nal_type_bits nh = 1" and log2: "bs_log2_minus4 bs \<le> 12"
    and set: "set_reference_bits (bs_log2_minus4 bs) ref (bits_of h) = Some (True, b2)"
  shows "\<exists>h'. slice_set_reference_frame_h265 dbg align bs (START_CODE @ nh @ h @ rest) ref
      = Some (True, START_CODE @ nh @ h' @ rest) \<and> bits_of h' = b2
    \<and> (no_start (h' @ rest) \<and> no_escape (h' @ take 8 rest) \<longrightarrow>
        slice_h265 dbg' align' bs (START_CODE @ nh @ h' @ rest) s
          = Some (True, s\<lparr>sl_type := CHIAKI_BITSTREAM_SLICE_P, sl_reference_frame := ref\<rparr>))"
proof -
  obtain h' where p: "slice_set_reference_frame_h265 dbg align bs (START_CODE @ nh @ h @ rest) ref
      = Some (True, START_CODE @ nh @ h' @ rest)" "bits_of h' = b2"
    using reference_frame_patch [OF assms] by blast
  have "slice_bits (bs_log2_minus4 bs) (nal_type_bits nh) (bits_of h') s
      = Some (True, s\<lparr>sl_type := CHIAKI_BITSTREAM_SLICE_P, sl_reference_frame := ref\<rparr>)"
    unfolding type p(2) by (rule slice_bits_patched [OF set])
  then show ?thesis using p slice_h265_spec [OF len(1) _ _ log2] by blast
qed

lemma test_p_slice_patch: "\<exists>b2. set_reference_bits 0 2 (bits_of test_p_header) = Some (True, b2)"
proof -
  have "map_option fst (set_reference_bits 0 2 (bits_of test_p_header)) = Some True" by code_simp
  then show ?thesis by auto
qed

lemma reference_frame_patched_witness:
  "\<exists>h'. slice_set_reference_frame_h265 True 3 \<lparr>bs_codec = CHIAKI_CODEC_H265, bs_log2_minus4 = 0\<rparr>
      (START_CODE @ test_nal_header @ test_p_header @ test_slice_data) 2
      = Some (True, START_CODE @ test_nal_header @ h' @ test_slice_data)"
proof -
  obtain b2 where b2: "set_reference_bits 0 2 (bits_of test_p_header) = Some (True, b2)"
    using test_p_slice_patch by blast
  have "2 \<le> length (test_p_header @ test_slice_data)" using test_p_header_ok(3) by simp
  from reference_frame_patched [OF test_p_header_ok(1) this test_slice_data_ok test_p_header_ok(2),
      of "\<lparr>bs_codec = CHIAKI_CODEC_H265, bs_log2_minus4 = 0\<rparr>" 2 b2 True 3] b2
  show ?thesis by fastforce
qed

subsection \<open>Running dry\<close>

lemma rbsp_zeros_buffer: "rbsp_zeros dbg bits v = Some y \<Longrightarrow> \<not> dbg \<longrightarrow> vl_buffer v \<noteq> 0"
proof (rule rbsp_zeros.raw_induct [of "\<lambda>dbg bits v y. \<not> dbg \<longrightarrow> vl_buffer v \<noteq> 0"])
  fix f dbg bits v and y :: "u32 \<times> vlc"
  assume IH: "\<And>dbg bits v y. f dbg bits v = Some y \<Longrightarrow> \<not> dbg \<longrightarrow> vl_buffer v \<noteq> 0"
    and body: "do { (x, v) \<leftarrow> vl_vlc_get_uimsbf dbg v 1; if x \<noteq> 0 then Some (bits, v) else f dbg (bits + 1) v } = Some y"
  show "\<not> dbg \<longrightarrow> vl_buffer v \<noteq> 0"
  proof (intro impI notI)
    assume d: "\<not> dbg" "vl_buffer v = 0"
    have "vl_vlc_get_uimsbf dbg v 1 = Some (0, v\<lparr>vl_invalid := vl_invalid v + 1\<rparr>)"
      using d by (simp add: vl_vlc_get_uimsbf_def vl_assert_def shr64_def shl64_def vl_vlc_eatbits_def)
    then have "f dbg (bits + 1) (v\<lparr>vl_invalid := vl_invalid v + 1\<rparr>) = Some y" using body by simp
    from IH [OF this] d show False by simp
  qed
qed

text \<open>C28. Without assertions the reader of Exp-Golomb codes returns only if a one is left in its look-ahead:
  when only zero bits are left to it after its fill, be it at the end of the unit or because 32 zeros or
  more follow, the loop over the leading zeros does not end.\<close>

theorem vl_rbsp_ue_needs_a_one:
  assumes "vl_rbsp_ue False r = Some y"
  shows "\<exists>r'. vl_rbsp_fillbits False r = Some r' \<and> vl_buffer (rb_nal r') \<noteq> 0"
  using assms rbsp_zeros_buffer by (fastforce simp: vl_rbsp_ue_def bind_eq_Some_conv)

lemma vl_rbsp_ue_needs_a_one_witness:
  "vl_rbsp_fillbits False \<lparr>rb_nal = \<lparr>vl_buffer = push_bit 63 1, vl_invalid = - 8, vl_data = 8, vl_end = 8,
     vl_bytes_left = 8, vl_mem = [0, 0, 0, 1, 2, 1, 0x80, 0], vl_align = 0\<rparr>, rb_escaped = 0, rb_removed = 0\<rparr> \<noteq> None"
proof -
  let ?v = "\<lparr>vl_buffer = push_bit 63 1, vl_invalid = - 8, vl_data = 8, vl_end = 8,
     vl_bytes_left = 8, vl_mem = [0, 0, 0, 1, 2, 1, 0x80, 0], vl_align = 0\<rparr>"
  let ?r = "\<lparr>rb_nal = ?v, rb_escaped = 0, rb_removed = 0\<rparr>"
  have "rbsp_zeros False 0 ?v = Some (0, ?v\<lparr>vl_buffer := 0, vl_invalid := - 7\<rparr>)"
    by (subst rbsp_zeros.simps) code_simp
  then have "vl_rbsp_ue False ?r = Some (0, ?r\<lparr>rb_nal := ?v\<lparr>vl_buffer := 0, vl_invalid := - 7\<rparr>\<rparr>)"
    by (simp add: vl_rbsp_ue_def vl_rbsp_fillbits_def vl_vlc_valid_bits_def vl_rbsp_u_def)
  from vl_rbsp_ue_needs_a_one [OF this] show ?thesis by auto
qed

end
