(* ===== verification/VideoReceiver.thy ===== *)
theory VideoReceiver
  imports FrameProcessor Bitstream
begin

text \<open>
  \<^verbatim>\<open>lib/src/videoreceiver.c\<close>: from the video packets of the stream to the frames given to the decoder.

  What a packet makes the receiver do towards the rest of the session is the list of events it returns:
  calls of the video callback, reports of lost frames, requests of an IDR frame, events for the user.
  \<open>int32_t\<close> numbers are integers; the two counters of lost frames check their range, the frame numbers
  are \<open>- 1\<close> or 16-bit numbers.  A flush has an environment of its own: the erasure code and its memory,
  the results of the request and of the callback, the alignment of the buffer, and what the slice
  structure on the stack holds before it is parsed.
\<close>

subsection \<open>State\<close>

record video_profile =
  vp_width :: u32
  vp_height :: u32
  vp_header :: bytes

definition CHIAKI_VIDEO_PROFILES_MAX :: nat where "CHIAKI_VIDEO_PROFILES_MAX = 8"

record video_receiver =
  vr_profiles :: "video_profile list"
  vr_profile_cur :: int
  vr_frame_index_cur :: int
  vr_frame_index_prev :: int
  vr_frame_index_prev_complete :: int
  vr_frame_processor :: frame_processor
  vr_packet_stats :: "packet_stats option"
  vr_frames_lost :: int
  vr_frames_lost_total :: int
  vr_reference_frames :: "int list"
  vr_bitstream :: bitstream
  vr_waiting_for_idr :: bool

text \<open>The parts of the session the receiver looks at.\<close>

record video_session =
  vs_codec :: chiaki_codec
  vs_video_sample_cb :: bool
  vs_enable_idr_on_fec_failure :: bool
  vs_asserts :: bool

datatype video_event =
    VideoSample bytes int bool
  | CorruptFrame u16 u16
  | IdrRequest
  | VideoFecFailure int bool

record flush_env =
  fl_decode :: fec_decode
  fl_fec :: fec_env
  fl_fec_alloc :: bool
  fl_align :: nat
  fl_slice :: bitstream_slice
  fl_idr_request :: chiaki_error
  fl_cb_succ :: bool

definition add_int32 :: "int \<Rightarrow> int \<Rightarrow> int option" where
  "add_int32 a b = (if - (2 ^ 31) \<le> a + b \<and> a + b < 2 ^ 31 then Some (a + b) else None)"

subsection \<open>Reference frames\<close>

text \<open>The last free element is taken, or, when the first is taken, all move up by one.\<close>

fun last_free :: "int list \<Rightarrow> nat \<Rightarrow> nat option" where
  "last_free fs 0 = None"
| "last_free fs (Suc i) = (if fs ! i = - 1 then Some i else last_free fs i)"

definition add_ref_frame :: "int \<Rightarrow> int list \<Rightarrow> int list" where
  "add_ref_frame frame fs =
     (if fs ! 0 \<noteq> - 1 then frame # take 15 fs
      else case last_free fs 16 of None \<Rightarrow> fs | Some i \<Rightarrow> fs[i := frame])"

definition have_ref_frame :: "int list \<Rightarrow> int \<Rightarrow> bool" where
  "have_ref_frame fs frame \<longleftrightarrow> (\<exists>i\<in>set [0..<16]. fs ! i = frame)"

text \<open>\<open>ChiakiSeqNum16 ref_frame_index = frame_index_cur - reference_frame - 1\<close>.\<close>

definition ref_frame_index :: "int \<Rightarrow> u32 \<Rightarrow> int" where
  "ref_frame_index cur r = uint (ucast (word_of_int cur - r - 1 :: u32) :: u16)"

text \<open>The loop over the other reference frames, from \<open>i\<close> on; \<open>n\<close> rounds are left.\<close>

fun find_ref_frame :: "nat \<Rightarrow> int \<Rightarrow> int list \<Rightarrow> u32 \<Rightarrow> u32 option" where
  "find_ref_frame 0 cur fs i = None"
| "find_ref_frame (Suc n) cur fs i =
     (if i < 16
      then if have_ref_frame fs (ref_frame_index cur i) then Some i else find_ref_frame n cur fs (i + 1)
      else None)"

subsection \<open>Initialisation and access\<close>

definition chiaki_video_receiver_init :: "video_session \<Rightarrow> u32 \<Rightarrow> packet_stats option \<Rightarrow> video_receiver" where
  "chiaki_video_receiver_init S old stats =
     \<lparr>vr_profiles = [], vr_profile_cur = - 1, vr_frame_index_cur = - 1, vr_frame_index_prev = - 1,
      vr_frame_index_prev_complete = 0, vr_frame_processor = chiaki_frame_processor_init,
      vr_packet_stats = stats, vr_frames_lost = 0, vr_frames_lost_total = 0,
      vr_reference_frames = replicate 16 (- 1), vr_bitstream = chiaki_bitstream_init old (vs_codec S),
      vr_waiting_for_idr = False\<rparr>"

definition chiaki_video_receiver_set_waiting_for_idr :: "bool \<Rightarrow> video_receiver \<Rightarrow> video_receiver" where
  "chiaki_video_receiver_set_waiting_for_idr b vr = vr\<lparr>vr_waiting_for_idr := b\<rparr>"

definition chiaki_video_receiver_get_waiting_for_idr :: "video_receiver \<Rightarrow> bool" where
  "chiaki_video_receiver_get_waiting_for_idr vr = vr_waiting_for_idr vr"

definition chiaki_video_receiver_get_frames_lost_total :: "video_receiver \<Rightarrow> int" where
  "chiaki_video_receiver_get_frames_lost_total vr = vr_frames_lost_total vr"

definition chiaki_video_receiver_stream_info :: "video_profile list \<Rightarrow> video_receiver \<Rightarrow> video_receiver option" where
  "chiaki_video_receiver_stream_info profiles vr =
     (if 0 < length (vr_profiles vr) then Some vr
      else if CHIAKI_VIDEO_PROFILES_MAX < length profiles then None
      else Some (vr\<lparr>vr_profiles := profiles\<rparr>))"

subsection \<open>Flushing a frame\<close>

definition next_frame_expected :: "video_receiver \<Rightarrow> u16" where
  "next_frame_expected vr = word_of_int (vr_frame_index_prev_complete vr + 1)"

definition count_lost :: "int \<Rightarrow> video_receiver \<Rightarrow> video_receiver option" where
  "count_lost n vr = do {
     a \<leftarrow> add_int32 (vr_frames_lost vr) n;
     b \<leftarrow> add_int32 (vr_frames_lost_total vr) n;
     Some (vr\<lparr>vr_frames_lost := a, vr_frames_lost_total := b\<rparr>) }"

text \<open>The forward error correction could not restore the frame.\<close>

definition fec_failed :: "video_session \<Rightarrow> flush_env \<Rightarrow> video_receiver \<Rightarrow> (video_receiver \<times> video_event list) option" where
  "fec_failed S E vr =
     (let expected = next_frame_expected vr; cur = vr_frame_index_cur vr;
          waiting = chiaki_video_receiver_get_waiting_for_idr vr;
          sent = (waiting \<or> fl_idr_request E = CHIAKI_ERR_SUCCESS);
          (vr', ev) = (if vs_enable_idr_on_fec_failure S
            then (if \<not> waiting \<and> fl_idr_request E = CHIAKI_ERR_SUCCESS
                  then chiaki_video_receiver_set_waiting_for_idr True vr else vr,
                  (if waiting then [] else [IdrRequest]) @ [VideoFecFailure cur sent])
            else (vr, []))
      in do {
        vr' \<leftarrow> count_lost (cur - uint expected + 1) vr';
        Some (vr'\<lparr>vr_frame_index_prev := cur\<rparr>, CorruptFrame expected (word_of_int cur) # ev) })"

datatype slice_verdict = Deliver bytes bool | Skip | Missing

text \<open>Looking into the slice, and changing its reference frame; the receiver comes back with its flag.\<close>

definition check_reference :: "video_session \<Rightarrow> flush_env \<Rightarrow> bytes \<Rightarrow> bitstream_slice \<Rightarrow> video_receiver \<Rightarrow>
    (slice_verdict \<times> bytes) option" where
  "check_reference S E frame sl vr =
     (let cur = vr_frame_index_cur vr; fs = vr_reference_frames vr; r = sl_reference_frame sl in
      if sl_type sl = CHIAKI_BITSTREAM_SLICE_P \<and> r \<noteq> 0xff \<and> \<not> have_ref_frame fs (ref_frame_index cur r)
      then case find_ref_frame 16 cur fs (r + 1) of
          None \<Rightarrow> Some (Missing, frame)
        | Some i \<Rightarrow> do {
            (done, frame') \<leftarrow> chiaki_bitstream_slice_set_reference_frame (vs_asserts S) (fl_align E) (vr_bitstream vr) frame i;
            Some (if done then Deliver frame' True else Missing, frame') }
      else Some (Deliver frame False, frame))"

definition judge_frame :: "video_session \<Rightarrow> flush_env \<Rightarrow> bytes \<Rightarrow> video_receiver \<Rightarrow>
    (slice_verdict \<times> bytes \<times> video_receiver) option" where
  "judge_frame S E frame vr = do {
     (parsed, sl) \<leftarrow> chiaki_bitstream_slice (vs_asserts S) (fl_align E) (vr_bitstream vr) frame (fl_slice E);
     if \<not> parsed then Some (Deliver frame False, frame, vr)
     else if chiaki_video_receiver_get_waiting_for_idr vr
     then if sl_type sl = CHIAKI_BITSTREAM_SLICE_I
       then Some (Deliver frame False, frame, chiaki_video_receiver_set_waiting_for_idr False vr)
       else Some (Skip, frame, vr)
     else do { (v, frame') \<leftarrow> check_reference S E frame sl vr; Some (v, frame', vr) } }"

text \<open>The frame is the front of the buffer of the frame processor.\<close>

definition store_frame :: "bytes \<Rightarrow> video_receiver \<Rightarrow> video_receiver" where
  "store_frame frame vr =
     (let fp = vr_frame_processor vr
      in vr\<lparr>vr_frame_processor := fp\<lparr>fp_frame_buf := map_option (\<lambda>b. frame @ drop (length frame) b) (fp_frame_buf fp)\<rparr>\<rparr>)"

definition deliver :: "video_session \<Rightarrow> flush_env \<Rightarrow> bytes \<Rightarrow> bool \<Rightarrow> video_receiver \<Rightarrow> video_receiver \<times> video_event list" where
  "deliver S E frame recovered vr =
     (let cur = vr_frame_index_cur vr in
      if \<not> vs_video_sample_cb S
      then (vr\<lparr>vr_frame_index_prev := cur, vr_frame_index_prev_complete := cur\<rparr>, [])
      else let ev = [VideoSample frame (vr_frames_lost vr) recovered];
               vr = vr\<lparr>vr_frames_lost := 0\<rparr> in
        if fl_cb_succ E
        then (vr\<lparr>vr_reference_frames := add_ref_frame cur (vr_reference_frames vr),
                 vr_frame_index_prev := cur, vr_frame_index_prev_complete := cur\<rparr>, ev)
        else (vr\<lparr>vr_frame_index_prev := cur\<rparr>, ev))"

definition chiaki_video_receiver_flush_frame ::
    "video_session \<Rightarrow> flush_env \<Rightarrow> video_receiver \<Rightarrow> (chiaki_error \<times> video_receiver \<times> video_event list) option" where
  "chiaki_video_receiver_flush_frame S E vr = do {
     (flush_result, frame, fp) \<leftarrow>
       chiaki_frame_processor_flush (fl_decode E) (fl_fec E) (fl_fec_alloc E) (vr_frame_processor vr);
     let vr = vr\<lparr>vr_frame_processor := fp\<rparr>;
     if flush_result = CHIAKI_FRAME_PROCESSOR_FLUSH_RESULT_FAILED then Some (CHIAKI_ERR_UNKNOWN, vr, [])
     else if flush_result = CHIAKI_FRAME_PROCESSOR_FLUSH_RESULT_FEC_FAILED
     then do { (vr, ev) \<leftarrow> fec_failed S E vr; Some (CHIAKI_ERR_UNKNOWN, vr, ev) }
     else do {
       (v, frame', vr) \<leftarrow> judge_frame S E frame vr;
       let vr = store_frame frame' vr;
       (case v of
          Skip \<Rightarrow> Some (CHIAKI_ERR_SUCCESS, vr\<lparr>vr_frame_index_prev := vr_frame_index_cur vr\<rparr>, [])
        | Missing \<Rightarrow> do {
            vr \<leftarrow> count_lost 1 vr;
            Some (CHIAKI_ERR_SUCCESS, vr\<lparr>vr_frame_index_prev := vr_frame_index_cur vr\<rparr>, []) }
        | Deliver data recovered \<Rightarrow>
            (case deliver S E data recovered vr of (vr, ev) \<Rightarrow> Some (CHIAKI_ERR_SUCCESS, vr, ev))) } }"

subsection \<open>Packets\<close>

text \<open>The adaptive stream index; the first element tells whether the packet is dropped.  \<open>align\<close> is the
  alignment of the header.\<close>

definition switch_profile ::
    "video_session \<Rightarrow> nat \<Rightarrow> u8 \<Rightarrow> video_receiver \<Rightarrow> (bool \<times> video_receiver \<times> video_event list) option" where
  "switch_profile S align i vr =
     (if vr_profile_cur vr < 0 \<or> vr_profile_cur vr \<noteq> uint i
      then if length (vr_profiles vr) \<le> unat i then Some (True, vr, [])
        else let profile = vr_profiles vr ! unat i; vr = vr\<lparr>vr_profile_cur := uint i\<rparr> in do {
          (_, bs) \<leftarrow> chiaki_bitstream_header (vs_asserts S) align (vr_bitstream vr) (vp_header profile);
          Some (False, vr\<lparr>vr_bitstream := bs\<rparr>,
                if vs_video_sample_cb S then [VideoSample (vp_header profile) 0 False] else []) }
      else Some (False, vr, []))"

text \<open>The first packet of a newer frame: the statistics, the frame before it, the frames missing between.\<close>

definition next_frame :: "video_session \<Rightarrow> flush_env \<Rightarrow> alloc_env \<Rightarrow> takion_av_packet \<Rightarrow> bytes \<Rightarrow> video_receiver \<Rightarrow>
    (video_receiver \<times> video_event list) option" where
  "next_frame S E A p data vr = do {
     let frame_index = av_frame_index p;
     let vr = vr\<lparr>vr_packet_stats :=
       map_option (chiaki_frame_processor_report_packet_stats (vr_frame_processor vr)) (vr_packet_stats vr)\<rparr>;
     (vr, ev) \<leftarrow>
       (if 0 \<le> vr_frame_index_cur vr \<and> vr_frame_index_prev vr \<noteq> vr_frame_index_cur vr
        then do { (_, vr, ev) \<leftarrow> chiaki_video_receiver_flush_frame S E vr; Some (vr, ev) }
        else Some (vr, []));
     let expected = next_frame_expected vr;
     let ev = ev @ (if chiaki_seq_num_gt frame_index expected \<and> \<not> (frame_index = 1 \<and> vr_frame_index_cur vr < 0)
       then [CorruptFrame expected (frame_index - 1)] else []);
     let vr = vr\<lparr>vr_frame_index_cur := uint frame_index\<rparr>;
     (_, fp) \<leftarrow> chiaki_frame_processor_alloc_frame A p data (vr_frame_processor vr);
     Some (vr\<lparr>vr_frame_processor := fp\<rparr>, ev) }"

definition packet_unit :: "video_session \<Rightarrow> flush_env \<Rightarrow> takion_av_packet \<Rightarrow> bytes \<Rightarrow> video_receiver \<Rightarrow>
    (video_receiver \<times> video_event list) option" where
  "packet_unit S E p data vr = do {
     (_, fp) \<leftarrow> chiaki_frame_processor_put_unit p data (vr_frame_processor vr);
     let vr = vr\<lparr>vr_frame_processor := fp\<rparr>;
     if vr_frame_index_cur vr \<noteq> vr_frame_index_prev vr
       \<and> (chiaki_frame_processor_flush_possible fp \<or> uint (av_unit_index p) = uint (av_units_total p) - 1)
     then do { (_, vr, ev) \<leftarrow> chiaki_video_receiver_flush_frame S E vr; Some (vr, ev) }
     else Some (vr, []) }"

definition chiaki_video_receiver_av_packet ::
    "video_session \<Rightarrow> nat \<Rightarrow> alloc_env \<Rightarrow> flush_env \<Rightarrow> flush_env \<Rightarrow> takion_av_packet \<Rightarrow> bytes \<Rightarrow> video_receiver \<Rightarrow>
     (video_receiver \<times> video_event list) option" where
  "chiaki_video_receiver_av_packet S align A E1 E2 p data vr =
     (let cur = vr_frame_index_cur vr; frame_index = av_frame_index p in
      if 0 \<le> cur \<and> chiaki_seq_num_lt frame_index (word_of_int cur) then Some (vr, [])
      else do {
        (dropped, vr, ev1) \<leftarrow> switch_profile S align (av_adaptive_stream_index p) vr;
        if dropped then Some (vr, ev1)
        else do {
          (vr, ev2) \<leftarrow> (if cur < 0 \<or> chiaki_seq_num_gt frame_index (word_of_int cur)
                        then next_frame S E1 A p data vr else Some (vr, []));
          (vr, ev3) \<leftarrow> packet_unit S E2 p data vr;
          Some (vr, ev1 @ ev2 @ ev3) } })"

end
