(* ===== verification/VideoReceiverProps.thy ===== *)
theory VideoReceiverProps
  imports VideoReceiver BitstreamSlice
begin

text \<open>
  The video receiver: the array of reference frames as the list of the frames delivered last, the types of
  its state over every run, what a flush may deliver, and the count of the frames lost.
\<close>

subsection \<open>Reference frames\<close>

definition ref_window :: "int list \<Rightarrow> int list" where
  "ref_window h = replicate (16 - length h) (- 1) @ take 16 h"

lemma length_ref_window [simp]: "length (ref_window h) = 16"
  by (simp add: ref_window_def)

lemma last_free_pad:
  "- 1 \<notin> set xs \<Longrightarrow> 0 < k \<Longrightarrow> k \<le> n \<Longrightarrow> n \<le> k + length xs \<Longrightarrow> last_free (replicate k (- 1) @ xs) n = Some (k - 1)"
proof (induction n)
  case (Suc n)
  show ?case
  proof (cases "k = Suc n")
    case True
    then have "(replicate k (- 1) @ xs) ! n = - 1" by (simp add: nth_append del: replicate_Suc)
    then show ?thesis using True by (simp del: replicate_Suc)
  next
    case False
    then have "xs ! (n - k) \<in> set xs" using Suc.prems by simp
    then have "xs ! (n - k) \<noteq> - 1" using Suc.prems(1) by metis
    then have "(replicate k (- 1) @ xs) ! n \<noteq> - 1" using Suc.prems False by (auto simp: nth_append)
    then show ?thesis using Suc False by simp
  qed
qed simp

lemma add_ref_frame_window:
  assumes "\<forall>f\<in>set h. 0 \<le> f"
  shows "add_ref_frame f (ref_window h) = ref_window (f # h)"
proof (cases "length h < 16")
  case True
  let ?k = "16 - length h"
  have "- 1 \<notin> set h" using assms by force
  then have "last_free (replicate ?k (- 1) @ h) 16 = Some (?k - 1)" using True by (intro last_free_pad) auto
  then have l: "last_free (ref_window h) 16 = Some (?k - 1)" using True by (simp add: ref_window_def)
  have z: "ref_window h ! 0 = - 1" using True by (simp add: ref_window_def nth_append)
  obtain m where m: "?k = Suc m" using True by (cases ?k) auto
  have "(ref_window h)[?k - 1 := f] = replicate m (- 1) @ f # h"
    using True unfolding ref_window_def m by (simp add: list_update_append replicate_append_same [symmetric])
  moreover have "ref_window (f # h) = replicate m (- 1) @ f # h" using True m by (simp add: ref_window_def)
  ultimately show ?thesis using l z by (simp add: add_ref_frame_def)
next
  case False
  then obtain x xs where h: "h = x # xs" by (cases h) auto
  then have "0 \<le> x" using assms by simp
  then show ?thesis using False h by (simp add: add_ref_frame_def ref_window_def take_Cons' min_def)
qed

lemma add_ref_frames_window:
  "\<forall>f\<in>set h. 0 \<le> f \<Longrightarrow> \<forall>f\<in>set fs. 0 \<le> f \<Longrightarrow> fold add_ref_frame fs (ref_window h) = ref_window (rev fs @ h)"
  by (induction fs arbitrary: h) (simp_all add: add_ref_frame_window)

lemma have_ref_frame_set: "length fs = 16 \<Longrightarrow> have_ref_frame fs f \<longleftrightarrow> f \<in> set fs"
  by (auto simp: have_ref_frame_def in_set_conv_nth)

text \<open>C32. The array of reference frames is a window on the frames delivered: after any sequence of them a
  frame is found exactly if it is one of the last sixteen.\<close>

theorem reference_frames_newest:
  assumes "\<forall>f\<in>set fs. 0 \<le> f" "0 \<le> g"
  shows "have_ref_frame (fold add_ref_frame fs (vr_reference_frames (chiaki_video_receiver_init S old stats))) g
    \<longleftrightarrow> g \<in> set (take 16 (rev fs))"
proof -
  have "vr_reference_frames (chiaki_video_receiver_init S old stats) = ref_window []"
    by (simp add: chiaki_video_receiver_init_def ref_window_def)
  then have "fold add_ref_frame fs (vr_reference_frames (chiaki_video_receiver_init S old stats)) = ref_window (rev fs)"
    using add_ref_frames_window [of "[]" fs] assms(1) by simp
  then show ?thesis using assms(2) by (auto simp: have_ref_frame_set) (auto simp: ref_window_def)
qed

lemma reference_frames_newest_witness:
  "\<forall>S old stats. have_ref_frame (fold add_ref_frame [7, 8, 10] (vr_reference_frames (chiaki_video_receiver_init S old stats))) 8
    \<and> \<not> have_ref_frame (fold add_ref_frame [7, 8, 10] (vr_reference_frames (chiaki_video_receiver_init S old stats))) 9"
proof (intro allI)
  fix S old stats
  show "have_ref_frame (fold add_ref_frame [7, 8, 10] (vr_reference_frames (chiaki_video_receiver_init S old stats))) 8
    \<and> \<not> have_ref_frame (fold add_ref_frame [7, 8, 10] (vr_reference_frames (chiaki_video_receiver_init S old stats))) 9"
    using reference_frames_newest [of "[7, 8, 10]" 8 S old stats] reference_frames_newest [of "[7, 8, 10]" 9 S old stats] by simp
qed

text \<open>A session, a flush and a receiver with a P slice of the unit tests in its buffer, for the examples.\<close>

definition test_session :: video_session where
  "test_session = \<lparr>vs_codec = CHIAKI_CODEC_H265, vs_video_sample_cb = True, vs_enable_idr_on_fec_failure = True,
     vs_asserts = False\<rparr>"

definition test_flush :: flush_env where
  "test_flush = \<lparr>fl_decode = \<lambda>k m es data coding sz. (False, data, coding),
     fl_fec = \<lparr>fe_matrix = True, fe_erasures = True, fe_data = True, fe_coding = True\<rparr>, fl_fec_alloc = True,
     fl_align = 0, fl_slice = \<lparr>sl_type = CHIAKI_BITSTREAM_SLICE_I, sl_reference_frame = 7\<rparr>,
     fl_idr_request = CHIAKI_ERR_SUCCESS, fl_cb_succ = True\<rparr>"

definition test_frame :: bytes where
  "test_frame = START_CODE @ test_nal_header @ test_p_header"

definition test_receiver :: video_receiver where
  "test_receiver = chiaki_video_receiver_init test_session 0 None
     \<lparr>vr_frame_index_cur := 8, vr_frame_index_prev := 7, vr_frame_index_prev_complete := 7,
      vr_reference_frames := ref_window [7],
      vr_frame_processor := chiaki_frame_processor_init
        \<lparr>fp_frame_buf := Some ([0, 0] @ test_frame @ replicate 78 0), fp_frame_buf_size := 32, fp_buf_stride_per_unit := 32,
         fp_buf_size_per_unit := 18, fp_units_source_expected := 1, fp_units_fec_expected := 1,
         fp_units_source_received := 1, fp_unit_slots := Some [18, 0], fp_unit_slots_size := 2, fp_flushed := False\<rparr>\<rparr>"

subsection \<open>The types of the state\<close>

definition frame_number :: "int \<Rightarrow> bool" where
  "frame_number f \<longleftrightarrow> 0 \<le> f \<and> f < 2 ^ 16"

definition int32 :: "int \<Rightarrow> bool" where
  "int32 x \<longleftrightarrow> - (2 ^ 31) \<le> x \<and> x < 2 ^ 31"

definition video_ok :: "video_receiver \<Rightarrow> bool" where
  "video_ok vr \<longleftrightarrow> length (vr_profiles vr) \<le> CHIAKI_VIDEO_PROFILES_MAX
     \<and> (vr_profile_cur vr = - 1 \<or> 0 \<le> vr_profile_cur vr \<and> vr_profile_cur vr < int (length (vr_profiles vr)))
     \<and> (vr_frame_index_cur vr = - 1 \<or> frame_number (vr_frame_index_cur vr))
     \<and> (vr_frame_index_prev vr = - 1 \<or> frame_number (vr_frame_index_prev vr))
     \<and> frame_number (vr_frame_index_prev_complete vr)
     \<and> int32 (vr_frames_lost vr) \<and> int32 (vr_frames_lost_total vr)
     \<and> (\<exists>h. (\<forall>f\<in>set h. frame_number f) \<and> vr_reference_frames vr = ref_window h)"

lemma frame_number_uint [simp]: "frame_number (uint (w :: u16))"
  by (simp add: frame_number_def unsigned_less [where 'b = 16, simplified])

lemma add_int32_int32: "add_int32 a b = Some c \<Longrightarrow> int32 c"
  by (auto simp: add_int32_def int32_def split: if_splits)

lemma count_lost_ok: "count_lost n vr = Some vr' \<Longrightarrow> video_ok vr \<Longrightarrow>
  video_ok vr' \<and> (\<exists>a b. vr' = vr\<lparr>vr_frames_lost := a, vr_frames_lost_total := b\<rparr>)"
  by (auto simp: count_lost_def bind_eq_Some_conv video_ok_def add_int32_int32)

lemma fec_failed_ok:
  assumes "fec_failed S E vr = Some (vr', ev)" "video_ok vr" "frame_number (vr_frame_index_cur vr)"
  shows "video_ok vr' \<and> vr_frame_index_cur vr' = vr_frame_index_cur vr"
proof -
  have "vr' = (vr\<lparr>vr_waiting_for_idr := vr_waiting_for_idr vr', vr_frames_lost := vr_frames_lost vr',
      vr_frames_lost_total := vr_frames_lost_total vr', vr_frame_index_prev := vr_frame_index_cur vr\<rparr>)
    \<and> int32 (vr_frames_lost vr') \<and> int32 (vr_frames_lost_total vr')"
    using assms(1)
    by (auto simp: fec_failed_def Let_def count_lost_def bind_eq_Some_conv add_int32_int32
        chiaki_video_receiver_set_waiting_for_idr_def split: if_splits)
  then obtain w a b where w: "vr' = (vr\<lparr>vr_waiting_for_idr := w, vr_frames_lost := a, vr_frames_lost_total := b,
      vr_frame_index_prev := vr_frame_index_cur vr\<rparr>)" "int32 a" "int32 b" by blast
  then show ?thesis using assms(2,3) by (auto simp: video_ok_def)
qed

lemma add_ref_frame_ok:
  assumes "\<exists>h. (\<forall>f\<in>set h. frame_number f) \<and> fs = ref_window h" "frame_number f"
  shows "\<exists>h. (\<forall>f\<in>set h. frame_number f) \<and> add_ref_frame f fs = ref_window h"
proof -
  obtain h where h: "\<forall>f\<in>set h. frame_number f" "fs = ref_window h" using assms(1) by blast
  then have "\<forall>f\<in>set h. 0 \<le> f" by (auto simp: frame_number_def)
  then show ?thesis using h assms(2) by (intro exI [of _ "f # h"]) (simp add: add_ref_frame_window)
qed

lemma deliver_ok:
  assumes "deliver S E frame recovered vr = (vr', ev)" "video_ok vr" "frame_number (vr_frame_index_cur vr)"
  shows "video_ok vr' \<and> vr_frame_index_cur vr' = vr_frame_index_cur vr"
  using assms add_ref_frame_ok [of "vr_reference_frames vr" "vr_frame_index_cur vr"]
  by (auto simp: deliver_def Let_def video_ok_def int32_def split: if_splits)

lemma judge_frame_ok:
  assumes "judge_frame S E frame vr = Some (v, frame', vr')"
  shows "\<exists>w. vr' = vr\<lparr>vr_waiting_for_idr := w\<rparr>"
  using assms
  by (auto simp: judge_frame_def bind_eq_Some_conv chiaki_video_receiver_set_waiting_for_idr_def split: if_splits
      intro: exI [of _ "vr_waiting_for_idr vr"])

lemma video_ok_changes [simp]:
  "video_ok (vr\<lparr>vr_waiting_for_idr := w\<rparr>) = video_ok vr" "video_ok (vr\<lparr>vr_frame_processor := fp\<rparr>) = video_ok vr"
  "video_ok (vr\<lparr>vr_packet_stats := st\<rparr>) = video_ok vr" "video_ok (vr\<lparr>vr_bitstream := bs\<rparr>) = video_ok vr"
  by (simp_all add: video_ok_def)

lemma store_frame_ok [simp]: "video_ok (store_frame frame vr) = video_ok vr"
  "vr_frame_index_cur (store_frame frame vr) = vr_frame_index_cur vr"
  by (simp_all add: store_frame_def Let_def)

lemma flush_frame_ok:
  assumes "chiaki_video_receiver_flush_frame S E vr = Some (err, vr', ev)" "video_ok vr" "frame_number (vr_frame_index_cur vr)"
  shows "video_ok vr' \<and> vr_frame_index_cur vr' = vr_frame_index_cur vr"
proof -
  let ?P = "\<lambda>vr'. video_ok vr' \<and> vr_frame_index_cur vr' = vr_frame_index_cur vr"
  obtain flush_result frame fp where f: "chiaki_frame_processor_flush (fl_decode E) (fl_fec E) (fl_fec_alloc E) (vr_frame_processor vr)
      = Some (flush_result, frame, fp)"
    using assms(1) by (auto simp: chiaki_video_receiver_flush_frame_def bind_eq_Some_conv)
  let ?vr = "vr\<lparr>vr_frame_processor := fp\<rparr>"
  have vr: "video_ok ?vr" "frame_number (vr_frame_index_cur ?vr)" using assms by simp_all
  show ?thesis
  proof (cases "flush_result = CHIAKI_FRAME_PROCESSOR_FLUSH_RESULT_FAILED \<or> flush_result = CHIAKI_FRAME_PROCESSOR_FLUSH_RESULT_FEC_FAILED")
    case True
    then show ?thesis using assms(1) f fec_failed_ok [of S E ?vr] vr
      by (auto simp: chiaki_video_receiver_flush_frame_def bind_eq_Some_conv split: if_splits)
  next
    case False
    obtain v frame' vr1 where j: "judge_frame S E frame ?vr = Some (v, frame', vr1)"
      using assms(1) f False by (auto simp: chiaki_video_receiver_flush_frame_def bind_eq_Some_conv split: if_splits)
    let ?vr2 = "store_frame frame' vr1"
    have vr2: "video_ok ?vr2" "vr_frame_index_cur ?vr2 = vr_frame_index_cur vr" "frame_number (vr_frame_index_cur ?vr2)"
      using judge_frame_ok [OF j] vr by auto
    show ?thesis
    proof (cases v)
      case (Deliver data recovered)
      then show ?thesis using assms(1) f False j deliver_ok [of S E data recovered ?vr2] vr2
        by (auto simp: chiaki_video_receiver_flush_frame_def Let_def split: prod.splits)
    next
      case Skip
      then show ?thesis using assms(1) f False j vr2
        by (auto simp: chiaki_video_receiver_flush_frame_def Let_def video_ok_def)
    next
      case Missing
      then obtain vr3 where c: "count_lost 1 ?vr2 = Some vr3" "vr' = vr3\<lparr>vr_frame_index_prev := vr_frame_index_cur vr3\<rparr>"
        using assms(1) f False j
        by (auto simp: chiaki_video_receiver_flush_frame_def Let_def bind_eq_Some_conv)
      then have "video_ok vr3" "vr_frame_index_cur vr3 = vr_frame_index_cur vr"
        using count_lost_ok [OF c(1) vr2(1)] vr2(2) by auto
      then show ?thesis using c(2) vr2(3) vr2(2) by (auto simp: video_ok_def)
    qed
  qed
qed

lemma switch_profile_ok:
  assumes "switch_profile S align i vr = Some (dropped, vr', ev)" "video_ok vr"
  shows "video_ok vr' \<and> vr_frame_index_cur vr' = vr_frame_index_cur vr \<and> vr_frame_index_prev vr' = vr_frame_index_prev vr
    \<and> vr_profiles vr' = vr_profiles vr \<and> (\<forall>e\<in>set ev. \<exists>p\<in>set (vr_profiles vr). e = VideoSample (vp_header p) 0 False)"
proof -
  have "unat i < length (vr_profiles vr) \<Longrightarrow> uint i < int (length (vr_profiles vr))" by (simp add: uint_nat del: of_nat_unat)
  then show ?thesis using assms
    by (auto simp: switch_profile_def Let_def bind_eq_Some_conv video_ok_def not_le split: if_splits)
qed

lemma next_frame_ok:
  assumes "next_frame S E A p data vr = Some (vr', ev)" "video_ok vr"
  shows "video_ok vr' \<and> vr_frame_index_cur vr' = uint (av_frame_index p)"
proof -
  let ?vr = "vr\<lparr>vr_packet_stats := map_option (chiaki_frame_processor_report_packet_stats (vr_frame_processor vr)) (vr_packet_stats vr)\<rparr>"
  have ok: "video_ok ?vr" using assms(2) by simp
  obtain vr1 fp where vr1: "video_ok vr1"
    "vr' = vr1\<lparr>vr_frame_index_cur := uint (av_frame_index p), vr_frame_processor := fp\<rparr>"
  proof (cases "0 \<le> vr_frame_index_cur vr \<and> vr_frame_index_prev vr \<noteq> vr_frame_index_cur vr")
    case True
    then obtain err vr1 ev1 where f: "chiaki_video_receiver_flush_frame S E ?vr = Some (err, vr1, ev1)"
      using assms(1) by (auto simp: next_frame_def Let_def bind_eq_Some_conv)
    have "frame_number (vr_frame_index_cur ?vr)" using True assms(2) by (auto simp: video_ok_def)
    then have "video_ok vr1" using flush_frame_ok [OF f ok] by simp
    then show ?thesis using that f True assms(1) by (auto simp: next_frame_def Let_def bind_eq_Some_conv)
  next
    case False
    then obtain fp where "vr' = ?vr\<lparr>vr_frame_index_cur := uint (av_frame_index p), vr_frame_processor := fp\<rparr>"
      using assms(1) by (auto simp: next_frame_def Let_def bind_eq_Some_conv)
    then show ?thesis using that [of ?vr fp] ok by simp
  qed
  then show ?thesis by (simp add: video_ok_def)
qed

lemma packet_unit_ok:
  assumes "packet_unit S E p data vr = Some (vr', ev)" "video_ok vr" "frame_number (vr_frame_index_cur vr)"
  shows "video_ok vr' \<and> vr_frame_index_cur vr' = vr_frame_index_cur vr"
proof -
  obtain err fp where put: "chiaki_frame_processor_put_unit p data (vr_frame_processor vr) = Some (err, fp)"
    using assms(1) by (auto simp: packet_unit_def bind_eq_Some_conv)
  let ?vr = "vr\<lparr>vr_frame_processor := fp\<rparr>"
  have ok: "video_ok ?vr" "frame_number (vr_frame_index_cur ?vr)" using assms(2,3) by simp_all
  consider "vr' = ?vr" | e where "chiaki_video_receiver_flush_frame S E ?vr = Some (e, vr', ev)"
    using assms(1) put by (auto simp: packet_unit_def Let_def bind_eq_Some_conv split: if_splits)
  then show ?thesis
  proof cases
    case 2
    show ?thesis using flush_frame_ok [OF 2 ok] by simp
  qed (use ok in simp)
qed

lemma av_packet_ok:
  assumes "chiaki_video_receiver_av_packet S align A E1 E2 p data vr = Some (vr', ev)" "video_ok vr"
  shows "video_ok vr'"
proof (cases "0 \<le> vr_frame_index_cur vr \<and> chiaki_seq_num_lt (av_frame_index p) (word_of_int (vr_frame_index_cur vr))")
  case True
  then show ?thesis using assms by (simp add: chiaki_video_receiver_av_packet_def)
next
  case False
  then obtain dropped vr1 ev1 where sw: "switch_profile S align (av_adaptive_stream_index p) vr = Some (dropped, vr1, ev1)"
    using assms(1) by (auto simp: chiaki_video_receiver_av_packet_def Let_def bind_eq_Some_conv)
  note vr1 = switch_profile_ok [OF this assms(2)]
  show ?thesis
  proof (cases dropped)
    case True
    then show ?thesis using assms(1) False sw vr1 by (auto simp: chiaki_video_receiver_av_packet_def Let_def split: if_splits)
  next
    case live: False
    have body: "do { (vr, ev2) \<leftarrow> (if vr_frame_index_cur vr < 0 \<or> chiaki_seq_num_gt (av_frame_index p) (word_of_int (vr_frame_index_cur vr))
                        then next_frame S E1 A p data vr1 else Some (vr1, []));
          (vr, ev3) \<leftarrow> packet_unit S E2 p data vr;
          Some (vr, ev1 @ ev2 @ ev3) } = Some (vr', ev)"
      using assms(1) False sw live by (simp add: chiaki_video_receiver_av_packet_def Let_def if_distrib cong: if_cong)
    then obtain vr2 ev2 ev3 where vr2: "(if vr_frame_index_cur vr < 0 \<or> chiaki_seq_num_gt (av_frame_index p) (word_of_int (vr_frame_index_cur vr))
                        then next_frame S E1 A p data vr1 else Some (vr1, [])) = Some (vr2, ev2)"
      "packet_unit S E2 p data vr2 = Some (vr', ev3)" by (auto simp: bind_eq_Some_conv)
    have "video_ok vr2 \<and> frame_number (vr_frame_index_cur vr2)"
    proof (cases "vr_frame_index_cur vr < 0 \<or> chiaki_seq_num_gt (av_frame_index p) (word_of_int (vr_frame_index_cur vr))")
      case True
      then show ?thesis using vr2(1) next_frame_ok [of S E1 A p data vr1 vr2 ev2] vr1 by simp
    next
      case False
      then show ?thesis using vr2(1) vr1 assms(2) by (auto simp: video_ok_def)
    qed
    then show ?thesis using packet_unit_ok [OF vr2(2)] by blast
  qed
qed

text \<open>What the rest of the session does to a receiver, in any order.\<close>

inductive video_reach :: "video_session \<Rightarrow> video_receiver \<Rightarrow> bool" for S where
  init: "video_reach S (chiaki_video_receiver_init S old stats)"
| stream_info: "video_reach S vr \<Longrightarrow> chiaki_video_receiver_stream_info profiles vr = Some vr' \<Longrightarrow> video_reach S vr'"
| set_waiting: "video_reach S vr \<Longrightarrow> video_reach S (chiaki_video_receiver_set_waiting_for_idr b vr)"
| av_packet: "video_reach S vr \<Longrightarrow> chiaki_video_receiver_av_packet S align A E1 E2 p data vr = Some (vr', ev) \<Longrightarrow> video_reach S vr'"

lemma stream_info_ok:
  assumes "chiaki_video_receiver_stream_info profiles vr = Some vr'" "video_ok vr"
  shows "video_ok vr'"
  using assms by (auto simp: chiaki_video_receiver_stream_info_def video_ok_def split: if_splits)

text \<open>C30. Every state the receiver can reach is well typed: at most eight profiles and the current one among
  them, frame numbers of sixteen bits or none, counters in their range, and reference frames that are a
  window on frame numbers.\<close>

theorem video_receiver_typed:
  assumes "video_reach S vr"
  shows "video_ok vr"
  using assms
proof induction
  case (init old stats)
  show ?case
    by (auto simp: video_ok_def chiaki_video_receiver_init_def frame_number_def int32_def CHIAKI_VIDEO_PROFILES_MAX_def
        ref_window_def intro!: exI [of _ "[]"])
qed (auto simp: chiaki_video_receiver_set_waiting_for_idr_def intro: stream_info_ok av_packet_ok)

lemma video_receiver_typed_witness:
  "video_ok (chiaki_video_receiver_set_waiting_for_idr True (chiaki_video_receiver_init test_session 0 None))"
  by (rule video_receiver_typed [OF video_reach.set_waiting [OF video_reach.init]])

subsection \<open>What is delivered\<close>

lemma check_reference_cases:
  assumes "check_reference S E frame sl vr = Some (Deliver data recovered, frame')"
  shows "(\<not> recovered \<and> data = frame \<and> (sl_type sl = CHIAKI_BITSTREAM_SLICE_P \<and> sl_reference_frame sl \<noteq> 0xff
      \<longrightarrow> have_ref_frame (vr_reference_frames vr) (ref_frame_index (vr_frame_index_cur vr) (sl_reference_frame sl))))
    \<or> (recovered \<and> (\<exists>i < 16. have_ref_frame (vr_reference_frames vr) (ref_frame_index (vr_frame_index_cur vr) i)
      \<and> chiaki_bitstream_slice_set_reference_frame (vs_asserts S) (fl_align E) (vr_bitstream vr) frame i = Some (True, data)))"
proof -
  have found: "find_ref_frame n cur fs j = Some i \<Longrightarrow> i < 16 \<and> have_ref_frame fs (ref_frame_index cur i)" for n cur fs i j
    by (induction n arbitrary: j) (auto split: if_splits)
  then show ?thesis using assms
    by (auto simp: check_reference_def Let_def bind_eq_Some_conv split: if_splits option.splits dest!: found)
qed

text \<open>C29. What the decoder is given can be decoded: when a frame whose slice could be parsed is delivered, it is
  the frame as it was put together, an I frame if an IDR frame was waited for and otherwise one whose reference
  frame was delivered before, or it is marked as recovered and its reference was changed to a frame delivered
  before.\<close>

theorem video_delivers_decodable:
  assumes flush: "chiaki_video_receiver_flush_frame S E vr = Some (err, vr', ev)" "VideoSample data lost recovered \<in> set ev"
    and frame: "chiaki_frame_processor_flush (fl_decode E) (fl_fec E) (fl_fec_alloc E) (vr_frame_processor vr) = Some (r, frame, fp)"
    and parsed: "chiaki_bitstream_slice (vs_asserts S) (fl_align E) (vr_bitstream vr) frame (fl_slice E) = Some (True, sl)"
  shows "if vr_waiting_for_idr vr then sl_type sl = CHIAKI_BITSTREAM_SLICE_I \<and> data = frame \<and> \<not> recovered
    else if recovered
    then \<exists>i < 16. have_ref_frame (vr_reference_frames vr) (ref_frame_index (vr_frame_index_cur vr) i)
      \<and> chiaki_bitstream_slice_set_reference_frame (vs_asserts S) (fl_align E) (vr_bitstream vr) frame i = Some (True, data)
    else data = frame \<and> (sl_type sl = CHIAKI_BITSTREAM_SLICE_P \<and> sl_reference_frame sl \<noteq> 0xff
      \<longrightarrow> have_ref_frame (vr_reference_frames vr) (ref_frame_index (vr_frame_index_cur vr) (sl_reference_frame sl)))"
proof -
  let ?vr = "vr\<lparr>vr_frame_processor := fp\<rparr>"
  have no_fail: "r \<noteq> CHIAKI_FRAME_PROCESSOR_FLUSH_RESULT_FAILED \<and> r \<noteq> CHIAKI_FRAME_PROCESSOR_FLUSH_RESULT_FEC_FAILED"
    using flush frame
    by (auto simp: chiaki_video_receiver_flush_frame_def fec_failed_def Let_def bind_eq_Some_conv split: if_splits)
  then obtain v frame' vr1 where j: "judge_frame S E frame ?vr = Some (v, frame', vr1)"
    using flush(1) frame by (auto simp: chiaki_video_receiver_flush_frame_def bind_eq_Some_conv)
  have "v = Deliver data recovered"
    using flush frame no_fail j
    by (cases v) (auto simp: chiaki_video_receiver_flush_frame_def deliver_def Let_def bind_eq_Some_conv split: if_splits)
  then show ?thesis using j parsed check_reference_cases [of S E frame sl ?vr data recovered frame']
    by (auto simp: judge_frame_def chiaki_video_receiver_get_waiting_for_idr_def bind_eq_Some_conv split: if_splits)
qed

lemma test_flush_frame:
  "\<exists>fp. chiaki_frame_processor_flush (fl_decode test_flush) (fl_fec test_flush) (fl_fec_alloc test_flush)
      (vr_frame_processor test_receiver) = Some (CHIAKI_FRAME_PROCESSOR_FLUSH_RESULT_SUCCESS, test_frame, fp)"
proof -
  have "map_option (\<lambda>(r, f, fp). (r, f)) (chiaki_frame_processor_flush (fl_decode test_flush) (fl_fec test_flush) (fl_fec_alloc test_flush)
      (vr_frame_processor test_receiver)) = Some (CHIAKI_FRAME_PROCESSOR_FLUSH_RESULT_SUCCESS, test_frame)" by code_simp
  then show ?thesis by auto
qed

lemma test_frame_parsed:
  "chiaki_bitstream_slice (vs_asserts test_session) (fl_align test_flush) (vr_bitstream test_receiver) test_frame (fl_slice test_flush)
     = Some (True, \<lparr>sl_type = CHIAKI_BITSTREAM_SLICE_P, sl_reference_frame = 0\<rparr>)"
proof -
  have "vr_bitstream test_receiver = \<lparr>bs_codec = CHIAKI_CODEC_H265, bs_log2_minus4 = 0\<rparr>"
    by (simp add: test_receiver_def chiaki_video_receiver_init_def chiaki_bitstream_init_def test_session_def)
  then show ?thesis
    using slice_h265_spec [of test_nal_header test_p_header "[]" "\<lparr>bs_codec = CHIAKI_CODEC_H265, bs_log2_minus4 = 0\<rparr>"] test_p_slice_bits
    by (simp add: chiaki_bitstream_slice_def test_frame_def test_flush_def test_p_header_ok)
qed

lemma video_delivers_decodable_witness:
  "have_ref_frame (vr_reference_frames test_receiver) (ref_frame_index 8 0)"
proof -
  let ?sl = "\<lparr>sl_type = CHIAKI_BITSTREAM_SLICE_P, sl_reference_frame = 0\<rparr>"
  obtain fp where fp: "chiaki_frame_processor_flush (fl_decode test_flush) (fl_fec test_flush) (fl_fec_alloc test_flush)
      (vr_frame_processor test_receiver) = Some (CHIAKI_FRAME_PROCESSOR_FLUSH_RESULT_SUCCESS, test_frame, fp)"
    using test_flush_frame by blast
  have st: "vr_waiting_for_idr test_receiver = False" "vr_frame_index_cur test_receiver = 8"
    by (simp_all add: test_receiver_def chiaki_video_receiver_init_def)
  have "have_ref_frame (vr_reference_frames test_receiver) (ref_frame_index (vr_frame_index_cur test_receiver) 0)" by code_simp
  then have "check_reference test_session test_flush test_frame ?sl (test_receiver\<lparr>vr_frame_processor := fp\<rparr>)
      = Some (Deliver test_frame False, test_frame)" by (simp add: check_reference_def)
  then have "judge_frame test_session test_flush test_frame (test_receiver\<lparr>vr_frame_processor := fp\<rparr>)
      = Some (Deliver test_frame False, test_frame, test_receiver\<lparr>vr_frame_processor := fp\<rparr>)"
    using test_frame_parsed st(1) by (simp add: judge_frame_def chiaki_video_receiver_get_waiting_for_idr_def)
  then obtain vr' ev where f: "chiaki_video_receiver_flush_frame test_session test_flush test_receiver = Some (CHIAKI_ERR_SUCCESS, vr', ev)"
    "VideoSample test_frame 0 False \<in> set ev"
    using fp by (auto simp: chiaki_video_receiver_flush_frame_def deliver_def Let_def test_session_def test_flush_def store_frame_def
        test_receiver_def chiaki_video_receiver_init_def)
  from video_delivers_decodable [OF f fp test_frame_parsed] st show ?thesis by simp
qed

subsection \<open>Runs\<close>

type_synonym video_packet = "nat \<times> alloc_env \<times> flush_env \<times> flush_env \<times> takion_av_packet \<times> bytes"

fun video_run :: "video_session \<Rightarrow> video_packet list \<Rightarrow> video_receiver \<Rightarrow> (video_receiver \<times> video_event list) option" where
  "video_run S [] vr = Some (vr, [])"
| "video_run S ((align, A, E1, E2, p, data) # ps) vr = do {
     (vr, ev) \<leftarrow> chiaki_video_receiver_av_packet S align A E1 E2 p data vr;
     (vr, evs) \<leftarrow> video_run S ps vr;
     Some (vr, ev @ evs) }"

definition packet_frame :: "video_packet \<Rightarrow> u16" where
  "packet_frame x = (case x of (_, _, _, _, p, _) \<Rightarrow> av_frame_index p)"

text \<open>What a run over packets that are not of a newer frame shows to the decoder: the header of the profile
  of each packet, if it is another profile than the one before, there is one with that number, and the
  packet is not of an older frame.\<close>

fun profile_headers :: "video_session \<Rightarrow> video_profile list \<Rightarrow> u16 \<Rightarrow> int \<Rightarrow> video_packet list \<Rightarrow> video_event list" where
  "profile_headers S profiles f cur [] = []"
| "profile_headers S profiles f cur ((align, A, E1, E2, p, data) # ps) =
     (let i = av_adaptive_stream_index p in
      if chiaki_seq_num_lt (av_frame_index p) f \<or> cur = uint i \<or> length profiles \<le> unat i
      then profile_headers S profiles f cur ps
      else (if vs_video_sample_cb S then [VideoSample (vp_header (profiles ! unat i)) 0 False] else [])
        @ profile_headers S profiles f (uint i) ps)"

definition settled :: "int \<Rightarrow> video_receiver \<Rightarrow> bool" where
  "settled f vr \<longleftrightarrow> 0 \<le> f \<and> vr_frame_index_cur vr = f \<and> vr_frame_index_prev vr = f"

text \<open>All the state but the current profile, the parser's view of its header, the units of the frame
  processor and the statistics.\<close>

definition same_frames :: "video_receiver \<Rightarrow> video_receiver \<Rightarrow> bool" where
  "same_frames vr vr' \<longleftrightarrow> vr_profiles vr' = vr_profiles vr \<and> vr_frame_index_cur vr' = vr_frame_index_cur vr
     \<and> vr_frame_index_prev vr' = vr_frame_index_prev vr
     \<and> vr_frame_index_prev_complete vr' = vr_frame_index_prev_complete vr
     \<and> vr_frames_lost vr' = vr_frames_lost vr \<and> vr_frames_lost_total vr' = vr_frames_lost_total vr
     \<and> vr_reference_frames vr' = vr_reference_frames vr \<and> vr_waiting_for_idr vr' = vr_waiting_for_idr vr"

lemma same_frames_refl [simp]: "same_frames vr vr"
  by (simp add: same_frames_def)

lemma same_frames_trans [trans]: "same_frames vr vr1 \<Longrightarrow> same_frames vr1 vr2 \<Longrightarrow> same_frames vr vr2"
  by (simp add: same_frames_def)

lemma switch_profile_settled:
  assumes "switch_profile S align i vr = Some (dropped, vr', ev)"
  shows "same_frames vr vr' \<and> (if vr_profile_cur vr = uint i then \<not> dropped \<and> ev = [] \<and> vr_profile_cur vr' = vr_profile_cur vr
     else if length (vr_profiles vr) \<le> unat i then dropped \<and> ev = [] \<and> vr_profile_cur vr' = vr_profile_cur vr
     else \<not> dropped \<and> vr_profile_cur vr' = uint i
       \<and> ev = (if vs_video_sample_cb S then [VideoSample (vp_header (vr_profiles vr ! unat i)) 0 False] else []))"
proof -
  have "vr_profile_cur vr < 0 \<Longrightarrow> vr_profile_cur vr \<noteq> uint i" using uint_ge_0 [of i] by linarith
  then show ?thesis using assms
    by (auto simp: switch_profile_def same_frames_def Let_def bind_eq_Some_conv split: if_splits)
qed

lemma packet_unit_settled:
  "packet_unit S E p data vr = Some (vr', ev) \<Longrightarrow> settled f vr
     \<Longrightarrow> same_frames vr vr' \<and> vr_profile_cur vr' = vr_profile_cur vr \<and> ev = []"
  by (auto simp: packet_unit_def settled_def same_frames_def Let_def bind_eq_Some_conv split: if_splits)

lemma av_packet_settled:
  assumes "chiaki_video_receiver_av_packet S align A E1 E2 p data vr = Some (vr', ev)" "settled f vr"
    "\<not> chiaki_seq_num_gt (av_frame_index p) (word_of_int f)"
  shows "same_frames vr vr' \<and> profile_headers S (vr_profiles vr) (word_of_int f) (vr_profile_cur vr) ((align, A, E1, E2, p, data) # ps)
     = ev @ profile_headers S (vr_profiles vr) (word_of_int f) (vr_profile_cur vr') ps"
proof (cases "chiaki_seq_num_lt (av_frame_index p) (word_of_int f)")
  case True
  then show ?thesis using assms(1,2) by (simp add: chiaki_video_receiver_av_packet_def settled_def)
next
  case False
  have f: "0 \<le> f" "vr_frame_index_cur vr = f" using assms(2) by (simp_all add: settled_def)
  then obtain dropped vr1 ev1 where sw: "switch_profile S align (av_adaptive_stream_index p) vr = Some (dropped, vr1, ev1)"
    using assms(1) False by (auto simp: chiaki_video_receiver_av_packet_def Let_def bind_eq_Some_conv)
  note vr1 = switch_profile_settled [OF this]
  have st: "settled f vr1" using vr1 assms(2) by (simp add: settled_def same_frames_def)
  consider "dropped" "vr' = vr1" "ev = ev1"
    | ev3 where "\<not> dropped" "packet_unit S E2 p data vr1 = Some (vr', ev3)" "ev = ev1 @ ev3"
    using assms(1,3) False f sw
    by (auto simp: chiaki_video_receiver_av_packet_def Let_def bind_eq_Some_conv split: if_splits)
  then show ?thesis
  proof cases
    case 1
    then show ?thesis using vr1 False by (auto split: if_splits)
  next
    case 2
    note p = packet_unit_settled [OF 2(2) st]
    have "same_frames vr vr'" using vr1 p same_frames_trans by blast
    then show ?thesis using vr1 p 2 False by (auto simp: Let_def split: if_splits)
  qed
qed

text \<open>C31. A frame is done with once: after the current frame was delivered, skipped or given up, no run of packets
  that are not of a newer frame makes the receiver deliver, report or request anything: the events are
  exactly the headers of the profiles the packets switch to, and the frame numbers, the counts of lost
  frames, the reference frames and the wait for an IDR frame stay as they are.\<close>

theorem video_frame_settled:
  assumes "video_run S ps vr = Some (vr', ev)" "0 \<le> vr_frame_index_cur vr" "vr_frame_index_prev vr = vr_frame_index_cur vr"
    "\<forall>x\<in>set ps. \<not> chiaki_seq_num_gt (packet_frame x) (word_of_int (vr_frame_index_cur vr))"
  shows "same_frames vr vr'
    \<and> ev = profile_headers S (vr_profiles vr) (word_of_int (vr_frame_index_cur vr)) (vr_profile_cur vr) ps"
proof -
  have "settled f vr \<Longrightarrow> \<forall>x\<in>set ps. \<not> chiaki_seq_num_gt (packet_frame x) (word_of_int f) \<Longrightarrow> video_run S ps vr = Some (vr', ev)
    \<Longrightarrow> same_frames vr vr' \<and> ev = profile_headers S (vr_profiles vr) (word_of_int f) (vr_profile_cur vr) ps" for f
  proof (induction S ps vr arbitrary: ev rule: video_run.induct)
    case (2 S align A E1 E2 p data ps vr)
    obtain vr1 ev1 ev2 where r: "chiaki_video_receiver_av_packet S align A E1 E2 p data vr = Some (vr1, ev1)"
      "video_run S ps vr1 = Some (vr', ev2)" "ev = ev1 @ ev2" using 2(4) by (auto simp: bind_eq_Some_conv)
    have step: "same_frames vr vr1" "profile_headers S (vr_profiles vr) (word_of_int f) (vr_profile_cur vr)
        ((align, A, E1, E2, p, data) # ps) = ev1 @ profile_headers S (vr_profiles vr) (word_of_int f) (vr_profile_cur vr1) ps"
      using av_packet_settled [OF r(1) 2(2)] 2(3) by (simp_all add: packet_frame_def)
    then have "settled f vr1" "vr_profiles vr1 = vr_profiles vr" using 2(2) by (simp_all add: settled_def same_frames_def)
    then have "same_frames vr1 vr' \<and> ev2 = profile_headers S (vr_profiles vr) (word_of_int f) (vr_profile_cur vr1) ps"
      using 2(1) [OF r(1) refl _ _ r(2)] 2(3) by simp
    then show ?case using step r(3) same_frames_trans by metis
  qed simp
  then show ?thesis using assms by (simp add: settled_def)
qed

definition test_packet :: "u16 \<Rightarrow> takion_av_packet" where
  "test_packet frame_index =
     \<lparr>av_packet_index = 3, av_frame_index = frame_index, av_uses_nalu = False, av_is_video = True, av_is_haptics = False,
      av_unit_index = 0, av_units_total = 2, av_units_fec = 1, av_codec = 0, av_word_at_0x18 = 0,
      av_adaptive_stream_index = 0, av_byte_at_0x2c = 0, av_key_pos = 0, av_data = 0, av_data_size = 0\<rparr>"

definition test_packets :: "video_packet list" where
  "test_packets = map (\<lambda>i. (0, \<lparr>al_slots = True, al_frame = True\<rparr>, test_flush, test_flush, test_packet i, [])) [8, 7]"

lemma video_frame_settled_witness:
  "\<exists>vr' ev. video_run test_session test_packets (test_receiver\<lparr>vr_frame_index_prev := 8\<rparr>) = Some (vr', ev)
    \<and> vr_frame_index_cur vr' = 8"
proof -
  let ?vr = "test_receiver\<lparr>vr_frame_index_prev := 8\<rparr>"
  have "map_option snd (video_run test_session test_packets ?vr) = Some []" by code_simp
  then obtain vr' where r: "video_run test_session test_packets ?vr = Some (vr', [])" by auto
  have "\<forall>x\<in>set test_packets. \<not> chiaki_seq_num_gt (packet_frame x) (word_of_int (vr_frame_index_cur ?vr))" by code_simp
  moreover have "vr_frame_index_cur ?vr = 8" by (simp add: test_receiver_def)
  ultimately show ?thesis using video_frame_settled [OF r] r by (simp add: same_frames_def)
qed

subsection \<open>Frames lost\<close>

text \<open>The frames a list of events reports as not restored, and the loss the code counts for them.\<close>

fun fec_failures :: "video_event list \<Rightarrow> int list" where
  "fec_failures [] = []"
| "fec_failures (VideoFecFailure f sent # ev) = f # fec_failures ev"
| "fec_failures (_ # ev) = fec_failures ev"

lemma fec_failures_append [simp]: "fec_failures (ev @ ev') = fec_failures ev @ fec_failures ev'"
  by (induction ev rule: fec_failures.induct) auto

fun nothing_shown :: "video_event list \<Rightarrow> bool" where
  "nothing_shown [] \<longleftrightarrow> True"
| "nothing_shown (VideoSample data lost recovered # ev) \<longleftrightarrow> False"
| "nothing_shown (_ # ev) \<longleftrightarrow> nothing_shown ev"

lemma nothing_shown_append [simp]: "nothing_shown (ev @ ev') \<longleftrightarrow> nothing_shown ev \<and> nothing_shown ev'"
  by (induction ev rule: nothing_shown.induct) auto

definition losses_counted :: "video_receiver \<Rightarrow> video_receiver \<Rightarrow> video_event list \<Rightarrow> bool" where
  "losses_counted vr vr' ev \<longleftrightarrow> vr_waiting_for_idr vr' \<and> vr_frame_index_prev_complete vr' = vr_frame_index_prev_complete vr
     \<and> vr_frames_lost_total vr' = vr_frames_lost_total vr + (\<Sum>f\<leftarrow>fec_failures ev. f - uint (next_frame_expected vr) + 1)"

lemma losses_counted_append:
  "losses_counted vr vr1 ev \<Longrightarrow> losses_counted vr1 vr2 ev' \<Longrightarrow> losses_counted vr vr2 (ev @ ev')"
  by (simp add: losses_counted_def next_frame_expected_def)

definition idr_session :: "video_session \<Rightarrow> bool" where
  "idr_session S \<longleftrightarrow> vs_video_sample_cb S \<and> vs_enable_idr_on_fec_failure S"

lemma flush_frame_counted:
  assumes "chiaki_video_receiver_flush_frame S E vr = Some (err, vr', ev)" "vr_waiting_for_idr vr" "nothing_shown ev"
    "idr_session S"
  shows "losses_counted vr vr' ev"
  using assms
  by (auto simp: idr_session_def chiaki_video_receiver_flush_frame_def fec_failed_def judge_frame_def deliver_def
      store_frame_def count_lost_def add_int32_def losses_counted_def next_frame_expected_def
      chiaki_video_receiver_get_waiting_for_idr_def Let_def bind_eq_Some_conv split: if_splits)

lemma losses_counted_same:
  "vr_waiting_for_idr vr \<Longrightarrow> vr_waiting_for_idr vr' \<Longrightarrow> vr_frame_index_prev_complete vr' = vr_frame_index_prev_complete vr
     \<Longrightarrow> vr_frames_lost_total vr' = vr_frames_lost_total vr \<Longrightarrow> fec_failures ev = [] \<Longrightarrow> losses_counted vr vr' ev"
  by (simp add: losses_counted_def)

lemma next_frame_counted:
  assumes "next_frame S E A p data vr = Some (vr', ev)" "vr_waiting_for_idr vr" "nothing_shown ev" "idr_session S"
  shows "losses_counted vr vr' ev"
proof -
  let ?vr = "vr\<lparr>vr_packet_stats := map_option (chiaki_frame_processor_report_packet_stats (vr_frame_processor vr)) (vr_packet_stats vr)\<rparr>"
  obtain vr1 ev1 fp ev2 where vr1: "vr' = vr1\<lparr>vr_frame_index_cur := uint (av_frame_index p), vr_frame_processor := fp\<rparr>"
      "ev = ev1 @ ev2" "fec_failures ev2 = []"
    and r: "vr1 = ?vr \<and> ev1 = [] \<or> (\<exists>err. chiaki_video_receiver_flush_frame S E ?vr = Some (err, vr1, ev1))"
  proof (cases "0 \<le> vr_frame_index_cur vr \<and> vr_frame_index_prev vr \<noteq> vr_frame_index_cur vr")
    case True
    then obtain err vr1 ev1 where f: "chiaki_video_receiver_flush_frame S E ?vr = Some (err, vr1, ev1)"
      using assms(1) by (auto simp: next_frame_def Let_def bind_eq_Some_conv)
    then show ?thesis using that [of _ vr1 ev1] True assms(1)
      by (auto simp: next_frame_def Let_def bind_eq_Some_conv split: if_splits)
  next
    case False
    then show ?thesis using that [of _ ?vr "[]"] assms(1)
      by (auto simp: next_frame_def Let_def bind_eq_Some_conv split: if_splits)
  qed
  have "losses_counted ?vr vr1 ev1"
    using r flush_frame_counted [of S E ?vr _ vr1 ev1] assms(2-4) vr1(2) by (auto intro: losses_counted_same)
  then show ?thesis using vr1 by (simp add: losses_counted_def next_frame_expected_def)
qed

lemma packet_unit_counted:
  assumes "packet_unit S E p data vr = Some (vr', ev)" "vr_waiting_for_idr vr" "nothing_shown ev" "idr_session S"
  shows "losses_counted vr vr' ev"
proof -
  obtain fp where "vr' = vr\<lparr>vr_frame_processor := fp\<rparr> \<and> ev = []
      \<or> (\<exists>err. chiaki_video_receiver_flush_frame S E (vr\<lparr>vr_frame_processor := fp\<rparr>) = Some (err, vr', ev))"
    using assms(1) by (auto simp: packet_unit_def Let_def bind_eq_Some_conv split: if_splits)
  then have "losses_counted (vr\<lparr>vr_frame_processor := fp\<rparr>) vr' ev"
    using flush_frame_counted [of S E "vr\<lparr>vr_frame_processor := fp\<rparr>" _ vr' ev] assms(2-4)
    by (auto intro: losses_counted_same)
  then show ?thesis by (simp add: losses_counted_def next_frame_expected_def)
qed

lemma av_packet_counted:
  assumes "chiaki_video_receiver_av_packet S align A E1 E2 p data vr = Some (vr', ev)" "vr_waiting_for_idr vr"
    "nothing_shown ev" "idr_session S"
  shows "losses_counted vr vr' ev"
proof (cases "0 \<le> vr_frame_index_cur vr \<and> chiaki_seq_num_lt (av_frame_index p) (word_of_int (vr_frame_index_cur vr))")
  case True
  then show ?thesis using assms by (simp add: chiaki_video_receiver_av_packet_def losses_counted_same)
next
  case False
  then obtain dropped vr1 ev1 where sw: "switch_profile S align (av_adaptive_stream_index p) vr = Some (dropped, vr1, ev1)"
    using assms(1) by (auto simp: chiaki_video_receiver_av_packet_def Let_def bind_eq_Some_conv)
  note same = switch_profile_settled [OF this]
  have one: "nothing_shown ev1 \<Longrightarrow> losses_counted vr vr1 ev1"
    using same assms(2,4) by (auto simp: same_frames_def losses_counted_def idr_session_def split: if_splits)
  show ?thesis
  proof (cases dropped)
    case True
    then show ?thesis using assms(1,3) False sw one
      by (auto simp: chiaki_video_receiver_av_packet_def Let_def split: if_splits)
  next
    case live: False
    obtain vr2 ev2 ev3 where r: "vr2 = vr1 \<and> ev2 = [] \<or> next_frame S E1 A p data vr1 = Some (vr2, ev2)"
        "packet_unit S E2 p data vr2 = Some (vr', ev3)" "ev = ev1 @ ev2 @ ev3"
      using assms(1) False sw live
      by (auto simp: chiaki_video_receiver_av_packet_def Let_def bind_eq_Some_conv split: if_splits)
    have n: "nothing_shown ev1" "nothing_shown ev2" "nothing_shown ev3" using assms(3) r(3) by simp_all
    note c1 = one [OF n(1)]
    then have w: "vr_waiting_for_idr vr1" by (simp add: losses_counted_def)
    have c2: "losses_counted vr1 vr2 ev2"
      using r(1) next_frame_counted [OF _ w n(2) assms(4)] w by (auto intro: losses_counted_same)
    then have "vr_waiting_for_idr vr2" by (simp add: losses_counted_def)
    from packet_unit_counted [OF r(2) this n(3) assms(4)] show ?thesis
      using c1 c2 r(3) losses_counted_append by blast
  qed
qed

lemma video_run_counted:
  "video_run S ps vr = Some (vr', ev) \<Longrightarrow> vr_waiting_for_idr vr \<Longrightarrow> nothing_shown ev \<Longrightarrow> idr_session S
     \<Longrightarrow> losses_counted vr vr' ev"
proof (induction S ps vr arbitrary: ev rule: video_run.induct)
  case (1 S vr)
  then show ?case by (auto intro: losses_counted_same)
next
  case (2 S align A E1 E2 p data ps vr)
  obtain vr1 ev1 ev2 where r: "chiaki_video_receiver_av_packet S align A E1 E2 p data vr = Some (vr1, ev1)"
    "video_run S ps vr1 = Some (vr', ev2)" "ev = ev1 @ ev2" using 2(2) by (auto simp: bind_eq_Some_conv)
  have n: "nothing_shown ev1" "nothing_shown ev2" using 2(4) r(3) by simp_all
  note c = av_packet_counted [OF r(1) 2(3) n(1) 2(5)]
  then have "vr_waiting_for_idr vr1" by (simp add: losses_counted_def)
  then show ?case using 2(1) [OF r(1) refl r(2) _ n(2) 2(5)] c r(3) losses_counted_append by blast
qed

lemma uint_next_frame_expected:
  "uint (next_frame_expected vr) = (vr_frame_index_prev_complete vr + 1) mod 2 ^ 16"
  unfolding next_frame_expected_def uint_word_of_int by simp

lemma sum_first: "2 * (\<Sum>i\<leftarrow>[0..<n]. int i + 1) = int n * (int n + 1)"
  by (induction n) (simp_all add: algebra_simps)

text \<open>C33. Frames lost one after the other are counted again with each of them.  In every run of packets in
  which nothing is handed to the decoder, while an IDR frame is waited for (in a session that asks for them),
  the total grows for each frame \<open>f\<close> that the error correction cannot restore by its distance from the last
  complete frame, \<open>f - (prev_complete + 1) mod 2 ^ 16 + 1\<close>, negative when the frame numbers have wrapped
  in between.  So if the \<open>n\<close> frames after the last complete one are lost, and no number wraps, it grows by
  \<open>1 + 2 + \<dots> + n\<close> and not by \<open>n\<close>.\<close>

theorem video_losses_recounted:
  assumes "video_run S ps vr = Some (vr', ev)" "vr_waiting_for_idr vr" "nothing_shown ev" "idr_session S"
  defines "grown \<equiv> chiaki_video_receiver_get_frames_lost_total vr' - chiaki_video_receiver_get_frames_lost_total vr"
    and "c \<equiv> vr_frame_index_prev_complete vr"
  shows "grown = (\<Sum>f\<leftarrow>fec_failures ev. f - (c + 1) mod 2 ^ 16 + 1)
    \<and> (0 \<le> c \<and> c + int n < 2 ^ 16 \<and> fec_failures ev = map (\<lambda>i. c + 1 + int i) [0..<n]
        \<longrightarrow> 2 * grown = int n * (int n + 1))"
proof -
  have g: "grown = (\<Sum>f\<leftarrow>fec_failures ev. f - (c + 1) mod 2 ^ 16 + 1)"
    using video_run_counted [OF assms(1-4)]
    by (simp add: losses_counted_def grown_def c_def chiaki_video_receiver_get_frames_lost_total_def
        uint_next_frame_expected)
  moreover have "2 * grown = int n * (int n + 1)"
    if h: "0 \<le> c" "c + int n < 2 ^ 16" "fec_failures ev = map (\<lambda>i. c + 1 + int i) [0..<n]"
  proof (cases "n = 0")
    case False
    then have "(c + 1) mod 2 ^ 16 = c + 1" using h(1,2) by (intro mod_pos_pos_trivial) auto
    then show ?thesis using sum_first [of n] unfolding g h(3) by (simp add: comp_def add.commute)
  qed (use g h in simp)
  ultimately show ?thesis by blast
qed

text \<open>A receiver with one of two units in its frame processor, and the packets of four frames, which say that
  they have more units of the error correction than units, so that their frames are refused.\<close>

definition test_loser :: video_receiver where
  "test_loser = test_receiver
     \<lparr>vr_frame_index_cur := 7, vr_profile_cur := 0, vr_waiting_for_idr := True,
      vr_frame_processor := chiaki_frame_processor_init
        \<lparr>fp_frame_buf := Some (replicate 48 0), fp_frame_buf_size := 48, fp_buf_stride_per_unit := 16,
         fp_buf_size_per_unit := 4, fp_units_source_expected := 2, fp_units_fec_expected := 1,
         fp_units_source_received := 1, fp_unit_slots := Some [4, 0, 0], fp_unit_slots_size := 3, fp_flushed := False\<rparr>\<rparr>"

definition test_losses :: "video_packet list" where
  "test_losses = map (\<lambda>i. (0, \<lparr>al_slots = True, al_frame = True\<rparr>, test_flush, test_flush,
     (test_packet i)\<lparr>av_units_total := 0\<rparr>, [])) [8, 9, 10, 11]"

lemma video_losses_recounted_witness:
  "\<exists>vr' ev. video_run test_session test_losses test_loser = Some (vr', ev)
    \<and> fec_failures ev = [8, 9, 10] \<and> chiaki_video_receiver_get_frames_lost_total vr' = 6"
proof -
  have "map_option (\<lambda>(vr, ev). (fec_failures ev, nothing_shown ev)) (video_run test_session test_losses test_loser)
      = Some ([8, 9, 10], True)" by code_simp
  then obtain vr' ev where r: "video_run test_session test_losses test_loser = Some (vr', ev)"
      "fec_failures ev = [8, 9, 10]" "nothing_shown ev" by auto
  have vr: "vr_frame_index_prev_complete test_loser = 7" "vr_frames_lost_total test_loser = 0" "vr_waiting_for_idr test_loser"
    by (simp_all add: test_loser_def test_receiver_def chiaki_video_receiver_init_def)
  have "idr_session test_session" by (simp add: idr_session_def test_session_def)
  from video_losses_recounted [OF r(1) vr(3) r(3) this, of 3] show ?thesis
    using r vr by (simp add: chiaki_video_receiver_get_frames_lost_total_def numeral_3_eq_3)
qed

end
