(* ===== verification/Rudp.thy ===== *)
theory Rudp
  imports SendBuffer
begin

text \<open>
  \<^verbatim>\<open>lib/src/remote/rudp.c\<close>: the protocol on UDP that carries the control connection over the internet.

  A datagram is a chain of messages, each with a header of eight bytes that gives its own length.
  Sending serializes into a block of the size computed beforehand (\<open>None\<close> when it is too small); the
  outcome of allocations, of \<open>send\<close>, of the lock and of the clock is an environment.  The result is
  the status code, the instance and the datagrams that went out.
\<close>

subsection \<open>Messages\<close>

definition RUDP_CONSTANT :: u32 where "RUDP_CONSTANT = 0x244F244F"
definition RUDP_SEND_BUFFER_SIZE :: nat where "RUDP_SEND_BUFFER_SIZE = 16"
definition RUDP_EXPECT_TIMEOUT_MS :: u64 where "RUDP_EXPECT_TIMEOUT_MS = 1000"

text \<open>The enumeration of packet types; a received type can be any number of sixteen bits.\<close>

definition INIT_REQUEST :: u16 where "INIT_REQUEST = 0x8030"
definition INIT_RESPONSE :: u16 where "INIT_RESPONSE = 0xD000"
definition COOKIE_REQUEST :: u16 where "COOKIE_REQUEST = 0x9030"
definition COOKIE_RESPONSE :: u16 where "COOKIE_RESPONSE = 0xA030"
definition SESSION_MESSAGE :: u16 where "SESSION_MESSAGE = 0x2030"
definition ACK :: u16 where "ACK = 0x2430"
definition CTRL_MESSAGE :: u16 where "CTRL_MESSAGE = 0x0230"
definition FINISH :: u16 where "FINISH = 0xC000"

lemmas rudp_types = INIT_REQUEST_def INIT_RESPONSE_def COOKIE_REQUEST_def COOKIE_RESPONSE_def SESSION_MESSAGE_def
  ACK_def CTRL_MESSAGE_def FINISH_def

datatype rudp_message = RudpMessage
  (rm_subtype: u8) (rm_type: u16) (rm_size: u16) (rm_data: "bytes option") (rm_data_size: nat)
  (rm_remote_counter: u16) (rm_sub: "rudp_message option") (rm_sub_size: u16)

text \<open>\<open>(0xC << 12) | size\<close>, stored in sixteen bits.\<close>

definition rudp_size :: "nat \<Rightarrow> u16" where
  "rudp_size n = 0xC000 OR of_nat n"

definition rudp_new :: "u16 \<Rightarrow> nat \<Rightarrow> bytes \<Rightarrow> rudp_message option \<Rightarrow> rudp_message" where
  "rudp_new type sz data sub = RudpMessage 0 type (rudp_size sz) (Some data) (length data) 0 sub 0"

primrec rudp_message_serialize :: "rudp_message \<Rightarrow> bytes \<Rightarrow> nat \<Rightarrow> nat \<Rightarrow> (bytes \<times> nat) option" where
  "rudp_message_serialize (RudpMessage st type sz data data_size rc sub sub_size) buf off msg_size = do {
     buf \<leftarrow> wr_slice buf off (be16 sz);
     buf \<leftarrow> wr_slice buf (off + 2) (be32 RUDP_CONSTANT);
     buf \<leftarrow> wr_slice buf (off + 6) (be16 type);
     data \<leftarrow> data;
     data \<leftarrow> rd_slice data 0 data_size;
     buf \<leftarrow> wr_slice buf (off + 8) data;
     let msg_size = msg_size + 8 + data_size;
     (case map_option (\<lambda>sub. rudp_message_serialize sub) sub of
        None \<Rightarrow> Some (buf, msg_size)
      | Some ser \<Rightarrow> ser buf (off + 8 + data_size) msg_size) }"

text \<open>The parser, at depth \<open>d\<close> of the chain; \<open>alloc\<close> says which allocations succeed.  What is written
  to the message before an error is part of the result.\<close>

definition rudp_length :: "u16 \<Rightarrow> nat" where
  "rudp_length sz = unat (sz AND 0x0FFF)"

definition rudp_data_size :: "u16 \<Rightarrow> nat \<Rightarrow> nat" where
  "rudp_data_size sz remaining = (if 8 < rudp_length sz then min remaining (rudp_length sz - 8) else 0)"

definition rudp_counter :: "bytes \<Rightarrow> u16" where
  "rudp_counter data = (if 2 \<le> length data then of_be16 (data ! 0) (data ! 1) + 1 else 0)"

function chiaki_rudp_message_parse :: "(nat \<Rightarrow> bool) \<Rightarrow> nat \<Rightarrow> bytes \<Rightarrow> (chiaki_error \<times> rudp_message) option" where
  "chiaki_rudp_message_parse alloc d msg =
     (if length msg < 8 then None
      else
        let sz = of_be16 (msg ! 0) (msg ! 1); type = of_be16 (msg ! 6) (msg ! 7); subtype = msg ! 6;
            data_size = rudp_data_size sz (length msg - 8);
            remaining = length msg - 8 - data_size;
            data = take data_size (drop 8 msg);
            has_data = 8 < rudp_length sz;
            m = (\<lambda>data sub sub_size. RudpMessage subtype type sz data data_size
                   (case data of None \<Rightarrow> 0 | Some b \<Rightarrow> rudp_counter b) sub sub_size)
        in if has_data \<and> \<not> alloc (2 * d) then Some (CHIAKI_ERR_MEMORY, m None None 0)
        else let data = (if has_data then Some data else None) in
          if remaining < 8 then Some (CHIAKI_ERR_SUCCESS, m data None 0)
          else if \<not> alloc (2 * d + 1) then Some (CHIAKI_ERR_MEMORY, m data None 0)
          else do {
            (err, sub) \<leftarrow> chiaki_rudp_message_parse alloc (d + 1) (drop (8 + data_size) msg);
            Some (err, m data (Some sub) (of_nat remaining)) })"
  by pat_completeness auto
termination
  by (relation "measure (\<lambda>(alloc, d, msg). length msg)") auto

declare chiaki_rudp_message_parse.simps [simp del]

text \<open>Freeing: the number of blocks given back, and the message without them.\<close>

primrec rudp_blocks :: "rudp_message \<Rightarrow> nat" where
  "rudp_blocks (RudpMessage st type sz data data_size rc sub sub_size) =
     (if data = None then 0 else 1)
     + (case map_option rudp_blocks sub of None \<Rightarrow> 0 | Some n \<Rightarrow> n + 1)"

definition chiaki_rudp_message_pointers_free :: "rudp_message \<Rightarrow> rudp_message \<times> nat" where
  "chiaki_rudp_message_pointers_free m =
     (RudpMessage (rm_subtype m) (rm_type m) (rm_size m) None (rm_data_size m) (rm_remote_counter m) None (rm_sub_size m),
      rudp_blocks m)"

text \<open>The data of the outer message and the block of the inner one are freed.\<close>

definition assign_submessage_to_message :: "rudp_message \<Rightarrow> rudp_message option" where
  "assign_submessage_to_message m = rm_sub m"

subsection \<open>The instance\<close>

record rudp =
  ru_counter :: u16
  ru_header :: u32
  ru_sock_valid :: bool
  ru_send_buffer :: "u16 send_buffer"

record rudp_env =
  re_alloc :: bool
  re_send_ok :: bool
  re_lock :: chiaki_error
  re_now :: u64

text \<open>\<open>r1\<close> and \<open>r2\<close> are the two random numbers.\<close>

definition chiaki_rudp_reset_counter_header :: "u32 \<Rightarrow> u32 \<Rightarrow> rudp \<Rightarrow> rudp" where
  "chiaki_rudp_reset_counter_header r1 r2 ru =
     ru\<lparr>ru_counter := ucast (r1 mod 0x5E00 + 0x1FF), ru_header := r2 + 0x8000\<rparr>"

text \<open>\<open>None\<close> is the null pointer.\<close>

definition chiaki_rudp_init ::
    "bool \<Rightarrow> chiaki_error \<Rightarrow> chiaki_error \<Rightarrow> u32 \<Rightarrow> u32 \<Rightarrow> bool \<Rightarrow> chiaki_error + u16 send_buffer \<Rightarrow> rudp option" where
  "chiaki_rudp_init alloc mutex pipe r1 r2 sock_valid sb =
     (if \<not> alloc \<or> mutex \<noteq> CHIAKI_ERR_SUCCESS \<or> pipe \<noteq> CHIAKI_ERR_SUCCESS then None
      else case sb of Inl _ \<Rightarrow> None
      | Inr b \<Rightarrow> Some (chiaki_rudp_reset_counter_header r1 r2
          \<lparr>ru_counter = 0, ru_header = 0, ru_sock_valid = sock_valid, ru_send_buffer = b\<rparr>))"

definition get_then_increase_counter :: "rudp \<Rightarrow> u16 \<times> rudp" where
  "get_then_increase_counter ru =
     (ru_counter ru, ru\<lparr>ru_counter := (if ru_counter ru = 0xFFFF then 0 else ru_counter ru + 1)\<rparr>)"

definition chiaki_rudp_get_local_counter :: "rudp \<Rightarrow> u16" where
  "chiaki_rudp_get_local_counter ru = ru_counter ru"

definition chiaki_rudp_send_raw :: "rudp_env \<Rightarrow> rudp \<Rightarrow> bytes \<Rightarrow> chiaki_error \<times> bytes list" where
  "chiaki_rudp_send_raw E ru buf =
     (if \<not> ru_sock_valid ru then (CHIAKI_ERR_DISCONNECTED, [])
      else if \<not> re_send_ok E then (CHIAKI_ERR_NETWORK, [])
      else (CHIAKI_ERR_SUCCESS, [buf]))"

text \<open>What all senders do: allocate, serialize, send.\<close>

definition rudp_serialize_send ::
    "rudp_env \<Rightarrow> rudp \<Rightarrow> nat \<Rightarrow> rudp_message \<Rightarrow> (chiaki_error \<times> bytes option \<times> bytes list) option" where
  "rudp_serialize_send E ru alloc_size m =
     (if \<not> re_alloc E then Some (CHIAKI_ERR_MEMORY, None, [])
      else do {
        (buf, msg_size) \<leftarrow> rudp_message_serialize m (replicate alloc_size 0) 0 0;
        buf \<leftarrow> rd_slice buf 0 msg_size;
        (case chiaki_rudp_send_raw E ru buf of (err, sent) \<Rightarrow> Some (err, Some buf, sent)) })"

definition rudp_send_simple ::
    "rudp_env \<Rightarrow> rudp \<Rightarrow> nat \<Rightarrow> rudp_message \<Rightarrow> (chiaki_error \<times> rudp \<times> bytes list) option" where
  "rudp_send_simple E ru alloc_size m = do {
     (err, _, sent) \<leftarrow> rudp_serialize_send E ru alloc_size m;
     Some (err, ru, sent) }"

definition after_header :: bytes where "after_header = [0x05, 0x82]"
definition after_counter :: bytes where "after_counter = [0x0B, 0x01, 0x01, 0x00, 0x01, 0x00]"

definition chiaki_rudp_send_init_message :: "rudp_env \<Rightarrow> rudp \<Rightarrow> (chiaki_error \<times> rudp \<times> bytes list) option" where
  "chiaki_rudp_send_init_message E ru =
     (case get_then_increase_counter ru of (counter, ru) \<Rightarrow>
        rudp_send_simple E ru (8 + 14)
          (rudp_new INIT_REQUEST (8 + 14) (be16 counter @ after_counter @ be32 (ru_header ru) @ after_header) None))"

definition chiaki_rudp_send_cookie_message ::
    "rudp_env \<Rightarrow> rudp \<Rightarrow> bytes \<Rightarrow> (chiaki_error \<times> rudp \<times> bytes list) option" where
  "chiaki_rudp_send_cookie_message E ru response =
     (case get_then_increase_counter ru of (counter, ru) \<Rightarrow>
        rudp_send_simple E ru (8 + (14 + length response))
          (rudp_new COOKIE_REQUEST (8 + (14 + length response))
             (be16 counter @ after_counter @ be32 (ru_header ru) @ after_header @ response) None))"

definition chiaki_rudp_send_session_message ::
    "rudp_env \<Rightarrow> rudp \<Rightarrow> u16 \<Rightarrow> bytes \<Rightarrow> (chiaki_error \<times> rudp \<times> bytes list) option" where
  "chiaki_rudp_send_session_message E ru remote_counter msg =
     (case get_then_increase_counter ru of (counter, ru) \<Rightarrow>
        rudp_send_simple E ru (8 + 4 + 8 + (2 + length msg))
          (rudp_new SESSION_MESSAGE (8 + 4) (be16 counter @ be16 remote_counter)
             (Some (rudp_new CTRL_MESSAGE (8 + (2 + length msg)) (be16 counter @ msg) None))))"

definition chiaki_rudp_send_ack_message :: "rudp_env \<Rightarrow> rudp \<Rightarrow> u16 \<Rightarrow> (chiaki_error \<times> rudp \<times> bytes list) option" where
  "chiaki_rudp_send_ack_message E ru remote_counter =
     rudp_send_simple E ru (8 + 6)
       (rudp_new ACK (8 + 6) (be16 (ru_counter ru) @ be16 remote_counter @ [0x00, 0x92]) None)"

text \<open>A control message is kept until it is acknowledged, under the counter after its own.\<close>

definition rudp_send_kept ::
    "rudp_env \<Rightarrow> rudp \<Rightarrow> nat \<Rightarrow> rudp_message \<Rightarrow> (chiaki_error \<times> rudp \<times> bytes list) option" where
  "rudp_send_kept E ru alloc_size m = do {
     (err, buf, sent) \<leftarrow> rudp_serialize_send E ru alloc_size m;
     (case buf of
        None \<Rightarrow> Some (err, ru, sent)
      | Some buf \<Rightarrow>
          if err \<noteq> CHIAKI_ERR_SUCCESS then Some (err, ru, sent)
          else do {
            r \<leftarrow> chiaki_rudp_send_buffer_push (re_lock E) (re_now E) (ru_send_buffer ru) (ru_counter ru) buf;
            Some (pr_err r, ru\<lparr>ru_send_buffer := pr_buffer r\<rparr>, sent) }) }"

definition chiaki_rudp_send_ctrl_message ::
    "rudp_env \<Rightarrow> rudp \<Rightarrow> bytes \<Rightarrow> (chiaki_error \<times> rudp \<times> bytes list) option" where
  "chiaki_rudp_send_ctrl_message E ru msg =
     (case get_then_increase_counter ru of (counter, ru) \<Rightarrow>
        rudp_send_kept E ru (8 + (2 + length msg))
          (rudp_new CTRL_MESSAGE (8 + (2 + length msg)) (be16 counter @ msg) None))"

text \<open>\<open>r\<close> are the sixteen random bytes.\<close>

definition chiaki_rudp_send_switch_to_stream_connection_message ::
    "rudp_env \<Rightarrow> bytes \<Rightarrow> rudp \<Rightarrow> (chiaki_error \<times> rudp \<times> bytes list) option" where
  "chiaki_rudp_send_switch_to_stream_connection_message E r ru =
     (case get_then_increase_counter ru of (counter, ru) \<Rightarrow>
        rudp_send_kept E ru (8 + 26)
          (rudp_new CTRL_MESSAGE (8 + 26)
             (be16 counter @ [0x00, 0x00, 0x00, 0x10, 0x00, 0x0D, 0x00, 0x00] @ r) None))"

definition chiaki_rudp_ack_packet :: "chiaki_error \<Rightarrow> rudp \<Rightarrow> u16 \<Rightarrow> (chiaki_error \<times> rudp) option" where
  "chiaki_rudp_ack_packet lk ru counter_to_ack = do {
     r \<leftarrow> chiaki_rudp_send_buffer_ack lk (Some RUDP_SEND_BUFFER_SIZE) (ru_send_buffer ru) counter_to_ack;
     Some (ar_err r, ru\<lparr>ru_send_buffer := ar_buffer r\<rparr>) }"

subsection \<open>Receiving\<close>

text \<open>What selecting and receiving gives: an error of the selection, a failure, or a datagram.\<close>

datatype rudp_rx = Rx_Select_Err chiaki_error | Rx_Fail | Rx_Datagram bytes

text \<open>The message is \<open>None\<close> when the caller's is not written.\<close>

definition rudp_recv_parse :: "(nat \<Rightarrow> bool) \<Rightarrow> nat \<Rightarrow> bytes \<Rightarrow> (chiaki_error \<times> rudp_message option) option" where
  "rudp_recv_parse alloc buf_size msg =
     (let msg = take buf_size msg in
      if length msg \<le> 8 then Some (CHIAKI_ERR_NETWORK, None)
      else do { (err, m) \<leftarrow> chiaki_rudp_message_parse alloc 0 msg; Some (err, Some m) })"

definition chiaki_rudp_select_recv ::
    "(nat \<Rightarrow> bool) \<Rightarrow> nat \<Rightarrow> rudp_rx \<Rightarrow> (chiaki_error \<times> rudp_message option) option" where
  "chiaki_rudp_select_recv alloc buf_size rx = (case rx of
     Rx_Select_Err err \<Rightarrow> Some (err, None)
   | Rx_Fail \<Rightarrow> Some (CHIAKI_ERR_NETWORK, None)
   | Rx_Datagram msg \<Rightarrow> rudp_recv_parse alloc buf_size msg)"

definition chiaki_rudp_recv_only ::
    "(nat \<Rightarrow> bool) \<Rightarrow> nat \<Rightarrow> bytes option \<Rightarrow> (chiaki_error \<times> rudp_message option) option" where
  "chiaki_rudp_recv_only alloc buf_size rx = (case rx of
     None \<Rightarrow> Some (CHIAKI_ERR_NETWORK, None)
   | Some msg \<Rightarrow> rudp_recv_parse alloc buf_size msg)"

definition chiaki_rudp_stop_pipe_select_single :: "chiaki_error \<Rightarrow> chiaki_error" where
  "chiaki_rudp_stop_pipe_select_single err = err"

text \<open>The subtypes each expected type admits; \<open>None\<close> for the types that are not supported.\<close>

definition rudp_expected :: "u16 \<Rightarrow> (u8 \<Rightarrow> bool) option" where
  "rudp_expected recv_type =
     (if recv_type = INIT_RESPONSE then Some (\<lambda>s. s = 0xD0)
      else if recv_type = COOKIE_RESPONSE then Some (\<lambda>s. s = 0xA0)
      else if recv_type = CTRL_MESSAGE then Some (\<lambda>s. s AND 0x0F = 0x2 \<or> s AND 0x0F = 0x6)
      else if recv_type = FINISH then Some (\<lambda>s. s = 0xC0)
      else None)"

text \<open>The first message of the chain with an expected subtype.\<close>

primrec rudp_find :: "(u8 \<Rightarrow> bool) \<Rightarrow> rudp_message \<Rightarrow> rudp_message option" where
  "rudp_find ok (RudpMessage st type sz data data_size rc sub sub_size) =
     (if ok st then Some (RudpMessage st type sz data data_size rc sub sub_size)
      else case map_option (\<lambda>sub. rudp_find ok sub) sub of None \<Rightarrow> None | Some r \<Rightarrow> r)"

definition rudp_send_request ::
    "rudp_env \<Rightarrow> u16 \<Rightarrow> u16 \<Rightarrow> bytes \<Rightarrow> rudp \<Rightarrow> (chiaki_error \<times> rudp \<times> bytes list) option option" where
  "rudp_send_request E send_type remote_counter buf ru =
     (if send_type = INIT_REQUEST then Some (chiaki_rudp_send_init_message E ru)
      else if send_type = COOKIE_REQUEST then Some (chiaki_rudp_send_cookie_message E ru buf)
      else if send_type = ACK then Some (chiaki_rudp_send_ack_message E ru remote_counter)
      else if send_type = SESSION_MESSAGE then Some (chiaki_rudp_send_session_message E ru remote_counter buf)
      else None)"

text \<open>One element of the script for each try: how sending goes, what is received, which allocations
  succeed.  The result of a send is ignored.\<close>

type_synonym rudp_try = "rudp_env \<times> rudp_rx \<times> (nat \<Rightarrow> bool)"

record rudp_reply =
  rr_err :: chiaki_error
  rr_message :: "rudp_message option"
  rr_rudp :: rudp
  rr_sent :: "bytes list"

fun chiaki_rudp_send_recv ::
    "rudp_try list \<Rightarrow> rudp \<Rightarrow> bytes \<Rightarrow> u16 \<Rightarrow> u16 \<Rightarrow> u16 \<Rightarrow> nat \<Rightarrow> nat \<Rightarrow> rudp_reply option" where
  "chiaki_rudp_send_recv script ru buf remote_counter send_type recv_type min_data_size 0 =
     Some \<lparr>rr_err = CHIAKI_ERR_INVALID_RESPONSE, rr_message = None, rr_rudp = ru, rr_sent = []\<rparr>"
| "chiaki_rudp_send_recv [] ru buf remote_counter send_type recv_type min_data_size (Suc tries) = None"
| "chiaki_rudp_send_recv ((E, rx, alloc) # script) ru buf remote_counter send_type recv_type min_data_size (Suc tries) =
     (case rudp_send_request E send_type remote_counter buf ru of
        None \<Rightarrow> Some \<lparr>rr_err = CHIAKI_ERR_INVALID_DATA, rr_message = None, rr_rudp = ru, rr_sent = []\<rparr>
      | Some r \<Rightarrow> do {
          (_, ru, sent) \<leftarrow> r;
          let again = map_option (\<lambda>r. r\<lparr>rr_sent := sent @ rr_sent r\<rparr>)
            (chiaki_rudp_send_recv script ru buf remote_counter send_type recv_type min_data_size tries);
          (err, m) \<leftarrow> chiaki_rudp_select_recv alloc 1500 rx;
          if err = CHIAKI_ERR_TIMEOUT then again
          else if err \<noteq> CHIAKI_ERR_SUCCESS
          then Some \<lparr>rr_err = err, rr_message = m, rr_rudp = ru, rr_sent = sent\<rparr>
          else do {
            m \<leftarrow> m;
            (case rudp_expected recv_type of
               None \<Rightarrow> Some \<lparr>rr_err = CHIAKI_ERR_INVALID_DATA, rr_message = None, rr_rudp = ru, rr_sent = sent\<rparr>
             | Some ok \<Rightarrow>
                 (case rudp_find ok m of
                    None \<Rightarrow> again
                  | Some m \<Rightarrow>
                      if rm_data_size m < min_data_size then again
                      else Some \<lparr>rr_err = CHIAKI_ERR_SUCCESS, rr_message = Some m, rr_rudp = ru, rr_sent = sent\<rparr>)) } })"

text \<open>The buffers that are freed with the instance.\<close>

definition chiaki_rudp_fini :: "rudp option \<Rightarrow> bytes list option" where
  "chiaki_rudp_fini ru = (case ru of None \<Rightarrow> Some [] | Some ru \<Rightarrow> chiaki_rudp_send_buffer_fini (ru_send_buffer ru))"

end
