(* ===== verification/RudpProps.thy ===== *)
theory RudpProps
  imports Rudp
begin

text \<open>
  The RUDP messages: what is serialized is what is parsed, for chains of any length, and what a request
  that reports success has received.
\<close>

subsection \<open>Serializing\<close>

primrec rudp_bytes :: "rudp_message \<Rightarrow> bytes" where
  "rudp_bytes (RudpMessage st type sz data data_size rc sub sub_size) =
     be16 sz @ be32 RUDP_CONSTANT @ be16 type @ (case data of None \<Rightarrow> [] | Some b \<Rightarrow> b)
     @ (case map_option rudp_bytes sub of None \<Rightarrow> [] | Some b \<Rightarrow> b)"

text \<open>The messages the senders build: with data, and with their own length in their size.\<close>

primrec rudp_wf :: "rudp_message \<Rightarrow> bool" where
  "rudp_wf (RudpMessage st type sz data data_size rc sub sub_size) \<longleftrightarrow>
     (case data of None \<Rightarrow> False | Some b \<Rightarrow> b \<noteq> [] \<and> length b = data_size)
     \<and> sz = rudp_size (8 + data_size) \<and> 8 + data_size < 4096
     \<and> (case map_option rudp_wf sub of None \<Rightarrow> True | Some w \<Rightarrow> w)"

lemma wr_slice_front:
  "length xs = n \<Longrightarrow> length ys = length zs \<Longrightarrow> wr_slice (xs @ ys @ ws) n zs = Some (xs @ zs @ ws)"
  by (simp add: wr_slice_def)

lemma split_4:
  assumes "2 + (4 + (2 + (n + k))) \<le> length (xs :: 'a list)"
  obtains a b c d e where "xs = a @ b @ c @ d @ e" "length a = 2" "length b = 4" "length c = 2" "length d = n" "k \<le> length e"
proof
  show "xs = take 2 xs @ take 4 (drop 2 xs) @ take 2 (drop 6 xs) @ take n (drop 8 xs) @ drop (8 + n) xs"
  proof -
    have "drop 6 xs = drop 4 (drop 2 xs)" "drop 8 xs = drop 2 (drop 6 xs)" "drop (8 + n) xs = drop n (drop 8 xs)"
      by (simp_all add: add.commute)
    then show ?thesis by (metis append_take_drop_id)
  qed
qed (use assms in auto)

lemma rudp_serialize_bytes:
  "rudp_wf m \<Longrightarrow> length (rudp_bytes m) \<le> length post \<Longrightarrow>
     rudp_message_serialize m (pre @ post) (length pre) n
       = Some (pre @ rudp_bytes m @ drop (length (rudp_bytes m)) post, n + length (rudp_bytes m))"
proof (induction m arbitrary: pre post n)
  case (RudpMessage st type sz data data_size rc sub sub_size)
  obtain b where b: "data = Some b" "length b = data_size" using RudpMessage.prems(1) by (auto split: option.splits)
  define tail_len where "tail_len = (case map_option rudp_bytes sub of None \<Rightarrow> 0 | Some x \<Rightarrow> length x)"
  have len: "2 + (4 + (2 + (data_size + tail_len))) \<le> length post"
    using RudpMessage.prems(2) b by (simp add: tail_len_def split: option.splits)
  obtain p q r s t where post: "post = p @ q @ r @ s @ t" "length p = 2" "length q = 4" "length r = 2"
    "length s = data_size" "tail_len \<le> length t" using split_4 [OF len] by metis
  let ?head = "be16 sz @ be32 RUDP_CONSTANT @ be16 type @ b"
  have w1: "wr_slice (pre @ post) (length pre) (be16 sz) = Some (pre @ be16 sz @ q @ r @ s @ t)"
    unfolding post(1) by (rule wr_slice_front) (simp_all add: post)
  have w2: "wr_slice (pre @ be16 sz @ q @ r @ s @ t) (length pre + 2) (be32 RUDP_CONSTANT)
      = Some (pre @ be16 sz @ be32 RUDP_CONSTANT @ r @ s @ t)"
    using wr_slice_front [of "pre @ be16 sz" "length pre + 2" q "be32 RUDP_CONSTANT" "r @ s @ t"] post by simp
  have w3: "wr_slice (pre @ be16 sz @ be32 RUDP_CONSTANT @ r @ s @ t) (length pre + 6) (be16 type)
      = Some (pre @ be16 sz @ be32 RUDP_CONSTANT @ be16 type @ s @ t)"
    using wr_slice_front [of "pre @ be16 sz @ be32 RUDP_CONSTANT" "length pre + 6" r "be16 type" "s @ t"] post by simp
  have w4: "wr_slice (pre @ be16 sz @ be32 RUDP_CONSTANT @ be16 type @ s @ t) (length pre + 8) b
      = Some (pre @ ?head @ t)"
    using wr_slice_front [of "pre @ be16 sz @ be32 RUDP_CONSTANT @ be16 type" "length pre + 8" s b t] post b by simp
  show ?case
  proof (cases sub)
    case None
    have "drop (length ?head) post = t" using post b by simp
    then show ?thesis using w1 w2 w3 w4 b None post by simp
  next
    case (Some m')
    have wf: "rudp_wf m'" "length (rudp_bytes m') \<le> length t" using RudpMessage.prems Some post(6) by (simp_all add: tail_len_def)
    have ih: "rudp_message_serialize m' ((pre @ ?head) @ t) (length (pre @ ?head)) (n + 8 + data_size)
        = Some ((pre @ ?head) @ rudp_bytes m' @ drop (length (rudp_bytes m')) t, n + 8 + data_size + length (rudp_bytes m'))"
      by (rule RudpMessage.IH) (use wf Some in simp_all)
    have "length (pre @ ?head) = length pre + 8 + data_size" using b by simp
    then show ?thesis using w1 w2 w3 w4 b Some post ih by (simp add: ac_simps)
  qed
qed

subsection \<open>Parsing\<close>

text \<open>What the receiver makes of a message.\<close>

primrec rudp_received :: "rudp_message \<Rightarrow> rudp_message" where
  "rudp_received (RudpMessage st type sz data data_size rc sub sub_size) =
     RudpMessage (ucast (drop_bit 8 type)) type sz data data_size (case data of None \<Rightarrow> 0 | Some b \<Rightarrow> rudp_counter b)
       (map_option rudp_received sub)
       (case map_option rudp_bytes sub of None \<Rightarrow> 0 | Some b \<Rightarrow> of_nat (length b))"

lemma rudp_length_size: "n < 4096 \<Longrightarrow> rudp_length (rudp_size n) = n"
proof -
  assume n: "n < 4096"
  have m: "(0x0FFF :: u16) = mask 12" by (simp add: mask_eq_exp_minus_1)
  have "(0xC000 OR of_nat n) AND mask 12 = (of_nat n AND mask 12 :: u16)"
  proof -
    have "(0xC000 AND mask 12 :: u16) = 0" by (simp add: mask_eq_exp_minus_1)
    then show ?thesis by (simp add: bit.conj_disj_distrib2)
  qed
  moreover have "unat (of_nat n AND mask 12 :: u16) = n"
    unfolding take_bit_eq_mask [symmetric] unsigned_take_bit_eq using n
    by (simp add: unat_of_nat take_bit_nat_eq_self_iff)
  ultimately show "rudp_length (rudp_size n) = n" by (simp add: rudp_length_def rudp_size_def m)
qed

lemma length_rudp_bytes: "rudp_wf m \<Longrightarrow> 8 < length (rudp_bytes m)"
  by (cases m) (auto split: option.splits)

lemma rudp_parse_bytes:
  "rudp_wf m \<Longrightarrow> chiaki_rudp_message_parse (\<lambda>_. True) d (rudp_bytes m) = Some (CHIAKI_ERR_SUCCESS, rudp_received m)"
proof (induction m arbitrary: d)
  case (RudpMessage st type sz data data_size rc sub sub_size)
  obtain b where b: "data = Some b" "length b = data_size" "b \<noteq> []" using RudpMessage.prems by (auto split: option.splits)
  define rest where "rest = (case map_option rudp_bytes sub of None \<Rightarrow> [] | Some x \<Rightarrow> x)"
  let ?msg = "be16 sz @ be32 RUDP_CONSTANT @ be16 type @ b @ rest"
  have sz: "rudp_length sz = 8 + data_size" using RudpMessage.prems rudp_length_size [of "8 + data_size"] by simp
  have pos: "0 < data_size" using b by auto
  have ds: "rudp_data_size sz (length ?msg - 8) = data_size" using sz pos b by (simp add: rudp_data_size_def)
  obtain q0 q1 q2 q3 where q: "be32 RUDP_CONSTANT = [q0, q1, q2, q3]" by (simp add: be32_def)
  have cons: "?msg = ucast (drop_bit 8 sz) # ucast sz # q0 # q1 # q2 # q3 # ucast (drop_bit 8 type) # ucast type # b @ rest"
    by (simp only: q be16_def append_Cons append_Nil)
  have dr: "drop 8 ?msg = b @ rest" unfolding cons by simp
  have n0: "?msg ! 0 = ucast (drop_bit 8 sz)" "?msg ! 1 = ucast sz" "?msg ! 6 = ucast (drop_bit 8 type)" "?msg ! 7 = ucast type"
    unfolding cons by simp_all
  have "drop (8 + data_size) ?msg = drop data_size (drop 8 ?msg)" by (simp only: drop_drop add.commute)
  then have dd: "take data_size (drop 8 ?msg) = b" "drop (8 + data_size) ?msg = rest" "length ?msg - 8 - data_size = length rest"
    unfolding dr using b by simp_all
  have long: "\<not> length ?msg < 8" by simp
  have parse: "chiaki_rudp_message_parse (\<lambda>_. True) d ?msg =
      (let m = (\<lambda>sub sub_size. RudpMessage (ucast (drop_bit 8 type)) type sz (Some b) data_size (rudp_counter b) sub sub_size)
       in if length rest < 8 then Some (CHIAKI_ERR_SUCCESS, m None 0)
          else do { (err, sub) \<leftarrow> chiaki_rudp_message_parse (\<lambda>_. True) (d + 1) rest;
                    Some (err, m (Some sub) (of_nat (length rest))) })"
    unfolding chiaki_rudp_message_parse.simps [of _ d ?msg] Let_def n0 of_be16_be16 ds dd
    using long sz pos by simp
  have bytes: "rudp_bytes (RudpMessage st type sz data data_size rc sub sub_size) = ?msg"
    using b by (simp add: rest_def)
  show ?case
  proof (cases sub)
    case None
    then have r: "rest = []" by (simp add: rest_def)
    show ?thesis unfolding bytes parse using None b r by (simp add: Let_def)
  next
    case (Some m')
    then have wf: "rudp_wf m'" using RudpMessage.prems by simp
    then have l: "8 < length rest" "rest = rudp_bytes m'" using length_rudp_bytes Some by (simp_all add: rest_def)
    have "chiaki_rudp_message_parse (\<lambda>_. True) (d + 1) rest = Some (CHIAKI_ERR_SUCCESS, rudp_received m')"
      unfolding l(2) by (rule RudpMessage.IH) (use wf Some in simp_all)
    then show ?thesis unfolding bytes parse using Some b l by (simp add: Let_def)
  qed
qed

text \<open>C34. A chain of messages comes through unchanged: what the sender serializes into a block of the size it
  computed, the receiver parses into the same types and data, message by message, for chains of any length.\<close>

theorem rudp_message_roundtrip:
  assumes "rudp_wf m"
  shows "\<exists>buf. rudp_message_serialize m (replicate (length (rudp_bytes m)) 0) 0 0 = Some (buf, length buf)
    \<and> chiaki_rudp_message_parse (\<lambda>_. True) 0 buf = Some (CHIAKI_ERR_SUCCESS, rudp_received m)"
  using rudp_serialize_bytes [OF assms, of "replicate (length (rudp_bytes m)) 0" "[]" 0] rudp_parse_bytes [OF assms, of 0]
  by simp

lemma rudp_message_roundtrip_witness:
  "\<exists>buf. rudp_message_serialize (rudp_new FINISH 10 [1, 2] (Some (rudp_new ACK 9 [7] None))) (replicate 19 0) 0 0 = Some (buf, length buf)"
proof -
  let ?m = "rudp_new FINISH 10 [1, 2] (Some (rudp_new ACK 9 [7] None))"
  have "rudp_wf ?m" "length (rudp_bytes ?m) = 19" by (simp_all add: rudp_new_def)
  then show ?thesis using rudp_message_roundtrip [of ?m] by auto
qed

subsection \<open>Sending and receiving\<close>

lemma be16_not_Nil [simp]: "be16 w \<noteq> []"
  by (simp add: be16_def)

lemma rudp_send_simple_bytes:
  assumes "rudp_wf m" "rudp_send_simple E ru (length (rudp_bytes m)) m = Some (err, ru', sent)" "d \<in> set sent"
  shows "d = rudp_bytes m \<and> ru' = ru \<and> err = CHIAKI_ERR_SUCCESS"
  using assms rudp_serialize_bytes [OF assms(1), of "replicate (length (rudp_bytes m)) 0" "[]" 0]
  by (auto simp: rudp_send_simple_def rudp_serialize_send_def chiaki_rudp_send_raw_def split: if_splits)

text \<open>C35. A session message arrives: what the other end receives of the datagram sent is a session message with
  the sender's counter, and in its chain the control message that holds the bytes given, for up to the 1478 bytes
  that fit in what the receiver reads.\<close>

theorem rudp_session_message_received:
  assumes "length msg \<le> 1478" "chiaki_rudp_send_session_message E ru remote_counter msg = Some (err, ru', [d])"
  shows "\<exists>m c ok. chiaki_rudp_select_recv (\<lambda>_. True) 1500 (Rx_Datagram d) = Some (CHIAKI_ERR_SUCCESS, Some m)
    \<and> rm_type m = SESSION_MESSAGE \<and> rm_remote_counter m = ru_counter ru + 1
    \<and> rudp_expected CTRL_MESSAGE = Some ok \<and> rudp_find ok m = Some c
    \<and> rm_data c = Some (be16 (ru_counter ru) @ msg) \<and> ru_counter ru' = ru_counter ru + 1"
proof -
  let ?c = "rudp_new CTRL_MESSAGE (8 + (2 + length msg)) (be16 (ru_counter ru) @ msg) None"
  let ?m = "rudp_new SESSION_MESSAGE (8 + 4) (be16 (ru_counter ru) @ be16 remote_counter) (Some ?c)"
  have wf: "rudp_wf ?m" "length (rudp_bytes ?m) = 8 + 4 + 8 + (2 + length msg)"
    using assms(1) by (simp_all add: rudp_new_def)
  obtain ru1 where ru1: "get_then_increase_counter ru = (ru_counter ru, ru1)" "ru_counter ru1 = ru_counter ru + 1"
    by (simp add: get_then_increase_counter_def)
  have "rudp_send_simple E ru1 (length (rudp_bytes ?m)) ?m = Some (err, ru', [d])"
    using assms(2) ru1(1) wf(2) by (simp add: chiaki_rudp_send_session_message_def)
  from rudp_send_simple_bytes [OF wf(1) this] have d: "d = rudp_bytes ?m" "ru' = ru1" by simp_all
  have "length d \<le> 1500" "\<not> length d \<le> 8" using d(1) wf(2) assms(1) by simp_all
  then have rx: "chiaki_rudp_select_recv (\<lambda>_. True) 1500 (Rx_Datagram d) = Some (CHIAKI_ERR_SUCCESS, Some (rudp_received ?m))"
    using rudp_parse_bytes [OF wf(1)] d(1) by (simp add: chiaki_rudp_select_recv_def rudp_recv_parse_def)
  have counter: "rm_remote_counter (rudp_received ?m) = ru_counter ru + 1"
    by (simp add: rudp_new_def rudp_counter_def be16_def)
  let ?ok = "\<lambda>s :: u8. s AND 0x0F = 0x2 \<or> s AND 0x0F = 0x6"
  have ok: "rudp_expected CTRL_MESSAGE = Some ?ok" by (simp add: rudp_expected_def rudp_types)
  have "rudp_find ?ok (rudp_received ?m) = Some (rudp_received ?c)"
    by (simp add: rudp_new_def SESSION_MESSAGE_def CTRL_MESSAGE_def)
  moreover have "rm_data (rudp_received ?c) = Some (be16 (ru_counter ru) @ msg)" "rm_type (rudp_received ?m) = SESSION_MESSAGE"
    by (simp_all add: rudp_new_def)
  ultimately show ?thesis using rx counter ok ru1(2) d(2) by blast
qed

definition test_rudp :: rudp where
  "test_rudp = \<lparr>ru_counter = 0xFFFF, ru_header = 7, ru_sock_valid = True,
     ru_send_buffer = \<lparr>sb_packets = [], sb_count = 0, sb_should_stop = False, sb_attached = True\<rparr>\<rparr>"

definition test_rudp_env :: rudp_env where
  "test_rudp_env = \<lparr>re_alloc = True, re_send_ok = True, re_lock = CHIAKI_ERR_SUCCESS, re_now = 0\<rparr>"

lemma rudp_session_message_received_witness:
  "\<exists>err ru' d. chiaki_rudp_send_session_message test_rudp_env test_rudp 5 [1, 2, 3] = Some (err, ru', [d])
    \<and> (\<exists>m. chiaki_rudp_select_recv (\<lambda>_. True) 1500 (Rx_Datagram d) = Some (CHIAKI_ERR_SUCCESS, Some m)) \<and> ru_counter ru' = 0"
proof -
  have "map_option (\<lambda>(e, r, ds). length ds) (chiaki_rudp_send_session_message test_rudp_env test_rudp 5 [1, 2, 3]) = Some 1"
    by code_simp
  then obtain err ru' d where s: "chiaki_rudp_send_session_message test_rudp_env test_rudp 5 [1, 2, 3] = Some (err, ru', [d])"
    by (auto simp: length_Suc_conv)
  have "ru_counter test_rudp + 1 = 0" by (simp add: test_rudp_def)
  then show ?thesis using rudp_session_message_received [OF _ s] s by auto
qed

text \<open>The data of a message that was parsed without an error has the size the message says.\<close>

primrec rudp_sized :: "rudp_message \<Rightarrow> bool" where
  "rudp_sized (RudpMessage st type sz data data_size rc sub sub_size) \<longleftrightarrow>
     (case data of None \<Rightarrow> data_size = 0 | Some b \<Rightarrow> length b = data_size)
     \<and> (case map_option rudp_sized sub of None \<Rightarrow> True | Some w \<Rightarrow> w)"

lemma rudp_parse_sized:
  "chiaki_rudp_message_parse alloc d msg = Some (CHIAKI_ERR_SUCCESS, m) \<Longrightarrow> rudp_sized m"
proof (induction alloc d msg arbitrary: m rule: chiaki_rudp_message_parse.induct)
  case (1 alloc d msg)
  let ?sz = "of_be16 (msg ! 0) (msg ! 1)"
  have le: "rudp_data_size ?sz (length msg - 8) \<le> length msg - 8" "\<not> 8 < rudp_length ?sz \<Longrightarrow> rudp_data_size ?sz (length msg - 8) = 0"
    by (simp_all add: rudp_data_size_def)
  show ?case using 1(2) le 1(1)
    by (subst (asm) chiaki_rudp_message_parse.simps)
      (auto simp: Let_def bind_eq_Some_conv split: if_splits)
qed

lemma rudp_find_ok: "rudp_find ok m = Some x \<Longrightarrow> ok (rm_subtype x)"
  by (induction m) (auto split: if_splits option.splits)

lemma rudp_find_sized: "rudp_find ok m = Some x \<Longrightarrow> rudp_sized m \<Longrightarrow> rudp_sized x"
  by (induction m) (auto split: if_splits option.splits)

lemma rudp_send_one:
  assumes "rudp_send_request E send_type remote_counter buf ru = Some (Some (err, ru', sent))"
  shows "length sent \<le> 1"
proof -
  have raw: "rudp_serialize_send E ru alloc_size m = Some (err, b, sent) \<Longrightarrow> length sent \<le> 1" for E ru alloc_size m err b sent
    by (auto simp: rudp_serialize_send_def chiaki_rudp_send_raw_def bind_eq_Some_conv split: if_splits)
  then have "rudp_send_simple E ru alloc_size m = Some (err, ru', sent) \<Longrightarrow> length sent \<le> 1" for E ru alloc_size m err ru' sent
    by (auto simp: rudp_send_simple_def bind_eq_Some_conv)
  then show ?thesis using assms
    by (auto simp: rudp_send_request_def chiaki_rudp_send_init_message_def chiaki_rudp_send_cookie_message_def
        chiaki_rudp_send_ack_message_def chiaki_rudp_send_session_message_def split: if_splits prod.splits)
qed

text \<open>The last try.\<close>

lemma rudp_try_cases:
  assumes "chiaki_rudp_send_recv ((E, rx, alloc) # script) ru buf remote_counter send_type recv_type min_data_size (Suc tries) = Some r"
    "rr_err r = CHIAKI_ERR_SUCCESS"
  obtains (reply) d m x ok where "rx = Rx_Datagram d" "chiaki_rudp_select_recv alloc 1500 rx = Some (CHIAKI_ERR_SUCCESS, Some m)"
      "rudp_expected recv_type = Some ok" "rudp_find ok m = Some x" "min_data_size \<le> rm_data_size x" "rr_message r = Some x"
      "length (rr_sent r) \<le> 1"
  | (again) ru' r' where "chiaki_rudp_send_recv script ru' buf remote_counter send_type recv_type min_data_size tries = Some r'"
      "rr_err r' = CHIAKI_ERR_SUCCESS" "rr_message r' = rr_message r" "length (rr_sent r) \<le> 1 + length (rr_sent r')"
proof -
  obtain e ru' sent where s: "rudp_send_request E send_type remote_counter buf ru = Some (Some (e, ru', sent))"
    using assms by (auto simp: bind_eq_Some_conv split: option.splits)
  note one = rudp_send_one [OF s]
  let ?next = "chiaki_rudp_send_recv script ru' buf remote_counter send_type recv_type min_data_size tries"
  obtain err m where rx: "chiaki_rudp_select_recv alloc 1500 rx = Some (err, m)"
    using assms s by (auto simp: bind_eq_Some_conv Let_def)
  consider "\<exists>r'. ?next = Some r' \<and> r = r'\<lparr>rr_sent := sent @ rr_sent r'\<rparr>"
    | "err = CHIAKI_ERR_SUCCESS" "\<exists>m' ok x. m = Some m' \<and> rudp_expected recv_type = Some ok \<and> rudp_find ok m' = Some x
        \<and> min_data_size \<le> rm_data_size x \<and> rr_message r = Some x \<and> rr_sent r = sent"
  proof (cases "err = CHIAKI_ERR_SUCCESS")
    case False
    then show ?thesis using assms s rx that(1) by (auto simp: Let_def split: if_splits)
  next
    case True
    then obtain m' ok where m: "m = Some m'" "rudp_expected recv_type = Some ok"
      using assms s rx by (auto simp: bind_eq_Some_conv Let_def split: option.splits)
    show ?thesis
    proof (cases "\<exists>x. rudp_find ok m' = Some x \<and> min_data_size \<le> rm_data_size x")
      case True
      then show ?thesis using assms s rx m \<open>err = CHIAKI_ERR_SUCCESS\<close> that(2) by fastforce
    next
      case False
      then show ?thesis using assms s rx m \<open>err = CHIAKI_ERR_SUCCESS\<close> that(1)
        by (auto simp: not_le Let_def split: option.splits)
    qed
  qed
  then show thesis
  proof cases
    case 1
    then obtain r' where r': "?next = Some r'" "r = r'\<lparr>rr_sent := sent @ rr_sent r'\<rparr>" by blast
    then show thesis using again [OF r'(1)] assms(2) one by simp
  next
    case 2
    then obtain m' ok x where h: "m = Some m'" "rudp_expected recv_type = Some ok" "rudp_find ok m' = Some x"
      "min_data_size \<le> rm_data_size x" "rr_message r = Some x" "rr_sent r = sent" by blast
    obtain d where "rx = Rx_Datagram d"
      using rx h(1) 2(1) by (cases rx) (auto simp: chiaki_rudp_select_recv_def)
    then show thesis using reply [of d m' ok x] rx h 2(1) one by simp
  qed
qed

lemma rudp_select_sized:
  "chiaki_rudp_select_recv alloc n rx = Some (CHIAKI_ERR_SUCCESS, Some m) \<Longrightarrow> rudp_sized m"
  by (auto simp: chiaki_rudp_select_recv_def rudp_recv_parse_def Let_def bind_eq_Some_conv dest: rudp_parse_sized
      split: rudp_rx.splits if_splits)

text \<open>C36. When a request reports success it hands out a message of the subtype expected, from the chain of a
  datagram received within the tries allowed, with as many bytes as the caller asked for at least and no fewer
  than the message says; and it has sent at most one datagram for each try.\<close>

theorem rudp_reply_expected:
  assumes "chiaki_rudp_send_recv script ru buf remote_counter send_type recv_type min_data_size tries = Some r"
    "rr_err r = CHIAKI_ERR_SUCCESS"
  shows "\<exists>E d alloc m x ok. (E, Rx_Datagram d, alloc) \<in> set (take tries script)
    \<and> chiaki_rudp_select_recv alloc 1500 (Rx_Datagram d) = Some (CHIAKI_ERR_SUCCESS, Some m)
    \<and> rudp_expected recv_type = Some ok \<and> rudp_find ok m = Some x \<and> rr_message r = Some x \<and> ok (rm_subtype x)
    \<and> min_data_size \<le> rm_data_size x \<and> rm_data_size x = (case rm_data x of None \<Rightarrow> 0 | Some b \<Rightarrow> length b)
    \<and> length (rr_sent r) \<le> tries"
  using assms
proof (induction tries arbitrary: script ru r)
  case (Suc tries)
  obtain E rx alloc rest where script: "script = (E, rx, alloc) # rest" using Suc.prems(1) by (cases script) auto
  from Suc.prems [unfolded script] show ?case
  proof (cases rule: rudp_try_cases)
    case (reply d m x ok)
    have "rudp_sized x" by (rule rudp_find_sized [OF reply(4) rudp_select_sized [OF reply(2)]])
    then have "rm_data_size x = (case rm_data x of None \<Rightarrow> 0 | Some b \<Rightarrow> length b)" by (cases x) (auto split: option.splits)
    then show ?thesis using reply rudp_find_ok [OF reply(4)] unfolding script
      by (intro exI [of _ E] exI [of _ d] exI [of _ alloc] exI [of _ m] exI [of _ x] exI [of _ ok]) simp
  next
    case (again ru' r')
    from Suc.IH [OF again(1,2)] again(3,4) show ?thesis unfolding script by fastforce
  qed
qed simp

definition test_rudp_script :: "rudp_try list" where
  "test_rudp_script =
     [(test_rudp_env, Rx_Select_Err CHIAKI_ERR_TIMEOUT, \<lambda>_. True),
      (test_rudp_env, Rx_Datagram [0xC0, 9, 0, 0, 0, 0, 0x24, 0x30, 1, 0xC0, 12, 0, 0, 0, 0, 0xD0, 0, 1, 2, 3, 4], \<lambda>_. True)]"

lemma rudp_reply_expected_witness:
  "\<exists>r x. chiaki_rudp_send_recv test_rudp_script test_rudp [] 0 INIT_REQUEST INIT_RESPONSE 4 3 = Some r
    \<and> rr_message r = Some x \<and> rm_subtype x = 0xD0 \<and> length (rr_sent r) \<le> 3"
proof -
  have "map_option rr_err (chiaki_rudp_send_recv test_rudp_script test_rudp [] 0 INIT_REQUEST INIT_RESPONSE 4 3)
      = Some CHIAKI_ERR_SUCCESS" by code_simp
  then obtain r where r: "chiaki_rudp_send_recv test_rudp_script test_rudp [] 0 INIT_REQUEST INIT_RESPONSE 4 3 = Some r"
    "rr_err r = CHIAKI_ERR_SUCCESS" by auto
  have "rudp_expected INIT_RESPONSE = Some (\<lambda>s. s = 0xD0)" by (simp add: rudp_expected_def)
  then show ?thesis using rudp_reply_expected [OF r] r(1) by auto
qed

end
