(* ===== verification/Discovery.thy ===== *)
theory Discovery
  imports Common Http
begin

text \<open>
  \<^verbatim>\<open>lib/src/discovery.c\<close>: finding consoles on the local network and waking them up.

  Strings are bytes without their terminator, \<open>None\<close> is the null pointer.  A socket address is its
  family, the bytes of the address and the port.  Sockets, the resolver and the stop pipe are
  parameters; \<open>None\<close> as the result of an operation is undefined behaviour.
\<close>

subsection \<open>Hosts\<close>

definition CHIAKI_DISCOVERY_PORT_PS4 :: u16 where "CHIAKI_DISCOVERY_PORT_PS4 = 987"
definition CHIAKI_DISCOVERY_PROTOCOL_VERSION_PS4 :: bytes where "CHIAKI_DISCOVERY_PROTOCOL_VERSION_PS4 = ascii ''00020020''"
definition CHIAKI_DISCOVERY_PORT_PS5 :: u16 where "CHIAKI_DISCOVERY_PORT_PS5 = 9302"
definition CHIAKI_DISCOVERY_PROTOCOL_VERSION_PS5 :: bytes where "CHIAKI_DISCOVERY_PROTOCOL_VERSION_PS5 = ascii ''00030010''"
definition CHIAKI_DISCOVERY_PORT_LOCAL_MIN :: u16 where "CHIAKI_DISCOVERY_PORT_LOCAL_MIN = 9303"
definition CHIAKI_DISCOVERY_PORT_LOCAL_MAX :: u16 where "CHIAKI_DISCOVERY_PORT_LOCAL_MAX = 9319"

datatype discovery_host_state =
    CHIAKI_DISCOVERY_HOST_STATE_UNKNOWN
  | CHIAKI_DISCOVERY_HOST_STATE_READY
  | CHIAKI_DISCOVERY_HOST_STATE_STANDBY

record discovery_host =
  dh_state :: discovery_host_state
  dh_host_request_port :: u16
  dh_host_addr :: "bytes option"
  dh_system_version :: "bytes option"
  dh_device_discovery_protocol_version :: "bytes option"
  dh_host_name :: "bytes option"
  dh_host_type :: "bytes option"
  dh_host_id :: "bytes option"
  dh_running_app_titleid :: "bytes option"
  dh_running_app_name :: "bytes option"

definition empty_host :: discovery_host where
  "empty_host = \<lparr>dh_state = CHIAKI_DISCOVERY_HOST_STATE_UNKNOWN, dh_host_request_port = 0, dh_host_addr = None,
     dh_system_version = None, dh_device_discovery_protocol_version = None, dh_host_name = None, dh_host_type = None,
     dh_host_id = None, dh_running_app_titleid = None, dh_running_app_name = None\<rparr>"

definition chiaki_discovery_host_state_string :: "discovery_host_state \<Rightarrow> string" where
  "chiaki_discovery_host_state_string s = (case s of
     CHIAKI_DISCOVERY_HOST_STATE_READY \<Rightarrow> ''ready''
   | CHIAKI_DISCOVERY_HOST_STATE_STANDBY \<Rightarrow> ''standby''
   | _ \<Rightarrow> ''unknown'')"

definition chiaki_discovery_host_is_ps5 :: "discovery_host \<Rightarrow> bool" where
  "chiaki_discovery_host_is_ps5 h \<longleftrightarrow> dh_device_discovery_protocol_version h = Some CHIAKI_DISCOVERY_PROTOCOL_VERSION_PS5"

text \<open>\<open>atoi\<close> of the null pointer is undefined.\<close>

definition chiaki_discovery_host_system_version_target :: "discovery_host \<Rightarrow> chiaki_target option" where
  "chiaki_discovery_host_system_version_target h = do {
     v \<leftarrow> dh_system_version h;
     let version = sint (word_of_int (c_strtol10 v) :: i32);
     let is_ps5 = chiaki_discovery_host_is_ps5 h;
     Some (if 8050001 \<le> version \<and> is_ps5 then CHIAKI_TARGET_PS5_1
           else if 8050000 \<le> version \<and> is_ps5 then CHIAKI_TARGET_PS5_UNKNOWN
           else if 8000000 \<le> version then CHIAKI_TARGET_PS4_10
           else if 7000000 \<le> version then CHIAKI_TARGET_PS4_9
           else if 0 < version then CHIAKI_TARGET_PS4_8
           else CHIAKI_TARGET_PS4_UNKNOWN) }"

subsection \<open>Requests\<close>

datatype discovery_cmd = CHIAKI_DISCOVERY_CMD_SRCH | CHIAKI_DISCOVERY_CMD_WAKEUP

record discovery_packet =
  dp_cmd :: discovery_cmd
  dp_protocol_version :: "bytes option"
  dp_user_credential :: u64

text \<open>\<open>%llu\<close>.\<close>

fun dec_digits :: "nat \<Rightarrow> bytes" where
  "dec_digits n = (if n < 10 then [of_nat (48 + n)] else dec_digits (n div 10) @ [of_nat (48 + n mod 10)])"

declare dec_digits.simps [simp del]

text \<open>The text \<open>snprintf\<close> would write without a bound; \<open>None\<close> is the result \<open>- 1\<close>.\<close>

definition chiaki_discovery_packet_fmt :: "discovery_packet \<Rightarrow> bytes option" where
  "chiaki_discovery_packet_fmt p = do {
     version \<leftarrow> dp_protocol_version p;
     Some (case dp_cmd p of
         CHIAKI_DISCOVERY_CMD_SRCH \<Rightarrow>
           ascii ''SRCH * HTTP/1.1'' @ [LF] @ ascii ''device-discovery-protocol-version:'' @ version @ [LF]
       | CHIAKI_DISCOVERY_CMD_WAKEUP \<Rightarrow>
           ascii ''WAKEUP * HTTP/1.1'' @ [LF] @ ascii ''client-type:vr'' @ [LF] @ ascii ''auth-type:R'' @ [LF]
           @ ascii ''model:w'' @ [LF] @ ascii ''app-type:r'' @ [LF]
           @ ascii ''user-credential:'' @ dec_digits (unat (dp_user_credential p)) @ [LF]
           @ ascii ''device-discovery-protocol-version:'' @ version @ [LF]) }"

subsection \<open>Responses\<close>

text \<open>\<open>strtoul\<close> with base 0: white space, a sign, a prefix that tells the base, digits; a value out of
  range saturates, a sign negates in 64 bits.\<close>

definition digit_value :: "u8 \<Rightarrow> nat option" where
  "digit_value c =
     (if 48 \<le> c \<and> c \<le> 57 then Some (unat c - 48)
      else if 97 \<le> c \<and> c \<le> 122 then Some (unat c - 87)
      else if 65 \<le> c \<and> c \<le> 90 then Some (unat c - 55) else None)"

fun base_value :: "nat \<Rightarrow> nat \<Rightarrow> bytes \<Rightarrow> nat" where
  "base_value b n [] = n"
| "base_value b n (c # cs) = (case digit_value c of
     Some d \<Rightarrow> if d < b then base_value b (b * n + d) cs else n
   | None \<Rightarrow> n)"

definition c_strtoul0 :: "bytes \<Rightarrow> u64" where
  "c_strtoul0 s =
     (let s = dropWhile c_isspace s;
          neg = (s \<noteq> [] \<and> hd s = 45);
          s = (if s \<noteq> [] \<and> (hd s = 45 \<or> hd s = 43) then tl s else s);
          hex = (2 < length s \<and> s ! 0 = 48 \<and> (s ! 1 = 120 \<or> s ! 1 = 88)
                 \<and> (case digit_value (s ! 2) of Some d \<Rightarrow> d < 16 | None \<Rightarrow> False));
          n = (if hex then base_value 16 0 (drop 2 s)
               else if s \<noteq> [] \<and> hd s = 48 then base_value 8 0 s else base_value 10 0 s)
      in if 2 ^ 64 \<le> n then - 1 else if neg then - of_nat n else of_nat n)"

definition host_state_of_code :: "i32 \<Rightarrow> discovery_host_state" where
  "host_state_of_code code =
     (if code = 200 then CHIAKI_DISCOVERY_HOST_STATE_READY
      else if code = 620 then CHIAKI_DISCOVERY_HOST_STATE_STANDBY
      else CHIAKI_DISCOVERY_HOST_STATE_UNKNOWN)"

definition host_header :: "bytes \<times> bytes \<Rightarrow> discovery_host \<Rightarrow> discovery_host" where
  "host_header kv h = (case kv of (key, value) \<Rightarrow>
     if key = ascii ''system-version'' then h\<lparr>dh_system_version := Some value\<rparr>
     else if key = ascii ''device-discovery-protocol-version'' then h\<lparr>dh_device_discovery_protocol_version := Some value\<rparr>
     else if key = ascii ''host-request-port'' then h\<lparr>dh_host_request_port := ucast (c_strtoul0 value)\<rparr>
     else if key = ascii ''host-name'' then h\<lparr>dh_host_name := Some value\<rparr>
     else if key = ascii ''host-type'' then h\<lparr>dh_host_type := Some value\<rparr>
     else if key = ascii ''host-id'' then h\<lparr>dh_host_id := Some value\<rparr>
     else if key = ascii ''running-app-titleid'' then h\<lparr>dh_running_app_titleid := Some value\<rparr>
     else if key = ascii ''running-app-name'' then h\<lparr>dh_running_app_name := Some value\<rparr>
     else h)"

text \<open>\<open>addr\<close> is the text of the address of the sender, if it has one.\<close>

definition chiaki_discovery_srch_response_parse ::
    "(nat \<Rightarrow> bool) \<Rightarrow> bytes option \<Rightarrow> bytes \<Rightarrow> nat \<Rightarrow> discovery_host result" where
  "chiaki_discovery_srch_response_parse alloc addr buf buf_size =
     and_then (chiaki_http_response_parse alloc buf buf_size) (\<lambda>r.
       let buf = hp_buf (hr_parse r);
           headers = map (\<lambda>h. (cstr buf (hh_key h), cstr buf (hh_value h))) (hp_headers (hr_parse r))
       in ret_ok (fold host_header headers
            (empty_host\<lparr>dh_host_addr := addr, dh_state := host_state_of_code (hr_code r)\<rparr>)))"

subsection \<open>The socket\<close>

datatype sa_family = AF_INET | AF_INET6 | AF_OTHER

record sockaddr =
  sa_family :: sa_family
  sa_addr :: bytes
  sa_port :: u16

record discovery =
  ds_socket :: bool
  ds_local_addr :: sockaddr

text \<open>The ports that are tried, until one can be bound; \<open>n\<close> bounds the attempts.  The sum tells whether
  the last attempt succeeded.\<close>

fun bind_ports :: "(u16 \<Rightarrow> bool) \<Rightarrow> nat \<Rightarrow> u16 \<Rightarrow> (bool \<times> u16) option" where
  "bind_ports bind_ok 0 port = None"
| "bind_ports bind_ok (Suc n) port =
     (if bind_ok port then Some (True, port)
      else if port = 0 then Some (False, port)
      else bind_ports bind_ok n (if port = CHIAKI_DISCOVERY_PORT_LOCAL_MAX then 0 else port + 1))"

definition chiaki_discovery_init :: "bool \<Rightarrow> (u16 \<Rightarrow> bool) \<Rightarrow> sa_family \<Rightarrow> discovery result" where
  "chiaki_discovery_init socket_ok bind_ok family =
     (if family \<noteq> AF_INET \<and> family \<noteq> AF_INET6 then ret_err CHIAKI_ERR_INVALID_DATA
      else if \<not> socket_ok then ret_err CHIAKI_ERR_NETWORK
      else do {
        (bound, port) \<leftarrow> bind_ports bind_ok 18 CHIAKI_DISCOVERY_PORT_LOCAL_MIN;
        if \<not> bound then ret_err CHIAKI_ERR_NETWORK
        else ret_ok \<lparr>ds_socket = True, ds_local_addr = \<lparr>sa_family = family, sa_addr = [], sa_port = port\<rparr>\<rparr> })"

definition chiaki_discovery_fini :: "discovery \<Rightarrow> discovery" where
  "chiaki_discovery_fini d = d\<lparr>ds_socket := False\<rparr>"

text \<open>The datagram carries the terminator.  \<open>send_ok\<close> is the outcome of \<open>sendto\<close>.\<close>

type_synonym datagram = "bytes \<times> sockaddr"

definition chiaki_discovery_send ::
    "(datagram \<Rightarrow> bool) \<Rightarrow> discovery \<Rightarrow> discovery_packet \<Rightarrow> sockaddr \<Rightarrow> chiaki_error \<times> datagram list" where
  "chiaki_discovery_send send_ok d p addr =
     (if sa_family addr \<noteq> sa_family (ds_local_addr d) then (CHIAKI_ERR_INVALID_DATA, [])
      else case chiaki_discovery_packet_fmt p of
        None \<Rightarrow> (CHIAKI_ERR_UNKNOWN, [])
      | Some text \<Rightarrow>
          if 512 \<le> length text then (CHIAKI_ERR_BUF_TOO_SMALL, [])
          else let dg = (text @ [0], addr) in
            if \<not> send_ok dg \<and> sa_family addr = AF_INET then (CHIAKI_ERR_NETWORK, [])
            else (CHIAKI_ERR_SUCCESS, if send_ok dg then [dg] else []))"

subsection \<open>The thread\<close>

text \<open>What waiting and receiving give: an error of the wait, a failure, or a datagram and the text of the
  sender's address.\<close>

datatype discovery_rx = Drx_Select chiaki_error | Drx_Fail | Drx_Data "bytes option" bytes

definition discovery_received :: "(nat \<Rightarrow> bool) \<Rightarrow> bytes option \<Rightarrow> bytes \<Rightarrow> discovery_host option result" where
  "discovery_received alloc addr data =
     (let n = min 511 (length data) in
      if n = 0 then ret_ok None
      else case chiaki_discovery_srch_response_parse alloc addr (take n data @ [0]) n of
        None \<Rightarrow> None
      | Some (Inl _) \<Rightarrow> ret_ok None
      | Some (Inr h) \<Rightarrow> ret_ok (Some h))"

text \<open>The hosts handed to the callback, from the events in the order they come.\<close>

fun discovery_thread_func :: "(nat \<Rightarrow> bool) \<Rightarrow> discovery_rx list \<Rightarrow> discovery_host list option" where
  "discovery_thread_func alloc [] = None"
| "discovery_thread_func alloc (Drx_Select err # evs) = Some []"
| "discovery_thread_func alloc (Drx_Fail # evs) = Some []"
| "discovery_thread_func alloc (Drx_Data addr data # evs) = (case discovery_received alloc addr data of
     None \<Rightarrow> None
   | Some (Inl _) \<Rightarrow> None
   | Some (Inr None) \<Rightarrow> discovery_thread_func alloc evs
   | Some (Inr (Some h)) \<Rightarrow> map_option (\<lambda>hs. h # hs) (discovery_thread_func alloc evs))"

fun discovery_thread_func_oneshot :: "(nat \<Rightarrow> bool) \<Rightarrow> discovery_rx list \<Rightarrow> discovery_host list option" where
  "discovery_thread_func_oneshot alloc [] = None"
| "discovery_thread_func_oneshot alloc (Drx_Select err # evs) = Some []"
| "discovery_thread_func_oneshot alloc (Drx_Fail # evs) = Some []"
| "discovery_thread_func_oneshot alloc (Drx_Data addr data # evs) = (case discovery_received alloc addr data of
     None \<Rightarrow> None
   | Some (Inl _) \<Rightarrow> None
   | Some (Inr None) \<Rightarrow> discovery_thread_func_oneshot alloc evs
   | Some (Inr (Some h)) \<Rightarrow> Some [h])"

definition chiaki_discovery_thread_start :: "chiaki_error \<Rightarrow> chiaki_error \<Rightarrow> chiaki_error" where
  "chiaki_discovery_thread_start pipe thread = (if pipe \<noteq> CHIAKI_ERR_SUCCESS then pipe else thread)"

definition chiaki_discovery_thread_start_oneshot :: "chiaki_error \<Rightarrow> chiaki_error \<Rightarrow> chiaki_error" where
  "chiaki_discovery_thread_start_oneshot pipe thread = (if pipe \<noteq> CHIAKI_ERR_SUCCESS then pipe else thread)"

definition chiaki_discovery_thread_stop :: "chiaki_error \<Rightarrow> chiaki_error" where
  "chiaki_discovery_thread_stop join = join"

subsection \<open>Waking up\<close>

text \<open>The resolver gives the addresses it found, or fails.\<close>

definition chiaki_discovery_wakeup ::
    "(datagram \<Rightarrow> bool) \<Rightarrow> discovery result \<Rightarrow> discovery option \<Rightarrow> sockaddr list option \<Rightarrow> u64 \<Rightarrow> bool \<Rightarrow>
     (chiaki_error \<times> datagram list) option" where
  "chiaki_discovery_wakeup send_ok init d resolved user_credential ps5 = (case resolved of
     None \<Rightarrow> Some (CHIAKI_ERR_NETWORK, [])
   | Some addrs \<Rightarrow>
       (case filter (\<lambda>a. sa_family a = AF_INET \<or> sa_family a = AF_INET6) addrs of
          [] \<Rightarrow> Some (CHIAKI_ERR_UNKNOWN, [])
        | addr # _ \<Rightarrow>
            let addr = addr\<lparr>sa_port := (if ps5 then CHIAKI_DISCOVERY_PORT_PS5 else CHIAKI_DISCOVERY_PORT_PS4)\<rparr>;
                packet = \<lparr>dp_cmd = CHIAKI_DISCOVERY_CMD_WAKEUP,
                  dp_protocol_version = Some (if ps5 then CHIAKI_DISCOVERY_PROTOCOL_VERSION_PS5
                                              else CHIAKI_DISCOVERY_PROTOCOL_VERSION_PS4),
                  dp_user_credential = user_credential\<rparr>
            in case d of
                 Some d \<Rightarrow> Some (chiaki_discovery_send send_ok d packet addr)
               | None \<Rightarrow> (case init of
                   None \<Rightarrow> None
                 | Some (Inl err) \<Rightarrow> Some (err, [])
                 | Some (Inr d) \<Rightarrow> Some (chiaki_discovery_send send_ok d packet addr))))"

end
