(* ===== verification/DiscoveryService.thy ===== *)
theory DiscoveryService
  imports Discovery
begin

text \<open>
  \<^verbatim>\<open>lib/src/discoveryservice.c\<close>: the list of the consoles that answer, kept up to date by periodic requests.

  The two arrays are lists of the elements in use.  Whether \<open>strdup\<close> succeeds is part of each answer.  A
  report is the list of hosts handed to the callback.  All of it runs under the lock of the state.
\<close>

subsection \<open>State\<close>

record discovery_service =
  sv_hosts_max :: nat
  sv_host_drop_pings :: u64
  sv_send_addr :: sockaddr
  sv_broadcast_addrs :: "sockaddr list"
  sv_send_host :: "bytes option"
  sv_cb :: bool
  sv_discovery :: discovery
  sv_ping_index :: u64
  sv_hosts :: "discovery_host list"
  sv_host_discovery_infos :: "u64 list"

subsection \<open>Initialisation\<close>

datatype service_resource =
    Res_Hosts | Res_Infos | Res_Mutex | Res_Send_Addr | Res_Broadcast | Res_Send_Host | Res_Discovery | Res_Stop_Cond | Res_Thread

record service_env =
  se_hosts :: bool
  se_infos :: bool
  se_mutex :: chiaki_error
  se_send_addr :: bool
  se_broadcast :: bool
  se_send_host :: bool
  se_discovery :: chiaki_error
  se_stop_cond :: chiaki_error
  se_thread :: chiaki_error

text \<open>The result and what is allocated when the function returns, in the order it was allocated.\<close>

definition chiaki_discovery_service_init ::
    "service_env \<Rightarrow> nat \<Rightarrow> bool \<Rightarrow> chiaki_error \<times> service_resource list" where
  "chiaki_discovery_service_init E broadcast_num send_host =
     (let host = (if send_host then [Res_Send_Host] else []);
          bc = (if 0 < broadcast_num then [Res_Broadcast] else []) in
      if \<not> se_hosts E then (CHIAKI_ERR_MEMORY, [])
      else if \<not> se_infos E then (CHIAKI_ERR_MEMORY, removeAll Res_Hosts [Res_Hosts])
      else if se_mutex E \<noteq> CHIAKI_ERR_SUCCESS then (se_mutex E, filter (\<lambda>r. r \<notin> {Res_Infos, Res_Hosts}) [Res_Hosts, Res_Infos])
      else let error_state_mutex = filter (\<lambda>r. r \<notin> {Res_Mutex, Res_Infos, Res_Hosts});
               error_send_addr = (\<lambda>rs. error_state_mutex (filter (\<lambda>r. r \<notin> {Res_Broadcast, Res_Send_Addr, Res_Send_Host}) rs));
               rs = [Res_Hosts, Res_Infos, Res_Mutex] in
      if \<not> se_send_addr E then (CHIAKI_ERR_MEMORY, error_state_mutex rs)
      else let rs = rs @ [Res_Send_Addr] in
      if 0 < broadcast_num \<and> \<not> se_broadcast E then (CHIAKI_ERR_MEMORY, error_state_mutex rs)
      else let rs = rs @ bc in
      if send_host \<and> \<not> se_send_host E then (CHIAKI_ERR_MEMORY, error_send_addr rs)
      else let rs = rs @ host in
      if se_discovery E \<noteq> CHIAKI_ERR_SUCCESS then (se_discovery E, error_send_addr rs)
      else let rs = rs @ [Res_Discovery] in
      if se_stop_cond E \<noteq> CHIAKI_ERR_SUCCESS then (se_stop_cond E, error_send_addr (removeAll Res_Discovery rs))
      else let rs = rs @ [Res_Stop_Cond] in
      if se_thread E \<noteq> CHIAKI_ERR_SUCCESS
      then (se_thread E, error_send_addr (removeAll Res_Discovery (removeAll Res_Stop_Cond rs)))
      else (CHIAKI_ERR_SUCCESS, rs @ [Res_Thread]))"

subsection \<open>Reports\<close>

definition discovery_service_report_state :: "discovery_service \<Rightarrow> discovery_host list list" where
  "discovery_service_report_state s = (if sv_cb s then [sv_hosts s] else [])"

subsection \<open>Dropping hosts\<close>

definition host_alive :: "discovery_service \<Rightarrow> u64 \<Rightarrow> bool" where
  "host_alive s last_ping \<longleftrightarrow> sv_ping_index s \<le> last_ping + sv_host_drop_pings s"

definition remove_at :: "nat \<Rightarrow> 'a list \<Rightarrow> 'a list" where
  "remove_at i xs = take i xs @ drop (i + 1) xs"

text \<open>The loop from index \<open>i\<close>; after a removal the index is decremented, if it can be, and then
  incremented by the loop.  \<open>None\<close> is an access behind the end of the second array.\<close>

function drop_loop :: "(u64 \<Rightarrow> bool) \<Rightarrow> nat \<Rightarrow> discovery_host list \<Rightarrow> u64 list \<Rightarrow> bool \<Rightarrow>
    (discovery_host list \<times> u64 list \<times> bool) option" where
  "drop_loop alive i hosts infos change =
     (if length hosts \<le> i then Some (hosts, infos, change)
      else do {
        info \<leftarrow> rd8 infos i;
        if alive info then drop_loop alive (i + 1) hosts infos change
        else drop_loop alive ((if 0 < i then i - 1 else i) + 1) (remove_at i hosts) (remove_at i infos) True })"
  by pat_completeness auto
termination
proof (relation "measure (\<lambda>(alive, i, hosts, infos, change). 2 * length hosts - i)")
  fix alive :: "u64 \<Rightarrow> bool" and i :: nat and hosts :: "discovery_host list" and infos :: "u64 list" and change info
  assume i: "\<not> length hosts \<le> i"
  then obtain n where n: "length hosts = Suc n" by (cases hosts) auto
  then have r: "length (remove_at i hosts) = n" using i by (simp add: remove_at_def)
  then show "((alive, (if 0 < i then i - 1 else i) + 1, remove_at i hosts, remove_at i infos, True), alive, i, hosts, infos, change)
      \<in> measure (\<lambda>(alive, i, hosts, infos, change). 2 * length hosts - i)"
    unfolding in_measure split r n using i n by (simp; linarith)
qed auto

declare drop_loop.simps [simp del]

definition discovery_service_drop_old_hosts ::
    "discovery_service \<Rightarrow> (discovery_service \<times> discovery_host list list) option" where
  "discovery_service_drop_old_hosts s = do {
     (hosts, infos, change) \<leftarrow> drop_loop (host_alive s) 0 (sv_hosts s) (sv_host_discovery_infos s) False;
     let s = s\<lparr>sv_hosts := hosts, sv_host_discovery_infos := infos\<rparr>;
     Some (s, if change then discovery_service_report_state s else []) }"

subsection \<open>A host answers\<close>

text \<open>The first host with the id; hosts without one are passed over.\<close>

definition find_host :: "bytes \<Rightarrow> discovery_host list \<Rightarrow> nat option" where
  "find_host hid hosts = (let n = length (takeWhile (\<lambda>h. dh_host_id h \<noteq> Some hid) hosts)
     in if n < length hosts then Some n else None)"

text \<open>The outcome of \<open>strdup\<close> is not looked at: when it fails the string is NULL.  \<open>ok n\<close> says whether it
  succeeds for the string number \<open>n\<close> of the list \<open>CHIAKI_DISCOVERY_HOST_STRING_FOREACH\<close>, in this answer.\<close>

definition update_string :: "bool \<Rightarrow> bytes option \<Rightarrow> bytes option \<Rightarrow> bytes option \<times> bool" where
  "update_string dup_ok slot new =
     (if slot \<noteq> None \<and> new \<noteq> None \<and> slot = new then (slot, False)
      else if slot = None \<and> new = None then (slot, False)
      else (case new of None \<Rightarrow> None | Some s \<Rightarrow> if dup_ok then Some s else None, True))"

definition update_host :: "(nat \<Rightarrow> bool) \<Rightarrow> discovery_host \<Rightarrow> discovery_host \<Rightarrow> discovery_host \<times> bool" where
  "update_host ok slot h =
     (let c0 = (dh_state slot \<noteq> dh_state h \<or> dh_host_request_port slot \<noteq> dh_host_request_port h);
          (a1, c1) = update_string (ok 0) (dh_host_addr slot) (dh_host_addr h);
          (a2, c2) = update_string (ok 1) (dh_system_version slot) (dh_system_version h);
          (a3, c3) = update_string (ok 2) (dh_device_discovery_protocol_version slot) (dh_device_discovery_protocol_version h);
          (a4, c4) = update_string (ok 3) (dh_host_name slot) (dh_host_name h);
          (a5, c5) = update_string (ok 4) (dh_host_type slot) (dh_host_type h);
          (a6, c6) = update_string (ok 5) (dh_host_id slot) (dh_host_id h);
          (a7, c7) = update_string (ok 6) (dh_running_app_titleid slot) (dh_running_app_titleid h);
          (a8, c8) = update_string (ok 7) (dh_running_app_name slot) (dh_running_app_name h)
      in (\<lparr>dh_state = dh_state h, dh_host_request_port = dh_host_request_port h, dh_host_addr = a1, dh_system_version = a2,
           dh_device_discovery_protocol_version = a3, dh_host_name = a4, dh_host_type = a5, dh_host_id = a6,
           dh_running_app_titleid = a7, dh_running_app_name = a8\<rparr>,
          c0 \<or> c1 \<or> c2 \<or> c3 \<or> c4 \<or> c5 \<or> c6 \<or> c7 \<or> c8))"

definition discovery_service_host_received ::
    "(nat \<Rightarrow> bool) \<Rightarrow> discovery_host \<Rightarrow> discovery_service \<Rightarrow>
     (discovery_service \<times> discovery_host list list) option" where
  "discovery_service_host_received ok h s = (case dh_host_id h of
     None \<Rightarrow> Some (s, [])
   | Some hid \<Rightarrow>
       let found = find_host hid (sv_hosts s) in
       if found = None \<and> length (sv_hosts s) = sv_hosts_max s then Some (s, [])
       else
         let change = (found = None);
             s = (if found = None then s\<lparr>sv_hosts := sv_hosts s @ [empty_host],
                    sv_host_discovery_infos := sv_host_discovery_infos s @ [0]\<rparr> else s);
             index = (case found of Some i \<Rightarrow> i | None \<Rightarrow> length (sv_hosts s) - 1)
         in do {
           slot \<leftarrow> rd8 (sv_hosts s) index;
           infos \<leftarrow> wr8 (sv_host_discovery_infos s) index (sv_ping_index s);
           let (h', changed) = update_host ok slot h;
           hosts \<leftarrow> wr8 (sv_hosts s) index h';
           let s = s\<lparr>sv_hosts := hosts, sv_host_discovery_infos := infos\<rparr>;
           Some (s, if change \<or> changed then discovery_service_report_state s else []) })"

subsection \<open>A ping\<close>

text \<open>The requests that go out for one console generation: to the address and, for the limited broadcast
  address, to the broadcast addresses of the interfaces.\<close>

definition ping_port :: "u16 \<Rightarrow> sockaddr \<Rightarrow> sockaddr" where
  "ping_port port a = (if sa_family a = AF_INET \<or> sa_family a = AF_INET6 then a\<lparr>sa_port := port\<rparr> else a)"

definition ping_generation ::
    "(datagram \<Rightarrow> bool) \<Rightarrow> bytes \<Rightarrow> u16 \<Rightarrow> bool \<Rightarrow> discovery_service \<Rightarrow> discovery_service \<times> datagram list" where
  "ping_generation send_ok version port extra s =
     (let p = \<lparr>dp_cmd = CHIAKI_DISCOVERY_CMD_SRCH, dp_protocol_version = Some version, dp_user_credential = 0\<rparr>;
          addr = ping_port port (sv_send_addr s);
          bcs = (if extra then map (\<lambda>a. a\<lparr>sa_port := port\<rparr>) (sv_broadcast_addrs s) else sv_broadcast_addrs s);
          s = s\<lparr>sv_send_addr := addr, sv_broadcast_addrs := bcs\<rparr>
      in (s, concat (map (\<lambda>a. snd (chiaki_discovery_send send_ok (sv_discovery s) p a)) (addr # (if extra then bcs else [])))))"

text \<open>\<open>resolved\<close> is the outcome of looking up the name of the host, if one is given.\<close>

definition resolve_host :: "sockaddr list option \<Rightarrow> discovery_service \<Rightarrow> discovery_service option" where
  "resolve_host resolved s =
     (if sv_send_host s = None then Some s
      else case resolved of
        None \<Rightarrow> None
      | Some addrs \<Rightarrow>
          (case filter (\<lambda>a. sa_family a = AF_INET \<or> sa_family a = AF_INET6) addrs of
             [] \<Rightarrow> None
           | as \<Rightarrow> Some (s\<lparr>sv_send_addr := last as, sv_send_host := None\<rparr>)))"

definition discovery_service_ping ::
    "(datagram \<Rightarrow> bool) \<Rightarrow> sockaddr list option \<Rightarrow> discovery_service \<Rightarrow>
     (discovery_service \<times> discovery_host list list \<times> datagram list) option" where
  "discovery_service_ping send_ok resolved s = do {
     (s, reports) \<leftarrow> discovery_service_drop_old_hosts (s\<lparr>sv_ping_index := sv_ping_index s + 1\<rparr>);
     (case resolve_host resolved s of
        None \<Rightarrow> Some (s, reports, [])
      | Some s \<Rightarrow>
          if sa_family (sv_send_addr s) \<noteq> AF_INET \<and> sa_family (sv_send_addr s) \<noteq> AF_INET6 then Some (s, reports, [])
          else
            let extra = (sa_family (sv_send_addr s) = AF_INET \<and> sa_addr (sv_send_addr s) = [255, 255, 255, 255]);
                (s, d1) = ping_generation send_ok CHIAKI_DISCOVERY_PROTOCOL_VERSION_PS4 CHIAKI_DISCOVERY_PORT_PS4 extra s;
                (s, d2) = ping_generation send_ok CHIAKI_DISCOVERY_PROTOCOL_VERSION_PS5 CHIAKI_DISCOVERY_PORT_PS5 extra s
            in Some (s, reports, d1 @ d2)) }"

subsection \<open>The life of the service\<close>

text \<open>What happens: an answer arrives on one thread, with the outcomes of the copies of its strings; the
  other thread wakes up for a ping.\<close>

datatype service_event = Host_Received "nat \<Rightarrow> bool" discovery_host | Ping "datagram \<Rightarrow> bool" "sockaddr list option"

definition service_step ::
    "service_event \<Rightarrow> discovery_service \<Rightarrow> (discovery_service \<times> discovery_host list list) option" where
  "service_step e s = (case e of
     Host_Received ok h \<Rightarrow> discovery_service_host_received ok h s
   | Ping send_ok resolved \<Rightarrow> map_option (\<lambda>(s, reports, _). (s, reports)) (discovery_service_ping send_ok resolved s))"

fun service_run :: "service_event list \<Rightarrow> discovery_service \<Rightarrow> (discovery_service \<times> discovery_host list list) option" where
  "service_run [] s = Some (s, [])"
| "service_run (e # es) s = do {
     (s, r1) \<leftarrow> service_step e s;
     (s, r2) \<leftarrow> service_run es s;
     Some (s, r1 @ r2) }"

text \<open>The thread: a ping for each time its wait ends with a timeout.\<close>

fun discovery_service_thread_func :: "chiaki_error \<Rightarrow> chiaki_error \<Rightarrow> chiaki_error list \<Rightarrow> nat option" where
  "discovery_service_thread_func lock start [] =
     (if lock \<noteq> CHIAKI_ERR_SUCCESS \<or> start \<noteq> CHIAKI_ERR_SUCCESS then Some 0 else None)"
| "discovery_service_thread_func lock start (w # ws) =
     (if lock \<noteq> CHIAKI_ERR_SUCCESS \<or> start \<noteq> CHIAKI_ERR_SUCCESS then Some 0
      else if w = CHIAKI_ERR_TIMEOUT then map_option Suc (discovery_service_thread_func lock start ws)
      else Some 0)"

end
