(* ===== verification/DiscoveryProps.thy ===== *)
theory DiscoveryProps
  imports DiscoveryService "HOL-Library.Sublist"
begin

text \<open>
  The discovery service: what a ping drops, the invariant of the list of hosts and what its observer is
  told, over every sequence of answers and pings; the exits of the initialisation.
\<close>

subsection \<open>The socket\<close>

lemma bind_ports_from: "j \<le> 16 \<Longrightarrow> bind_ports bind_ok (Suc (Suc j)) (9319 - of_nat j) \<noteq> None"
proof (induction j)
  case 0
  then show ?case by (auto simp: CHIAKI_DISCOVERY_PORT_LOCAL_MAX_def)
next
  case (Suc j)
  have n: "(9319 :: u16) \<noteq> of_nat (Suc j)" "(of_nat (Suc j) :: u16) \<noteq> 0"
    using Suc.prems by (auto simp: word_unat_eq_iff unat_of_nat simp del: of_nat_Suc)
  let ?p = "9319 - of_nat (Suc j) :: u16"
  have w: "9319 - w \<noteq> (0 :: u16)" "9319 - w \<noteq> CHIAKI_DISCOVERY_PORT_LOCAL_MAX" if "9319 \<noteq> w" "w \<noteq> 0" for w
    using that by (simp_all add: CHIAKI_DISCOVERY_PORT_LOCAL_MAX_def algebra_simps)
  have p: "?p \<noteq> 0" "?p \<noteq> CHIAKI_DISCOVERY_PORT_LOCAL_MAX" "?p + 1 = 9319 - of_nat j"
    using w [OF n] by simp_all
  have "bind_ports bind_ok (Suc (Suc j)) (9319 - of_nat j) \<noteq> None" using Suc by simp
  then show ?case unfolding bind_ports.simps(2) [of bind_ok "Suc (Suc j)"] if_not_P [OF p(1)] if_not_P [OF p(2)] p(3) by auto
qed

lemma bind_ports_returns: "bind_ports bind_ok 18 CHIAKI_DISCOVERY_PORT_LOCAL_MIN \<noteq> None"
  using bind_ports_from [of 16 bind_ok] by (simp add: CHIAKI_DISCOVERY_PORT_LOCAL_MIN_def del: bind_ports.simps)

subsection \<open>Dropping hosts\<close>

text \<open>The hosts that stay, each with the ping at which it answered last.\<close>

definition kept_hosts :: "(u64 \<Rightarrow> bool) \<Rightarrow> (discovery_host \<times> u64) list \<Rightarrow> (discovery_host \<times> u64) list" where
  "kept_hosts alive ps = (case ps of
     [] \<Rightarrow> []
   | p # rest \<Rightarrow>
       if alive (snd p) then filter (alive \<circ> snd) ps
       else take 1 rest @ filter (alive \<circ> snd) (drop 1 rest))"

lemma map_remove_at: "map f (remove_at i xs) = remove_at i (map f xs)"
  by (simp add: remove_at_def take_map drop_map)

lemma take_remove_at: "i < length xs \<Longrightarrow> take i (remove_at i xs) = take i xs"
  by (simp add: remove_at_def)

lemma drop_remove_at: "i < length xs \<Longrightarrow> drop i (remove_at i xs) = drop (i + 1) xs"
  by (simp add: remove_at_def)

lemma drop_loop_tail:
  "1 \<le> i \<Longrightarrow> drop_loop alive i (map fst ps) (map snd ps) c =
     (let qs = take i ps @ filter (alive \<circ> snd) (drop i ps)
      in Some (map fst qs, map snd qs, c \<or> length qs \<noteq> length ps))"
proof (induction "2 * length ps - i" arbitrary: i ps c rule: less_induct)
  case less
  show ?case
  proof (cases "i < length ps")
    case False
    then show ?thesis by (subst drop_loop.simps) simp
  next
    case True
    then obtain p rest where p: "drop i ps = p # rest" "rest = drop (i + 1) ps" "ps ! i = p"
      by (metis Cons_nth_drop_Suc Suc_eq_plus1)
    have t: "take (i + 1) ps = take i ps @ [p]" using True p(3) by (simp add: take_Suc_conv_app_nth)
    show ?thesis
    proof (cases "alive (snd p)")
      case alive: True
      have "drop_loop alive i (map fst ps) (map snd ps) c = drop_loop alive (i + 1) (map fst ps) (map snd ps) c"
        using True p(3) alive by (subst drop_loop.simps) simp
      then show ?thesis using less.hyps [of ps "i + 1" c] True less.prems t p alive by (simp add: Let_def)
    next
      case dead: False
      let ?ps = "remove_at i ps"
      have len: "length ?ps = length ps - 1" using True by (simp add: remove_at_def)
      have i: "(if 0 < i then i - 1 else i) + 1 = i" using less.prems by simp
      have "drop_loop alive i (map fst ps) (map snd ps) c = drop_loop alive i (map fst ?ps) (map snd ?ps) True"
        unfolding map_remove_at using True p(3) dead i by (subst drop_loop.simps) simp
      moreover have "2 * length ?ps - i < 2 * length ps - i" using True len by simp
      moreover have "i + length (filter (alive \<circ> snd) (drop (Suc i) ps)) < length ps"
        using length_filter_le [of "alive \<circ> snd" "drop (Suc i) ps"] True unfolding length_drop by linarith
      ultimately show ?thesis
        using less.hyps [of ?ps i True] less.prems dead p True
        by (simp add: Let_def take_remove_at drop_remove_at)
    qed
  qed
qed

lemma drop_loop_kept:
  "drop_loop alive 0 (map fst ps) (map snd ps) False =
     Some (map fst (kept_hosts alive ps), map snd (kept_hosts alive ps), length (kept_hosts alive ps) \<noteq> length ps)"
proof (cases ps)
  case Nil
  then show ?thesis by (subst drop_loop.simps) (simp add: kept_hosts_def)
next
  case (Cons p rest)
  show ?thesis
  proof (cases "alive (snd p)")
    case True
    then have "drop_loop alive 0 (map fst ps) (map snd ps) False = drop_loop alive 1 (map fst ps) (map snd ps) False"
      using Cons by (subst drop_loop.simps) simp
    then show ?thesis using drop_loop_tail [of 1 alive ps False] Cons True by (simp add: kept_hosts_def Let_def)
  next
    case False
    then have "drop_loop alive 0 (map fst ps) (map snd ps) False = drop_loop alive 1 (map fst rest) (map snd rest) True"
      using Cons by (subst drop_loop.simps) (simp add: remove_at_def)
    moreover have "length (take 1 rest @ filter (alive \<circ> snd) (drop 1 rest)) \<le> length rest"
      using length_filter_le [of "alive \<circ> snd" "drop 1 rest"] by (cases rest) simp_all
    ultimately show ?thesis using drop_loop_tail [of 1 alive rest True] Cons False
      by (simp add: kept_hosts_def Let_def)
  qed
qed

definition service_hosts :: "discovery_service \<Rightarrow> (discovery_host \<times> u64) list" where
  "service_hosts s = zip (sv_hosts s) (sv_host_discovery_infos s)"

definition set_hosts :: "(discovery_host \<times> u64) list \<Rightarrow> discovery_service \<Rightarrow> discovery_service" where
  "set_hosts ps s = s\<lparr>sv_hosts := map fst ps, sv_host_discovery_infos := map snd ps\<rparr>"

lemma drop_old_hosts_kept:
  assumes "length (sv_host_discovery_infos s) = length (sv_hosts s)"
  shows "discovery_service_drop_old_hosts s =
    (let qs = kept_hosts (host_alive s) (service_hosts s)
     in Some (set_hosts qs s, if length qs = length (sv_hosts s) then [] else discovery_service_report_state (set_hosts qs s)))"
proof -
  have "map fst (service_hosts s) = sv_hosts s" "map snd (service_hosts s) = sv_host_discovery_infos s"
    "length (service_hosts s) = length (sv_hosts s)"
    using assms by (simp_all add: service_hosts_def)
  then show ?thesis using drop_loop_kept [of "host_alive s" "service_hosts s"]
    by (simp add: discovery_service_drop_old_hosts_def set_hosts_def Let_def)
qed

subsection \<open>The list of hosts\<close>

text \<open>The ids in the list, in order; a host whose id could not be copied has none.\<close>

definition host_ids :: "discovery_host list \<Rightarrow> bytes option list" where
  "host_ids hosts = filter (\<lambda>i. i \<noteq> None) (map dh_host_id hosts)"

definition service_ok :: "discovery_service \<Rightarrow> bool" where
  "service_ok s \<longleftrightarrow> length (sv_host_discovery_infos s) = length (sv_hosts s) \<and> length (sv_hosts s) \<le> sv_hosts_max s
     \<and> distinct (host_ids (sv_hosts s))"

definition all_named :: "discovery_service \<Rightarrow> bool" where
  "all_named s \<longleftrightarrow> (\<forall>h \<in> set (sv_hosts s). dh_host_id h \<noteq> None)"

lemma kept_hosts_subseq: "subseq (kept_hosts alive ps) ps"
proof (cases ps)
  case (Cons p rest)
  then show ?thesis
    by (cases rest) (auto simp: kept_hosts_def subseq_filter_left)
qed (simp add: kept_hosts_def)

lemma subseq_set: "subseq xs ys \<Longrightarrow> set xs \<subseteq> set ys"
  by (induction rule: list_emb.induct) auto

lemma subseq_distinct: "subseq xs ys \<Longrightarrow> distinct ys \<Longrightarrow> distinct xs"
  by (induction rule: list_emb.induct) (use subseq_set in fastforce)+

lemma kept_hosts_sub:
  "set (kept_hosts alive ps) \<subseteq> set ps" "length (kept_hosts alive ps) \<le> length ps"
  "length (kept_hosts alive ps) = length ps \<longleftrightarrow> kept_hosts alive ps = ps"
  using kept_hosts_subseq [of alive ps] subseq_same_length [of "kept_hosts alive ps" ps]
  by (auto dest: subseq_set list_emb_length)

lemma kept_hosts_ids:
  "distinct (host_ids (map fst ps)) \<Longrightarrow> distinct (host_ids (map fst (kept_hosts alive ps)))"
proof -
  have "subseq (host_ids (map fst (kept_hosts alive ps))) (host_ids (map fst ps))"
    unfolding host_ids_def by (intro subseq_filter subseq_map kept_hosts_subseq)
  then show "distinct (host_ids (map fst ps)) \<Longrightarrow> ?thesis" by (rule subseq_distinct)
qed

text \<open>C39. A ping drops exactly the hosts that have been silent for too many pings, with one exception: when the
  first host of the list is dropped, the host after it stays until the next ping, however long it has been
  silent.  The observer is told if and only if a host was dropped.\<close>

theorem discovery_drop_exact:
  assumes "length (sv_host_discovery_infos s) = length (sv_hosts s)"
  shows "discovery_service_drop_old_hosts s =
    (let alive = (\<lambda>p. host_alive s (snd p)); ps = zip (sv_hosts s) (sv_host_discovery_infos s);
         qs = (case ps of
             [] \<Rightarrow> []
           | p # rest \<Rightarrow> if alive p then filter alive ps else take 1 rest @ filter alive (drop 1 rest));
         s' = s\<lparr>sv_hosts := map fst qs, sv_host_discovery_infos := map snd qs\<rparr>
     in Some (s', if length qs = length ps then [] else discovery_service_report_state s'))"
  using drop_old_hosts_kept [OF assms] assms
  by (simp add: kept_hosts_def service_hosts_def set_hosts_def Let_def comp_def split: list.splits)

definition test_host :: "u8 \<Rightarrow> discovery_host" where
  "test_host i = empty_host\<lparr>dh_host_id := Some [i]\<rparr>"

definition test_service :: discovery_service where
  "test_service = \<lparr>sv_hosts_max = 4, sv_host_drop_pings = 3,
     sv_send_addr = \<lparr>sa_family = AF_INET, sa_addr = [192, 168, 0, 255], sa_port = 0\<rparr>, sv_broadcast_addrs = [],
     sv_send_host = None, sv_cb = True,
     sv_discovery = \<lparr>ds_socket = True, ds_local_addr = \<lparr>sa_family = AF_INET, sa_addr = [], sa_port = 9303\<rparr>\<rparr>,
     sv_ping_index = 10, sv_hosts = map test_host [1, 2, 3], sv_host_discovery_infos = [1, 2, 3]\<rparr>"

lemma discovery_drop_exact_witness:
  "map_option (sv_hosts \<circ> fst) (discovery_service_drop_old_hosts test_service) = Some [test_host 2]"
proof -
  have "length (sv_host_discovery_infos test_service) = length (sv_hosts test_service)" by (simp add: test_service_def)
  from discovery_drop_exact [OF this] show ?thesis
    by (simp add: test_service_def host_alive_def Let_def)
qed

subsection \<open>Steps\<close>

lemma update_string_eq:
  "update_string ok a b = (if a = b then (b, False) else (if ok then b else None, True))"
  by (auto simp: update_string_def split: option.splits)

text \<open>The host that is stored, when some strings may not be copied.\<close>

lemma update_host_dup:
  "snd (update_host ok slot h) \<longleftrightarrow> slot \<noteq> h" "fst (update_host ok h h) = h"
  "(\<forall>n. ok n) \<Longrightarrow> fst (update_host ok slot h) = h"
  "dh_host_id (fst (update_host ok slot h)) = (if dh_host_id slot = dh_host_id h \<or> ok 5 then dh_host_id h else None)"
  by (cases slot; cases h; auto simp: update_host_def update_string_eq split: prod.splits)+

lemma find_host_Some: "find_host hid hosts = Some i \<Longrightarrow> i < length hosts \<and> dh_host_id (hosts ! i) = Some hid"
  using nth_length_takeWhile [of "\<lambda>h. dh_host_id h \<noteq> Some hid" hosts]
  by (auto simp: find_host_def Let_def split: if_splits)

lemma find_host_None: "find_host hid hosts = None \<Longrightarrow> Some hid \<notin> dh_host_id ` set hosts"
proof -
  assume "find_host hid hosts = None"
  then have "length (takeWhile (\<lambda>h. dh_host_id h \<noteq> Some hid) hosts) = length hosts"
    using length_takeWhile_le [of "\<lambda>h. dh_host_id h \<noteq> Some hid" hosts]
    by (simp add: find_host_def Let_def split: if_splits)
  then have "takeWhile (\<lambda>h. dh_host_id h \<noteq> Some hid) hosts = hosts" by (metis takeWhile_eq_take take_all_iff le_refl)
  then show ?thesis by (metis (mono_tags, lifting) imageE set_takeWhileD)
qed

text \<open>What an answer does: the host with the id is replaced, or the host is added at the end if there is room.\<close>

lemma host_received_cases:
  assumes "service_ok s"
  obtains (ignored) "discovery_service_host_received ok h s = Some (s, [])"
  | (known) i s' infos where
      "discovery_service_host_received ok h s
        = Some (s', if sv_hosts s ! i = h then [] else discovery_service_report_state s')"
      "i < length (sv_hosts s)" "dh_host_id (sv_hosts s ! i) = dh_host_id h" "length infos = length (sv_hosts s)"
      "s' = s\<lparr>sv_hosts := (sv_hosts s)[i := fst (update_host ok (sv_hosts s ! i) h)], sv_host_discovery_infos := infos\<rparr>"
  | (new) s' infos where
      "discovery_service_host_received ok h s = Some (s', discovery_service_report_state s')"
      "dh_host_id h \<notin> dh_host_id ` set (sv_hosts s)" "dh_host_id h \<noteq> None" "length (sv_hosts s) < sv_hosts_max s"
      "length infos = Suc (length (sv_hosts s))"
      "s' = s\<lparr>sv_hosts := sv_hosts s @ [fst (update_host ok empty_host h)], sv_host_discovery_infos := infos\<rparr>"
proof -
  have len: "length (sv_host_discovery_infos s) = length (sv_hosts s)" "length (sv_hosts s) \<le> sv_hosts_max s"
    using assms by (simp_all add: service_ok_def)
  show thesis
  proof (cases "dh_host_id h")
    case None
    then show thesis using ignored by (simp add: discovery_service_host_received_def)
  next
    case hid: (Some hid)
    show thesis
    proof (cases "find_host hid (sv_hosts s)")
      case (Some i)
      note f = find_host_Some [OF Some]
      let ?s = "s\<lparr>sv_hosts := (sv_hosts s)[i := fst (update_host ok (sv_hosts s ! i) h)],
          sv_host_discovery_infos := (sv_host_discovery_infos s)[i := sv_ping_index s]\<rparr>"
      have "discovery_service_host_received ok h s
          = Some (?s, if sv_hosts s ! i = h then [] else discovery_service_report_state ?s)"
        using hid Some f len update_host_dup(1) [of ok "sv_hosts s ! i" h]
        by (simp add: discovery_service_host_received_def Let_def case_prod_unfold)
      then show thesis by (rule known [OF _ _ _ _ refl]) (use f len hid in simp_all)
    next
      case None
      note f = find_host_None [OF None]
      show thesis
      proof (cases "length (sv_hosts s) = sv_hosts_max s")
        case True
        then show thesis using hid None ignored by (simp add: discovery_service_host_received_def)
      next
        case False
        have "discovery_service_host_received ok h s = Some (s\<lparr>sv_hosts := sv_hosts s @ [fst (update_host ok empty_host h)],
            sv_host_discovery_infos := sv_host_discovery_infos s @ [sv_ping_index s]\<rparr>,
          discovery_service_report_state (s\<lparr>sv_hosts := sv_hosts s @ [fst (update_host ok empty_host h)],
            sv_host_discovery_infos := sv_host_discovery_infos s @ [sv_ping_index s]\<rparr>))"
          using hid None False len
          by (simp add: discovery_service_host_received_def Let_def case_prod_unfold list_update_append)
        then show thesis by (rule new [OF _ _ _ _ _ refl]) (use f hid False len in simp_all)
      qed
    qed
  qed
qed

lemma ping_fields:
  "ping_generation send_ok version port extra s = (s', ds) \<Longrightarrow> sv_hosts s' = sv_hosts s
     \<and> sv_host_discovery_infos s' = sv_host_discovery_infos s \<and> sv_hosts_max s' = sv_hosts_max s \<and> sv_cb s' = sv_cb s"
  "resolve_host resolved s = Some s'' \<Longrightarrow> sv_hosts s'' = sv_hosts s
     \<and> sv_host_discovery_infos s'' = sv_host_discovery_infos s \<and> sv_hosts_max s'' = sv_hosts_max s \<and> sv_cb s'' = sv_cb s"
  by (auto simp: ping_generation_def resolve_host_def Let_def split: if_splits option.splits list.splits)

text \<open>What a ping does to the hosts.\<close>

lemma ping_hosts:
  assumes "discovery_service_drop_old_hosts (s\<lparr>sv_ping_index := sv_ping_index s + 1\<rparr>) = Some (s1, rs)"
  shows "\<exists>s' ds. discovery_service_ping send_ok resolved s = Some (s', rs, ds)
    \<and> sv_hosts s' = sv_hosts s1 \<and> sv_host_discovery_infos s' = sv_host_discovery_infos s1
    \<and> sv_hosts_max s' = sv_hosts_max s1 \<and> sv_cb s' = sv_cb s1"
proof (cases "resolve_host resolved s1")
  case None
  then show ?thesis using assms by (simp add: discovery_service_ping_def)
next
  case (Some s2)
  show ?thesis using assms Some ping_fields(2) [OF Some]
    by (auto simp: discovery_service_ping_def Let_def split: prod.splits dest!: ping_fields(1))
qed

text \<open>One step keeps the invariant, and reports the hosts if they have changed; it reports unchanged hosts
  only if a string could not be copied.\<close>

definition strings_copied :: "service_event \<Rightarrow> bool" where
  "strings_copied e \<longleftrightarrow> (case e of Host_Received ok h \<Rightarrow> \<forall>n. ok n | Ping _ _ \<Rightarrow> True)"

definition id_copied :: "service_event \<Rightarrow> bool" where
  "id_copied e \<longleftrightarrow> (case e of Host_Received ok h \<Rightarrow> ok 5 | Ping _ _ \<Rightarrow> True)"

definition service_sound :: "service_event \<Rightarrow> discovery_service \<Rightarrow> discovery_service \<Rightarrow> discovery_host list list \<Rightarrow> bool" where
  "service_sound e s s' rs \<longleftrightarrow> service_ok s' \<and> sv_cb s' = sv_cb s \<and> sv_hosts_max s' = sv_hosts_max s
     \<and> (id_copied e \<and> all_named s \<longrightarrow> all_named s')
     \<and> (rs = [] \<and> sv_hosts s' = sv_hosts s \<or> rs = discovery_service_report_state s')
     \<and> (strings_copied e \<and> sv_hosts s' = sv_hosts s \<longrightarrow> rs = [])"

lemma host_received_step:
  assumes "service_ok s"
  shows "\<exists>s' rs. discovery_service_host_received ok h s = Some (s', rs) \<and> service_sound (Host_Received ok h) s s' rs"
  using assms
proof (cases rule: host_received_cases [where ok = ok and h = h])
  case ignored
  then show ?thesis using assms by (simp add: service_sound_def)
next
  case (known i s' infos)
  let ?h = "fst (update_host ok (sv_hosts s ! i) h)"
  have id: "dh_host_id ?h = dh_host_id (sv_hosts s ! i)" using known(3) by (simp add: update_host_dup(4))
  then have ids: "map dh_host_id ((sv_hosts s)[i := ?h]) = map dh_host_id (sv_hosts s)"
    using known(2) by (simp add: map_update) (metis length_map list_update_id nth_map)
  have "all_named s \<Longrightarrow> \<forall>x \<in> set ((sv_hosts s)[i := ?h]). dh_host_id x \<noteq> None"
    using id nth_mem [OF known(2)]
    by (auto simp: all_named_def simp del: not_None_eq nth_mem dest!: set_update_subset_insert [THEN subsetD])
  moreover have "sv_hosts s ! i = h \<Longrightarrow> (sv_hosts s)[i := ?h] = sv_hosts s"
    by (metis list_update_id update_host_dup(2))
  moreover have "\<forall>n. ok n \<Longrightarrow> (sv_hosts s)[i := ?h] = sv_hosts s \<Longrightarrow> sv_hosts s ! i = h"
    using known(2) by (metis nth_list_update_eq update_host_dup(3))
  ultimately show ?thesis using known assms ids
    by (auto simp: service_sound_def service_ok_def all_named_def host_ids_def strings_copied_def)
next
  case (new s' infos)
  have "dh_host_id (fst (update_host ok empty_host h)) \<in> {dh_host_id h, None}"
    "ok 5 \<Longrightarrow> dh_host_id (fst (update_host ok empty_host h)) = dh_host_id h"
    by (simp_all add: update_host_dup(4))
  moreover have "\<forall>x \<in> set (sv_hosts s). dh_host_id x \<noteq> dh_host_id h" using new(2) by (metis image_eqI)
  ultimately show ?thesis using new assms
    by (auto simp: service_sound_def service_ok_def all_named_def host_ids_def id_copied_def)
qed

lemma ping_step:
  assumes "service_ok s"
  shows "\<exists>s' rs ds. discovery_service_ping send_ok resolved s = Some (s', rs, ds)
    \<and> service_sound (Ping send_ok resolved) s s' rs"
proof -
  let ?s = "s\<lparr>sv_ping_index := sv_ping_index s + 1\<rparr>"
  let ?ps = "service_hosts s" and ?qs = "kept_hosts (host_alive ?s) (service_hosts s)"
  let ?rs = "if length ?qs = length (sv_hosts s) then [] else discovery_service_report_state (set_hosts ?qs ?s)"
  have len: "length (sv_host_discovery_infos s) = length (sv_hosts s)" using assms by (simp add: service_ok_def)
  then have ps: "map fst ?ps = sv_hosts s" "length ?ps = length (sv_hosts s)" by (simp_all add: service_hosts_def)
  have "service_hosts ?s = ?ps" by (simp add: service_hosts_def)
  then have "discovery_service_drop_old_hosts ?s = Some (set_hosts ?qs ?s, ?rs)"
    using drop_old_hosts_kept [of ?s] len by (simp add: Let_def)
  then obtain s' ds where s': "discovery_service_ping send_ok resolved s = Some (s', ?rs, ds)"
    "sv_hosts s' = map fst ?qs" "sv_host_discovery_infos s' = map snd ?qs" "sv_hosts_max s' = sv_hosts_max s" "sv_cb s' = sv_cb s"
    using ping_hosts [of s "set_hosts ?qs ?s" ?rs send_ok resolved] by (auto simp: set_hosts_def)
  have "length ?qs = length (sv_hosts s) \<longleftrightarrow> map fst ?qs = sv_hosts s"
    using kept_hosts_sub(3) [of "host_alive ?s" ?ps] ps by (metis length_map)
  moreover have "distinct (host_ids (map fst ?qs))"
    using assms ps(1) by (intro kept_hosts_ids) (simp add: service_ok_def)
  moreover have "fst ` set ?ps = set (sv_hosts s)" using ps(1) by (metis list.set_map)
  then have "set (map fst ?qs) \<subseteq> set (sv_hosts s)" using kept_hosts_sub(1) [of "host_alive ?s" ?ps] by auto
  ultimately have "service_sound (Ping send_ok resolved) s s' ?rs"
    using assms s' kept_hosts_sub(2) [of "host_alive ?s" ?ps] ps(2)
    by (auto simp: service_sound_def service_ok_def all_named_def discovery_service_report_state_def set_hosts_def)
  then show ?thesis using s'(1) by blast
qed

lemma service_step_ok:
  assumes "service_ok s"
  obtains s' rs where "service_step e s = Some (s', rs)" "service_sound e s s' rs"
proof (cases e)
  case (Host_Received ok h)
  then show thesis using host_received_step [OF assms, of ok h] that by (auto simp: service_step_def)
next
  case (Ping send_ok resolved)
  then show thesis using ping_step [OF assms, of send_ok resolved] that by (auto simp: service_step_def)
qed

text \<open>C38. Every sequence of answers and pings is handled without an access outside the two arrays, and the
  list never holds two hosts with the same id nor more than the maximum, and each host has its record of
  the last ping.  As long as the copies of the ids succeed every host in the list has an id, so it
  holds each console once; a host whose id could not be copied stays in the list without one.\<close>

theorem discovery_hosts_distinct:
  assumes "service_ok s"
  shows "\<exists>s' rs. service_run es s = Some (s', rs) \<and> service_ok s'
    \<and> ((\<forall>e \<in> set es. id_copied e) \<and> all_named s \<longrightarrow> all_named s' \<and> distinct (map dh_host_id (sv_hosts s')))"
proof -
  have "\<exists>s' rs. service_run es s = Some (s', rs) \<and> service_ok s'
    \<and> ((\<forall>e \<in> set es. id_copied e) \<and> all_named s \<longrightarrow> all_named s')"
    using assms
  proof (induction es arbitrary: s)
    case (Cons e es)
    obtain s1 r1 where r: "service_step e s = Some (s1, r1)" "service_sound e s s1 r1"
      by (rule service_step_ok [OF Cons.prems])
    then show ?case using Cons.IH [of s1] by (auto simp: service_sound_def)
  qed simp
  moreover have "all_named s' \<Longrightarrow> host_ids (sv_hosts s') = map dh_host_id (sv_hosts s')" for s'
    unfolding host_ids_def by (rule filter_True) (auto simp: all_named_def)
  ultimately show ?thesis by (fastforce simp: service_ok_def)
qed

text \<open>A console whose id cannot be copied is added by each of its answers, while there is room.\<close>

lemma discovery_unnamed_added_again:
  assumes "service_ok s" "length (sv_hosts s) + 2 \<le> sv_hosts_max s" "\<not> ok 5"
    and "dh_host_id h = Some hid" "Some hid \<notin> dh_host_id ` set (sv_hosts s)"
  shows "\<exists>s' rs. service_run [Host_Received ok h, Host_Received ok h] s = Some (s', rs)
    \<and> sv_hosts s' = sv_hosts s @ replicate 2 (fst (update_host ok empty_host h))
    \<and> dh_host_id (fst (update_host ok empty_host h)) = None"
proof -
  have id: "dh_host_id (fst (update_host ok empty_host h)) = None"
    using assms(3,4) by (simp add: update_host_dup(4) empty_host_def)
  have add: "\<exists>s' rs. discovery_service_host_received ok h t = Some (s', rs) \<and> service_ok s'
      \<and> sv_hosts s' = sv_hosts t @ [fst (update_host ok empty_host h)] \<and> sv_hosts_max s' = sv_hosts_max t"
    if t: "service_ok t" "length (sv_hosts t) < sv_hosts_max t" "Some hid \<notin> dh_host_id ` set (sv_hosts t)" for t
  proof -
    have "find_host hid (sv_hosts t) = None"
      using find_host_Some [of hid "sv_hosts t"] t(3) by (metis image_eqI not_Some_eq nth_mem)
    then have "\<exists>s' rs. discovery_service_host_received ok h t = Some (s', rs)
        \<and> sv_hosts s' = sv_hosts t @ [fst (update_host ok empty_host h)]"
      using t assms(4)
      by (simp add: discovery_service_host_received_def Let_def case_prod_unfold list_update_append service_ok_def)
    then show ?thesis using host_received_step [OF t(1), of ok h] by (fastforce simp: service_sound_def)
  qed
  obtain s1 r1 where s1: "discovery_service_host_received ok h s = Some (s1, r1)" "service_ok s1"
      "sv_hosts s1 = sv_hosts s @ [fst (update_host ok empty_host h)]" "sv_hosts_max s1 = sv_hosts_max s"
    using add [OF assms(1)] assms(2,5) by auto
  moreover obtain s2 r2 where "discovery_service_host_received ok h s1 = Some (s2, r2)"
      "sv_hosts s2 = sv_hosts s1 @ [fst (update_host ok empty_host h)]"
    using add [OF s1(2)] s1(3,4) assms(2,5) id by auto
  ultimately show ?thesis using id by (simp add: service_step_def numeral_2_eq_2)
qed

lemma test_service_ok: "service_ok test_service" "all_named test_service"
  by (simp_all add: service_ok_def all_named_def host_ids_def test_service_def test_host_def)

lemma discovery_hosts_distinct_witness:
  "\<exists>s' rs. service_run [Host_Received (\<lambda>_. True) (test_host 4), Ping (\<lambda>_. True) None,
        Host_Received (\<lambda>n. n = 5) (test_host 2)] test_service = Some (s', rs)
    \<and> service_ok s' \<and> all_named s'"
  using discovery_hosts_distinct [OF test_service_ok(1), of "[Host_Received (\<lambda>_. True) (test_host 4), Ping (\<lambda>_. True) None,
        Host_Received (\<lambda>n. n = 5) (test_host 2)]"] test_service_ok(2)
  by (auto simp: id_copied_def)

text \<open>C37. The observer is up to date: through every sequence of answers and pings the last list it was told is
  the current one.  If every copy of a string succeeds it is not told the same list twice either: each list
  differs from the one before it.  (When the copy of a string of a known host fails, every later answer of
  that host counts as a change, and the observer may be told the same list again.)\<close>

theorem discovery_observer_current:
  assumes "service_run es s = Some (s', rs)" "service_ok s" "sv_cb s"
  shows "last (sv_hosts s # rs) = sv_hosts s' \<and> ((\<forall>e \<in> set es. strings_copied e) \<longrightarrow> distinct_adj (sv_hosts s # rs))"
  using assms
proof (induction es arbitrary: s rs)
  case (Cons e es)
  obtain s1 r1 where r: "service_step e s = Some (s1, r1)" "service_sound e s s1 r1"
    by (rule service_step_ok [OF Cons.prems(2)])
  then obtain r2 where r2: "service_run es s1 = Some (s', r2)" "rs = r1 @ r2"
    using Cons.prems(1) by (auto simp: bind_eq_Some_conv)
  have cb: "discovery_service_report_state s1 = [sv_hosts s1]"
    using r(2) Cons.prems(3) by (simp add: service_sound_def discovery_service_report_state_def)
  have "last (sv_hosts s1 # r2) = sv_hosts s' \<and> ((\<forall>e \<in> set es. strings_copied e) \<longrightarrow> distinct_adj (sv_hosts s1 # r2))"
    using Cons.IH [OF r2(1)] r(2) Cons.prems(3) by (simp add: service_sound_def)
  then show ?case using r(2) r2(2) cb by (auto simp: service_sound_def split: if_splits)
qed simp

lemma test_service_run:
  "\<exists>s' rs. service_run [Host_Received (\<lambda>_. True) (test_host 4), Ping (\<lambda>_. True) None, Host_Received (\<lambda>_. True) (test_host 2)]
     test_service = Some (s', rs)"
proof -
  have "map_option (length \<circ> snd) (service_run [Host_Received (\<lambda>_. True) (test_host 4), Ping (\<lambda>_. True) None,
      Host_Received (\<lambda>_. True) (test_host 2)] test_service) = Some 2" by code_simp
  then show ?thesis by auto
qed

lemma discovery_observer_current_witness:
  "\<exists>s' rs. service_run [Host_Received (\<lambda>_. True) (test_host 4), Ping (\<lambda>_. True) None, Host_Received (\<lambda>_. True) (test_host 2)]
      test_service = Some (s', rs)
    \<and> last (sv_hosts test_service # rs) = sv_hosts s' \<and> distinct_adj (sv_hosts test_service # rs)"
proof -
  have "sv_cb test_service" by (simp add: test_service_def)
  then show ?thesis using test_service_run discovery_observer_current [OF _ test_service_ok(1)]
    by (fastforce simp: strings_copied_def)
qed

subsection \<open>Initialisation\<close>

text \<open>C40. On success the service holds everything it has allocated; on an error it holds nothing, except when the
  memory for the broadcast addresses is refused: then the copy of the address stays allocated.\<close>

theorem discovery_service_init_exits:
  "chiaki_discovery_service_init E broadcast_num send_host = (err, rs) \<Longrightarrow>
     rs = (if err = CHIAKI_ERR_SUCCESS
       then [Res_Hosts, Res_Infos, Res_Mutex, Res_Send_Addr] @ (if 0 < broadcast_num then [Res_Broadcast] else [])
         @ (if send_host then [Res_Send_Host] else []) @ [Res_Discovery, Res_Stop_Cond, Res_Thread]
       else if se_hosts E \<and> se_infos E \<and> se_mutex E = CHIAKI_ERR_SUCCESS \<and> se_send_addr E \<and> 0 < broadcast_num \<and> \<not> se_broadcast E
       then [Res_Send_Addr] else [])"
  by (auto simp: chiaki_discovery_service_init_def Let_def split: if_splits)

lemma discovery_service_init_exits_witness:
  "snd (chiaki_discovery_service_init \<lparr>se_hosts = True, se_infos = True, se_mutex = CHIAKI_ERR_SUCCESS, se_send_addr = True,
     se_broadcast = False, se_send_host = True, se_discovery = CHIAKI_ERR_SUCCESS, se_stop_cond = CHIAKI_ERR_SUCCESS,
     se_thread = CHIAKI_ERR_SUCCESS\<rparr> 2 True) = [Res_Send_Addr]"
proof -
  let ?E = "\<lparr>se_hosts = True, se_infos = True, se_mutex = CHIAKI_ERR_SUCCESS, se_send_addr = True,
     se_broadcast = False, se_send_host = True, se_discovery = CHIAKI_ERR_SUCCESS, se_stop_cond = CHIAKI_ERR_SUCCESS,
     se_thread = CHIAKI_ERR_SUCCESS\<rparr>"
  have "chiaki_discovery_service_init ?E 2 True = (CHIAKI_ERR_MEMORY, snd (chiaki_discovery_service_init ?E 2 True))"
    by (simp add: chiaki_discovery_service_init_def)
  from discovery_service_init_exits [OF this] show ?thesis by simp
qed

end
