(* ===== verification/Spec2Isabelle.thy ===== *)
theory Spec2Isabelle
  imports ReorderQueueRun SendBufferRun Base64 Stats Http GKCryptProps RPCryptProps TakionPacketProps
    TakionOwnership VideoFlush TakionConnectProps FeedbackSenderProps FrameProcessorProps AudioReceiverProps
    AudioSender BitstreamSlice VideoReceiverProps RudpProps DiscoveryProps
begin

text \<open>
  A verification library for the core of the Remote Play client, the C library in \<^verbatim>\<open>lib/\<close>.  The user
  interfaces in \<^verbatim>\<open>gui/\<close>, \<^verbatim>\<open>android/\<close> and \<^verbatim>\<open>switch/\<close> are programs around it.

  \<^bold>\<open>The program.\<close>  A session registers with a console (\<^verbatim>\<open>regist.c\<close>, over \<^verbatim>\<open>http.c\<close>, with the keys of
  \<^verbatim>\<open>rpcrypt.c\<close>), opens a control connection (\<^verbatim>\<open>ctrl.c\<close>) and a stream connection
  (\<^verbatim>\<open>streamconnection.c\<close>).  The stream runs over Takion (\<^verbatim>\<open>takion.c\<close>), a protocol on UDP with
  acknowledged data messages, audio and video packets, and authentication and encryption by the key streams
  of \<^verbatim>\<open>gkcrypt.c\<close>.  Takion keeps what it sent in \<^verbatim>\<open>takionsendbuffer.c\<close> until it is acknowledged and
  what it received in \<^verbatim>\<open>reorderqueue.c\<close> until it is in order.  Video units go to the frame processor
  (\<^verbatim>\<open>frameprocessor.c\<close>, \<^verbatim>\<open>fec.c\<close>) of the video receiver (\<^verbatim>\<open>videoreceiver.c\<close>), which looks into the slice headers
  (\<^verbatim>\<open>bitstream.c\<close>), audio units to \<^verbatim>\<open>audioreceiver.c\<close>; the state of the controller
  goes out through \<^verbatim>\<open>feedbacksender.c\<close>, the microphone through \<^verbatim>\<open>audiosender.c\<close>.

  \<^bold>\<open>The theories\<close>, each named after what it models; one whose name ends in \<open>Props\<close>, \<open>Spec\<close> or \<open>Run\<close>
  holds the proofs about the model of that name.
  \<^item> \<open>Prelude\<close>: status codes (\<^verbatim>\<open>common.h\<close>), checked buffer accesses, big-endian integers, the monad of
    status codes.  \<open>SeqNum\<close>: \<^verbatim>\<open>seqnum.h\<close>, with the locale \<open>serial_space\<close> of serial-number arithmetic.
    \<open>Common\<close>: \<^verbatim>\<open>common.c\<close>, \<^verbatim>\<open>utils.h\<close>.
  \<^item> \<open>ReorderQueue\<close>, \<open>ReorderQueueSpec\<close>, \<open>ReorderQueueRun\<close>: \<^verbatim>\<open>reorderqueue.c\<close>.  The ring buffer is shown to
    refine a window of cells; its runs conserve packets and deliver them in order.
  \<^item> \<open>SendBuffer\<close>, \<open>SendBufferRun\<close>: \<^verbatim>\<open>takionsendbuffer.c\<close> and \<^verbatim>\<open>remote/rudpsendbuffer.c\<close>, two instances of the
    locale \<open>retransmit_buffer\<close>; the gap-closing loop of the acknowledgement equals a filter, and every
    buffer is freed once or still held.
  \<^item> \<open>Base64\<close>, \<open>Stats\<close> (\<^verbatim>\<open>packetstats.c\<close>, \<^verbatim>\<open>congestioncontrol.c\<close>, \<^verbatim>\<open>audio.c\<close>), \<open>Http\<close>.
  \<^item> \<open>GKCrypt\<close>, \<open>GKCryptProps\<close>: the key stream generated ahead by a thread, as a step relation between the
    thread and its clients; the ring buffer is invisible to them.
  \<^item> \<open>RPCrypt\<close>, \<open>RPCryptTables\<close>, \<open>RPCryptProps\<close>: the registration keys and nonces.
  \<^item> \<open>Controller\<close>, \<open>Feedback\<close>, \<open>FeedbackSender\<close>, \<open>FeedbackSenderProps\<close>: the controller state, its wire formats,
    and the sender thread, refined to a bounded queue of packets of recent events.
  \<^item> \<open>TakionPacket\<close>, \<open>TakionPacketProps\<close>: packet headers, authentication codes, audio and video headers.
    \<open>TakionSend\<close>, \<open>TakionRecv\<close>, \<open>TakionConnect\<close> with their \<open>Props\<close>: sending, receiving and the handshake.
    \<open>TakionDelivery\<close> composes the two ends, \<open>TakionOwnership\<close> accounts for buffers, \<open>VideoFlush\<close>
    shows that the flushing of the video queue ends.
  \<^item> \<open>FrameProcessor\<close>, \<open>FrameProcessorProps\<close>: from the units of a frame, some of them lost, to the frame.
  \<^item> \<open>Bitstream\<close>, \<open>BitstreamProps\<close>, \<open>BitstreamSlice\<close>: the bit reader of \<^verbatim>\<open>vl_rbsp.h\<close> and the headers of
    \<^verbatim>\<open>bitstream.c\<close>; the reader refines the list of the bits, the H.265 slice parser a parser on that list,
    and a reference frame written into a slice is read back.  The model has the emulation prevention bytes;
    the proofs are about slice headers without one.
  \<^item> \<open>VideoReceiver\<close>, \<open>VideoReceiverProps\<close>: packets to frames, reference frames, waiting for an IDR frame;
    the reachable states are well typed, and what is delivered can be decoded.
  \<^item> \<open>Discovery\<close>, \<open>DiscoveryService\<close>, \<open>DiscoveryProps\<close>: finding consoles, and the list of those that answer;
    its invariant, and what its observer is told.
  \<^item> \<open>Rudp\<close>, \<open>RudpProps\<close>: the messages of \<^verbatim>\<open>remote/rudp.c\<close>, which carry the control connection over the
    internet, and its requests with retries.
  \<^item> \<open>AudioReceiver\<close>, \<open>AudioReceiverProps\<close>, \<open>AudioSender\<close>: jitter buffer and microphone.

  \<^bold>\<open>Conventions.\<close>  C integers are words of their width; sizes are natural numbers where they cannot
  underflow.  An operation that may touch memory outside its buffer or fail an assertion returns an
  option, and \<open>None\<close> stands for that; a status code is the left of a sum.  Locks, allocations, sockets and
  clocks are parameters or the fields of an environment record, so that their failures are branches of
  the model.  Buffers are lists of bytes; where ownership matters the states carry lists of the buffers
  freed and lost.  Cryptographic primitives, the erasure code and the floating-point operations of the
  controller code are parameters with named hypotheses.  A callback is a function on the state.

  \<^bold>\<open>Loops.\<close>  Loops over data are recursive functions.  The loops whose end is not evident (pulling and
  flushing queues, playing audio) are \<open>partial_function (option)\<close>, and their theorems state that they
  return.  The handshake is bounded by its retry counters.  No model needs fuel, with the exception of
  event lists, which are the outcomes the environment has in store: sending all of a buffer and receiving
  a header consume one per system call.

  \<^bold>\<open>Not modelled.\<close>  Output and logging; the wrappers of threads, sockets, pipes and clocks; \<^verbatim>\<open>ecdh.c\<close> and the
  decoders, which call libraries; \<^verbatim>\<open>orientation.c\<close>, which computes in floating point; the hole punching in
  \<^verbatim>\<open>remote/holepunch.c\<close>, a client of web services.  Two threads interleave only where a theory says so (the
  key stream and the feedback sender); elsewhere an operation runs under its lock.
\<close>

end
